(* ===== verification/Kates_Prelude.thy ===== *)
theory Kates_Prelude
  imports Main "HOL-Library.Sublist"
begin

text \<open>
  What every component of the development shares: the lemma collections, the parts of Go's
  standard library on strings that the sources use (\<open>strings.TrimSpace\<close>, \<open>strings.Split\<close>,
  \<open>strings.Join\<close>, \<open>strings.HasPrefix\<close>, \<open>strings.Index\<close>, \<open>strconv.Itoa\<close>,
  \<open>strconv.Atoi\<close>), and the facts about them.

  A Go string is a sequence of bytes, so it is a \<^typ>\<open>string\<close> here: a list of
  \<^typ>\<open>char\<close>, each one byte. A Go \<open>int\<close> is 64 bits wide; it is an \<^typ>\<open>int\<close> in
  the models, and where a value comes from text (\<open>strconv.Atoi\<close>) the range check of the
  library is written out.
\<close>

named_theorems wf_intros \<open>well-formedness invariants and their preservation\<close>
named_theorems string_simps \<open>rewriting rules for the string library\<close>

section \<open>Decimal numerals\<close>

text \<open>\<open>strconv.Itoa\<close> and the verb \<open>%d\<close> print a number in decimal.\<close>

definition digit_char :: "nat \<Rightarrow> char" where
  "digit_char d = char_of (48 + d)"

fun show_nat :: "nat \<Rightarrow> string" where
  "show_nat n = (if n < 10 then [digit_char n] else show_nat (n div 10) @ [digit_char (n mod 10)])"

declare show_nat.simps [simp del]

definition show_int :: "int \<Rightarrow> string" where
  "show_int i = (if i < 0 then CHR ''-'' # show_nat (nat (- i)) else show_nat (nat i))"

definition is_digit :: "char \<Rightarrow> bool" where
  "is_digit c \<longleftrightarrow> 48 \<le> (of_char c :: nat) \<and> (of_char c :: nat) \<le> 57"

definition digit_val :: "char \<Rightarrow> nat" where
  "digit_val c = of_char c - 48"

definition digits_val :: "string \<Rightarrow> nat" where
  "digits_val s = foldl (\<lambda>n c. 10 * n + digit_val c) 0 s"

lemma of_digit_char: "d < 10 \<Longrightarrow> (of_char (digit_char d) :: nat) = 48 + d"
  by (simp add: digit_char_def)

lemma is_digit_digit_char [simp]: "d < 10 \<Longrightarrow> is_digit (digit_char d)"
  by (simp add: is_digit_def of_digit_char)

lemma digit_val_digit_char [simp]: "d < 10 \<Longrightarrow> digit_val (digit_char d) = d"
  by (simp add: digit_val_def of_digit_char)

lemma digits_val_snoc [simp]: "digits_val (s @ [c]) = 10 * digits_val s + digit_val c"
  by (simp add: digits_val_def)

lemma digits_val_Nil [simp]: "digits_val [] = 0"
  by (simp add: digits_val_def)

lemma digits_val_single [simp]: "digits_val [c] = digit_val c"
  by (simp add: digits_val_def)

lemma show_nat_nonempty [simp]: "show_nat n \<noteq> []"
  by (subst show_nat.simps) simp

lemma show_nat_digits: "c \<in> set (show_nat n) \<Longrightarrow> is_digit c"
proof (induction n rule: show_nat.induct)
  case (1 n)
  show ?case
  proof (cases "n < 10")
    case True
    with "1.prems" show ?thesis by (simp add: show_nat.simps [of n])
  next
    case False
    with "1.prems" "1.IH" show ?thesis by (auto simp: show_nat.simps [of n])
  qed
qed

lemma digits_val_show_nat [simp]: "digits_val (show_nat n) = n"
proof (induction n rule: show_nat.induct)
  case (1 n)
  show ?case
  proof (cases "n < 10")
    case True
    then show ?thesis by (simp add: show_nat.simps [of n])
  next
    case False
    with "1.IH" show ?thesis by (simp add: show_nat.simps [of n])
  qed
qed

lemma show_nat_inj [simp]: "show_nat m = show_nat n \<longleftrightarrow> m = n"
  by (metis digits_val_show_nat)

text \<open>\<open>strconv.Atoi\<close> on an unsigned run of digits fails above the largest 64-bit integer.\<close>

definition max_int64 :: int where
  "max_int64 = 9223372036854775807"

definition atoi_digits :: "string \<Rightarrow> int option" where
  "atoi_digits s =
     (if s \<noteq> [] \<and> list_all is_digit s \<and> int (digits_val s) \<le> max_int64
      then Some (int (digits_val s)) else None)"

lemma atoi_digits_show_nat [simp]:
  "int n \<le> max_int64 \<Longrightarrow> atoi_digits (show_nat n) = Some (int n)"
  by (auto simp: atoi_digits_def list_all_iff show_nat_digits)

lemma atoi_digits_bounds: "atoi_digits s = Some n \<Longrightarrow> 0 \<le> n \<and> n \<le> max_int64"
  by (auto simp: atoi_digits_def split: if_splits)

section \<open>Splitting and joining\<close>

text \<open>\<open>strings.Split\<close> with a separator of one byte: never empty.\<close>

fun split_on :: "char \<Rightarrow> string \<Rightarrow> string list" where
  "split_on sep [] = [[]]"
| "split_on sep (c # s) =
     (if c = sep then [] # split_on sep s
      else (case split_on sep s of [] \<Rightarrow> [[c]] | p # ps \<Rightarrow> (c # p) # ps))"

fun join_with :: "string \<Rightarrow> string list \<Rightarrow> string" where
  "join_with sep [] = []"
| "join_with sep [s] = s"
| "join_with sep (s # t # ss) = s @ sep @ join_with sep (t # ss)"

lemma split_on_nonempty [simp]: "split_on sep s \<noteq> []"
  by (cases s) (auto split: list.splits)

lemma split_on_append_sep:
  "sep \<notin> set p \<Longrightarrow> split_on sep (p @ sep # s) = p # split_on sep s"
  by (induction p) auto

lemma split_on_no_sep [simp]: "sep \<notin> set s \<Longrightarrow> split_on sep s = [s]"
  by (induction s) auto

lemma split_on_join:
  "ps \<noteq> [] \<Longrightarrow> \<forall>p\<in>set ps. sep \<notin> set p \<Longrightarrow> split_on sep (join_with [sep] ps) = ps"
  by (induction "[sep]" ps rule: join_with.induct) (auto simp: split_on_append_sep)

lemma join_split_on [simp]: "join_with [sep] (split_on sep s) = s"
proof (induction s)
  case Nil
  then show ?case by simp
next
  case (Cons c s)
  then show ?case by (cases "split_on sep s"; cases "tl (split_on sep s)") auto
qed

lemma split_on_parts_no_sep: "p \<in> set (split_on sep s) \<Longrightarrow> sep \<notin> set p"
  by (induction s arbitrary: p) (auto split: list.splits if_splits)

section \<open>White space\<close>

text \<open>
  The UTF-8 encodings of the runes \<open>unicode.IsSpace\<close> holds of: the six ASCII ones, U+0085,
  U+00A0, U+1680, U+2000 to U+200A, U+2028, U+2029, U+202F, U+205F and U+3000.
  \<open>strings.TrimSpace\<close> removes them from both ends.
\<close>

definition space_encodings :: "string list" where
  "space_encodings =
     map (map (char_of :: nat \<Rightarrow> char))
       ([[9], [10], [11], [12], [13], [32], [194, 133], [194, 160], [225, 154, 128],
         [226, 128, 168], [226, 128, 169], [226, 128, 175], [226, 129, 159], [227, 128, 128]] @
        map (\<lambda>k. [226, 128, k]) [128..<139])"

text \<open>\<open>strings.TrimPrefix\<close> and \<open>strings.TrimSuffix\<close> are the option-valued cut with a default.\<close>

definition cut_prefix :: "string \<Rightarrow> string \<Rightarrow> string option" where
  "cut_prefix p s = (if prefix p s then Some (drop (length p) s) else None)"

definition cut_suffix :: "string \<Rightarrow> string \<Rightarrow> string option" where
  "cut_suffix p s = (if suffix p s then Some (take (length s - length p) s) else None)"

definition trim_prefix :: "string \<Rightarrow> string \<Rightarrow> string" where
  "trim_prefix p s = (case cut_prefix p s of None \<Rightarrow> s | Some r \<Rightarrow> r)"

definition trim_suffix :: "string \<Rightarrow> string \<Rightarrow> string" where
  "trim_suffix p s = (case cut_suffix p s of None \<Rightarrow> s | Some r \<Rightarrow> r)"

fun trim_left_of :: "string list \<Rightarrow> string \<Rightarrow> string" where
  "trim_left_of encs [] = []"
| "trim_left_of encs (c # s) =
     (case find (\<lambda>e. e \<noteq> [] \<and> prefix e (c # s)) encs of
        None \<Rightarrow> c # s
      | Some e \<Rightarrow> trim_left_of encs (drop (length e - 1) s))"

definition trim_space :: "string \<Rightarrow> string" where
  "trim_space s =
     rev (trim_left_of (map rev space_encodings) (rev (trim_left_of space_encodings s)))"

text \<open>A string whose first and last bytes neither start nor end a space is left alone.\<close>

definition space_free_end :: "char \<Rightarrow> bool" where
  "space_free_end c \<longleftrightarrow> 33 \<le> (of_char c :: nat) \<and> (of_char c :: nat) < 128"

lemma space_encodings_ends:
  "e \<in> set space_encodings \<Longrightarrow> e \<noteq> [] \<and> \<not> space_free_end (hd e) \<and> \<not> space_free_end (last e)"
  by (auto simp: space_encodings_def space_free_end_def upt_rec)

lemma trim_left_of_id:
  assumes "\<And>e. e \<in> set encs \<Longrightarrow> e \<noteq> [] \<and> hd e \<noteq> c"
  shows "trim_left_of encs (c # s) = c # s"
proof -
  have "find (\<lambda>e. e \<noteq> [] \<and> prefix e (c # s)) encs = None"
    using assms by (fastforce simp: find_None_iff prefix_Cons)
  then show ?thesis by simp
qed

lemma trim_space_id:
  assumes "s \<noteq> []" "space_free_end (hd s)" "space_free_end (last s)"
  shows "trim_space s = s"
proof -
  have l: "trim_left_of space_encodings s = s"
    using assms space_encodings_ends
    by (cases s) (simp_all del: trim_left_of.simps, metis trim_left_of_id)
  obtain c r where r: "rev s = c # r" using assms(1) by (cases "rev s") auto
  then have "last s = c" by (metis last_snoc rev.simps(2) rev_rev_ident)
  with assms(3) have "space_free_end c" by simp
  then have "trim_left_of (map rev space_encodings) (c # r) = c # r"
    using space_encodings_ends by (intro trim_left_of_id) (auto simp: hd_rev)
  with l r show ?thesis by (simp add: trim_space_def rev_swap)
qed

lemma trim_space_Nil [simp]: "trim_space [] = []"
  by (simp add: trim_space_def)

lemma is_digit_space_free: "is_digit c \<Longrightarrow> space_free_end c"
  by (simp add: is_digit_def space_free_end_def)

section \<open>Searching\<close>

text \<open>\<open>strings.LastIndex\<close> of a byte, as Go returns it: -1 when it does not occur.\<close>

fun index_from :: "char \<Rightarrow> int \<Rightarrow> string \<Rightarrow> int" where
  "index_from b i [] = -1"
| "index_from b i (c # s) = (if c = b then i else index_from b (i + 1) s)"

definition index_byte :: "string \<Rightarrow> char \<Rightarrow> int" where
  "index_byte s b = index_from b 0 s"

fun last_index_from :: "char \<Rightarrow> int \<Rightarrow> int \<Rightarrow> string \<Rightarrow> int" where
  "last_index_from b i best [] = best"
| "last_index_from b i best (c # s) = last_index_from b (i + 1) (if c = b then i else best) s"

definition last_index_byte :: "string \<Rightarrow> char \<Rightarrow> int" where
  "last_index_byte s b = last_index_from b 0 (-1) s"

lemma index_from_none: "b \<notin> set s \<Longrightarrow> index_from b i s = -1"
  by (induction s arbitrary: i) auto

lemma index_from_found: "b \<notin> set p \<Longrightarrow> index_from b i (p @ b # s) = i + int (length p)"
  by (induction p arbitrary: i) auto

lemma last_index_from_none: "b \<notin> set s \<Longrightarrow> last_index_from b i best s = best"
  by (induction s arbitrary: i) auto

lemma last_index_from_found:
  "b \<notin> set s \<Longrightarrow> last_index_from b i best (p @ b # s) = i + int (length p)"
  by (induction p arbitrary: i best) (auto simp: last_index_from_none)

lemma last_index_from_bounds:
  "best < i \<Longrightarrow> last_index_from b i best s < i + int (length s) \<and> best \<le> last_index_from b i best s"
proof (induction s arbitrary: i best)
  case Nil
  then show ?case by simp
next
  case (Cons c s)
  show ?case
  proof (cases "c = b")
    case True
    have "i < i + 1" by simp
    from Cons.IH[OF this] Cons.prems True show ?thesis by simp
  next
    case False
    have "best < i + 1" using Cons.prems by simp
    from Cons.IH[OF this] False show ?thesis by simp
  qed
qed

end
