(* ===== verification/Ordering.thy ===== *)
theory Ordering
  imports Kates_Prelude "HOL-Library.Multiset"
begin

text \<open>
  Go sorts with a three-way comparison (\<open>slices.SortFunc\<close>, \<open>slices.SortStableFunc\<close>): a
  negative result puts the first argument before the second. What the sort promises depends
  on what the comparison is. The locale \<open>three_way\<close> is that contract (a total preorder),
  \<open>three_way_total\<close> the stronger one where only equal values compare equal; the components
  interpret them with their own comparisons, and the facts proved here about the sorted list
  are theirs.

  \<open>stable_sort\<close> models every one of Go's sorts: the stable ones by definition, and
  \<open>slices.SortFunc\<close> because it is used only with comparisons where equal means identical,
  for which the sorted list is unique.
\<close>

fun sort_insert :: "('a \<Rightarrow> 'a \<Rightarrow> int) \<Rightarrow> 'a \<Rightarrow> 'a list \<Rightarrow> 'a list" where
  "sort_insert cmp x [] = [x]"
| "sort_insert cmp x (y # ys) = (if cmp x y \<le> 0 then x # y # ys else y # sort_insert cmp x ys)"

fun stable_sort :: "('a \<Rightarrow> 'a \<Rightarrow> int) \<Rightarrow> 'a list \<Rightarrow> 'a list" where
  "stable_sort cmp [] = []"
| "stable_sort cmp (x # xs) = sort_insert cmp x (stable_sort cmp xs)"

text \<open>\<open>slices.Compact\<close> drops every element equal to the one before it.\<close>

definition slices_compact :: "'a list \<Rightarrow> 'a list" where
  "slices_compact xs = remdups_adj xs"

lemma mset_sort_insert [simp]: "mset (sort_insert cmp x xs) = add_mset x (mset xs)"
  by (induction xs) auto

lemma mset_stable_sort [simp]: "mset (stable_sort cmp xs) = mset xs"
  by (induction xs) auto

lemma set_sort_insert [simp]: "set (sort_insert cmp x xs) = insert x (set xs)"
  by (induction xs) auto

lemma set_stable_sort [simp]: "set (stable_sort cmp xs) = set xs"
  by (induction xs) auto

lemma length_stable_sort [simp]: "length (stable_sort cmp xs) = length xs"
  using mset_stable_sort [of cmp xs] by (metis size_mset)

lemma stable_sort_Nil_iff [simp]: "stable_sort cmp xs = [] \<longleftrightarrow> xs = []"
  by (metis length_0_conv length_stable_sort)

lemma set_slices_compact [simp]: "set (slices_compact xs) = set xs"
  by (simp add: slices_compact_def)

lemma slices_compact_Nil_iff [simp]: "slices_compact xs = [] \<longleftrightarrow> xs = []"
  by (simp add: slices_compact_def)

locale three_way =
  fixes cmp :: "'a \<Rightarrow> 'a \<Rightarrow> int"
  assumes cmp_swap: "cmp x y < 0 \<longleftrightarrow> 0 < cmp y x"
    and cmp_trans: "cmp x y \<le> 0 \<Longrightarrow> cmp y z \<le> 0 \<Longrightarrow> cmp x z \<le> 0"
begin

lemma cmp_total: "cmp x y \<le> 0 \<or> cmp y x \<le> 0"
  using cmp_swap [of x y] cmp_swap [of y x] by linarith

lemma cmp_refl: "cmp x x = 0"
  using cmp_swap [of x x] by linarith

lemma cmp_zero_swap: "cmp x y = 0 \<longleftrightarrow> cmp y x = 0"
  using cmp_swap [of x y] cmp_swap [of y x] by linarith

lemma cmp_gtD: "0 < cmp x y \<Longrightarrow> cmp y x \<le> 0"
  using cmp_swap [of y x] by simp

lemma sorted_sort_insert:
  "sorted_wrt (\<lambda>a b. cmp a b \<le> 0) xs \<Longrightarrow> sorted_wrt (\<lambda>a b. cmp a b \<le> 0) (sort_insert cmp x xs)"
proof (induction xs)
  case Nil
  then show ?case by simp
next
  case (Cons y ys)
  then show ?case using cmp_gtD [of x y] cmp_trans [of x y] by auto
qed

lemma sorted_stable_sort: "sorted_wrt (\<lambda>a b. cmp a b \<le> 0) (stable_sort cmp xs)"
  by (induction xs) (auto intro: sorted_sort_insert)

text \<open>Stability: the elements equivalent to any given one keep their order.\<close>

lemma filter_sort_insert:
  "filter (\<lambda>y. cmp y k = 0) (sort_insert cmp x xs) = filter (\<lambda>y. cmp y k = 0) (x # xs)"
proof (induction xs)
  case Nil
  then show ?case by simp
next
  case (Cons y ys)
  have "\<not> (cmp x k = 0 \<and> cmp y k = 0 \<and> \<not> cmp x y \<le> 0)"
    using cmp_trans [of x k y] cmp_zero_swap [of y k] by auto
  with Cons show ?case by auto
qed

lemma stable_sort_stable:
  "filter (\<lambda>y. cmp y k = 0) (stable_sort cmp xs) = filter (\<lambda>y. cmp y k = 0) xs"
  by (induction xs) (auto simp: filter_sort_insert)

text \<open>A list that is in order already is left as it is.\<close>

lemma sort_insert_head:
  "\<forall>y\<in>set xs. cmp x y \<le> 0 \<Longrightarrow> sort_insert cmp x xs = x # xs"
  by (cases xs) auto

lemma stable_sort_id:
  "sorted_wrt (\<lambda>a b. cmp a b \<le> 0) xs \<Longrightarrow> stable_sort cmp xs = xs"
  by (induction xs) (auto simp: sort_insert_head)

end

locale three_way_total = three_way +
  assumes cmp_eq: "cmp x y = 0 \<Longrightarrow> x = y"
begin

lemma cmp_eq_iff: "cmp x y = 0 \<longleftrightarrow> x = y"
  using cmp_eq cmp_refl by blast

lemma remdups_adj_strict:
  "sorted_wrt (\<lambda>a b. cmp a b \<le> 0) xs \<Longrightarrow> sorted_wrt (\<lambda>a b. cmp a b < 0) (remdups_adj xs)"
proof (induction xs rule: remdups_adj.induct)
  case (3 x y xs)
  show ?case
  proof (cases "x = y")
    case True
    with 3 show ?thesis by simp
  next
    case False
    with "3.prems" have xy: "cmp x y < 0" using cmp_eq [of x y] by force
    have rest: "sorted_wrt (\<lambda>a b. cmp a b < 0) (remdups_adj (y # xs))"
      using "3.prems" False by (intro "3.IH") auto
    have "\<forall>z\<in>set (y # xs). cmp x z < 0"
    proof
      fix z assume z: "z \<in> set (y # xs)"
      show "cmp x z < 0"
      proof (cases "z = y")
        case False
        with z "3.prems" have yz: "cmp y z \<le> 0" and xz: "cmp x z \<le> 0" by auto
        have "cmp x z \<noteq> 0"
          using cmp_eq [of x z] cmp_swap [of x y] xy yz by fastforce
        with xz show ?thesis by simp
      qed (simp add: xy)
    qed
    with rest False show ?thesis by simp
  qed
qed auto

lemma compact_sorted_strict:
  "sorted_wrt (\<lambda>a b. cmp a b < 0) (slices_compact (stable_sort cmp xs))"
  unfolding slices_compact_def by (rule remdups_adj_strict) (rule sorted_stable_sort)

lemma strict_distinct: "sorted_wrt (\<lambda>a b. cmp a b < 0) xs \<Longrightarrow> distinct xs"
  by (induction xs) (use cmp_refl in force)+

lemma remdups_adj_strict_id:
  "sorted_wrt (\<lambda>a b. cmp a b < 0) xs \<Longrightarrow> remdups_adj xs = xs"
  using strict_distinct [of xs] by (simp add: distinct_adj_conv_length_remdups_adj remdups_adj_distinct)

lemma compact_sort_strict_id:
  assumes "sorted_wrt (\<lambda>a b. cmp a b < 0) xs"
  shows "slices_compact (stable_sort cmp xs) = xs"
proof -
  have "sorted_wrt (\<lambda>a b. cmp a b \<le> 0) xs"
    using assms by (rule sorted_wrt_mono_rel [rotated]) simp
  then show ?thesis
    using assms by (simp add: stable_sort_id slices_compact_def remdups_adj_strict_id)
qed

end

end
