(* ===== verification/KafkaVersion.thy ===== *)
theory KafkaVersion
  imports Ordering
begin

text \<open>
  The package \<open>cli/pkg/kafkaversion\<close>: release numbers (\<open>version.go\<close>), the window of Kafka
  versions a Strimzi operator supports (\<open>window.go\<close>), and who runs a given Kafka
  (\<open>provider.go\<close>). Every operation of the package is a definition here. The error values
  of \<open>fmt.Errorf\<close> are constructors that carry what the message prints.

  JSON decoding belongs to the library: \<open>parse_deployment_env\<close> takes the decoded document.
\<close>

section \<open>Versions\<close>

record version =
  major :: int
  minor :: int
  patch :: int

datatype version_error =
    ErrInvalidVersion string
  | ErrVersionRange string
  | ErrNoKafkaVersions
  | ErrBelowMirrorFloor version
  | ErrDeploymentJson
  | ErrContainer string version_error
  | ErrNoImagesEnv string
  | ErrNoOperatorContainer

definition cmp_int :: "int \<Rightarrow> int \<Rightarrow> int" where
  "cmp_int a b = (if a < b then -1 else if a > b then 1 else 0)"

definition compare_version :: "version \<Rightarrow> version \<Rightarrow> int" where
  "compare_version a b =
     (if major a \<noteq> major b then cmp_int (major a) (major b)
      else if minor a \<noteq> minor b then cmp_int (minor a) (minor b)
      else cmp_int (patch a) (patch b))"

definition version_less :: "version \<Rightarrow> version \<Rightarrow> bool" where
  "version_less v o' \<longleftrightarrow> compare_version v o' < 0"

definition at_least :: "version \<Rightarrow> version \<Rightarrow> bool" where
  "at_least v o' \<longleftrightarrow> compare_version v o' \<ge> 0"

definition same_minor :: "version \<Rightarrow> version \<Rightarrow> bool" where
  "same_minor v o' \<longleftrightarrow> major v = major o' \<and> minor v = minor o'"

definition version_string :: "version \<Rightarrow> string" where
  "version_string v = show_int (major v) @ ''.'' @ show_int (minor v) @ ''.'' @ show_int (patch v)"

definition major_minor :: "version \<Rightarrow> string" where
  "major_minor v = show_int (major v) @ ''.'' @ show_int (minor v)"

text \<open>One component of \<open>Parse\<close>: digits only, then \<open>strconv.Atoi\<close>, which can only overflow.\<close>

definition parse_component :: "string \<Rightarrow> string \<Rightarrow> version_error + int" where
  "parse_component raw p =
     (if p = [] \<or> \<not> list_all is_digit p then Inl (ErrInvalidVersion raw)
      else (case atoi_digits p of None \<Rightarrow> Inl (ErrVersionRange raw) | Some n \<Rightarrow> Inr n))"

definition parse_version :: "string \<Rightarrow> version_error + version" where
  "parse_version raw =
     (case split_on (CHR ''.'') (trim_prefix ''v'' (trim_space raw)) of
        [a, b, c] \<Rightarrow>
          (case parse_component raw a of Inl e \<Rightarrow> Inl e | Inr x \<Rightarrow>
          (case parse_component raw b of Inl e \<Rightarrow> Inl e | Inr y \<Rightarrow>
          (case parse_component raw c of Inl e \<Rightarrow> Inl e | Inr z \<Rightarrow>
             Inr \<lparr>major = x, minor = y, patch = z\<rparr>)))
      | _ \<Rightarrow> Inl (ErrInvalidVersion raw))"

text \<open>\<open>MustParse\<close> panics where \<open>Parse\<close> fails: the panic is the left value.\<close>

definition must_parse :: "string \<Rightarrow> version_error + version" where
  "must_parse s = parse_version s"

definition wf_version :: "version \<Rightarrow> bool" where
  "wf_version v \<longleftrightarrow>
     0 \<le> major v \<and> major v \<le> max_int64 \<and> 0 \<le> minor v \<and> minor v \<le> max_int64 \<and>
     0 \<le> patch v \<and> patch v \<le> max_int64"

section \<open>Windows\<close>

type_synonym window = "version list"

definition new_window :: "version list \<Rightarrow> window" where
  "new_window vs = slices_compact (stable_sort compare_version vs)"

definition newest :: "window \<Rightarrow> version option" where
  "newest w = (if w = [] then None else Some (last w))"

definition supports :: "window \<Rightarrow> version \<Rightarrow> bool" where
  "supports w v \<longleftrightarrow> v \<in> set w"

definition window_strings :: "window \<Rightarrow> string list" where
  "window_strings w = map version_string w"

definition window_string :: "window \<Rightarrow> string" where
  "window_string w = join_with '' '' (window_strings w)"

text \<open>
  The regular expressions of \<open>window.go\<close>. The class \<open>\s\<close> is the five ASCII spaces of RE2,
  \<open>\b\<close> a change between word and non-word bytes.
\<close>

definition re_space :: "char \<Rightarrow> bool" where
  "re_space c \<longleftrightarrow> (of_char c :: nat) \<in> {9, 10, 12, 13, 32}"

definition re_word :: "char \<Rightarrow> bool" where
  "re_word c \<longleftrightarrow> (let n = (of_char c :: nat) in
     is_digit c \<or> 65 \<le> n \<and> n \<le> 90 \<or> 97 \<le> n \<and> n \<le> 122 \<or> n = 95)"

fun word_at :: "string \<Rightarrow> bool \<Rightarrow> string \<Rightarrow> bool" where
  "word_at w prev [] = False"
| "word_at w prev (c # s) =
     (\<not> prev \<and> prefix w (c # s) \<and>
        (case drop (length w) (c # s) of [] \<Rightarrow> True | d # _ \<Rightarrow> \<not> re_word d)
      \<or> word_at w (re_word c) s)"

definition env_kafka_images :: string where
  "env_kafka_images = ''STRIMZI_KAFKA_IMAGES''"

definition operator_container_name :: string where
  "operator_container_name = ''strimzi-cluster-operator''"

definition images_marker :: "string \<Rightarrow> bool" where
  "images_marker l \<longleftrightarrow> word_at env_kafka_images False l"

definition env_entry_line :: "string \<Rightarrow> bool" where
  "env_entry_line l \<longleftrightarrow>
     (case dropWhile re_space l of
        [] \<Rightarrow> False
      | c # s \<Rightarrow> c = CHR ''-'' \<and> prefix ''name:'' (dropWhile re_space s))"

text \<open>A run of digits followed by a given byte: the digits and what comes after the byte.\<close>

definition digits_then :: "char \<Rightarrow> string \<Rightarrow> (string \<times> string) option" where
  "digits_then b s =
     (case dropWhile is_digit s of
        [] \<Rightarrow> None
      | c # r \<Rightarrow> if c = b \<and> takeWhile is_digit s \<noteq> [] then Some (takeWhile is_digit s, r) else None)"

definition version_line :: "string \<Rightarrow> string option" where
  "version_line l =
     (let s = dropWhile re_space l; s1 = trim_prefix ''v'' s in
      case digits_then (CHR ''.'') s1 of None \<Rightarrow> None | Some (a, r1) \<Rightarrow>
      (case digits_then (CHR ''.'') r1 of None \<Rightarrow> None | Some (b, r2) \<Rightarrow>
       (let c = takeWhile is_digit r2 in
        if c \<noteq> [] \<and> prefix ''='' (dropWhile re_space (dropWhile is_digit r2))
        then Some (a @ ''.'' @ b @ ''.'' @ c) else None)))"

text \<open>The lines a window is read from: after the marker line, up to the next env entry.\<close>

fun image_block :: "string list \<Rightarrow> string list option" where
  "image_block [] = None"
| "image_block (l # ls) =
     (if images_marker l then Some (takeWhile (\<lambda>m. \<not> env_entry_line m) ls) else image_block ls)"

fun parse_lines :: "string list \<Rightarrow> version_error + version list" where
  "parse_lines [] = Inr []"
| "parse_lines (l # ls) =
     (case version_line l of
        None \<Rightarrow> parse_lines ls
      | Some m \<Rightarrow>
          (case parse_version m of
             Inl e \<Rightarrow> Inl e
           | Inr v \<Rightarrow> (case parse_lines ls of Inl e \<Rightarrow> Inl e | Inr vs \<Rightarrow> Inr (v # vs))))"

definition parse_image_map :: "string \<Rightarrow> version_error + window" where
  "parse_image_map txt =
     (let lines = split_on (CHR 0x0A) txt;
          block = (case image_block lines of None \<Rightarrow> lines | Some b \<Rightarrow> b) in
      case parse_lines block of
        Inl e \<Rightarrow> Inl e
      | Inr vs \<Rightarrow> if vs = [] then Inl ErrNoKafkaVersions else Inr (new_window vs))"

text \<open>The tag of an image reference, without its digest; a registry port is not a tag.\<close>

definition image_tag :: "string \<Rightarrow> string" where
  "image_tag ref =
     (let i = index_byte ref (CHR ''@'');
          ref = (if i \<ge> 0 then take (nat i) ref else ref);
          slash = last_index_byte ref (CHR ''/'');
          colon = last_index_byte ref (CHR '':'') in
      if colon < 0 \<or> colon < slash then [] else drop (nat (colon + 1)) ref)"

record container =
  cname :: string
  cimage :: string
  cenv :: "(string \<times> string) list"

fun find_images_env :: "container \<Rightarrow> (string \<times> string) list \<Rightarrow> version_error + window \<times> string" where
  "find_images_env c [] = Inl (ErrNoImagesEnv (cname c))"
| "find_images_env c ((n, v) # es) =
     (if n \<noteq> env_kafka_images then find_images_env c es
      else (case parse_image_map v of
              Inl e \<Rightarrow> Inl (ErrContainer (cname c) e)
            | Inr w \<Rightarrow> Inr (w, image_tag (cimage c))))"

fun find_operator :: "container list \<Rightarrow> version_error + window \<times> string" where
  "find_operator [] = Inl ErrNoOperatorContainer"
| "find_operator (c # cs) =
     (if cname c \<noteq> operator_container_name then find_operator cs else find_images_env c (cenv c))"

definition parse_deployment_env :: "container list option \<Rightarrow> version_error + window \<times> string" where
  "parse_deployment_env decoded =
     (case decoded of None \<Rightarrow> Inl ErrDeploymentJson | Some cs \<Rightarrow> find_operator cs)"

text \<open>\<open>MetadataFor\<close>: the loop keeps the best candidate seen so far.\<close>

fun pick_newer :: "version option \<Rightarrow> version \<Rightarrow> version" where
  "pick_newer None x = x"
| "pick_newer (Some b) x = (if version_less b x then x else b)"

fun metadata_loop :: "version \<Rightarrow> version option \<Rightarrow> window \<Rightarrow> version option" where
  "metadata_loop v best [] = best"
| "metadata_loop v best (x # xs) =
     (if major x > major v \<or> major x = major v \<and> minor x \<ge> minor v then metadata_loop v best xs
      else metadata_loop v (Some (pick_newer best x)) xs)"

definition metadata_for :: "version \<Rightarrow> window \<Rightarrow> string" where
  "metadata_for v w =
     (case metadata_loop v None w of None \<Rightarrow> major_minor v | Some b \<Rightarrow> major_minor b)"

section \<open>Providers\<close>

datatype provider = ProviderStrimzi | ProviderLegacy

datatype legacy_mode = LegacyZooKeeper | LegacyKRaftBuilt | LegacyKRaftOfficial

definition min_mirror_source :: version where
  "min_mirror_source = \<lparr>major = 2, minor = 1, patch = 0\<rparr>"

definition default_legacy_registry :: string where
  "default_legacy_registry = ''ghcr.io/bmscomp''"

definition first_kraft :: version where
  "first_kraft = \<lparr>major = 3, minor = 3, patch = 0\<rparr>"

definition first_official_image :: version where
  "first_official_image = \<lparr>major = 3, minor = 7, patch = 0\<rparr>"

definition legacy_mode_for :: "version \<Rightarrow> legacy_mode" where
  "legacy_mode_for v =
     (if version_less v first_kraft then LegacyZooKeeper
      else if version_less v first_official_image then LegacyKRaftBuilt
      else LegacyKRaftOfficial)"

definition legacy_image_for :: "version \<Rightarrow> string \<Rightarrow> string" where
  "legacy_image_for v registry =
     (if at_least v first_official_image then ''apache/kafka:'' @ version_string v
      else (if registry = [] then default_legacy_registry else registry) @
             ''/kates-legacy-kafka:'' @ version_string v)"

definition provider_for :: "version \<Rightarrow> window \<Rightarrow> version_error + provider \<times> legacy_mode option" where
  "provider_for v w =
     (if version_less v min_mirror_source then Inl (ErrBelowMirrorFloor v)
      else if supports w v then Inr (ProviderStrimzi, None)
      else Inr (ProviderLegacy, Some (legacy_mode_for v)))"

section \<open>The comparison is a total order\<close>

lemma cmp_int_simps [simp]:
  "cmp_int a b < 0 \<longleftrightarrow> a < b" "cmp_int a b = 0 \<longleftrightarrow> a = b" "0 < cmp_int a b \<longleftrightarrow> b < a"
  "cmp_int a b \<le> 0 \<longleftrightarrow> a \<le> b" "0 \<le> cmp_int a b \<longleftrightarrow> b \<le> a"
  by (auto simp: cmp_int_def)

interpretation ver: three_way_total compare_version
proof unfold_locales
  fix x y z :: version
  show "compare_version x y < 0 \<longleftrightarrow> 0 < compare_version y x"
    by (auto simp: compare_version_def)
  show "compare_version x y \<le> 0 \<Longrightarrow> compare_version y z \<le> 0 \<Longrightarrow> compare_version x z \<le> 0"
    by (auto simp: compare_version_def split: if_splits)
  show "compare_version x y = 0 \<Longrightarrow> x = y"
    by (auto simp: compare_version_def intro: version.equality split: if_splits)
qed

lemma version_less_iff:
  "version_less a b \<longleftrightarrow>
     major a < major b \<or> major a = major b \<and> (minor a < minor b \<or> minor a = minor b \<and> patch a < patch b)"
  by (auto simp: version_less_def compare_version_def)

lemma at_least_not_less: "at_least a b \<longleftrightarrow> \<not> version_less a b"
  by (auto simp: at_least_def version_less_def)

section \<open>Parsing and printing\<close>

lemma parse_component_Inr:
  "parse_component raw p = Inr n \<longleftrightarrow> atoi_digits p = Some n"
  by (auto simp: parse_component_def atoi_digits_def split: option.splits)

lemma dot_not_digit: "list_all is_digit p \<Longrightarrow> CHR ''.'' \<notin> set p"
  by (auto simp: list_all_iff is_digit_def)

lemma atoi_digits_no_dot: "atoi_digits p = Some n \<Longrightarrow> CHR ''.'' \<notin> set p"
  by (auto simp: atoi_digits_def dot_not_digit split: if_splits)

lemma split_three_dots:
  assumes "atoi_digits a = Some x" "atoi_digits b = Some y" "atoi_digits c = Some z"
  shows "split_on (CHR ''.'') (a @ ''.'' @ b @ ''.'' @ c) = [a, b, c]"
  using assms [THEN atoi_digits_no_dot] by (simp add: split_on_append_sep)

text \<open>
  \<open>Parse\<close> accepts exactly the strings that are three runs of decimal digits with two dots
  between them, once the white space around them and one leading \<open>v\<close> are removed, each run
  within 64 bits, and the version it returns has those numbers.
\<close>
theorem parse_version_accepts:
  "parse_version s = Inr v \<longleftrightarrow>
     (\<exists>a b c. trim_prefix ''v'' (trim_space s) = a @ ''.'' @ b @ ''.'' @ c \<and>
        atoi_digits a = Some (major v) \<and> atoi_digits b = Some (minor v) \<and> atoi_digits c = Some (patch v))"
  (is "?L \<longleftrightarrow> ?R")
proof
  let ?t = "trim_prefix ''v'' (trim_space s)"
  assume ?L
  then obtain a b c where sp: "split_on (CHR ''.'') ?t = [a, b, c]"
    and n: "atoi_digits a = Some (major v)" "atoi_digits b = Some (minor v)" "atoi_digits c = Some (patch v)"
    by (auto simp: parse_version_def parse_component_Inr split: list.splits sum.splits)
  have "?t = join_with ''.'' [a, b, c]"
    using join_split_on [of "CHR ''.''" ?t] sp by simp
  with n show ?R by auto
next
  assume ?R
  then obtain a b c where t: "trim_prefix ''v'' (trim_space s) = a @ ''.'' @ b @ ''.'' @ c"
    and n: "atoi_digits a = Some (major v)" "atoi_digits b = Some (minor v)" "atoi_digits c = Some (patch v)"
    by blast
  then have "split_on (CHR ''.'') (trim_prefix ''v'' (trim_space s)) = [a, b, c]"
    unfolding t using n by (intro split_three_dots)
  with n show ?L
    by (simp add: parse_version_def parse_component_Inr [THEN iffD2])
qed

lemma parse_version_wf: "parse_version s = Inr v \<Longrightarrow> wf_version v"
  unfolding wf_version_def
  by (auto simp: parse_version_def parse_component_Inr split: list.splits sum.splits dest: atoi_digits_bounds)

lemma show_int_nonneg: "0 \<le> i \<Longrightarrow> show_int i = show_nat (nat i)"
  by (simp add: show_int_def)

lemma atoi_show_int: "0 \<le> i \<Longrightarrow> i \<le> max_int64 \<Longrightarrow> atoi_digits (show_int i) = Some i"
  by (simp add: show_int_nonneg)

lemma show_nat_ends: "is_digit (hd (show_nat n)) \<and> is_digit (last (show_nat n))"
  using show_nat_digits [OF hd_in_set [OF show_nat_nonempty]] show_nat_digits [OF last_in_set [OF show_nat_nonempty]]
  by blast

lemma version_string_ends:
  assumes "wf_version v"
  shows "version_string v \<noteq> [] \<and> is_digit (hd (version_string v)) \<and> is_digit (last (version_string v))"
  using assms show_nat_ends by (simp add: version_string_def wf_version_def show_int_nonneg)

lemma digit_not_v: "is_digit c \<Longrightarrow> c \<noteq> CHR ''v''"
  by (auto simp: is_digit_def)

lemma trim_prefix_v_digit: "s \<noteq> [] \<Longrightarrow> is_digit (hd s) \<Longrightarrow> trim_prefix ''v'' s = s"
  using digit_not_v by (cases s) (auto simp: trim_prefix_def cut_prefix_def)

lemma parse_version_string:
  assumes "wf_version v"
  shows "parse_version (version_string v) = Inr v"
proof -
  note ends = version_string_ends [OF assms]
  have "trim_prefix ''v'' (trim_space (version_string v)) = version_string v"
    using ends by (simp add: trim_space_id is_digit_space_free trim_prefix_v_digit)
  also have "\<dots> = show_int (major v) @ ''.'' @ show_int (minor v) @ ''.'' @ show_int (patch v)"
    by (simp add: version_string_def)
  finally have t: "trim_prefix ''v'' (trim_space (version_string v)) = \<dots>" .
  have n: "atoi_digits (show_int (major v)) = Some (major v)"
    "atoi_digits (show_int (minor v)) = Some (minor v)" "atoi_digits (show_int (patch v)) = Some (patch v)"
    using assms by (auto simp: wf_version_def intro!: atoi_show_int)
  have "split_on (CHR ''.'') (show_int (major v) @ ''.'' @ show_int (minor v) @ ''.'' @ show_int (patch v)) =
      [show_int (major v), show_int (minor v), show_int (patch v)]"
    using n by (rule split_three_dots)
  with t n show ?thesis
    by (simp add: parse_version_def parse_component_Inr [THEN iffD2])
qed

text \<open>
  Printing a version and parsing the text gives the version back, for every version whose
  numbers are non-negative 64-bit integers, which are the only ones \<open>Parse\<close> returns.
\<close>
theorem parse_print_roundtrip:
  assumes "wf_version v"
  shows "parse_version (version_string v) = Inr v"
  by (rule parse_version_string [OF assms])

theorem parse_print_roundtrip_witness:
  "parse_version ''4.2.10'' = Inr \<lparr>major = 4, minor = 2, patch = 10\<rparr>"
proof -
  have "wf_version \<lparr>major = 4, minor = 2, patch = 10\<rparr>"
    by (simp add: wf_version_def max_int64_def)
  moreover have "version_string \<lparr>major = 4, minor = 2, patch = 10\<rparr> = ''4.2.10''"
    by code_simp
  ultimately show ?thesis using parse_print_roundtrip by metis
qed

section \<open>Windows are sorted and free of duplicates\<close>

definition wf_window :: "window \<Rightarrow> bool" where
  "wf_window w \<longleftrightarrow> sorted_wrt version_less w"

lemma sorted_wrt_version_less: "sorted_wrt version_less w \<longleftrightarrow> sorted_wrt (\<lambda>a b. compare_version a b < 0) w"
  by (simp add: version_less_def [abs_def])

lemma new_window_sorted:
  "wf_window (new_window vs) \<and> set (new_window vs) = set vs \<and>
   (wf_window vs \<longrightarrow> new_window vs = vs)"
  unfolding wf_window_def sorted_wrt_version_less new_window_def
  using ver.compact_sorted_strict ver.compact_sort_strict_id by auto

text \<open>
  \<open>NewWindow\<close> builds a window: strictly ascending in the order of \<open>Compare\<close>, so without
  duplicates, with exactly the versions it was given; and it leaves a list that already is a
  window as it is.
\<close>
theorem new_window_wf:
  "wf_window (new_window vs) \<and> set (new_window vs) = set vs \<and>
   (wf_window vs \<longrightarrow> new_window vs = vs)"
  by (rule new_window_sorted)

theorem new_window_wf_witness:
  "new_window [\<lparr>major = 4, minor = 3, patch = 0\<rparr>, \<lparr>major = 4, minor = 2, patch = 1\<rparr>,
     \<lparr>major = 4, minor = 3, patch = 0\<rparr>] =
   [\<lparr>major = 4, minor = 2, patch = 1\<rparr>, \<lparr>major = 4, minor = 3, patch = 0\<rparr>] \<and>
   new_window [\<lparr>major = 4, minor = 2, patch = 1\<rparr>, \<lparr>major = 4, minor = 3, patch = 0\<rparr>] =
   [\<lparr>major = 4, minor = 2, patch = 1\<rparr>, \<lparr>major = 4, minor = 3, patch = 0\<rparr>]"
proof -
  let ?w = "[\<lparr>major = 4, minor = 2, patch = 1\<rparr>, \<lparr>major = 4, minor = 3, patch = 0\<rparr>]"
  have "wf_window ?w" by (simp add: wf_window_def version_less_iff)
  then have "new_window ?w = ?w" using new_window_wf [of ?w] by blast
  then show ?thesis
    by (simp add: new_window_def slices_compact_def compare_version_def cmp_int_def)
qed

lemma last_strict_greatest:
  "sorted_wrt version_less w \<Longrightarrow> x \<in> set w \<Longrightarrow> x = last w \<or> version_less x (last w)"
proof (induction w)
  case (Cons y w)
  show ?case
  proof (cases "x = y")
    case True
    with Cons.prems show ?thesis by (cases "w = []") auto
  next
    case False
    with Cons show ?thesis by auto
  qed
qed simp

lemma newest_greatest:
  assumes "newest (new_window vs) = Some v"
  shows "v \<in> set vs \<and> (\<forall>x\<in>set vs. \<not> version_less v x)"
proof -
  have ne: "new_window vs \<noteq> []" and v: "v = last (new_window vs)"
    using assms by (auto simp: newest_def split: if_splits)
  have "v \<in> set vs" using new_window_sorted [of vs] last_in_set [OF ne] v by simp
  moreover have "\<not> version_less v x" if "x \<in> set vs" for x
  proof -
    have "x = v \<or> version_less x v"
      using that new_window_sorted [of vs] last_strict_greatest [of "new_window vs" x] v
      by (simp add: wf_window_def)
    then show ?thesis by (auto simp: version_less_iff)
  qed
  ultimately show ?thesis by blast
qed

section \<open>The metadata version\<close>

definition below_line :: "version \<Rightarrow> version \<Rightarrow> bool" where
  "below_line v x \<longleftrightarrow> major x < major v \<or> major x = major v \<and> minor x < minor v"

lemma metadata_loop_spec:
  "metadata_loop v best w = Some b \<Longrightarrow> (\<And>b0. best = Some b0 \<Longrightarrow> below_line v b0) \<Longrightarrow>
     below_line v b \<and> (b \<in> set w \<or> best = Some b) \<and>
     (\<forall>x\<in>set w. below_line v x \<longrightarrow> \<not> version_less b x) \<and> (\<forall>b0. best = Some b0 \<longrightarrow> \<not> version_less b b0)"
proof (induction w arbitrary: best)
  case Nil
  then show ?case by (auto simp: version_less_iff)
next
  case (Cons x w)
  show ?case
  proof (cases "below_line v x")
    case False
    then have "metadata_loop v best w = Some b"
      using Cons.prems(1) by (auto simp: below_line_def not_less split: if_splits)
    from Cons.IH [OF this Cons.prems(2)] False show ?thesis by auto
  next
    case True
    let ?best = "pick_newer best x"
    have step: "metadata_loop v (Some ?best) w = Some b"
      using Cons.prems(1) True by (auto simp: below_line_def split: if_splits)
    have "below_line v ?best"
      using True Cons.prems(2) by (cases best) auto
    with Cons.IH [OF step]
    have ih: "below_line v b" "b \<in> set w \<or> b = ?best"
      "\<forall>x\<in>set w. below_line v x \<longrightarrow> \<not> version_less b x" "\<not> version_less b ?best"
      by auto
    have "\<not> version_less b x \<and> (\<forall>b0. best = Some b0 \<longrightarrow> \<not> version_less b b0)"
      using ih(4) by (cases best) (auto simp: version_less_iff split: if_splits)
    with ih True show ?thesis by (cases best) (auto split: if_splits)
  qed
qed

lemma metadata_loop_None:
  "metadata_loop v best w = None \<longleftrightarrow> best = None \<and> (\<forall>x\<in>set w. \<not> below_line v x)"
proof (induction w arbitrary: best)
  case (Cons x w)
  then show ?case by (cases best) (auto simp: below_line_def)
qed simp

text \<open>
  The metadata version pinned for a Kafka version is the minor line of the newest release
  of the window whose minor line is strictly older; only when the window has no older line is
  it the version's own. So the metadata version never runs ahead of the Kafka version, and a
  rollback of one minor line stays possible whenever the window has one.
\<close>
theorem metadata_for_one_line_behind:
  "if \<exists>x\<in>set w. below_line v x
   then \<exists>b\<in>set w. below_line v b \<and> (\<forall>x\<in>set w. below_line v x \<longrightarrow> \<not> version_less b x) \<and>
          metadata_for v w = major_minor b
   else metadata_for v w = major_minor v"
proof (cases "metadata_loop v None w")
  case None
  then show ?thesis using metadata_loop_None [of v None w] by (simp add: metadata_for_def)
next
  case (Some b)
  then have "below_line v b \<and> b \<in> set w \<and> (\<forall>x\<in>set w. below_line v x \<longrightarrow> \<not> version_less b x)"
    using metadata_loop_spec [of v None w b] by simp
  with Some show ?thesis by (auto simp: metadata_for_def)
qed

theorem metadata_for_one_line_behind_witness:
  "metadata_for \<lparr>major = 4, minor = 3, patch = 0\<rparr>
     [\<lparr>major = 4, minor = 2, patch = 0\<rparr>, \<lparr>major = 4, minor = 2, patch = 1\<rparr>, \<lparr>major = 4, minor = 3, patch = 0\<rparr>] = ''4.2''"
proof -
  let ?v = "\<lparr>major = 4, minor = 3, patch = 0\<rparr>"
  let ?w = "[\<lparr>major = 4, minor = 2, patch = 0\<rparr>, \<lparr>major = 4, minor = 2, patch = 1\<rparr>, ?v]"
  have "\<exists>x\<in>set ?w. below_line ?v x" by (simp add: below_line_def)
  then obtain b where "b \<in> set ?w" "below_line ?v b" "metadata_for ?v ?w = major_minor b"
    using metadata_for_one_line_behind [of ?w ?v] by auto
  moreover from this have "b = \<lparr>major = 4, minor = 2, patch = 0\<rparr> \<or> b = \<lparr>major = 4, minor = 2, patch = 1\<rparr>"
    by (auto simp: below_line_def)
  moreover have "major_minor \<lparr>major = 4, minor = 2, patch = 0\<rparr> = ''4.2'' \<and>
      major_minor \<lparr>major = 4, minor = 2, patch = 1\<rparr> = ''4.2''"
    by code_simp
  ultimately show ?thesis by metis
qed

section \<open>Who runs a Kafka\<close>

text \<open>
  The provider decision: a version older than 2.1.0 is refused and no other is; a version
  in the operator's window is run by Strimzi; any other by the legacy chart, in ZooKeeper mode
  below 3.3.0, in the built KRaft image below 3.7.0 and in the official image from there, and
  the image of that chart is \<open>apache/kafka\<close> exactly in the last mode.
\<close>
theorem provider_for_decision:
  "provider_for v w =
     (if major v < 2 \<or> major v = 2 \<and> minor v < 1 \<or> major v = 2 \<and> minor v = 1 \<and> patch v < 0
      then Inl (ErrBelowMirrorFloor v)
      else if v \<in> set w then Inr (ProviderStrimzi, None)
      else Inr (ProviderLegacy, Some (legacy_mode_for v))) \<and>
   (legacy_mode_for v = LegacyZooKeeper \<longleftrightarrow> version_less v first_kraft) \<and>
   (legacy_mode_for v = LegacyKRaftOfficial \<longleftrightarrow> at_least v first_official_image) \<and>
   legacy_image_for v r =
     (if legacy_mode_for v = LegacyKRaftOfficial then ''apache/kafka:'' @ version_string v
      else (if r = [] then ''ghcr.io/bmscomp'' else r) @ ''/kates-legacy-kafka:'' @ version_string v)"
  by (auto simp: provider_for_def supports_def legacy_mode_for_def legacy_image_for_def at_least_not_less
      version_less_iff min_mirror_source_def first_kraft_def first_official_image_def default_legacy_registry_def)

section \<open>Reading the image map\<close>

lemma digits_then_hit:
  assumes "d \<noteq> []" "list_all is_digit d" "\<not> is_digit b"
  shows "digits_then b (d @ b # r) = Some (d, r)"
proof -
  have "takeWhile is_digit (d @ b # r) = d" "dropWhile is_digit (d @ b # r) = b # r"
    using assms(2,3) by (simp_all add: list_all_iff takeWhile_append2 dropWhile_append2)
  with assms(1) show ?thesis by (simp add: digits_then_def)
qed

lemma not_digit_chars: "\<not> is_digit (CHR ''.'')" "\<not> is_digit (CHR ''='')"
  by (simp_all add: is_digit_def)

lemma digit_not_re_space: "is_digit c \<Longrightarrow> \<not> re_space c"
  by (auto simp: is_digit_def re_space_def)

definition image_line :: "string \<Rightarrow> version \<Rightarrow> string \<Rightarrow> string" where
  "image_line indent v img = indent @ version_string v @ ''='' @ img"

lemma version_string_parts:
  assumes "wf_version v"
  obtains a b c where "version_string v = a @ ''.'' @ b @ ''.'' @ c"
    "a \<noteq> []" "list_all is_digit a" "b \<noteq> []" "list_all is_digit b" "c \<noteq> []" "list_all is_digit c"
  using assms that [of "show_int (major v)" "show_int (minor v)" "show_int (patch v)"]
  by (auto simp: version_string_def wf_version_def show_int_nonneg list_all_iff show_nat_digits)

lemma version_line_image_line:
  assumes v: "wf_version v" and i: "list_all re_space indent"
  shows "version_line (image_line indent v img) = Some (version_string v)"
proof -
  obtain a b c where vs: "version_string v = a @ ''.'' @ b @ ''.'' @ c"
    and ne: "a \<noteq> []" "b \<noteq> []" "c \<noteq> []" and dg: "list_all is_digit a" "list_all is_digit b" "list_all is_digit c"
    using version_string_parts [OF v] by blast
  have hd: "version_string v \<noteq> []" "is_digit (hd (version_string v))"
    using version_string_ends [OF v] by auto
  then obtain x xs where x: "version_string v = x # xs" "is_digit x" by (cases "version_string v") auto
  have drop: "dropWhile re_space (image_line indent v img) = version_string v @ ''='' @ img"
    using i x digit_not_re_space by (simp add: image_line_def dropWhile_append2 list_all_iff)
  have tp: "trim_prefix ''v'' (version_string v @ ''='' @ img) = version_string v @ ''='' @ img"
    using x by (intro trim_prefix_v_digit) auto
  have r2: "takeWhile is_digit (c @ CHR ''='' # img) = c" "dropWhile is_digit (c @ CHR ''='' # img) = CHR ''='' # img"
    using dg(3) not_digit_chars by (simp_all add: list_all_iff takeWhile_append2 dropWhile_append2)
  show ?thesis
    unfolding version_line_def drop Let_def tp unfolding vs
    using ne dg r2 not_digit_chars by (simp add: digits_then_hit re_space_def)
qed

lemma env_entry_line_image_line:
  assumes v: "wf_version v" and i: "list_all re_space indent"
  shows "\<not> env_entry_line (image_line indent v img)"
proof -
  obtain x xs where x: "version_string v = x # xs" "is_digit x"
    using version_string_ends [OF v] by (cases "version_string v") auto
  then have "dropWhile re_space (image_line indent v img) = x # xs @ ''='' @ img"
    using i digit_not_re_space by (simp add: image_line_def dropWhile_append2 list_all_iff)
  moreover have "x \<noteq> CHR ''-''" using x(2) by (auto simp: is_digit_def)
  ultimately show ?thesis by (simp add: env_entry_line_def)
qed

lemma image_block_found:
  assumes "\<forall>l\<in>set pre. \<not> images_marker l" "images_marker m"
  shows "image_block (pre @ m # ls) = Some (takeWhile (\<lambda>l. \<not> env_entry_line l) ls)"
  using assms by (induction pre) auto

lemma parse_lines_image_lines:
  "\<forall>(i, v, img)\<in>set es. wf_version v \<and> list_all re_space i \<Longrightarrow>
     parse_lines (map (\<lambda>(i, v, img). image_line i v img) es) = Inr (map (\<lambda>(i, v, img). v) es)"
  by (induction es) (auto simp: version_line_image_line parse_version_string)

text \<open>
  Read from a manifest or the chart's template, the window is that of the block after the
  \<open>STRIMZI_KAFKA_IMAGES\<close> entry alone: whatever the lines before it and whatever follows the next
  env entry (the Connect and MirrorMaker 2 maps), the result is the window of the block's own
  versions.
\<close>
theorem parse_image_map_reads_its_block:
  assumes "es \<noteq> []" and "\<forall>(i, v, img)\<in>set es. wf_version v \<and> list_all re_space i"
    and "\<forall>l\<in>set pre. \<not> images_marker l" and "images_marker m" and "env_entry_line nxt"
    and "\<forall>l\<in>set (pre @ m # map (\<lambda>(i, v, img). image_line i v img) es @ nxt # rest). CHR 0x0A \<notin> set l"
  shows "parse_image_map (join_with [CHR 0x0A]
           (pre @ m # map (\<lambda>(i, v, img). image_line i v img) es @ nxt # rest)) =
         Inr (new_window (map (\<lambda>(i, v, img). v) es))"
proof -
  let ?block = "map (\<lambda>(i, v, img). image_line i v img) es"
  let ?lines = "pre @ m # ?block @ nxt # rest"
  have lines: "split_on (CHR 0x0A) (join_with [CHR 0x0A] ?lines) = ?lines"
    using assms(6) by (intro split_on_join) auto
  have "\<forall>l\<in>set ?block. \<not> env_entry_line l"
    using assms(2) env_entry_line_image_line by fastforce
  then have "takeWhile (\<lambda>l. \<not> env_entry_line l) (?block @ nxt # rest) = ?block"
    using assms(5) by (subst takeWhile_append2) auto
  then have "image_block ?lines = Some ?block"
    using assms(3,4) by (simp add: image_block_found)
  then show ?thesis
    unfolding parse_image_map_def lines Let_def
    using parse_lines_image_lines [OF assms(2)] assms(1) by simp
qed

theorem parse_image_map_reads_its_block_witness:
  "parse_image_map (join_with [CHR 0x0A]
     [''env:'', ''- name: STRIMZI_KAFKA_IMAGES'', ''  4.2.0=kafka:4.2.0'', ''- name: STRIMZI_KAFKA_CONNECT_IMAGES'',
      ''  4.1.0=kafka:4.1.0'']) = Inr [\<lparr>major = 4, minor = 2, patch = 0\<rparr>]"
proof -
  let ?v = "\<lparr>major = 4, minor = 2, patch = 0\<rparr>"
  let ?es = "[(''  '', ?v, ''kafka:4.2.0'')]"
  have line: "image_line ''  '' ?v ''kafka:4.2.0'' = ''  4.2.0=kafka:4.2.0''" by code_simp
  have wf: "wf_version ?v" by (simp add: wf_version_def max_int64_def)
  have "parse_image_map (join_with [CHR 0x0A]
      ([''env:''] @ ''- name: STRIMZI_KAFKA_IMAGES'' # map (\<lambda>(i, v, img). image_line i v img) ?es @
        ''- name: STRIMZI_KAFKA_CONNECT_IMAGES'' # [''  4.1.0=kafka:4.1.0''])) =
      Inr (new_window (map (\<lambda>(i, v, img). v) ?es))"
  proof (rule parse_image_map_reads_its_block)
    show "images_marker ''- name: STRIMZI_KAFKA_IMAGES''" by code_simp
    show "\<forall>l\<in>set [''env:'']. \<not> images_marker l" by code_simp
    show "env_entry_line ''- name: STRIMZI_KAFKA_CONNECT_IMAGES''" by code_simp
  qed (use wf line in \<open>auto simp: re_space_def\<close>)
  then show ?thesis by (simp add: line new_window_def slices_compact_def)
qed

section \<open>Image tags\<close>

lemma image_tag_of_tagged:
  assumes "CHR ''@'' \<notin> set (repo @ tag)" "CHR ''/'' \<notin> set tag" "CHR '':'' \<notin> set tag"
    and "digest = [] \<or> prefix ''@'' digest"
  shows "image_tag (repo @ '':'' @ tag @ digest) = tag"
proof -
  have cut: "(let i = index_byte (repo @ '':'' @ tag @ digest) (CHR ''@'') in
      if i \<ge> 0 then take (nat i) (repo @ '':'' @ tag @ digest) else repo @ '':'' @ tag @ digest) = repo @ '':'' @ tag"
  proof (cases digest)
    case Nil
    with assms(1) show ?thesis by (simp add: index_byte_def index_from_none)
  next
    case (Cons c r)
    with assms(4) have d: "digest = CHR ''@'' # r" by auto
    have "index_byte ((repo @ '':'' @ tag) @ CHR ''@'' # r) (CHR ''@'') = int (length (repo @ '':'' @ tag))"
      using assms(1) by (subst index_byte_def, subst index_from_found) auto
    with d show ?thesis by (simp add: nat_add_distrib)
  qed
  have colon: "last_index_byte (repo @ CHR '':'' # tag) (CHR '':'') = int (length repo)"
    using assms(3) by (simp add: last_index_byte_def last_index_from_found)
  have slash: "last_index_byte (repo @ CHR '':'' # tag) (CHR ''/'') < int (length repo) + 1"
  proof (cases "CHR ''/'' \<in> set repo")
    case True
    then obtain p q where pq: "repo = p @ CHR ''/'' # q" "CHR ''/'' \<notin> set q"
      by (meson split_list_last)
    then have "last_index_byte (p @ CHR ''/'' # (q @ CHR '':'' # tag)) (CHR ''/'') = int (length p)"
      using assms(2) by (subst last_index_byte_def, subst last_index_from_found) auto
    with pq show ?thesis by simp
  next
    case False
    with assms(2) show ?thesis by (simp add: last_index_byte_def last_index_from_none)
  qed
  show ?thesis
    unfolding image_tag_def Let_def cut [unfolded Let_def] using colon slash by (simp add: nat_add_distrib)
qed

end
