(* ===== verification/Components.thy ===== *)
theory Components
  imports Kates_Prelude
begin

text \<open>
  The package \<open>cli/pkg/components\<close>: the one table of what kates installs, and the CRD groups
  the stack brings. \<open>kates deploy\<close> builds its plan and its pipeline from it (\<open>DeployPlan\<close>),
  \<open>kates clean\<close> reads it to know what to uninstall. Every operation of the package is here.
  The slices its accessors clone are values in the model, so \<open>All\<close>, \<open>Groups\<close> and
  \<open>Group\<close> return the table's entries themselves. An icon is given by its UTF-8 bytes.
\<close>

definition utf8 :: "nat list \<Rightarrow> string" where
  "utf8 bs = map char_of bs"

definition group_operators :: string where "group_operators = ''A''"
definition group_core :: string where "group_core = ''B''"
definition group_apps :: string where "group_apps = ''C''"

datatype namespace_key =
  NSKafka | NSConnect | NSDatabase | NSApp | NSChaos | NSMonitoring | NSKafkaUI | NSMM2

record placement =
  pl_kafka :: string
  pl_connect :: string
  pl_database :: string
  pl_app :: string
  pl_chaos :: string
  pl_monitoring :: string
  pl_kafka_ui :: string
  pl_mm2 :: string
  kafka_name :: string

definition default_placement :: placement where
  "default_placement =
     \<lparr>pl_kafka = ''kafka'', pl_connect = ''connect'', pl_database = ''database'', pl_app = ''kates'',
      pl_chaos = ''litmus'', pl_monitoring = ''monitoring'', pl_kafka_ui = ''kafka'', pl_mm2 = ''kafka'',
      kafka_name = ''krafter''\<rparr>"

definition single_namespace :: string where
  "single_namespace = ''kates-stack''"

definition single_placement :: "string \<Rightarrow> string \<Rightarrow> string \<Rightarrow> placement" where
  "single_placement ns database kafkaName =
     \<lparr>pl_kafka = ns, pl_connect = ns, pl_database = database, pl_app = ns,
      pl_chaos = ns, pl_monitoring = ns, pl_kafka_ui = ns, pl_mm2 = ns,
      kafka_name = kafkaName\<rparr>"

record comp_row =
  comp_id :: string
  comp_name :: string
  comp_icon :: string
  comp_group :: string
  comp_release :: string
  comp_chart :: string
  fixed_namespace :: string
  namespace_key :: "namespace_key option"
  is_operator :: bool
  comp_crd_group :: string
  comp_selector :: string

definition kafka_release :: string where
  "kafka_release = ''$kafka''"

definition release_name :: "comp_row \<Rightarrow> placement \<Rightarrow> string" where
  "release_name c p = (if comp_release c = kafka_release then kafka_name p else comp_release c)"

definition namespace_of :: "comp_row \<Rightarrow> placement \<Rightarrow> string" where
  "namespace_of c p =
     (if fixed_namespace c \<noteq> [] then fixed_namespace c
      else (case namespace_key c of
              None \<Rightarrow> []
            | Some NSKafka \<Rightarrow> pl_kafka p
            | Some NSConnect \<Rightarrow> pl_connect p
            | Some NSDatabase \<Rightarrow> pl_database p
            | Some NSApp \<Rightarrow> pl_app p
            | Some NSChaos \<Rightarrow> pl_chaos p
            | Some NSMonitoring \<Rightarrow> pl_monitoring p
            | Some NSKafkaUI \<Rightarrow> pl_kafka_ui p
            | Some NSMM2 \<Rightarrow> pl_mm2 p))"

definition installs :: "comp_row \<Rightarrow> bool" where
  "installs c \<longleftrightarrow> comp_release c \<noteq> []"

definition crd_strimzi :: string where "crd_strimzi = ''Strimzi''"
definition crd_cert_manager :: string where "crd_cert_manager = ''cert-manager''"
definition crd_kyverno :: string where "crd_kyverno = ''Kyverno''"
definition crd_litmus :: string where "crd_litmus = ''Litmus''"
definition crd_prometheus :: string where "crd_prometheus = ''Prometheus Operator''"

definition comp_table :: "comp_row list" where
  "comp_table =
    [\<lparr>comp_id = ''strimzi'', comp_name = ''Strimzi Operator'', comp_icon = utf8 [240, 159, 166, 138], comp_group = group_operators,
      comp_release = ''strimzi-operator'', comp_chart = ''charts/strimzi-operator'',
      fixed_namespace = ''strimzi-operator'', namespace_key = None, is_operator = True,
      comp_crd_group = crd_strimzi, comp_selector = ''name=strimzi-cluster-operator''\<rparr>,
     \<lparr>comp_id = ''cert-manager'', comp_name = ''Cert-Manager'', comp_icon = utf8 [240, 159, 148, 144], comp_group = group_operators,
      comp_release = ''cert-manager'', comp_chart = ''jetstack/cert-manager'',
      fixed_namespace = ''cert-manager'', namespace_key = None, is_operator = True,
      comp_crd_group = crd_cert_manager, comp_selector = ''app.kubernetes.io/instance=cert-manager''\<rparr>,
     \<lparr>comp_id = ''kyverno'', comp_name = ''Kyverno'', comp_icon = utf8 [240, 159, 154, 166], comp_group = group_operators,
      comp_release = ''kyverno'', comp_chart = ''kyverno/kyverno'',
      fixed_namespace = ''kyverno'', namespace_key = None, is_operator = True,
      comp_crd_group = crd_kyverno, comp_selector = ''app.kubernetes.io/instance=kyverno''\<rparr>,
     \<lparr>comp_id = ''kafka'', comp_name = ''Kafka Cluster'', comp_icon = utf8 [240, 159, 147, 168], comp_group = group_core,
      comp_release = kafka_release, comp_chart = ''charts/kafka-cluster'',
      fixed_namespace = [], namespace_key = Some NSKafka, is_operator = False,
      comp_crd_group = [], comp_selector = ''strimzi.io/cluster=%s''\<rparr>,
     \<lparr>comp_id = ''kafka-users'', comp_name = ''Kafka Users'', comp_icon = [], comp_group = group_core,
      comp_release = [], comp_chart = [],
      fixed_namespace = [], namespace_key = Some NSKafka, is_operator = False,
      comp_crd_group = [], comp_selector = ''app.kubernetes.io/name=entity-operator''\<rparr>,
     \<lparr>comp_id = ''monitoring'', comp_name = ''Monitoring Stack'', comp_icon = utf8 [240, 159, 147, 138], comp_group = group_core,
      comp_release = ''monitoring'', comp_chart = ''charts/monitoring'',
      fixed_namespace = [], namespace_key = Some NSMonitoring, is_operator = False,
      comp_crd_group = crd_prometheus, comp_selector = ''release=monitoring''\<rparr>,
     \<lparr>comp_id = ''postgres'', comp_name = ''PostgreSQL'', comp_icon = utf8 [240, 159, 144, 152], comp_group = group_core,
      comp_release = ''postgresql'', comp_chart = ''charts/cdc-postgresql'',
      fixed_namespace = [], namespace_key = Some NSDatabase, is_operator = False,
      comp_crd_group = [], comp_selector = ''app.kubernetes.io/instance=postgresql''\<rparr>,
     \<lparr>comp_id = ''kafka-connect'', comp_name = ''Kafka Connect'', comp_icon = utf8 [240, 159, 148, 151], comp_group = group_core,
      comp_release = ''connect-cluster'', comp_chart = ''charts/connect-cluster'',
      fixed_namespace = [], namespace_key = Some NSConnect, is_operator = False,
      comp_crd_group = [], comp_selector = ''strimzi.io/kind=KafkaConnect''\<rparr>,
     \<lparr>comp_id = ''kafka-connector'', comp_name = ''CDC Connector'', comp_icon = [], comp_group = group_core,
      comp_release = [], comp_chart = [],
      fixed_namespace = [], namespace_key = Some NSConnect, is_operator = False,
      comp_crd_group = [], comp_selector = ''strimzi.io/cluster=connect-cluster''\<rparr>,
     \<lparr>comp_id = ''apicurio'', comp_name = ''Apicurio Registry'', comp_icon = utf8 [240, 159, 147, 139], comp_group = group_apps,
      comp_release = ''apicurio'', comp_chart = ''charts/apicurio-registry'',
      fixed_namespace = [], namespace_key = Some NSKafka, is_operator = False,
      comp_crd_group = [], comp_selector = ''app.kubernetes.io/instance=apicurio''\<rparr>,
     \<lparr>comp_id = ''kates'', comp_name = ''Kates Backend'', comp_icon = utf8 [240, 159, 147, 166], comp_group = group_apps,
      comp_release = ''kates'', comp_chart = ''charts/kates'',
      fixed_namespace = [], namespace_key = Some NSApp, is_operator = False,
      comp_crd_group = [], comp_selector = ''app.kubernetes.io/instance=kates''\<rparr>,
     \<lparr>comp_id = ''kafka-ui'', comp_name = ''Kafka UI'', comp_icon = utf8 [240, 159, 146, 187], comp_group = group_apps,
      comp_release = ''kafka-ui'', comp_chart = ''charts/kafka-ui'',
      fixed_namespace = [], namespace_key = Some NSKafkaUI, is_operator = False,
      comp_crd_group = [], comp_selector = ''app.kubernetes.io/name=kafka-ui''\<rparr>,
     \<lparr>comp_id = ''mirror-maker2'', comp_name = ''MirrorMaker 2'', comp_icon = utf8 [240, 159, 148, 129], comp_group = group_apps,
      comp_release = ''mm2'', comp_chart = ''charts/mirror-maker2'',
      fixed_namespace = [], namespace_key = Some NSMM2, is_operator = False,
      comp_crd_group = [], comp_selector = ''strimzi.io/kind=KafkaMirrorMaker2''\<rparr>,
     \<lparr>comp_id = ''chaos'', comp_name = ''Litmus Chaos'', comp_icon = utf8 [240, 159, 167, 170], comp_group = group_apps,
      comp_release = ''chaos'', comp_chart = ''charts/kates-chaos'',
      fixed_namespace = [], namespace_key = Some NSChaos, is_operator = False,
      comp_crd_group = crd_litmus, comp_selector = ''app.kubernetes.io/instance=chaos''\<rparr>]"

definition all_components :: "comp_row list" where
  "all_components = comp_table"

definition by_id :: "string \<Rightarrow> comp_row option" where
  "by_id i = find (\<lambda>c. comp_id c = i) comp_table"

definition by_release :: "string \<Rightarrow> comp_row option" where
  "by_release r = find (\<lambda>c. comp_release c = r) comp_table"

record release =
  rel_name :: string
  rel_namespace :: string

definition releases :: "placement \<Rightarrow> release list" where
  "releases p =
     map (\<lambda>c. \<lparr>rel_name = release_name c p, rel_namespace = namespace_of c p\<rparr>)
       (filter installs comp_table)"

definition add_namespace :: "string \<Rightarrow> string list \<Rightarrow> string list" where
  "add_namespace ns acc = (if ns \<noteq> [] \<and> ns \<notin> set acc then acc @ [ns] else acc)"

definition namespaces :: "placement \<Rightarrow> string list" where
  "namespaces p =
     (let app = fold (\<lambda>c acc. if is_operator c then acc else add_namespace (namespace_of c p) acc) comp_table []
      in fold (\<lambda>c acc. if is_operator c then add_namespace (namespace_of c p) acc else acc) comp_table app)"

record crd_group =
  group_name :: string
  owner :: "release option"
  crds :: "string list"
  used_by :: "string list"
  own :: "string list"
  namespaced :: "string list"

definition strimzi_crds :: "string list" where
  "strimzi_crds =
     [''kafkas.kafka.strimzi.io'', ''kafkaconnects.kafka.strimzi.io'', ''kafkatopics.kafka.strimzi.io'',
      ''kafkausers.kafka.strimzi.io'', ''kafkanodepools.kafka.strimzi.io'', ''kafkabridges.kafka.strimzi.io'',
      ''kafkaconnectors.kafka.strimzi.io'', ''kafkamirrormaker2s.kafka.strimzi.io'', ''kafkarebalances.kafka.strimzi.io'',
      ''strimzipodsets.core.strimzi.io'']"

definition litmus_crds :: "string list" where
  "litmus_crds =
     [''chaosengines.litmuschaos.io'', ''chaosexperiments.litmuschaos.io'', ''chaosresults.litmuschaos.io'']"

definition prometheus_crds :: "string list" where
  "prometheus_crds =
     [''alertmanagerconfigs.monitoring.coreos.com'', ''alertmanagers.monitoring.coreos.com'', ''podmonitors.monitoring.coreos.com'',
      ''probes.monitoring.coreos.com'', ''prometheusagents.monitoring.coreos.com'', ''prometheuses.monitoring.coreos.com'',
      ''prometheusrules.monitoring.coreos.com'', ''scrapeconfigs.monitoring.coreos.com'', ''servicemonitors.monitoring.coreos.com'',
      ''thanosrulers.monitoring.coreos.com'']"

definition crd_groups :: "crd_group list" where
  "crd_groups =
    [\<lparr>group_name = crd_strimzi, owner = Some \<lparr>rel_name = ''strimzi-operator'', rel_namespace = ''strimzi-operator''\<rparr>,
      crds = strimzi_crds,
      used_by = strimzi_crds,
      own = [],
      namespaced = [''kafkas.kafka.strimzi.io'', ''kafkatopics.kafka.strimzi.io'', ''kafkausers.kafka.strimzi.io'',
      ''kafkaconnects.kafka.strimzi.io'', ''kafkaconnectors.kafka.strimzi.io'', ''kafkamirrormaker2s.kafka.strimzi.io'',
      ''kafkabridges.kafka.strimzi.io'']\<rparr>,
     \<lparr>group_name = crd_cert_manager, owner = Some \<lparr>rel_name = ''cert-manager'', rel_namespace = ''cert-manager''\<rparr>,
      crds = [''certificaterequests.cert-manager.io'', ''certificates.cert-manager.io'', ''challenges.acme.cert-manager.io'',
      ''clusterissuers.cert-manager.io'', ''issuers.cert-manager.io'', ''orders.acme.cert-manager.io''],
      used_by = [''certificates.cert-manager.io'', ''issuers.cert-manager.io'', ''clusterissuers.cert-manager.io''],
      own = [''ClusterIssuer/selfsigned-issuer''],
      namespaced = [''certificates.cert-manager.io'', ''issuers.cert-manager.io'']\<rparr>,
     \<lparr>group_name = crd_kyverno, owner = Some \<lparr>rel_name = ''kyverno'', rel_namespace = ''kyverno''\<rparr>,
      crds = [''admissionreports.kyverno.io'', ''backgroundscanreports.kyverno.io'', ''clusteradmissionreports.kyverno.io'',
      ''clusterbackgroundscanreports.kyverno.io'', ''cleanuppolicies.kyverno.io'', ''clustercleanuppolicies.kyverno.io'',
      ''clusterpolicies.kyverno.io'', ''policies.kyverno.io'', ''policyexceptions.kyverno.io'',
      ''updaterequests.kyverno.io''],
      used_by = [''clusterpolicies.kyverno.io'', ''policies.kyverno.io'', ''cleanuppolicies.kyverno.io'',
      ''clustercleanuppolicies.kyverno.io'', ''policyexceptions.kyverno.io''],
      own = [],
      namespaced = [''policies.kyverno.io'']\<rparr>,
     \<lparr>group_name = crd_litmus, owner = None,
      crds = litmus_crds,
      used_by = litmus_crds,
      own = [],
      namespaced = litmus_crds\<rparr>,
     \<lparr>group_name = crd_prometheus, owner = None,
      crds = prometheus_crds,
      used_by = prometheus_crds,
      own = [],
      namespaced = []\<rparr>]"

definition groups :: "crd_group list" where
  "groups = crd_groups"

definition find_group :: "string \<Rightarrow> crd_group option" where
  "find_group n = find (\<lambda>g. group_name g = n) crd_groups"

definition all_crds :: "string list" where
  "all_crds = concat (map crds crd_groups)"

definition namespaced_crds :: "string list" where
  "namespaced_crds = concat (map namespaced crd_groups)"

section \<open>The table and the namespaces\<close>

lemma table_ids_distinct: "distinct (map comp_id comp_table)"
  by code_simp

lemma table_ids_nonempty: "c \<in> set comp_table \<Longrightarrow> comp_id c \<noteq> []"
proof -
  have "list_all (\<lambda>c. comp_id c \<noteq> []) comp_table" by code_simp
  then show "c \<in> set comp_table \<Longrightarrow> comp_id c \<noteq> []" by (simp add: list_all_iff)
qed

lemma find_distinct_key:
  "distinct (map f xs) \<Longrightarrow> x \<in> set xs \<Longrightarrow> find (\<lambda>y. f y = f x) xs = Some x"
  by (induction xs) (auto simp: image_iff)

lemma by_id_table: "c \<in> set comp_table \<Longrightarrow> by_id (comp_id c) = Some c"
  unfolding by_id_def using table_ids_distinct by (rule find_distinct_key)

lemma by_id_Some: "by_id i = Some c \<Longrightarrow> c \<in> set comp_table \<and> comp_id c = i"
  by (auto simp: by_id_def find_Some_iff)

definition release_names :: "string list" where
  "release_names = map comp_release (filter (\<lambda>c. installs c \<and> comp_release c \<noteq> kafka_release) comp_table)"

lemma releases_fixed_names:
  "distinct (map comp_release (filter installs comp_table))"
  "kafka_release \<in> set (map comp_release (filter installs comp_table))"
  by code_simp+

lemma inj_on_replace:
  "k \<in> S \<Longrightarrow> inj_on (\<lambda>r. if r = k then n else r) S \<longleftrightarrow> n \<notin> S - {k}"
  by (auto simp: inj_on_def)

text \<open>
  No two components of the stack share a Helm release: whatever the namespaces, the release
  names are pairwise distinct exactly when the user's name for the Kafka cluster is not one of
  the names the table fixes.
\<close>
theorem releases_distinct_iff:
  "distinct (map rel_name (releases p)) \<longleftrightarrow> kafka_name p \<notin> set release_names"
proof -
  let ?rs = "map comp_release (filter installs comp_table)"
  let ?f = "\<lambda>r. if r = kafka_release then kafka_name p else r"
  have names: "map rel_name (releases p) = map ?f ?rs"
    by (simp add: releases_def release_name_def comp_def)
  have rn: "set release_names = set ?rs - {kafka_release}"
    by (auto simp: release_names_def)
  have "inj_on ?f (set ?rs) \<longleftrightarrow> kafka_name p \<notin> set release_names"
    unfolding rn using releases_fixed_names(2) by (rule inj_on_replace)
  moreover have "distinct (map ?f ?rs) \<longleftrightarrow> inj_on ?f (set ?rs)"
    using releases_fixed_names(1) distinct_map [of ?f ?rs] by blast
  ultimately show ?thesis by (simp only: names)
qed

lemma set_add_namespace: "set (add_namespace ns acc) = set acc \<union> ({ns} - {[]})"
  by (auto simp: add_namespace_def)

lemma distinct_add_namespace: "distinct acc \<Longrightarrow> distinct (add_namespace ns acc)"
  by (auto simp: add_namespace_def)

lemma fold_add_namespace_set:
  "set (fold (\<lambda>c acc. if P c then add_namespace (f c) acc else acc) cs acc) =
     set acc \<union> (f ` {c \<in> set cs. P c} - {[]})"
proof (induction cs arbitrary: acc)
  case (Cons c cs)
  then show ?case by (cases "P c") (auto simp: set_add_namespace)
qed simp

lemma fold_add_namespace_distinct:
  "distinct acc \<Longrightarrow> distinct (fold (\<lambda>c acc. if P c then add_namespace (f c) acc else acc) cs acc)"
  by (induction cs arbitrary: acc) (auto simp: distinct_add_namespace)

lemma fold_add_namespace_prefix:
  "\<exists>ys. fold (\<lambda>c acc. if P c then add_namespace (f c) acc else acc) cs acc = acc @ ys"
proof (induction cs arbitrary: acc)
  case (Cons c cs)
  let ?acc = "if P c then add_namespace (f c) acc else acc"
  obtain ys where "fold (\<lambda>c acc. if P c then add_namespace (f c) acc else acc) cs ?acc = ?acc @ ys"
    using Cons by blast
  then show ?case by (cases "P c") (auto simp: add_namespace_def)
qed simp

lemma fold_if_not:
  "fold (\<lambda>c acc. if b c then acc else g c acc) cs acc = fold (\<lambda>c acc. if \<not> b c then g c acc else acc) cs acc"
  by (induction cs arbitrary: acc) auto

text \<open>
  \<open>Namespaces\<close> lists every namespace a component goes into, each once and none empty, with
  the namespaces of the components that are not operators first.
\<close>
theorem namespaces_complete:
  "distinct (namespaces p) \<and>
   set (namespaces p) = (\<lambda>c. namespace_of c p) ` set comp_table - {[]} \<and>
   (\<exists>app ops. namespaces p = app @ ops \<and>
      set app = (\<lambda>c. namespace_of c p) ` {c \<in> set comp_table. \<not> is_operator c} - {[]})"
proof -
  let ?f = "\<lambda>c. namespace_of c p"
  let ?app = "fold (\<lambda>c acc. if \<not> is_operator c then add_namespace (?f c) acc else acc) comp_table []"
  have ns: "namespaces p = fold (\<lambda>c acc. if is_operator c then add_namespace (?f c) acc else acc) comp_table ?app"
    by (simp add: namespaces_def fold_if_not)
  have "distinct (namespaces p)"
    unfolding ns by (intro fold_add_namespace_distinct) simp
  moreover have "set (namespaces p) = ?f ` set comp_table - {[]}"
    unfolding ns fold_add_namespace_set by auto
  moreover have "\<exists>ys. namespaces p = ?app @ ys"
    unfolding ns by (rule fold_add_namespace_prefix)
  moreover have "set ?app = ?f ` {c \<in> set comp_table. \<not> is_operator c} - {[]}"
    by (simp add: fold_add_namespace_set)
  ultimately show ?thesis by blast
qed

text \<open>
  The CRD groups are consistent with each other and with the component table: no CRD is
  listed twice, the kinds that keep a group and the kinds clean deletes per namespace are CRDs
  of the group, every group a component names exists, and a group has an owner exactly when its
  component is an operator, the owner being that operator's release in its own namespace.
\<close>
theorem crd_groups_consistent:
  "distinct all_crds \<and> distinct (map group_name groups) \<and>
   (\<forall>g\<in>set groups. set (used_by g) \<subseteq> set (crds g) \<and> set (namespaced g) \<subseteq> set (crds g)) \<and>
   (\<forall>c\<in>set comp_table. comp_crd_group c \<noteq> [] \<longrightarrow>
      (\<exists>g. find_group (comp_crd_group c) = Some g \<and>
         owner g = (if is_operator c then Some \<lparr>rel_name = comp_release c, rel_namespace = fixed_namespace c\<rparr>
                    else None)))"
proof -
  have "distinct all_crds" and "distinct (map group_name groups)" by code_simp+
  moreover have "list_all (\<lambda>g. list_all (\<lambda>x. x \<in> set (crds g)) (used_by g) \<and>
      list_all (\<lambda>x. x \<in> set (crds g)) (namespaced g)) groups"
    by code_simp
  moreover have "list_all (\<lambda>c. comp_crd_group c = [] \<or>
      (case find_group (comp_crd_group c) of None \<Rightarrow> False
       | Some g \<Rightarrow> owner g = (if is_operator c
            then Some \<lparr>rel_name = comp_release c, rel_namespace = fixed_namespace c\<rparr> else None))) comp_table"
    by code_simp
  ultimately show ?thesis by (auto simp: list_all_iff split: option.splits)
qed

theorem crd_groups_consistent_witness:
  "\<exists>c\<in>set comp_table. comp_crd_group c = ''Strimzi'' \<and>
     (\<exists>g. find_group ''Strimzi'' = Some g \<and> owner g = Some \<lparr>rel_name = ''strimzi-operator'', rel_namespace = ''strimzi-operator''\<rparr>)"
proof -
  define c where "c = hd comp_table"
  have c: "c \<in> set comp_table" "comp_crd_group c = ''Strimzi''" "is_operator c"
    "comp_release c = ''strimzi-operator''" "fixed_namespace c = ''strimzi-operator''"
    by (simp_all add: c_def comp_table_def crd_strimzi_def)
  then have "comp_crd_group c \<noteq> []" by simp
  with c obtain g where "find_group (comp_crd_group c) = Some g"
    "owner g = Some \<lparr>rel_name = comp_release c, rel_namespace = fixed_namespace c\<rparr>"
    using crd_groups_consistent by auto
  with c show ?thesis by auto
qed

end
