(* ===== verification/DeployScheduler.thy ===== *)
theory DeployScheduler
  imports Kates_Prelude
begin

text \<open>
  The scheduler of the deploy pipeline, \<open>cli/cmd/deploy_scheduler.go\<close>: \<open>runComponents\<close> starts
  one goroutine per enabled component, and each goroutine waits on its dependencies' channels,
  takes a slot of a semaphore of three, runs the component's life (\<open>runComponent\<close>) and closes
  its own channels. Goroutines interleave freely, so the scheduler is a step relation: one rule
  per atomic step of one goroutine, plus one rule for Ctrl-C.

  State and code: \<open>pcs\<close> is where each goroutine is; \<open>inst\<close> and \<open>donec\<close> are the closed
  \<open>installed\<close> and \<open>done\<close> channels; \<open>sem\<close> is how many values the semaphore channel
  holds; \<open>ctx_err\<close> and \<open>sched_err\<close> say that \<open>ctx\<close> and \<open>schedCtx\<close> are cancelled;
  \<open>first_err\<close> is \<open>firstErr\<close>; \<open>dash\<close> is what the dashboard was told, in order;
  \<open>installed_now\<close> is the map of the same name. What a component's own functions answer (the
  skip check, the credential copies, the install, the wait) is the environment's choice: there
  is a rule for each answer. A \<open>select\<close> with several ready cases may take any of them.
\<close>

datatype deploy_error = CtxCanceled | CompFailed string string

datatype run_result = RunOk | RunErr deploy_error | RunNotStarted

record secret_copy =
  sec_name :: string
  sec_jaas :: bool
  sec_wait :: nat

text \<open>
  The fields \<open>installed\<close>, \<open>install\<close> and \<open>wait\<close> are functions in the code; the scheduler
  asks only whether they are nil.
\<close>

record component =
  c_id :: string
  c_name :: string
  c_deps :: "string list"
  c_after :: "string list"
  c_enabled :: bool
  c_namespace :: string
  c_secrets :: "secret_copy list"
  c_timeout :: nat
  c_has_installed :: bool
  c_skip_msg :: string
  c_has_install :: bool
  c_has_wait :: bool

datatype dash_event =
    DashSkip string
  | DashStart string nat
  | DashFinish string bool
  | DashStop string
  | DashStep

text \<open>Where a goroutine is: in \<open>runComponents\<close> up to \<open>PStart\<close>, then in \<open>runComponent\<close>.\<close>

datatype pc =
    PDeps nat | PAfter nat | PSem | PStart
  | PSkipCheck | PChecked | PCreds | PInstallGate | PInstalling | PMarkInstalled | PWaiting
  | PReturned run_result | PLeaving | PEnded

record sched =
  pcs :: "nat \<Rightarrow> pc"
  inst :: "nat set"
  donec :: "nat set"
  sem :: nat
  ctx_err :: bool
  sched_err :: bool
  first_err :: "deploy_error option"
  installed_now :: "string set"
  dash :: "dash_event list"

definition deploy_parallelism :: nat where
  "deploy_parallelism = 3"

definition node_order :: "component list \<Rightarrow> component list" where
  "node_order comps = filter c_enabled comps"

definition node_key :: "component \<Rightarrow> string" where
  "node_key c = (if c_id c \<noteq> [] then c_id c else c_name c)"

text \<open>The map \<open>nodes\<close>, filled in order: a later component of the same key replaces an earlier one.\<close>

fun fill_nodes :: "nat \<Rightarrow> component list \<Rightarrow> (string \<rightharpoonup> nat) \<Rightarrow> (string \<rightharpoonup> nat)" where
  "fill_nodes i [] m = m"
| "fill_nodes i (c # cs) m = fill_nodes (Suc i) cs (m(node_key c \<mapsto> i))"

definition nodes :: "component list \<Rightarrow> string \<rightharpoonup> nat" where
  "nodes order = fill_nodes 0 order Map.empty"

definition init_sched :: "component list \<Rightarrow> sched" where
  "init_sched order =
     \<lparr>pcs = (\<lambda>i. if i < length order then PDeps 0 else PEnded), inst = {}, donec = {}, sem = 0,
      ctx_err = False, sched_err = False, first_err = None, installed_now = {}, dash = []\<rparr>"

text \<open>\<open>finish\<close>, \<open>recordInstalled\<close> and the condition of \<open>copyCredentials\<close> for having nothing to do.\<close>

definition finish :: "component \<Rightarrow> bool \<Rightarrow> sched \<Rightarrow> sched" where
  "finish c ok s =
     (if c_id c = [] then s
      else s\<lparr>dash := dash s @ DashFinish (c_id c) ok # (if ok then [DashStep] else [])\<rparr>)"

definition record_installed :: "component \<Rightarrow> sched \<Rightarrow> sched" where
  "record_installed c s =
     (if c_id c = [] then s else s\<lparr>installed_now := insert (c_id c) (installed_now s)\<rparr>)"

definition no_credentials :: "string \<Rightarrow> component \<Rightarrow> bool" where
  "no_credentials kafka_ns c \<longleftrightarrow> c_secrets c = [] \<or> c_namespace c = [] \<or> c_namespace c = kafka_ns"

definition start_dash :: "component \<Rightarrow> sched \<Rightarrow> sched" where
  "start_dash c s = (if c_id c = [] then s else s\<lparr>dash := dash s @ [DashStart (c_id c) (c_timeout c)]\<rparr>)"

definition stop_dash :: "component \<Rightarrow> sched \<Rightarrow> sched" where
  "stop_dash c s = (if c_id c = [] then s else s\<lparr>dash := dash s @ [DashStop (c_id c)]\<rparr>)"

definition goto :: "nat \<Rightarrow> pc \<Rightarrow> sched \<Rightarrow> sched" where
  "goto i p s = s\<lparr>pcs := (pcs s)(i := p)\<rparr>"

text \<open>\<open>fail\<close>: only the first failure counts, and after Ctrl-C it is the interruption's.\<close>

definition fail :: "deploy_error \<Rightarrow> sched \<Rightarrow> sched" where
  "fail e s =
     (case first_err s of
        Some _ \<Rightarrow> s
      | None \<Rightarrow> s\<lparr>first_err := Some (if ctx_err s then CtxCanceled else e), sched_err := True\<rparr>)"

text \<open>Leaving a goroutine that holds a slot gives the slot back (the deferred receive).\<close>

definition leave :: "nat \<Rightarrow> sched \<Rightarrow> sched" where
  "leave i s = (goto i PEnded s)\<lparr>sem := sem s - 1\<rparr>"

definition after_creds :: "component \<Rightarrow> pc" where
  "after_creds c = (if c_has_install c then PInstallGate else PMarkInstalled)"

text \<open>One step of \<open>runComponent\<close> for the component at index \<open>i\<close>.\<close>

inductive run_step :: "string \<Rightarrow> component list \<Rightarrow> nat \<Rightarrow> sched \<Rightarrow> sched \<Rightarrow> bool"
  for kns :: string and order :: "component list" and i :: nat where
  no_check: "pcs s i = PSkipCheck \<Longrightarrow> \<not> c_has_installed (order ! i) \<Longrightarrow>
     run_step kns order i s (goto i PChecked s)"
| check_no: "pcs s i = PSkipCheck \<Longrightarrow> c_has_installed (order ! i) \<Longrightarrow>
     run_step kns order i s (goto i PChecked s)"
| check_err: "pcs s i = PSkipCheck \<Longrightarrow> c_has_installed (order ! i) \<Longrightarrow>
     run_step kns order i s (goto i (PReturned (RunErr (CompFailed (c_name (order ! i)) e))) s)"
| check_skip: "pcs s i = PSkipCheck \<Longrightarrow> c_has_installed (order ! i) \<Longrightarrow>
     run_step kns order i s
       (goto i (PReturned RunOk) (finish (order ! i) True (s\<lparr>dash := dash s @ [DashSkip (c_skip_msg (order ! i))]\<rparr>)))"
| checked_cancel: "pcs s i = PChecked \<Longrightarrow> sched_err s \<Longrightarrow>
     run_step kns order i s (goto i (PReturned RunNotStarted) s)"
| checked_start: "pcs s i = PChecked \<Longrightarrow> \<not> sched_err s \<Longrightarrow>
     run_step kns order i s (goto i PCreds (start_dash (order ! i) s))"
| creds_ok: "pcs s i = PCreds \<Longrightarrow>
     run_step kns order i s (goto i (after_creds (order ! i)) s)"
| creds_err: "pcs s i = PCreds \<Longrightarrow> \<not> no_credentials kns (order ! i) \<Longrightarrow>
     run_step kns order i s
       (goto i (PReturned (RunErr (CompFailed (c_name (order ! i)) e))) (finish (order ! i) False s))"
| gate_cancel: "pcs s i = PInstallGate \<Longrightarrow> sched_err s \<Longrightarrow>
     run_step kns order i s (goto i (PReturned RunNotStarted) (stop_dash (order ! i) s))"
| gate_install: "pcs s i = PInstallGate \<Longrightarrow> \<not> sched_err s \<Longrightarrow>
     run_step kns order i s (goto i PInstalling s)"
| install_ok: "pcs s i = PInstalling \<Longrightarrow>
     run_step kns order i s (goto i PMarkInstalled (record_installed (order ! i) s))"
| install_err: "pcs s i = PInstalling \<Longrightarrow>
     run_step kns order i s
       (goto i (PReturned (RunErr (CompFailed (c_name (order ! i)) e))) (finish (order ! i) False s))"
| mark: "pcs s i = PMarkInstalled \<Longrightarrow>
     run_step kns order i s (goto i PWaiting (s\<lparr>inst := insert i (inst s)\<rparr>))"
| wait_ok: "pcs s i = PWaiting \<Longrightarrow>
     run_step kns order i s (goto i (PReturned RunOk) (finish (order ! i) True s))"
| wait_not_ready: "pcs s i = PWaiting \<Longrightarrow> c_has_wait (order ! i) \<Longrightarrow>
     run_step kns order i s (goto i (PReturned RunOk) (finish (order ! i) False s))"
| wait_err: "pcs s i = PWaiting \<Longrightarrow> c_has_wait (order ! i) \<Longrightarrow>
     run_step kns order i s
       (goto i (PReturned (RunErr (CompFailed (c_name (order ! i)) e))) (finish (order ! i) False s))"

text \<open>One step of a goroutine of \<open>runComponents\<close>.\<close>

inductive node_step :: "string \<Rightarrow> component list \<Rightarrow> nat \<Rightarrow> sched \<Rightarrow> sched \<Rightarrow> bool"
  for kns :: string and order :: "component list" and i :: nat where
  dep_absent: "pcs s i = PDeps k \<Longrightarrow> k < length (c_deps (order ! i)) \<Longrightarrow>
     nodes order (c_deps (order ! i) ! k) = None \<Longrightarrow>
     node_step kns order i s (goto i (PDeps (Suc k)) s)"
| dep_done: "pcs s i = PDeps k \<Longrightarrow> k < length (c_deps (order ! i)) \<Longrightarrow>
     nodes order (c_deps (order ! i) ! k) = Some j \<Longrightarrow> j \<in> donec s \<Longrightarrow>
     node_step kns order i s (goto i (PDeps (Suc k)) s)"
| dep_cancel: "pcs s i = PDeps k \<Longrightarrow> k < length (c_deps (order ! i)) \<Longrightarrow>
     nodes order (c_deps (order ! i) ! k) = Some j \<Longrightarrow> sched_err s \<Longrightarrow>
     node_step kns order i s (goto i PEnded s)"
| deps_end: "pcs s i = PDeps k \<Longrightarrow> length (c_deps (order ! i)) \<le> k \<Longrightarrow>
     node_step kns order i s (goto i (PAfter 0) s)"
| after_absent: "pcs s i = PAfter k \<Longrightarrow> k < length (c_after (order ! i)) \<Longrightarrow>
     nodes order (c_after (order ! i) ! k) = None \<Longrightarrow>
     node_step kns order i s (goto i (PAfter (Suc k)) s)"
| after_inst: "pcs s i = PAfter k \<Longrightarrow> k < length (c_after (order ! i)) \<Longrightarrow>
     nodes order (c_after (order ! i) ! k) = Some j \<Longrightarrow> j \<in> inst s \<Longrightarrow>
     node_step kns order i s (goto i (PAfter (Suc k)) s)"
| after_cancel: "pcs s i = PAfter k \<Longrightarrow> k < length (c_after (order ! i)) \<Longrightarrow>
     nodes order (c_after (order ! i) ! k) = Some j \<Longrightarrow> sched_err s \<Longrightarrow>
     node_step kns order i s (goto i PEnded s)"
| after_end: "pcs s i = PAfter k \<Longrightarrow> length (c_after (order ! i)) \<le> k \<Longrightarrow>
     node_step kns order i s (goto i PSem s)"
| sem_take: "pcs s i = PSem \<Longrightarrow> sem s < deploy_parallelism \<Longrightarrow>
     node_step kns order i s ((goto i PStart s)\<lparr>sem := Suc (sem s)\<rparr>)"
| sem_cancel: "pcs s i = PSem \<Longrightarrow> sched_err s \<Longrightarrow>
     node_step kns order i s (goto i PEnded s)"
| start_cancel: "pcs s i = PStart \<Longrightarrow> sched_err s \<Longrightarrow>
     node_step kns order i s (goto i PLeaving s)"
| start_run: "pcs s i = PStart \<Longrightarrow> \<not> sched_err s \<Longrightarrow>
     node_step kns order i s (goto i PSkipCheck s)"
| run: "run_step kns order i s t \<Longrightarrow> node_step kns order i s t"
| ret_not_started: "pcs s i = PReturned RunNotStarted \<Longrightarrow>
     node_step kns order i s (goto i PLeaving s)"
| ret_err: "pcs s i = PReturned (RunErr e) \<Longrightarrow>
     node_step kns order i s (goto i PLeaving (fail e s))"
| ret_ok: "pcs s i = PReturned RunOk \<Longrightarrow>
     node_step kns order i s
       (goto i PLeaving (s\<lparr>inst := insert i (inst s), donec := insert i (donec s)\<rparr>))"
| release: "pcs s i = PLeaving \<Longrightarrow> node_step kns order i s (leave i s)"

text \<open>A step of the whole: some goroutine moves, or the user presses Ctrl-C.\<close>

inductive sched_step :: "string \<Rightarrow> component list \<Rightarrow> sched \<Rightarrow> sched \<Rightarrow> bool"
  for kns :: string and order :: "component list" where
  node: "i < length order \<Longrightarrow> node_step kns order i s t \<Longrightarrow> sched_step kns order s t"
| interrupt: "\<not> ctx_err s \<Longrightarrow> sched_step kns order s (s\<lparr>ctx_err := True, sched_err := True\<rparr>)"

inductive sched_reach :: "string \<Rightarrow> component list \<Rightarrow> sched \<Rightarrow> bool"
  for kns :: string and order :: "component list" where
  start: "sched_reach kns order (init_sched order)"
| step: "sched_reach kns order s \<Longrightarrow> sched_step kns order s t \<Longrightarrow> sched_reach kns order t"

text \<open>\<open>wg.Wait\<close> returns when every goroutine has ended; this is what \<open>runComponents\<close> then returns.\<close>

definition all_ended :: "component list \<Rightarrow> sched \<Rightarrow> bool" where
  "all_ended order s \<longleftrightarrow> (\<forall>i<length order. pcs s i = PEnded)"

definition run_components_result :: "sched \<Rightarrow> deploy_error option" where
  "run_components_result s =
     (case first_err s of None \<Rightarrow> if ctx_err s then Some CtxCanceled else None | Some e \<Rightarrow> Some e)"


inductive_cases run_stepE: "run_step kns order i s t"
inductive_cases node_stepE: "node_step kns order i s t"
inductive_cases sched_stepE: "sched_step kns order s t"

lemmas sched_updates = goto_def leave_def finish_def record_installed_def start_dash_def stop_dash_def
  fail_def

subsection \<open>What one step may change\<close>

lemma run_step_frame:
  assumes "run_step kns order i s t"
  shows "(\<forall>j. j \<noteq> i \<longrightarrow> pcs t j = pcs s j) \<and> donec t = donec s \<and> sem t = sem s \<and>
    ctx_err t = ctx_err s \<and> sched_err t = sched_err s \<and> first_err t = first_err s \<and>
    inst s \<subseteq> inst t \<and> inst t \<subseteq> insert i (inst s)"
  using assms by (cases rule: run_step.cases) (auto simp: sched_updates)

lemma fail_fields [simp]:
  "pcs (fail e s) = pcs s" "inst (fail e s) = inst s" "donec (fail e s) = donec s"
  "sem (fail e s) = sem s" "ctx_err (fail e s) = ctx_err s" "dash (fail e s) = dash s"
  "installed_now (fail e s) = installed_now s"
  by (auto simp: fail_def split: option.splits)

lemma node_step_frame:
  assumes "node_step kns order i s t"
  shows "(\<forall>j. j \<noteq> i \<longrightarrow> pcs t j = pcs s j) \<and> inst s \<subseteq> inst t \<and> inst t \<subseteq> insert i (inst s) \<and>
    donec s \<subseteq> donec t \<and> donec t \<subseteq> insert i (donec s) \<and> ctx_err t = ctx_err s \<and>
    (sched_err s \<longrightarrow> sched_err t) \<and> (first_err s \<noteq> None \<longrightarrow> first_err t = first_err s)"
  using assms
proof (cases rule: node_step.cases)
  case run
  then show ?thesis using run_step_frame [OF run] by auto
next
  case (ret_err e)
  then show ?thesis by (auto simp: goto_def fail_def split: option.splits)
qed (auto simp: goto_def leave_def)

lemma sched_step_frame:
  assumes "sched_step kns order s t"
  shows "inst s \<subseteq> inst t \<and> donec s \<subseteq> donec t \<and> (ctx_err s \<longrightarrow> ctx_err t) \<and>
    (sched_err s \<longrightarrow> sched_err t) \<and> (first_err s \<noteq> None \<longrightarrow> first_err t = first_err s)"
  using assms by (cases rule: sched_step.cases) (auto dest!: node_step_frame)

subsection \<open>The order in which components run\<close>

text \<open>The first \<open>k\<close> dependencies (ids in \<open>ds\<close>) of a node have their channel closed.\<close>

definition met :: "component list \<Rightarrow> string list \<Rightarrow> nat set \<Rightarrow> nat \<Rightarrow> bool" where
  "met order ds closed k \<longleftrightarrow>
     (\<forall>m<length ds. m < k \<longrightarrow> (\<forall>j. nodes order (ds ! m) = Some j \<longrightarrow> j \<in> closed))"

definition deps_done :: "component list \<Rightarrow> sched \<Rightarrow> nat \<Rightarrow> bool" where
  "deps_done order s i \<longleftrightarrow> met order (c_deps (order ! i)) (donec s) (length (c_deps (order ! i)))"

definition after_installed :: "component list \<Rightarrow> sched \<Rightarrow> nat \<Rightarrow> bool" where
  "after_installed order s i \<longleftrightarrow> met order (c_after (order ! i)) (inst s) (length (c_after (order ! i)))"

definition cleared :: "component list \<Rightarrow> sched \<Rightarrow> nat \<Rightarrow> bool" where
  "cleared order s i \<longleftrightarrow> deps_done order s i \<and> after_installed order s i"

definition pc_ok :: "component list \<Rightarrow> sched \<Rightarrow> nat \<Rightarrow> bool" where
  "pc_ok order s i =
     (case pcs s i of
        PDeps k \<Rightarrow> met order (c_deps (order ! i)) (donec s) k
      | PAfter k \<Rightarrow> deps_done order s i \<and> met order (c_after (order ! i)) (inst s) k
      | PEnded \<Rightarrow> i \<in> donec s \<or> sched_err s
      | PLeaving \<Rightarrow> i \<in> donec s \<or> sched_err s
      | PReturned r \<Rightarrow> cleared order s i \<and> (r = RunNotStarted \<longrightarrow> sched_err s) \<and>
          (\<forall>e. r = RunErr e \<longrightarrow> e \<noteq> CtxCanceled \<and> (\<forall>m d. e = CompFailed m d \<longrightarrow> m = c_name (order ! i)))
      | _ \<Rightarrow> cleared order s i)"

definition node_ok :: "component list \<Rightarrow> sched \<Rightarrow> nat \<Rightarrow> bool" where
  "node_ok order s i \<longleftrightarrow> pc_ok order s i \<and> (i \<in> donec s \<longrightarrow> i \<in> inst s \<and> pcs s i \<in> {PLeaving, PEnded}) \<and>
     (i \<in> inst s \<longrightarrow> cleared order s i)"

lemma met_mono: "met order ds C k \<Longrightarrow> C \<subseteq> C' \<Longrightarrow> met order ds C' k"
  unfolding met_def by blast

lemma met_0 [simp]: "met order ds C 0"
  by (simp add: met_def)

lemma met_Suc: "met order ds C k \<Longrightarrow> \<forall>j. nodes order (ds ! k) = Some j \<longrightarrow> j \<in> C \<Longrightarrow> met order ds C (Suc k)"
  by (auto simp: met_def less_Suc_eq)

lemma met_all: "met order ds C k \<Longrightarrow> length ds \<le> k \<Longrightarrow> met order ds C (length ds)"
  by (simp add: met_def)

lemma cleared_mono: "cleared order s i \<Longrightarrow> inst s \<subseteq> inst t \<Longrightarrow> donec s \<subseteq> donec t \<Longrightarrow> cleared order t i"
  by (auto simp: cleared_def deps_done_def after_installed_def intro: met_mono)

lemma pc_ok_mono:
  assumes "pc_ok order s i" "pcs t i = pcs s i" "inst s \<subseteq> inst t" "donec s \<subseteq> donec t"
    "sched_err s \<longrightarrow> sched_err t"
  shows "pc_ok order t i"
proof -
  have "cleared order s i \<Longrightarrow> cleared order t i" using assms(3,4) cleared_mono by blast
  moreover have "deps_done order s i \<Longrightarrow> deps_done order t i"
    using assms(4) by (auto simp: deps_done_def intro: met_mono)
  ultimately show ?thesis
    using assms by (auto simp: pc_ok_def split: pc.splits intro: met_mono)
qed

text \<open>A node is untouched by another node's step or by Ctrl-C.\<close>

lemma node_ok_other:
  assumes "node_ok order s j" "pcs t j = pcs s j" "inst s \<subseteq> inst t" "donec s \<subseteq> donec t"
    "j \<in> inst t \<longrightarrow> j \<in> inst s" "j \<in> donec t \<longrightarrow> j \<in> donec s" "sched_err s \<longrightarrow> sched_err t"
  shows "node_ok order t j"
  using assms pc_ok_mono [of order s j t] cleared_mono [of order s j t]
  unfolding node_ok_def by auto

lemma cleared_fields:
  "inst t = inst s \<Longrightarrow> donec t = donec s \<Longrightarrow> cleared order t i = cleared order s i"
  by (simp add: cleared_def deps_done_def after_installed_def)

lemma run_step_node_ok:
  assumes step: "run_step kns order i s t" and ok: "node_ok order s i"
  shows "node_ok order t i"
proof -
  have frame: "inst s \<subseteq> inst t" "donec t = donec s" "sched_err t = sched_err s"
    using run_step_frame [OF step] by auto
  have clr: "cleared order s i" "i \<notin> donec s"
    using step ok by (cases rule: run_step.cases; simp add: node_ok_def pc_ok_def; fail)+
  then have clr': "cleared order t i" using frame cleared_mono by blast
  have "pcs t i \<in> {PChecked, PCreds, PInstallGate, PInstalling, PMarkInstalled, PWaiting, PReturned RunOk}
    \<or> (\<exists>e. pcs t i = PReturned (RunErr (CompFailed (c_name (order ! i)) e)))
    \<or> pcs t i = PReturned RunNotStarted \<and> sched_err s"
    using step by (cases rule: run_step.cases) (auto simp: sched_updates after_creds_def)
  then have "pc_ok order t i" using clr' frame by (auto simp: pc_ok_def)
  then show ?thesis using clr' clr frame by (simp add: node_ok_def)
qed

lemma node_step_node_ok:
  assumes step: "node_step kns order i s t" and ok: "node_ok order s i"
    and err: "first_err s \<noteq> None \<longrightarrow> sched_err s"
  shows "node_ok order t i"
  using step
proof (cases rule: node_step.cases)
  case run
  then show ?thesis using run_step_node_ok ok by blast
next
  case (ret_err e)
  then show ?thesis
    using ok err by (auto simp: node_ok_def pc_ok_def goto_def fail_def cleared_def deps_done_def
        after_installed_def split: option.splits)
next
  case ret_ok
  have "cleared order t i"
    using ok ret_ok cleared_mono [of order s i t] by (auto simp: node_ok_def pc_ok_def goto_def)
  then show ?thesis using ret_ok by (simp add: node_ok_def pc_ok_def goto_def)
qed (use ok in \<open>auto simp: node_ok_def pc_ok_def goto_def leave_def cleared_def deps_done_def
        after_installed_def intro!: met_Suc intro: met_all\<close>)

text \<open>Why scheduling stopped, and the slots of the semaphore.\<close>

definition err_ok :: "sched \<Rightarrow> bool" where
  "err_ok s \<longleftrightarrow> (sched_err s \<longleftrightarrow> ctx_err s \<or> first_err s \<noteq> None)"

definition holds_slot :: "pc \<Rightarrow> bool" where
  "holds_slot p = (case p of PDeps _ \<Rightarrow> False | PAfter _ \<Rightarrow> False | PSem \<Rightarrow> False | PEnded \<Rightarrow> False | _ \<Rightarrow> True)"

definition slot_holders :: "component list \<Rightarrow> sched \<Rightarrow> nat set" where
  "slot_holders order s = {i. i < length order \<and> holds_slot (pcs s i)}"

definition sched_inv :: "component list \<Rightarrow> sched \<Rightarrow> bool" where
  "sched_inv order s \<longleftrightarrow> (\<forall>i<length order. node_ok order s i) \<and> err_ok s \<and>
     sem s = card (slot_holders order s) \<and> sem s \<le> deploy_parallelism"

lemma holds_slot_iff:
  "holds_slot p \<longleftrightarrow> p \<in> {PStart, PSkipCheck, PChecked, PCreds, PInstallGate, PInstalling, PMarkInstalled,
     PWaiting, PLeaving} \<union> range PReturned"
  by (cases p) (auto simp: holds_slot_def)

lemma finite_slot_holders [simp]: "finite (slot_holders order s)"
  by (simp add: slot_holders_def)

lemma slot_holders_upd:
  assumes "i < length order" "\<forall>j. j \<noteq> i \<longrightarrow> pcs t j = pcs s j"
  shows "slot_holders order t =
    (if holds_slot (pcs t i) then insert i (slot_holders order s) else slot_holders order s - {i})"
  using assms by (auto simp: slot_holders_def)

lemma card_slot_holders_upd:
  assumes "i < length order" "\<forall>j. j \<noteq> i \<longrightarrow> pcs t j = pcs s j"
  shows "card (slot_holders order t) + of_bool (holds_slot (pcs s i)) =
    card (slot_holders order s) + of_bool (holds_slot (pcs t i))"
proof (cases "i \<in> slot_holders order s")
  case True
  then have "card (slot_holders order s) > 0" by (auto simp: card_gt_0_iff)
  moreover have "holds_slot (pcs s i)" using True by (simp add: slot_holders_def)
  ultimately show ?thesis
    using True slot_holders_upd [OF assms] by (simp add: insert_absorb card_Diff_singleton)
next
  case False
  then show ?thesis
    using slot_holders_upd [OF assms] assms(1) by (auto simp: slot_holders_def)
qed

lemma run_step_holds:
  assumes "run_step kns order i s t"
  shows "holds_slot (pcs s i) \<and> holds_slot (pcs t i)"
  using assms by (cases rule: run_step.cases) (auto simp: sched_updates holds_slot_def after_creds_def)

lemma node_step_sem:
  assumes "node_step kns order i s t" "sem s \<le> deploy_parallelism"
    "holds_slot (pcs s i) \<longrightarrow> 0 < sem s"
  shows "sem t + of_bool (holds_slot (pcs s i)) = sem s + of_bool (holds_slot (pcs t i)) \<and>
    sem t \<le> deploy_parallelism"
  using assms(1)
proof (cases rule: node_step.cases)
  case run
  then show ?thesis using run_step_holds [OF run] run_step_frame [OF run] assms by simp
qed (use assms in \<open>auto simp: goto_def leave_def holds_slot_def\<close>)

lemma node_step_err_ok:
  assumes "node_step kns order i s t" "err_ok s"
  shows "err_ok t"
  using assms(1)
proof (cases rule: node_step.cases)
  case run
  then show ?thesis using assms(2) run_step_frame [OF run] by (simp add: err_ok_def)
next
  case (ret_err e)
  then show ?thesis using assms(2) by (auto simp: err_ok_def goto_def fail_def split: option.splits)
qed (use assms(2) in \<open>auto simp: err_ok_def goto_def leave_def\<close>)

lemma node_step_inv:
  assumes i: "i < length order" and step: "node_step kns order i s t" and inv: "sched_inv order s"
  shows "sched_inv order t"
proof -
  note fr = node_step_frame [OF step]
  have "node_ok order t j" if "j < length order" for j
  proof (cases "j = i")
    case True
    then show ?thesis
      using node_step_node_ok [OF step] inv i by (simp add: sched_inv_def err_ok_def)
  next
    case False
    then show ?thesis
      using that inv fr by (intro node_ok_other [of order s j t]) (auto simp: sched_inv_def)
  qed
  moreover have "err_ok t" using node_step_err_ok [OF step] inv by (simp add: sched_inv_def)
  moreover have "holds_slot (pcs s i) \<longrightarrow> 0 < sem s"
    using inv i by (auto simp: sched_inv_def card_gt_0_iff slot_holders_def)
  then have "sem t + of_bool (holds_slot (pcs s i)) = sem s + of_bool (holds_slot (pcs t i)) \<and>
    sem t \<le> deploy_parallelism"
    using node_step_sem [OF step] inv by (simp add: sched_inv_def)
  moreover have "card (slot_holders order t) + of_bool (holds_slot (pcs s i)) =
    card (slot_holders order s) + of_bool (holds_slot (pcs t i))"
    using fr i by (intro card_slot_holders_upd) auto
  ultimately show ?thesis using inv by (simp add: sched_inv_def)
qed

lemma sched_step_inv:
  assumes "sched_step kns order s t" "sched_inv order s"
  shows "sched_inv order t"
  using assms(1)
proof (cases rule: sched_step.cases)
  case (node i)
  then show ?thesis using node_step_inv assms(2) by blast
next
  case interrupt
  then show ?thesis
    using assms(2) node_ok_other [of order s _ t]
    by (auto simp: sched_inv_def err_ok_def slot_holders_def)
qed

lemma sched_inv_init: "sched_inv order (init_sched order)"
  by (auto simp: sched_inv_def init_sched_def node_ok_def pc_ok_def err_ok_def slot_holders_def
      holds_slot_def)

lemma sched_reach_inv: "sched_reach kns order s \<Longrightarrow> sched_inv order s"
  by (induction rule: sched_reach.induct) (auto intro: sched_inv_init sched_step_inv)

subsection \<open>A deterministic player of the scheduler\<close>

text \<open>
  \<open>move\<close> plays one step of goroutine \<open>i\<close>; \<open>a\<close> is the answer of the component's own
  functions, None for success and \<open>Some e\<close> for an error. It is an executable sub-relation of
  \<open>node_step\<close> that is stuck only where the goroutine is blocked.
\<close>

definition wait_on :: "component list \<Rightarrow> string list \<Rightarrow> nat \<Rightarrow> nat set \<Rightarrow> (nat \<Rightarrow> pc) \<Rightarrow> pc \<Rightarrow> nat \<Rightarrow> sched \<Rightarrow> sched option" where
  "wait_on order ds k closed again next i s =
     (if length ds \<le> k then Some (goto i next s)
      else case nodes order (ds ! k) of
        None \<Rightarrow> Some (goto i (again (Suc k)) s)
      | Some j \<Rightarrow> if j \<in> closed then Some (goto i (again (Suc k)) s)
          else if sched_err s then Some (goto i PEnded s) else None)"

definition move :: "string \<Rightarrow> component list \<Rightarrow> nat \<Rightarrow> string option \<Rightarrow> sched \<Rightarrow> sched option" where
  "move kns order i a s =
     (let c = order ! i;
          failed = (\<lambda>e. goto i (PReturned (RunErr (CompFailed (c_name c) e))) (finish c False s))
      in case pcs s i of
        PDeps k \<Rightarrow> wait_on order (c_deps c) k (donec s) PDeps (PAfter 0) i s
      | PAfter k \<Rightarrow> wait_on order (c_after c) k (inst s) PAfter PSem i s
      | PSem \<Rightarrow> if sem s < deploy_parallelism then Some ((goto i PStart s)\<lparr>sem := Suc (sem s)\<rparr>)
          else if sched_err s then Some (goto i PEnded s) else None
      | PStart \<Rightarrow> Some (goto i (if sched_err s then PLeaving else PSkipCheck) s)
      | PSkipCheck \<Rightarrow> Some (goto i (case a of
            Some e \<Rightarrow> if c_has_installed c then PReturned (RunErr (CompFailed (c_name c) e)) else PChecked
          | None \<Rightarrow> PChecked) s)
      | PChecked \<Rightarrow> Some (if sched_err s then goto i (PReturned RunNotStarted) s
          else goto i PCreds (start_dash c s))
      | PCreds \<Rightarrow> Some (goto i (after_creds c) s)
      | PInstallGate \<Rightarrow> Some (if sched_err s then goto i (PReturned RunNotStarted) (stop_dash c s)
          else goto i PInstalling s)
      | PInstalling \<Rightarrow> Some (case a of Some e \<Rightarrow> failed e
          | None \<Rightarrow> goto i PMarkInstalled (record_installed c s))
      | PMarkInstalled \<Rightarrow> Some (goto i PWaiting (s\<lparr>inst := insert i (inst s)\<rparr>))
      | PWaiting \<Rightarrow> Some (case a of Some e \<Rightarrow> if c_has_wait c then failed e
            else goto i (PReturned RunOk) (finish c True s)
          | None \<Rightarrow> goto i (PReturned RunOk) (finish c True s))
      | PReturned r \<Rightarrow> Some (goto i PLeaving (case r of RunNotStarted \<Rightarrow> s | RunErr e \<Rightarrow> fail e s
          | RunOk \<Rightarrow> s\<lparr>inst := insert i (inst s), donec := insert i (donec s)\<rparr>))
      | PLeaving \<Rightarrow> Some (leave i s)
      | PEnded \<Rightarrow> None)"

fun play :: "string \<Rightarrow> component list \<Rightarrow> (nat \<times> string option) list \<Rightarrow> sched \<Rightarrow> sched option" where
  "play kns order [] s = Some s"
| "play kns order ((i, a) # ms) s =
     (if i < length order then case move kns order i a s of None \<Rightarrow> None | Some t \<Rightarrow> play kns order ms t
      else None)"

lemma move_deps:
  assumes "pcs s i = PDeps k"
    "wait_on order (c_deps (order ! i)) k (donec s) PDeps (PAfter 0) i s = Some t"
  shows "node_step kns order i s t"
  using assms by (auto simp: wait_on_def intro: node_step.intros split: if_splits option.splits)

lemma move_after:
  assumes "pcs s i = PAfter k"
    "wait_on order (c_after (order ! i)) k (inst s) PAfter PSem i s = Some t"
  shows "node_step kns order i s t"
  using assms by (auto simp: wait_on_def intro: node_step.intros split: if_splits option.splits)

lemma move_run:
  assumes "move kns order i a s = Some t"
    "pcs s i \<in> {PSkipCheck, PChecked, PCreds, PInstallGate, PInstalling, PMarkInstalled, PWaiting}"
  shows "run_step kns order i s t"
  using assms(2,1) unfolding move_def Let_def
  by (elim insertE emptyE; simp split: if_splits option.splits) (blast intro: run_step.intros)+

lemma move_ret:
  assumes "move kns order i a s = Some t" "pcs s i = PReturned r"
  shows "node_step kns order i s t"
  using assms by (cases r) (auto simp: move_def intro: node_step.intros)

lemma move_own:
  assumes "move kns order i a s = Some t" "pcs s i \<in> {PSem, PStart, PLeaving, PEnded}"
  shows "node_step kns order i s t"
  using assms(2,1) unfolding move_def Let_def
  by (elim insertE emptyE; simp split: if_splits) (blast intro: node_step.intros)+

lemma move_step:
  assumes "move kns order i a s = Some t"
  shows "node_step kns order i s t"
proof -
  consider k where "pcs s i = PDeps k" | k where "pcs s i = PAfter k" | r where "pcs s i = PReturned r"
    | "pcs s i \<in> {PSem, PStart, PLeaving, PEnded}"
    | "pcs s i \<in> {PSkipCheck, PChecked, PCreds, PInstallGate, PInstalling, PMarkInstalled, PWaiting}"
    by (cases "pcs s i") auto
  then show ?thesis
  proof cases
    case 1
    then show ?thesis using assms by (intro move_deps) (auto simp: move_def)
  next
    case 2
    then show ?thesis using assms by (intro move_after) (auto simp: move_def)
  qed (use assms in \<open>auto intro: move_ret move_own node_step.run move_run\<close>)
qed

lemma play_reach: "sched_reach kns order s \<Longrightarrow> play kns order ms s = Some t \<Longrightarrow> sched_reach kns order t"
proof (induction ms arbitrary: s)
  case (Cons m ms)
  obtain i a where m: "m = (i, a)" by (cases m)
  with Cons.prems obtain u where "i < length order" "move kns order i a s = Some u"
    "play kns order ms u = Some t" by (auto split: if_splits option.splits)
  then show ?case using Cons.IH Cons.prems(1) move_step sched_reach.step sched_step.node by metis
qed simp

subsection \<open>No deadlock, and every run ends\<close>

text \<open>The pipeline lists a component after everything it waits on.\<close>

definition ranked :: "component list \<Rightarrow> bool" where
  "ranked order \<longleftrightarrow>
     (\<forall>i<length order. \<forall>d\<in>set (c_deps (order ! i) @ c_after (order ! i)).
        case nodes order d of None \<Rightarrow> True | Some j \<Rightarrow> j < i)"

lemma rankedD:
  "ranked order \<Longrightarrow> i < length order \<Longrightarrow> d \<in> set (c_deps (order ! i)) \<union> set (c_after (order ! i)) \<Longrightarrow>
   nodes order d = Some j \<Longrightarrow> j < i"
  by (force simp: ranked_def)

lemma move_holder: "holds_slot (pcs s i) \<Longrightarrow> \<exists>t. move kns order i a s = Some t"
  by (auto simp: move_def holds_slot_def Let_def split: pc.splits)

lemma wait_on_some:
  assumes "\<And>j. k < length ds \<Longrightarrow> nodes order (ds ! k) = Some j \<Longrightarrow> j \<in> closed \<or> sched_err s"
  shows "\<exists>t. wait_on order ds k closed again next i s = Some t"
  using assms by (fastforce simp: wait_on_def not_le split: option.splits)

lemma slots_taken:
  assumes "sched_inv order s" "\<not> sem s < deploy_parallelism"
  obtains h where "h < length order" "holds_slot (pcs s h)"
proof -
  have "card (slot_holders order s) > 0" using assms by (simp add: sched_inv_def deploy_parallelism_def)
  then show ?thesis using that by (auto simp: slot_holders_def card_gt_0_iff)
qed

lemma least_not_ended:
  assumes "\<not> all_ended order s"
  obtains i where "i < length order" "pcs s i \<noteq> PEnded" "\<And>j. j < i \<Longrightarrow> pcs s j = PEnded"
proof -
  let ?P = "\<lambda>i. i < length order \<and> pcs s i \<noteq> PEnded"
  have "\<exists>i. ?P i" using assms by (auto simp: all_ended_def)
  then have "?P (LEAST i. ?P i)" by (rule LeastI_ex)
  moreover have "pcs s j = PEnded" if "j < (LEAST i. ?P i)" for j
    using not_less_Least [OF that] \<open>?P (LEAST i. ?P i)\<close> that by auto
  ultimately show ?thesis using that by blast
qed

lemma progress:
  assumes inv: "sched_inv order s" and rk: "ranked order" and "\<not> all_ended order s"
  shows "\<exists>i<length order. \<exists>t. move kns order i a s = Some t"
proof -
  obtain i where i: "i < length order" "pcs s i \<noteq> PEnded" and lo: "\<And>j. j < i \<Longrightarrow> pcs s j = PEnded"
    using least_not_ended [OF assms(3)] by metis
  have early: "j \<in> inst s \<and> j \<in> donec s \<or> sched_err s" if "j < i" for j
  proof -
    have "node_ok order s j" using inv i(1) that by (simp add: sched_inv_def)
    then show ?thesis using lo [OF that] by (auto simp: node_ok_def pc_ok_def)
  qed
  consider "holds_slot (pcs s i)" | k where "pcs s i = PDeps k" | k where "pcs s i = PAfter k"
    | "pcs s i = PSem"
    using i(2) by (cases "pcs s i") (auto simp: holds_slot_def)
  then show ?thesis
  proof cases
    case 1
    then show ?thesis using move_holder i(1) by blast
  next
    case (2 k)
    have "\<exists>t. wait_on order (c_deps (order ! i)) k (donec s) PDeps (PAfter 0) i s = Some t"
      using rankedD [OF rk i(1)] early by (intro wait_on_some) (metis UnI1 nth_mem)
    then show ?thesis using 2 i(1) by (auto simp: move_def)
  next
    case (3 k)
    have "\<exists>t. wait_on order (c_after (order ! i)) k (inst s) PAfter PSem i s = Some t"
      using rankedD [OF rk i(1)] early by (intro wait_on_some) (metis UnI2 nth_mem)
    then show ?thesis using 3 i(1) by (auto simp: move_def)
  next
    case 4
    show ?thesis
    proof (cases "sem s < deploy_parallelism")
      case True
      then show ?thesis using 4 i(1) by (auto simp: move_def)
    next
      case False
      then show ?thesis using slots_taken [OF inv] move_holder by metis
    qed
  qed
qed

text \<open>How many steps a goroutine may still take.\<close>

definition pc_left :: "component \<Rightarrow> pc \<Rightarrow> nat" where
  "pc_left c p =
     (case p of
        PDeps k \<Rightarrow> (length (c_deps c) - k) + length (c_after c) + 14
      | PAfter k \<Rightarrow> (length (c_after c) - k) + 13
      | PSem \<Rightarrow> 12 | PStart \<Rightarrow> 11 | PSkipCheck \<Rightarrow> 10 | PChecked \<Rightarrow> 9 | PCreds \<Rightarrow> 8 | PInstallGate \<Rightarrow> 7
      | PInstalling \<Rightarrow> 6 | PMarkInstalled \<Rightarrow> 5 | PWaiting \<Rightarrow> 4 | PReturned _ \<Rightarrow> 3 | PLeaving \<Rightarrow> 2
      | PEnded \<Rightarrow> 0)"

definition steps_left :: "component list \<Rightarrow> sched \<Rightarrow> nat" where
  "steps_left order s = (\<Sum>i<length order. pc_left (order ! i) (pcs s i)) + of_bool (\<not> ctx_err s)"

lemma run_step_left: "run_step kns order i s t \<Longrightarrow> pc_left (order ! i) (pcs t i) < pc_left (order ! i) (pcs s i)"
  by (erule run_step.cases) (auto simp: sched_updates pc_left_def after_creds_def)

lemma node_step_left:
  assumes "node_step kns order i s t"
  shows "pc_left (order ! i) (pcs t i) < pc_left (order ! i) (pcs s i)"
  using assms
  by (cases rule: node_step.cases) (auto simp: goto_def leave_def pc_left_def dest: run_step_left)

lemma sched_step_left:
  assumes "sched_step kns order s t"
  shows "steps_left order t < steps_left order s"
  using assms
proof (cases rule: sched_step.cases)
  case (node i)
  have "(\<Sum>j<length order. pc_left (order ! j) (pcs t j)) < (\<Sum>j<length order. pc_left (order ! j) (pcs s j))"
  proof (rule sum_strict_mono_ex1)
    show "\<forall>j\<in>{..<length order}. pc_left (order ! j) (pcs t j) \<le> pc_left (order ! j) (pcs s j)"
      using node_step_frame [OF node(2)] node_step_left [OF node(2)] by (metis less_imp_le_nat order_refl)
  qed (use node node_step_left [OF node(2)] in auto)
  moreover have "ctx_err t = ctx_err s" using node_step_frame [OF node(2)] by simp
  ultimately show ?thesis by (simp add: steps_left_def)
qed (simp add: steps_left_def)

lemma steps_left_init:
  "steps_left order (init_sched order) =
    (\<Sum>c\<leftarrow>order. length (c_deps c) + length (c_after c) + 14) + 1"
proof -
  have "(\<Sum>i<length order. pc_left (order ! i) (PDeps 0)) =
      (\<Sum>i<length order. length (c_deps (order ! i)) + length (c_after (order ! i)) + 14)"
    by (simp add: pc_left_def)
  also have "\<dots> = (\<Sum>c\<leftarrow>order. length (c_deps c) + length (c_after c) + 14)"
    by (simp add: sum_list_sum_nth atLeast0LessThan)
  finally show ?thesis by (simp add: steps_left_def init_sched_def)
qed

lemma steps_bound: "(sched_step kns order ^^ m) s t \<Longrightarrow> m + steps_left order t \<le> steps_left order s"
proof (induction m arbitrary: t)
  case (Suc m)
  then obtain u where "(sched_step kns order ^^ m) s u" "sched_step kns order u t" by auto
  then show ?case using Suc.IH [of u] sched_step_left [of kns order u t] by simp
qed simp

lemma reach_finish:
  assumes "sched_reach kns order s" "ranked order"
  shows "\<exists>t. (sched_step kns order)\<^sup>*\<^sup>* s t \<and> all_ended order t"
  using assms(1)
proof (induction "steps_left order s" arbitrary: s rule: less_induct)
  case less
  show ?case
  proof (cases "all_ended order s")
    case False
    then obtain i u where u: "i < length order" "move kns order i None s = Some u"
      using progress [OF sched_reach_inv [OF less.prems] assms(2)] by metis
    then have st: "sched_step kns order s u" using move_step sched_step.node by blast
    then obtain t where "(sched_step kns order)\<^sup>*\<^sup>* u t" "all_ended order t"
      using less.hyps [OF sched_step_left [OF st]] less.prems sched_reach.step by blast
    then show ?thesis using st by (meson converse_rtranclp_into_rtranclp)
  qed auto
qed

subsection \<open>What a run promises\<close>

text \<open>The two goroutines of a Kafka install and the users that need it, and two runs of them:
  one where all goes well, one where Kafka's install fails.\<close>

definition demo_component :: "string \<Rightarrow> string list \<Rightarrow> component" where
  "demo_component n deps =
     \<lparr>c_id = n, c_name = n, c_deps = deps, c_after = [], c_enabled = True, c_namespace = n,
      c_secrets = [], c_timeout = 60, c_has_installed = True, c_skip_msg = n, c_has_install = True,
      c_has_wait = True\<rparr>"

definition demo_order :: "component list" where
  "demo_order = [demo_component ''kafka'' [], demo_component ''users'' [''kafka'']]"

definition demo_good :: "(nat \<times> string option) list" where
  "demo_good = replicate 13 (0, None) @ replicate 14 (1, None)"

definition demo_bad :: "(nat \<times> string option) list" where
  "demo_bad = replicate 8 (0, None) @ [(0, Some ''helm''), (0, None), (0, None), (1, None)]"

definition demo_run :: "(nat \<times> string option) list \<Rightarrow> sched" where
  "demo_run ms = the (play ''kafka'' demo_order ms (init_sched demo_order))"

lemma demo_reach:
  "play ''kafka'' demo_order ms (init_sched demo_order) \<noteq> None \<Longrightarrow> sched_reach ''kafka'' demo_order (demo_run ms)"
  using play_reach [OF sched_reach.start] by (auto simp: demo_run_def)

lemma demo_good_runs:
  "play ''kafka'' demo_order demo_good (init_sched demo_order) \<noteq> None \<and> pcs (demo_run demo_good) 0 = PEnded
   \<and> pcs (demo_run demo_good) 1 = PEnded \<and> first_err (demo_run demo_good) = None \<and>
   \<not> ctx_err (demo_run demo_good) \<and> \<not> sched_err (demo_run demo_good)"
  by code_simp

lemma demo_bad_runs:
  "play ''kafka'' demo_order demo_bad (init_sched demo_order) \<noteq> None \<and> pcs (demo_run demo_bad) 0 = PEnded
   \<and> pcs (demo_run demo_bad) 1 = PEnded \<and> first_err (demo_run demo_bad) = Some (CompFailed ''kafka'' ''helm'')
   \<and> \<not> ctx_err (demo_run demo_bad) \<and> sched_err (demo_run demo_bad)"
  by code_simp

lemmas demo_good_reach = demo_reach [OF conjunct1 [OF demo_good_runs]]
lemmas demo_bad_reach = demo_reach [OF conjunct1 [OF demo_bad_runs]]

text \<open>The failing run at the moment its failure was recorded.\<close>

definition demo_stop :: "(nat \<times> string option) list" where
  "demo_stop = replicate 8 (0, None) @ [(0, Some ''helm''), (0, None)]"

lemma demo_stop_runs:
  "play ''kafka'' demo_order demo_stop (init_sched demo_order) \<noteq> None \<and> sched_err (demo_run demo_stop)"
  by code_simp

lemmas demo_stop_reach = demo_reach [OF conjunct1 [OF demo_stop_runs]]

lemma play_steps: "play kns order ms s = Some t \<Longrightarrow> (sched_step kns order ^^ length ms) s t"
proof (induction ms arbitrary: s)
  case (Cons m ms)
  obtain i a where "m = (i, a)" by (cases m)
  with Cons.prems obtain u where u: "i < length order" "move kns order i a s = Some u"
    "play kns order ms u = Some t" by (auto split: if_splits option.splits)
  then have "sched_step kns order s u" using move_step sched_step.node by blast
  then show ?case using Cons.IH [OF u(3)] relpowp_Suc_I2 [of "sched_step kns order"] by fastforce
qed simp

lemma play_append:
  "play kns order (xs @ ys) s = (case play kns order xs s of None \<Rightarrow> None | Some t \<Rightarrow> play kns order ys t)"
proof (induction xs arbitrary: s)
  case (Cons x xs)
  obtain i a where "x = (i, a)" by (cases x)
  then show ?case using Cons.IH by (cases "move kns order i a s") simp_all
qed simp

lemma demo_steps:
  "play ''kafka'' demo_order ms (init_sched demo_order) \<noteq> None \<Longrightarrow>
   (sched_step ''kafka'' demo_order ^^ length ms) (init_sched demo_order) (demo_run ms)"
  by (auto simp: demo_run_def intro: play_steps)

lemma demo_stop_bad: "(sched_step ''kafka'' demo_order)\<^sup>*\<^sup>* (demo_run demo_stop) (demo_run demo_bad)"
proof -
  have split: "demo_bad = demo_stop @ [(0, None), (1, None)]" by code_simp
  have "play ''kafka'' demo_order [(0, None), (1, None)] (demo_run demo_stop) = Some (demo_run demo_bad)"
    using demo_stop_runs demo_bad_runs unfolding split demo_run_def play_append
    by (auto split: option.splits)
  then show ?thesis using play_steps relpowp_imp_rtranclp by metis
qed

lemma all_less_two: "(\<forall>i < Suc (Suc 0). P i) \<longleftrightarrow> P 0 \<and> P 1"
  by (auto simp: less_Suc_eq)

lemma demo_ended: "all_ended demo_order (demo_run demo_good)" "all_ended demo_order (demo_run demo_bad)"
proof -
  have "(\<forall>i<length demo_order. P i) \<longleftrightarrow> P 0 \<and> P 1" for P :: "nat \<Rightarrow> bool"
    by (simp add: demo_order_def all_less_two)
  then show "all_ended demo_order (demo_run demo_good)" "all_ended demo_order (demo_run demo_bad)"
    using demo_good_runs demo_bad_runs unfolding all_ended_def by simp_all
qed

lemma demo_results:
  "run_components_result (demo_run demo_good) = None"
  "run_components_result (demo_run demo_bad) = Some (CompFailed ''kafka'' ''helm'')"
  using demo_good_runs demo_bad_runs by (simp_all add: run_components_result_def)

lemma pc_ok_slot: "holds_slot (pcs s i) \<Longrightarrow> pc_ok order s i \<Longrightarrow> pcs s i \<noteq> PLeaving \<Longrightarrow> cleared order s i"
  by (auto simp: pc_ok_def holds_slot_def split: pc.splits)

lemma metD: "met order ds C (length ds) \<Longrightarrow> d \<in> set ds \<Longrightarrow> nodes order d = Some j \<Longrightarrow> j \<in> C"
  by (auto simp: met_def in_set_conv_nth)

text \<open>
  C1. At most three components are past the scheduler's semaphore at once, whatever the
  interleaving, the failures and the moment of a Ctrl-C.
\<close>

theorem at_most_three_at_once:
  assumes "sched_reach kns order s"
  shows "card {i. i < length order \<and> pcs s i \<in> {PStart, PSkipCheck, PChecked, PCreds, PInstallGate,
    PInstalling, PMarkInstalled, PWaiting, PLeaving} \<union> range PReturned} \<le> 3"
  using sched_reach_inv [OF assms]
  unfolding sched_inv_def slot_holders_def holds_slot_iff deploy_parallelism_def by simp

theorem at_most_three_at_once_witness:
  "card {i. i < length demo_order \<and> pcs (demo_run demo_good) i \<in> {PStart, PSkipCheck, PChecked, PCreds,
    PInstallGate, PInstalling, PMarkInstalled, PWaiting, PLeaving} \<union> range PReturned} \<le> 3"
  by (rule at_most_three_at_once [OF demo_good_reach])

text \<open>
  C7. A component is installing, or has had its installed channel closed, only after every enabled
  component it depends on is done and every enabled one it comes after was installed.
\<close>

theorem dependencies_first:
  assumes "sched_reach kns order s" "i < length order" "pcs s i = PInstalling \<or> i \<in> inst s"
  shows "(\<forall>d\<in>set (c_deps (order ! i)). \<forall>j. nodes order d = Some j \<longrightarrow> j \<in> donec s) \<and>
    (\<forall>d\<in>set (c_after (order ! i)). \<forall>j. nodes order d = Some j \<longrightarrow> j \<in> inst s)"
proof -
  have "node_ok order s i" using sched_reach_inv [OF assms(1)] assms(2) by (simp add: sched_inv_def)
  then have "cleared order s i" using assms(3) by (auto simp: node_ok_def pc_ok_def)
  then show ?thesis by (auto simp: cleared_def deps_done_def after_installed_def dest: metD)
qed

theorem dependencies_first_witness: "0 \<in> donec (demo_run demo_good)"
proof -
  have "1 \<in> inst (demo_run demo_good)" "nodes demo_order ''kafka'' = Some 0" "1 < length demo_order"
    "''kafka'' \<in> set (c_deps (demo_order ! 1))" by code_simp+
  then show ?thesis using dependencies_first [OF demo_good_reach, of 1] by blast
qed

text \<open>Whose failure is reported.\<close>

definition blamed :: "component list \<Rightarrow> sched \<Rightarrow> bool" where
  "blamed order s \<longleftrightarrow>
     (\<forall>m e. first_err s = Some (CompFailed m e) \<longrightarrow>
        (\<exists>i<length order. c_name (order ! i) = m \<and> i \<notin> donec s \<and> pcs s i \<in> {PLeaving, PEnded}))"

lemma ret_step_keeps_left:
  "node_step kns order i s t \<Longrightarrow> pcs s i \<in> {PLeaving, PEnded} \<Longrightarrow>
   pcs t i \<in> {PLeaving, PEnded} \<and> donec t = donec s"
  by (erule node_step.cases) (auto simp: leave_def goto_def elim: run_step.cases)

lemma first_err_set:
  assumes "node_step kns order i s t" "first_err t \<noteq> first_err s"
  obtains e where "pcs s i = PReturned (RunErr e)" "first_err s = None"
    "first_err t = Some (if ctx_err s then CtxCanceled else e)" "pcs t i = PLeaving" "donec t = donec s"
    "sched_err t"
  using assms
proof (cases rule: node_step.cases)
  case run
  then show ?thesis using run_step_frame [OF run] assms(2) by simp
next
  case (ret_err e)
  then show ?thesis using assms(2) that by (auto simp: goto_def fail_def split: option.splits)
qed (auto simp: goto_def leave_def)

lemma node_step_blamed:
  assumes i: "i < length order" and step: "node_step kns order i s t" and inv: "sched_inv order s"
    and b: "blamed order s"
  shows "blamed order t"
proof (cases "first_err t = first_err s")
  case True
  note fr = node_step_frame [OF step]
  show ?thesis unfolding blamed_def
  proof (intro allI impI)
    fix m e assume "first_err t = Some (CompFailed m e)"
    then obtain k where k: "k < length order" "c_name (order ! k) = m" "k \<notin> donec s"
      "pcs s k \<in> {PLeaving, PEnded}" using b True by (auto simp: blamed_def)
    then have "k \<notin> donec t \<and> pcs t k \<in> {PLeaving, PEnded}"
      using ret_step_keeps_left [OF step] fr by (cases "k = i") auto
    then show "\<exists>i<length order. c_name (order ! i) = m \<and> i \<notin> donec t \<and> pcs t i \<in> {PLeaving, PEnded}"
      using k by blast
  qed
next
  case False
  then obtain e where e: "pcs s i = PReturned (RunErr e)" "donec t = donec s" "pcs t i = PLeaving"
    "first_err t = Some (if ctx_err s then CtxCanceled else e)"
    using first_err_set [OF step] by metis
  have ok: "node_ok order s i" using inv i by (simp add: sched_inv_def)
  then have "i \<notin> donec s" using e(1) by (auto simp: node_ok_def)
  moreover have "c_name (order ! i) = m" if "e = CompFailed m d" for m d
    using ok e(1) that by (auto simp: node_ok_def pc_ok_def)
  ultimately show ?thesis using e i by (auto simp: blamed_def split: if_splits)
qed

lemma reach_blamed: "sched_reach kns order s \<Longrightarrow> blamed order s"
proof (induction rule: sched_reach.induct)
  case start
  then show ?case by (simp add: blamed_def init_sched_def)
next
  case (step s t)
  from step(2) show ?case
  proof (cases rule: sched_step.cases)
    case (node i)
    then show ?thesis using node_step_blamed sched_reach_inv [OF step(1)] step.IH by blast
  qed (use step.IH in \<open>simp add: blamed_def\<close>)
qed

text \<open>
  C11. When every goroutine has ended: no error means that every enabled component is done, and an
  error that names a component names one that is not done.
\<close>

theorem outcome_sound:
  assumes "sched_reach kns order s" "all_ended order s"
  shows "(run_components_result s = None \<longrightarrow> (\<forall>i<length order. i \<in> donec s)) \<and>
    (\<forall>m e. run_components_result s = Some (CompFailed m e) \<longrightarrow>
       (\<exists>i<length order. c_name (order ! i) = m \<and> i \<notin> donec s))"
proof -
  note inv = sched_reach_inv [OF assms(1)]
  have "i \<in> donec s" if "run_components_result s = None" "i < length order" for i
  proof -
    have "\<not> sched_err s"
      using that(1) inv by (auto simp: run_components_result_def sched_inv_def err_ok_def
          split: option.splits if_splits)
    moreover have "node_ok order s i" "pcs s i = PEnded"
      using inv that(2) assms(2) by (simp_all add: sched_inv_def all_ended_def)
    ultimately show ?thesis by (simp add: node_ok_def pc_ok_def)
  qed
  moreover have "\<exists>i<length order. c_name (order ! i) = m \<and> i \<notin> donec s"
    if "run_components_result s = Some (CompFailed m e)" for m e
    using that reach_blamed [OF assms(1)]
    by (auto simp: run_components_result_def blamed_def split: option.splits if_splits)
  ultimately show ?thesis by blast
qed

theorem outcome_sound_witness:
  "0 \<in> donec (demo_run demo_good) \<and> 1 \<in> donec (demo_run demo_good) \<and>
   (\<exists>i. c_name (demo_order ! i) = ''kafka'' \<and> i \<notin> donec (demo_run demo_bad))"
proof -
  have "\<forall>i<length demo_order. i \<in> donec (demo_run demo_good)"
    using outcome_sound [OF demo_good_reach demo_ended(1)] demo_results(1) by blast
  moreover have "length demo_order = 2" by code_simp
  moreover have "\<exists>i<length demo_order. c_name (demo_order ! i) = ''kafka'' \<and> i \<notin> donec (demo_run demo_bad)"
    using outcome_sound [OF demo_bad_reach demo_ended(2)] demo_results(2) by blast
  ultimately show ?thesis by auto
qed

text \<open>After the scheduling was stopped, by a failure or by Ctrl-C.\<close>

definition starts_of :: "sched \<Rightarrow> string list" where
  "starts_of s = concat (map (\<lambda>e. case e of DashStart x _ \<Rightarrow> [x] | _ \<Rightarrow> []) (dash s))"

lemma run_step_stopped:
  assumes "run_step kns order i s t" "sched_err s"
  shows "starts_of t = starts_of s \<and> (pcs t i = PInstalling \<longrightarrow> pcs s i = PInstalling)"
  using assms by (cases rule: run_step.cases) (auto simp: sched_updates after_creds_def starts_of_def)

lemma node_step_stopped:
  assumes "node_step kns order i s t" "sched_err s"
  shows "starts_of t = starts_of s \<and> (pcs t i = PInstalling \<longrightarrow> pcs s i = PInstalling)"
  using assms(1)
proof (cases rule: node_step.cases)
  case run
  then show ?thesis using run_step_stopped assms(2) by blast
qed (use assms(2) in \<open>auto simp: goto_def leave_def starts_of_def\<close>)

lemma node_step_result:
  assumes "node_step kns order i s t" "err_ok s" "sched_err s"
  shows "run_components_result t = run_components_result s"
proof (cases "first_err t = first_err s")
  case True
  then show ?thesis using node_step_frame [OF assms(1)] by (simp add: run_components_result_def)
next
  case False
  then obtain e where e: "first_err s = None" "first_err t = Some (if ctx_err s then CtxCanceled else e)"
    using first_err_set [OF assms(1)] by metis
  then have "ctx_err s" using assms(2,3) by (simp add: err_ok_def)
  then show ?thesis using e by (simp add: run_components_result_def)
qed

lemma sched_step_stopped:
  assumes "sched_step kns order s t" "sched_inv order s" "sched_err s"
  shows "starts_of t = starts_of s \<and> (\<forall>i. pcs t i = PInstalling \<longrightarrow> pcs s i = PInstalling) \<and>
    run_components_result t = run_components_result s"
  using assms(1)
proof (cases rule: sched_step.cases)
  case (node i)
  have "pcs t j = PInstalling \<longrightarrow> pcs s j = PInstalling" for j
    using node_step_stopped [OF node(2) assms(3)] node_step_frame [OF node(2)] by (cases "j = i") auto
  then show ?thesis
    using node_step_stopped [OF node(2) assms(3)] node_step_result [OF node(2)] assms(2,3)
    by (auto simp: sched_inv_def)
qed (use assms(2,3) in \<open>auto simp: starts_of_def run_components_result_def sched_inv_def err_ok_def
      split: option.splits\<close>)



text \<open>
  C19. A pipeline that lists every component after the ones it waits on never deadlocks: from every
  state the scheduler can reach, some run ends every goroutine.
\<close>

theorem scheduler_never_stuck:
  assumes "sched_reach kns order s" "ranked order"
  shows "(\<exists>t. (sched_step kns order)\<^sup>*\<^sup>* s t \<and> all_ended order t) \<and>
    (all_ended order s \<or> (\<exists>i<length order. \<exists>t. node_step kns order i s t))"
proof (intro conjI)
  show "\<exists>t. (sched_step kns order)\<^sup>*\<^sup>* s t \<and> all_ended order t" by (rule reach_finish [OF assms])
  show "all_ended order s \<or> (\<exists>i<length order. \<exists>t. node_step kns order i s t)"
    using progress [OF sched_reach_inv [OF assms(1)] assms(2), where kns = kns and a = None]
    by (blast intro: move_step)
qed

theorem scheduler_never_stuck_witness:
  "\<exists>t. (sched_step ''kafka'' demo_order)\<^sup>*\<^sup>* (init_sched demo_order) t \<and> all_ended demo_order t"
proof -
  have "ranked demo_order" by code_simp
  then show ?thesis using scheduler_never_stuck [OF sched_reach.start] by metis
qed



subsection \<open>The dashboard\<close>

fun event_id :: "dash_event \<Rightarrow> string option" where
  "event_id (DashStart x _) = Some x"
| "event_id (DashFinish x _) = Some x"
| "event_id (DashStop x) = Some x"
| "event_id (DashSkip _) = None"
| "event_id DashStep = None"

definition log_of :: "string \<Rightarrow> sched \<Rightarrow> dash_event list" where
  "log_of x s = filter (\<lambda>e. event_id e = Some x) (dash s)"

text \<open>What the dashboard was told of a component by the time its goroutine is at \<open>p\<close>.\<close>

definition finished_logs :: "component \<Rightarrow> dash_event list set" where
  "finished_logs c = insert [DashFinish (c_id c) True]
     ((\<lambda>b. [DashStart (c_id c) (c_timeout c), DashFinish (c_id c) b]) ` UNIV)"

definition closed_logs :: "component \<Rightarrow> dash_event list set" where
  "closed_logs c =
     finished_logs c \<union> {[], [DashStart (c_id c) (c_timeout c), DashStop (c_id c)]}"

definition log_ok :: "component \<Rightarrow> pc \<Rightarrow> bool \<Rightarrow> dash_event list \<Rightarrow> bool" where
  "log_ok c p done es \<longleftrightarrow>
     (done \<longrightarrow> es \<in> finished_logs c) \<and>
     (case p of
        PCreds \<Rightarrow> es = [DashStart (c_id c) (c_timeout c)]
      | PInstallGate \<Rightarrow> es = [DashStart (c_id c) (c_timeout c)]
      | PInstalling \<Rightarrow> es = [DashStart (c_id c) (c_timeout c)]
      | PMarkInstalled \<Rightarrow> es = [DashStart (c_id c) (c_timeout c)]
      | PWaiting \<Rightarrow> es = [DashStart (c_id c) (c_timeout c)]
      | PReturned r \<Rightarrow> es \<in> (if r = RunOk then finished_logs c else closed_logs c)
      | PLeaving \<Rightarrow> es \<in> closed_logs c
      | PEnded \<Rightarrow> es \<in> closed_logs c
      | _ \<Rightarrow> es = [])"

lemma run_step_log:
  assumes "run_step kns order i s t" "c_id (order ! i) \<noteq> []"
    "log_ok (order ! i) (pcs s i) False (log_of (c_id (order ! i)) s)"
  shows "log_ok (order ! i) (pcs t i) False (log_of (c_id (order ! i)) t)"
  using assms
  by (cases rule: run_step.cases)
    (simp_all add: sched_updates after_creds_def log_ok_def log_of_def finished_logs_def closed_logs_def)

lemma run_step_other_log:
  assumes "run_step kns order i s t" "c_id (order ! i) \<noteq> x"
  shows "log_of x t = log_of x s"
  using assms by (cases rule: run_step.cases) (auto simp: sched_updates log_of_def)

lemma node_step_other_log:
  assumes "node_step kns order i s t" "c_id (order ! i) \<noteq> x"
  shows "log_of x t = log_of x s"
  using assms(1)
proof (cases rule: node_step.cases)
  case run
  then show ?thesis using run_step_other_log assms(2) by blast
qed (auto simp: goto_def leave_def log_of_def)

definition logs_ok :: "component list \<Rightarrow> sched \<Rightarrow> bool" where
  "logs_ok order s \<longleftrightarrow> (\<forall>i<length order. c_id (order ! i) \<noteq> [] \<longrightarrow>
     log_ok (order ! i) (pcs s i) (i \<in> donec s) (log_of (c_id (order ! i)) s))"

lemma node_step_log:
  assumes step: "node_step kns order i s t" and x: "c_id (order ! i) \<noteq> []"
    and ok: "node_ok order s i"
    and log: "log_ok (order ! i) (pcs s i) (i \<in> donec s) (log_of (c_id (order ! i)) s)"
  shows "log_ok (order ! i) (pcs t i) (i \<in> donec t) (log_of (c_id (order ! i)) t)"
  using step
proof (cases rule: node_step.cases)
  case run
  then have "i \<notin> donec s" using ok by (cases rule: run_step.cases) (simp_all add: node_ok_def)
  then show ?thesis using run_step_log [OF run x] log run_step_frame [OF run] by simp
qed (use log in \<open>auto simp: goto_def leave_def log_ok_def log_of_def closed_logs_def\<close>)

lemma logs_ok_step:
  assumes "sched_step kns order s t" "sched_inv order s" "logs_ok order s"
    "\<And>i j. i < length order \<Longrightarrow> j < length order \<Longrightarrow> c_id (order ! i) \<noteq> [] \<Longrightarrow>
       c_id (order ! i) = c_id (order ! j) \<Longrightarrow> i = j"
  shows "logs_ok order t"
  using assms(1)
proof (cases rule: sched_step.cases)
  case (node i)
  note fr = node_step_frame [OF node(2)]
  have "log_ok (order ! j) (pcs t j) (j \<in> donec t) (log_of (c_id (order ! j)) t)"
    if j: "j < length order" "c_id (order ! j) \<noteq> []" for j
  proof (cases "j = i")
    case True
    then show ?thesis
      using node_step_log [OF node(2)] j assms(2,3) by (simp add: sched_inv_def logs_ok_def)
  next
    case False
    then have "c_id (order ! i) \<noteq> c_id (order ! j)" using assms(4) j node(1) by metis
    moreover have "(j \<in> donec t) = (j \<in> donec s)" "pcs t j = pcs s j" using fr False by blast+
    ultimately show ?thesis
      using node_step_other_log [OF node(2)] j assms(3) by (simp add: logs_ok_def)
  qed
  then show ?thesis by (simp add: logs_ok_def)
qed (use assms(3) in \<open>simp add: logs_ok_def log_of_def\<close>)

text \<open>
  C23. When the goroutines have ended, the dashboard was told of each component a closed story:
  nothing, a skip finished as ready, or one start closed by exactly one finish or stop; and of a
  component that is done, a finish. (The ids of the enabled components are distinct.)
\<close>

theorem dashboard_closed:
  assumes "sched_reach kns order s" "all_ended order s" "i < length order" "c_id (order ! i) \<noteq> []"
    "\<And>i j. i < length order \<Longrightarrow> j < length order \<Longrightarrow> c_id (order ! i) \<noteq> [] \<Longrightarrow>
       c_id (order ! i) = c_id (order ! j) \<Longrightarrow> i = j"
  shows "log_of (c_id (order ! i)) s \<in> (if i \<in> donec s then finished_logs (order ! i) else closed_logs (order ! i))"
proof -
  have "logs_ok order s" using assms(1)
  proof (induction rule: sched_reach.induct)
    case start
    then show ?case by (simp add: logs_ok_def log_ok_def log_of_def init_sched_def)
  next
    case (step s t)
    then show ?case using logs_ok_step [OF step(2) sched_reach_inv [OF step(1)]] assms(5) by blast
  qed
  then show ?thesis using assms(2-4) by (auto simp: logs_ok_def log_ok_def all_ended_def)
qed

theorem dashboard_closed_witness:
  "log_of ''kafka'' (demo_run demo_good) \<in> finished_logs (demo_order ! 0)"
proof -
  have ids: "c_id (demo_order ! 0) = ''kafka''" "c_id (demo_order ! 1) = ''users''" "length demo_order = 2"
    "0 \<in> donec (demo_run demo_good)" by code_simp+
  then have "i = j" if "i < length demo_order" "j < length demo_order"
    "c_id (demo_order ! i) = c_id (demo_order ! j)" for i j
    using that by (auto simp: less_2_cases_iff)
  then show ?thesis
    using dashboard_closed [OF demo_good_reach demo_ended(1), of 0] ids by simp
qed

end
