(* ===== verification/DeployPlan.thy ===== *)
theory DeployPlan
  imports DeployScheduler Components "HOL-Library.Multiset"
begin

text \<open>
  The plan of \<open>kates deploy\<close>: \<open>cli/cmd/deploy_plan.go\<close> (which components the flags or the
  wizard turned on, the namespaces they go into, the rows of the views and of the dashboard) and
  the pipeline \<open>deployComponents\<close> of \<open>cli/cmd/deploy_components.go\<close>, one constructor per
  component as there. The global flag variables are the record \<open>deploy_flags\<close>. Of a component
  the model keeps what the scheduler reads: ids, ordering, the enabling condition, the namespace,
  the credentials and whether it has a skip check, an install and a wait. Times are in seconds.
  The forms and the printing are left out; what a form asks is modelled by the fields it shows.
\<close>

record deploy_flags =
  topology :: string
  deploy_namespace :: string
  kafka_ns :: string
  connect_ns :: string
  db_ns :: string
  app_ns :: string
  chaos_ns :: string
  monitoring_ns :: string
  kafka_ui_ns :: string
  mm2_ns :: string
  schema_registry :: string
  flag_kafka_name :: string
  adminless :: bool
  adminless_scrape :: bool
  with_chaos :: bool
  with_monitoring :: bool
  with_cert_manager :: bool
  with_kyverno :: bool
  with_strimzi :: bool
  with_kafka_connect :: bool
  with_kafka_ui :: bool
  with_kates :: bool
  with_mirror_maker2 :: bool

section \<open>Flags, picks and namespaces\<close>

definition pick_component :: "string \<Rightarrow> deploy_flags \<Rightarrow> deploy_flags" where
  "pick_component c f =
     (if c = ''strimzi'' then f\<lparr>with_strimzi := True\<rparr>
      else if c = ''kafka-connect'' then f\<lparr>with_kafka_connect := True\<rparr>
      else if c = ''kafka-ui'' then f\<lparr>with_kafka_ui := True\<rparr>
      else if c = ''kates'' then f\<lparr>with_kates := True\<rparr>
      else if c = ''mirror-maker2'' then f\<lparr>with_mirror_maker2 := True\<rparr>
      else if c = ''chaos'' then f\<lparr>with_chaos := True\<rparr>
      else if c = ''monitoring'' then
        (if adminless f then f\<lparr>adminless_scrape := True\<rparr> else f\<lparr>with_monitoring := True\<rparr>)
      else if c = ''cert-manager'' then f\<lparr>with_cert_manager := True\<rparr>
      else if c = ''kyverno'' then f\<lparr>with_kyverno := True\<rparr>
      else f)"

definition apply_picked :: "string list \<Rightarrow> deploy_flags \<Rightarrow> deploy_flags" where
  "apply_picked picked f =
     fold pick_component picked
       (f\<lparr>with_kafka_connect := False, with_chaos := False, with_monitoring := False,
          with_cert_manager := False, with_kyverno := False, with_strimzi := False,
          with_kafka_ui := False, with_kates := False, with_mirror_maker2 := False,
          adminless_scrape := False\<rparr>)"

text \<open>The namespaces the second form asks for, after the two every deploy has.\<close>

datatype ns_field = AskMonitoring | AskChaos | AskConnect | AskDb | AskMM2 | AskKafkaUI

definition component_namespace_fields :: "deploy_flags \<Rightarrow> string list \<Rightarrow> ns_field list" where
  "component_namespace_fields f picked =
     (if ''monitoring'' \<in> set picked \<and> \<not> adminless f then [AskMonitoring] else []) @
     (if ''chaos'' \<in> set picked then [AskChaos] else []) @
     (if ''kafka-connect'' \<in> set picked then [AskConnect, AskDb] else []) @
     (if ''mirror-maker2'' \<in> set picked then [AskMM2] else []) @
     (if ''kafka-ui'' \<in> set picked then [AskKafkaUI] else [])"

record resolved_namespaces =
  rn_kafka :: string
  rn_connect :: string
  rn_app :: string
  rn_chaos :: string
  rn_jaeger :: string
  rn_kafka_ui :: string
  rn_mm2 :: string

definition resolve_namespaces :: "deploy_flags \<Rightarrow> resolved_namespaces" where
  "resolve_namespaces f =
     (if topology f = ''single'' then
        \<lparr>rn_kafka = deploy_namespace f, rn_connect = deploy_namespace f, rn_app = deploy_namespace f,
         rn_chaos = deploy_namespace f, rn_jaeger = deploy_namespace f,
         rn_kafka_ui = deploy_namespace f, rn_mm2 = deploy_namespace f\<rparr>
      else
        \<lparr>rn_kafka = kafka_ns f, rn_connect = connect_ns f, rn_app = app_ns f, rn_chaos = chaos_ns f,
         rn_jaeger = monitoring_ns f, rn_kafka_ui = kafka_ui_ns f, rn_mm2 = mm2_ns f\<rparr>)"

definition deploy_placement :: "deploy_flags \<Rightarrow> resolved_namespaces \<Rightarrow> placement" where
  "deploy_placement f ns =
     \<lparr>pl_kafka = rn_kafka ns, pl_connect = rn_connect ns, pl_database = db_ns f, pl_app = rn_app ns,
      pl_chaos = rn_chaos ns, pl_monitoring = rn_jaeger ns, pl_kafka_ui = rn_kafka_ui ns,
      pl_mm2 = rn_mm2 ns, kafka_name = flag_kafka_name f\<rparr>"

section \<open>What is selected, and the rows of the views\<close>

definition component_selected :: "deploy_flags \<Rightarrow> string \<Rightarrow> bool" where
  "component_selected f i =
     (if i = ''strimzi'' then with_strimzi f
      else if i = ''cert-manager'' then with_cert_manager f
      else if i = ''kyverno'' then with_kyverno f
      else if i = ''monitoring'' then with_monitoring f
      else if i \<in> {''postgres'', ''kafka-connect'', ''kafka-connector''} then with_kafka_connect f
      else if i = ''apicurio'' then schema_registry f = ''apicurio''
      else if i = ''kafka-ui'' then with_kafka_ui f
      else if i = ''mirror-maker2'' then with_mirror_maker2 f
      else if i = ''chaos'' then with_chaos f
      else if i = ''kates'' then with_kates f
      else i \<in> {''kafka'', ''kafka-users''})"

definition selected_components :: "deploy_flags \<Rightarrow> comp_row list" where
  "selected_components f = filter (\<lambda>c. component_selected f (comp_id c)) all_components"

definition entry_name :: "deploy_flags \<Rightarrow> comp_row \<Rightarrow> string" where
  "entry_name f c =
     (if comp_id c = ''kafka'' then ''Kafka ('' @ flag_kafka_name f @ '')''
      else if comp_id c = ''monitoring'' then ''Monitoring''
      else if comp_id c = ''apicurio'' then ''Apicurio''
      else comp_name c)"

text \<open>The fields \<open>Status\<close>, \<open>Error\<close> and \<open>Duration\<close> of an entry are filled in after the deploy.\<close>

record summary_entry =
  se_icon :: string
  se_name :: string
  se_release :: string
  se_namespace :: string
  se_group :: string

definition build_shared_entries :: "deploy_flags \<Rightarrow> resolved_namespaces \<Rightarrow> summary_entry list" where
  "build_shared_entries f ns =
     (let p = deploy_placement f ns
      in map (\<lambda>c. \<lparr>se_icon = comp_icon c, se_name = entry_name f c, se_release = release_name c p,
                  se_namespace = namespace_of c p, se_group = comp_group c\<rparr>)
           (filter installs (selected_components f)))"

definition count_deploy_steps :: "deploy_flags \<Rightarrow> nat" where
  "count_deploy_steps f = length (selected_components f)"

text \<open>\<open>fmt.Sprintf\<close> with one string verb: its first occurrence is replaced.\<close>

fun fill_verb :: "string \<Rightarrow> string \<Rightarrow> string" where
  "fill_verb name [] = []"
| "fill_verb name (x # xs) =
     (case xs of
        y # ys \<Rightarrow> if x = CHR ''%'' \<and> y = CHR ''s'' then name @ ys else x # fill_verb name xs
      | [] \<Rightarrow> [x])"

definition dashboard_selector :: "deploy_flags \<Rightarrow> comp_row \<Rightarrow> string" where
  "dashboard_selector f c =
     (if sublist ''%s'' (comp_selector c) then fill_verb (flag_kafka_name f) (comp_selector c)
      else comp_selector c)"

record dashboard_row =
  dr_id :: string
  dr_name :: string
  dr_group :: string
  dr_namespace :: string
  dr_selector :: string

definition register_dashboard_components ::
  "deploy_flags \<Rightarrow> resolved_namespaces \<Rightarrow> dashboard_row list" where
  "register_dashboard_components f ns =
     map (\<lambda>c. \<lparr>dr_id = comp_id c, dr_name = comp_name c, dr_group = comp_group c,
               dr_namespace = namespace_of c (deploy_placement f ns),
               dr_selector = dashboard_selector f c\<rparr>)
       (selected_components f)"

section \<open>The pipeline\<close>

definition operator_ids :: "string list" where
  "operator_ids = [''strimzi'', ''cert-manager'', ''kyverno'']"

definition strimzi_component :: "deploy_flags \<Rightarrow> resolved_namespaces \<Rightarrow> component" where
  "strimzi_component f ns =
     \<lparr>c_id = ''strimzi'', c_name = ''Strimzi Operator'', c_deps = [], c_after = [],
      c_enabled = (with_strimzi f), c_namespace = ''strimzi-operator'', c_secrets = [],
      c_timeout = 300, c_has_installed = False,
      c_skip_msg = [], c_has_install = True, c_has_wait = True\<rparr>"

definition cert_manager_component :: "deploy_flags \<Rightarrow> resolved_namespaces \<Rightarrow> component" where
  "cert_manager_component f ns =
     \<lparr>c_id = ''cert-manager'', c_name = ''Cert-Manager'', c_deps = [], c_after = [],
      c_enabled = (with_cert_manager f), c_namespace = ''cert-manager'', c_secrets = [],
      c_timeout = 600, c_has_installed = True,
      c_skip_msg = ''Cert-Manager already deployed. Skipping.'', c_has_install = True, c_has_wait = True\<rparr>"

definition kyverno_component :: "deploy_flags \<Rightarrow> resolved_namespaces \<Rightarrow> component" where
  "kyverno_component f ns =
     \<lparr>c_id = ''kyverno'', c_name = ''Kyverno'', c_deps = [], c_after = [],
      c_enabled = (with_kyverno f), c_namespace = ''kyverno'', c_secrets = [],
      c_timeout = 300, c_has_installed = True,
      c_skip_msg = ''Kyverno already deployed. Skipping.'', c_has_install = True, c_has_wait = True\<rparr>"

definition operators_done_component :: "deploy_flags \<Rightarrow> resolved_namespaces \<Rightarrow> component" where
  "operators_done_component f ns =
     \<lparr>c_id = [], c_name = ''operators'', c_deps = operator_ids, c_after = [],
      c_enabled = (True), c_namespace = [], c_secrets = [],
      c_timeout = 0, c_has_installed = False,
      c_skip_msg = [], c_has_install = True, c_has_wait = False\<rparr>"

definition monitoring_component :: "deploy_flags \<Rightarrow> resolved_namespaces \<Rightarrow> component" where
  "monitoring_component f ns =
     \<lparr>c_id = ''monitoring'', c_name = ''Monitoring'', c_deps = [''operators''], c_after = [],
      c_enabled = (with_monitoring f), c_namespace = rn_jaeger ns, c_secrets = [],
      c_timeout = 600, c_has_installed = True,
      c_skip_msg = ''Monitoring stack already deployed. Skipping.'', c_has_install = True, c_has_wait = True\<rparr>"

definition kyverno_scrape_component :: "deploy_flags \<Rightarrow> resolved_namespaces \<Rightarrow> component" where
  "kyverno_scrape_component f ns =
     \<lparr>c_id = [], c_name = ''kyverno-scrape'', c_deps = [''kyverno'', ''monitoring''], c_after = [],
      c_enabled = (with_kyverno f \<and> with_monitoring f), c_namespace = [], c_secrets = [],
      c_timeout = 0, c_has_installed = False,
      c_skip_msg = [], c_has_install = True, c_has_wait = False\<rparr>"

definition postgres_component :: "deploy_flags \<Rightarrow> resolved_namespaces \<Rightarrow> component" where
  "postgres_component f ns =
     \<lparr>c_id = ''postgres'', c_name = ''PostgreSQL'', c_deps = [''operators''], c_after = [],
      c_enabled = (with_kafka_connect f), c_namespace = db_ns f, c_secrets = [],
      c_timeout = 300, c_has_installed = True,
      c_skip_msg = ''PostgreSQL already deployed. Skipping.'', c_has_install = True, c_has_wait = True\<rparr>"

definition kafka_component :: "deploy_flags \<Rightarrow> resolved_namespaces \<Rightarrow> component" where
  "kafka_component f ns =
     \<lparr>c_id = ''kafka'', c_name = ''Kafka Cluster'', c_deps = [''operators''], c_after = [''monitoring''],
      c_enabled = (True), c_namespace = rn_kafka ns, c_secrets = [],
      c_timeout = 900, c_has_installed = True,
      c_skip_msg = ''Kafka Cluster already deployed. Skipping.'', c_has_install = True, c_has_wait = True\<rparr>"

definition kafka_users_component :: "deploy_flags \<Rightarrow> resolved_namespaces \<Rightarrow> component" where
  "kafka_users_component f ns =
     \<lparr>c_id = ''kafka-users'', c_name = ''Kafka Users'', c_deps = [''kafka''], c_after = [],
      c_enabled = (True), c_namespace = rn_kafka ns, c_secrets = [],
      c_timeout = 480, c_has_installed = False,
      c_skip_msg = [], c_has_install = False, c_has_wait = True\<rparr>"

definition kafka_connect_component :: "deploy_flags \<Rightarrow> resolved_namespaces \<Rightarrow> component" where
  "kafka_connect_component f ns =
     \<lparr>c_id = ''kafka-connect'', c_name = ''Kafka Connect'', c_deps = [''kafka-users'', ''postgres''], c_after = [],
      c_enabled = (with_kafka_connect f), c_namespace = rn_connect ns, c_secrets = [\<lparr>sec_name = ''kates-connect'', sec_jaas = True, sec_wait = 120\<rparr>],
      c_timeout = 900, c_has_installed = False,
      c_skip_msg = [], c_has_install = True, c_has_wait = True\<rparr>"

definition kafka_connector_component :: "deploy_flags \<Rightarrow> resolved_namespaces \<Rightarrow> component" where
  "kafka_connector_component f ns =
     \<lparr>c_id = ''kafka-connector'', c_name = ''Kafka Connectors'', c_deps = [''kafka-connect''], c_after = [],
      c_enabled = (with_kafka_connect f), c_namespace = rn_connect ns, c_secrets = [],
      c_timeout = 600, c_has_installed = False,
      c_skip_msg = [], c_has_install = True, c_has_wait = True\<rparr>"

definition apicurio_component :: "deploy_flags \<Rightarrow> resolved_namespaces \<Rightarrow> component" where
  "apicurio_component f ns =
     \<lparr>c_id = ''apicurio'', c_name = ''Apicurio'', c_deps = [''kafka-users''], c_after = [''monitoring''],
      c_enabled = (schema_registry f = ''apicurio''), c_namespace = rn_kafka ns, c_secrets = [],
      c_timeout = 300, c_has_installed = True,
      c_skip_msg = ''Apicurio already deployed.'', c_has_install = True, c_has_wait = False\<rparr>"

definition kates_component :: "deploy_flags \<Rightarrow> resolved_namespaces \<Rightarrow> component" where
  "kates_component f ns =
     \<lparr>c_id = ''kates'', c_name = ''Kates Backend'', c_deps = [''kafka-users'', ''postgres'', ''monitoring''], c_after = [],
      c_enabled = (with_kates f), c_namespace = rn_app ns, c_secrets = [\<lparr>sec_name = ''kates-backend'', sec_jaas = False, sec_wait = 0\<rparr>],
      c_timeout = 480, c_has_installed = False,
      c_skip_msg = [], c_has_install = True, c_has_wait = True\<rparr>"

definition kafka_ui_component :: "deploy_flags \<Rightarrow> resolved_namespaces \<Rightarrow> component" where
  "kafka_ui_component f ns =
     \<lparr>c_id = ''kafka-ui'', c_name = ''Kafka UI'', c_deps = [''kafka-users''], c_after = [],
      c_enabled = (with_kafka_ui f), c_namespace = rn_kafka_ui ns, c_secrets = [\<lparr>sec_name = ''kafka-ui'', sec_jaas = False, sec_wait = 0\<rparr>],
      c_timeout = 300, c_has_installed = True,
      c_skip_msg = ''Kafka UI already deployed.'', c_has_install = True, c_has_wait = False\<rparr>"

definition mirror_maker2_component :: "deploy_flags \<Rightarrow> resolved_namespaces \<Rightarrow> component" where
  "mirror_maker2_component f ns =
     \<lparr>c_id = ''mirror-maker2'', c_name = ''MirrorMaker 2'', c_deps = [''kafka-users''], c_after = [''monitoring''],
      c_enabled = (with_mirror_maker2 f), c_namespace = rn_mm2 ns, c_secrets = [\<lparr>sec_name = ''kates-mm2'', sec_jaas = False, sec_wait = 0\<rparr>],
      c_timeout = 600, c_has_installed = True,
      c_skip_msg = ''MirrorMaker 2 already deployed.'', c_has_install = True, c_has_wait = False\<rparr>"

definition chaos_component :: "deploy_flags \<Rightarrow> resolved_namespaces \<Rightarrow> component" where
  "chaos_component f ns =
     \<lparr>c_id = ''chaos'', c_name = ''Litmus Chaos'', c_deps = [''kafka''], c_after = [''monitoring''],
      c_enabled = (with_chaos f), c_namespace = rn_chaos ns, c_secrets = [],
      c_timeout = 300, c_has_installed = True,
      c_skip_msg = ''Litmus Chaos already deployed.'', c_has_install = True, c_has_wait = True\<rparr>"

definition deploy_components :: "deploy_flags \<Rightarrow> resolved_namespaces \<Rightarrow> component list" where
  "deploy_components f ns =
     [strimzi_component f ns,
      cert_manager_component f ns,
      kyverno_component f ns,
      operators_done_component f ns,
      monitoring_component f ns,
      kyverno_scrape_component f ns,
      postgres_component f ns,
      kafka_component f ns,
      kafka_users_component f ns,
      kafka_connect_component f ns,
      kafka_connector_component f ns,
      apicurio_component f ns,
      kates_component f ns,
      kafka_ui_component f ns,
      mirror_maker2_component f ns,
      chaos_component f ns]"

lemmas component_defs = strimzi_component_def cert_manager_component_def kyverno_component_def
  operators_done_component_def monitoring_component_def kyverno_scrape_component_def
  postgres_component_def kafka_component_def kafka_users_component_def kafka_connect_component_def
  kafka_connector_component_def apicurio_component_def kates_component_def kafka_ui_component_def
  mirror_maker2_component_def chaos_component_def operator_ids_def

section \<open>The keys of the scheduler\<close>

text \<open>No component waits on itself or on one listed after it.\<close>

fun listed_after :: "component list \<Rightarrow> bool" where
  "listed_after [] = True"
| "listed_after (c # cs) \<longleftrightarrow>
     (\<forall>d\<in>set (c_deps c @ c_after c). d \<notin> node_key ` set (c # cs)) \<and> listed_after cs"

lemma listed_after_filter: "listed_after cs \<Longrightarrow> listed_after (filter P cs)"
  by (induction cs) (auto simp: image_iff)

lemma listed_after_nth:
  "listed_after cs \<Longrightarrow> i \<le> j \<Longrightarrow> j < length cs \<Longrightarrow> d \<in> set (c_deps (cs ! i) @ c_after (cs ! i)) \<Longrightarrow>
   node_key (cs ! j) \<noteq> d"
proof (induction cs arbitrary: i j)
  case (Cons c cs)
  show ?case
  proof (cases i)
    case 0
    then have "node_key ((c # cs) ! j) \<in> node_key ` set (c # cs)" using Cons.prems(3) nth_mem by blast
    then show ?thesis using Cons.prems 0 by auto
  next
    case (Suc k)
    then obtain l where "j = Suc l" using Cons.prems(2) by (cases j) auto
    then show ?thesis using Cons.IH [of k l] Cons.prems Suc by simp
  qed
qed simp

lemma fill_nodes_Some:
  "fill_nodes k cs m x = Some j \<Longrightarrow>
   m x = Some j \<or> (\<exists>l<length cs. j = k + l \<and> node_key (cs ! l) = x)"
proof (induction cs arbitrary: k m)
  case (Cons c cs)
  then have "fill_nodes (Suc k) cs (m(node_key c \<mapsto> k)) x = Some j" by simp
  from Cons.IH [OF this] consider "(m(node_key c \<mapsto> k)) x = Some j"
    | l where "l < length cs" "j = Suc k + l" "node_key (cs ! l) = x" by blast
  then show ?case
  proof cases
    case 1
    then show ?thesis by (auto split: if_splits)
  next
    case 2
    then show ?thesis by (intro disjI2 exI [of _ "Suc l"]) simp
  qed
qed simp

lemma fill_nodes_dom: "fill_nodes k cs m x = None \<longleftrightarrow> m x = None \<and> x \<notin> node_key ` set cs"
  by (induction cs arbitrary: k m) auto

lemma nodes_SomeD: "nodes order x = Some j \<Longrightarrow> j < length order \<and> node_key (order ! j) = x"
  using fill_nodes_Some [of 0 order Map.empty x j] by (auto simp: nodes_def)

lemma nodes_None: "nodes order x = None \<longleftrightarrow> x \<notin> node_key ` set order"
  by (simp add: nodes_def fill_nodes_dom)

lemma nodes_nth:
  assumes "distinct (map node_key order)" "i < length order"
  shows "nodes order (node_key (order ! i)) = Some i"
proof -
  obtain j where j: "nodes order (node_key (order ! i)) = Some j"
    using nodes_None [of order "node_key (order ! i)"] nth_mem [OF assms(2)] by blast
  then have "j < length order" "node_key (order ! j) = node_key (order ! i)" using nodes_SomeD by auto
  then have "j = i" using assms by (metis length_map nth_eq_iff_index_eq nth_map)
  then show ?thesis using j by simp
qed

lemma listed_after_ranked: "listed_after order \<Longrightarrow> ranked order"
  unfolding ranked_def
proof (intro allI impI ballI)
  fix i d assume la: "listed_after order" and i: "i < length order"
    and d: "d \<in> set (c_deps (order ! i) @ c_after (order ! i))"
  show "case nodes order d of None \<Rightarrow> True | Some j \<Rightarrow> j < i"
  proof (cases "nodes order d")
    case (Some j)
    then have "j < length order" "node_key (order ! j) = d" using nodes_SomeD by auto
    then have "\<not> i \<le> j" using listed_after_nth [OF la _ _ d] by blast
    then show ?thesis using Some by simp
  qed simp
qed

section \<open>The pipeline under its scheduler\<close>

definition pipeline_keys :: "string list" where
  "pipeline_keys = [''strimzi'', ''cert-manager'', ''kyverno'', ''operators'', ''monitoring'',
     ''kyverno-scrape'', ''postgres'', ''kafka'', ''kafka-users'', ''kafka-connect'',
     ''kafka-connector'', ''apicurio'', ''kates'', ''kafka-ui'', ''mirror-maker2'', ''chaos'']"

lemma pipeline_keys: "map node_key (deploy_components f ns) = pipeline_keys"
  by (simp add: deploy_components_def component_defs node_key_def pipeline_keys_def)

lemma pipeline_keys_distinct: "distinct pipeline_keys"
  by code_simp

lemma pipeline_listed_after: "listed_after (deploy_components f ns)"
  by (simp add: deploy_components_def component_defs node_key_def)

lemma pipeline_ranked: "ranked (node_order (deploy_components f ns))"
  unfolding node_order_def by (intro listed_after_ranked listed_after_filter pipeline_listed_after)

lemma distinct_map_filter': "distinct (map g xs) \<Longrightarrow> distinct (map g (filter P xs))"
  by (induction xs) auto

lemma pipeline_order_distinct: "distinct (map node_key (node_order (deploy_components f ns)))"
  unfolding node_order_def
  by (rule distinct_map_filter') (simp only: pipeline_keys pipeline_keys_distinct)

text \<open>The ids the dashboard shows are keys, so they too are distinct.\<close>

lemma pipeline_ids:
  assumes "i < length (node_order (deploy_components f ns))" "j < length (node_order (deploy_components f ns))"
    "c_id (node_order (deploy_components f ns) ! i) \<noteq> []"
    "c_id (node_order (deploy_components f ns) ! i) = c_id (node_order (deploy_components f ns) ! j)"
  shows "i = j"
proof -
  have "node_key (node_order (deploy_components f ns) ! i) = node_key (node_order (deploy_components f ns) ! j)"
    using assms(3,4) by (simp add: node_key_def)
  then show ?thesis
    using nodes_nth [OF pipeline_order_distinct] assms(1,2) by (metis option.inject)
qed

text \<open>
  C30. \<open>kates deploy\<close> cannot hang on its own ordering: whatever the flags and the namespaces, from
  every state its pipeline can reach under the scheduler some run ends every goroutine, and no
  run is longer than 248 steps.
\<close>

theorem deploy_pipeline_ends:
  assumes "(sched_step kns (node_order (deploy_components f ns)) ^^ m)
      (init_sched (node_order (deploy_components f ns))) s"
  shows "(\<exists>t. (sched_step kns (node_order (deploy_components f ns)))\<^sup>*\<^sup>* s t \<and>
      all_ended (node_order (deploy_components f ns)) t) \<and> m \<le> 248"
proof -
  let ?o = "node_order (deploy_components f ns)"
  have "sched_reach kns ?o s" using assms
    by (induction m arbitrary: s) (auto intro: sched_reach.intros)
  moreover have "(\<Sum>c\<leftarrow>?o. length (c_deps c) + length (c_after c) + 14) \<le> 
      (\<Sum>c\<leftarrow>deploy_components f ns. length (c_deps c) + length (c_after c) + 14)"
    unfolding node_order_def by (intro sum_list_filter_le_nat)
  moreover have "(\<Sum>c\<leftarrow>deploy_components f ns. length (c_deps c) + length (c_after c) + 14) = 247"
    by (simp add: deploy_components_def component_defs)
  ultimately show ?thesis
    using reach_finish [OF _ pipeline_ranked] steps_bound [OF assms] by (auto simp: steps_left_init)
qed

text \<open>A deploy of Kafka alone into the default namespaces.\<close>

definition demo_flags :: deploy_flags where
  "demo_flags =
     \<lparr>topology = ''isolated'', deploy_namespace = ''kates-stack'', kafka_ns = ''kafka'',
      connect_ns = ''connect'', db_ns = ''database'', app_ns = ''kates'', chaos_ns = ''litmus'',
      monitoring_ns = ''monitoring'', kafka_ui_ns = ''kafka'', mm2_ns = ''kafka'',
      schema_registry = ''none'', flag_kafka_name = ''krafter'', adminless = False,
      adminless_scrape = False, with_chaos = False, with_monitoring = False,
      with_cert_manager = False, with_kyverno = False, with_strimzi = True,
      with_kafka_connect = False, with_kafka_ui = False, with_kates = True,
      with_mirror_maker2 = False\<rparr>"

definition demo_pipeline :: "component list" where
  "demo_pipeline = node_order (deploy_components demo_flags (resolve_namespaces demo_flags))"

definition demo_plan :: "(nat \<times> string option) list" where
  "demo_plan = replicate 13 (0, None) @ replicate 16 (1, None) @ replicate 15 (2, None) @
     replicate 12 (3, None) @ replicate 11 (4, None)"

definition demo_deploy :: sched where
  "demo_deploy = the (play ''kafka'' demo_pipeline demo_plan (init_sched demo_pipeline))"

lemma demo_deploy_runs:
  "play ''kafka'' demo_pipeline demo_plan (init_sched demo_pipeline) \<noteq> None \<and>
   pcs demo_deploy 4 = PInstalling \<and> length demo_pipeline = 5 \<and> c_id (demo_pipeline ! 4) = ''kates''"
  by code_simp

lemma demo_deploy_steps:
  "(sched_step ''kafka'' demo_pipeline ^^ length demo_plan) (init_sched demo_pipeline) demo_deploy"
  using demo_deploy_runs by (auto simp: demo_deploy_def intro: play_steps)

lemma demo_deploy_reach: "sched_reach ''kafka'' demo_pipeline demo_deploy"
  using demo_deploy_runs play_reach [OF sched_reach.start] by (auto simp: demo_deploy_def)

theorem deploy_pipeline_ends_witness:
  "(\<exists>t. (sched_step ''kafka'' demo_pipeline)\<^sup>*\<^sup>* demo_deploy t \<and> all_ended demo_pipeline t) \<and>
   length demo_plan \<le> 248"
  using deploy_pipeline_ends [OF demo_deploy_steps [unfolded demo_pipeline_def]]
  by (simp only: demo_pipeline_def)

section \<open>What runs before what\<close>

text \<open>The dependency relation of the enabled components, by key.\<close>

definition needs :: "component list \<Rightarrow> (string \<times> string) set" where
  "needs order = {(node_key c, d) | c d. c \<in> set order \<and> d \<in> set (c_deps c) \<and> d \<in> node_key ` set order}"

definition past_gate :: "sched \<Rightarrow> nat \<Rightarrow> bool" where
  "past_gate s i \<longleftrightarrow> pcs s i = PInstalling \<or> i \<in> inst s"

lemma past_gate_deps:
  assumes "sched_reach kns order s" "i < length order" "past_gate s i"
    "d \<in> set (c_deps (order ! i))" "nodes order d = Some j"
  shows "j \<in> donec s \<and> j \<in> inst s"
proof -
  note inv = sched_reach_inv [OF assms(1)]
  have "node_ok order s i" using inv assms(2) by (simp add: sched_inv_def)
  then have "cleared order s i" using assms(3) by (auto simp: node_ok_def pc_ok_def past_gate_def)
  then have "j \<in> donec s" using assms(4,5) by (auto simp: cleared_def deps_done_def dest: metD)
  moreover have "node_ok order s j" using inv nodes_SomeD [OF assms(5)] by (simp add: sched_inv_def)
  ultimately show ?thesis by (simp add: node_ok_def)
qed

lemma past_gate_after:
  assumes "sched_reach kns order s" "i < length order" "past_gate s i"
    "d \<in> set (c_after (order ! i))" "nodes order d = Some j"
  shows "j \<in> inst s"
proof -
  have "node_ok order s i" using sched_reach_inv [OF assms(1)] assms(2) by (simp add: sched_inv_def)
  then have "cleared order s i" using assms(3) by (auto simp: node_ok_def pc_ok_def past_gate_def)
  then show ?thesis using assms(4,5) by (auto simp: cleared_def after_installed_def dest: metD)
qed

lemma needs_one:
  assumes "(k, d) \<in> needs order" "sched_reach kns order s" "distinct (map node_key order)"
    "nodes order k = Some i" "past_gate s i"
  shows "\<exists>j. nodes order d = Some j \<and> j \<in> donec s \<and> j \<in> inst s"
proof -
  obtain c where c: "c \<in> set order" "node_key c = k" "d \<in> set (c_deps c)" "d \<in> node_key ` set order"
    using assms(1) by (auto simp: needs_def)
  then obtain l where l: "l < length order" "order ! l = c" by (auto simp: in_set_conv_nth)
  then have "l = i" using nodes_nth [OF assms(3) l(1)] c assms(4) by simp
  moreover obtain j where "nodes order d = Some j" using c(4) nodes_None [of order d] by auto
  ultimately show ?thesis using past_gate_deps [OF assms(2) _ assms(5)] c l by blast
qed

lemma needs_done:
  assumes "(k, d) \<in> (needs order)\<^sup>+" "sched_reach kns order s" "distinct (map node_key order)"
    "nodes order k = Some i" "past_gate s i"
  shows "\<exists>j. nodes order d = Some j \<and> j \<in> donec s \<and> j \<in> inst s"
  using assms(1)
proof (induction rule: trancl_induct)
  case (base d)
  then show ?case using needs_one assms by blast
next
  case (step d e)
  then obtain j where "nodes order d = Some j" "past_gate s j" by (auto simp: past_gate_def)
  then show ?case using needs_one [OF step(2)] assms by blast
qed

definition pipeline_edges :: "(string \<times> string) list" where
  "pipeline_edges =
     [(''operators'', ''strimzi''), (''operators'', ''cert-manager''), (''operators'', ''kyverno''),
      (''monitoring'', ''operators''), (''kyverno-scrape'', ''kyverno''), (''kyverno-scrape'', ''monitoring''),
      (''postgres'', ''operators''), (''kafka'', ''operators''), (''kafka-users'', ''kafka''),
      (''kafka-connect'', ''kafka-users''), (''kafka-connect'', ''postgres''),
      (''kafka-connector'', ''kafka-connect''), (''apicurio'', ''kafka-users''),
      (''kates'', ''kafka-users''), (''kates'', ''postgres''), (''kates'', ''monitoring''),
      (''kafka-ui'', ''kafka-users''), (''mirror-maker2'', ''kafka-users''), (''chaos'', ''kafka'')]"

lemma pipeline_deps:
  "\<forall>c\<in>set (deploy_components f ns). c_deps c = map snd (filter (\<lambda>e. fst e = node_key c) pipeline_edges)"
  by (simp add: deploy_components_def component_defs node_key_def pipeline_edges_def)

definition up :: "deploy_flags \<Rightarrow> resolved_namespaces \<Rightarrow> string \<Rightarrow> bool" where
  "up f ns k \<longleftrightarrow> k \<in> node_key ` set (node_order (deploy_components f ns))"

definition pipeline_enabled :: "deploy_flags \<Rightarrow> (string \<times> bool) list" where
  "pipeline_enabled f =
     [(''strimzi'', with_strimzi f), (''cert-manager'', with_cert_manager f), (''kyverno'', with_kyverno f),
      (''operators'', True), (''monitoring'', with_monitoring f),
      (''kyverno-scrape'', with_kyverno f \<and> with_monitoring f), (''postgres'', with_kafka_connect f),
      (''kafka'', True), (''kafka-users'', True), (''kafka-connect'', with_kafka_connect f),
      (''kafka-connector'', with_kafka_connect f), (''apicurio'', schema_registry f = ''apicurio''),
      (''kates'', with_kates f), (''kafka-ui'', with_kafka_ui f),
      (''mirror-maker2'', with_mirror_maker2 f), (''chaos'', with_chaos f)]"

lemma pipeline_enabled: "map (\<lambda>c. (node_key c, c_enabled c)) (deploy_components f ns) = pipeline_enabled f"
  by (simp add: deploy_components_def component_defs node_key_def pipeline_enabled_def)

lemma up_alt: "up f ns k \<longleftrightarrow> (k, True) \<in> set (pipeline_enabled f)"
  unfolding up_def pipeline_enabled [of f ns, symmetric] by (force simp: node_order_def)

lemma up_simps [simp]:
  "up f ns ''operators''" "up f ns ''kafka''" "up f ns ''kafka-users''"
  "up f ns ''strimzi'' \<longleftrightarrow> with_strimzi f" "up f ns ''cert-manager'' \<longleftrightarrow> with_cert_manager f"
  "up f ns ''kyverno'' \<longleftrightarrow> with_kyverno f" "up f ns ''monitoring'' \<longleftrightarrow> with_monitoring f"
  "up f ns ''kyverno-scrape'' \<longleftrightarrow> with_kyverno f \<and> with_monitoring f"
  "up f ns ''postgres'' \<longleftrightarrow> with_kafka_connect f" "up f ns ''kafka-connect'' \<longleftrightarrow> with_kafka_connect f"
  "up f ns ''kafka-connector'' \<longleftrightarrow> with_kafka_connect f"
  "up f ns ''apicurio'' \<longleftrightarrow> schema_registry f = ''apicurio''" "up f ns ''kates'' \<longleftrightarrow> with_kates f"
  "up f ns ''kafka-ui'' \<longleftrightarrow> with_kafka_ui f" "up f ns ''mirror-maker2'' \<longleftrightarrow> with_mirror_maker2 f"
  "up f ns ''chaos'' \<longleftrightarrow> with_chaos f"
  by (simp_all add: up_alt pipeline_enabled_def)

lemma up_key: "up f ns k \<Longrightarrow> k \<in> set pipeline_keys"
  unfolding pipeline_keys [of f ns, symmetric] by (auto simp: up_def node_order_def)

lemma pipeline_needs:
  assumes "(k, d) \<in> set pipeline_edges" "up f ns k" "up f ns d"
  shows "(k, d) \<in> needs (node_order (deploy_components f ns))"
proof -
  obtain c where c: "c \<in> set (node_order (deploy_components f ns))" "node_key c = k"
    using assms(2) by (auto simp: up_def)
  then have "c_deps c = map snd (filter (\<lambda>e. fst e = k) pipeline_edges)"
    using pipeline_deps [of f ns] by (auto simp: node_order_def)
  then have "d \<in> set (c_deps c)" using assms(1) by force
  then show ?thesis using c assms(3) by (auto simp: needs_def up_def)
qed

lemma pipeline_kafka_after:
  "c \<in> set (node_order (deploy_components f ns)) \<Longrightarrow> node_key c = ''kafka'' \<Longrightarrow> ''monitoring'' \<in> set (c_after c)"
proof -
  have "\<forall>c\<in>set (deploy_components f ns). node_key c = ''kafka'' \<longrightarrow> ''monitoring'' \<in> set (c_after c)"
    by (simp add: deploy_components_def component_defs node_key_def)
  then show "c \<in> set (node_order (deploy_components f ns)) \<Longrightarrow> node_key c = ''kafka'' \<Longrightarrow> ?thesis"
    by (simp add: node_order_def)
qed

text \<open>Chains of dependencies through components that are always enabled.\<close>

lemma edge:
  "up f ns k \<Longrightarrow> up f ns d \<Longrightarrow> (k, d) \<in> set pipeline_edges \<Longrightarrow>
   (k, d) \<in> (needs (node_order (deploy_components f ns)))\<^sup>+"
  using pipeline_needs by blast

lemma needs_kafka:
  assumes "up f ns k" "k \<in> {''kafka-users'', ''kafka-connect'', ''kafka-connector'', ''apicurio'', ''kates'',
    ''kafka-ui'', ''mirror-maker2'', ''chaos''}"
  shows "(k, ''kafka'') \<in> (needs (node_order (deploy_components f ns)))\<^sup>+"
proof -
  let ?N = "(needs (node_order (deploy_components f ns)))\<^sup>+"
  have users: "(''kafka-users'', ''kafka'') \<in> ?N" by (rule edge) (simp_all add: pipeline_edges_def)
  have via: "(x, ''kafka'') \<in> ?N" if "up f ns x" "(x, ''kafka-users'') \<in> set pipeline_edges" for x
    using edge [OF that(1) _ that(2)] users by (meson trancl_trans up_simps(3))
  have cnx: "(''kafka-connector'', ''kafka'') \<in> ?N" if "up f ns ''kafka-connector''"
    using edge [of f ns "''kafka-connector''" "''kafka-connect''"] via [of "''kafka-connect''"] that
    by (auto simp: pipeline_edges_def intro: trancl_trans)
  have ch: "(''chaos'', ''kafka'') \<in> ?N" if "up f ns ''chaos''"
    using that by (intro edge) (simp_all add: pipeline_edges_def)
  show ?thesis using assms(2) users
    by (elim insertE emptyE) (use assms(1) via cnx ch in \<open>simp_all add: pipeline_edges_def\<close>)
qed

lemma needs_postgres:
  assumes "up f ns k" "with_kafka_connect f" "k \<in> {''kafka-connect'', ''kafka-connector'', ''kates''}"
  shows "(k, ''postgres'') \<in> (needs (node_order (deploy_components f ns)))\<^sup>+"
proof -
  let ?N = "(needs (node_order (deploy_components f ns)))\<^sup>+"
  have c: "(''kafka-connect'', ''postgres'') \<in> ?N"
    by (rule edge) (simp_all add: assms(2) pipeline_edges_def)
  have cn: "(''kafka-connector'', ''kafka-connect'') \<in> ?N"
    by (rule edge) (simp_all add: assms(2) pipeline_edges_def)
  have k: "(''kates'', ''postgres'') \<in> ?N" if "up f ns ''kates''"
    using that by (intro edge) (simp_all add: assms(2) pipeline_edges_def)
  show ?thesis using assms(1,3) c k trancl_trans [OF cn c] by auto
qed

lemma needs_operators:
  assumes "up f ns k" "k \<notin> set (''operators'' # operator_ids)"
  shows "(k, ''operators'') \<in> (needs (node_order (deploy_components f ns)))\<^sup>+"
proof -
  let ?N = "(needs (node_order (deploy_components f ns)))\<^sup>+"
  have kafka: "(''kafka'', ''operators'') \<in> ?N" by (rule edge) (simp_all add: pipeline_edges_def)
  have mon: "(''monitoring'', ''operators'') \<in> ?N" if "up f ns ''monitoring''"
    using that by (intro edge) (simp_all add: pipeline_edges_def)
  have pg: "(''postgres'', ''operators'') \<in> ?N" if "up f ns ''postgres''"
    using that by (intro edge) (simp_all add: pipeline_edges_def)
  have scrape: "(''kyverno-scrape'', ''operators'') \<in> ?N" if "up f ns ''kyverno-scrape''"
    using edge [of f ns "''kyverno-scrape''" "''monitoring''"] mon that
    by (auto simp: pipeline_edges_def intro: trancl_trans)
  have "k \<in> {''monitoring'', ''kyverno-scrape'', ''postgres'', ''kafka''} \<or>
    k \<in> {''kafka-users'', ''kafka-connect'', ''kafka-connector'', ''apicurio'', ''kates'',
      ''kafka-ui'', ''mirror-maker2'', ''chaos''}"
    using up_key [OF assms(1)] assms(2) unfolding pipeline_keys_def operator_ids_def by simp
  then show ?thesis
  proof (elim disjE)
    assume "k \<in> {''monitoring'', ''kyverno-scrape'', ''postgres'', ''kafka''}"
    then show ?thesis
      by (elim insertE emptyE) (use assms(1) kafka mon pg scrape in \<open>simp_all only:\<close>)
  qed (rule trancl_trans [OF needs_kafka [OF assms(1)] kafka])
qed

text \<open>Whether a component is ready, or at least applied, when the flags turned it on.\<close>

definition ready_if_on :: "component list \<Rightarrow> sched \<Rightarrow> string \<Rightarrow> bool" where
  "ready_if_on order s k = (case nodes order k of None \<Rightarrow> True | Some j \<Rightarrow> j \<in> donec s)"

definition applied_if_on :: "component list \<Rightarrow> sched \<Rightarrow> string \<Rightarrow> bool" where
  "applied_if_on order s k = (case nodes order k of None \<Rightarrow> True | Some j \<Rightarrow> j \<in> inst s)"



section \<open>The pipeline and the component table\<close>

definition shown :: "component list \<Rightarrow> component list" where
  "shown cs = filter (\<lambda>c. c_id c \<noteq> []) cs"

lemma pipeline_shown_ids:
  "map c_id (shown (deploy_components f ns)) =
     [''strimzi'', ''cert-manager'', ''kyverno'', ''monitoring'', ''postgres'', ''kafka'', ''kafka-users'',
      ''kafka-connect'', ''kafka-connector'', ''apicurio'', ''kates'', ''kafka-ui'', ''mirror-maker2'', ''chaos'']"
  by (simp add: shown_def deploy_components_def component_defs)

lemma table_ids:
  "map comp_id comp_table =
     [''strimzi'', ''cert-manager'', ''kyverno'', ''kafka'', ''kafka-users'', ''monitoring'', ''postgres'',
      ''kafka-connect'', ''kafka-connector'', ''apicurio'', ''kates'', ''kafka-ui'', ''mirror-maker2'', ''chaos'']"
  by (simp add: comp_table_def)

lemma pipeline_enabled_selected:
  "\<forall>c\<in>set (shown (deploy_components f ns)). c_enabled c = component_selected f (c_id c)"
  by (simp add: shown_def deploy_components_def component_defs component_selected_def)

definition table_namespaces :: "deploy_flags \<Rightarrow> resolved_namespaces \<Rightarrow> (string \<times> string) list" where
  "table_namespaces f ns = map (\<lambda>r. (comp_id r, namespace_of r (deploy_placement f ns))) comp_table"

lemma pipeline_namespaces:
  "\<forall>c\<in>set (shown (deploy_components f ns)). (c_id c, c_namespace c) \<in> set (table_namespaces f ns)"
  by (simp add: shown_def deploy_components_def component_defs table_namespaces_def comp_table_def
      namespace_of_def deploy_placement_def)

lemma filter_map_mset:
  assumes "mset (map g xs) = mset (map h ys)" "\<forall>x\<in>set xs. P x = R (g x)"
  shows "mset (map g (filter P xs)) = mset (map h (filter (\<lambda>y. R (h y)) ys))"
proof -
  have "map g (filter P xs) = filter R (map g xs)" using assms(2) by (induction xs) auto
  moreover have "map h (filter (\<lambda>y. R (h y)) ys) = filter R (map h ys)" by (induction ys) auto
  ultimately show ?thesis using assms(1) by (simp only: mset_filter)
qed

text \<open>
  C33. The pipeline is the component table: the components a deploy runs that have an id are exactly
  the ones the plan selects, each once, as many as the progress bar counts steps; and each goes
  into the namespace the table gives it under the deploy's placement, which is where status and
  clean look for it.
\<close>

theorem pipeline_is_the_table:
  "mset (map c_id (shown (node_order (deploy_components f ns)))) = mset (map comp_id (selected_components f)) \<and>
   length (shown (node_order (deploy_components f ns))) = count_deploy_steps f \<and>
   (\<forall>c\<in>set (shown (node_order (deploy_components f ns))).
      \<exists>r\<in>set (selected_components f). comp_id r = c_id c \<and> namespace_of r (deploy_placement f ns) = c_namespace c)"
proof -
  let ?p = "deploy_components f ns" and ?o = "shown (node_order (deploy_components f ns))"
  have o: "?o = filter c_enabled (shown ?p)" by (auto simp: shown_def node_order_def conj_commute)
  have "mset (map c_id (shown ?p)) = mset (map comp_id comp_table)"
    unfolding pipeline_shown_ids table_ids by (simp add: add_mset_commute)
  then have ids: "mset (map c_id ?o) = mset (map comp_id (selected_components f))"
    unfolding o selected_components_def all_components_def
    by (rule filter_map_mset) (use pipeline_enabled_selected in blast)
  have ns: "\<exists>r\<in>set (selected_components f). comp_id r = c_id c \<and>
      namespace_of r (deploy_placement f ns) = c_namespace c" if "c \<in> set ?o" for c
  proof -
    have c: "c \<in> set (shown ?p)" "c_enabled c" using that unfolding o by auto
    then obtain r where "r \<in> set comp_table" "comp_id r = c_id c"
      "namespace_of r (deploy_placement f ns) = c_namespace c"
      using pipeline_namespaces [of f ns] by (auto simp: table_namespaces_def)
    then show ?thesis
      using c pipeline_enabled_selected [of f ns]
      by (auto simp: selected_components_def all_components_def)
  qed
  have "length ?o = length (selected_components f)" using mset_eq_length [OF ids] by simp
  then show ?thesis using ids ns by (simp add: count_deploy_steps_def)
qed

theorem pipeline_is_the_table_witness:
  "length (shown demo_pipeline) = 4 \<and>
   (\<exists>r\<in>set (selected_components demo_flags). comp_id r = ''kates'' \<and>
      namespace_of r (deploy_placement demo_flags (resolve_namespaces demo_flags)) = ''kates'')"
proof -
  have "demo_pipeline ! 4 \<in> set (shown demo_pipeline)" "c_id (demo_pipeline ! 4) = ''kates''"
    "c_namespace (demo_pipeline ! 4) = ''kates''" "count_deploy_steps demo_flags = 4" by code_simp+
  then show ?thesis
    using pipeline_is_the_table [of demo_flags "resolve_namespaces demo_flags"]
    unfolding demo_pipeline_def [symmetric] by metis
qed

definition box_of :: "string \<Rightarrow> string" where
  "box_of i = (if i \<in> {''postgres'', ''kafka-connector''} then ''kafka-connect'' else i)"

lemma pick_component_flags:
  "with_strimzi (pick_component c f) \<longleftrightarrow> with_strimzi f \<or> c = ''strimzi''"
  "with_kafka_connect (pick_component c f) \<longleftrightarrow> with_kafka_connect f \<or> c = ''kafka-connect''"
  "with_kafka_ui (pick_component c f) \<longleftrightarrow> with_kafka_ui f \<or> c = ''kafka-ui''"
  "with_kates (pick_component c f) \<longleftrightarrow> with_kates f \<or> c = ''kates''"
  "with_mirror_maker2 (pick_component c f) \<longleftrightarrow> with_mirror_maker2 f \<or> c = ''mirror-maker2''"
  "with_chaos (pick_component c f) \<longleftrightarrow> with_chaos f \<or> c = ''chaos''"
  "with_monitoring (pick_component c f) \<longleftrightarrow> with_monitoring f \<or> c = ''monitoring'' \<and> \<not> adminless f"
  "adminless_scrape (pick_component c f) \<longleftrightarrow> adminless_scrape f \<or> c = ''monitoring'' \<and> adminless f"
  "with_cert_manager (pick_component c f) \<longleftrightarrow> with_cert_manager f \<or> c = ''cert-manager''"
  "with_kyverno (pick_component c f) \<longleftrightarrow> with_kyverno f \<or> c = ''kyverno''"
  "adminless (pick_component c f) = adminless f"
  "schema_registry (pick_component c f) = schema_registry f"
  "resolve_namespaces (pick_component c f) = resolve_namespaces f"
  by (simp_all add: pick_component_def resolve_namespaces_def)

lemma fold_pick:
  "with_strimzi (fold pick_component cs f) \<longleftrightarrow> with_strimzi f \<or> ''strimzi'' \<in> set cs"
  "with_kafka_connect (fold pick_component cs f) \<longleftrightarrow> with_kafka_connect f \<or> ''kafka-connect'' \<in> set cs"
  "with_kafka_ui (fold pick_component cs f) \<longleftrightarrow> with_kafka_ui f \<or> ''kafka-ui'' \<in> set cs"
  "with_kates (fold pick_component cs f) \<longleftrightarrow> with_kates f \<or> ''kates'' \<in> set cs"
  "with_mirror_maker2 (fold pick_component cs f) \<longleftrightarrow> with_mirror_maker2 f \<or> ''mirror-maker2'' \<in> set cs"
  "with_chaos (fold pick_component cs f) \<longleftrightarrow> with_chaos f \<or> ''chaos'' \<in> set cs"
  "with_monitoring (fold pick_component cs f) \<longleftrightarrow> with_monitoring f \<or> ''monitoring'' \<in> set cs \<and> \<not> adminless f"
  "adminless_scrape (fold pick_component cs f) \<longleftrightarrow> adminless_scrape f \<or> ''monitoring'' \<in> set cs \<and> adminless f"
  "with_cert_manager (fold pick_component cs f) \<longleftrightarrow> with_cert_manager f \<or> ''cert-manager'' \<in> set cs"
  "with_kyverno (fold pick_component cs f) \<longleftrightarrow> with_kyverno f \<or> ''kyverno'' \<in> set cs"
  "adminless (fold pick_component cs f) = adminless f"
  "schema_registry (fold pick_component cs f) = schema_registry f"
  "resolve_namespaces (fold pick_component cs f) = resolve_namespaces f"
  by (induction cs arbitrary: f) (simp_all only: fold_simps comp_def pick_component_flags list.set, auto)

text \<open>
  The wizard's choice is the deploy's choice: after the components picked in the form, a
  component that has a box there is selected exactly when its box was ticked (Connect's box
  brings the database and the connectors; admin-less, monitoring becomes the scrape of the
  cluster's own Prometheus), and the flags that are not boxes keep their values.
\<close>

theorem picked_components_exact:
  "(component_selected (apply_picked picked f) i \<longleftrightarrow>
     (if i \<in> {''kafka'', ''kafka-users''} then True
      else if i = ''apicurio'' then schema_registry f = ''apicurio''
      else if i = ''monitoring'' then \<not> adminless f \<and> ''monitoring'' \<in> set picked
      else i \<in> set (map comp_id comp_table) \<and> box_of i \<in> set picked)) \<and>
   (adminless_scrape (apply_picked picked f) \<longleftrightarrow> adminless f \<and> ''monitoring'' \<in> set picked) \<and>
   resolve_namespaces (apply_picked picked f) = resolve_namespaces f"
proof -
  let ?off = "f\<lparr>with_kafka_connect := False, with_chaos := False, with_monitoring := False,
    with_cert_manager := False, with_kyverno := False, with_strimzi := False, with_kafka_ui := False,
    with_kates := False, with_mirror_maker2 := False, adminless_scrape := False\<rparr>"
  have off: "resolve_namespaces ?off = resolve_namespaces f" by (simp add: resolve_namespaces_def)
  have scrape: "adminless_scrape (apply_picked picked f) \<longleftrightarrow> adminless f \<and> ''monitoring'' \<in> set picked"
    by (auto simp: apply_picked_def fold_pick)
  have ns: "resolve_namespaces (apply_picked picked f) = resolve_namespaces f"
    unfolding apply_picked_def fold_pick(13) by (rule off)
  have "component_selected (apply_picked picked f) i \<longleftrightarrow>
     (if i \<in> {''kafka'', ''kafka-users''} then True
      else if i = ''apicurio'' then schema_registry f = ''apicurio''
      else if i = ''monitoring'' then \<not> adminless f \<and> ''monitoring'' \<in> set picked
      else i \<in> set (map comp_id comp_table) \<and> box_of i \<in> set picked)"
  proof (cases "i \<in> set (map comp_id comp_table)")
    case True
    then show ?thesis unfolding table_ids
      by (simp only: list.set, elim insertE emptyE)
        (simp_all add: component_selected_def apply_picked_def fold_pick box_of_def conj_commute)
  next
    case False
    then show ?thesis unfolding table_ids by (simp add: component_selected_def)
  qed
  then show ?thesis using scrape ns by blast
qed

end
