(* ===== verification/YamlNodes.thy ===== *)
theory YamlNodes
  imports Ordering "HOL-Library.Finite_Map"
begin

text \<open>
  The YAML documents of \<open>cli/internal/compliance\<close> and what the checker says of them: the node
  tree (\<open>yaml.Node\<close> of gopkg.in/yaml.v3, as its parser returns it), the accessors of
  \<open>compile.go\<close> and \<open>schema.go\<close> (\<open>resolveAlias\<close>, \<open>kind\<close>, \<open>get\<close>, \<open>keyNode\<close>, \<open>lookup\<close>,
  \<open>present\<close>, \<open>childPath\<close>), the comparison \<open>equalNodes\<close>, the pass \<open>duplicates\<close>, and the
  diagnostics of \<open>diag.go\<close>.

  A node carries its line and column. A scalar carries its short tag and text; a map its pairs in
  file order (the code walks \<open>Content\<close> two by two); an alias the node its anchor names, so the
  tree is the document with its aliases unfolded, and an alias's own text is the anchor's name.
  A nil pointer is None. Style and comments are left out: nothing modelled here reads them.
\<close>

datatype ynode =
    YScalar (ytag: string) (ytext: string) (yline: nat) (ycol: nat)
  | YSeq (yitems: "ynode list") (yline: nat) (ycol: nat)
  | YMap (ypairs: "(ynode \<times> ynode) list") (yline: nat) (ycol: nat)
  | YAlias (yanchor: string) (ytarget: ynode) (yline: nat) (ycol: nat)

section \<open>Accessors\<close>

fun node_value :: "ynode \<Rightarrow> string" where
  "node_value (YScalar tag v l c) = v"
| "node_value (YAlias anchor n l c) = anchor"
| "node_value (YSeq xs l c) = []"
| "node_value (YMap ps l c) = []"

fun resolve_alias :: "ynode \<Rightarrow> ynode" where
  "resolve_alias (YAlias anchor n l c) = resolve_alias n"
| "resolve_alias n = n"

definition tag_kind :: "string \<Rightarrow> string" where
  "tag_kind t =
     (if t = ''!!int'' then ''integer'' else if t = ''!!float'' then ''number''
      else if t = ''!!bool'' then ''boolean'' else if t = ''!!null'' then ''null'' else ''string'')"

text \<open>An alias's short tag is the one of the node it names.\<close>

fun node_kind :: "ynode \<Rightarrow> string" where
  "node_kind (YMap ps l c) = ''object''"
| "node_kind (YSeq xs l c) = ''array''"
| "node_kind (YScalar t v l c) = tag_kind t"
| "node_kind (YAlias a n l c) =
     (case resolve_alias n of YScalar t v l' c' \<Rightarrow> tag_kind t | _ \<Rightarrow> ''string'')"

definition is_scalar :: "ynode \<Rightarrow> bool" where
  "is_scalar n = (case n of YScalar t v l c \<Rightarrow> True | _ \<Rightarrow> False)"

definition is_map :: "ynode \<Rightarrow> bool" where
  "is_map n = (case n of YMap ps l c \<Rightarrow> True | _ \<Rightarrow> False)"

definition is_seq :: "ynode \<Rightarrow> bool" where
  "is_seq n = (case n of YSeq xs l c \<Rightarrow> True | _ \<Rightarrow> False)"

fun find_key :: "string \<Rightarrow> (ynode \<times> ynode) list \<Rightarrow> (ynode \<times> ynode) option" where
  "find_key key [] = None"
| "find_key key ((k, v) # ps) = (if node_value k = key then Some (k, v) else find_key key ps)"

definition get_key :: "ynode \<Rightarrow> string \<Rightarrow> ynode option" where
  "get_key n key =
     (case resolve_alias n of
        YMap ps l c \<Rightarrow> map_option (\<lambda>(k, v). resolve_alias v) (find_key key ps)
      | _ \<Rightarrow> None)"

text \<open>\<open>get\<close> on a possibly nil node.\<close>

definition get_opt :: "ynode option \<Rightarrow> string \<Rightarrow> ynode option" where
  "get_opt n key = (case n of None \<Rightarrow> None | Some m \<Rightarrow> get_key m key)"

text \<open>\<open>keyNode\<close> does not follow an alias of the map itself.\<close>

definition key_node :: "ynode \<Rightarrow> string \<Rightarrow> ynode option" where
  "key_node n key = (case n of YMap ps l c \<Rightarrow> map_option fst (find_key key ps) | _ \<Rightarrow> None)"

definition lookup_path :: "ynode option \<Rightarrow> string \<Rightarrow> ynode option" where
  "lookup_path n dotted = fold (\<lambda>k m. get_opt m k) (split_on (CHR ''.'') dotted) n"

definition present :: "ynode option \<Rightarrow> bool" where
  "present n = (case n of None \<Rightarrow> False | Some m \<Rightarrow> node_kind m \<noteq> ''null'')"

definition child_path :: "string \<Rightarrow> string \<Rightarrow> string" where
  "child_path base key =
     (if CHR ''.'' \<in> set key then base @ ''['' @ key @ '']''
      else if base = [] then key else base @ ''.'' @ key)"

section \<open>Diagnostics\<close>

datatype severity = Warning | Error

record diagnostic =
  d_line :: nat
  d_col :: nat
  d_severity :: severity
  d_code :: string
  d_path :: string
  d_message :: string
  d_fixable :: bool

definition severity_string :: "severity \<Rightarrow> string" where
  "severity_string s = (if s = Error then ''error'' else ''warning'')"

definition diag_at :: "ynode option \<Rightarrow> severity \<Rightarrow> string \<Rightarrow> string \<Rightarrow> string \<Rightarrow> diagnostic" where
  "diag_at n sev code path msg =
     \<lparr>d_line = (case n of None \<Rightarrow> 0 | Some m \<Rightarrow> yline m), d_col = (case n of None \<Rightarrow> 0 | Some m \<Rightarrow> ycol m),
      d_severity = sev, d_code = code, d_path = path, d_message = msg, d_fixable = False\<rparr>"

definition format_diagnostic :: "string \<Rightarrow> diagnostic \<Rightarrow> string" where
  "format_diagnostic file d =
     (let fix = (if d_fixable d then '' (kates compliance fmt removes it)'' else []);
          place = (if 0 < d_line d then file @ '':'' @ show_nat (d_line d) @ '':'' @ show_nat (d_col d) else file);
          path = (if d_path d \<noteq> [] then d_path d @ '': '' else [])
      in place @ '': '' @ severity_string (d_severity d) @ '': '' @ path @ d_message d @ fix @
         '' ['' @ d_code d @ '']'')"

definition diag_less :: "diagnostic \<Rightarrow> diagnostic \<Rightarrow> bool" where
  "diag_less a b = (if d_line a \<noteq> d_line b then d_line a < d_line b else d_col a < d_col b)"

text \<open>\<open>sort.SliceStable\<close> takes a less function; this is its three-way form.\<close>

definition diag_cmp :: "diagnostic \<Rightarrow> diagnostic \<Rightarrow> int" where
  "diag_cmp a b = (if diag_less a b then - 1 else if diag_less b a then 1 else 0)"

definition sort_diagnostics :: "diagnostic list \<Rightarrow> diagnostic list" where
  "sort_diagnostics ds = stable_sort diag_cmp ds"

definition has_errors :: "diagnostic list \<Rightarrow> bool" where
  "has_errors ds \<longleftrightarrow> (\<exists>d\<in>set ds. d_severity d = Error)"

interpretation diag: three_way diag_cmp
  by unfold_locales (auto simp: diag_cmp_def diag_less_def split: if_splits)

section \<open>Equal nodes and duplicates\<close>

lemma size_item: "x \<in> set xs \<Longrightarrow> size x \<le> size_list size xs"
  by (induction xs) auto

lemma size_pair: "p \<in> set ps \<Longrightarrow> size (fst p) + size (snd p) \<le> size_list (size_prod size size) ps"
  unfolding size_prod_simp by (induction ps) auto

function equal_nodes :: "ynode \<Rightarrow> ynode \<Rightarrow> bool" where
  "equal_nodes (YAlias an n l c) b = equal_nodes n b"
| "equal_nodes (YScalar t v l c) b =
     (case resolve_alias b of YScalar t' v' l' c' \<Rightarrow> tag_kind t = tag_kind t' \<and> v = v' | _ \<Rightarrow> False)"
| "equal_nodes (YSeq xs l c) b =
     (case resolve_alias b of
        YSeq ys l' c' \<Rightarrow> length xs = length ys \<and> (\<forall>(x, y)\<in>set (zip xs ys). equal_nodes x y)
      | _ \<Rightarrow> False)"
| "equal_nodes (YMap ps l c) b =
     (case resolve_alias b of
        YMap qs l' c' \<Rightarrow> length ps = length qs \<and>
          (\<forall>p\<in>set ps. case get_key b (node_value (fst p)) of
                        None \<Rightarrow> False | Some w \<Rightarrow> equal_nodes (snd p) w)
      | _ \<Rightarrow> False)"
  by pat_completeness auto
termination
proof (relation "measure (size \<circ> fst)", goal_cases)
  case (3 xs l c b ys l' c' p x y)
  then have "x \<in> set xs" using set_zip_leftD by metis
  then show ?case using size_item [of x xs] by simp
next
  case (4 ps l c b qs l' c' p w)
  then show ?case using size_pair [of p ps] by simp
qed auto

fun seen_value :: "string \<Rightarrow> (string \<times> ynode) list \<Rightarrow> ynode option" where
  "seen_value key [] = None"
| "seen_value key ((k, v) # ps) = (if k = key then Some v else seen_value key ps)"

text \<open>The first earlier item equal to this one, with its index (the inner loop of a list).\<close>

fun first_equal :: "nat \<Rightarrow> ynode list \<Rightarrow> ynode \<Rightarrow> nat option" where
  "first_equal j [] item = None"
| "first_equal j (x # xs) item = (if equal_nodes x item then Some j else first_equal (Suc j) xs item)"

definition index_path :: "string \<Rightarrow> nat \<Rightarrow> string" where
  "index_path path i = path @ ''['' @ show_nat i @ '']''"

definition position_string :: "ynode \<Rightarrow> string" where
  "position_string n = show_nat (yline n) @ '':'' @ show_nat (ycol n)"

definition repeated_key :: "ynode \<Rightarrow> ynode \<Rightarrow> ynode \<Rightarrow> string \<Rightarrow> diagnostic" where
  "repeated_key key prev val p =
     (if equal_nodes prev val then
        (diag_at (Some key) Error ''duplicate-key'' p
          (''the key is already set, to the same value, at '' @ position_string prev))\<lparr>d_fixable := True\<rparr>
      else
        diag_at (Some key) Error ''conflicting-key'' p
          (''the key is already set, to another value, at '' @ position_string prev @ '': keep one''))"

definition repeated_item :: "ynode \<Rightarrow> nat \<Rightarrow> string \<Rightarrow> diagnostic" where
  "repeated_item item j p =
     (let d = diag_at (Some item) Warning ''duplicate-value'' p (''the same as ['' @ show_nat j @ '']: listed twice'')
      in (if is_map (resolve_alias item) then d\<lparr>d_severity := Error, d_code := ''duplicate-item''\<rparr> else d)
           \<lparr>d_fixable := True\<rparr>)"

text \<open>
  \<open>duplicates\<close>, with the loops over a map and over a list: \<open>seen\<close> is the map \<open>first\<close>, the
  values under the keys met so far; \<open>before\<close> the items before the current one.
\<close>

function (sequential) duplicates :: "ynode \<Rightarrow> string \<Rightarrow> diagnostic list"
  and duplicates_map :: "(string \<times> ynode) list \<Rightarrow> (ynode \<times> ynode) list \<Rightarrow> string \<Rightarrow> diagnostic list"
  and duplicates_seq :: "ynode list \<Rightarrow> ynode list \<Rightarrow> string \<Rightarrow> diagnostic list" where
  "duplicates (YAlias an n l c) path = duplicates n path"
| "duplicates (YScalar t v l c) path = []"
| "duplicates (YMap ps l c) path = duplicates_map [] ps path"
| "duplicates (YSeq xs l c) path = duplicates_seq [] xs path"
| "duplicates_map seen [] path = []"
| "duplicates_map seen ((key, val) # ps) path =
     (let p = child_path path (node_value key)
      in case seen_value (node_value key) seen of
           Some prev \<Rightarrow> repeated_key key prev val p # duplicates_map seen ps path
         | None \<Rightarrow> duplicates val p @ duplicates_map ((node_value key, val) # seen) ps path)"
| "duplicates_seq before [] path = []"
| "duplicates_seq before (item # xs) path =
     (let p = index_path path (length before)
      in (case first_equal 0 before item of None \<Rightarrow> [] | Some j \<Rightarrow> [repeated_item item j p]) @
         duplicates item p @ duplicates_seq (before @ [item]) xs path)"
  by pat_completeness auto
termination
  by (relation "measure (\<lambda>x. case x of Inl (n, _) \<Rightarrow> 2 * size n
      | Inr (Inl (_, ps, _)) \<Rightarrow> 2 * size_list (size_prod size size) ps + 1
      | Inr (Inr (_, xs, _)) \<Rightarrow> 2 * size_list size xs + 1)") auto

section \<open>The value of a node\<close>

text \<open>What a node means, without position, alias or the order of a map's keys.\<close>

datatype yvalue = VScalar string string | VSeq "yvalue list" | VMap "(string, yvalue) fmap"

function value_of :: "ynode \<Rightarrow> yvalue" where
  "value_of (YAlias an n l c) = value_of n"
| "value_of (YScalar t v l c) = VScalar (tag_kind t) v"
| "value_of (YSeq xs l c) = VSeq (map value_of xs)"
| "value_of (YMap ps l c) = VMap (fmap_of_list (map (\<lambda>p. (node_value (fst p), value_of (snd p))) ps))"
  by pat_completeness auto
termination
proof (relation "measure size", goal_cases)
  case (3 xs l c x)
  then show ?case using size_item [of x xs] by simp
next
  case (4 ps l c p)
  then show ?case using size_pair [of p ps] by simp
qed auto

text \<open>No map of the document sets a key twice.\<close>

function keys_once :: "ynode \<Rightarrow> bool" where
  "keys_once (YAlias an n l c) = keys_once n"
| "keys_once (YScalar t v l c) = True"
| "keys_once (YSeq xs l c) = (\<forall>x\<in>set xs. keys_once x)"
| "keys_once (YMap ps l c) = (distinct (map (\<lambda>p. node_value (fst p)) ps) \<and> (\<forall>p\<in>set ps. keys_once (snd p)))"
  by pat_completeness auto
termination
proof (relation "measure size", goal_cases)
  case (3 xs l c x)
  then show ?case using size_item [of x xs] by simp
next
  case (4 ps l c p)
  then show ?case using size_pair [of p ps] by simp
qed auto

text \<open>No list of the document holds a value twice.\<close>

function items_once :: "ynode \<Rightarrow> bool" where
  "items_once (YAlias an n l c) = items_once n"
| "items_once (YScalar t v l c) = True"
| "items_once (YSeq xs l c) = (distinct (map value_of xs) \<and> (\<forall>x\<in>set xs. items_once x))"
| "items_once (YMap ps l c) = (\<forall>p\<in>set ps. items_once (snd p))"
  by pat_completeness auto
termination
proof (relation "measure size", goal_cases)
  case (3 xs l c x)
  then show ?case using size_item [of x xs] by simp
next
  case (4 ps l c p)
  then show ?case using size_pair [of p ps] by simp
qed auto

lemma value_of_resolve [simp]: "value_of (resolve_alias n) = value_of n"
  by (induction n rule: resolve_alias.induct) auto

lemma value_of_cases:
  "resolve_alias b = YScalar t v l c \<Longrightarrow> value_of b = VScalar (tag_kind t) v"
  "resolve_alias b = YSeq xs l c \<Longrightarrow> value_of b = VSeq (map value_of xs)"
  "resolve_alias b = YMap ps l c \<Longrightarrow>
     value_of b = VMap (fmap_of_list (map (\<lambda>p. (node_value (fst p), value_of (snd p))) ps))"
  using value_of_resolve [of b] by simp_all

lemma keys_once_resolve [simp]: "keys_once (resolve_alias n) = keys_once n"
  by (induction n rule: resolve_alias.induct) auto

lemma resolve_not_alias: "resolve_alias n \<noteq> YAlias a m l c"
  by (induction n rule: resolve_alias.induct) auto

lemma find_key_Some: "find_key k ps = Some q \<Longrightarrow> q \<in> set ps \<and> node_value (fst q) = k"
  by (induction ps) (auto split: if_splits)

lemma map_of_pairs:
  "map_of (map (\<lambda>p. (node_value (fst p), g (snd p))) ps) k = map_option (\<lambda>q. g (snd q)) (find_key k ps)"
  by (induction ps) auto

lemma get_key_map:
  "resolve_alias n = YMap ps l c \<Longrightarrow> get_key n k = map_option (\<lambda>q. resolve_alias (snd q)) (find_key k ps)"
  by (cases "find_key k ps") (auto simp: get_key_def)

lemma map_eq_of_le:
  assumes "\<And>k v. m k = Some v \<Longrightarrow> m' k = Some v" "finite (dom m')" "card (dom m) = card (dom m')"
  shows "m = m'"
proof -
  have "dom m = dom m'" using assms by (intro card_subset_eq) auto
  then show ?thesis using assms(1) by (metis domIff map_le_antisym map_le_def not_None_eq)
qed

abbreviation pair_values :: "(ynode \<times> ynode) list \<Rightarrow> (string \<times> yvalue) list" where
  "pair_values ps \<equiv> map (\<lambda>p. (node_value (fst p), value_of (snd p))) ps"

lemma dom_pair_values:
  "distinct (map (\<lambda>p. node_value (fst p)) ps) \<Longrightarrow> card (dom (map_of (pair_values ps))) = length ps"
  by (simp add: dom_map_of_conv_image_fst image_image card_image distinct_map distinct_card)

lemma pair_values_eq:
  assumes d: "distinct (map (\<lambda>p. node_value (fst p)) ps)" "distinct (map (\<lambda>p. node_value (fst p)) qs)"
  shows "map_of (pair_values ps) = map_of (pair_values qs) \<longleftrightarrow>
    length ps = length qs \<and> (\<forall>p\<in>set ps. map_of (pair_values qs) (node_value (fst p)) = Some (value_of (snd p)))"
    (is "?L \<longleftrightarrow> ?R")
proof
  have own: "map_of (pair_values ps) (node_value (fst p)) = Some (value_of (snd p))" if "p \<in> set ps" for p
    using that d(1) by (intro map_of_is_SomeI) (auto simp: comp_def image_iff)
  assume ?L
  then show ?R using own dom_pair_values [OF d(1)] dom_pair_values [OF d(2)] by auto
next
  assume R: ?R
  show ?L
  proof (rule map_eq_of_le)
    fix k v assume "map_of (pair_values ps) k = Some v"
    then obtain p where "p \<in> set ps" "k = node_value (fst p)" "v = value_of (snd p)"
      using map_of_SomeD [of "pair_values ps" k v] by (metis (no_types, lifting) imageE list.set_map prod.inject)
    then show "map_of (pair_values qs) k = Some v" using R by blast
  next
    show "card (dom (map_of (pair_values ps))) = card (dom (map_of (pair_values qs)))"
      using dom_pair_values [OF d(1)] dom_pair_values [OF d(2)] R by simp
  qed (rule finite_dom_map_of)
qed

lemma map_eq_zip: "map f xs = map g ys \<longleftrightarrow> length xs = length ys \<and> (\<forall>(x, y)\<in>set (zip xs ys). f x = g y)"
  by (induction xs ys rule: list_induct2') auto

lemma equal_nodes_iff:
  "keys_once a \<Longrightarrow> keys_once b \<Longrightarrow> equal_nodes a b \<longleftrightarrow> value_of a = value_of b"
proof (induction a b rule: equal_nodes.induct)
  case (1 an n l c b)
  then show ?case by simp
next
  case (2 t v l c b)
  show ?case by (cases "resolve_alias b") (auto simp: value_of_cases resolve_not_alias)
next
  case (3 xs l c b)
  show ?case
  proof (cases "resolve_alias b")
    case (YSeq ys l' c')
    then have kb: "\<forall>y\<in>set ys. keys_once y" using 3(3) keys_once_resolve [of b] by simp
    have "equal_nodes x y \<longleftrightarrow> value_of x = value_of y" if "(x, y) \<in> set (zip xs ys)" for x y
      using 3(1) [OF YSeq that refl] 3(2) kb set_zip_leftD [OF that] set_zip_rightD [OF that] by simp
    then have "equal_nodes (YSeq xs l c) b \<longleftrightarrow>
        length xs = length ys \<and> (\<forall>(x, y)\<in>set (zip xs ys). value_of x = value_of y)"
      using YSeq by (auto split: prod.splits)
    also have "\<dots> \<longleftrightarrow> map value_of xs = map value_of ys"
      by (simp add: map_eq_zip)
    finally show ?thesis using value_of_cases(2) [OF YSeq] by simp
  qed (auto simp: value_of_cases resolve_not_alias)
next
  case (4 ps l c b)
  show ?case
  proof (cases "resolve_alias b")
    case (YMap qs l' c')
    have kb: "distinct (map (\<lambda>p. node_value (fst p)) qs)" "\<forall>p\<in>set qs. keys_once (snd p)"
      using 4(3) keys_once_resolve [of b] YMap by simp_all
    have one: "(case get_key b (node_value (fst p)) of None \<Rightarrow> False | Some w \<Rightarrow> equal_nodes (snd p) w) \<longleftrightarrow>
        map_of (pair_values qs) (node_value (fst p)) = Some (value_of (snd p))" if p: "p \<in> set ps" for p
    proof (cases "find_key (node_value (fst p)) qs")
      case (Some q)
      then have q: "keys_once (snd q)" using kb(2) find_key_Some by blast
      have g: "get_key b (node_value (fst p)) = Some (resolve_alias (snd q))"
        using get_key_map [OF YMap] Some by simp
      have "equal_nodes (snd p) (resolve_alias (snd q)) \<longleftrightarrow> value_of (snd p) = value_of (snd q)"
        using 4(1) [OF YMap p g] 4(2) q p by simp
      then show ?thesis using g Some by (auto simp: map_of_pairs)
    qed (simp add: get_key_map [OF YMap] map_of_pairs)
    have "equal_nodes (YMap ps l c) b \<longleftrightarrow> map_of (pair_values ps) = map_of (pair_values qs)"
      using pair_values_eq [of ps qs] 4(2) kb(1) one YMap by simp
    also have "\<dots> \<longleftrightarrow> value_of (YMap ps l c) = value_of b"
      using value_of_cases(3) [OF YMap] by (simp add: fmlookup_inject [symmetric] fmap_of_list.rep_eq)
    finally show ?thesis .
  qed (auto simp: value_of_cases resolve_not_alias)
qed

lemma first_equal_None: "first_equal j xs item = None \<longleftrightarrow> (\<forall>x\<in>set xs. \<not> equal_nodes x item)"
  by (induction xs arbitrary: j) auto

lemma seen_value_None: "seen_value k seen = None \<longleftrightarrow> k \<notin> fst ` set seen"
  by (induction k seen rule: seen_value.induct) auto

lemma case_option_Nil: "(case m of None \<Rightarrow> [] | Some j \<Rightarrow> [f j]) = [] \<longleftrightarrow> m = None"
  by (cases m) auto

lemma duplicates_seq_Nil:
  "duplicates_seq before xs path = [] \<longleftrightarrow>
     (\<forall>x\<in>set xs. \<forall>p. duplicates x p = []) \<and>
     (\<forall>i<length xs. \<forall>y\<in>set (before @ take i xs). \<not> equal_nodes y (xs ! i))"
  if "\<And>x p q. x \<in> set xs \<Longrightarrow> duplicates x p = [] \<longleftrightarrow> duplicates x q = []"
  using that
proof (induction xs arbitrary: before)
  case (Cons x xs)
  have "duplicates_seq before (x # xs) path = [] \<longleftrightarrow>
      (\<forall>y\<in>set before. \<not> equal_nodes y x) \<and> (\<forall>p. duplicates x p = []) \<and> duplicates_seq (before @ [x]) xs path = []"
    using Cons.prems [of x] by (auto simp: Let_def case_option_Nil first_equal_None)
  also have "duplicates_seq (before @ [x]) xs path = [] \<longleftrightarrow>
     (\<forall>x\<in>set xs. \<forall>p. duplicates x p = []) \<and>
     (\<forall>i<length xs. \<forall>y\<in>set ((before @ [x]) @ take i xs). \<not> equal_nodes y (xs ! i))"
    using Cons.prems by (intro Cons.IH) auto
  finally show ?case by (auto simp: less_Suc_eq_0_disj) 
qed simp

lemma duplicates_map_Nil:
  "duplicates_map seen ps path = [] \<longleftrightarrow>
     (\<forall>p\<in>set ps. \<forall>q. duplicates (snd p) q = []) \<and> distinct (map (\<lambda>p. node_value (fst p)) ps) \<and>
     fst ` set seen \<inter> (\<lambda>p. node_value (fst p)) ` set ps = {}"
  if "\<And>x p q. x \<in> snd ` set ps \<Longrightarrow> duplicates x p = [] \<longleftrightarrow> duplicates x q = []"
  using that
proof (induction ps arbitrary: seen)
  case (Cons kv ps)
  obtain k v where kv: "kv = (k, v)" by (cases kv)
  show ?case
  proof (cases "seen_value (node_value k) seen")
    case None
    have "duplicates_map seen (kv # ps) path = [] \<longleftrightarrow>
        (\<forall>q. duplicates v q = []) \<and> duplicates_map ((node_value k, v) # seen) ps path = []"
      using Cons.prems [of v] None kv by (auto simp: Let_def)
    also have "duplicates_map ((node_value k, v) # seen) ps path = [] \<longleftrightarrow>
     (\<forall>p\<in>set ps. \<forall>q. duplicates (snd p) q = []) \<and> distinct (map (\<lambda>p. node_value (fst p)) ps) \<and>
     fst ` set ((node_value k, v) # seen) \<inter> (\<lambda>p. node_value (fst p)) ` set ps = {}"
      using Cons.prems by (intro Cons.IH) auto
    finally show ?thesis using None kv by (simp add: seen_value_None del: duplicates_map.simps) blast
  next
    case (Some w)
    then have "node_value k \<in> fst ` set seen" by (metis option.distinct(1) seen_value_None)
    then show ?thesis using Some kv by (auto simp: Let_def)
  qed
qed simp

lemma distinct_earlier: "distinct (map f xs) \<longleftrightarrow> (\<forall>i<length xs. \<forall>y\<in>set (take i xs). f y \<noteq> f (xs ! i))"
proof -
  have "f y \<noteq> f (xs ! i)" if d: "distinct (map f xs)" "i < length xs" "y \<in> set (take i xs)" for i y
  proof -
    obtain j where j: "j < i" "y = xs ! j" using d(2,3) by (auto simp: in_set_conv_nth)
    then show ?thesis using d(1,2) nth_eq_iff_index_eq [of "map f xs" j i] by auto
  qed
  moreover have "distinct (map f xs)" if r: "\<forall>i<length xs. \<forall>y\<in>set (take i xs). f y \<noteq> f (xs ! i)"
    unfolding distinct_conv_nth
  proof (intro allI impI)
    have lt: "f (xs ! j) \<noteq> f (xs ! i)" if "j < i" "i < length xs" for i j
    proof -
      have "xs ! j \<in> set (take i xs)" using that by (auto simp: in_set_conv_nth intro!: exI [of _ j])
      then show ?thesis using r that(2) by blast
    qed
    fix i j assume "i < length (map f xs)" "j < length (map f xs)" "i \<noteq> j"
    then show "map f xs ! i \<noteq> map f xs ! j" using lt [of i j] lt [of j i] by (cases "i < j") auto
  qed
  ultimately show ?thesis by blast
qed

lemma duplicates_Nil: "duplicates n path = [] \<longleftrightarrow> keys_once n \<and> items_once n"
proof (induction n arbitrary: path rule: keys_once.induct)
  case (3 xs l c)
  have "duplicates (YSeq xs l c) path = [] \<longleftrightarrow>
     (\<forall>x\<in>set xs. \<forall>p. duplicates x p = []) \<and>
     (\<forall>i<length xs. \<forall>y\<in>set ([] @ take i xs). \<not> equal_nodes y (xs ! i))"
    using 3 by (simp only: duplicates.simps) (intro duplicates_seq_Nil, simp)
  also have "\<dots> \<longleftrightarrow> (\<forall>x\<in>set xs. keys_once x \<and> items_once x) \<and> distinct (map value_of xs)"
    using 3 equal_nodes_iff unfolding distinct_earlier by (metis append_Nil in_set_takeD nth_mem)
  finally show ?case by auto
next
  case (4 ps l c)
  have "duplicates (YMap ps l c) path = [] \<longleftrightarrow>
     (\<forall>p\<in>set ps. \<forall>q. duplicates (snd p) q = []) \<and> distinct (map (\<lambda>p. node_value (fst p)) ps)"
    using duplicates_map_Nil [of ps "[]" path] 4 by (simp only: duplicates.simps) (force simp: image_iff)
  then show ?case using 4 by auto
qed simp_all

section \<open>What the passes promise\<close>

text \<open>A document of two levels used below: \<open>m\<close> maps each key to a one-digit scalar.\<close>

definition int_at :: "string \<Rightarrow> nat \<Rightarrow> ynode" where
  "int_at v l = YScalar ''!!int'' v l 1"

definition key_at :: "string \<Rightarrow> nat \<Rightarrow> ynode" where
  "key_at k l = YScalar ''!!str'' k l 1"

definition map_at :: "(string \<times> string) list \<Rightarrow> nat \<Rightarrow> ynode" where
  "map_at kvs l = YMap (map (\<lambda>(k, v). (key_at k l, int_at v l)) kvs) l 3"

text \<open>
  \<open>equalNodes\<close> decides equality of values: on nodes whose maps set no key twice it holds
  exactly when both denote the same value, whatever the order of keys, the aliases and the
  positions; so there it is an equivalence.
\<close>

theorem equal_nodes_value:
  assumes "keys_once a" "keys_once b"
  shows "equal_nodes a b \<longleftrightarrow> value_of a = value_of b"
  by (rule equal_nodes_iff [OF assms])

theorem equal_nodes_value_witness:
  "equal_nodes (map_at [(''a'', ''1''), (''b'', ''2'')] 1) (map_at [(''b'', ''2''), (''a'', ''1'')] 5) \<and>
   value_of (map_at [(''a'', ''1''), (''b'', ''2'')] 1) = value_of (map_at [(''b'', ''2''), (''a'', ''1'')] 5)"
proof -
  let ?a = "map_at [(''a'', ''1''), (''b'', ''2'')] 1" and ?b = "map_at [(''b'', ''2''), (''a'', ''1'')] 5"
  have "keys_once ?a" "keys_once ?b" by (simp_all add: map_at_def key_at_def int_at_def)
  moreover have "equal_nodes ?a ?b"
    by (simp add: map_at_def key_at_def int_at_def get_key_def)
  ultimately show ?thesis using equal_nodes_value by blast
qed

text \<open>
  The pass \<open>duplicates\<close> is silent exactly on the documents that say nothing twice: no map sets
  a key twice and no list holds two items of the same value, at any depth and through aliases.
\<close>

theorem duplicates_silent:
  "duplicates n path = [] \<longleftrightarrow> keys_once n \<and> items_once n"
  by (rule duplicates_Nil)

text \<open>
  Diagnostics are reported in file order: sorting keeps every diagnostic, puts them in order
  of line and column, and leaves those of one place in the order the passes found them.
\<close>

theorem diagnostics_in_file_order:
  "mset (sort_diagnostics ds) = mset ds \<and>
   sorted_wrt (\<lambda>a b. d_line a < d_line b \<or> d_line a = d_line b \<and> d_col a \<le> d_col b) (sort_diagnostics ds) \<and>
   filter (\<lambda>d. d_line d = l \<and> d_col d = c) (sort_diagnostics ds) = filter (\<lambda>d. d_line d = l \<and> d_col d = c) ds"
proof -
  let ?k = "diag_at (Some (YScalar [] [] l c)) Error [] [] []"
  have le: "diag_cmp a b \<le> 0 \<longleftrightarrow> d_line a < d_line b \<or> d_line a = d_line b \<and> d_col a \<le> d_col b" for a b
    by (auto simp: diag_cmp_def diag_less_def)
  have eq: "diag_cmp d ?k = 0 \<longleftrightarrow> d_line d = l \<and> d_col d = c" for d
    by (auto simp: diag_cmp_def diag_less_def diag_at_def split: if_splits)
  show ?thesis
    using diag.sorted_stable_sort [of ds] diag.stable_sort_stable [of ?k ds]
    unfolding sort_diagnostics_def le eq by simp
qed

text \<open>The keys for which \<open>Format\<close> refuses a document: those set to two values.\<close>

definition format_conflicts :: "ynode \<Rightarrow> diagnostic list" where
  "format_conflicts root = filter (\<lambda>d. d_code d = ''conflicting-key'') (duplicates root [])"

text \<open>
  \<open>equalNodes\<close> is not symmetric on maps that repeat a key, and \<open>Format\<close> relies on it there: the
  document that sets key \<open>a\<close> first to \<open>{x: 1, x: 1}\<close> and then to \<open>{x: 1, y: 2}\<close> has no
  conflicting key, so it is formatted, keeping only the first; the two values differ.
\<close>

theorem format_misses_conflict:
  "let first = map_at [(''x'', ''1''), (''x'', ''1'')] 2; second = map_at [(''x'', ''1''), (''y'', ''2'')] 4;
       doc = YMap [(key_at ''a'' 1, first), (key_at ''a'' 3, second)] 1 1
   in equal_nodes first second \<and> \<not> equal_nodes second first \<and> value_of first \<noteq> value_of second \<and>
      format_conflicts doc = [] \<and> duplicates doc [] \<noteq> []"
proof -
  have "fmlookup (fmap_of_list [(''x'', v), (''x'', v)]) ''y'' \<noteq> fmlookup (fmap_of_list [(''x'', v), (''y'', w)]) ''y''"
    for v w :: yvalue by (simp add: fmap_of_list.rep_eq)
  then have ne: "fmap_of_list [(''x'', v), (''x'', v)] \<noteq> fmap_of_list [(''x'', v), (''y'', w)]"
    for v w :: yvalue by metis
  show ?thesis
    using ne by (simp add: Let_def map_at_def key_at_def int_at_def get_key_def format_conflicts_def
        repeated_key_def diag_at_def)
qed

end
