(* ===== verification/PlacementRules.thy ===== *)
theory PlacementRules
  imports YamlNodes "HOL-Library.Signed_Division"
begin

text \<open>
  The integer constraints of \<open>rules.go\<close> (\<open>ints\<close> and its operations) and the placement arithmetic
  of \<open>rules_placement.go\<close>: whether a number of pods can be spread over zones with a given skew,
  placed on nodes, and keep a quorum through the loss of a zone. The functions that turn a false
  answer into a finding are in \<open>Incoherence\<close>. Go's ints are HOL's: the schema bounds every
  integer field by 0 and 10000, so no sum here comes near 64 bits. What the functions promise is
  stated against real distributions: lists of pods per zone, or per node.
\<close>

section \<open>Integer constraints\<close>

definition max_count :: int where
  "max_count = 10000"

text \<open>\<open>ints\<close>: a nil list is None.\<close>

record ints =
  ints_list :: "int list option"
  ints_lo :: int
  ints_hi :: int

definition min_int64 :: int where
  "min_int64 = - 9223372036854775808"

text \<open>\<open>strconv.Atoi\<close>: an optional sign and decimal digits, within an int64.\<close>

definition go_atoi :: "string \<Rightarrow> int option" where
  "go_atoi t =
     (let neg = (t \<noteq> [] \<and> hd t = CHR ''-'');
          digits = (if t \<noteq> [] \<and> (hd t = CHR ''-'' \<or> hd t = CHR ''+'') then tl t else t)
      in if digits \<noteq> [] \<and> list_all is_digit digits then
           let v = int (digits_val digits); w = (if neg then - v else v)
           in if min_int64 \<le> w \<and> w \<le> max_int64 then Some w else None
         else None)"

text \<open>
  \<open>jsonText\<close>. What yaml decodes a scalar to, written by encoding/json, is the library's:
  \<open>decode\<close> is its answer, None when it fails.
\<close>

definition json_text :: "(ynode \<Rightarrow> string option) \<Rightarrow> ynode \<Rightarrow> string" where
  "json_text decode n =
     (let m = resolve_alias n
      in if node_kind m \<in> {''integer'', ''number'', ''boolean''} then
           (case decode m of Some s \<Rightarrow> s | None \<Rightarrow> node_value m)
         else node_value m)"

definition int_val :: "(ynode \<Rightarrow> string option) \<Rightarrow> ynode option \<Rightarrow> int option" where
  "int_val decode n =
     (case n of None \<Rightarrow> None
      | Some m \<Rightarrow> if is_scalar m then go_atoi (json_text decode m) else None)"

definition int_vals :: "(ynode \<Rightarrow> string option) \<Rightarrow> ynode list \<Rightarrow> int list" where
  "int_vals decode xs = List.map_filter (\<lambda>x. int_val decode (Some x)) xs"

definition ints_of :: "(ynode \<Rightarrow> string option) \<Rightarrow> ynode option \<Rightarrow> ints" where
  "ints_of decode n =
     (let m = map_option resolve_alias n;
          whole = \<lparr>ints_list = None, ints_lo = 0, ints_hi = max_count\<rparr>
      in if \<not> present m then whole
         else case int_val decode (if is_map (the m) then get_opt m ''equals'' else m) of
             Some i \<Rightarrow> \<lparr>ints_list = Some [i], ints_lo = i, ints_hi = i\<rparr>
           | None \<Rightarrow>
             (let out = (case get_opt m ''oneOf'' of
                  Some (YSeq xs l c) \<Rightarrow> sort (int_vals decode xs) | _ \<Rightarrow> [])
              in if out \<noteq> [] then \<lparr>ints_list = Some out, ints_lo = hd out, ints_hi = last out\<rparr>
                 else whole\<lparr>ints_lo := (case int_val decode (get_opt m ''min'') of Some i \<Rightarrow> i | None \<Rightarrow> 0),
                            ints_hi := (case int_val decode (get_opt m ''max'') of Some i \<Rightarrow> i | None \<Rightarrow> max_count)\<rparr>))"

text \<open>\<open>has\<close> searches the sorted list; the model tests membership (see \<open>ints_of_sorted\<close>).\<close>

definition ints_has :: "ints \<Rightarrow> int \<Rightarrow> bool" where
  "ints_has s v = (case ints_list s of Some xs \<Rightarrow> v \<in> set xs | None \<Rightarrow> ints_lo s \<le> v \<and> v \<le> ints_hi s)"

text \<open>The allowed values in the order \<open>any\<close> tries them.\<close>

definition ints_values :: "ints \<Rightarrow> int list" where
  "ints_values s = (case ints_list s of Some xs \<Rightarrow> xs | None \<Rightarrow> [ints_lo s..ints_hi s])"

definition ints_any :: "ints \<Rightarrow> (int \<Rightarrow> bool) \<Rightarrow> bool" where
  "ints_any s f = list_ex f (ints_values s)"

definition ints_string :: "ints \<Rightarrow> string" where
  "ints_string s =
     (case ints_list s of
        Some xs \<Rightarrow> if length xs = 1 then show_int (hd xs) else ''one of '' @ join_with '', '' (map show_int xs)
      | None \<Rightarrow>
          if ints_lo s = 0 \<and> ints_hi s = max_count then ''any number''
          else if ints_hi s = max_count then ''at least '' @ show_int (ints_lo s)
          else if ints_lo s = 0 then ''at most '' @ show_int (ints_hi s)
          else show_int (ints_lo s) @ '' to '' @ show_int (ints_hi s))"

section \<open>The placement arithmetic\<close>

definition zones_fit :: "ints \<Rightarrow> ints \<Rightarrow> bool" where
  "zones_fit cnt zones \<longleftrightarrow>
     ints_has cnt 0 \<and> ints_has zones 0 \<or> ints_any zones (\<lambda>z. 1 \<le> z \<and> z \<le> ints_hi cnt)"

definition skew_reach :: "int \<Rightarrow> int \<Rightarrow> int \<Rightarrow> bool" where
  "skew_reach n z s =
     (if z = 1 then s = 0
      else if s < 0 \<or> s > n - z then False
      else if z = 2 then s smod 2 = n smod 2
      else if 2 \<le> s then True
      else (s = 0) = (n smod z = 0))"

definition skew_fits :: "ints \<Rightarrow> ints \<Rightarrow> ints \<Rightarrow> bool" where
  "skew_fits cnt zones skew =
     ints_any cnt (\<lambda>n.
       if n = 0 then ints_has zones 0 \<and> ints_has skew 0
       else
         let top = min n (ints_hi zones);
             top' = (if 0 < ints_lo skew then min top (n - ints_lo skew) else top)
         in list_ex (\<lambda>z. ints_has zones z \<and>
              (case ints_list skew of
                 Some xs \<Rightarrow> list_ex (skew_reach n z) xs
               | None \<Rightarrow> list_ex (skew_reach n z) [ints_lo skew..min (ints_hi skew) (ints_lo skew + 2)]))
            [max 1 (ints_lo zones)..top'])"

definition least_zones :: "ints \<Rightarrow> int" where
  "least_zones zones = (case find (\<lambda>z. 1 \<le> z) (ints_values zones) of Some z \<Rightarrow> z | None \<Rightarrow> max_count + 1)"

definition placeable :: "ints \<Rightarrow> ints \<Rightarrow> ints \<Rightarrow> bool" where
  "placeable cnt zones per =
     (let a = max 1 (ints_lo per); b = ints_hi per; z1 = least_zones zones
      in ints_any cnt (\<lambda>n.
           if n = 0 then ints_has zones 0
           else let most = n sdiv a in a \<le> b \<and> z1 \<le> most \<and> (n + b - 1) sdiv b \<le> most))"

text \<open>\<open>quorumEven\<close> and \<open>quorumZoneLoss\<close> without their messages: whether they warn.\<close>

definition quorum_even_warns :: "ints \<Rightarrow> bool" where
  "quorum_even_warns cs \<longleftrightarrow>
     \<not> (ints_lo cs < 2 \<or> ints_list cs = None \<and> ints_lo cs \<noteq> ints_hi cs \<or> ints_any cs (\<lambda>v. v smod 2 = 1))"

definition survives_zone_loss :: "int \<Rightarrow> int \<Rightarrow> bool" where
  "survives_zone_loss n z \<longleftrightarrow> z \<le> n \<and> n sdiv 2 + 1 \<le> n - (n + z - 1) sdiv z"

definition quorum_zone_loss_warns :: "ints \<Rightarrow> ints \<Rightarrow> bool" where
  "quorum_zone_loss_warns cnt zones \<longleftrightarrow>
     \<not> ints_lo zones < 2 \<and>
     (let survives = ints_any cnt (\<lambda>n. ints_any zones (survives_zone_loss n));
          paired = ints_any cnt (\<lambda>n. ints_any zones (\<lambda>z. z \<le> n))
      in paired \<and> \<not> survives)"

section \<open>Constraints as sets\<close>

definition wf_ints :: "ints \<Rightarrow> bool" where
  "wf_ints s =
     (case ints_list s of
        Some xs \<Rightarrow> xs \<noteq> [] \<and> sorted xs \<and> ints_lo s = hd xs \<and> ints_hi s = last xs
      | None \<Rightarrow> ints_lo s \<le> ints_hi s)"

lemma ints_values_has: "v \<in> set (ints_values s) \<longleftrightarrow> ints_has s v"
  by (auto simp: ints_values_def ints_has_def split: option.splits)

lemma ints_any_iff: "ints_any s f \<longleftrightarrow> (\<exists>v. ints_has s v \<and> f v)"
  by (auto simp: ints_any_def list_ex_iff ints_values_has)

lemma sorted_last: "sorted xs \<Longrightarrow> x \<in> set xs \<Longrightarrow> x \<le> last xs"
  by (induction xs) auto

lemma sorted_hd: "sorted xs \<Longrightarrow> x \<in> set xs \<Longrightarrow> hd xs \<le> x"
  by (cases xs) auto

lemma wf_ints_bounds:
  assumes "wf_ints s"
  shows "ints_has s (ints_lo s)" "ints_has s (ints_hi s)" "ints_has s v \<Longrightarrow> ints_lo s \<le> v \<and> v \<le> ints_hi s"
  using assms
  by (auto simp: wf_ints_def ints_has_def sorted_hd sorted_last split: option.splits)

text \<open>Only a range whose least exceeds its greatest (a min above a max) is not well-formed.\<close>

lemma ints_of_sorted: "ints_list (ints_of decode n) = Some xs \<Longrightarrow> wf_ints (ints_of decode n)"
  by (auto simp: ints_of_def wf_ints_def Let_def split: option.splits if_splits ynode.splits)

lemma ints_of_range:
  "ints_list (ints_of decode n) = None \<Longrightarrow> ints_lo (ints_of decode n) \<le> ints_hi (ints_of decode n) \<Longrightarrow>
   wf_ints (ints_of decode n)"
  by (simp add: wf_ints_def)

section \<open>Pods in zones\<close>

text \<open>
  \<open>ds\<close> is a placement of \<open>n\<close> pods in \<open>z\<close> zones: how many pods each zone that hosts one has.
  The skew is the most minus the fewest.
\<close>

definition spread :: "int \<Rightarrow> int \<Rightarrow> int list \<Rightarrow> bool" where
  "spread n z ds \<longleftrightarrow> int (length ds) = z \<and> (\<forall>d\<in>set ds. 1 \<le> d) \<and> sum_list ds = n"

definition skew_of :: "int list \<Rightarrow> int" where
  "skew_of ds = (if ds = [] then 0 else Max (set ds) - Min (set ds))"

lemma sum_list_bounds:
  "\<forall>d\<in>set ds. a \<le> d \<and> d \<le> (b::int) \<Longrightarrow> int (length ds) * a \<le> sum_list ds \<and> sum_list ds \<le> int (length ds) * b"
  by (induction ds) (auto simp: algebra_simps)

lemma list_with_sum:
  "0 \<le> r \<Longrightarrow> r \<le> int k * w \<Longrightarrow> 0 \<le> w \<Longrightarrow>
   \<exists>es. length es = k \<and> (\<forall>e\<in>set es. a \<le> e \<and> e \<le> a + (w::int)) \<and> sum_list es = int k * a + r"
proof (induction k arbitrary: r)
  case (Suc k)
  let ?e = "min r w"
  have "0 \<le> r - ?e" "r - ?e \<le> int k * w" using Suc.prems by (auto simp: algebra_simps min_def)
  then obtain es where "length es = k" "\<forall>e\<in>set es. a \<le> e \<and> e \<le> a + w" "sum_list es = int k * a + (r - ?e)"
    using Suc.IH Suc.prems(3) by blast
  then show ?case using Suc.prems by (intro exI [of _ "(a + ?e) # es"]) (auto simp: algebra_simps)
qed simp

lemma placement_exists:
  "int k * a \<le> n \<Longrightarrow> n \<le> int k * b \<Longrightarrow> a \<le> b \<Longrightarrow>
   \<exists>es. length es = k \<and> (\<forall>e\<in>set es. a \<le> e \<and> e \<le> (b::int)) \<and> sum_list es = n"
  using list_with_sum [of "n - int k * a" k "b - a" a] by (auto simp: algebra_simps)

lemma spread_le: "spread n z ds \<Longrightarrow> z \<le> n"
  using sum_list_bounds [of ds 1 "Max (set ds)"] by (auto simp: spread_def)

lemma spread_exists: "1 \<le> z \<Longrightarrow> z \<le> n \<Longrightarrow> \<exists>ds. spread n z ds"
  using placement_exists [of "nat z" 1 n n]
  by (auto simp: spread_def) (metis int_nat_eq mult_left_mono mult.commute mult_cancel_left2 order.trans zero_le_one)

lemma spread_0: "spread n 0 ds \<longleftrightarrow> n = 0 \<and> ds = []"
  by (auto simp: spread_def)

lemma spread_pos: "spread n z ds \<Longrightarrow> z \<noteq> 0 \<Longrightarrow> 1 \<le> z"
  by (auto simp: spread_def)

subsection \<open>The skews a number of pods can have\<close>

lemma skew_of_bounds:
  assumes "ds \<noteq> []"
  shows "\<exists>m M. m \<in> set ds \<and> M \<in> set ds \<and> (\<forall>d\<in>set ds. m \<le> d \<and> d \<le> M) \<and> skew_of ds = M - m"
  using assms by (intro exI [of _ "Min (set ds)"] exI [of _ "Max (set ds)"]) (simp add: skew_of_def)

lemma skew_ofI:
  assumes "m \<in> set ds" "M \<in> set ds" "\<forall>d\<in>set ds. m \<le> d \<and> d \<le> M"
  shows "skew_of ds = M - m"
proof -
  have "Max (set ds) = M" "Min (set ds) = m" using assms by (auto intro!: Max_eqI Min_eqI)
  then show ?thesis using assms(1) by (auto simp: skew_of_def)
qed

lemma skew_of_nonneg: "0 \<le> skew_of ds"
  using skew_of_bounds [of ds] by (cases "ds = []") (auto simp: skew_of_def)

lemma skew_le:
  assumes "spread n z ds" "1 \<le> z"
  shows "skew_of ds \<le> n - z"
proof -
  have ne: "ds \<noteq> []" using assms by (auto simp: spread_def)
  obtain m M where mM: "m \<in> set ds" "M \<in> set ds" "skew_of ds = M - m" using skew_of_bounds [OF ne] by blast
  have m1: "1 \<le> m" using mM(1) assms(1) by (simp add: spread_def)
  obtain xs ys where ds: "ds = xs @ M # ys" using mM(2) by (auto dest: split_list)
  have "int (length (xs @ ys)) * 1 \<le> sum_list (xs @ ys)"
    using sum_list_bounds [of "xs @ ys" 1 "Max (set ds)"] assms(1) unfolding ds spread_def by auto
  then have "M + (z - 1) \<le> n" using assms(1) unfolding ds spread_def by auto
  then show ?thesis using mM(3) m1 by simp
qed

lemma smod_nonneg: "0 \<le> (a::int) \<Longrightarrow> 0 < b \<Longrightarrow> a smod b = a mod b"
  by (simp add: signed_modulo_int_def sgn_if)

lemma sdiv_nonneg: "0 \<le> (a::int) \<Longrightarrow> 0 < b \<Longrightarrow> a sdiv b = a div b"
  by (simp add: signed_divide_int_def sgn_if)

lemma spread_one: "spread n 1 ds \<longleftrightarrow> 1 \<le> n \<and> ds = [n]"
  by (cases ds) (auto simp: spread_def)

lemma spread_two: "spread n 2 ds \<longleftrightarrow> (\<exists>a b. ds = [a, b] \<and> 1 \<le> a \<and> 1 \<le> b \<and> n = a + b)"
proof
  assume s: "spread n 2 ds"
  then obtain a ds' where ds: "ds = a # ds'" by (cases ds) (auto simp: spread_def)
  then obtain b ds'' where "ds' = b # ds''" using s by (cases ds') (auto simp: spread_def)
  then show "\<exists>a b. ds = [a, b] \<and> 1 \<le> a \<and> 1 \<le> b \<and> n = a + b" using s ds by (auto simp: spread_def)
qed (auto simp: spread_def)

lemma skew_two: "skew_of [a, b] = \<bar>a - b\<bar>"
  by (simp add: skew_of_def max_def min_def)

lemma reach_two:
  assumes "2 \<le> n"
  shows "(\<exists>ds. spread n 2 ds \<and> skew_of ds = s) \<longleftrightarrow> 0 \<le> s \<and> s \<le> n - 2 \<and> s mod 2 = n mod 2"
proof
  assume "0 \<le> s \<and> s \<le> n - 2 \<and> s mod 2 = n mod 2"
  then have "\<exists>k. n = 2 * k + s \<and> 1 \<le> k" "0 \<le> s" by presburger+
  then obtain k where k: "n = 2 * k + s" "1 \<le> k" "0 \<le> s" by blast
  have "spread n 2 [k, k + s]" using k by (auto simp: spread_two)
  moreover have "skew_of [k, k + s] = s" using k(3) by (simp add: skew_two)
  ultimately show "\<exists>ds. spread n 2 ds \<and> skew_of ds = s" by blast
next
  assume "\<exists>ds. spread n 2 ds \<and> skew_of ds = s"
  then obtain ds where ds: "spread n 2 ds" "skew_of ds = s" by blast
  then obtain a b where "ds = [a, b]" and ab: "1 \<le> a" "1 \<le> b" "n = a + b" unfolding spread_two by blast
  then have ab4: "s = \<bar>a - b\<bar>" using ds(2) skew_two by simp
  then have s: "s = a - b \<or> s = b - a" "0 \<le> s" by arith+
  then have "s \<le> n - 2" using ab(1-3) by auto
  moreover have "n = s + b * 2 \<or> n = s + a * 2" using s(1) ab(3) by linarith
  then have "s mod 2 = n mod 2" by (elim disjE) (simp_all only: mod_mult_self1)
  ultimately show "0 \<le> s \<and> s \<le> n - 2 \<and> s mod 2 = n mod 2" using s(2) by simp
qed

text \<open>An even split has skew 0 or 1.\<close>

lemma even_split:
  assumes "1 \<le> z" "z \<le> n" "spread n z ds" "skew_of ds \<le> 1"
  shows "skew_of ds = 0 \<longleftrightarrow> n mod z = 0"
proof -
  have ne: "ds \<noteq> []" using assms by (auto simp: spread_def)
  obtain m M where mM: "m \<in> set ds" "M \<in> set ds" "\<forall>d\<in>set ds. m \<le> d \<and> d \<le> M" "skew_of ds = M - m"
    using skew_of_bounds [OF ne] by blast
  have sum: "sum_list ds = n" "int (length ds) = z" using assms(3) by (auto simp: spread_def)
  have lo: "z * m \<le> n" "n \<le> z * M" using sum_list_bounds [OF mM(3)] sum by auto
  show ?thesis
  proof
    assume "skew_of ds = 0"
    then have "n = z * m" using lo mM(4) by simp
    then show "n mod z = 0" by simp
  next
    assume z0: "n mod z = 0"
    show "skew_of ds = 0"
    proof (rule ccontr)
      assume "skew_of ds \<noteq> 0"
      then have M: "M = m + 1" using skew_of_nonneg [of ds] assms(4) mM(4) by simp
      obtain xs ys where ds: "ds = xs @ m # ys" using mM(1) by (auto dest: split_list)
      have "\<forall>d\<in>set (xs @ ys). m \<le> d \<and> d \<le> M" using mM(3) unfolding ds by auto
      from sum_list_bounds [OF this] have "n < z * M"
        using sum M unfolding ds by (auto simp: algebra_simps)
      moreover have "z * m < n"
      proof -
        obtain xs ys where ds: "ds = xs @ M # ys" using mM(2) by (auto dest: split_list)
        have "\<forall>d\<in>set (xs @ ys). m \<le> d \<and> d \<le> M" using mM(3) unfolding ds by auto
        from sum_list_bounds [OF this] show ?thesis
          using sum M unfolding ds by (auto simp: algebra_simps)
      qed
      ultimately have "z * m < n \<and> n < z * m + z" using M by (simp add: algebra_simps)
      then have "n div z = m" using assms(1) by (intro int_div_pos_eq [of n z m "n - z * m"]) auto
      then have "n = z * m" using z0 by (metis add.right_neutral mult_div_mod_eq)
      then show False using \<open>z * m < n\<close> by simp
    qed
  qed
qed

lemma skew_of_le:
  assumes "\<forall>d\<in>set ds. a \<le> d \<and> d \<le> a + w" "0 \<le> w"
  shows "skew_of ds \<le> w"
proof (cases "ds = []")
  case False
  then obtain m M where "m \<in> set ds" "M \<in> set ds" "skew_of ds = M - m" using skew_of_bounds by blast
  then show ?thesis using bspec [OF assms(1), of m] bspec [OF assms(1), of M] by linarith
qed (use assms(2) in \<open>simp add: skew_of_def\<close>)

lemma small_skew_exists:
  assumes "1 \<le> z" "z \<le> n" "0 \<le> s" "s < 2" "(s = 0) = (n mod z = 0)"
  shows "\<exists>ds. spread n z ds \<and> skew_of ds = s"
proof -
  let ?q = "n div z"
  have q1: "1 \<le> ?q" using assms(1,2) by (simp add: pos_imp_zdiv_pos_iff int_one_le_iff_zero_less)
  have "z * ?q + n mod z = n" "n mod z < z" "0 \<le> n mod z" using assms(1) by simp_all
  then have "z * ?q \<le> n" "n \<le> z * ?q + z" by linarith+
  then have "int (nat z) * ?q \<le> n" "n \<le> int (nat z) * (?q + 1)"
    using assms(1) by (simp_all add: distrib_left)
  then obtain ds where ds: "length ds = nat z" "\<forall>d\<in>set ds. ?q \<le> d \<and> d \<le> ?q + 1" "sum_list ds = n"
    using placement_exists [of "nat z" ?q n "?q + 1"] by auto
  have sp: "spread n z ds" using ds q1 assms(1) by (auto simp: spread_def)
  have "skew_of ds \<le> 1" using skew_of_le [OF ds(2)] by simp
  moreover from this have "skew_of ds = 0 \<longleftrightarrow> n mod z = 0" by (rule even_split [OF assms(1,2) sp])
  ultimately have "skew_of ds = s" using assms(3-5) skew_of_nonneg [of ds] by (cases "s = 0") auto
  then show ?thesis using sp by blast
qed

lemma large_skew_exists:
  assumes "3 \<le> z" "2 \<le> s" "s \<le> n - z"
  shows "\<exists>ds. spread n z ds \<and> skew_of ds = s"
proof -
  let ?m = "(n - s) div z" and ?r = "(n - s) mod z"
  have m1: "1 \<le> ?m" using assms by (simp add: pos_imp_zdiv_pos_iff int_one_le_iff_zero_less)
  have r: "0 \<le> ?r" "?r < z" using assms(1) by simp_all
  have "r \<le> (z - 2) * 2" if "r < z" for r :: int using that assms(1) by simp
  from this [OF r(2)] have "?r \<le> (z - 2) * 2" .
  also have "\<dots> \<le> (z - 2) * s" using assms(1,2) by (intro mult_left_mono) auto
  finally have "?r \<le> int (nat (z - 2)) * s" using assms(1) by simp
  then obtain es where es: "length es = nat (z - 2)" "\<forall>e\<in>set es. ?m \<le> e \<and> e \<le> ?m + s"
    "sum_list es = int (nat (z - 2)) * ?m + ?r"
    using list_with_sum [of ?r "nat (z - 2)" s ?m] r(1) assms(2) by auto
  let ?ds = "?m # (?m + s) # es"
  have "sum_list ?ds = z * ?m + ?r + s" using es(3) assms(1) by (simp add: algebra_simps)
  then have "sum_list ?ds = n" by simp
  moreover have "int (length ?ds) = z" using es(1) assms(1) by simp
  ultimately have "spread n z ?ds" using es(2) m1 assms(2) by (auto simp: spread_def)
  moreover have "skew_of ?ds = ?m + s - ?m" by (rule skew_ofI) (use es(2) assms(2) in auto)
  ultimately show ?thesis by (intro exI [of _ ?ds]) simp
qed

lemma reach_iff:
  assumes "1 \<le> z" "z \<le> n"
  shows "skew_reach n z s \<longleftrightarrow> (\<exists>ds. spread n z ds \<and> skew_of ds = s)"
proof -
  have n0: "n smod z = n mod z" "n smod 2 = n mod 2" using assms by (auto intro: smod_nonneg)
  consider "z = 1" | "z = 2" | "3 \<le> z" using assms(1) by linarith
  then show ?thesis
  proof cases
    case 1
    then show ?thesis using assms(2) by (auto simp: skew_reach_def spread_one skew_of_def)
  next
    case 2
    have "s < 0 \<or> s smod 2 = s mod 2" by (cases "s < 0") (auto intro: smod_nonneg)
    then show ?thesis using reach_two [of n s] assms(2) n0(2) 2 unfolding skew_reach_def by auto
  next
    case 3
    show ?thesis
    proof
      assume r: "skew_reach n z s"
      then have s: "0 \<le> s" "s \<le> n - z" using 3 by (auto simp: skew_reach_def split: if_splits)
      show "\<exists>ds. spread n z ds \<and> skew_of ds = s"
      proof (cases "2 \<le> s")
        case True
        then show ?thesis using large_skew_exists 3 s by blast
      next
        case False
        then have "(s = 0) = (n mod z = 0)" using r 3 s n0(1) by (simp add: skew_reach_def)
        then show ?thesis using small_skew_exists [OF assms s(1)] False by simp
      qed
    next
      assume "\<exists>ds. spread n z ds \<and> skew_of ds = s"
      then obtain ds where ds: "spread n z ds" "skew_of ds = s" by blast
      then have s: "0 \<le> s" "s \<le> n - z" using skew_of_nonneg skew_le assms(1) by blast+
      then show "skew_reach n z s"
        using even_split [OF assms ds(1)] ds(2) 3 n0(1) by (auto simp: skew_reach_def)
    qed
  qed
qed

text \<open>
  The skew arithmetic is exact: for every number of pods and zones with a pod for each zone,
  \<open>reach\<close> accepts a skew exactly when some placement with at least one pod in each of the zones
  has that skew.
\<close>

theorem skew_reach_exact:
  assumes "1 \<le> z" "z \<le> n"
  shows "skew_reach n z s \<longleftrightarrow> (\<exists>ds. spread n z ds \<and> skew_of ds = s)"
  by (rule reach_iff [OF assms])

theorem skew_reach_exact_witness:
  "skew_reach 7 3 2 \<and> (\<exists>ds. spread 7 3 ds \<and> skew_of ds = 2) \<and> \<not> (\<exists>ds. spread 7 2 ds \<and> skew_of ds = 2)"
proof -
  have "skew_reach 7 3 2" "\<not> skew_reach 7 2 2" by code_simp+
  then show ?thesis using skew_reach_exact [of 3 7 2] skew_reach_exact [of 2 7 2] by simp
qed

text \<open>The three-step search over a range of skews misses none.\<close>

lemma reach_within_three:
  assumes "1 \<le> z" "z \<le> n" "0 \<le> lo" "lo \<le> s" "s \<le> hi" "skew_reach n z s"
  shows "\<exists>s'\<in>{lo..min hi (lo + 2)}. skew_reach n z s'"
proof (cases "s \<le> lo + 2")
  case True
  then show ?thesis using assms by auto
next
  case False
  have n0: "n smod 2 = n mod 2" "0 \<le> s" using assms by (auto intro: smod_nonneg)
  consider "z = 1" | "z = 2" | "3 \<le> z" using assms(1) by linarith
  then show ?thesis
  proof cases
    case 1
    then show ?thesis using assms False by (auto simp: skew_reach_def)
  next
    case 2
    then have s: "s \<le> n - 2" "s mod 2 = n mod 2"
      using assms(6) n0 by (auto simp: skew_reach_def smod_nonneg split: if_splits)
    define s' where "s' = lo + (s - lo) mod 2"
    have "s' mod 2 = s mod 2" unfolding s'_def by (metis add_diff_cancel_left' diff_add_cancel mod_add_right_eq add.commute)
    moreover have "lo \<le> s'" "s' \<le> lo + 1" unfolding s'_def by auto
    ultimately have "skew_reach n z s'"
      using 2 s False assms(3) n0(1) by (auto simp: skew_reach_def smod_nonneg)
    then show ?thesis using \<open>lo \<le> s'\<close> \<open>s' \<le> lo + 1\<close> False assms(5) by (intro bexI [of _ s']) auto
  next
    case 3
    have "skew_reach n z (lo + 2)" using 3 False assms(3,6) by (auto simp: skew_reach_def split: if_splits)
    then show ?thesis using False assms(5) by (intro bexI [of _ "lo + 2"]) auto
  qed
qed

definition nonneg :: "ints \<Rightarrow> bool" where
  "nonneg s \<longleftrightarrow> 0 \<le> ints_lo s"

lemma nonnegD: "wf_ints s \<Longrightarrow> nonneg s \<Longrightarrow> ints_has s v \<Longrightarrow> 0 \<le> v"
  using wf_ints_bounds(3) [of s v] by (simp add: nonneg_def)

lemma skews_of_zone:
  assumes "wf_ints skew" "nonneg skew" "1 \<le> z" "z \<le> n"
  shows "(case ints_list skew of
            Some xs \<Rightarrow> list_ex (skew_reach n z) xs
          | None \<Rightarrow> list_ex (skew_reach n z) [ints_lo skew..min (ints_hi skew) (ints_lo skew + 2)]) \<longleftrightarrow>
    (\<exists>s. ints_has skew s \<and> skew_reach n z s)"
proof (cases "ints_list skew")
  case None
  then show ?thesis
    using reach_within_three [OF assms(3,4)] assms(2)
    by (fastforce simp: list_ex_iff ints_has_def nonneg_def)
qed (auto simp: list_ex_iff ints_has_def)

lemma reach_bound: "skew_reach n z s \<Longrightarrow> 1 \<le> z \<Longrightarrow> z \<le> n \<Longrightarrow> z \<le> n - s"
  by (auto simp: skew_reach_def split: if_splits)

text \<open>
  C39. \<open>skewFits\<close> is exact: on constraints whose least is not above their greatest and that allow no
  negative number, it answers whether some placement of an allowed count of pods in an allowed
  number of zones, each with a pod, has an allowed skew.
\<close>

theorem skew_fits_exact:
  assumes "wf_ints cnt" "wf_ints zones" "wf_ints skew" "nonneg cnt" "nonneg zones" "nonneg skew"
  shows "skew_fits cnt zones skew \<longleftrightarrow>
    (\<exists>n z ds. ints_has cnt n \<and> ints_has zones z \<and> spread n z ds \<and> ints_has skew (skew_of ds))"
proof -
  have one: "(let top = min n (ints_hi zones);
             top' = (if 0 < ints_lo skew then min top (n - ints_lo skew) else top)
         in list_ex (\<lambda>z. ints_has zones z \<and>
              (case ints_list skew of
                 Some xs \<Rightarrow> list_ex (skew_reach n z) xs
               | None \<Rightarrow> list_ex (skew_reach n z) [ints_lo skew..min (ints_hi skew) (ints_lo skew + 2)]))
            [max 1 (ints_lo zones)..top']) \<longleftrightarrow>
      (\<exists>z ds. ints_has zones z \<and> spread n z ds \<and> ints_has skew (skew_of ds))" (is "?L \<longleftrightarrow> ?R")
    if n: "ints_has cnt n" "n \<noteq> 0" for n
  proof
    assume ?L
    then obtain z where z: "1 \<le> z" "z \<le> n" "ints_has zones z"
      "case ints_list skew of Some xs \<Rightarrow> list_ex (skew_reach n z) xs
        | None \<Rightarrow> list_ex (skew_reach n z) [ints_lo skew..min (ints_hi skew) (ints_lo skew + 2)]"
      by (auto simp: list_ex_iff Let_def split: if_splits)
    then obtain s where "ints_has skew s" "skew_reach n z s"
      using skews_of_zone [OF assms(3,6) z(1,2)] by blast
    then obtain ds where "spread n z ds" "skew_of ds = s" using reach_iff [OF z(1,2)] by blast
    then show ?R using \<open>ints_has skew s\<close> z(3) by blast
  next
    assume ?R
    then obtain z ds where z: "ints_has zones z" "spread n z ds" "ints_has skew (skew_of ds)" by blast
    have "z \<noteq> 0" using z(2) n(2) spread_0 by blast
    then have zn: "1 \<le> z" "z \<le> n" using spread_pos spread_le z(2) by blast+
    have r: "skew_reach n z (skew_of ds)" using reach_iff [OF zn] z(2) by blast
    have "z \<le> n - ints_lo skew"
      using reach_bound [OF r zn] wf_ints_bounds(3) [OF assms(3) z(3)] by linarith
    moreover have "ints_lo zones \<le> z" "z \<le> ints_hi zones" using wf_ints_bounds(3) [OF assms(2) z(1)] by auto
    moreover have "case ints_list skew of Some xs \<Rightarrow> list_ex (skew_reach n z) xs
        | None \<Rightarrow> list_ex (skew_reach n z) [ints_lo skew..min (ints_hi skew) (ints_lo skew + 2)]"
      using skews_of_zone [OF assms(3,6) zn] r z(3) by blast
    ultimately show ?L using zn z(1) by (auto simp: list_ex_iff Let_def intro!: bexI [of _ z])
  qed
  have zero: "(ints_has zones 0 \<and> ints_has skew 0) \<longleftrightarrow>
      (\<exists>z ds. ints_has zones z \<and> spread 0 z ds \<and> ints_has skew (skew_of ds))"
  proof
    assume "ints_has zones 0 \<and> ints_has skew 0"
    then show "\<exists>z ds. ints_has zones z \<and> spread 0 z ds \<and> ints_has skew (skew_of ds)"
      by (intro exI [of _ 0] exI [of _ "[]"]) (simp add: spread_def skew_of_def)
  next
    assume "\<exists>z ds. ints_has zones z \<and> spread 0 z ds \<and> ints_has skew (skew_of ds)"
    then obtain z ds where z: "ints_has zones z" "spread 0 z ds" "ints_has skew (skew_of ds)" by blast
    then have "z = 0" using spread_le nonnegD [OF assms(2,5)] by fastforce
    then show "ints_has zones 0 \<and> ints_has skew 0" using z spread_0 by (auto simp: skew_of_def)
  qed
  have each: "ints_has cnt n \<Longrightarrow>
      (if n = 0 then ints_has zones 0 \<and> ints_has skew 0
       else
         let top = min n (ints_hi zones);
             top' = (if 0 < ints_lo skew then min top (n - ints_lo skew) else top)
         in list_ex (\<lambda>z. ints_has zones z \<and>
              (case ints_list skew of
                 Some xs \<Rightarrow> list_ex (skew_reach n z) xs
               | None \<Rightarrow> list_ex (skew_reach n z) [ints_lo skew..min (ints_hi skew) (ints_lo skew + 2)]))
            [max 1 (ints_lo zones)..top']) \<longleftrightarrow>
      (\<exists>z ds. ints_has zones z \<and> spread n z ds \<and> ints_has skew (skew_of ds))" for n
    using one zero by (cases "n = 0") (simp_all only: if_True if_False simp_thms)
  show ?thesis unfolding skew_fits_def ints_any_iff by (simp only: each cong: conj_cong) simp
qed

definition fixed :: "int \<Rightarrow> ints" where
  "fixed v = \<lparr>ints_list = Some [v], ints_lo = v, ints_hi = v\<rparr>"

definition range_of :: "int \<Rightarrow> int \<Rightarrow> ints" where
  "range_of a b = \<lparr>ints_list = None, ints_lo = a, ints_hi = b\<rparr>"

theorem skew_fits_exact_witness:
  "(\<exists>n z ds. ints_has (range_of 5 7) n \<and> ints_has (fixed 3) z \<and> spread n z ds \<and>
      ints_has (range_of 3 4) (skew_of ds)) \<and>
   \<not> (\<exists>n z ds. ints_has (fixed 4) n \<and> ints_has (fixed 2) z \<and> spread n z ds \<and>
      ints_has (fixed 1) (skew_of ds))"
proof -
  have "skew_fits (range_of 5 7) (fixed 3) (range_of 3 4)" "\<not> skew_fits (fixed 4) (fixed 2) (fixed 1)"
    by code_simp+
  moreover have "wf_ints (fixed v)" "0 \<le> v \<Longrightarrow> nonneg (fixed v)" "a \<le> b \<Longrightarrow> wf_ints (range_of a b)"
    "0 \<le> a \<Longrightarrow> nonneg (range_of a b)" for v a b
    by (simp_all add: wf_ints_def fixed_def range_of_def nonneg_def)
  ultimately show ?thesis
    using skew_fits_exact [of "range_of 5 7" "fixed 3" "range_of 3 4"]
      skew_fits_exact [of "fixed 4" "fixed 2" "fixed 1"] by simp
qed

text \<open>
  \<open>zonesFit\<close> is exact: it answers whether an allowed count of pods can occupy an allowed number
  of zones.
\<close>

theorem zones_fit_exact:
  assumes "wf_ints cnt" "nonneg cnt" "nonneg zones" "wf_ints zones"
  shows "zones_fit cnt zones \<longleftrightarrow> (\<exists>n z ds. ints_has cnt n \<and> ints_has zones z \<and> spread n z ds)"
proof
  assume z: "zones_fit cnt zones"
  show "\<exists>n z ds. ints_has cnt n \<and> ints_has zones z \<and> spread n z ds"
  proof (cases "ints_has cnt 0 \<and> ints_has zones 0")
    case True
    then show ?thesis using spread_0 [of 0 "[]"] by blast
  next
    case False
    then obtain z where z: "ints_has zones z" "1 \<le> z" "z \<le> ints_hi cnt"
      using z by (auto simp: zones_fit_def ints_any_iff)
    then obtain ds where "spread (ints_hi cnt) z ds" using spread_exists by blast
    then show ?thesis using wf_ints_bounds(2) [OF assms(1)] z(1) by blast
  qed
next
  assume "\<exists>n z ds. ints_has cnt n \<and> ints_has zones z \<and> spread n z ds"
  then obtain n z ds where *: "ints_has cnt n" "ints_has zones z" "spread n z ds" by blast
  show "zones_fit cnt zones"
  proof (cases "z = 0")
    case True
    then have "n = 0" using *(3) spread_0 by blast
    then show ?thesis using * True by (simp add: zones_fit_def)
  next
    case False
    then have "1 \<le> z" "z \<le> ints_hi cnt"
      using *(3) spread_pos spread_le wf_ints_bounds(3) [OF assms(1) *(1)] by (blast, fastforce)
    then show ?thesis using *(2) by (auto simp: zones_fit_def ints_any_iff)
  qed
qed

theorem zones_fit_exact_witness:
  "\<not> (\<exists>n z ds. ints_has (range_of 1 2) n \<and> ints_has (fixed 3) z \<and> spread n z ds)"
proof -
  have "\<not> zones_fit (range_of 1 2) (fixed 3)" by code_simp
  then show ?thesis
    using zones_fit_exact [of "range_of 1 2" "fixed 3"]
    by (simp add: wf_ints_def fixed_def range_of_def nonneg_def)
qed

section \<open>Pods on nodes\<close>

text \<open>A placement of \<open>n\<close> pods on \<open>k\<close> nodes with between \<open>a\<close> and \<open>b\<close> pods on each.\<close>

lemma nodes_iff:
  assumes "1 \<le> a" "0 \<le> n"
  shows "(\<exists>ds. length ds = k \<and> (\<forall>d\<in>set ds. a \<le> d \<and> d \<le> b) \<and> sum_list ds = n) \<longleftrightarrow>
    int k * a \<le> n \<and> n \<le> int k * b \<and> (k = 0 \<or> a \<le> b)"
proof
  assume "\<exists>ds. length ds = k \<and> (\<forall>d\<in>set ds. a \<le> d \<and> d \<le> b) \<and> sum_list ds = n"
  then obtain ds where ds: "length ds = k" "\<forall>d\<in>set ds. a \<le> d \<and> d \<le> b" "sum_list ds = n" by blast
  then show "int k * a \<le> n \<and> n \<le> int k * b \<and> (k = 0 \<or> a \<le> b)"
    using sum_list_bounds [OF ds(2)] by (cases ds) auto
next
  assume r: "int k * a \<le> n \<and> n \<le> int k * b \<and> (k = 0 \<or> a \<le> b)"
  show "\<exists>ds. length ds = k \<and> (\<forall>d\<in>set ds. a \<le> d \<and> d \<le> b) \<and> sum_list ds = n"
  proof (cases "k = 0")
    case False
    then show ?thesis using placement_exists [of k a n b] r by blast
  qed (use r in auto)
qed

lemma some_nodes_iff:
  assumes "1 \<le> a" "1 \<le> n" "1 \<le> z"
  shows "(\<exists>k ds. z \<le> int k \<and> length ds = k \<and> (\<forall>d\<in>set ds. a \<le> d \<and> d \<le> b) \<and> sum_list ds = n) \<longleftrightarrow>
    a \<le> b \<and> z \<le> n div a \<and> (n + b - 1) div b \<le> n div a"
proof
  assume "\<exists>k ds. z \<le> int k \<and> length ds = k \<and> (\<forall>d\<in>set ds. a \<le> d \<and> d \<le> b) \<and> sum_list ds = n"
  then obtain ds where ds: "z \<le> int (length ds)" "\<forall>d\<in>set ds. a \<le> d \<and> d \<le> b" "sum_list ds = n" by blast
  define k where "k = length ds"
  have k: "z \<le> int k" "int k * a \<le> n" "n \<le> int k * b"
    using sum_list_bounds [OF ds(2)] ds(1,3) by (simp_all add: k_def)
  have ab: "a \<le> b" using ds(1,2) assms(3) by (cases ds) auto
  have "int k * a div a \<le> n div a" using k(2) assms(1) by (intro zdiv_mono1) auto
  then have "int k \<le> n div a" using assms(1) by simp
  moreover have "(n + b - 1) div b \<le> int k"
  proof -
    have b: "0 < b" using ab assms(1) by simp
    have "(n + b - 1) div b \<le> (int k * b + (b - 1)) div b" using k(3) b by (intro zdiv_mono1) auto
    also have "\<dots> = int k" using b by (simp add: div_pos_pos_trivial)
    finally show ?thesis .
  qed
  ultimately show "a \<le> b \<and> z \<le> n div a \<and> (n + b - 1) div b \<le> n div a" using ab k(1) by linarith
next
  assume r: "a \<le> b \<and> z \<le> n div a \<and> (n + b - 1) div b \<le> n div a"
  let ?k = "nat (n div a)"
  have k: "int ?k = n div a" using r assms(3) by simp
  have "n div a * a \<le> n" using assms(1) by (simp add: div_mult_mod_eq minus_mod_eq_div_mult [symmetric])
  moreover have "n \<le> n div a * b"
  proof -
    have b: "0 < b" using r assms(1) by simp
    have "(n + b - 1) div b * b + (n + b - 1) mod b = n + b - 1" "(n + b - 1) mod b < b"
      using b by simp_all
    then have "n \<le> (n + b - 1) div b * b" by linarith
    also have "\<dots> \<le> n div a * b" using r assms(1) by (intro mult_right_mono) auto
    finally show ?thesis .
  qed
  ultimately obtain ds where "length ds = ?k" "\<forall>d\<in>set ds. a \<le> d \<and> d \<le> b" "sum_list ds = n"
    using nodes_iff [OF assms(1), of n ?k b] k r assms(2) by auto
  then show "\<exists>k ds. z \<le> int k \<and> length ds = k \<and> (\<forall>d\<in>set ds. a \<le> d \<and> d \<le> b) \<and> sum_list ds = n"
    using r k by (intro exI [of _ ?k] exI [of _ ds]) simp
qed

lemma sdiv_counts: "1 \<le> a \<Longrightarrow> a \<le> b \<Longrightarrow> 1 \<le> (n::int) \<Longrightarrow> n sdiv a = n div a \<and> (n + b - 1) sdiv b = (n + b - 1) div b"
  using sdiv_nonneg [of n a] sdiv_nonneg [of "n + b - 1" b] by simp

lemma least_zones:
  assumes "wf_ints zones"
  shows "(\<exists>z. ints_has zones z \<and> 1 \<le> z) \<Longrightarrow> ints_has zones (least_zones zones) \<and> 1 \<le> least_zones zones"
    and "ints_has zones z \<Longrightarrow> 1 \<le> z \<Longrightarrow> least_zones zones \<le> z"
    and "\<not> (\<exists>z. ints_has zones z \<and> 1 \<le> z) \<Longrightarrow> least_zones zones = max_count + 1"
proof -
  have srt: "sorted (ints_values zones)"
    using assms by (auto simp: wf_ints_def ints_values_def split: option.splits)
  show a: "(\<exists>z. ints_has zones z \<and> 1 \<le> z) \<Longrightarrow> ints_has zones (least_zones zones) \<and> 1 \<le> least_zones zones"
    by (auto simp: least_zones_def find_None_iff find_Some_iff ints_values_has [symmetric] split: option.splits)
  show "\<not> (\<exists>z. ints_has zones z \<and> 1 \<le> z) \<Longrightarrow> least_zones zones = max_count + 1"
    by (auto simp: least_zones_def find_Some_iff ints_values_has [symmetric] split: option.splits)
  show "least_zones zones \<le> z" if z: "ints_has zones z" "1 \<le> z"
  proof -
    have "find (\<lambda>z. 1 \<le> z) (ints_values zones) \<noteq> None"
      using z by (auto simp: find_None_iff ints_values_has)
    then obtain w i where w: "find (\<lambda>z. 1 \<le> z) (ints_values zones) = Some w" "i < length (ints_values zones)"
      "w = ints_values zones ! i" "\<forall>j<i. \<not> 1 \<le> ints_values zones ! j"
      by (auto simp: find_Some_iff)
    obtain j where j: "j < length (ints_values zones)" "z = ints_values zones ! j"
      using z(1) by (metis in_set_conv_nth ints_values_has)
    then have "i \<le> j" using w(4) z(2) by (meson not_less)
    then show ?thesis using w j srt by (simp add: least_zones_def sorted_nth_mono)
  qed
qed

text \<open>
  \<open>placeable\<close> is exact for a per-node range: on constraints that allow no negative number and at
  most 10000 pods, it answers whether an allowed count of pods can be put on nodes, each node that
  hosts one holding an allowed number, so that the nodes are at least as many as an allowed number
  of zones.
\<close>

theorem placeable_exact:
  assumes "wf_ints cnt" "nonneg cnt" "ints_hi cnt \<le> max_count" "wf_ints zones" "nonneg zones"
  shows "placeable cnt zones per \<longleftrightarrow>
    (\<exists>n z ds. ints_has cnt n \<and> ints_has zones z \<and> (n = 0 \<longleftrightarrow> z = 0) \<and> z \<le> int (length ds) \<and>
       (\<forall>d\<in>set ds. max 1 (ints_lo per) \<le> d \<and> d \<le> ints_hi per) \<and> sum_list ds = n)"
proof -
  let ?a = "max 1 (ints_lo per)" and ?b = "ints_hi per" and ?z1 = "least_zones zones"
  have a1: "1 \<le> ?a" by simp
  have each: "(if n = 0 then ints_has zones 0 else ?a \<le> ?b \<and> ?z1 \<le> n sdiv ?a \<and> (n + ?b - 1) sdiv ?b \<le> n sdiv ?a) \<longleftrightarrow>
      (\<exists>z ds. ints_has zones z \<and> (n = 0 \<longleftrightarrow> z = 0) \<and> z \<le> int (length ds) \<and>
         (\<forall>d\<in>set ds. ?a \<le> d \<and> d \<le> ?b) \<and> sum_list ds = n)" (is "?L \<longleftrightarrow> ?R") if n: "ints_has cnt n" for n
  proof (cases "n = 0")
    case True
    then show ?thesis by (auto intro: exI [of _ "[]"])
  next
    case False
    then have n1: "1 \<le> n" "n \<le> max_count"
      using nonnegD [OF assms(1,2) n] wf_ints_bounds(3) [OF assms(1) n] assms(3) by auto
    have ex: "(\<exists>ds. z \<le> int (length ds) \<and> (\<forall>d\<in>set ds. ?a \<le> d \<and> d \<le> ?b) \<and> sum_list ds = n) \<longleftrightarrow>
        ?a \<le> ?b \<and> z \<le> n sdiv ?a \<and> (n + ?b - 1) sdiv ?b \<le> n sdiv ?a" if "1 \<le> z" for z
      using some_nodes_iff [OF a1 n1(1) that, of ?b] sdiv_counts [OF a1 _ n1(1), of ?b] by auto
    have pos: "ints_has zones z \<Longrightarrow> z \<noteq> 0 \<Longrightarrow> 1 \<le> z" for z using nonnegD [OF assms(4,5), of z] by simp
    show ?thesis
    proof
      assume L: ?L
      have "n sdiv ?a \<le> n" using n1(1) zdiv_mono2 [of n 1 ?a] by (simp add: sdiv_nonneg)
      then have "\<exists>z. ints_has zones z \<and> 1 \<le> z" using L False n1(2) least_zones(3) [OF assms(4)] by force
      then have "ints_has zones ?z1" "1 \<le> ?z1" using least_zones(1) [OF assms(4)] by auto
      then show ?R using L ex [of ?z1] False by (intro exI [of _ ?z1]) auto
    next
      assume ?R
      then obtain z ds where z: "ints_has zones z" "z \<noteq> 0" "z \<le> int (length ds)"
        "\<forall>d\<in>set ds. ?a \<le> d \<and> d \<le> ?b" "sum_list ds = n" using False by auto
      then have "?z1 \<le> z" using least_zones(2) [OF assms(4)] pos by blast
      then show ?L using ex [of z] pos [OF z(1,2)] z False by (auto dest: order.trans)
    qed
  qed
  show ?thesis unfolding placeable_def Let_def ints_any_iff by (simp only: each cong: conj_cong) simp
qed

theorem placeable_exact_witness:
  "(\<exists>n z ds. ints_has (fixed 3) n \<and> ints_has (fixed 3) z \<and> (n = 0 \<longleftrightarrow> z = 0) \<and> z \<le> int (length ds) \<and>
      (\<forall>d\<in>set ds. 1 \<le> d \<and> d \<le> 1) \<and> sum_list ds = n)"
proof -
  have "placeable (fixed 3) (fixed 3) (fixed 1)" by code_simp
  then show ?thesis
    using placeable_exact [of "fixed 3" "fixed 3" "fixed 1"]
    by (simp add: wf_ints_def fixed_def nonneg_def max_count_def)
qed

section \<open>KRaft quorums\<close>

text \<open>How many controllers of a quorum of \<open>n\<close> may fail: a commit needs \<open>n div 2 + 1\<close>.\<close>

definition tolerates :: "int \<Rightarrow> int" where
  "tolerates n = n - (n div 2 + 1)"

lemma survives_iff:
  assumes "1 \<le> z"
  shows "survives_zone_loss n z \<longleftrightarrow> (\<exists>ds. spread n z ds \<and> Max (set ds) \<le> tolerates n)"
proof
  assume s: "survives_zone_loss n z"
  then have zn: "z \<le> n" by (simp add: survives_zone_loss_def)
  let ?c = "(n + z - 1) div z"
  have "?c * z + (n + z - 1) mod z = n + z - 1" "(n + z - 1) mod z < z" using assms by simp_all
  then have "n \<le> ?c * z" by linarith
  then have c: "n \<le> z * ?c" by (simp only: mult.commute)
  have "z * 1 \<le> z * ?c" using c zn by linarith
  then have c1: "1 \<le> ?c" using assms by (simp only: mult_le_cancel_left_pos)
  obtain ds where ds: "length ds = nat z" "\<forall>d\<in>set ds. 1 \<le> d \<and> d \<le> ?c" "sum_list ds = n"
    using placement_exists [of "nat z" 1 n ?c] zn c c1 assms by auto
  have "ds \<noteq> []" using ds(1) assms by auto
  then have "Max (set ds) \<le> ?c" using ds(2) by simp
  moreover have "?c \<le> tolerates n"
    using s zn assms sdiv_nonneg [of n 2] sdiv_nonneg [of "n + z - 1" z]
    by (simp add: survives_zone_loss_def tolerates_def)
  moreover have "spread n z ds" using ds assms by (auto simp: spread_def)
  ultimately show "\<exists>ds. spread n z ds \<and> Max (set ds) \<le> tolerates n" by fastforce
next
  assume "\<exists>ds. spread n z ds \<and> Max (set ds) \<le> tolerates n"
  then obtain ds where ds: "spread n z ds" "Max (set ds) \<le> tolerates n" by blast
  have zn: "z \<le> n" using spread_le ds(1) by blast
  have "\<forall>d\<in>set ds. 1 \<le> d \<and> d \<le> Max (set ds)" using ds(1) by (auto simp: spread_def)
  from sum_list_bounds [OF this] have "n \<le> z * Max (set ds)" using ds(1) by (simp add: spread_def)
  then have "(n + z - 1) div z \<le> (Max (set ds) * z + (z - 1)) div z"
    using assms by (intro zdiv_mono1) (auto simp: mult.commute)
  also have "\<dots> = Max (set ds)" using assms by (simp add: div_pos_pos_trivial)
  finally have "(n + z - 1) div z \<le> tolerates n" using ds(2) by simp
  then show "survives_zone_loss n z"
    using zn assms sdiv_nonneg [of n 2] sdiv_nonneg [of "n + z - 1" z]
    by (simp add: survives_zone_loss_def tolerates_def)
qed

text \<open>
  The quorum warning is exact: \<open>quorumZoneLoss\<close> warns, of controllers that must span two zones or
  more, exactly when an allowed count can be placed in an allowed number of zones but no such
  placement keeps a majority through the loss of its largest zone.
\<close>

theorem quorum_zone_loss_exact:
  assumes "wf_ints cnt" "wf_ints zones" "nonneg cnt"
  shows "quorum_zone_loss_warns cnt zones \<longleftrightarrow>
    2 \<le> ints_lo zones \<and>
    (\<exists>n z ds. ints_has cnt n \<and> ints_has zones z \<and> spread n z ds) \<and>
    (\<forall>n z ds. ints_has cnt n \<and> ints_has zones z \<and> spread n z ds \<longrightarrow> tolerates n < Max (set ds))"
proof (cases "2 \<le> ints_lo zones")
  case True
  have z1: "1 \<le> z" if "ints_has zones z" for z using wf_ints_bounds(3) [OF assms(2) that] True by simp
  have paired: "(\<exists>n z. ints_has cnt n \<and> ints_has zones z \<and> z \<le> n) \<longleftrightarrow>
      (\<exists>n z ds. ints_has cnt n \<and> ints_has zones z \<and> spread n z ds)"
    using spread_exists spread_le z1 by blast
  have "(\<exists>n z. ints_has cnt n \<and> ints_has zones z \<and> survives_zone_loss n z) \<longleftrightarrow>
      (\<exists>n z ds. ints_has cnt n \<and> ints_has zones z \<and> spread n z ds \<and> Max (set ds) \<le> tolerates n)"
    using survives_iff z1 by blast
  then show ?thesis using True paired
    unfolding quorum_zone_loss_warns_def Let_def ints_any_iff by (auto simp: not_le not_less)
qed (simp add: quorum_zone_loss_warns_def)

theorem quorum_zone_loss_exact_witness:
  "ints_has (fixed 3) 3 \<and> ints_has (fixed 2) 2 \<and>
   (\<exists>ds. spread 3 2 ds) \<and> \<not> (\<exists>ds. spread 3 2 ds \<and> Max (set ds) \<le> tolerates 3)"
proof -
  have "quorum_zone_loss_warns (fixed 3) (fixed 2)" by code_simp
  then show ?thesis
    using quorum_zone_loss_exact [of "fixed 3" "fixed 2"]
    by (auto simp: wf_ints_def fixed_def nonneg_def ints_has_def not_le)
qed

text \<open>
  The even-quorum warning is exact, and right: \<open>quorumEven\<close> warns exactly when every allowed count
  is even and at least two, and then each allowed count tolerates no more failed controllers than
  one controller fewer would.
\<close>

theorem quorum_even_exact:
  assumes "wf_ints cs"
  shows "(quorum_even_warns cs \<longleftrightarrow> (\<forall>v. ints_has cs v \<longrightarrow> 2 \<le> v \<and> even v)) \<and>
    (quorum_even_warns cs \<longrightarrow> (\<forall>v. ints_has cs v \<longrightarrow> tolerates v = tolerates (v - 1)))"
proof -
  have odd: "ints_any cs (\<lambda>v. v smod 2 = 1) \<longleftrightarrow> (\<exists>v. ints_has cs v \<and> odd v)" if "2 \<le> ints_lo cs"
  proof -
    have "ints_has cs v \<Longrightarrow> v smod 2 = v mod 2" for v
      using wf_ints_bounds(3) [OF assms, of v] that by (auto intro: smod_nonneg)
    then show ?thesis by (auto simp: ints_any_iff odd_iff_mod_2_eq_one)
  qed
  have two: "\<exists>v. ints_has cs v \<and> odd v" if "ints_list cs = None" "ints_lo cs \<noteq> ints_hi cs"
  proof -
    have "ints_has cs (ints_lo cs)" "ints_has cs (ints_lo cs + 1)"
      using assms that by (auto simp: wf_ints_def ints_has_def)
    then show ?thesis by (cases "odd (ints_lo cs)") auto
  qed
  have iff: "quorum_even_warns cs \<longleftrightarrow> (\<forall>v. ints_has cs v \<longrightarrow> 2 \<le> v \<and> even v)"
  proof (cases "2 \<le> ints_lo cs")
    case True
    then show ?thesis
      using odd [OF True] two wf_ints_bounds(3) [OF assms] unfolding quorum_even_warns_def by fastforce
  next
    case False
    then show ?thesis using wf_ints_bounds(1) [OF assms] unfolding quorum_even_warns_def by auto
  qed
  moreover have "tolerates v = tolerates (v - 1)" if "even v" for v
    using that by (auto simp: tolerates_def elim!: evenE)
  ultimately show ?thesis by blast
qed

theorem quorum_even_exact_witness:
  "tolerates 4 = tolerates 3 \<and> quorum_even_warns (fixed 4)"
proof -
  have "quorum_even_warns (fixed 4)" by code_simp
  then show ?thesis
    using quorum_even_exact [of "fixed 4"] by (auto simp: wf_ints_def fixed_def ints_has_def)
qed

end
