(* ===== verification/Incoherence.thy ===== *)
theory Incoherence
  imports PlacementRules
begin

text \<open>
  The semantic passes of \<open>cli/internal/compliance\<close>: the rules a reference declares and the reader's
  checks of their names (\<open>compile.go\<close>), the incoherence engine with its two-pass checks and waivers
  (\<open>rules.go\<close>, \<open>rules_waivers.go\<close>), and the checks of \<open>rules_placement.go\<close> and of
  \<open>rules_language.go\<close> that read no floating-point number. A check is a value of type \<open>check\<close>, as
  in the code; the engine takes the registered checks as an argument. Instants are nanoseconds
  since 1970-01-01T00:00Z. \<open>decode\<close> is what yaml decodes a scalar to (see \<open>json_text\<close>).
\<close>

section \<open>The rules a reference declares\<close>

record rule =
  r_id :: string
  r_node :: ynode
  r_kind :: string

definition role_kinds :: "(string \<times> string) list" where
  "role_kinds =
     [(''count'', ''integer''), (''dedicated'', ''text''),
      (''requests.cpu'', ''quantity''), (''requests.memory'', ''quantity''),
      (''limits.cpu'', ''quantity''), (''limits.memory'', ''quantity''),
      (''storage.type'', ''text''), (''storage.size'', ''quantity''), (''storage.class'', ''text''),
      (''zones'', ''integer''), (''skew'', ''integer''), (''perNode'', ''integer''), (''antiAffinity'', ''text'')]"

definition add_rule :: "string \<Rightarrow> ynode option \<Rightarrow> string \<Rightarrow> rule list" where
  "add_rule i n k = (if present n then [\<lparr>r_id = i, r_node = the n, r_kind = k\<rparr>] else [])"

definition listener_id :: "string \<Rightarrow> string" where
  "listener_id name = ''kafka.listeners.require['' @ name @ '']''"

definition listener_rules :: "ynode \<Rightarrow> rule list" where
  "listener_rules l =
     (case get_key l ''name'' of
        Some (YScalar t name ln cl) \<Rightarrow>
          concat (map (\<lambda>(key, k). add_rule (listener_id name @ ''.'' @ key) (get_key l key) k)
            [(''type'', ''text''), (''port'', ''integer''), (''tls'', ''text''), (''auth'', ''text'')]) @
          [\<lparr>r_id = listener_id name, r_node = l, r_kind = ''listener''\<rparr>]
      | _ \<Rightarrow> [])"

definition role_rules :: "ynode option \<Rightarrow> string \<Rightarrow> rule list" where
  "role_rules spec role =
     concat (map (\<lambda>(path, k). add_rule (role @ ''.'' @ path) (lookup_path (get_opt spec role) path) k)
       (filter (\<lambda>f. \<not> (fst f = ''dedicated'' \<and> role \<noteq> ''controllers'')) role_kinds))"

definition config_rules :: "ynode option \<Rightarrow> rule list" where
  "config_rules config =
     (case config of
        Some (YMap ps l c) \<Rightarrow>
          concat (map (\<lambda>(key, val). add_rule (child_path ''kafka.config'' (node_value key)) (Some val) ''config'') ps)
      | _ \<Rightarrow> [])"

definition declared_rules :: "ynode option \<Rightarrow> rule list" where
  "declared_rules spec =
     (let kafka = get_opt spec ''kafka''; topics = get_opt spec ''topics''; monitoring = get_opt spec ''monitoring''
      in concat (map (\<lambda>v. add_rule (''versions.'' @ v) (lookup_path spec (''versions.'' @ v)) ''version'')
           [''kubernetes'', ''strimzi'', ''kafka'']) @
         concat (map (role_rules spec) [''controllers'', ''brokers'']) @
         add_rule ''kafka.rackAwareness'' (get_opt kafka ''rackAwareness'') ''text'' @
         add_rule ''kafka.authorization'' (get_opt kafka ''authorization'') ''text'' @
         (case lookup_path kafka ''listeners.require'' of
            Some (YSeq ls l c) \<Rightarrow> concat (map listener_rules ls) | _ \<Rightarrow> []) @
         concat (map (\<lambda>p. add_rule (''kafka.listeners.every.'' @ p) (lookup_path kafka (''listeners.every.'' @ p)) ''text'')
           [''type'', ''tls'', ''auth'']) @
         config_rules (get_opt kafka ''config'') @
         concat (map (\<lambda>t. add_rule (''topics.'' @ t) (get_opt topics t) ''integer'')
           [''replicationFactor'', ''minInsyncReplicas'']) @
         concat (map (\<lambda>m. add_rule (''monitoring.'' @ m) (get_opt monitoring m) ''text'')
           [''metrics'', ''kafkaExporter'', ''podMonitor'']))"

definition is_rule_id :: "rule \<Rightarrow> bool" where
  "is_rule_id r \<longleftrightarrow> \<not> sublist ''].'' (r_id r)"

record declared_rule =
  dr_rule_id :: string
  dr_kind :: string
  dr_line :: nat
  dr_col :: nat

definition declared_rule_list :: "ynode \<Rightarrow> declared_rule list" where
  "declared_rule_list root =
     (case get_key root ''spec'' of
        Some (YMap ps l c) \<Rightarrow>
          map (\<lambda>r. \<lparr>dr_rule_id = r_id r, dr_kind = r_kind r, dr_line = yline (r_node r), dr_col = ycol (r_node r)\<rparr>)
            (filter is_rule_id (declared_rules (Some (YMap ps l c))))
      | _ \<Rightarrow> [])"

section \<open>Names of listeners and of waived rules\<close>

definition scalar_text :: "ynode option \<Rightarrow> string option" where
  "scalar_text n = (case n of Some (YScalar t v l c) \<Rightarrow> Some v | _ \<Rightarrow> None)"

fun listener_names_loop :: "nat \<Rightarrow> (string \<times> ynode) list \<Rightarrow> ynode list \<Rightarrow> diagnostic list" where
  "listener_names_loop i seen [] = []"
| "listener_names_loop i seen (l # ls) =
     (case scalar_text (get_key l ''name'') of
        None \<Rightarrow> listener_names_loop (Suc i) seen ls
      | Some name \<Rightarrow>
          (case seen_value name seen of
             Some prev \<Rightarrow>
               (if equal_nodes prev l then []
                else [diag_at (get_key l ''name'') Error ''duplicate-listener''
                        (''spec.kafka.listeners.require['' @ show_nat i @ ''].name'')
                        ''names a listener listed before it, with other properties: keep one'']) @
               listener_names_loop (Suc i) seen ls
           | None \<Rightarrow> listener_names_loop (Suc i) ((name, l) # seen) ls))"

definition listener_names :: "ynode option \<Rightarrow> diagnostic list" where
  "listener_names spec =
     (case lookup_path spec ''kafka.listeners.require'' of
        Some (YSeq ls l c) \<Rightarrow> listener_names_loop 0 [] ls | _ \<Rightarrow> [])"

text \<open>
  \<open>guess\<close> is \<open>closestRule\<close> on the declared ids, in the order the code's map yields them (any), and
  \<open>quote\<close> is fmt's \<open>%q\<close>.
\<close>

fun waiver_loop ::
  "(string \<Rightarrow> string) \<Rightarrow> (string \<Rightarrow> string) \<Rightarrow> string set \<Rightarrow> nat \<Rightarrow> (string \<times> nat) list \<Rightarrow> (nat \<times> ynode) list \<Rightarrow> ynode list \<Rightarrow> diagnostic list" where
  "waiver_loop quote guess declared i seen items [] = []"
| "waiver_loop quote guess declared i seen items (w # ws) =
     (case scalar_text (get_key w ''rule'') of
        None \<Rightarrow> waiver_loop quote guess declared (Suc i) seen ((i, w) # items) ws
      | Some name \<Rightarrow>
          (let p = ''spec.waivers['' @ show_nat i @ ''].rule''; n = get_key w ''rule''
           in case map_of seen name of
                Some j \<Rightarrow>
                  (if equal_nodes (the (map_of items j)) w then []
                   else [diag_at n Error ''duplicate-waiver'' p (''waives the rule spec.waivers['' @ show_nat j @ ''] waives'')]) @
                  waiver_loop quote guess declared (Suc i) seen ((i, w) # items) ws
              | None \<Rightarrow>
                  (if name \<in> declared then []
                   else [diag_at n Error ''unknown-rule'' p
                           (''names no rule this reference declares'' @
                            (if guess name \<noteq> [] then '' (did you mean '' @ quote (guess name) @ ''?)'' else []))]) @
                  waiver_loop quote guess declared (Suc i) ((name, i) # seen) ((i, w) # items) ws))"

definition waiver_checks :: "(string \<Rightarrow> string) \<Rightarrow> (string \<Rightarrow> string) \<Rightarrow> ynode option \<Rightarrow> rule list \<Rightarrow> diagnostic list" where
  "waiver_checks quote guess spec rules =
     (case get_opt spec ''waivers'' of
        Some (YSeq ws l c) \<Rightarrow> waiver_loop quote guess (r_id ` set (filter is_rule_id rules)) 0 [] [] ws
      | _ \<Rightarrow> [])"

section \<open>Dates\<close>

definition leap :: "nat \<Rightarrow> bool" where
  "leap y \<longleftrightarrow> y mod 4 = 0 \<and> (y mod 100 \<noteq> 0 \<or> y mod 400 = 0)"

definition month_days :: "nat \<Rightarrow> nat \<Rightarrow> nat" where
  "month_days y m = (if m = 2 then (if leap y then 29 else 28) else if m \<in> {4, 6, 9, 11} then 30 else 31)"

text \<open>Days from 1970-01-01 to the first of January of a year, and to a date.\<close>

definition year_start :: "nat \<Rightarrow> int" where
  "year_start y =
     (let p = int y - 1 in 365 * (int y - 1970) + (p div 4 - 492) - (p div 100 - 19) + (p div 400 - 4))"

definition day_number :: "nat \<Rightarrow> nat \<Rightarrow> nat \<Rightarrow> int" where
  "day_number y m d = year_start y + int (\<Sum>k\<leftarrow>[1..<m]. month_days y k) + int d - 1"

text \<open>\<open>time.Parse("2006-01-02", t)\<close>: four digits, two, two, naming a day of the calendar.\<close>

definition parse_date :: "string \<Rightarrow> int option" where
  "parse_date t =
     (let y = digits_val (take 4 t); m = digits_val (take 2 (drop 5 t)); d = digits_val (drop 8 t)
      in if length t = 10 \<and> t ! 4 = CHR ''-'' \<and> t ! 7 = CHR ''-'' \<and>
            list_all is_digit (take 4 t @ take 2 (drop 5 t) @ drop 8 t) \<and>
            1 \<le> m \<and> m \<le> 12 \<and> 1 \<le> d \<and> d \<le> month_days y m
         then Some (day_number y m d) else None)"

definition day_ns :: int where
  "day_ns = 86400000000000"

section \<open>The context of a check\<close>

text \<open>A waiver's \<open>until\<close> is a day; \<open>wi_text\<close> is the date as written, which is how it prints.\<close>

record waiver_info =
  wi_index :: nat
  wi_until :: int
  wi_text :: string
  wi_node :: ynode

text \<open>The map \<open>waivers\<close> is kept as an association list in the order the entries were made.\<close>

record lint_ctx =
  cx_spec :: "ynode option"
  cx_now :: int
  cx_rules :: "string \<rightharpoonup> ynode"
  cx_waivers :: "(string \<times> waiver_info) list"
  cx_source :: string
  cx_ignore_tolerated :: bool

definition waiver_active :: "waiver_info \<Rightarrow> int \<Rightarrow> bool" where
  "waiver_active w now \<longleftrightarrow> \<not> wi_until w * day_ns < now"

fun waivers_loop :: "nat \<Rightarrow> (string \<times> waiver_info) list \<Rightarrow> ynode list \<Rightarrow> (string \<times> waiver_info) list" where
  "waivers_loop i acc [] = acc"
| "waivers_loop i acc (w # ws) =
     (case (get_key w ''rule'', get_key w ''until'') of
        (Some r, Some u) \<Rightarrow>
          (case parse_date (node_value u) of
             None \<Rightarrow> waivers_loop (Suc i) acc ws
           | Some d \<Rightarrow>
               waivers_loop (Suc i)
                 (if map_of acc (node_value r) = None
                  then acc @ [(node_value r, \<lparr>wi_index = i, wi_until = d, wi_text = node_value u, wi_node = u\<rparr>)]
                  else acc) ws)
      | _ \<Rightarrow> waivers_loop (Suc i) acc ws)"

definition new_ctx :: "ynode \<Rightarrow> int \<Rightarrow> lint_ctx" where
  "new_ctx spec now =
     \<lparr>cx_spec = Some spec, cx_now = now,
      cx_rules = fold (\<lambda>r m. m(r_id r \<mapsto> r_node r)) (declared_rules (Some spec)) Map.empty,
      cx_waivers = (case get_key spec ''waivers'' of Some (YSeq ws l c) \<Rightarrow> waivers_loop 0 [] ws | _ \<Rightarrow> []),
      cx_source = (case scalar_text (lookup_path (Some spec) ''kafka.source'') of Some s \<Rightarrow> s | None \<Rightarrow> []),
      cx_ignore_tolerated = False\<rparr>"

definition active_waiver :: "lint_ctx \<Rightarrow> string \<Rightarrow> waiver_info option" where
  "active_waiver c i =
     (case map_of (cx_waivers c) i of
        Some w \<Rightarrow> if waiver_active w (cx_now c) then Some w else None
      | None \<Rightarrow> None)"

definition tolerated :: "lint_ctx \<Rightarrow> string \<Rightarrow> bool" where
  "tolerated c i \<longleftrightarrow>
     active_waiver c i \<noteq> None \<or>
     (case get_opt (cx_rules c i) ''severity'' of Some s \<Rightarrow> node_value s = ''warn'' | None \<Rightarrow> False)"

definition ctx_node :: "lint_ctx \<Rightarrow> string \<Rightarrow> ynode option" where
  "ctx_node c i = (if cx_ignore_tolerated c \<and> tolerated c i then None else cx_rules c i)"

definition declares :: "lint_ctx \<Rightarrow> string list \<Rightarrow> bool" where
  "declares c ids \<longleftrightarrow> (\<exists>i\<in>set ids. cx_rules c i \<noteq> None)"

section \<open>The engine\<close>

record finding =
  fd_node :: "ynode option"
  fd_path :: string
  fd_message :: string
  fd_rules :: "string list"

record check =
  ck_code :: string
  ck_severity :: severity
  ck_two_pass :: bool
  ck_run :: "lint_ctx \<Rightarrow> finding list"

definition never_passes :: "lint_ctx \<Rightarrow> string \<Rightarrow> finding \<Rightarrow> string" where
  "never_passes c code f =
     (let how = concat (map (\<lambda>i.
            case active_waiver c i of
              Some w \<Rightarrow> [''spec.'' @ i @ '' is waived until '' @ wi_text w @
                        '', a waiver no change to the cluster can retire'']
            | None \<Rightarrow>
                if tolerated c i then [''spec.'' @ i @ '' has severity warn, so the reference passes only while it warns'']
                else []) (fd_rules f))
      in trim_suffix ''.'' (fd_message f) @ '' ['' @ code @
         '']; it is tolerated, so the check does not fail, but it can never pass: '' @ join_with ''; '' how)"

definition run_check :: "lint_ctx \<Rightarrow> check \<Rightarrow> diagnostic list" where
  "run_check c k =
     (let emit = (\<lambda>f. diag_at (fd_node f) (ck_severity k) (ck_code k) (fd_path f) (fd_message f))
      in if \<not> ck_two_pass k then map emit (ck_run k c)
         else
           let hard = ck_run k (c\<lparr>cx_ignore_tolerated := True\<rparr>);
               soft = filter (\<lambda>f. fd_path f \<notin> fd_path ` set hard) (ck_run k (c\<lparr>cx_ignore_tolerated := False\<rparr>))
           in map emit hard @
              map (\<lambda>f. diag_at (fd_node f) Warning ''rule-never-passes'' (fd_path f)
                         (never_passes (c\<lparr>cx_ignore_tolerated := False\<rparr>) (ck_code k) f)) soft)"

definition incoherence :: "check list \<Rightarrow> ynode \<Rightarrow> int \<Rightarrow> diagnostic list" where
  "incoherence checks root now =
     (case get_key root ''spec'' of
        Some (YMap ps l c) \<Rightarrow> concat (map (run_check (new_ctx (YMap ps l c) now)) checks)
      | _ \<Rightarrow> [])"

text \<open>\<open>Compile\<close> after the parse; \<open>passes\<close> are the diagnostics of the passes before the engine.\<close>

definition compile_tail :: "check list \<Rightarrow> ynode \<Rightarrow> int \<Rightarrow> diagnostic list \<Rightarrow> diagnostic list" where
  "compile_tail checks root now passes =
     sort_diagnostics (if has_errors passes then passes else passes @ incoherence checks root now)"

section \<open>Texts\<close>

text \<open>\<open>textsOf\<close>: None is nil.\<close>

definition texts_of :: "(ynode \<Rightarrow> string option) \<Rightarrow> ynode option \<Rightarrow> string list option" where
  "texts_of decode n =
     (let m = map_option resolve_alias n
      in if \<not> present m then None
         else if is_scalar (the m) then Some [json_text decode (the m)]
         else case get_opt m ''equals'' of
             Some (YScalar t v l c) \<Rightarrow> Some [json_text decode (YScalar t v l c)]
           | _ \<Rightarrow>
             (case get_opt m ''oneOf'' of
                Some (YSeq xs l c) \<Rightarrow>
                  (let ts = map (json_text decode) (filter is_scalar (map resolve_alias xs))
                   in if ts = [] then None else Some ts)
              | _ \<Rightarrow> None))"

definition to_lower :: "char \<Rightarrow> char" where
  "to_lower x = (let n = of_char x :: nat in if 65 \<le> n \<and> n \<le> 90 then char_of (n + 32) else x)"

text \<open>
  \<open>strings.EqualFold\<close> against an ASCII word: besides the ASCII letters, only the long s (bytes C5
  BF) and the Kelvin sign (E2 84 AA) fold to ASCII.
\<close>

fun fold_ascii :: "string \<Rightarrow> string" where
  "fold_ascii (a # b # c # xs) =
     (if a = CHR 0xE2 \<and> b = CHR 0x84 \<and> c = CHR 0xAA then CHR ''k'' # fold_ascii xs
      else if a = CHR 0xC5 \<and> b = CHR 0xBF then CHR ''s'' # fold_ascii (c # xs)
      else to_lower a # fold_ascii (b # c # xs))"
| "fold_ascii [a, b] = (if a = CHR 0xC5 \<and> b = CHR 0xBF then [CHR ''s''] else [to_lower a, to_lower b])"
| "fold_ascii xs = map to_lower xs"

definition equal_fold :: "string \<Rightarrow> string \<Rightarrow> bool" where
  "equal_fold x w \<longleftrightarrow> fold_ascii x = map to_lower w"

definition only :: "(ynode \<Rightarrow> string option) \<Rightarrow> ynode option \<Rightarrow> string \<Rightarrow> bool" where
  "only decode n w =
     (case texts_of decode n of None \<Rightarrow> False | Some vals \<Rightarrow> list_all (\<lambda>x. equal_fold x w) vals \<and> vals \<noteq> [])"

section \<open>The placement checks\<close>

definition roles :: "string list" where
  "roles = [''controllers'', ''brokers'']"

definition spec_finding :: "ynode option \<Rightarrow> string \<Rightarrow> string \<Rightarrow> string list \<Rightarrow> finding" where
  "spec_finding n i msg ids = \<lparr>fd_node = n, fd_path = ''spec.'' @ i, fd_message = msg, fd_rules = ids\<rparr>"

definition zones_unreachable_role :: "(ynode \<Rightarrow> string option) \<Rightarrow> lint_ctx \<Rightarrow> string \<Rightarrow> finding list" where
  "zones_unreachable_role decode c role =
     (let cid = role @ ''.count''; zid = role @ ''.zones''; zn = ctx_node c zid;
          cnt = ints_of decode (ctx_node c cid); zones = ints_of decode zn
      in if zn = None \<or> zones_fit cnt zones then []
         else [spec_finding zn zid
           (''allows '' @ ints_string zones @ '', but spec.'' @ cid @ '' allows '' @ ints_string cnt @
            '': each zone that counts hosts a pod, and with any pod every pod must run in a zone, so no cluster can meet both.'')
           [cid, zid]])"

definition zones_unreachable :: "(ynode \<Rightarrow> string option) \<Rightarrow> lint_ctx \<Rightarrow> finding list" where
  "zones_unreachable decode c = concat (map (zones_unreachable_role decode c) roles)"

definition skew_unreachable_role :: "(ynode \<Rightarrow> string option) \<Rightarrow> lint_ctx \<Rightarrow> string \<Rightarrow> finding list" where
  "skew_unreachable_role decode c role =
     (let cid = role @ ''.count''; zid = role @ ''.zones''; sid = role @ ''.skew''; sn = ctx_node c sid;
          cnt = ints_of decode (ctx_node c cid); zones = ints_of decode (ctx_node c zid); skew = ints_of decode sn
      in if sn = None \<or> \<not> zones_fit cnt zones \<or> skew_fits cnt zones skew then []
         else [spec_finding sn sid
           (''allows '' @ ints_string skew @
            '', but no count and zones this reference allows split with that skew: N pods in Z zones have skew 0 only when Z divides N, and with 2 zones the skew has N'' @ [CHR 0x27] @ ''s parity.'')
           [cid, zid, sid]])"

definition skew_unreachable :: "(ynode \<Rightarrow> string option) \<Rightarrow> lint_ctx \<Rightarrow> finding list" where
  "skew_unreachable decode c = concat (map (skew_unreachable_role decode c) roles)"

definition per_node_role :: "(ynode \<Rightarrow> string option) \<Rightarrow> lint_ctx \<Rightarrow> string \<Rightarrow> finding list" where
  "per_node_role decode c role =
     (let pid = role @ ''.perNode''; cid = role @ ''.count''; zid = role @ ''.zones''; sid = role @ ''.skew'';
          first = find (\<lambda>i. ctx_node c i \<noteq> None) [zid, sid];
          rack = (role = ''brokers'' \<and> cx_source c \<noteq> ''brokers'');
          forcing = (case first of
              Some i \<Rightarrow> i
            | None \<Rightarrow> if rack \<and> only decode (ctx_node c ''kafka.rackAwareness'') ''true'' then ''kafka.rackAwareness'' else []);
          ids = [pid, cid, zid, sid] @ (if rack then [''kafka.rackAwareness''] else []);
          pn = ctx_node c pid;
          cnt = ints_of decode (ctx_node c cid); zones = ints_of decode (ctx_node c zid); per = ints_of decode pn
      in if pn = None \<or> forcing = [] \<or> \<not> zones_fit cnt zones \<or> placeable cnt zones per then []
         else [spec_finding pn pid
           (''allows '' @ ints_string per @ '' on each node that hosts one, but spec.'' @ forcing @
            '' requires every pod to run on a node, and no count of '' @ role @
            '' this reference allows splits that way over enough nodes for its zones.'') ids])"

definition per_node_cannot_place :: "(ynode \<Rightarrow> string option) \<Rightarrow> lint_ctx \<Rightarrow> finding list" where
  "per_node_cannot_place decode c = concat (map (per_node_role decode c) roles)"

definition quorum_even :: "(ynode \<Rightarrow> string option) \<Rightarrow> lint_ctx \<Rightarrow> finding list" where
  "quorum_even decode c =
     (let n = ctx_node c ''controllers.count''; cs = ints_of decode n
      in if n = None \<or> \<not> quorum_even_warns cs then []
         else [spec_finding n ''controllers.count''
           (''is '' @ ints_string cs @ '': a KRaft quorum of an even size tolerates no more failed controllers than one controller fewer, and every commit waits on one more. Use an odd count.'') []])"

definition quorum_zone_loss :: "(ynode \<Rightarrow> string option) \<Rightarrow> lint_ctx \<Rightarrow> finding list" where
  "quorum_zone_loss decode c =
     (let zn = ctx_node c ''controllers.zones''; cnt = ints_of decode (ctx_node c ''controllers.count'');
          zones = ints_of decode zn
      in if zn = None \<or> \<not> quorum_zone_loss_warns cnt zones then []
         else [spec_finding zn ''controllers.zones''
           ''no count of controllers spec.controllers.count allows survives losing a zone: some zone holds ceil(N/Z) of the N controllers, and the rest are short of the N/2+1 a KRaft quorum needs. Use at least 3 zones, with a count they split evenly, such as 3 in 3 or 5 in 3.'' []])"

definition placement_checks :: "(ynode \<Rightarrow> string option) \<Rightarrow> check list" where
  "placement_checks decode =
     [\<lparr>ck_code = ''zones-unreachable'', ck_severity = Error, ck_two_pass = True, ck_run = zones_unreachable decode\<rparr>,
      \<lparr>ck_code = ''skew-unreachable'', ck_severity = Error, ck_two_pass = True, ck_run = skew_unreachable decode\<rparr>,
      \<lparr>ck_code = ''pernode-cannot-place-count'', ck_severity = Error, ck_two_pass = True, ck_run = per_node_cannot_place decode\<rparr>,
      \<lparr>ck_code = ''controller-quorum-even'', ck_severity = Warning, ck_two_pass = False, ck_run = quorum_even decode\<rparr>,
      \<lparr>ck_code = ''controller-quorum-zone-loss'', ck_severity = Warning, ck_two_pass = False, ck_run = quorum_zone_loss decode\<rparr>]"

section \<open>Waivers and the language checks\<close>

definition expired_waivers :: "lint_ctx \<Rightarrow> finding list" where
  "expired_waivers c =
     map (\<lambda>(rl, w). \<lparr>fd_node = Some (wi_node w), fd_path = ''spec.waivers['' @ show_nat (wi_index w) @ ''].until'',
            fd_message = ''the waiver expired on '' @ wi_text w @ '', so '' @ rl @
              '' counts again: renew the date or remove the waiver'', fd_rules = []\<rparr>)
       (filter (\<lambda>(rl, w). \<not> waiver_active w (cx_now c)) (cx_waivers c))"

definition required_listeners :: "lint_ctx \<Rightarrow> string list" where
  "required_listeners c =
     (case lookup_path (cx_spec c) ''kafka.listeners.require'' of
        Some (YSeq ls l cl) \<Rightarrow>
          map listener_id (rev (remdups (rev (List.map_filter (\<lambda>n. scalar_text (get_key n ''name'')) ls))))
      | _ \<Rightarrow> [])"

definition listener_port_below_9092 :: "(ynode \<Rightarrow> string option) \<Rightarrow> lint_ctx \<Rightarrow> finding list" where
  "listener_port_below_9092 decode c =
     concat (map (\<lambda>item.
       let port = get_opt (ctx_node c item) ''port''; ports = ints_of decode port
       in if \<not> present port \<or> 9092 \<le> ints_hi ports then []
          else [spec_finding port (item @ ''.port'')
            (''allows '' @ ints_string ports @ '', but Strimzi'' @ [CHR 0x27] @ ''s Kafka CRD refuses a listener port below 9092, so no cluster can meet it. This is the port inside Kafka, not the one clients reach through a route, ingress, load balancer or node port.'')
            [item]])
       (required_listeners c))"

definition pod_monitor_without_metrics :: "(ynode \<Rightarrow> string option) \<Rightarrow> lint_ctx \<Rightarrow> finding list" where
  "pod_monitor_without_metrics decode c =
     (let pm = ctx_node c ''monitoring.podMonitor''; exporter = ctx_node c ''monitoring.kafkaExporter''
      in if \<not> only decode pm ''true'' \<or> \<not> only decode (ctx_node c ''monitoring.metrics'') ''none'' \<or>
            exporter \<noteq> None \<and> \<not> only decode exporter ''false'' then []
         else [spec_finding pm ''monitoring.podMonitor''
           (''requires a PodMonitor on the broker pods, but spec.monitoring.metrics allows only none and no Kafka Exporter is required, so the PodMonitor has nothing of this cluster'' @ [CHR 0x27] @ ''s to scrape.'') []])"

definition authorization_without_authentication :: "(ynode \<Rightarrow> string option) \<Rightarrow> lint_ctx \<Rightarrow> finding list" where
  "authorization_without_authentication decode c =
     (let n = ctx_node c ''kafka.authorization''; auth = texts_of decode n
      in case auth of
           None \<Rightarrow> []
         | Some as \<Rightarrow>
             if \<not> list_all (\<lambda>a. equal_fold a ''simple'' \<or> equal_fold a ''keycloak'') as \<or>
                \<not> only decode (ctx_node c ''kafka.listeners.every.auth'') ''none'' \<or>
                tolerated c ''kafka.authorization'' \<or> tolerated c ''kafka.listeners.every.auth'' then []
             else [spec_finding n ''kafka.authorization''
               (''requires the '' @ join_with '' or '' as @ '' authorizer, but spec.kafka.listeners.every.auth allows only none: every client on the declared listeners is User:ANONYMOUS, so ACLs cannot tell applications apart.'') []])"

definition config_keys :: "lint_ctx \<Rightarrow> string list" where
  "config_keys c =
     (case lookup_path (cx_spec c) ''kafka.config'' of
        Some (YMap ps l cl) \<Rightarrow> rev (remdups (rev (map (\<lambda>p. node_value (fst p)) ps)))
      | _ \<Rightarrow> [])"

definition setting_without_effect :: "lint_ctx \<Rightarrow> finding list" where
  "setting_without_effect c =
     (case get_opt (cx_spec c) ''zoneLabel'' of
        Some (YScalar t v l cl) \<Rightarrow>
          if v \<noteq> ''topology.kubernetes.io/zone'' \<and>
             \<not> declares c [''controllers.zones'', ''controllers.skew'', ''brokers.zones'', ''brokers.skew'', ''kafka.rackAwareness'']
          then [spec_finding (Some (YScalar t v l cl)) ''zoneLabel''
            (''is '' @ v @ '', but no rule reads it: only zones, skew and kafka.rackAwareness use it. Add the rules you meant, or remove the setting.'') []]
          else []
      | _ \<Rightarrow> []) @
     (if cx_source c = ''brokers'' \<and> config_keys c = [] \<and> \<not> declares c [''kafka.rackAwareness''] then
        [spec_finding (lookup_path (cx_spec c) ''kafka.source'') ''kafka.source''
          ''is brokers, but no rule reads it: only kafka.config and kafka.rackAwareness use it, and authorization and listeners are always read from the Kafka CR. Add the rules you meant, or remove the setting.'' []]
      else [])"

definition ephemeral_single_node :: "(ynode \<Rightarrow> string option) \<Rightarrow> lint_ctx \<Rightarrow> finding list" where
  "ephemeral_single_node decode c =
     concat (map (\<lambda>role.
       let n = ctx_node c (role @ ''.storage.type'')
       in if \<not> only decode n ''ephemeral'' \<or> ints_hi (ints_of decode (ctx_node c (role @ ''.count''))) \<noteq> 1 then []
          else [spec_finding n (role @ ''.storage.type'')
            (''is ephemeral, and spec.'' @ role @ ''.count allows at most one node: any roll, eviction or reschedule of that pod loses all its data, with no replica to recover from. Allow persistent-claim storage, or more than one node.'') []])
       roles)"

definition sensitive_keys :: "string list" where
  "sensitive_keys =
     [''ssl.key.password'', ''ssl.keystore.password'', ''ssl.truststore.password'', ''ssl.keystore.key'',
      ''ssl.keystore.certificate.chain'', ''ssl.truststore.certificates'', ''sasl.jaas.config'', ''password.encoder.secret'',
      ''password.encoder.old.secret'', ''delegation.token.secret.key'', ''delegation.token.master.key'']"

definition sensitive_from_brokers :: "lint_ctx \<Rightarrow> finding list" where
  "sensitive_from_brokers c =
     (if cx_source c \<noteq> ''brokers'' then []
      else concat (map (\<lambda>key.
        let i = child_path ''kafka.config'' key; n = ctx_node c i
        in if n = None \<or> \<not> (\<exists>s\<in>set sensitive_keys. key = s \<or> suffix (''.'' @ s) key) then []
           else [spec_finding n i
             ''with source brokers this key is sensitive, and Kafka never returns its value. The rule is always UNKNOWN or FAIL, so the reference can never pass. Drop the key, and keep secrets out of the reference.'' [i]])
        (config_keys c)))"

section \<open>What the engine promises\<close>

lemma diag_at_fields [simp]:
  "d_severity (diag_at n s c p m) = s" "d_code (diag_at n s c p m) = c" "d_path (diag_at n s c p m) = p"
  "d_message (diag_at n s c p m) = m"
  by (simp_all add: diag_at_def)

lemma has_errors_append [simp]: "has_errors (xs @ ys) \<longleftrightarrow> has_errors xs \<or> has_errors ys"
  by (auto simp: has_errors_def)

lemma has_errors_concat: "has_errors (concat (map f ks)) \<longleftrightarrow> (\<exists>k\<in>set ks. has_errors (f k))"
  by (auto simp: has_errors_def)

lemma has_errors_emit:
  "has_errors (map (\<lambda>f. diag_at (g f) s (h f) (p f) (m f)) fs) \<longleftrightarrow> s = Error \<and> fs \<noteq> []"
  by (cases fs) (auto simp: has_errors_def)

lemma run_check_errors:
  "has_errors (run_check c k) \<longleftrightarrow>
     ck_severity k = Error \<and> ck_run k (if ck_two_pass k then c\<lparr>cx_ignore_tolerated := True\<rparr> else c) \<noteq> []"
  by (simp add: run_check_def Let_def has_errors_emit)

lemma new_ctx_not_ignoring: "(new_ctx spec now)\<lparr>cx_ignore_tolerated := False\<rparr> = new_ctx spec now"
  by (simp add: new_ctx_def)

text \<open>A two-node reference: three brokers must span five zones, and a waiver may say so.\<close>

definition str_node :: "string \<Rightarrow> ynode" where
  "str_node v = YScalar ''!!str'' v 1 1"

definition obj :: "(string \<times> ynode) list \<Rightarrow> ynode" where
  "obj kvs = YMap (map (\<lambda>(k, v). (str_node k, v)) kvs) 1 1"

definition demo_spec :: "ynode list \<Rightarrow> ynode" where
  "demo_spec waivers =
     obj [(''brokers'', obj [(''count'', int_at ''3'' 2), (''zones'', int_at ''5'' 3)]),
          (''waivers'', YSeq waivers 4 1)]"

definition demo_root :: "ynode list \<Rightarrow> ynode" where
  "demo_root waivers = obj [(''spec'', demo_spec waivers)]"

definition demo_waiver :: ynode where
  "demo_waiver = obj [(''rule'', str_node ''brokers.zones''), (''until'', str_node ''2026-12-31'')]"

definition demo_decode :: "ynode \<Rightarrow> string option" where
  "demo_decode n = Some (node_value n)"

lemma demo_spec_map: "get_key (demo_root ws) ''spec'' = Some (demo_spec ws) \<and> is_map (demo_spec ws)"
  by (simp add: demo_root_def demo_spec_def obj_def str_node_def get_key_def is_map_def)



text \<open>
  A two-pass check reports every place it fires on as written or without the tolerated
  constraints, each under one verdict: an error where it still fires with them read as absent, and
  otherwise the warning that the rule never passes.
\<close>

theorem two_pass_verdicts:
  assumes "ck_two_pass k" "ck_severity k = Error"
  shows "d_path ` {d \<in> set (run_check c k). d_severity d = Error} =
      fd_path ` set (ck_run k (c\<lparr>cx_ignore_tolerated := True\<rparr>)) \<and>
    d_path ` {d \<in> set (run_check c k). d_severity d = Warning} =
      fd_path ` set (ck_run k (c\<lparr>cx_ignore_tolerated := False\<rparr>)) -
      fd_path ` set (ck_run k (c\<lparr>cx_ignore_tolerated := True\<rparr>)) \<and>
    (\<forall>d\<in>set (run_check c k). d_severity d = Warning \<longrightarrow> d_code d = ''rule-never-passes'')"
proof -
  let ?h = "ck_run k (c\<lparr>cx_ignore_tolerated := True\<rparr>)" and ?w = "ck_run k (c\<lparr>cx_ignore_tolerated := False\<rparr>)"
  let ?A = "(\<lambda>f. diag_at (fd_node f) Error (ck_code k) (fd_path f) (fd_message f)) ` set ?h"
  let ?B = "(\<lambda>f. diag_at (fd_node f) Warning ''rule-never-passes'' (fd_path f)
         (never_passes (c\<lparr>cx_ignore_tolerated := False\<rparr>) (ck_code k) f)) ` {f \<in> set ?w. fd_path f \<notin> fd_path ` set ?h}"
  have all: "set (run_check c k) = ?A \<union> ?B" using assms by (simp add: run_check_def Let_def)
  have A: "{d \<in> set (run_check c k). d_severity d = Error} = ?A" unfolding all by auto
  have B: "{d \<in> set (run_check c k). d_severity d = Warning} = ?B" unfolding all by auto
  have "d_path ` ?B = fd_path ` {f \<in> set ?w. fd_path f \<notin> fd_path ` set ?h}"
    by (simp add: image_image)
  also have "\<dots> = fd_path ` set ?w - fd_path ` set ?h" by auto
  finally have "d_path ` ?B = \<dots>" .
  moreover have "d_path ` ?A = fd_path ` set ?h" by (simp add: image_image)
  moreover have "d_code d = ''rule-never-passes''" if "d \<in> set (run_check c k)" "d_severity d = Warning" for d
  proof -
    have "d \<in> ?B" using that unfolding B [symmetric] by simp
    then show ?thesis by auto
  qed
  ultimately show ?thesis unfolding A B by (intro conjI ballI impI)
qed

theorem two_pass_verdicts_witness:
  "d_path ` {d \<in> set (run_check (new_ctx (demo_spec [demo_waiver]) 0) (placement_checks demo_decode ! 0)).
     d_severity d = Warning} = {''spec.brokers.zones''}"
proof -
  let ?k = "placement_checks demo_decode ! 0" and ?c = "new_ctx (demo_spec [demo_waiver]) 0"
  have "ck_two_pass ?k" "ck_severity ?k = Error" by (simp_all add: placement_checks_def)
  note v = two_pass_verdicts [OF this, of ?c]
  have "map fd_path (ck_run ?k (?c\<lparr>cx_ignore_tolerated := True\<rparr>)) = []"
    "map fd_path (ck_run ?k (?c\<lparr>cx_ignore_tolerated := False\<rparr>)) = [''spec.brokers.zones'']"
    by code_simp+
  then have "set (map fd_path (ck_run ?k (?c\<lparr>cx_ignore_tolerated := True\<rparr>))) = {}"
    "set (map fd_path (ck_run ?k (?c\<lparr>cx_ignore_tolerated := False\<rparr>))) = {''spec.brokers.zones''}" by simp_all
  then show ?thesis using v by simp
qed

section \<open>Tolerated rules and the last day of a waiver\<close>

lemma tolerated_ignoring [simp]: "tolerated (c\<lparr>cx_ignore_tolerated := b\<rparr>) i = tolerated c i"
  by (simp add: tolerated_def active_waiver_def split: option.splits)

lemma ctx_node_ignoring:
  "ctx_node (c\<lparr>cx_ignore_tolerated := True\<rparr>) i \<noteq> None \<longleftrightarrow> cx_rules c i \<noteq> None \<and> \<not> tolerated c i"
  by (simp add: ctx_node_def)

lemma run_check_error:
  "d \<in> set (run_check c k) \<Longrightarrow> d_severity d = Error \<Longrightarrow> ck_two_pass k \<Longrightarrow>
   \<exists>f\<in>set (ck_run k (c\<lparr>cx_ignore_tolerated := True\<rparr>)). d_path d = fd_path f"
  by (auto simp: run_check_def Let_def)

lemma run_check_severity:
  "d \<in> set (run_check c k) \<Longrightarrow> d_severity d = Error \<Longrightarrow> ck_severity k = Error"
  by (auto simp: run_check_def Let_def split: if_splits)

text \<open>Where a placement check points, and the rule it needs to find there.\<close>

lemma placement_finding:
  "f \<in> set (zones_unreachable decode c) \<Longrightarrow>
     \<exists>role\<in>set roles. fd_path f = ''spec.'' @ role @ ''.zones'' \<and> ctx_node c (role @ ''.zones'') \<noteq> None"
  "f \<in> set (skew_unreachable decode c) \<Longrightarrow>
     \<exists>role\<in>set roles. fd_path f = ''spec.'' @ role @ ''.skew'' \<and> ctx_node c (role @ ''.skew'') \<noteq> None"
  "f \<in> set (per_node_cannot_place decode c) \<Longrightarrow>
     \<exists>role\<in>set roles. fd_path f = ''spec.'' @ role @ ''.perNode'' \<and> ctx_node c (role @ ''.perNode'') \<noteq> None"
  unfolding zones_unreachable_def zones_unreachable_role_def skew_unreachable_def skew_unreachable_role_def
    per_node_cannot_place_def per_node_role_def spec_finding_def Let_def
  by (simp_all only: set_concat set_map UN_iff bex_simps split: if_splits) (force split: if_splits)+

lemma placement_error:
  assumes "k \<in> set (placement_checks decode)" "d \<in> set (run_check c k)" "d_severity d = Error"
  shows "\<exists>role\<in>set roles. \<exists>field\<in>{''.zones'', ''.skew'', ''.perNode''}.
    d_path d = ''spec.'' @ role @ field \<and> cx_rules c (role @ field) \<noteq> None \<and> \<not> tolerated c (role @ field)"
proof -
  have k: "ck_two_pass k \<and> ck_run k \<in> {zones_unreachable decode, skew_unreachable decode, per_node_cannot_place decode}"
    using assms(1) run_check_severity [OF assms(2,3)] by (auto simp: placement_checks_def)
  then obtain f where f: "f \<in> set (ck_run k (c\<lparr>cx_ignore_tolerated := True\<rparr>))" "d_path d = fd_path f"
    using run_check_error [OF assms(2,3)] by blast
  then show ?thesis
    using k placement_finding [of f decode "c\<lparr>cx_ignore_tolerated := True\<rparr>"] unfolding ctx_node_ignoring
    by (elim conjE insertE emptyE) (simp_all, blast+)
qed

text \<open>
  A placement rule that the reference tolerates never fails it: every error of the placement
  checks points at a \<open>zones\<close>, \<open>skew\<close> or \<open>perNode\<close> rule that the reference declares, without
  severity warn and without a waiver active at the lint time.
\<close>

theorem placement_errors_binding:
  assumes "get_key root ''spec'' = Some spec" "is_map spec"
    "d \<in> set (incoherence (placement_checks decode) root now)" "d_severity d = Error"
  shows "\<exists>role\<in>set roles. \<exists>field\<in>{''.zones'', ''.skew'', ''.perNode''}.
    d_path d = ''spec.'' @ role @ field \<and> cx_rules (new_ctx spec now) (role @ field) \<noteq> None \<and>
    \<not> tolerated (new_ctx spec now) (role @ field)"
proof -
  obtain ps l c where spec: "spec = YMap ps l c" using assms(2) by (cases spec) (auto simp: is_map_def)
  then obtain k where "k \<in> set (placement_checks decode)" "d \<in> set (run_check (new_ctx spec now) k)"
    using assms(1,3) by (auto simp: incoherence_def)
  then show ?thesis using placement_error assms(4) by blast
qed

theorem placement_errors_binding_witness:
  "\<exists>role\<in>set roles. \<exists>field\<in>{''.zones'', ''.skew'', ''.perNode''}.
     cx_rules (new_ctx (demo_spec []) 0) (role @ field) \<noteq> None \<and> \<not> tolerated (new_ctx (demo_spec []) 0) (role @ field)"
proof -
  have "has_errors (incoherence (placement_checks demo_decode) (demo_root []) 0)"
    by code_simp
  then obtain d where "d \<in> set (incoherence (placement_checks demo_decode) (demo_root []) 0)" "d_severity d = Error"
    by (auto simp: has_errors_def)
  then show ?thesis using placement_errors_binding [of "demo_root []" "demo_spec []"] demo_spec_map by blast
qed

lemma waiver_active_iff: "waiver_active w now \<longleftrightarrow> now \<le> wi_until w * day_ns"
  by (auto simp: waiver_active_def)

text \<open>
  \<open>until\<close> is meant to be inclusive, but the lint compares it with the time of day: a waiver is
  active up to the first instant of its last day and at no other instant of it.
\<close>

theorem waiver_last_day:
  assumes "0 \<le> t" "t < day_ns"
  shows "waiver_active w (wi_until w * day_ns + t) \<longleftrightarrow> t = 0"
  using assms by (auto simp: waiver_active_iff)

theorem waiver_last_day_witness:
  "parse_date ''2026-12-31'' = Some 20818 \<and>
   \<not> waiver_active \<lparr>wi_index = 0, wi_until = 20818, wi_text = ''2026-12-31'', wi_node = str_node ''2026-12-31''\<rparr>
       (20818 * day_ns + 3600000000000)"
proof -
  let ?w = "\<lparr>wi_index = 0, wi_until = 20818, wi_text = ''2026-12-31'', wi_node = str_node ''2026-12-31''\<rparr>"
  have "parse_date ''2026-12-31'' = Some 20818" by code_simp
  moreover have "\<not> waiver_active ?w (wi_until ?w * day_ns + 3600000000000)"
    using waiver_last_day [of 3600000000000 ?w] by (simp add: day_ns_def)
  ultimately show ?thesis by simp
qed

end
