(* ===== verification/Untrusted.thy ===== *)
theory Untrusted
  imports Kates_Prelude
begin

text \<open>
  How the MCP server makes third-party text safe to show a model (\<open>cli/cmd/mcp_untrusted.go\<close>, and
  \<open>mcpCheckText\<close> of \<open>cli/cmd/mcp_guard.go\<close>): the state machine \<open>mcpStripper\<close> that removes
  terminal escape sequences and invisible characters, the cap with its marker, the fences around
  the cleaned text, and the guard's last look at every string it sends.

  Text is a list of runes (code points, as \<^typ>\<open>nat\<close>); \<open>decode_text\<close> reads bytes as Go's
  utf8.DecodeRuneInString does, a run of invalid bytes giving one U+FFFD.
\<close>

type_synonym rune = nat

definition ascii :: "string \<Rightarrow> rune list" where
  "ascii s = map of_char s"

section \<open>Characters\<close>

definition is_cc :: "rune \<Rightarrow> bool" where
  "is_cc r \<longleftrightarrow> r \<le> 0x1f \<or> 0x7f \<le> r \<and> r \<le> 0x9f"

text \<open>The ranges of \<open>unicode.Cf\<close>, the format characters of Unicode 15.\<close>

definition cf_ranges :: "(rune \<times> rune) list" where
  "cf_ranges =
     [(0xad, 0xad), (0x600, 0x605), (0x61c, 0x61c), (0x6dd, 0x6dd), (0x70f, 0x70f), (0x890, 0x891), (0x8e2, 0x8e2),
      (0x180e, 0x180e), (0x200b, 0x200f), (0x202a, 0x202e), (0x2060, 0x2064), (0x2066, 0x206f), (0xfeff, 0xfeff),
      (0xfff9, 0xfffb), (0x110bd, 0x110bd), (0x110cd, 0x110cd), (0x13430, 0x1343f), (0x1bca0, 0x1bca3),
      (0x1d173, 0x1d17a), (0xe0001, 0xe0001), (0xe0020, 0xe007f)]"

definition is_cf :: "rune \<Rightarrow> bool" where
  "is_cf r \<longleftrightarrow> list_ex (\<lambda>(lo, hi). lo \<le> r \<and> r \<le> hi) cf_ranges"

definition is_variation_selector :: "rune \<Rightarrow> bool" where
  "is_variation_selector r \<longleftrightarrow> 0xfe00 \<le> r \<and> r \<le> 0xfe0f \<or> 0xe0100 \<le> r \<and> r \<le> 0xe01ef"

text \<open>What may not reach a model: the branch of \<open>mcpCheckText\<close> that reports a rune.\<close>

definition unclean :: "rune \<Rightarrow> bool" where
  "unclean r \<longleftrightarrow> r \<noteq> 10 \<and> r \<noteq> 9 \<and>
     (r = 0xab \<or> r = 0xbb \<or> r = 0x2028 \<or> r = 0x2029 \<or> is_cc r \<or> is_cf r \<or> is_variation_selector r)"

lemmas unclean_simps = unclean_def is_cc_def is_cf_def cf_ranges_def is_variation_selector_def

section \<open>Decoding bytes\<close>

definition cont_byte :: "nat \<Rightarrow> bool" where
  "cont_byte b \<longleftrightarrow> 0x80 \<le> b \<and> b \<le> 0xbf"

text \<open>The rune at the head of the bytes and how many bytes it takes; None at an invalid byte.\<close>

fun decode_rune :: "nat list \<Rightarrow> (rune \<times> nat) option" where
  "decode_rune [] = None"
| "decode_rune (a # bs) =
     (if a < 0x80 then Some (a, 1)
      else if 0xc2 \<le> a \<and> a \<le> 0xdf then
        (case bs of b # _ \<Rightarrow> if cont_byte b then Some ((a - 0xc0) * 64 + (b - 0x80), 2) else None | [] \<Rightarrow> None)
      else if 0xe0 \<le> a \<and> a \<le> 0xef then
        (case bs of b # c # _ \<Rightarrow>
           if (if a = 0xe0 then 0xa0 else 0x80) \<le> b \<and> b \<le> (if a = 0xed then 0x9f else 0xbf) \<and> cont_byte c
           then Some ((a - 0xe0) * 4096 + (b - 0x80) * 64 + (c - 0x80), 3) else None
         | _ \<Rightarrow> None)
      else if 0xf0 \<le> a \<and> a \<le> 0xf4 then
        (case bs of b # c # d # _ \<Rightarrow>
           if (if a = 0xf0 then 0x90 else 0x80) \<le> b \<and> b \<le> (if a = 0xf4 then 0x8f else 0xbf) \<and> cont_byte c \<and> cont_byte d
           then Some ((a - 0xf0) * 262144 + (b - 0x80) * 4096 + (c - 0x80) * 64 + (d - 0x80), 4) else None
         | _ \<Rightarrow> None)
      else None)"

lemma decode_rune_width: "decode_rune bs = Some (r, n) \<Longrightarrow> 0 < n"
  by (cases bs) (auto split: if_splits list.splits)

text \<open>\<open>bad\<close>: the byte before was invalid, so an invalid byte here joins its U+FFFD.\<close>

function decode_bytes :: "bool \<Rightarrow> nat list \<Rightarrow> rune list" where
  "decode_bytes bad [] = []"
| "decode_bytes bad (b # bs) =
     (case decode_rune (b # bs) of
        Some (r, n) \<Rightarrow> r # decode_bytes False (drop n (b # bs))
      | None \<Rightarrow> if bad then decode_bytes True bs else 0xfffd # decode_bytes True bs)"
  by pat_completeness auto
termination
  by (relation "measure (length \<circ> snd)") (auto simp del: decode_rune.simps dest: decode_rune_width)

definition decode_text :: "nat list \<Rightarrow> rune list" where
  "decode_text bs = decode_bytes False bs"

section \<open>The stripper\<close>

datatype esc = EscNone | EscStart | EscInter | EscCSI | EscStr | EscStrST

record stripper =
  st_out :: "rune list"
  st_state :: esc
  st_max :: int
  st_kept :: nat
  st_dropped :: nat

definition strip_emit :: "rune \<Rightarrow> stripper \<Rightarrow> stripper" where
  "strip_emit r st =
     (if 0 < st_max st \<and> st_max st \<le> int (st_kept st) then st\<lparr>st_dropped := st_dropped st + 1\<rparr>
      else st\<lparr>st_out := st_out st @ [r], st_kept := st_kept st + 1\<rparr>)"

definition strip_text :: "rune \<Rightarrow> stripper \<Rightarrow> stripper" where
  "strip_text r st =
     (if r = 0x1b then st\<lparr>st_state := EscStart\<rparr>
      else if r = 0x9b then st\<lparr>st_state := EscCSI\<rparr>
      else if r = 0x9d \<or> r = 0x90 \<or> r = 0x98 \<or> r = 0x9e \<or> r = 0x9f then st\<lparr>st_state := EscStr\<rparr>
      else if r = 13 \<or> r = 0x85 \<or> r = 0x2028 \<or> r = 0x2029 then strip_emit 10 st
      else if r = 10 \<or> r = 9 then strip_emit r st
      else if r = 0xab then strip_emit 0x2039 st
      else if r = 0xbb then strip_emit 0x203a st
      else if is_cc r \<or> is_cf r \<or> is_variation_selector r then st
      else strip_emit r st)"

text \<open>The second component: the rune was consumed, not to be read again as text.\<close>

definition strip_escape :: "rune \<Rightarrow> stripper \<Rightarrow> stripper \<times> bool" where
  "strip_escape r st =
     (if r = 0x5b then (st\<lparr>st_state := EscCSI\<rparr>, True)
      else if r = 0x5d \<or> r = 0x50 \<or> r = 0x58 \<or> r = 0x5e \<or> r = 0x5f then (st\<lparr>st_state := EscStr\<rparr>, True)
      else if 0x20 \<le> r \<and> r \<le> 0x2f then (st\<lparr>st_state := EscInter\<rparr>, True)
      else if 0x30 \<le> r \<and> r \<le> 0x7e then (st\<lparr>st_state := EscNone\<rparr>, True)
      else if r = 0x1b then (st, True)
      else (st\<lparr>st_state := EscNone\<rparr>, False))"

definition strip_step :: "rune \<Rightarrow> stripper \<Rightarrow> stripper \<times> bool" where
  "strip_step r st =
     (case st_state st of
        EscStart \<Rightarrow> strip_escape r st
      | EscInter \<Rightarrow>
          if 0x20 \<le> r \<and> r \<le> 0x2f then (st, True)
          else if 0x30 \<le> r \<and> r \<le> 0x7e then (st\<lparr>st_state := EscNone\<rparr>, True)
          else (st\<lparr>st_state := EscNone\<rparr>, False)
      | EscCSI \<Rightarrow>
          if 0x20 \<le> r \<and> r \<le> 0x3f then (st, True)
          else if 0x40 \<le> r \<and> r \<le> 0x7e then (st\<lparr>st_state := EscNone\<rparr>, True)
          else (st\<lparr>st_state := EscNone\<rparr>, False)
      | EscStr \<Rightarrow>
          if r = 0x07 \<or> r = 0x9c then (st\<lparr>st_state := EscNone\<rparr>, True)
          else if r = 0x1b then (st\<lparr>st_state := EscStrST\<rparr>, True)
          else (st, True)
      | EscStrST \<Rightarrow>
          if r \<noteq> 0x5c then (st\<lparr>st_state := EscStart\<rparr>, False) else (st\<lparr>st_state := EscNone\<rparr>, True)
      | EscNone \<Rightarrow> (strip_text r st, True))"

text \<open>How often a rune can be read again in a state: the measure of the loop.\<close>

fun esc_rank :: "esc \<Rightarrow> nat" where
  "esc_rank EscNone = 0"
| "esc_rank EscStr = 0"
| "esc_rank EscStrST = 2"
| "esc_rank _ = 1"

lemma strip_step_unconsumed: "\<not> snd (strip_step r st) \<Longrightarrow> esc_rank (st_state (fst (strip_step r st))) < esc_rank (st_state st)"
  by (cases "st_state st") (auto simp: strip_step_def strip_escape_def split: if_splits)

function sanitize_loop :: "rune list \<Rightarrow> stripper \<Rightarrow> stripper" where
  "sanitize_loop [] st = st"
| "sanitize_loop (r # rs) st =
     (if st_state st = EscNone \<and> r = 13 \<and> rs \<noteq> [] \<and> hd rs = 10 then sanitize_loop rs st
      else if snd (strip_step r st) then sanitize_loop rs (fst (strip_step r st))
      else sanitize_loop (r # rs) (fst (strip_step r st)))"
  by pat_completeness auto
termination
  by (relation "inv_image (less_than <*lex*> less_than) (\<lambda>(rs, st). (length rs, esc_rank (st_state st)))")
    (auto simp: strip_step_unconsumed)

definition new_stripper :: "int \<Rightarrow> stripper" where
  "new_stripper m = \<lparr>st_out = [], st_state = EscNone, st_max = m, st_kept = 0, st_dropped = 0\<rparr>"

lemma new_stripper_simps [simp]:
  "st_out (new_stripper m) = []" "st_state (new_stripper m) = EscNone" "st_max (new_stripper m) = m"
  "st_kept (new_stripper m) = 0" "st_dropped (new_stripper m) = 0"
  by (simp_all add: new_stripper_def)

definition cut_marker :: "nat \<Rightarrow> rune list" where
  "cut_marker n = 0x2026 # ascii (CHR ''['' # show_nat n @ '' more characters]'')"

definition sanitize_runes :: "rune list \<Rightarrow> int \<Rightarrow> rune list" where
  "sanitize_runes rs m =
     (let st = sanitize_loop rs (new_stripper m)
      in if 0 < st_dropped st then st_out st @ cut_marker (st_dropped st) else st_out st)"

definition mcp_sanitize :: "nat list \<Rightarrow> int \<Rightarrow> rune list" where
  "mcp_sanitize bs m = sanitize_runes (decode_text bs) m"

definition mcp_sanitize_line :: "nat list \<Rightarrow> int \<Rightarrow> rune list" where
  "mcp_sanitize_line bs m = map (\<lambda>r. if r = 10 \<or> r = 9 then 32 else r) (mcp_sanitize bs m)"

section \<open>Fences\<close>

definition fence_open :: "rune list \<Rightarrow> rune list" where
  "fence_open nonce = 0xab # ascii ''untrusted:'' @ nonce @ [0xbb]"

definition fence_close :: "rune list \<Rightarrow> rune list" where
  "fence_close nonce = 0xab # ascii ''/untrusted:'' @ nonce @ [0xbb]"

definition mcp_fence :: "rune list \<Rightarrow> nat list \<Rightarrow> int \<Rightarrow> rune list" where
  "mcp_fence nonce bs m =
     (let clean = mcp_sanitize bs m
      in if clean = [] then [] else fence_open nonce @ clean @ fence_close nonce)"

definition mcp_is_fence :: "rune list \<Rightarrow> rune list \<Rightarrow> bool" where
  "mcp_is_fence nonce s \<longleftrightarrow>
     s = [] \<or>
     prefix (fence_open nonce) s \<and>
     (let rest = drop (length (fence_open nonce)) s
      in suffix (fence_close nonce) rest \<and>
         (let inner = take (length rest - length (fence_close nonce)) rest
          in inner \<noteq> [] \<and> 0xab \<notin> set inner \<and> 0xbb \<notin> set inner))"

text \<open>
  \<open>strings.NewReplacer(open, "", close, "").Replace\<close>: from left to right, neither marker being a
  prefix of the other.
\<close>

function remove_markers :: "rune list \<Rightarrow> rune list \<Rightarrow> rune list" where
  "remove_markers nonce [] = []"
| "remove_markers nonce (r # rs) =
     (if prefix (fence_open nonce) (r # rs) then remove_markers nonce (drop (length (fence_open nonce)) (r # rs))
      else if prefix (fence_close nonce) (r # rs) then remove_markers nonce (drop (length (fence_close nonce)) (r # rs))
      else r # remove_markers nonce rs)"
  by pat_completeness auto
termination
  by (relation "measure (length \<circ> snd)") (auto simp: fence_open_def fence_close_def)

text \<open>\<open>mcpCheckText\<close>: the rune it reports, if any.\<close>

definition mcp_check_text :: "rune list \<Rightarrow> rune list \<Rightarrow> rune option" where
  "mcp_check_text nonce s =
     find unclean (if 0xab \<in> set s \<or> 0xbb \<in> set s then remove_markers nonce s else s)"

section \<open>What the stripper writes\<close>

text \<open>
  \<open>scan e rs\<close> is everything the stripper would write for \<open>rs\<close> from state \<open>e\<close> without a cap. A step's
  output does not depend on what is kept, so each loop is \<open>scan\<close> passed through \<open>strip_emit\<close>.
\<close>

definition blank :: "esc \<Rightarrow> stripper" where
  "blank e = \<lparr>st_out = [], st_state = e, st_max = 0, st_kept = 0, st_dropped = 0\<rparr>"

lemma blank_simps [simp]:
  "st_state (blank e) = e" "st_out (blank e) = []" "st_out (strip_emit r (blank e)) = [r]"
  by (simp_all add: blank_def strip_emit_def)

definition step_to :: "esc \<Rightarrow> rune \<Rightarrow> esc" where
  "step_to e r = st_state (fst (strip_step r (blank e)))"

definition step_out :: "esc \<Rightarrow> rune \<Rightarrow> rune list" where
  "step_out e r = st_out (fst (strip_step r (blank e)))"

definition step_takes :: "esc \<Rightarrow> rune \<Rightarrow> bool" where
  "step_takes e r = snd (strip_step r (blank e))"

lemma step_takes_rank: "\<not> step_takes e r \<Longrightarrow> esc_rank (step_to e r) < esc_rank e"
  using strip_step_unconsumed [of r "blank e"] by (simp add: step_takes_def step_to_def)

function scan :: "esc \<Rightarrow> rune list \<Rightarrow> rune list" where
  "scan e [] = []"
| "scan e (r # rs) =
     (if e = EscNone \<and> r = 13 \<and> rs \<noteq> [] \<and> hd rs = 10 then scan e rs
      else if step_takes e r then step_out e r @ scan (step_to e r) rs
      else scan (step_to e r) (r # rs))"
  by pat_completeness auto
termination
  by (relation "inv_image (less_than <*lex*> less_than) (\<lambda>(e, rs). (length rs, esc_rank e))")
    (auto simp: step_takes_rank)

lemma strip_emit_state [simp]:
  "strip_emit r (st\<lparr>st_state := e\<rparr>) = (strip_emit r st)\<lparr>st_state := e\<rparr>"
  "st_state (strip_emit r st) = st_state st"
  by (simp_all add: strip_emit_def)

lemma emits_state [simp]:
  "fold strip_emit rs (st\<lparr>st_state := e\<rparr>) = (fold strip_emit rs st)\<lparr>st_state := e\<rparr>"
  "st_state (fold strip_emit rs st) = st_state st"
  by (induction rs arbitrary: st) simp_all

lemma same_state [simp]: "st\<lparr>st_state := st_state st\<rparr> = (st :: stripper)"
  by (cases st) simp

lemmas step_parts = step_to_def step_out_def step_takes_def

lemma strip_step_parts:
  "strip_step r st =
     ((fold strip_emit (step_out (st_state st) r) st)\<lparr>st_state := step_to (st_state st) r\<rparr>, step_takes (st_state st) r)"
proof (cases "st_state st")
  case EscNone
  then have s: "st\<lparr>st_state := EscNone\<rparr> = st" "(strip_emit x st)\<lparr>st_state := EscNone\<rparr> = strip_emit x st" for x
    using same_state [of st] same_state [of "strip_emit x st"] by simp_all
  show ?thesis
    using EscNone s by (simp add: strip_step_def strip_text_def step_parts)
next
  case EscStart
  then have "st\<lparr>st_state := EscStart\<rparr> = st" using same_state [of st] by simp
  then show ?thesis using EscStart by (simp add: strip_step_def strip_escape_def step_parts)
next
  case EscInter
  then have "st\<lparr>st_state := EscInter\<rparr> = st" using same_state [of st] by simp
  then show ?thesis using EscInter by (simp add: strip_step_def step_parts)
next
  case EscCSI
  then have "st\<lparr>st_state := EscCSI\<rparr> = st" using same_state [of st] by simp
  then show ?thesis using EscCSI by (simp add: strip_step_def step_parts)
next
  case EscStr
  then have "st\<lparr>st_state := EscStr\<rparr> = st" using same_state [of st] by simp
  then show ?thesis using EscStr by (simp add: strip_step_def step_parts)
next
  case EscStrST
  then show ?thesis by (simp add: strip_step_def step_parts)
qed

lemma step_out_unconsumed: "\<not> step_takes e r \<Longrightarrow> step_out e r = []"
  by (cases e) (auto simp: step_parts strip_step_def strip_escape_def split: if_splits)

declare sanitize_loop.simps(2) [simp del] scan.simps(2) [simp del]

lemma sanitize_loop_scan:
  "\<exists>e. sanitize_loop rs st = (fold strip_emit (scan (st_state st) rs) st)\<lparr>st_state := e\<rparr>"
proof (induction rs st rule: sanitize_loop.induct)
  case (1 st)
  show ?case by (simp, rule exI [of _ "st_state st"], simp)
next
  case (2 r rs st)
  let ?crlf = "st_state st = EscNone \<and> r = 13 \<and> rs \<noteq> [] \<and> hd rs = 10"
  show ?case
  proof (cases ?crlf)
    case True
    then show ?thesis using "2.IH"(1) by (simp add: sanitize_loop.simps(2) scan.simps(2))
  next
    case no: False
    show ?thesis
    proof (cases "snd (strip_step r st)")
      case True
      have "sanitize_loop (r # rs) st = sanitize_loop rs (fst (strip_step r st))"
        "scan (st_state st) (r # rs) = step_out (st_state st) r @ scan (step_to (st_state st) r) rs"
        using no True unfolding sanitize_loop.simps(2) [of r rs st] scan.simps(2) [of "st_state st" r rs]
        by (auto simp: strip_step_parts)
      then show ?thesis using "2.IH"(2) [OF no True] by (simp add: strip_step_parts)
    next
      case False
      have "sanitize_loop (r # rs) st = sanitize_loop (r # rs) (fst (strip_step r st))"
        "scan (st_state st) (r # rs) = scan (step_to (st_state st) r) (r # rs)"
        using no False unfolding sanitize_loop.simps(2) [of r rs st] scan.simps(2) [of "st_state st" r rs]
        by (auto simp: strip_step_parts)
      then show ?thesis
        using "2.IH"(3) [OF no False] False by (simp add: strip_step_parts step_out_unconsumed)
    qed
  qed
qed

lemma emits_uncapped:
  "st_max st \<le> 0 \<Longrightarrow> st_out (fold strip_emit xs st) = st_out st @ xs \<and> st_dropped (fold strip_emit xs st) = st_dropped st"
proof (induction xs arbitrary: st)
  case (Cons x xs)
  then show ?case using Cons.IH [of "strip_emit x st"] by (simp add: strip_emit_def)
qed simp

lemma emits_capped:
  "0 < st_max st \<Longrightarrow> int (st_kept st) \<le> st_max st \<Longrightarrow>
   st_out (fold strip_emit xs st) = st_out st @ take (nat (st_max st) - st_kept st) xs \<and>
   st_dropped (fold strip_emit xs st) = st_dropped st + (length xs - (nat (st_max st) - st_kept st))"
proof (induction xs arbitrary: st)
  case (Cons x xs)
  show ?case
  proof (cases "st_max st \<le> int (st_kept st)")
    case True
    then show ?thesis using Cons.IH [of "strip_emit x st"] Cons.prems by (simp add: strip_emit_def)
  next
    case False
    then have "nat (st_max st) - st_kept st = Suc (nat (st_max st) - Suc (st_kept st))" using Cons.prems by linarith
    then show ?thesis using False Cons.IH [of "strip_emit x st"] Cons.prems by (simp add: strip_emit_def)
  qed
qed simp

lemma sanitize_runes_scan:
  "sanitize_runes rs m =
     (let c = scan EscNone rs
      in if 0 < m \<and> nat m < length c then take (nat m) c @ cut_marker (length c - nat m) else c)"
proof -
  obtain e where e: "sanitize_loop rs (new_stripper m) = (fold strip_emit (scan EscNone rs) (new_stripper m))\<lparr>st_state := e\<rparr>"
    using sanitize_loop_scan [of rs "new_stripper m"] by auto
  show ?thesis
  proof (cases "0 < m")
    case True
    then show ?thesis
      using emits_capped [of "new_stripper m" "scan EscNone rs"] by (simp add: sanitize_runes_def e Let_def)
  next
    case False
    then show ?thesis
      using emits_uncapped [of "new_stripper m" "scan EscNone rs"] by (simp add: sanitize_runes_def e Let_def)
  qed
qed

lemma sanitize_runes_0: "sanitize_runes rs 0 = scan EscNone rs"
  by (simp add: sanitize_runes_scan Let_def)

section \<open>Clean text\<close>

lemma step_text:
  "step_takes EscNone r"
  "\<not> unclean r \<Longrightarrow> step_out EscNone r = [r]" "\<not> unclean r \<Longrightarrow> step_to EscNone r = EscNone"
  by (auto simp: step_parts strip_step_def strip_text_def unclean_def is_cc_def split: if_splits)

lemma lookalikes_clean: "\<not> unclean 10" "\<not> unclean 9" "\<not> unclean 0x2039" "\<not> unclean 0x203a"
  by (simp_all add: unclean_simps)

lemma step_out_clean: "x \<in> set (step_out e r) \<Longrightarrow> \<not> unclean x"
proof (cases e)
  case EscNone
  assume "x \<in> set (step_out e r)"
  then show ?thesis using EscNone lookalikes_clean
    by (auto simp: step_parts strip_step_def strip_text_def split: if_splits) (simp add: unclean_def)
qed (auto simp: step_parts strip_step_def strip_escape_def split: if_splits)

lemma scan_clean: "x \<in> set (scan e rs) \<Longrightarrow> \<not> unclean x"
proof (induction e rs rule: scan.induct)
  case (2 e r rs)
  let ?crlf = "e = EscNone \<and> r = 13 \<and> rs \<noteq> [] \<and> hd rs = 10"
  consider (crlf) "?crlf" | (taken) "\<not> ?crlf" "step_takes e r" | (again) "\<not> ?crlf" "\<not> step_takes e r" by blast
  then show ?case
  proof cases
    case crlf
    then show ?thesis using "2.IH"(1) "2.prems" unfolding scan.simps(2) [of e r rs] by simp
  next
    case taken
    then show ?thesis using "2.IH"(2) [OF taken] "2.prems" step_out_clean unfolding scan.simps(2) [of e r rs] by auto
  next
    case again
    then show ?thesis using "2.IH"(3) [OF again] "2.prems" unfolding scan.simps(2) [of e r rs] by auto
  qed
qed simp

lemma scan_append_clean:
  "list_all (\<lambda>r. \<not> unclean r) pre \<Longrightarrow> scan EscNone (pre @ rest) = pre @ scan EscNone rest"
proof (induction pre)
  case (Cons r pre)
  then have "r \<noteq> 13" by (auto simp: unclean_def is_cc_def)
  then show ?case using Cons by (simp add: scan.simps(2) step_text)
qed simp

lemma ascii_append [simp]: "ascii (x @ y) = ascii x @ ascii y"
  by (simp add: ascii_def)

lemma ascii_Cons [simp]: "ascii (c # x) = of_char c # ascii x"
  by (simp add: ascii_def)

lemma ascii_Nil [simp]: "ascii [] = []"
  by (simp add: ascii_def)

lemma plain_clean: "32 \<le> r \<Longrightarrow> r < 127 \<Longrightarrow> \<not> unclean r"
  by (auto simp: unclean_simps)

lemma digits_clean: "list_all (\<lambda>r. \<not> unclean r) (ascii (show_nat n))"
proof -
  have "\<not> unclean (of_char c)" if "c \<in> set (show_nat n)" for c
    using show_nat_digits [OF that] by (intro plain_clean) (simp_all add: is_digit_def)
  then show ?thesis by (simp add: list_all_iff ascii_def)
qed

lemma cut_marker_clean: "list_all (\<lambda>r. \<not> unclean r) (cut_marker n)"
proof -
  have "\<not> unclean 0x2026" "\<not> unclean (of_char CHR ''['')" by (simp_all add: unclean_simps)
  moreover have "list_all (\<lambda>r. \<not> unclean r) (ascii '' more characters]'')" by (simp add: plain_clean)
  ultimately show ?thesis
    unfolding cut_marker_def ascii_Cons ascii_append list.pred_inject(2) list_all_append using digits_clean [of n] by blast
qed

lemma sanitize_runes_clean: "list_all (\<lambda>r. \<not> unclean r) (sanitize_runes rs m)"
  using cut_marker_clean scan_clean
  by (auto simp: sanitize_runes_scan Let_def list_all_iff dest: in_set_takeD)

subsection \<open>Escape sequences\<close>

text \<open>
  ECMA-48 as terminals read it: a control sequence (CSI, parameters, a final byte), a control
  string (OSC, DCS, SOS, PM or APC up to BEL or ST), an escape with intermediate bytes, and the
  two-byte escapes.
\<close>

inductive escape_sequence :: "rune list \<Rightarrow> bool" where
  csi: "intro \<in> {[0x1b, 0x5b], [0x9b]} \<Longrightarrow> list_all (\<lambda>r. 0x20 \<le> r \<and> r \<le> 0x3f) ps \<Longrightarrow> 0x40 \<le> f \<Longrightarrow> f \<le> 0x7e \<Longrightarrow>
    escape_sequence (intro @ ps @ [f])"
| control_string: "intro \<in> {[0x1b, 0x5d], [0x1b, 0x50], [0x1b, 0x58], [0x1b, 0x5e], [0x1b, 0x5f], [0x9d], [0x90], [0x98], [0x9e], [0x9f]} \<Longrightarrow>
    list_all (\<lambda>r. r \<notin> {0x07, 0x9c, 0x1b}) body \<Longrightarrow> stop \<in> {[0x07], [0x9c], [0x1b, 0x5c]} \<Longrightarrow>
    escape_sequence (intro @ body @ stop)"
| intermediate: "mid \<noteq> [] \<Longrightarrow> list_all (\<lambda>r. 0x20 \<le> r \<and> r \<le> 0x2f) mid \<Longrightarrow> 0x30 \<le> f \<Longrightarrow> f \<le> 0x7e \<Longrightarrow>
    escape_sequence (0x1b # mid @ [f])"
| two_byte: "0x30 \<le> f \<Longrightarrow> f \<le> 0x7e \<Longrightarrow> f \<notin> {0x50, 0x58, 0x5b, 0x5d, 0x5e, 0x5f} \<Longrightarrow> escape_sequence [0x1b, f]"

lemma scan_in_escape:
  "e \<noteq> EscNone \<Longrightarrow> step_takes e r \<Longrightarrow> scan e (r # rs) = scan (step_to e r) rs"
  "r \<noteq> 13 \<Longrightarrow> scan EscNone (r # rs) = step_out EscNone r @ scan (step_to EscNone r) rs"
proof -
  have "e \<noteq> EscNone \<Longrightarrow> step_out e r = []"
    by (cases e) (auto simp: step_parts strip_step_def strip_escape_def split: if_splits)
  then show "e \<noteq> EscNone \<Longrightarrow> step_takes e r \<Longrightarrow> scan e (r # rs) = scan (step_to e r) rs"
    by (simp add: scan.simps(2))
qed (simp add: scan.simps(2) step_text)

lemmas escape_parts = step_parts strip_step_def strip_escape_def strip_text_def

lemma scan_csi:
  "list_all (\<lambda>r. 0x20 \<le> r \<and> r \<le> 0x3f) ps \<Longrightarrow> 0x40 \<le> f \<Longrightarrow> f \<le> 0x7e \<Longrightarrow> scan EscCSI (ps @ f # rest) = scan EscNone rest"
  by (induction ps) (simp_all add: scan_in_escape(1) escape_parts)

lemma scan_string:
  "list_all (\<lambda>r. r \<notin> {0x07, 0x9c, 0x1b}) body \<Longrightarrow> stop \<in> {[0x07], [0x9c], [0x1b, 0x5c]} \<Longrightarrow>
   scan EscStr (body @ stop @ rest) = scan EscNone rest"
  by (induction body) (auto simp: scan_in_escape(1) escape_parts)

lemma scan_inter:
  "list_all (\<lambda>r. 0x20 \<le> r \<and> r \<le> 0x2f) mid \<Longrightarrow> 0x30 \<le> f \<Longrightarrow> f \<le> 0x7e \<Longrightarrow> scan EscInter (mid @ f # rest) = scan EscNone rest"
  by (induction mid) (simp_all add: scan_in_escape(1) escape_parts)

lemma scan_escape_sequence: "escape_sequence q \<Longrightarrow> scan EscNone (q @ rest) = scan EscNone rest"
proof (induction rule: escape_sequence.induct)
  case (csi intro ps f)
  then show ?case using scan_csi [of ps f rest] by (auto simp: scan_in_escape escape_parts)
next
  case (control_string intro body stop)
  then show ?case using scan_string [OF control_string(2,3), of rest] by (auto simp: scan_in_escape escape_parts)
next
  case (intermediate mid f)
  then obtain i mid' where "mid = i # mid'" by (cases mid) auto
  then show ?case using intermediate scan_inter [of mid' f rest] by (simp add: scan_in_escape escape_parts)
next
  case (two_byte f)
  then show ?case by (simp add: scan_in_escape escape_parts)
qed

section \<open>Fences and the last look\<close>

text \<open>Text the guard may send: clean runes, and guillemets only in this server's own markers.\<close>

inductive marked :: "rune list \<Rightarrow> rune list \<Rightarrow> bool" for nonce where
  marked_Nil: "marked nonce []"
| marked_rune: "\<not> unclean r \<Longrightarrow> marked nonce s \<Longrightarrow> marked nonce (r # s)"
| marked_open: "marked nonce s \<Longrightarrow> marked nonce (fence_open nonce @ s)"
| marked_close: "marked nonce s \<Longrightarrow> marked nonce (fence_close nonce @ s)"

lemma marker_prefix [simp]:
  "prefix (fence_open nonce) (fence_open nonce @ s)"
  "\<not> prefix (fence_open nonce) (fence_close nonce @ s)"
  "prefix (fence_close nonce) (fence_close nonce @ s)"
  by (simp_all add: fence_open_def fence_close_def)

lemma remove_markers_open [simp]: "remove_markers nonce (fence_open nonce @ s) = remove_markers nonce s"
proof -
  obtain r rs where "fence_open nonce @ s = r # rs" by (simp add: fence_open_def)
  then show ?thesis using remove_markers.simps(2) [of nonce r rs] marker_prefix(1) [of nonce s]
    by (metis append_eq_conv_conj)
qed

lemma remove_markers_close [simp]: "remove_markers nonce (fence_close nonce @ s) = remove_markers nonce s"
proof -
  obtain r rs where "fence_close nonce @ s = r # rs" by (simp add: fence_close_def)
  then show ?thesis using remove_markers.simps(2) [of nonce r rs] marker_prefix(2,3) [of nonce s]
    by (metis append_eq_conv_conj)
qed

lemma unclean_guillemets: "unclean 0xab" "unclean 0xbb"
  by (simp_all add: unclean_def)

lemma remove_markers_rune: "r \<noteq> 0xab \<Longrightarrow> remove_markers nonce (r # s) = r # remove_markers nonce s"
  by (simp add: fence_open_def fence_close_def)

lemma marked_removed: "marked nonce s \<Longrightarrow> list_all (\<lambda>r. \<not> unclean r) (remove_markers nonce s)"
proof (induction rule: marked.induct)
  case (marked_rune r s)
  then have "r \<noteq> 0xab" using unclean_guillemets by blast
  then show ?case using marked_rune by (simp add: remove_markers_rune del: remove_markers.simps)
qed (simp_all del: remove_markers.simps(2))

lemma removed_marked: "list_all (\<lambda>r. \<not> unclean r) (remove_markers nonce s) \<Longrightarrow> marked nonce s"
proof (induction nonce s rule: remove_markers.induct)
  case (2 nonce r rs)
  consider (op) s where "r # rs = fence_open nonce @ s" | (cl) s where "r # rs = fence_close nonce @ s"
    | (no) "\<not> prefix (fence_open nonce) (r # rs)" "\<not> prefix (fence_close nonce) (r # rs)"
    unfolding prefix_def by blast
  then show ?case
  proof cases
    case op
    then show ?thesis using "2.IH"(1) "2.prems" by (simp add: marked_open del: remove_markers.simps)
  next
    case cl
    then show ?thesis using "2.IH"(2) "2.prems" by (simp add: marked_close del: remove_markers.simps)
  next
    case no
    then show ?thesis using "2.IH"(3) "2.prems" by (auto intro: marked_rune)
  qed
qed (rule marked_Nil)

lemma clean_marked: "list_all (\<lambda>r. \<not> unclean r) s \<Longrightarrow> marked nonce s"
  by (induction s) (auto intro: marked.intros)

lemma marked_append: "marked nonce s \<Longrightarrow> marked nonce t \<Longrightarrow> marked nonce (s @ t)"
  by (induction rule: marked.induct) (auto intro: marked.intros)

lemma find_None_list_all: "find P xs = None \<longleftrightarrow> list_all (\<lambda>x. \<not> P x) xs"
  by (auto simp: find_None_iff list_all_iff)

lemma no_marker_removed: "0xab \<notin> set s \<Longrightarrow> remove_markers nonce s = s"
  by (induction s) (auto simp: remove_markers_rune simp del: remove_markers.simps(2))

lemma check_text_marked: "mcp_check_text nonce s = None \<longleftrightarrow> marked nonce s"
proof -
  have "mcp_check_text nonce s = find unclean (remove_markers nonce s)"
    using no_marker_removed [of s nonce]
    by (cases "0xab \<in> set s \<or> 0xbb \<in> set s") (simp_all add: mcp_check_text_def del: remove_markers.simps)
  then have "mcp_check_text nonce s = None \<longleftrightarrow> list_all (\<lambda>r. \<not> unclean r) (remove_markers nonce s)"
    by (simp only: find_None_list_all)
  then show ?thesis using marked_removed [of nonce s] removed_marked [of nonce s] by blast
qed

lemma guillemets_free: "list_all (\<lambda>r. \<not> unclean r) s \<Longrightarrow> 0xab \<notin> set s \<and> 0xbb \<notin> set s"
  using unclean_guillemets by (auto simp: list_all_iff)

lemma fence_ok:
  "mcp_is_fence nonce (mcp_fence nonce bs m) \<and> mcp_check_text nonce (mcp_fence nonce bs m) = None \<and>
   0xab \<notin> set (mcp_sanitize bs m) \<and> 0xbb \<notin> set (mcp_sanitize bs m)"
proof -
  have clean: "list_all (\<lambda>r. \<not> unclean r) (mcp_sanitize bs m)"
    by (simp add: mcp_sanitize_def sanitize_runes_clean)
  have "marked nonce (mcp_fence nonce bs m)"
    using marked_open [OF marked_append [OF clean_marked [OF clean] marked_close [OF marked_Nil]]]
    by (simp add: mcp_fence_def Let_def marked_Nil)
  moreover have "mcp_is_fence nonce (mcp_fence nonce bs m)"
    using guillemets_free [OF clean]
    by (auto simp: mcp_is_fence_def mcp_fence_def Let_def suffix_def)
  ultimately show ?thesis using guillemets_free [OF clean] by (simp add: check_text_marked)
qed

section \<open>What cleaning promises\<close>

text \<open>
  The stripper reads the text once and keeps at most the cap, and what it returns is what
  cleaning the whole text and then cutting it would give, with a marker counting the rest.
\<close>

theorem sanitize_cap:
  "mcp_sanitize bs m =
     (let clean = mcp_sanitize bs 0
      in if 0 < m \<and> nat m < length clean then take (nat m) clean @ cut_marker (length clean - nat m) else clean)"
  by (simp add: mcp_sanitize_def sanitize_runes_0 sanitize_runes_scan Let_def)

text \<open>
  C37. No third-party text, cleaned and fenced, is withheld or forges a marker: whatever the bytes
  and the cap, what \<open>mcpFence\<close> returns is a fence for the guard, its own last look finds nothing
  to report in it, and between the two markers there is no guillemet.
\<close>

theorem fence_accepted:
  "mcp_is_fence nonce (mcp_fence nonce bs m) \<and> mcp_check_text nonce (mcp_fence nonce bs m) = None \<and>
   0xab \<notin> set (mcp_sanitize bs m) \<and> 0xbb \<notin> set (mcp_sanitize bs m)"
  by (rule fence_ok)

text \<open>
  The last look accepts exactly the strings made of clean runes and of this server's own
  markers; any other string, a guillemet outside a marker included, is reported.
\<close>

theorem check_text_exact:
  "mcp_check_text nonce s = None \<longleftrightarrow> marked nonce s"
  by (rule check_text_marked)

text \<open>
  Terminal escape sequences are removed whole: after clean text, a control sequence, a control
  string, an escape with intermediates or a two-byte escape leaves nothing behind, and what follows
  is read as text.
\<close>

theorem escapes_removed_whole:
  assumes "list_all (\<lambda>r. \<not> unclean r) pre" "escape_sequence q"
  shows "sanitize_runes (pre @ q @ rest) 0 = pre @ sanitize_runes rest 0"
  using scan_append_clean [OF assms(1), of "q @ rest"] scan_escape_sequence [OF assms(2), of rest]
  by (simp add: sanitize_runes_0)

theorem escapes_removed_whole_witness:
  "sanitize_runes (ascii ''ok'' @ [0x1b, 0x5b, 0x33, 0x31, 0x6d] @ ascii ''red'') 0 =
   ascii ''ok'' @ sanitize_runes (ascii ''red'') 0"
proof (rule escapes_removed_whole)
  show "list_all (\<lambda>r. \<not> unclean r) (ascii ''ok'')" by (simp add: plain_clean)
  have "escape_sequence ([0x1b, 0x5b] @ [0x33, 0x31] @ [0x6d])" by (rule escape_sequence.intros(1)) simp_all
  then show "escape_sequence [0x1b, 0x5b, 0x33, 0x31, 0x6d]" by simp
qed

text \<open>Cleaning is idempotent: what has been cleaned without a cap is left as it is.\<close>

theorem sanitize_idempotent:
  "sanitize_runes (sanitize_runes rs m) 0 = sanitize_runes rs m"
  using scan_append_clean [OF sanitize_runes_clean, where rest = "[]"] by (simp add: sanitize_runes_0)

end
