(* ===== verification/EditDistance.thy ===== *)
theory EditDistance
  imports Kates_Prelude
begin

text \<open>
  The spelling help of \<open>cli/internal/compliance/schema.go\<close>, which the compliance, test and flow
  linters share: \<open>editDistance\<close>, computed a row at a time, and \<open>closest\<close>, the known key within two
  edits of an unknown one. The specification is the alignment of two texts: keeping a byte is
  free, replacing, inserting or deleting one costs an edit. \<open>lower\<close> is strings.ToLower.
\<close>

section \<open>The two rows\<close>

text \<open>The cells of the new row after the first: \<open>prev\<close> from the cell above the last one, \<open>left\<close> the last.\<close>

fun row_cells :: "char \<Rightarrow> string \<Rightarrow> nat list \<Rightarrow> nat \<Rightarrow> nat list" where
  "row_cells x (y # ys) (diag # up # prev) left =
     (let v = min (up + 1) (min (left + 1) (diag + (if x = y then 0 else 1)))
      in v # row_cells x ys (up # prev) v)"
| "row_cells x ys prev left = []"

fun edit_rows :: "nat \<Rightarrow> string \<Rightarrow> string \<Rightarrow> nat list \<Rightarrow> nat list" where
  "edit_rows i [] b prev = prev"
| "edit_rows i (x # a) b prev = edit_rows (Suc i) a b (i # row_cells x b prev i)"

definition edit_distance :: "string \<Rightarrow> string \<Rightarrow> nat" where
  "edit_distance a b = edit_rows 1 a b [0..<length b + 1] ! length b"

fun closest_loop :: "(string \<Rightarrow> string) \<Rightarrow> string \<Rightarrow> string \<Rightarrow> nat \<Rightarrow> string list \<Rightarrow> string" where
  "closest_loop lower key best dist [] = best"
| "closest_loop lower key best dist (k # ks) =
     (let d = edit_distance (lower key) (lower k)
      in if d < dist then closest_loop lower key k d ks else closest_loop lower key best dist ks)"

definition closest :: "(string \<Rightarrow> string) \<Rightarrow> string \<Rightarrow> string list \<Rightarrow> string" where
  "closest lower key known = closest_loop lower key [] 3 known"

section \<open>Alignments\<close>

inductive aligns :: "nat \<Rightarrow> 'a list \<Rightarrow> 'a list \<Rightarrow> bool" where
  aligns_Nil: "aligns 0 [] []"
| aligns_keep: "aligns n xs ys \<Longrightarrow> aligns n (x # xs) (x # ys)"
| aligns_replace: "aligns n xs ys \<Longrightarrow> aligns (Suc n) (x # xs) (y # ys)"
| aligns_delete: "aligns n xs ys \<Longrightarrow> aligns (Suc n) (x # xs) ys"
| aligns_insert: "aligns n xs ys \<Longrightarrow> aligns (Suc n) xs (y # ys)"

fun lev :: "'a list \<Rightarrow> 'a list \<Rightarrow> nat" where
  "lev [] ys = length ys"
| "lev (x # xs) [] = Suc (length xs)"
| "lev (x # xs) (y # ys) =
     min (lev xs (y # ys) + 1) (min (lev (x # xs) ys + 1) (lev xs ys + (if x = y then 0 else 1)))"

lemma lev_Nil2 [simp]: "lev xs [] = length xs"
  by (cases xs) simp_all

lemma aligns_length: "aligns (length ys) [] ys" "aligns (length xs) xs []"
  by (induction ys, auto intro: aligns.intros) (induction xs, auto intro: aligns.intros)

lemma lev_aligns: "aligns (lev xs ys) xs ys"
proof (induction xs ys rule: lev.induct)
  case (1 ys)
  then show ?case by (simp add: aligns_length)
next
  case (2 x xs)
  then show ?case using aligns_length(2) [of "x # xs"] by simp
next
  case (3 x xs y ys)
  have "aligns (lev xs ys + (if x = y then 0 else 1)) (x # xs) (y # ys)"
    using 3(3) by (auto intro: aligns.intros)
  moreover have "aligns (lev xs (y # ys) + 1) (x # xs) (y # ys)" using aligns_delete [OF 3(1)] by simp
  moreover have "aligns (lev (x # xs) ys + 1) (x # xs) (y # ys)" using aligns_insert [OF 3(2)] by simp
  ultimately show ?case by (simp add: min_def)
qed

lemma lev_Cons_le: "lev (x # xs) ys \<le> Suc (lev xs ys)" "lev xs (y # ys) \<le> Suc (lev xs ys)"
proof (induction xs ys rule: lev.induct)
  case (1 ys)
  { case 1 show ?case by (cases ys) (simp_all add: min_le_iff_disj) }
  { case 2 show ?case by simp }
qed (simp_all add: min_le_iff_disj)

lemma lev_le: "aligns n xs ys \<Longrightarrow> lev xs ys \<le> n"
proof (induction rule: aligns.induct)
  case (aligns_delete n xs ys x)
  then show ?case using lev_Cons_le(1) [of x xs ys] by simp
next
  case (aligns_insert n xs ys y)
  then show ?case using lev_Cons_le(2) [of xs y ys] by simp
qed (simp_all add: min_le_iff_disj)

lemma aligns_append: "aligns m xs ys \<Longrightarrow> aligns n us vs \<Longrightarrow> aligns (m + n) (xs @ us) (ys @ vs)"
  by (induction rule: aligns.induct) (auto intro: aligns.intros)

lemma aligns_rev: "aligns n xs ys \<Longrightarrow> aligns n (rev xs) (rev ys)"
proof (induction rule: aligns.induct)
  case aligns_Nil
  then show ?case by (simp add: aligns.aligns_Nil)
next
  case (aligns_keep n xs ys x)
  then show ?case using aligns_append [OF _ aligns.aligns_keep [OF aligns.aligns_Nil]] by fastforce
next
  case (aligns_replace n xs ys x y)
  then show ?case using aligns_append [OF _ aligns.aligns_replace [OF aligns.aligns_Nil]] by fastforce
next
  case (aligns_delete n xs ys x)
  then show ?case using aligns_append [OF _ aligns.aligns_delete [OF aligns.aligns_Nil]] by fastforce
next
  case (aligns_insert n xs ys y)
  then show ?case using aligns_append [OF _ aligns.aligns_insert [OF aligns.aligns_Nil]] by fastforce
qed

section \<open>The rows compute the distance\<close>

text \<open>\<open>level u b\<close>: the row for the text \<open>u\<close> read so far (reversed), one cell per prefix of \<open>b\<close>.\<close>

definition level :: "string \<Rightarrow> string \<Rightarrow> nat list" where
  "level u b = map (\<lambda>j. lev u (rev (take j b))) [0..<Suc (length b)]"

lemma row_cells_lev:
  "row_cells x ys (map (\<lambda>j. lev u (rev (take j ys) @ v)) [0..<Suc (length ys)]) (lev (x # u) v) =
   map (\<lambda>j. lev (x # u) (rev (take (Suc j) ys) @ v)) [0..<length ys]"
proof (induction ys arbitrary: v)
  case (Cons y ys)
  have up: "map (\<lambda>j. lev u (rev (take j (y # ys)) @ v)) [0..<Suc (length (y # ys))] =
      lev u v # map (\<lambda>j. lev u (rev (take j ys) @ (y # v))) [0..<Suc (length ys)]"
    by (subst map_upt_Suc) (simp del: upt_Suc)
  have rest: "map (\<lambda>j. lev u (rev (take j ys) @ (y # v))) [0..<Suc (length ys)] =
      lev u (y # v) # map (\<lambda>j. lev u (rev (take (Suc j) ys) @ (y # v))) [0..<length ys]"
    unfolding map_upt_Suc by simp
  have cell: "min (lev u (y # v) + 1) (min (lev (x # u) v + 1) (lev u v + (if x = y then 0 else 1))) = lev (x # u) (y # v)"
    by simp
  have "row_cells x (y # ys) (map (\<lambda>j. lev u (rev (take j (y # ys)) @ v)) [0..<Suc (length (y # ys))]) (lev (x # u) v) =
      lev (x # u) (y # v) # row_cells x ys (map (\<lambda>j. lev u (rev (take j ys) @ (y # v))) [0..<Suc (length ys)]) (lev (x # u) (y # v))"
    unfolding up rest by (simp only: row_cells.simps Let_def cell)
  also have "\<dots> = lev (x # u) (y # v) # map (\<lambda>j. lev (x # u) (rev (take (Suc j) ys) @ (y # v))) [0..<length ys]"
    using Cons.IH [of "y # v"] by simp
  also have "\<dots> = map (\<lambda>j. lev (x # u) (rev (take (Suc j) (y # ys)) @ v)) [0..<length (y # ys)]"
    unfolding list.size(4) add_Suc_right add_0_right map_upt_Suc by simp
  finally show ?case .
qed simp

lemma edit_rows_level:
  "edit_rows (Suc (length u)) a b (level u b) = level (rev a @ u) b"
proof (induction a arbitrary: u)
  case (Cons x a)
  have "Suc (length u) # row_cells x b (level u b) (Suc (length u)) = level (x # u) b"
    using row_cells_lev [of x b u "[]"] unfolding level_def map_upt_Suc [of "\<lambda>j. lev (x # u) (rev (take j b))"] by simp
  then show ?case using Cons.IH [of "x # u"] by simp
qed simp

lemma edit_distance_lev: "edit_distance a b = lev (rev a) (rev b)"
proof -
  have "level [] b = map (\<lambda>j. j) [0..<Suc (length b)]"
    unfolding level_def by (rule map_cong) (auto simp: min_def)
  then have "[0..<length b + 1] = level [] b" by (simp add: map_idI del: upt_Suc)
  then show ?thesis using edit_rows_level [of "[]" a b]
    by (simp add: edit_distance_def level_def del: upt_Suc)
qed

text \<open>
  The row-by-row computation is the edit distance: there is an alignment of the two texts with
  that many edits, and none with fewer.
\<close>

theorem edit_distance_minimal:
  "aligns (edit_distance a b) a b \<and> (\<nexists>n. n < edit_distance a b \<and> aligns n a b)"
proof -
  have "aligns (edit_distance a b) a b"
    using aligns_rev [OF lev_aligns [of "rev a" "rev b"]] by (simp add: edit_distance_lev)
  moreover have "edit_distance a b \<le> n" if "aligns n a b" for n
    using lev_le [OF aligns_rev [OF that]] by (simp add: edit_distance_lev)
  ultimately show ?thesis using not_le by blast
qed

lemma closest_loop_best:
  "\<exists>d. d \<le> dist \<and> (\<forall>k\<in>set ks. d \<le> edit_distance (lower key) (lower k)) \<and>
     (closest_loop lower key best dist ks = best \<and> d = dist \<or>
      closest_loop lower key best dist ks \<in> set ks \<and>
      edit_distance (lower key) (lower (closest_loop lower key best dist ks)) = d \<and> d < dist)"
proof (induction ks arbitrary: best dist)
  case (Cons k ks)
  let ?e = "\<lambda>k. edit_distance (lower key) (lower k)"
  show ?case
  proof (cases "?e k < dist")
    case True
    define w where "w = closest_loop lower key k (?e k) ks"
    obtain d where d: "d \<le> ?e k" "\<forall>k\<in>set ks. d \<le> ?e k" "w = k \<and> d = ?e k \<or> w \<in> set ks \<and> ?e w = d \<and> d < ?e k"
      using Cons.IH [of "?e k" k] unfolding w_def by blast
    have "closest_loop lower key best dist (k # ks) = w" using True by (simp add: w_def Let_def)
    moreover have "w \<in> set (k # ks) \<and> ?e w = d" using d(3) by auto
    ultimately show ?thesis using d(1,2) True by (intro exI [of _ d]) simp
  next
    case False
    define w where "w = closest_loop lower key best dist ks"
    obtain d where d: "d \<le> dist" "\<forall>k\<in>set ks. d \<le> ?e k" "w = best \<and> d = dist \<or> w \<in> set ks \<and> ?e w = d \<and> d < dist"
      using Cons.IH [of dist best] unfolding w_def by blast
    have "closest_loop lower key best dist (k # ks) = w" using False by (simp add: w_def Let_def)
    then show ?thesis using d False by (intro exI [of _ d]) auto
  qed
qed simp

text \<open>
  The suggestion for an unknown key is a known key at the least distance, if one is within two
  edits, and the empty text otherwise.
\<close>

theorem closest_exact:
  assumes "[] \<notin> set known"
  shows "if closest lower key known = [] then list_all (\<lambda>k. 2 < edit_distance (lower key) (lower k)) known
    else closest lower key known \<in> set known \<and> edit_distance (lower key) (lower (closest lower key known)) \<le> 2 \<and>
      list_all (\<lambda>k. edit_distance (lower key) (lower (closest lower key known)) \<le> edit_distance (lower key) (lower k)) known"
proof -
  obtain d where d: "d \<le> 3" "\<forall>k\<in>set known. d \<le> edit_distance (lower key) (lower k)"
    "closest lower key known = [] \<and> d = 3 \<or>
     closest lower key known \<in> set known \<and> edit_distance (lower key) (lower (closest lower key known)) = d \<and> d < 3"
    using closest_loop_best [of 3 known lower key "[]"] unfolding closest_def by blast
  show ?thesis
  proof (cases "closest lower key known = []")
    case True
    then have "d = 3" using d(3) assms by auto
    then show ?thesis using True d(2) by (fastforce simp: list_all_iff)
  next
    case False
    then show ?thesis using d by (auto simp: list_all_iff)
  qed
qed

theorem closest_exact_witness:
  "closest id ''tl'' [''zone'', ''tls''] = ''tls'' \<and> edit_distance ''tl'' ''tls'' \<le> 2"
proof -
  have "closest id ''tl'' [''zone'', ''tls''] = ''tls''" by code_simp
  then show ?thesis using closest_exact [of "[''zone'', ''tls'']" id "''tl''"] by simp
qed

end
