(* ===== verification/SchemaCheck.thy ===== *)
theory SchemaCheck
  imports Incoherence EditDistance Untrusted
begin

text \<open>
  The check of a reference against its JSON Schema (\<open>cli/internal/compliance/schema.go\<close>): a walker
  over the node tree and the decoded schema, reporting each place the schema refuses.

  A decoded JSON object is its keys and values in the order written, each key once. The walker's
  schema, Go's regexp and strconv.ParseFloat, the lower case of a text and fmt's \<open>%q\<close> are fields
  of the walker (a text \<open>ParseFloat\<close> reads as NaN is left out). The schema's numbers are whole and
  below \<open>10 ^ 21\<close>, from where \<open>fmt\<close> prints an exponent. A schema can refer to itself on the same node, so
  the recursive functions take fuel; None is running out of it, or the panic of an empty \<open>oneOf\<close>. More fuel never changes
  an answer, and over a schema with neither fault, as the embedded one, a bound on the fuel gives one.
\<close>

section \<open>Schemas\<close>

datatype jvalue = JNull | JBool bool | JNum int | JStr string | JArr "jvalue list" | JObject "(string \<times> jvalue) list"

type_synonym schema = "(string \<times> jvalue) list"

record walker =
  wk_defs :: schema
  wk_matches :: "string \<Rightarrow> string \<Rightarrow> bool"
  wk_number :: "string \<Rightarrow> rat option"
  wk_lower :: "string \<Rightarrow> string"
  wk_quote :: "string \<Rightarrow> string"

definition field_str :: "schema \<Rightarrow> string \<Rightarrow> string option" where
  "field_str s k = (case map_of s k of Some (JStr x) \<Rightarrow> Some x | _ \<Rightarrow> None)"

definition field_list :: "schema \<Rightarrow> string \<Rightarrow> jvalue list option" where
  "field_list s k = (case map_of s k of Some (JArr xs) \<Rightarrow> Some xs | _ \<Rightarrow> None)"

definition field_obj :: "schema \<Rightarrow> string \<Rightarrow> schema option" where
  "field_obj s k = (case map_of s k of Some (JObject o') \<Rightarrow> Some o' | _ \<Rightarrow> None)"

definition field_num :: "schema \<Rightarrow> string \<Rightarrow> int option" where
  "field_num s k = (case map_of s k of Some (JNum i) \<Rightarrow> Some i | _ \<Rightarrow> None)"

text \<open>The elements of a list that are schemas, and an element as a schema (\<open>bs, _ :=\<close>: nil if not).\<close>

definition objects :: "jvalue list \<Rightarrow> schema list" where
  "objects vs = List.map_filter (\<lambda>v. case v of JObject o' \<Rightarrow> Some o' | _ \<Rightarrow> None) vs"

definition as_object :: "jvalue \<Rightarrow> schema" where
  "as_object v = (case v of JObject o' \<Rightarrow> o' | _ \<Rightarrow> [])"

text \<open>\<open>fmt.Sprint\<close> of a decoded value; lists and objects do not occur where it is used.\<close>

definition sprint :: "jvalue \<Rightarrow> string" where
  "sprint v = (case v of JStr x \<Rightarrow> x | JNum i \<Rightarrow> show_int i | JBool True \<Rightarrow> ''true'' | JBool False \<Rightarrow> ''false'' | _ \<Rightarrow> ''<nil>'')"

definition schema_types :: "jvalue \<Rightarrow> string list" where
  "schema_types t =
     (case t of JStr x \<Rightarrow> [x]
      | JArr vs \<Rightarrow> List.map_filter (\<lambda>v. case v of JStr x \<Rightarrow> Some x | _ \<Rightarrow> None) vs
      | _ \<Rightarrow> [])"

definition type_matches :: "string \<Rightarrow> string list \<Rightarrow> bool" where
  "type_matches k want \<longleftrightarrow> list_ex (\<lambda>t. t = k \<or> t = ''number'' \<and> k = ''integer'') want"

definition type_words :: "string \<Rightarrow> string" where
  "type_words t =
     (if t = ''object'' then ''a map'' else if t = ''array'' then ''a list'' else if t = ''string'' then ''text''
      else if t = ''integer'' then ''a whole number'' else if t = ''number'' then ''a number''
      else if t = ''boolean'' then ''true or false'' else if t = ''null'' then ''nothing'' else [])"

definition or_list :: "string list \<Rightarrow> string" where
  "or_list ws =
     (if ws = [] then [] else if length ws = 1 then hd ws
      else join_with '', '' (butlast ws) @ '' or '' @ last ws)"

definition type_error :: "ynode \<Rightarrow> string list \<Rightarrow> string \<Rightarrow> diagnostic" where
  "type_error n want path =
     (let k = node_kind n
      in if k = ''null'' then diag_at (Some n) Error ''type'' path ''a value is required''
         else if type_matches ''string'' want \<and> length want = 1 \<and> (k = ''integer'' \<or> k = ''number'') then
           diag_at (Some n) Error ''type'' path
             (''expected text, not the number '' @ node_value n @ '': unquoted, YAML reads it as a number, so quote it (\"'' @ node_value n @ ''\")'')
         else diag_at (Some n) Error ''type'' path (''expected '' @ or_list (map type_words want)))"

definition def_of :: "walker \<Rightarrow> string \<Rightarrow> schema" where
  "def_of w r = (case map_of (wk_defs w) (trim_prefix ''#/$defs/'' r) of Some (JObject o') \<Rightarrow> o' | _ \<Rightarrow> [])"

definition composed :: "schema \<Rightarrow> string list \<Rightarrow> schema list" where
  "composed s ks = concat (map (\<lambda>k. case field_list s k of Some bs \<Rightarrow> objects bs | None \<Rightarrow> []) ks)"

text \<open>The schemas \<open>kinds\<close> and \<open>allowedKeys\<close> look through: the target of a \<open>$ref\<close>, and branches.\<close>

definition own_kinds :: "schema \<Rightarrow> string list" where
  "own_kinds s =
     (case map_of s ''type'' of
        Some t \<Rightarrow> concat (map (\<lambda>t. if t = ''number'' then [t, ''integer''] else [t]) (schema_types t)) | None \<Rightarrow> []) @
     (if map_of s ''enum'' \<noteq> None then [''string''] else []) @ (if map_of s ''const'' \<noteq> None then [''string''] else [])"

fun kinds :: "nat \<Rightarrow> walker \<Rightarrow> schema \<Rightarrow> string list option" where
  "kinds 0 w s = None"
| "kinds (Suc m) w s =
     map_option (\<lambda>kss. concat kss @ own_kinds s)
       (those (map (kinds m w)
         ((case field_str s ''$ref'' of Some r \<Rightarrow> [def_of w r] | None \<Rightarrow> []) @ composed s [''allOf'', ''oneOf'', ''anyOf''])))"

fun allowed_keys :: "nat \<Rightarrow> walker \<Rightarrow> schema \<Rightarrow> string list option" where
  "allowed_keys 0 w s = None"
| "allowed_keys (Suc m) w s =
     map_option (\<lambda>kss. (case field_obj s ''properties'' of Some ps \<Rightarrow> map fst ps | None \<Rightarrow> []) @ concat kss)
       (those (map (allowed_keys m w)
         ((case field_str s ''$ref'' of Some r \<Rightarrow> [def_of w r] | None \<Rightarrow> []) @ composed s [''allOf''])))"

section \<open>The checks of one node\<close>

definition errors_in :: "diagnostic list \<Rightarrow> nat" where
  "errors_in ds = length (filter (\<lambda>d. d_severity d = Error) ds)"

definition operator_shape :: "ynode \<Rightarrow> string \<Rightarrow> diagnostic list" where
  "operator_shape n path =
     (case n of
        YMap ps l c \<Rightarrow>
          (let has = (\<lambda>k. k \<in> (\<lambda>p. node_value (fst p)) ` set ps);
               err = (\<lambda>m. [diag_at (Some n) Error ''constraint'' path m])
           in if \<not> has ''equals'' \<and> \<not> has ''min'' \<and> \<not> has ''max'' \<and> \<not> has ''oneOf'' then err ''needs equals, min, max or oneOf''
              else if has ''equals'' \<and> (has ''min'' \<or> has ''max'' \<or> has ''oneOf'') then err ''equals stands alone: drop min, max and oneOf''
              else if has ''oneOf'' \<and> (has ''min'' \<or> has ''max'') then err ''oneOf stands alone: drop min and max''
              else [])
      | _ \<Rightarrow> [])"

definition enum_check :: "ynode \<Rightarrow> jvalue list \<Rightarrow> string \<Rightarrow> diagnostic list" where
  "enum_check n enum path =
     (if is_scalar n \<and> list_ex (\<lambda>e. node_value n = sprint e) enum then []
      else [diag_at (Some n) Error ''enum'' path (''must be one of '' @ join_with '', '' (map sprint enum))])"

definition pattern_messages :: "(string \<times> string) list" where
  "pattern_messages =
     [(''^[a-z0-9]([-a-z0-9]{0,61}[a-z0-9])?$'', ''must be a DNS label: up to 63 lower-case letters, digits and -''),
      (''^[A-Za-z0-9_-]{22}$'', ''must be a Kafka cluster id: 22 letters, digits, - or _''),
      (''^([a-z0-9]([-a-z0-9.]*[a-z0-9])?/)?[A-Za-z0-9]([-A-Za-z0-9_.]{0,61}[A-Za-z0-9])?$'',
       ''must be a Kubernetes label key, such as topology.kubernetes.io/zone''),
      (''^[0-9]+('' @ [CHR 0x5c] @ ''.[0-9]+)?(m|k|M|G|T|P|E|Ki|Mi|Gi|Ti|Pi|Ei)?$'', ''expected a quantity such as 8Gi, 500m or 2''),
      (''^v?[0-9]+('' @ [CHR 0x5c] @ ''.[0-9]+){0,3}$'', ''expected a version such as \"4.2.0\"''),
      (''^[a-z0-9]{1,11}$'', ''must be a Strimzi listener name: up to 11 lower-case letters and digits''),
      (''^[a-z][A-Za-z]*('' @ [CHR 0x5c] @ ''.[a-z][A-Za-z]*|'' @ [CHR 0x5c] @ ''[[^'' @ [CHR 0x5c] @ '']]+'' @ [CHR 0x5c] @ ''])*$'',
       ''must be a rule id, such as brokers.count or kafka.config[min.insync.replicas]''),
      (''^[a-z0-9]+([._-][a-z0-9]+)*$'', ''must be a broker config name, such as min.insync.replicas''),
      (''^[a-zA-Z0-9._-]{1,249}$'', ''must be the start of a topic name: up to 249 letters, digits, ., _ and -'')]"

text \<open>\<open>len([]rune(s))\<close>: an invalid byte is a rune of its own.\<close>

function rune_count :: "nat list \<Rightarrow> nat" where
  "rune_count [] = 0"
| "rune_count (b # bs) = Suc (case decode_rune (b # bs) of Some (r, n) \<Rightarrow> rune_count (drop n (b # bs)) | None \<Rightarrow> rune_count bs)"
  by pat_completeness auto
termination
  by (relation "measure length") (auto simp del: decode_rune.simps dest: decode_rune_width)

definition length_check :: "ynode \<Rightarrow> schema \<Rightarrow> string \<Rightarrow> diagnostic list" where
  "length_check n s path =
     (let len = int (rune_count (ascii (node_value n)));
          err = (\<lambda>m. [diag_at (Some n) Error ''length'' path m])
      in case (field_num s ''minLength'', field_num s ''maxLength'') of
           (Some lo, hi) \<Rightarrow>
             if len < lo \<and> lo = 1 then err ''must not be empty''
             else if len < lo then err (''must be at least '' @ show_int lo @ '' characters'')
             else (case hi of Some h \<Rightarrow> if h < len then err (''must be at most '' @ show_int h @ '' characters'') else [] | None \<Rightarrow> [])
         | (None, Some h) \<Rightarrow> if h < len then err (''must be at most '' @ show_int h @ '' characters'') else []
         | (None, None) \<Rightarrow> [])"

definition range_check :: "walker \<Rightarrow> ynode \<Rightarrow> schema \<Rightarrow> string \<Rightarrow> diagnostic list" where
  "range_check w n s path =
     (case wk_number w (node_value n) of
        None \<Rightarrow> [diag_at (Some n) Error ''range'' path ''number out of range'']
      | Some v \<Rightarrow>
          (let lo = field_num s ''minimum''; hi = field_num s ''maximum''
           in if (case lo of Some l \<Rightarrow> v < of_int l | None \<Rightarrow> False) \<or> (case hi of Some h \<Rightarrow> of_int h < v | None \<Rightarrow> False)
              then [diag_at (Some n) Error ''range'' path
                (case (lo, hi) of
                   (Some l, Some h) \<Rightarrow> ''must be from '' @ show_int l @ '' to '' @ show_int h
                 | (Some l, None) \<Rightarrow> ''must be at least '' @ show_int l
                 | (None, Some h) \<Rightarrow> ''must be at most '' @ show_int h
                 | (None, None) \<Rightarrow> [])]
              else []))"

definition scalar_check :: "walker \<Rightarrow> ynode \<Rightarrow> schema \<Rightarrow> string \<Rightarrow> diagnostic list" where
  "scalar_check w n s path =
     (let k = node_kind n
      in (case field_str s ''pattern'' of
            Some p \<Rightarrow> if k = ''string'' \<and> \<not> wk_matches w p (node_value n)
              then [diag_at (Some n) Error ''pattern'' path
                (case map_of pattern_messages p of Some m \<Rightarrow> m | None \<Rightarrow> ''does not match '' @ p)] else []
          | None \<Rightarrow> []) @
         (if field_str s ''format'' = Some ''date'' \<and> k = ''string'' \<and> parse_date (node_value n) = None
          then [diag_at (Some n) Error ''format'' path ''expected a date such as 2026-12-31''] else []) @
         (if k = ''string'' then length_check n s path else []) @
         (if k = ''integer'' \<or> k = ''number'' then range_check w n s path else []))"

section \<open>Objects and arrays\<close>

text \<open>Byte order, in which \<open>sort.Strings\<close> sorts.\<close>

fun cmp_string :: "string \<Rightarrow> string \<Rightarrow> int" where
  "cmp_string [] [] = 0"
| "cmp_string [] (b # bs) = - 1"
| "cmp_string (a # as) [] = 1"
| "cmp_string (a # as) (b # bs) =
     (if (of_char a :: nat) < of_char b then - 1 else if (of_char b :: nat) < of_char a then 1 else cmp_string as bs)"

lemma cmp_string_swap: "cmp_string x y < 0 \<longleftrightarrow> 0 < cmp_string y x"
  by (induction x y rule: cmp_string.induct) auto

lemma cmp_string_eq: "cmp_string x y = 0 \<Longrightarrow> x = y"
  by (induction x y rule: cmp_string.induct) (auto split: if_splits)

lemma cmp_string_trans: "cmp_string x y \<le> 0 \<Longrightarrow> cmp_string y z \<le> 0 \<Longrightarrow> cmp_string x z \<le> 0"
proof (induction x y arbitrary: z rule: cmp_string.induct)
  case (2 b bs)
  then show ?case by (cases z) auto
next
  case (4 a as b bs)
  show ?case
  proof (cases z)
    case Nil
    then show ?thesis using 4(3) by simp
  next
    case (Cons c cs)
    define i j k where "i = (of_char a :: nat)" "j = (of_char b :: nat)" "k = (of_char c :: nat)"
    have ab: "i < j \<or> i = j \<and> cmp_string as bs \<le> 0"
      using 4(2) by (auto simp: i_j_k_def split: if_splits)
    have bc: "j < k \<or> j = k \<and> cmp_string bs cs \<le> 0"
      using 4(3) Cons by (auto simp: i_j_k_def split: if_splits)
    have ih: "i = j \<Longrightarrow> cmp_string as bs \<le> 0 \<Longrightarrow> cmp_string bs cs \<le> 0 \<Longrightarrow> cmp_string as cs \<le> 0"
      using 4(1) [of cs] by (simp add: i_j_k_def)
    have "i < k \<or> i = k \<and> cmp_string as cs \<le> 0" using ab bc ih by linarith
    then show ?thesis using Cons by (auto simp: i_j_k_def)
  qed
qed simp_all

interpretation strings: three_way_total cmp_string
  by unfold_locales (rule cmp_string_swap, erule (1) cmp_string_trans, erule cmp_string_eq)

definition known_keys :: "schema \<Rightarrow> string list option \<Rightarrow> string list" where
  "known_keys props allowed = stable_sort cmp_string (case allowed of Some ks \<Rightarrow> remdups ks | None \<Rightarrow> map fst props)"

definition unknown_field :: "walker \<Rightarrow> ynode \<Rightarrow> string \<Rightarrow> string list \<Rightarrow> diagnostic" where
  "unknown_field w key path known =
     (let guess = closest (wk_lower w) (node_value key) known
      in diag_at (Some key) Error ''unknown-field'' path
           (''unknown field'' @ (if guess \<noteq> [] then '' (did you mean '' @ wk_quote w guess @ ''?)'' else [])))"

text \<open>
  \<open>object\<close>, \<open>array\<close>, \<open>oneOf\<close> and \<open>anyOf\<close> take the recursive \<open>check\<close> as the argument \<open>rec\<close>. The loop
  over a map's pairs returns its diagnostics with the keys seen and how many pairs there were.
\<close>

type_synonym checker = "ynode \<Rightarrow> schema \<Rightarrow> string \<Rightarrow> diagnostic list option"

fun replace_first :: "string \<Rightarrow> string \<Rightarrow> string \<Rightarrow> string" where
  "replace_first old new [] = []"
| "replace_first old new (c # s) = (if prefix old (c # s) then new @ drop (length old) (c # s) else c # replace_first old new s)"

definition key_wording :: "diagnostic \<Rightarrow> diagnostic" where
  "key_wording d =
     (if d_code d = ''pattern'' \<or> d_code d = ''length''
      then d\<lparr>d_message := replace_first ''must be'' ''the key must be'' (d_message d)\<rparr> else d)"

definition name_check :: "checker \<Rightarrow> schema option \<Rightarrow> ynode \<Rightarrow> string \<Rightarrow> diagnostic list option" where
  "name_check rec names key p =
     (case names of None \<Rightarrow> Some [] | Some ns \<Rightarrow> map_option (map key_wording) (rec key ns p))"

text \<open>\<open>closed\<close> with \<open>allowed = None\<close>: only the object's own properties.\<close>

record object_rules =
  or_props :: schema
  or_extra :: "schema option"
  or_names :: "schema option"
  or_closed :: bool
  or_allowed :: "string list option"

definition value_check :: "walker \<Rightarrow> checker \<Rightarrow> object_rules \<Rightarrow> ynode \<Rightarrow> ynode \<Rightarrow> string \<Rightarrow> diagnostic list option" where
  "value_check w rec r key val p =
     (case field_obj (or_props r) (node_value key) of
        Some sub \<Rightarrow> rec val sub p
      | None \<Rightarrow>
          (case or_extra r of
             Some extra \<Rightarrow> rec val extra p
           | None \<Rightarrow>
               if or_closed r \<and> (case or_allowed r of None \<Rightarrow> True | Some ks \<Rightarrow> node_value key \<notin> set ks)
               then Some [unknown_field w key p (known_keys (or_props r) (or_allowed r))] else Some []))"

fun pairs_check :: "walker \<Rightarrow> checker \<Rightarrow> object_rules \<Rightarrow> string \<Rightarrow> string list \<Rightarrow> (ynode \<times> ynode) list \<Rightarrow> (diagnostic list \<times> string list) option" where
  "pairs_check w rec r path seen [] = Some ([], seen)"
| "pairs_check w rec r path seen ((key, val) # ps) =
     (if node_value key \<in> set seen then pairs_check w rec r path seen ps
      else
        let p = child_path path (node_value key)
        in (case (name_check rec (or_names r) key p, value_check w rec r key val p) of
              (Some ns, Some vs) \<Rightarrow>
                map_option (\<lambda>(ds, s). (ns @ vs @ ds, s)) (pairs_check w rec r path (node_value key # seen) ps)
            | _ \<Rightarrow> None))"

definition rules_of :: "schema \<Rightarrow> string list option \<Rightarrow> object_rules" where
  "rules_of s allowed =
     \<lparr>or_props = (case field_obj s ''properties'' of Some o' \<Rightarrow> o' | None \<Rightarrow> []),
      or_extra = field_obj s ''additionalProperties'', or_names = field_obj s ''propertyNames'',
      or_closed = (map_of s ''additionalProperties'' = Some (JBool False) \<or> map_of s ''unevaluatedProperties'' = Some (JBool False)),
      or_allowed = allowed\<rparr>"

definition counts_check :: "ynode \<Rightarrow> schema \<Rightarrow> string \<Rightarrow> string list \<Rightarrow> diagnostic list" where
  "counts_check n s path seen =
     (case field_list s ''required'' of
        Some req \<Rightarrow>
          map (\<lambda>x. diag_at (Some n) Error ''required'' (child_path path (sprint x)) ''required'')
            (filter (\<lambda>x. sprint x \<notin> set seen) req)
      | None \<Rightarrow> []) @
     (case field_num s ''minProperties'' of
        Some lo \<Rightarrow> if int (length seen) < lo then [diag_at (Some n) Error ''empty'' path ''declares nothing''] else []
      | None \<Rightarrow> []) @
     (case field_num s ''maxProperties'' of
        Some hi \<Rightarrow> if hi < int (length seen)
          then [diag_at (Some n) Error ''size'' path (''has more than '' @ show_int hi @ '' keys'')] else []
      | None \<Rightarrow> [])"

definition object_check :: "nat \<Rightarrow> walker \<Rightarrow> checker \<Rightarrow> ynode \<Rightarrow> (ynode \<times> ynode) list \<Rightarrow> schema \<Rightarrow> string \<Rightarrow> diagnostic list option" where
  "object_check m w rec n ps s path =
     (case (if map_of s ''unevaluatedProperties'' = Some (JBool False) then map_option Some (allowed_keys m w s) else Some None) of
        None \<Rightarrow> None
      | Some allowed \<Rightarrow>
          map_option (\<lambda>(ds, seen). ds @ counts_check n s path seen) (pairs_check w rec (rules_of s allowed) path [] ps))"

definition array_check :: "checker \<Rightarrow> ynode \<Rightarrow> ynode list \<Rightarrow> schema \<Rightarrow> string \<Rightarrow> diagnostic list option" where
  "array_check rec n xs s path =
     map_option (\<lambda>dss. concat dss @
         (case field_num s ''minItems'' of
            Some lo \<Rightarrow> if int (length xs) < lo then [diag_at (Some n) Error ''empty'' path ''lists no value''] else [] | None \<Rightarrow> []) @
         (case field_num s ''maxItems'' of
            Some hi \<Rightarrow> if hi < int (length xs)
              then [diag_at (Some n) Error ''size'' path (''lists more than '' @ show_int hi @ '' values'')] else []
          | None \<Rightarrow> []))
       (case field_obj s ''items'' of
          Some items \<Rightarrow> those (map (\<lambda>(i, x). rec x items (index_path path i)) (enumerate 0 xs))
        | None \<Rightarrow> Some [])"

section \<open>Composed schemas and the walk\<close>

text \<open>
  \<open>oneOf\<close>: nothing when a branch passes; otherwise the report of \<open>best\<close>, the first branch that could
  take a node of this kind, or else of the first of the shortest reports.
\<close>

fun first_shortest :: "'a list list \<Rightarrow> 'a list option" where
  "first_shortest [] = None"
| "first_shortest (r # rs) = (case first_shortest rs of Some b \<Rightarrow> if length b < length r then Some b else Some r | None \<Rightarrow> Some r)"

fun one_of_loop ::
  "nat \<Rightarrow> walker \<Rightarrow> checker \<Rightarrow> ynode \<Rightarrow> string \<Rightarrow> diagnostic list list \<Rightarrow> diagnostic list option \<Rightarrow> jvalue list \<Rightarrow> diagnostic list option" where
  "one_of_loop m w rec n path results best [] =
     (case best of Some b \<Rightarrow> Some b | None \<Rightarrow> first_shortest results)"
| "one_of_loop m w rec n path results best (b # bs) =
     (case rec n (as_object b) path of
        None \<Rightarrow> None
      | Some r \<Rightarrow>
          if errors_in r = 0 then Some []
          else (case best of
                  Some x \<Rightarrow> one_of_loop m w rec n path (results @ [r]) (Some x) bs
                | None \<Rightarrow>
                    (case kinds m w (as_object b) of
                       None \<Rightarrow> None
                     | Some ks \<Rightarrow> one_of_loop m w rec n path (results @ [r]) (if node_kind n \<in> set ks then Some r else None) bs)))"

fun any_of_loop ::
  "checker \<Rightarrow> ynode \<Rightarrow> string \<Rightarrow> string list \<Rightarrow> bool \<Rightarrow> diagnostic list option \<Rightarrow> jvalue list \<Rightarrow> diagnostic list option" where
  "any_of_loop rec n path keys all_required closest_r [] =
     Some (if all_required \<and> is_map n
           then [diag_at (Some n) Error ''schema'' path (''lists no property to check: '' @ or_list keys)]
           else (case closest_r of Some r \<Rightarrow> r | None \<Rightarrow> []))"
| "any_of_loop rec n path keys all_required closest_r (b # bs) =
     (let s = as_object b
      in case rec n s path of
           None \<Rightarrow> None
         | Some r \<Rightarrow>
             if errors_in r = 0 then Some []
             else
               let cl = (case closest_r of None \<Rightarrow> Some r | Some c \<Rightarrow> if length r < length c then Some r else Some c)
               in (case field_list s ''required'' of
                     Some [req] \<Rightarrow>
                       if length s = 1 then any_of_loop rec n path (keys @ [sprint req]) all_required cl bs
                       else any_of_loop rec n path keys False cl bs
                   | _ \<Rightarrow> any_of_loop rec n path keys False cl bs))"

definition no_warn :: "ynode \<Rightarrow> string \<Rightarrow> diagnostic list" where
  "no_warn n path =
     (if is_map n \<and> (case get_key n ''severity'' of Some v \<Rightarrow> node_value v = ''warn'' | None \<Rightarrow> False)
      then [diag_at (key_node n ''severity'') Error ''constraint'' path ''set severity on the listener, not on its properties'']
      else [])"

definition ref_check :: "walker \<Rightarrow> checker \<Rightarrow> ynode \<Rightarrow> schema \<Rightarrow> string \<Rightarrow> diagnostic list option" where
  "ref_check w rec n s path =
     (case field_str s ''$ref'' of
        None \<Rightarrow> Some []
      | Some r \<Rightarrow>
          if suffix ''/operatorShape'' r then Some (operator_shape n path)
          else if suffix ''/noWarn'' r then Some (no_warn n path)
          else rec n (def_of w r) path)"

definition not_check :: "checker \<Rightarrow> ynode \<Rightarrow> schema \<Rightarrow> string \<Rightarrow> diagnostic list option" where
  "not_check rec n s path =
     (case field_obj s ''not'' of
        None \<Rightarrow> Some []
      | Some neg \<Rightarrow>
          map_option (\<lambda>ds. if errors_in ds = 0 then [diag_at (Some n) Error ''schema'' path ''not allowed here''] else []) (rec n neg path))"

text \<open>None: the node has one of the types asked for, and the checks go on.\<close>

definition type_check :: "ynode \<Rightarrow> schema \<Rightarrow> string \<Rightarrow> diagnostic option" where
  "type_check n s path =
     (case map_of s ''type'' of
        Some t \<Rightarrow> if type_matches (node_kind n) (schema_types t) then None else Some (type_error n (schema_types t) path)
      | None \<Rightarrow> None)"

definition content_check :: "nat \<Rightarrow> walker \<Rightarrow> checker \<Rightarrow> ynode \<Rightarrow> schema \<Rightarrow> string \<Rightarrow> diagnostic list option" where
  "content_check m w rec n s path =
     map_option (\<lambda>ds.
         (case field_list s ''enum'' of Some es \<Rightarrow> enum_check n es path | None \<Rightarrow> []) @
         (case map_of s ''const'' of
            Some c \<Rightarrow> if \<not> is_scalar n \<or> node_value n \<noteq> sprint c
              then [diag_at (Some n) Error ''schema'' path (''must be '' @ sprint c)] else []
          | None \<Rightarrow> []) @ ds)
       (case n of
          YScalar t v l c \<Rightarrow> Some (scalar_check w n s path)
        | YMap ps l c \<Rightarrow> object_check m w rec n ps s path
        | YSeq xs l c \<Rightarrow> array_check rec n xs s path
        | YAlias a x l c \<Rightarrow> Some [])"

definition node_check :: "nat \<Rightarrow> walker \<Rightarrow> checker \<Rightarrow> ynode \<Rightarrow> schema \<Rightarrow> string \<Rightarrow> diagnostic list option" where
  "node_check m w rec n s path =
     (case those
        [ref_check w rec n s path,
         (case field_list s ''allOf'' of Some bs \<Rightarrow> map_option concat (those (map (\<lambda>b. rec n b path) (objects bs))) | None \<Rightarrow> Some []),
         (case field_list s ''oneOf'' of Some bs \<Rightarrow> one_of_loop m w rec n path [] None bs | None \<Rightarrow> Some []),
         (case field_list s ''anyOf'' of Some bs \<Rightarrow> any_of_loop rec n path [] True None bs | None \<Rightarrow> Some []),
         not_check rec n s path,
         (case type_check n s path of Some d \<Rightarrow> Some [d] | None \<Rightarrow> content_check m w rec n s path)]
      of None \<Rightarrow> None | Some dss \<Rightarrow> Some (concat dss))"

fun schema_check :: "nat \<Rightarrow> walker \<Rightarrow> checker" where
  "schema_check 0 w n s path = None"
| "schema_check (Suc m) w n s path = node_check m w (schema_check m w) (resolve_alias n) s path"

section \<open>Validity\<close>

text \<open>
  What a schema asks of a node, without the report: JSON Schema's keywords as the sources read them
  (\<open>oneOf\<close> asks for a branch, not for exactly one).
\<close>

definition scalar_ok :: "walker \<Rightarrow> ynode \<Rightarrow> schema \<Rightarrow> bool" where
  "scalar_ok w n s \<longleftrightarrow>
     (let k = node_kind n; v = node_value n; len = int (rune_count (ascii v))
      in (if k = ''string'' then
            (case field_str s ''pattern'' of Some p \<Rightarrow> wk_matches w p v | None \<Rightarrow> True) \<and>
            (field_str s ''format'' = Some ''date'' \<longrightarrow> parse_date v \<noteq> None) \<and>
            (case field_num s ''minLength'' of Some lo \<Rightarrow> lo \<le> len | None \<Rightarrow> True) \<and>
            (case field_num s ''maxLength'' of Some hi \<Rightarrow> len \<le> hi | None \<Rightarrow> True)
          else if k = ''integer'' \<or> k = ''number'' then
            (case wk_number w v of None \<Rightarrow> False
             | Some x \<Rightarrow> (case field_num s ''minimum'' of Some lo \<Rightarrow> of_int lo \<le> x | None \<Rightarrow> True) \<and>
                         (case field_num s ''maximum'' of Some hi \<Rightarrow> x \<le> of_int hi | None \<Rightarrow> True))
          else True))"

text \<open>The keys that \<open>unevaluatedProperties\<close> leaves to a schema: its own, and those of its reference and of \<open>allOf\<close>.\<close>

inductive may_hold :: "walker \<Rightarrow> schema \<Rightarrow> string \<Rightarrow> bool" for w where
  own: "field_obj s ''properties'' = Some ps \<Longrightarrow> k \<in> fst ` set ps \<Longrightarrow> may_hold w s k"
| referred: "field_str s ''$ref'' = Some r \<Longrightarrow> may_hold w (def_of w r) k \<Longrightarrow> may_hold w s k"
| all_of: "field_list s ''allOf'' = Some bs \<Longrightarrow> b \<in> set (objects bs) \<Longrightarrow> may_hold w b k \<Longrightarrow> may_hold w s k"

text \<open>The pairs a map counts: a key's first.\<close>

fun first_pairs :: "string list \<Rightarrow> (ynode \<times> ynode) list \<Rightarrow> (ynode \<times> ynode) list" where
  "first_pairs seen [] = []"
| "first_pairs seen (kv # ps) =
     (if node_value (fst kv) \<in> set seen then first_pairs seen ps
      else kv # first_pairs (node_value (fst kv) # seen) ps)"

definition names_ok :: "(ynode \<Rightarrow> schema \<Rightarrow> bool) \<Rightarrow> schema option \<Rightarrow> ynode \<Rightarrow> bool" where
  "names_ok V names key = (case names of None \<Rightarrow> True | Some ns \<Rightarrow> V key ns)"

definition value_ok :: "(ynode \<Rightarrow> schema \<Rightarrow> bool) \<Rightarrow> (string \<Rightarrow> bool) \<Rightarrow> object_rules \<Rightarrow> ynode \<Rightarrow> ynode \<Rightarrow> bool" where
  "value_ok V may r key val =
     (case field_obj (or_props r) (node_value key) of
        Some sub \<Rightarrow> V val sub
      | None \<Rightarrow>
          (case or_extra r of
             Some extra \<Rightarrow> V val extra
           | None \<Rightarrow> or_closed r \<longrightarrow> may (node_value key)))"

definition bounds_ok :: "schema \<Rightarrow> string \<Rightarrow> string \<Rightarrow> nat \<Rightarrow> bool" where
  "bounds_ok s lo hi k \<longleftrightarrow>
     (case field_num s lo of Some l \<Rightarrow> l \<le> int k | None \<Rightarrow> True) \<and> (case field_num s hi of Some h \<Rightarrow> int k \<le> h | None \<Rightarrow> True)"

definition object_ok :: "walker \<Rightarrow> (ynode \<Rightarrow> schema \<Rightarrow> bool) \<Rightarrow> (ynode \<times> ynode) list \<Rightarrow> schema \<Rightarrow> bool" where
  "object_ok w V ps s \<longleftrightarrow>
     (let r = rules_of s None; may = (\<lambda>k. map_of s ''unevaluatedProperties'' = Some (JBool False) \<and> may_hold w s k)
      in (\<forall>kv\<in>set (first_pairs [] ps). names_ok V (or_names r) (fst kv) \<and> value_ok V may r (fst kv) (snd kv)) \<and>
         (case field_list s ''required'' of
            Some req \<Rightarrow> sprint ` set req \<subseteq> (\<lambda>kv. node_value (fst kv)) ` set ps | None \<Rightarrow> True) \<and>
         bounds_ok s ''minProperties'' ''maxProperties'' (length (first_pairs [] ps)))"

definition content_ok :: "walker \<Rightarrow> (ynode \<Rightarrow> schema \<Rightarrow> bool) \<Rightarrow> ynode \<Rightarrow> schema \<Rightarrow> bool" where
  "content_ok w V n s \<longleftrightarrow>
     (case map_of s ''type'' of Some t \<Rightarrow> type_matches (node_kind n) (schema_types t) | None \<Rightarrow> True) \<and>
     (case field_list s ''enum'' of Some es \<Rightarrow> is_scalar n \<and> node_value n \<in> sprint ` set es | None \<Rightarrow> True) \<and>
     (case map_of s ''const'' of Some c \<Rightarrow> is_scalar n \<and> node_value n = sprint c | None \<Rightarrow> True) \<and>
     (case n of
        YScalar t v l c \<Rightarrow> scalar_ok w n s
      | YMap ps l c \<Rightarrow> object_ok w V ps s
      | YSeq xs l c \<Rightarrow>
          (case field_obj s ''items'' of Some items \<Rightarrow> \<forall>x\<in>set xs. V x items | None \<Rightarrow> True) \<and>
          bounds_ok s ''minItems'' ''maxItems'' (length xs)
      | YAlias a x l c \<Rightarrow> True)"

text \<open>
  The two references \<open>check\<close> answers in code, in the schema's own words: one of the four operators, \<open>equals\<close> and
  \<open>oneOf\<close> by themselves; and a listener's property without a severity of warn.
\<close>

definition shape_ok :: "ynode \<Rightarrow> bool" where
  "shape_ok n =
     (case n of
        YMap ps l c \<Rightarrow>
          (let ks = map (\<lambda>p. node_value (fst p)) ps
           in list_ex (\<lambda>k. k \<in> set ks) [''equals'', ''min'', ''max'', ''oneOf''] \<and>
              (''equals'' \<in> set ks \<longrightarrow> list_all (\<lambda>k. k \<notin> set ks) [''min'', ''max'', ''oneOf'']) \<and>
              (''oneOf'' \<in> set ks \<longrightarrow> list_all (\<lambda>k. k \<notin> set ks) [''min'', ''max'']))
      | _ \<Rightarrow> True)"

definition warn_free :: "ynode \<Rightarrow> bool" where
  "warn_free n \<longleftrightarrow> (is_map n \<longrightarrow> (\<forall>v. get_key n ''severity'' = Some v \<longrightarrow> node_value v \<noteq> ''warn''))"

definition branches_ok :: "walker \<Rightarrow> (ynode \<Rightarrow> schema \<Rightarrow> bool) \<Rightarrow> ynode \<Rightarrow> schema \<Rightarrow> bool" where
  "branches_ok w V n s \<longleftrightarrow>
     (case field_str s ''$ref'' of
        None \<Rightarrow> True
      | Some r \<Rightarrow>
          if suffix ''/operatorShape'' r then shape_ok n
          else if suffix ''/noWarn'' r then warn_free n else V n (def_of w r)) \<and>
     (case field_list s ''allOf'' of Some bs \<Rightarrow> \<forall>b\<in>set (objects bs). V n b | None \<Rightarrow> True) \<and>
     (case field_list s ''oneOf'' of Some bs \<Rightarrow> \<exists>b\<in>set bs. V n (as_object b) | None \<Rightarrow> True) \<and>
     (case field_list s ''anyOf'' of Some bs \<Rightarrow> (\<exists>b\<in>set bs. V n (as_object b)) \<or> bs = [] \<and> \<not> is_map n | None \<Rightarrow> True) \<and>
     (case field_obj s ''not'' of Some neg \<Rightarrow> \<not> V n neg | None \<Rightarrow> True)"

definition meets :: "walker \<Rightarrow> (ynode \<Rightarrow> schema \<Rightarrow> bool) \<Rightarrow> ynode \<Rightarrow> schema \<Rightarrow> bool" where
  "meets w V n s \<longleftrightarrow> branches_ok w V (resolve_alias n) s \<and> content_ok w V (resolve_alias n) s"

text \<open>Unfolded \<open>m\<close> times, and for good: satisfied however far the schema is unfolded from some point on.\<close>

fun valid :: "nat \<Rightarrow> walker \<Rightarrow> ynode \<Rightarrow> schema \<Rightarrow> bool" where
  "valid 0 w n s = False"
| "valid (Suc m) w n s = meets w (valid m w) n s"

definition satisfies :: "walker \<Rightarrow> ynode \<Rightarrow> schema \<Rightarrow> bool" where
  "satisfies w n s \<longleftrightarrow> (\<exists>k. \<forall>m\<ge>k. valid m w n s)"

text \<open>A checker that decides \<open>V\<close> and reports errors only.\<close>

definition decides :: "checker \<Rightarrow> (ynode \<Rightarrow> schema \<Rightarrow> bool) \<Rightarrow> bool" where
  "decides rec V \<longleftrightarrow>
     (\<forall>n s path ds. rec n s path = Some ds \<longrightarrow> (ds = [] \<longleftrightarrow> V n s) \<and> list_all (\<lambda>d. d_severity d = Error) ds)"

lemma decidesD:
  "decides rec V \<Longrightarrow> rec n s path = Some ds \<Longrightarrow> (ds = [] \<longleftrightarrow> V n s) \<and> list_all (\<lambda>d. d_severity d = Error) ds"
  by (simp add: decides_def)

lemma errors_in_0: "list_all (\<lambda>d. d_severity d = Error) ds \<Longrightarrow> errors_in ds = 0 \<longleftrightarrow> ds = []"
  by (cases ds) (auto simp: errors_in_def)

lemma those_Some: "those xs = Some ys \<longleftrightarrow> length xs = length ys \<and> (\<forall>i<length xs. xs ! i = Some (ys ! i))"
proof (induction xs arbitrary: ys)
  case (Cons x xs)
  show ?case
  proof (cases x)
    case (Some a)
    then show ?thesis using Cons.IH by (cases ys) (auto simp: nth_Cons split: nat.splits)
  qed (auto intro!: exI [of _ 0])
qed auto

lemma those_map_Some: "those (map f xs) = Some ys \<Longrightarrow> \<forall>x\<in>set xs. \<exists>y\<in>set ys. f x = Some y"
  and those_map_from: "those (map f xs) = Some ys \<Longrightarrow> \<forall>y\<in>set ys. \<exists>x\<in>set xs. f x = Some y"
  by (force simp: those_Some in_set_conv_nth)+

lemma those_decides:
  assumes "decides rec V" "those (map (\<lambda>x. rec (g x) (h x) (p x)) xs) = Some dss"
  shows "(concat dss = [] \<longleftrightarrow> (\<forall>x\<in>set xs. V (g x) (h x))) \<and> list_all (\<lambda>d. d_severity d = Error) (concat dss)"
proof -
  have there: "\<forall>x\<in>set xs. \<exists>ds\<in>set dss. rec (g x) (h x) (p x) = Some ds" using those_map_Some [OF assms(2)] .
  have conv: "\<forall>ds\<in>set dss. \<exists>x\<in>set xs. rec (g x) (h x) (p x) = Some ds" using those_map_from [OF assms(2)] .
  have "concat dss = [] \<longleftrightarrow> (\<forall>ds\<in>set dss. ds = [])" by (simp add: concat_eq_Nil_conv)
  also have "\<dots> \<longleftrightarrow> (\<forall>x\<in>set xs. V (g x) (h x))"
  proof
    assume e: "\<forall>ds\<in>set dss. ds = []"
    show "\<forall>x\<in>set xs. V (g x) (h x)"
    proof
      fix x assume "x \<in> set xs"
      then obtain ds where "ds \<in> set dss" "rec (g x) (h x) (p x) = Some ds" using there by blast
      then show "V (g x) (h x)" using decidesD [OF assms(1)] e by blast
    qed
  next
    assume v: "\<forall>x\<in>set xs. V (g x) (h x)"
    show "\<forall>ds\<in>set dss. ds = []"
    proof
      fix ds assume "ds \<in> set dss"
      then obtain x where "x \<in> set xs" "rec (g x) (h x) (p x) = Some ds" using conv by blast
      then show "ds = []" using decidesD [OF assms(1)] v by blast
    qed
  qed
  finally have 1: "concat dss = [] \<longleftrightarrow> (\<forall>x\<in>set xs. V (g x) (h x))" .
  have "d_severity d = Error" if ds: "ds \<in> set dss" and d: "d \<in> set ds" for ds d
  proof -
    obtain x where x: "x \<in> set xs" "rec (g x) (h x) (p x) = Some ds" using bspec [OF conv ds] by (elim bexE)
    have "list_all (\<lambda>d. d_severity d = Error) ds" using decidesD [OF assms(1) x(2)] by (rule conjunct2)
    then show ?thesis using d unfolding list_all_iff by blast
  qed
  then have "list_all (\<lambda>d. d_severity d = Error) (concat dss)" unfolding list_all_iff set_concat by blast
  then show ?thesis using 1 by blast
qed

abbreviation all_errors :: "diagnostic list \<Rightarrow> bool" where
  "all_errors ds \<equiv> list_all (\<lambda>d. d_severity d = Error) ds"

lemma operator_shape_path: "operator_shape n path = [] \<longleftrightarrow> shape_ok n"
  by (auto simp: operator_shape_def shape_ok_def Let_def split: ynode.splits)

lemma no_warn_path: "no_warn n path = [] \<longleftrightarrow> warn_free n"
  by (auto simp: no_warn_def warn_free_def split: option.splits)

lemma composed_one: "composed s [k] = (case field_list s k of Some bs \<Rightarrow> objects bs | None \<Rightarrow> [])"
  by (simp add: composed_def)

lemma allowed_keys_held: "may_hold w s k \<Longrightarrow> allowed_keys m w s = Some ks \<Longrightarrow> k \<in> set ks"
proof (induction arbitrary: m ks rule: may_hold.induct)
  case (own s ps k)
  then show ?case by (cases m) force+
next
  case (referred s r k)
  then show ?case by (cases m) (auto split: option.splits)
next
  case (all_of s bs b k)
  obtain m' kss where m: "m = Suc m'" and
    "those (map (allowed_keys m' w) ((case field_str s ''$ref'' of Some r \<Rightarrow> [def_of w r] | None \<Rightarrow> []) @ objects bs)) = Some kss"
    and ks: "set (concat kss) \<subseteq> set ks"
    using all_of.prems all_of.hyps(1) by (cases m) (auto simp: composed_one)
  from those_map_Some [OF this(2)] all_of.hyps(2) obtain ks' where "ks' \<in> set kss" "allowed_keys m' w b = Some ks'"
    by (metis Un_iff set_append)
  then show ?case using all_of.IH ks by auto
qed

lemma allowed_keys_hold: "allowed_keys m w s = Some ks \<Longrightarrow> k \<in> set ks \<Longrightarrow> may_hold w s k"
proof (induction m arbitrary: s ks)
  case (Suc m)
  let ?ts = "(case field_str s ''$ref'' of Some r \<Rightarrow> [def_of w r] | None \<Rightarrow> []) @ composed s [''allOf'']"
  obtain kss where kss: "those (map (allowed_keys m w) ?ts) = Some kss"
    "ks = (case field_obj s ''properties'' of Some ps \<Rightarrow> map fst ps | None \<Rightarrow> []) @ concat kss" using Suc.prems(1) by auto
  from Suc.prems(2) kss(2) consider "k \<in> set (case field_obj s ''properties'' of Some ps \<Rightarrow> map fst ps | None \<Rightarrow> [])"
    | ks' where "ks' \<in> set kss" "k \<in> set ks'" by auto
  then show ?case
  proof cases
    case 1
    then show ?thesis by (cases "field_obj s ''properties''") (auto intro!: may_hold.own intro: rev_image_eqI)
  next
    case 2
    then obtain t where "t \<in> set ?ts" "allowed_keys m w t = Some ks'" using those_map_from [OF kss(1)] by blast
    then have "t \<in> set ?ts" "may_hold w t k" using Suc.IH 2(2) by auto
    then show ?thesis
      by (cases "field_str s ''$ref''"; cases "field_list s ''allOf''")
        (auto simp: composed_one intro: may_hold.referred may_hold.all_of)
  qed
qed simp

lemma allowed_keys_exact: "allowed_keys m w s = Some ks \<Longrightarrow> k \<in> set ks \<longleftrightarrow> may_hold w s k"
  using allowed_keys_held allowed_keys_hold by blast

definition may_of :: "object_rules \<Rightarrow> string \<Rightarrow> bool" where
  "may_of r k = (case or_allowed r of None \<Rightarrow> False | Some ks \<Rightarrow> k \<in> set ks)"

lemma single_errors:
  "all_errors (operator_shape n path)" "all_errors (no_warn n path)" "all_errors (enum_check n es path)"
  "all_errors (length_check n s path)" "all_errors (range_check w n s path)"
  by (auto simp: operator_shape_def no_warn_def enum_check_def length_check_def range_check_def Let_def
      split: ynode.splits option.splits)

lemma type_error_severity [simp]: "d_severity (type_error n want path) = Error"
  by (simp add: type_error_def Let_def)

lemma type_check_ok: "type_check n s path = None \<longleftrightarrow>
    (case map_of s ''type'' of Some t \<Rightarrow> type_matches (node_kind n) (schema_types t) | None \<Rightarrow> True)"
  by (simp add: type_check_def split: option.splits)

lemma type_check_error: "type_check n s path = Some d \<Longrightarrow> d_severity d = Error"
  by (auto simp: type_check_def split: option.splits if_splits)

lemma enum_check_ok: "enum_check n es path = [] \<longleftrightarrow> is_scalar n \<and> node_value n \<in> sprint ` set es"
  by (auto simp: enum_check_def list_ex_iff)

lemma length_check_ok:
  "length_check n s path = [] \<longleftrightarrow>
     (case field_num s ''minLength'' of Some lo \<Rightarrow> lo \<le> int (rune_count (ascii (node_value n))) | None \<Rightarrow> True) \<and>
     (case field_num s ''maxLength'' of Some hi \<Rightarrow> int (rune_count (ascii (node_value n))) \<le> hi | None \<Rightarrow> True)"
  by (auto simp: length_check_def Let_def split: option.splits)

lemma range_check_ok:
  "range_check w n s path = [] \<longleftrightarrow>
     (case wk_number w (node_value n) of None \<Rightarrow> False
      | Some x \<Rightarrow> (case field_num s ''minimum'' of Some lo \<Rightarrow> of_int lo \<le> x | None \<Rightarrow> True) \<and>
                  (case field_num s ''maximum'' of Some hi \<Rightarrow> x \<le> of_int hi | None \<Rightarrow> True))"
  by (auto simp: range_check_def Let_def not_less split: option.splits)

lemma scalar_check_ok: "scalar_check w n s path = [] \<longleftrightarrow> scalar_ok w n s"
proof (cases "node_kind n = ''string''")
  case True
  then show ?thesis
    by (auto simp: scalar_check_def scalar_ok_def Let_def length_check_ok split: option.splits)
next
  case False
  then show ?thesis
    by (auto simp: scalar_check_def scalar_ok_def Let_def range_check_ok split: option.splits)
qed

lemma scalar_check_errors: "all_errors (scalar_check w n s path)"
  using single_errors by (auto simp: scalar_check_def Let_def split: option.splits)

lemma name_check_ok:
  assumes "decides rec V" "name_check rec names key p = Some ns"
  shows "(ns = [] \<longleftrightarrow> names_ok V names key) \<and> all_errors ns"
proof (cases names)
  case None
  then show ?thesis using assms(2) by (auto simp: name_check_def names_ok_def)
next
  case (Some sch)
  then obtain ds where ds: "rec key sch p = Some ds" "ns = map key_wording ds" using assms(2) by (auto simp: name_check_def)
  have "d_severity (key_wording d) = d_severity d" for d by (simp add: key_wording_def)
  then show ?thesis using decidesD [OF assms(1) ds(1)] ds(2) Some by (auto simp: names_ok_def list_all_iff)
qed

lemma value_check_ok:
  assumes "decides rec V" "value_check w rec r key val p = Some vs"
  shows "(vs = [] \<longleftrightarrow> value_ok V (may_of r) r key val) \<and> all_errors vs"
proof (cases "field_obj (or_props r) (node_value key)")
  case None
  show ?thesis
  proof (cases "or_extra r")
    case None': None
    then show ?thesis
      using assms(2) None by (auto simp: value_check_def value_ok_def may_of_def unknown_field_def Let_def split: option.splits if_splits)
  next
    case (Some extra)
    then show ?thesis using assms(2) None decidesD [OF assms(1)] by (auto simp: value_check_def value_ok_def)
  qed
next
  case (Some sub)
  then show ?thesis using assms(2) decidesD [OF assms(1)] by (auto simp: value_check_def value_ok_def)
qed

lemma pairs_check_ok:
  assumes "decides rec V"
  shows "pairs_check w rec r path seen ps = Some (ds, seen') \<Longrightarrow>
    (ds = [] \<longleftrightarrow> (\<forall>kv\<in>set (first_pairs seen ps). names_ok V (or_names r) (fst kv) \<and> value_ok V (may_of r) r (fst kv) (snd kv))) \<and>
    all_errors ds \<and> set seen' = set seen \<union> (\<lambda>kv. node_value (fst kv)) ` set ps \<and>
    length seen' = length seen + length (first_pairs seen ps)"
proof (induction ps arbitrary: seen ds)
  case (Cons kv ps)
  obtain key val where kv: "kv = (key, val)" by (cases kv)
  show ?case
  proof (cases "node_value key \<in> set seen")
    case True
    then show ?thesis using Cons.IH [of seen ds] Cons.prems kv by auto
  next
    case False
    let ?p = "child_path path (node_value key)"
    obtain ns vs rest where parts: "name_check rec (or_names r) key ?p = Some ns" "value_check w rec r key val ?p = Some vs"
      "pairs_check w rec r path (node_value key # seen) ps = Some (rest, seen')" "ds = ns @ vs @ rest"
      using Cons.prems False kv by (auto simp: Let_def split: option.splits)
    show ?thesis
      using Cons.IH [OF parts(3)] name_check_ok [OF assms parts(1)] value_check_ok [OF assms parts(2)] parts(4) False kv
      by auto
  qed
qed simp

lemma bounds_diag:
  "(case field_num s lo of Some l \<Rightarrow> if int k < l then [d1 l] else [] | None \<Rightarrow> []) @
   (case field_num s hi of Some h \<Rightarrow> if h < int k then [d2 h] else [] | None \<Rightarrow> []) = [] \<longleftrightarrow> bounds_ok s lo hi k"
  by (auto simp: bounds_ok_def split: option.splits)

lemma counts_check_ok:
  "counts_check n s path seen = [] \<longleftrightarrow>
     (case field_list s ''required'' of Some req \<Rightarrow> sprint ` set req \<subseteq> set seen | None \<Rightarrow> True) \<and>
     bounds_ok s ''minProperties'' ''maxProperties'' (length seen)"
  unfolding counts_check_def append_is_Nil_conv [of "case field_list s ''required'' of None \<Rightarrow> [] | Some req \<Rightarrow> _ req"] bounds_diag
  by (auto simp: filter_empty_conv split: option.splits)

lemma counts_check_errors: "all_errors (counts_check n s path seen)"
  by (auto simp: counts_check_def list_all_iff split: option.splits)

lemma object_check_ok:
  assumes "decides rec V" "object_check m w rec n ps s path = Some ds"
  shows "(ds = [] \<longleftrightarrow> object_ok w V ps s) \<and> all_errors ds"
proof -
  let ?uneval = "map_of s ''unevaluatedProperties'' = Some (JBool False)"
  let ?al = "if ?uneval then allowed_keys m w s else None"
  obtain pds seen where p: "pairs_check w rec (rules_of s ?al) path [] ps = Some (pds, seen)"
    and ds: "ds = pds @ counts_check n s path seen"
    using assms(2) unfolding object_check_def by (cases ?uneval) (auto split: option.splits)
  note q = pairs_check_ok [OF assms(1) p]
  then have seen: "set seen = (\<lambda>kv. node_value (fst kv)) ` set ps" "length seen = length (first_pairs [] ps)" by simp_all
  have fields: "or_names (rules_of s ?al) = or_names (rules_of s None)" by (simp add: rules_of_def)
  have "?uneval \<Longrightarrow> \<exists>ks. allowed_keys m w s = Some ks" using assms(2) by (auto simp: object_check_def split: option.splits)
  then have "may_of (rules_of s ?al) k \<longleftrightarrow> ?uneval \<and> may_hold w s k" for k
    using allowed_keys_exact [of m w s _ k] by (auto simp: may_of_def rules_of_def)
  then have may: "may_of (rules_of s ?al) = (\<lambda>k. ?uneval \<and> may_hold w s k)" by (simp add: fun_eq_iff)
  have same: "value_ok V may (rules_of s ?al) key val = value_ok V may (rules_of s None) key val" for may key val
    unfolding value_ok_def rules_of_def object_rules.simps ..
  have "ds = [] \<longleftrightarrow> object_ok w V ps s"
    unfolding ds append_is_Nil_conv counts_check_ok object_ok_def Let_def seen using q unfolding fields may same by blast
  moreover have "all_errors ds" using q counts_check_errors unfolding ds by simp
  ultimately show ?thesis by blast
qed

lemma enumerate_forall: "(\<forall>ix\<in>set (enumerate k xs). P (snd ix)) \<longleftrightarrow> (\<forall>x\<in>set xs. P x)"
  by (induction xs arbitrary: k) auto

lemma array_check_ok:
  assumes "decides rec V" "array_check rec n xs s path = Some ds"
  shows "(ds = [] \<longleftrightarrow> (case field_obj s ''items'' of Some items \<Rightarrow> \<forall>x\<in>set xs. V x items | None \<Rightarrow> True) \<and>
      bounds_ok s ''minItems'' ''maxItems'' (length xs)) \<and> all_errors ds"
proof -
  obtain dss where dss: "(case field_obj s ''items'' of
        Some items \<Rightarrow> those (map (\<lambda>(i, x). rec x items (index_path path i)) (enumerate 0 xs)) | None \<Rightarrow> Some []) = Some dss"
    and ds: "ds = concat dss @
       (case field_num s ''minItems'' of
          Some lo \<Rightarrow> if int (length xs) < lo then [diag_at (Some n) Error ''empty'' path ''lists no value''] else [] | None \<Rightarrow> []) @
       (case field_num s ''maxItems'' of
          Some hi \<Rightarrow> if hi < int (length xs)
            then [diag_at (Some n) Error ''size'' path (''lists more than '' @ show_int hi @ '' values'')] else []
        | None \<Rightarrow> [])"
    using assms(2) unfolding array_check_def by auto
  have "(concat dss = [] \<longleftrightarrow> (case field_obj s ''items'' of Some items \<Rightarrow> \<forall>x\<in>set xs. V x items | None \<Rightarrow> True)) \<and> all_errors (concat dss)"
  proof (cases "field_obj s ''items''")
    case None
    then show ?thesis using dss by simp
  next
    case (Some items)
    then have "those (map (\<lambda>ix. rec (snd ix) items (index_path path (fst ix))) (enumerate 0 xs)) = Some dss"
      using dss by (simp add: split_def)
    from those_decides [OF assms(1) this] show ?thesis using Some enumerate_forall [of 0 xs "\<lambda>x. V x items"] by simp
  qed
  then show ?thesis
    unfolding ds append_is_Nil_conv [of "concat dss"] bounds_diag by (auto split: option.splits)
qed

lemma first_shortest_in: "first_shortest rs = Some b \<Longrightarrow> b \<in> set rs"
  by (induction rs arbitrary: b) (auto split: option.splits if_splits)

lemma one_of_loop_ok:
  assumes "decides rec V"
  shows "one_of_loop m w rec n path results best bs = Some ds \<Longrightarrow>
    \<forall>r\<in>set results. r \<noteq> [] \<and> all_errors r \<Longrightarrow> best \<noteq> None \<longrightarrow> the best \<in> set results \<Longrightarrow>
    (ds = [] \<longleftrightarrow> (\<exists>b\<in>set bs. V n (as_object b))) \<and> all_errors ds"
proof (induction bs arbitrary: results best)
  case Nil
  then have "ds \<in> set results" using first_shortest_in by (cases best) auto
  then show ?case using Nil(2) by auto
next
  case (Cons b bs)
  obtain r where r: "rec n (as_object b) path = Some r" using Cons.prems(1) by (auto split: option.splits)
  note d = decidesD [OF assms r]
  show ?case
  proof (cases "r = []")
    case True
    then show ?thesis using Cons.prems(1) r d by (auto simp: errors_in_def)
  next
    case False
    then have ne: "errors_in r \<noteq> 0" using errors_in_0 d by blast
    have res: "\<forall>x\<in>set (results @ [r]). x \<noteq> [] \<and> all_errors x" using Cons.prems(2) False d by auto
    obtain best' where "one_of_loop m w rec n path (results @ [r]) best' bs = Some ds"
      "best' \<noteq> None \<longrightarrow> the best' \<in> set (results @ [r])"
    proof (cases best)
      case (Some x)
      then show ?thesis using that [of "Some x"] Cons.prems(1,3) r ne by simp
    next
      case None
      then obtain ks where "kinds m w (as_object b) = Some ks" using Cons.prems(1) r ne by (auto split: option.splits)
      then show ?thesis using that [of "if node_kind n \<in> set ks then Some r else None"] Cons.prems(1) None r ne by simp
    qed
    from Cons.IH [OF this(1) res this(2)] show ?thesis using d False by auto
  qed
qed

lemma any_of_loop_ok:
  assumes "decides rec V"
  shows "any_of_loop rec n path keys all_required c bs = Some ds \<Longrightarrow>
    c \<noteq> None \<longrightarrow> the c \<noteq> [] \<and> all_errors (the c) \<Longrightarrow>
    (ds = [] \<longleftrightarrow> (\<exists>b\<in>set bs. V n (as_object b)) \<or> bs = [] \<and> c = None \<and> \<not> (all_required \<and> is_map n)) \<and> all_errors ds"
proof (induction bs arbitrary: keys all_required c)
  case Nil
  then show ?case by (auto split: option.splits if_splits)
next
  case (Cons b bs)
  obtain r where r: "rec n (as_object b) path = Some r" using Cons.prems(1) by (auto simp: Let_def split: option.splits)
  note d = decidesD [OF assms r]
  show ?case
  proof (cases "r = []")
    case True
    then show ?thesis using Cons.prems(1) r d by (auto simp: errors_in_def Let_def)
  next
    case False
    then have ne: "errors_in r \<noteq> 0" using errors_in_0 d by blast
    let ?c = "case c of None \<Rightarrow> Some r | Some x \<Rightarrow> if length r < length x then Some r else Some x"
    have c: "?c \<noteq> None \<and> the ?c \<noteq> [] \<and> all_errors (the ?c)" using Cons.prems(2) False d by (auto split: option.splits)
    obtain keys' ar where "any_of_loop rec n path keys' ar ?c bs = Some ds"
      using Cons.prems(1) r ne by (auto simp: Let_def split: option.splits list.splits if_splits)
    from Cons.IH [OF this] c show ?thesis using d False by auto
  qed
qed

lemma branches_errors:
  assumes "decides rec V"
  shows "ref_check w rec n s path = Some a \<Longrightarrow>
      (a = [] \<longleftrightarrow> (case field_str s ''$ref'' of None \<Rightarrow> True
       | Some r \<Rightarrow> if suffix ''/operatorShape'' r then shape_ok n
          else if suffix ''/noWarn'' r then warn_free n else V n (def_of w r))) \<and> all_errors a"
    and "not_check rec n s path = Some a \<Longrightarrow>
      (a = [] \<longleftrightarrow> (case field_obj s ''not'' of Some neg \<Rightarrow> \<not> V n neg | None \<Rightarrow> True)) \<and> all_errors a"
proof -
  show "ref_check w rec n s path = Some a \<Longrightarrow>
      (a = [] \<longleftrightarrow> (case field_str s ''$ref'' of None \<Rightarrow> True
       | Some r \<Rightarrow> if suffix ''/operatorShape'' r then shape_ok n
          else if suffix ''/noWarn'' r then warn_free n else V n (def_of w r))) \<and> all_errors a"
    using decidesD [OF assms] operator_shape_path [of n path] no_warn_path [of n path] single_errors(1,2) [of n path]
    by (auto simp: ref_check_def split: option.splits if_splits)
  assume a: "not_check rec n s path = Some a"
  show "(a = [] \<longleftrightarrow> (case field_obj s ''not'' of Some neg \<Rightarrow> \<not> V n neg | None \<Rightarrow> True)) \<and> all_errors a"
  proof (cases "field_obj s ''not''")
    case None
    then show ?thesis using a by (simp add: not_check_def)
  next
    case (Some neg)
    then obtain ds where ds: "rec n neg path = Some ds"
      "a = (if errors_in ds = 0 then [diag_at (Some n) Error ''schema'' path ''not allowed here''] else [])"
      using a by (auto simp: not_check_def)
    then show ?thesis using decidesD [OF assms ds(1)] errors_in_0 [of ds] Some by auto
  qed
qed

lemma content_check_ok:
  assumes "decides rec V" "type_check n s path = None" "content_check m w rec n s path = Some ds"
  shows "(ds = [] \<longleftrightarrow> content_ok w V n s) \<and> all_errors ds"
proof -
  obtain body where body: "(case n of
          YScalar t v l c \<Rightarrow> Some (scalar_check w n s path)
        | YMap ps l c \<Rightarrow> object_check m w rec n ps s path
        | YSeq xs l c \<Rightarrow> array_check rec n xs s path
        | YAlias a x l c \<Rightarrow> Some []) = Some body"
    and ds: "ds = (case field_list s ''enum'' of Some es \<Rightarrow> enum_check n es path | None \<Rightarrow> []) @
         (case map_of s ''const'' of
            Some c \<Rightarrow> if \<not> is_scalar n \<or> node_value n \<noteq> sprint c
              then [diag_at (Some n) Error ''schema'' path (''must be '' @ sprint c)] else []
          | None \<Rightarrow> []) @ body"
    using assms(3) unfolding content_check_def by auto
  have b: "(body = [] \<longleftrightarrow> (case n of
        YScalar t v l c \<Rightarrow> scalar_ok w n s
      | YMap ps l c \<Rightarrow> object_ok w V ps s
      | YSeq xs l c \<Rightarrow>
          (case field_obj s ''items'' of Some items \<Rightarrow> \<forall>x\<in>set xs. V x items | None \<Rightarrow> True) \<and>
          bounds_ok s ''minItems'' ''maxItems'' (length xs)
      | YAlias a x l c \<Rightarrow> True)) \<and> all_errors body"
    using body scalar_check_ok scalar_check_errors object_check_ok [OF assms(1)] array_check_ok [OF assms(1)]
    by (cases n) auto
  have "all_errors ds" using b single_errors(3) unfolding ds by (auto split: option.splits)
  moreover have "ds = [] \<longleftrightarrow> content_ok w V n s"
    using b enum_check_ok type_check_ok [of n s path] assms(2) unfolding ds content_ok_def by (auto split: option.splits)
  ultimately show ?thesis by blast
qed

lemma node_check_ok:
  assumes "decides rec V" "node_check m w rec n s path = Some ds"
  shows "(ds = [] \<longleftrightarrow> branches_ok w V n s \<and> content_ok w V n s) \<and> all_errors ds"
proof -
  obtain a b c d e f where parts: "ref_check w rec n s path = Some a"
    "(case field_list s ''allOf'' of Some bs \<Rightarrow> map_option concat (those (map (\<lambda>b. rec n b path) (objects bs))) | None \<Rightarrow> Some []) = Some b"
    "(case field_list s ''oneOf'' of Some bs \<Rightarrow> one_of_loop m w rec n path [] None bs | None \<Rightarrow> Some []) = Some c"
    "(case field_list s ''anyOf'' of Some bs \<Rightarrow> any_of_loop rec n path [] True None bs | None \<Rightarrow> Some []) = Some d"
    "not_check rec n s path = Some e"
    "(case type_check n s path of Some d \<Rightarrow> Some [d] | None \<Rightarrow> content_check m w rec n s path) = Some f"
    and ds: "ds = a @ b @ c @ d @ e @ f"
    using assms(2) unfolding node_check_def by (auto split: option.splits)
  have b: "(b = [] \<longleftrightarrow> (case field_list s ''allOf'' of Some bs \<Rightarrow> \<forall>b\<in>set (objects bs). V n b | None \<Rightarrow> True)) \<and> all_errors b"
    using parts(2) those_decides [OF assms(1), of "\<lambda>b. n" "\<lambda>b. b" "\<lambda>b. path"] by (auto split: option.splits)
  have c: "(c = [] \<longleftrightarrow> (case field_list s ''oneOf'' of Some bs \<Rightarrow> \<exists>b\<in>set bs. V n (as_object b) | None \<Rightarrow> True)) \<and> all_errors c"
    using parts(3) one_of_loop_ok [OF assms(1), of m w n path "[]" None] by (auto split: option.splits)
  have d: "(d = [] \<longleftrightarrow> (case field_list s ''anyOf'' of Some bs \<Rightarrow> (\<exists>b\<in>set bs. V n (as_object b)) \<or> bs = [] \<and> \<not> is_map n | None \<Rightarrow> True)) \<and> all_errors d"
    using parts(4) any_of_loop_ok [OF assms(1), of n path "[]" True None] by (auto split: option.splits)
  have f: "(f = [] \<longleftrightarrow> content_ok w V n s) \<and> all_errors f"
  proof (cases "type_check n s path")
    case None
    then show ?thesis using parts(6) content_check_ok [OF assms(1)] by simp
  next
    case (Some x)
    then have "f = [x]" "d_severity x = Error" using parts(6) type_check_error by auto
    moreover have "\<not> content_ok w V n s" using type_check_ok [of n s path] Some by (auto simp: content_ok_def)
    ultimately show ?thesis by simp
  qed
  note a = branches_errors(1) [OF assms(1) parts(1)] and e = branches_errors(2) [OF assms(1) parts(5)]
  have "all_errors ds" using a b c d e f unfolding ds by simp
  moreover have "ds = [] \<longleftrightarrow> branches_ok w V n s \<and> content_ok w V n s"
    unfolding ds append_is_Nil_conv branches_ok_def using a b c d e f by blast
  ultimately show ?thesis by blast
qed

lemma schema_check_decides: "decides (schema_check m w) (valid m w)"
proof (induction m)
  case (Suc m)
  show ?case unfolding decides_def
  proof (intro allI impI)
    fix n s path ds assume "schema_check (Suc m) w n s path = Some ds"
    then show "(ds = [] \<longleftrightarrow> valid (Suc m) w n s) \<and> all_errors ds" using node_check_ok [OF Suc] by (simp add: meets_def)
  qed
qed (simp add: decides_def)

section \<open>Termination\<close>

text \<open>
  The schemas \<open>check\<close> applies to the same node, and to a node below. \<open>level k\<close>: no chain of the
  first kind from the schema has \<open>k\<close> links. \<open>closed_under\<close> is what a decoded schema without such a
  cycle satisfies with all its subschemas.
\<close>

definition same_subs :: "walker \<Rightarrow> schema \<Rightarrow> schema list" where
  "same_subs w s =
     (case field_str s ''$ref'' of Some r \<Rightarrow> [def_of w r] | None \<Rightarrow> []) @
     composed s [''allOf'', ''oneOf'', ''anyOf''] @
     concat (map (\<lambda>k. case field_list s k of Some bs \<Rightarrow> map as_object bs | None \<Rightarrow> []) [''oneOf'', ''anyOf'']) @
     (case field_obj s ''not'' of Some neg \<Rightarrow> [neg] | None \<Rightarrow> [])"

definition below_subs :: "schema \<Rightarrow> schema list" where
  "below_subs s =
     (case field_obj s ''properties'' of Some ps \<Rightarrow> objects (map snd ps) | None \<Rightarrow> []) @
     concat (map (\<lambda>k. case field_obj s k of Some o' \<Rightarrow> [o'] | None \<Rightarrow> []) [''additionalProperties'', ''propertyNames'', ''items''])"

fun level :: "nat \<Rightarrow> walker \<Rightarrow> schema \<Rightarrow> bool" where
  "level 0 w s = False"
| "level (Suc k) w s = (\<forall>t\<in>set (same_subs w s). level k w t)"

definition closed_under :: "nat \<Rightarrow> walker \<Rightarrow> schema set \<Rightarrow> bool" where
  "closed_under k w S \<longleftrightarrow>
     (\<forall>s\<in>S. level k w s \<and> set (same_subs w s) \<subseteq> S \<and> set (below_subs s) \<subseteq> S \<and> field_list s ''oneOf'' \<noteq> Some [])"

lemma those_None: "those xs = None \<longleftrightarrow> None \<in> set xs"
  by (induction xs) (auto split: option.splits)

lemma look_through_subs:
  "set ((case field_str s ''$ref'' of Some r \<Rightarrow> [def_of w r] | None \<Rightarrow> []) @ composed s [''allOf'', ''oneOf'', ''anyOf'']) \<subseteq> set (same_subs w s)"
  "set ((case field_str s ''$ref'' of Some r \<Rightarrow> [def_of w r] | None \<Rightarrow> []) @ composed s [''allOf'']) \<subseteq> set (same_subs w s)"
  unfolding same_subs_def composed_def by auto

lemma those_map_total: "set ts \<subseteq> A \<Longrightarrow> (\<And>t. t \<in> A \<Longrightarrow> f t \<noteq> None) \<Longrightarrow> those (map f ts) \<noteq> None"
  unfolding those_None by (metis imageE list.set_map subsetD)

lemma kinds_total: "level k w s \<Longrightarrow> k \<le> m \<Longrightarrow> kinds m w s \<noteq> None"
proof (induction k arbitrary: m s)
  case (Suc k)
  then obtain m' where m: "m = Suc m'" by (cases m) auto
  have "kinds m' w t \<noteq> None" if "t \<in> set (same_subs w s)" for t using Suc that m by simp
  from those_map_total [OF look_through_subs(1) this] show ?case unfolding m by simp
qed simp

lemma allowed_keys_total: "level k w s \<Longrightarrow> k \<le> m \<Longrightarrow> allowed_keys m w s \<noteq> None"
proof (induction k arbitrary: m s)
  case (Suc k)
  then obtain m' where m: "m = Suc m'" by (cases m) auto
  have "allowed_keys m' w t \<noteq> None" if "t \<in> set (same_subs w s)" for t using Suc that m by simp
  from those_map_total [OF look_through_subs(2) this] show ?case unfolding m by simp
qed simp

text \<open>\<open>answers rec N S\<close>: the checker returns on every node smaller than \<open>N\<close> and every schema of \<open>S\<close>.\<close>

definition answers :: "checker \<Rightarrow> nat \<Rightarrow> schema set \<Rightarrow> bool" where
  "answers rec N S \<longleftrightarrow> (\<forall>n s path. size n < N \<longrightarrow> s \<in> S \<longrightarrow> rec n s path \<noteq> None)"

lemma field_obj_objects: "field_obj ps k = Some sub \<Longrightarrow> sub \<in> set (objects (map snd ps))"
  by (auto simp: field_obj_def objects_def List.map_filter_def split: option.splits jvalue.splits dest!: map_of_SomeD)
    (force simp: image_iff)

lemma pairs_check_total:
  assumes "answers rec N S" "set (below_subs s) \<subseteq> S"
  shows "\<forall>kv\<in>set ps. size (fst kv) < N \<and> size (snd kv) < N \<Longrightarrow> pairs_check w rec (rules_of s al) path seen ps \<noteq> None"
proof (induction ps arbitrary: seen)
  case (Cons kv ps)
  obtain key val where kv: "kv = (key, val)" by (cases kv)
  let ?r = "rules_of s al" and ?p = "child_path path (node_value key)"
  have rest: "pairs_check w rec ?r path seen' ps \<noteq> None" for seen' using Cons by simp
  have sub: "field_obj s ''properties'' = Some ps' \<Longrightarrow> field_obj ps' k = Some sub \<Longrightarrow> sub \<in> S" for ps' k sub
    using assms(2) field_obj_objects [of ps' k sub] by (auto simp: below_subs_def)
  have extra: "field_obj s k = Some sub \<Longrightarrow> k \<in> {''additionalProperties'', ''propertyNames''} \<Longrightarrow> sub \<in> S" for k sub
    using assms(2) by (auto simp: below_subs_def)
  have name: "name_check rec (or_names ?r) key ?p \<noteq> None"
    using assms(1) extra [of "''propertyNames''"] Cons.prems kv
    by (auto simp: name_check_def rules_of_def answers_def split: option.splits)
  have val: "value_check w rec ?r key val ?p \<noteq> None"
    using assms(1) extra [of "''additionalProperties''"] sub Cons.prems kv
    by (auto simp: value_check_def rules_of_def answers_def field_obj_def [of "[]"] split: option.splits)
  show ?case using name val rest [of seen] rest [of "node_value key # seen"] kv by (auto simp: Let_def split: option.splits)
qed simp

lemma size_pairs: "kv \<in> set ps \<Longrightarrow> size (fst kv) < size (YMap ps l c) \<and> size (snd kv) < size (YMap ps l c)"
  using size_pair [of kv ps] by simp

lemma content_check_total:
  assumes "answers rec (size n) S" "set (below_subs s) \<subseteq> S" "is_map n \<longrightarrow> allowed_keys m w s \<noteq> None"
  shows "content_check m w rec n s path \<noteq> None"
proof (cases n)
  case (YSeq xs l c)
  have "items \<in> S" if "field_obj s ''items'' = Some items" for items using assms(2) that by (auto simp: below_subs_def)
  then have "those (map (\<lambda>(i, x). rec x items (index_path path i)) (enumerate 0 xs)) \<noteq> None"
    if items: "field_obj s ''items'' = Some items" for items
  proof -
    have "rec x items p \<noteq> None" if "x \<in> set xs" for x p
      using assms(1) items \<open>\<And>items. field_obj s ''items'' = Some items \<Longrightarrow> items \<in> S\<close> YSeq size_item [OF that]
      by (simp add: answers_def)
    moreover have "snd ix \<in> set xs" if "ix \<in> set (enumerate 0 xs)" for ix
      using that nth_mem [of "fst ix" xs] by (auto simp: in_set_enumerate_eq)
    ultimately have "(\<lambda>(i, x). rec x items (index_path path i)) ix \<noteq> None" if "ix \<in> set (enumerate 0 xs)" for ix
      using that by (simp add: case_prod_beta del: not_None_eq)
    then show ?thesis unfolding those_None by (metis (no_types, lifting) imageE list.set_map)
  qed
  then show ?thesis using YSeq by (auto simp: content_check_def array_check_def split: option.splits)
next
  case (YMap ps l c)
  have "pairs_check w rec (rules_of s al) path seen ps \<noteq> None" for al seen
    using size_pairs [of _ ps l c] YMap by (intro pairs_check_total [OF assms(1,2)]) simp
  then show ?thesis using assms(3) YMap
    by (auto simp: content_check_def object_check_def is_map_def split: option.splits) 
qed (simp_all add: content_check_def)

lemma node_check_None:
  "node_check m w rec n s path = None \<longleftrightarrow>
     ref_check w rec n s path = None \<or>
     (case field_list s ''allOf'' of Some bs \<Rightarrow> map_option concat (those (map (\<lambda>b. rec n b path) (objects bs))) | None \<Rightarrow> Some []) = None \<or>
     (case field_list s ''oneOf'' of Some bs \<Rightarrow> one_of_loop m w rec n path [] None bs | None \<Rightarrow> Some []) = None \<or>
     (case field_list s ''anyOf'' of Some bs \<Rightarrow> any_of_loop rec n path [] True None bs | None \<Rightarrow> Some []) = None \<or>
     not_check rec n s path = None \<or>
     (case type_check n s path of Some d \<Rightarrow> Some [d] | None \<Rightarrow> content_check m w rec n s path) = None"
proof -
  have c: "(case those l of None \<Rightarrow> None | Some dss \<Rightarrow> Some (concat dss)) = None \<longleftrightarrow> None \<in> set l" for l :: "diagnostic list option list"
    by (simp add: those_None [symmetric] split: option.split)
  show ?thesis unfolding node_check_def c by (simp only: list.set insert_iff empty_iff simp_thms eq_commute [of None])
qed

lemma one_of_loop_total:
  "\<forall>b\<in>set bs. rec n (as_object b) path \<noteq> None \<and> kinds m w (as_object b) \<noteq> None \<Longrightarrow> bs \<noteq> [] \<or> results \<noteq> [] \<Longrightarrow>
   one_of_loop m w rec n path results best bs \<noteq> None"
proof (induction bs arbitrary: results best)
  case Nil
  then have "first_shortest results \<noteq> None" by (cases results) (auto split: option.splits)
  then show ?case by (cases best) auto
next
  case (Cons b bs)
  obtain r ks where "rec n (as_object b) path = Some r" "kinds m w (as_object b) = Some ks" using Cons.prems(1) by auto
  moreover have "one_of_loop m w rec n path (results @ [r]) best' bs \<noteq> None" for best' r
    using Cons by (intro Cons.IH) auto
  ultimately show ?case by (cases best) simp_all
qed

lemma any_of_loop_total:
  "\<forall>b\<in>set bs. rec n (as_object b) path \<noteq> None \<Longrightarrow> any_of_loop rec n path keys al c bs \<noteq> None"
proof (induction bs arbitrary: keys al c)
  case (Cons b bs)
  obtain r where r: "rec n (as_object b) path = Some r" using Cons.prems by auto
  have "any_of_loop rec n path keys' al' c' bs \<noteq> None" for keys' al' c' using Cons by simp
  then show ?case using r by (simp add: Let_def split: option.splits list.splits)
qed simp

lemma schema_check_total:
  assumes S: "closed_under K w S"
  shows "s \<in> S \<Longrightarrow> level k w s \<Longrightarrow> k \<le> K \<Longrightarrow> k + K * size n \<le> fuel \<Longrightarrow> schema_check fuel w n s path \<noteq> None"
proof (induction fuel arbitrary: n s k path)
  case 0
  then show ?case by (cases k) auto
next
  case (Suc m)
  then obtain k' where k: "k = Suc k'" by (cases k) auto
  let ?n = "resolve_alias n" and ?rec = "schema_check m w"
  have sz: "size ?n \<le> size n" by (induction n rule: resolve_alias.induct) auto
  then have fuel: "k' + K * size ?n \<le> m" using Suc.prems(4) k mult_le_mono2 [OF sz, of K] by linarith
  have same: "?rec ?n t p \<noteq> None" if "t \<in> set (same_subs w s)" for t p
  proof (rule Suc.IH [of t k'])
    show "t \<in> S" using S Suc.prems(1) that by (auto simp: closed_under_def)
    show "level k' w t" using Suc.prems(2) that k by simp
    show "k' \<le> K" "k' + K * size ?n \<le> m" using Suc.prems(3) k fuel by auto
  qed
  have below: "answers ?rec (size ?n) S"
    unfolding answers_def
  proof (intro allI impI)
    fix x :: ynode and t p assume x: "size x < size ?n" "t \<in> S"
    have "K + K * size x \<le> K * size ?n" using x(1) by (metis Suc_leI mult_Suc_right mult_le_mono2)
    then show "?rec x t p \<noteq> None" using S x(2) fuel by (intro Suc.IH [of t K]) (auto simp: closed_under_def)
  qed
  have kinds: "kinds m w t \<noteq> None" if "t \<in> set (same_subs w s)" for t
    using Suc.prems(2) that k fuel by (intro kinds_total [of k']) auto
  have allowed: "allowed_keys m w s \<noteq> None" if "is_map ?n"
  proof -
    have "0 < size ?n" using that by (cases ?n) (auto simp: is_map_def)
    then have "K \<le> K * size ?n" by simp
    then have "k \<le> m" using fuel Suc.prems(3) k by linarith
    then show ?thesis using Suc.prems(2) by (rule_tac allowed_keys_total)
  qed
  have 1: "ref_check w ?rec ?n s p \<noteq> None" for p
    using same by (auto simp: ref_check_def same_subs_def split: option.splits)
  have 2: "those (map (\<lambda>b. ?rec ?n b p) (objects bs)) \<noteq> None" if "field_list s ''allOf'' = Some bs" for bs p
    using that by (intro those_map_total [of _ "set (same_subs w s)"] same) (auto simp: same_subs_def composed_def)
  have 3: "one_of_loop m w ?rec ?n p [] None bs \<noteq> None" if "field_list s ''oneOf'' = Some bs" for bs p
  proof (rule one_of_loop_total)
    have "as_object b \<in> set (same_subs w s)" if "b \<in> set bs" for b using that \<open>field_list s ''oneOf'' = Some bs\<close> by (auto simp: same_subs_def)
    then show "\<forall>b\<in>set bs. ?rec ?n (as_object b) p \<noteq> None \<and> kinds m w (as_object b) \<noteq> None" using same kinds by blast
    show "bs \<noteq> [] \<or> [] \<noteq> []" using S Suc.prems(1) that by (auto simp: closed_under_def)
  qed
  have 4: "any_of_loop ?rec ?n p [] True None bs \<noteq> None" if "field_list s ''anyOf'' = Some bs" for bs p
    using that by (intro any_of_loop_total ballI same) (auto simp: same_subs_def)
  have 5: "not_check ?rec ?n s p \<noteq> None" for p
    using same by (auto simp: not_check_def same_subs_def split: option.splits)
  have 6: "content_check m w ?rec ?n s p \<noteq> None" for p
    using S Suc.prems(1) by (intro content_check_total [OF below]) (auto simp: closed_under_def allowed simp del: not_None_eq)
  have "(case field_list s ''allOf'' of Some bs \<Rightarrow> map_option concat (those (map (\<lambda>b. ?rec ?n b path) (objects bs))) | None \<Rightarrow> Some []) \<noteq> None"
    using 2 by (cases "field_list s ''allOf''") auto
  moreover have "(case field_list s ''oneOf'' of Some bs \<Rightarrow> one_of_loop m w ?rec ?n path [] None bs | None \<Rightarrow> Some []) \<noteq> None"
    using 3 by (cases "field_list s ''oneOf''") auto
  moreover have "(case field_list s ''anyOf'' of Some bs \<Rightarrow> any_of_loop ?rec ?n path [] True None bs | None \<Rightarrow> Some []) \<noteq> None"
    using 4 by (cases "field_list s ''anyOf''") auto
  moreover have "(case type_check ?n s path of Some d \<Rightarrow> Some [d] | None \<Rightarrow> content_check m w ?rec ?n s path) \<noteq> None"
    using 6 by (cases "type_check ?n s path") auto
  ultimately show ?case using 1 [of path] 5 [of path] unfolding schema_check.simps node_check_None by blast
qed

section \<open>More fuel, same answer\<close>

definition extends :: "checker \<Rightarrow> checker \<Rightarrow> bool" where
  "extends rec rec' \<longleftrightarrow> (\<forall>n s path ds. rec n s path = Some ds \<longrightarrow> rec' n s path = Some ds)"

lemma extendsD: "extends rec rec' \<Longrightarrow> rec n s path = Some ds \<Longrightarrow> rec' n s path = Some ds"
  by (simp add: extends_def)

lemma those_mono:
  assumes "\<And>x y. x \<in> set xs \<Longrightarrow> f x = Some y \<Longrightarrow> g x = Some y"
  shows "those (map f xs) = Some ys \<Longrightarrow> those (map g xs) = Some ys"
  using assms unfolding those_Some by auto

lemma kinds_mono: "kinds m w s = Some ks \<Longrightarrow> m \<le> m' \<Longrightarrow> kinds m' w s = Some ks"
proof (induction m arbitrary: s ks m')
  case (Suc m)
  then obtain k where m': "m' = Suc k" "m \<le> k" by (cases m') auto
  let ?ts = "(case field_str s ''$ref'' of Some r \<Rightarrow> [def_of w r] | None \<Rightarrow> []) @ composed s [''allOf'', ''oneOf'', ''anyOf'']"
  obtain kss where kss: "those (map (kinds m w) ?ts) = Some kss" "ks = concat kss @ own_kinds s" using Suc.prems(1) by auto
  have "those (map (kinds k w) ?ts) = Some kss" by (rule those_mono [OF Suc.IH [OF _ m'(2)] kss(1)])
  then show ?case unfolding m'(1) kinds.simps(2) kss(2) by simp
qed simp

lemma allowed_keys_mono: "allowed_keys m w s = Some ks \<Longrightarrow> m \<le> m' \<Longrightarrow> allowed_keys m' w s = Some ks"
proof (induction m arbitrary: s ks m')
  case (Suc m)
  then obtain k where m': "m' = Suc k" "m \<le> k" by (cases m') auto
  let ?ts = "(case field_str s ''$ref'' of Some r \<Rightarrow> [def_of w r] | None \<Rightarrow> []) @ composed s [''allOf'']"
  obtain kss where kss: "those (map (allowed_keys m w) ?ts) = Some kss"
    "ks = (case field_obj s ''properties'' of Some ps \<Rightarrow> map fst ps | None \<Rightarrow> []) @ concat kss" using Suc.prems(1) by auto
  have "those (map (allowed_keys k w) ?ts) = Some kss" by (rule those_mono [OF Suc.IH [OF _ m'(2)] kss(1)])
  then show ?case unfolding m'(1) allowed_keys.simps(2) kss(2) by simp
qed simp


lemma name_check_mono: "extends rec rec' \<Longrightarrow> name_check rec names key p = Some ds \<Longrightarrow> name_check rec' names key p = Some ds"
  by (auto simp: name_check_def dest: extendsD split: option.splits)

lemma value_check_mono: "extends rec rec' \<Longrightarrow> value_check w rec r key val p = Some ds \<Longrightarrow> value_check w rec' r key val p = Some ds"
  by (auto simp: value_check_def dest: extendsD split: option.splits if_splits)

lemma pairs_check_mono:
  "extends rec rec' \<Longrightarrow> pairs_check w rec r path seen ps = Some ds \<Longrightarrow> pairs_check w rec' r path seen ps = Some ds"
proof (induction w rec r path seen ps arbitrary: ds rule: pairs_check.induct)
  case (2 w rec r path seen key val ps)
  then show ?case
    by (auto simp: Let_def name_check_mono value_check_mono split: option.splits if_splits) 
qed simp

lemma object_check_mono:
  assumes "extends rec rec'" "m \<le> m'" "object_check m w rec n ps s path = Some ds"
  shows "object_check m' w rec' n ps s path = Some ds"
  using assms allowed_keys_mono [OF _ assms(2)] pairs_check_mono [OF assms(1)]
  by (fastforce simp: object_check_def split: option.splits if_splits)

lemma array_check_mono:
  assumes "extends rec rec'" "array_check rec n xs s path = Some ds"
  shows "array_check rec' n xs s path = Some ds"
proof (cases "field_obj s ''items''")
  case (Some items)
  have "those (map (\<lambda>(i, x). rec x items (index_path path i)) ixs) = Some dss \<Longrightarrow>
      those (map (\<lambda>(i, x). rec' x items (index_path path i)) ixs) = Some dss" for ixs dss
    by (erule those_mono [rotated]) (auto dest: extendsD [OF assms(1)])
  then show ?thesis using assms(2) Some by (auto simp: array_check_def)
next
  case None
  then show ?thesis using assms(2) by (simp add: array_check_def)
qed

lemma one_of_loop_mono:
  assumes "extends rec rec'" "m \<le> m'"
  shows "one_of_loop m w rec n path results best bs = Some ds \<Longrightarrow> one_of_loop m' w rec' n path results best bs = Some ds"
proof (induction bs arbitrary: results best)
  case (Cons b bs)
  then obtain r where r: "rec n (as_object b) path = Some r" by (auto split: option.splits)
  have r': "rec' n (as_object b) path = Some r" by (rule extendsD [OF assms(1) r])
  have ks: "kinds m w (as_object b) = Some ks \<Longrightarrow> kinds m' w (as_object b) = Some ks" for ks using kinds_mono [OF _ assms(2)] .
  show ?case
  proof (cases best)
    case None
    then show ?thesis using Cons r r' ks by (auto split: if_splits option.splits)
  next
    case (Some x)
    then show ?thesis using Cons r r' by (auto split: if_splits)
  qed
qed simp

lemma any_of_loop_mono:
  assumes "extends rec rec'"
  shows "any_of_loop rec n path keys al c bs = Some ds \<Longrightarrow> any_of_loop rec' n path keys al c bs = Some ds"
proof (induction bs arbitrary: keys al c)
  case (Cons b bs)
  then obtain r where r: "rec n (as_object b) path = Some r" by (auto simp: Let_def split: option.splits)
  have r': "rec' n (as_object b) path = Some r" by (rule extendsD [OF assms r])
  show ?case using Cons r r' by (auto simp: Let_def split: if_splits option.splits list.splits)
qed simp

lemma content_check_mono:
  assumes "extends rec rec'" "m \<le> m'" "content_check m w rec n s path = Some ds"
  shows "content_check m' w rec' n s path = Some ds"
  using assms(3) object_check_mono [OF assms(1,2)] array_check_mono [OF assms(1)]
  by (auto simp: content_check_def split: ynode.splits)

lemma node_check_mono:
  assumes "extends rec rec'" "m \<le> m'" "node_check m w rec n s path = Some ds"
  shows "node_check m' w rec' n s path = Some ds"
proof -
  let ?parts = "\<lambda>m rec. [ref_check w rec n s path,
         (case field_list s ''allOf'' of Some bs \<Rightarrow> map_option concat (those (map (\<lambda>b. rec n b path) (objects bs))) | None \<Rightarrow> Some []),
         (case field_list s ''oneOf'' of Some bs \<Rightarrow> one_of_loop m w rec n path [] None bs | None \<Rightarrow> Some []),
         (case field_list s ''anyOf'' of Some bs \<Rightarrow> any_of_loop rec n path [] True None bs | None \<Rightarrow> Some []),
         not_check rec n s path,
         (case type_check n s path of Some d \<Rightarrow> Some [d] | None \<Rightarrow> content_check m w rec n s path)]"
  obtain dss where dss: "those (?parts m rec) = Some dss" "ds = concat dss" using assms(3) by (auto simp: node_check_def split: option.splits)
  have ref: "ref_check w rec n s path = Some r \<Longrightarrow> ref_check w rec' n s path = Some r" for r
    by (auto simp: ref_check_def dest: extendsD [OF assms(1)] split: option.splits if_splits)
  have neg: "not_check rec n s path = Some r \<Longrightarrow> not_check rec' n s path = Some r" for r
    by (auto simp: not_check_def dest: extendsD [OF assms(1)] split: option.splits)
  have al: "those (map (\<lambda>b. rec n b path) bs) = Some r \<Longrightarrow> those (map (\<lambda>b. rec' n b path) bs) = Some r" for bs r
    by (erule those_mono [rotated]) (auto dest: extendsD [OF assms(1)])
  have "?parts m rec ! i = Some r \<Longrightarrow> ?parts m' rec' ! i = Some r" if "i < 6" for i r
    using that ref neg al one_of_loop_mono [OF assms(1,2)] any_of_loop_mono [OF assms(1)] content_check_mono [OF assms(1,2)]
    by (auto simp: nth_Cons less_Suc_eq numeral_eq_Suc split: nat.splits option.splits)
  then have "those (?parts m' rec') = Some dss" using dss(1) unfolding those_Some by auto
  then show ?thesis using dss(2) by (simp add: node_check_def)
qed

lemma schema_check_mono: "schema_check m w n s path = Some ds \<Longrightarrow> m \<le> m' \<Longrightarrow> schema_check m' w n s path = Some ds"
proof (induction m arbitrary: n s path ds m')
  case (Suc m)
  then obtain k where m': "m' = Suc k" "m \<le> k" by (cases m') auto
  have "extends (schema_check m w) (schema_check k w)" unfolding extends_def using Suc.IH m'(2) by blast
  then show ?case using node_check_mono [OF _ m'(2)] Suc.prems(1) m'(1) by (metis schema_check.simps(2))
qed simp

lemma settled:
  assumes "closed_under K w S" "s \<in> S"
  obtains ds where "\<And>fuel. K + K * size n \<le> fuel \<Longrightarrow> schema_check fuel w n s path = Some ds"
proof -
  have "level K w s" using assms by (simp add: closed_under_def)
  then obtain ds where "schema_check (K + K * size n) w n s path = Some ds"
    using schema_check_total [OF assms _ order_refl order_refl] by blast
  then show thesis using that schema_check_mono by blast
qed

lemma valid_settled:
  assumes "closed_under K w S" "s \<in> S" "K + K * size n \<le> m"
  shows "valid m w n s \<longleftrightarrow> satisfies w n s"
proof -
  obtain ds where ds: "\<And>fuel. K + K * size n \<le> fuel \<Longrightarrow> schema_check fuel w n s [] = Some ds"
    by (rule settled [OF assms(1,2)]) blast
  have same: "valid k w n s \<longleftrightarrow> ds = []" if "K + K * size n \<le> k" for k
    using decidesD [OF schema_check_decides ds [OF that]] by blast
  show ?thesis unfolding satisfies_def same [OF assms(3)]
  proof
    assume "ds = []"
    then show "\<exists>k. \<forall>m\<ge>k. valid m w n s" using same by blast
  next
    assume "\<exists>k. \<forall>m\<ge>k. valid m w n s"
    then obtain k where "\<forall>m\<ge>k. valid m w n s" ..
    then have "valid (max k (K + K * size n)) w n s" by simp
    then show "ds = []" using same by simp
  qed
qed

lemma size_resolve: "size (resolve_alias n) \<le> size n"
  by (induction n rule: resolve_alias.induct) auto

lemma first_pairs_in: "kv \<in> set (first_pairs seen ps) \<Longrightarrow> kv \<in> set ps"
  by (induction ps arbitrary: seen) (auto split: if_splits)

lemma meets_cong:
  assumes V: "\<And>n' t. size n' \<le> size n \<Longrightarrow> t \<in> S \<Longrightarrow> V n' t = V' n' t"
    and S: "set (same_subs w s) \<subseteq> S" "set (below_subs s) \<subseteq> S"
  shows "meets w V n s = meets w V' n s"
proof -
  let ?n = "resolve_alias n"
  have here: "V ?n t = V' ?n t" if "t \<in> set (same_subs w s)" for t using V [OF size_resolve] S(1) that by blast
  have b: "branches_ok w V ?n s = branches_ok w V' ?n s"
  proof -
    have r: "field_str s ''$ref'' = Some r \<Longrightarrow> V ?n (def_of w r) = V' ?n (def_of w r)" for r
      by (rule here) (simp add: same_subs_def)
    have al: "field_list s ''allOf'' = Some bs \<Longrightarrow> b \<in> set (objects bs) \<Longrightarrow> V ?n b = V' ?n b" for bs b
      by (rule here) (simp add: same_subs_def composed_def)
    have oo: "field_list s k = Some bs \<Longrightarrow> k \<in> {''oneOf'', ''anyOf''} \<Longrightarrow> b \<in> set bs \<Longrightarrow> V ?n (as_object b) = V' ?n (as_object b)" for k bs b
      by (rule here) (auto simp: same_subs_def)
    have neg: "field_obj s ''not'' = Some neg \<Longrightarrow> V ?n neg = V' ?n neg" for neg
      by (rule here) (simp add: same_subs_def)
    show ?thesis unfolding branches_ok_def
      by (intro conj_cong option.case_cong refl) (auto simp: r al oo neg)
  qed
  have below: "V x t = V' x t" if "size x < size ?n" "t \<in> set (below_subs s)" for x t
    using V [of x t] S(2) that size_resolve [of n] by auto
  have sub: "field_obj s ''properties'' = Some ps' \<Longrightarrow> field_obj ps' k = Some sub \<Longrightarrow> sub \<in> set (below_subs s)" for ps' k sub
    using field_obj_objects [of ps' k sub] by (auto simp: below_subs_def)
  have extra: "field_obj s k = Some sub \<Longrightarrow> k \<in> {''additionalProperties'', ''propertyNames'', ''items''} \<Longrightarrow> sub \<in> set (below_subs s)" for k sub
    by (auto simp: below_subs_def)
  have c: "content_ok w V ?n s = content_ok w V' ?n s"
  proof (cases ?n)
    case (YMap ps l c)
    have sz: "size (fst kv) < size ?n" "size (snd kv) < size ?n" if "kv \<in> set ps" for kv using size_pairs [OF that] YMap by auto
    have nm: "names_ok V (or_names (rules_of s None)) (fst kv) = names_ok V' (or_names (rules_of s None)) (fst kv)" if "kv \<in> set ps" for kv
      using below [OF sz(1) [OF that]] extra [of "''propertyNames''"] by (auto simp: names_ok_def rules_of_def split: option.splits)
    have vl: "value_ok V may (rules_of s None) (fst kv) (snd kv) = value_ok V' may (rules_of s None) (fst kv) (snd kv)"
      if "kv \<in> set ps" for kv may
      using below [OF sz(2) [OF that]] extra [of "''additionalProperties''"] sub
      by (auto simp: value_ok_def rules_of_def field_obj_def [of "[]"] split: option.splits)
    have "object_ok w V ps s = object_ok w V' ps s"
      unfolding object_ok_def Let_def using nm vl first_pairs_in by (metis (no_types, lifting))
    then show ?thesis by (simp add: content_ok_def YMap)
  next
    case (YSeq xs l c)
    have "V x items = V' x items" if "field_obj s ''items'' = Some items" "x \<in> set xs" for items x
      using that extra [of "''items''"] size_item [OF that(2)] YSeq by (intro below) auto
    then show ?thesis by (auto simp: content_ok_def YSeq split: option.splits)
  qed (simp_all add: content_ok_def)
  show ?thesis unfolding meets_def b c ..
qed

lemma satisfies_meets:
  assumes "closed_under K w S" "s \<in> S"
  shows "satisfies w n s \<longleftrightarrow> meets w (satisfies w) n s"
proof -
  let ?m = "K + K * size n"
  have S: "set (same_subs w s) \<subseteq> S" "set (below_subs s) \<subseteq> S" using assms by (auto simp: closed_under_def)
  have "valid ?m w x t = satisfies w x t" if "size x \<le> size n" "t \<in> S" for x t
    using that by (intro valid_settled [OF assms(1)]) auto
  then have "meets w (valid ?m w) n s = meets w (satisfies w) n s" by (rule meets_cong [OF _ S])
  moreover have "valid (Suc ?m) w n s = satisfies w n s" by (rule valid_settled [OF assms]) simp
  ultimately show ?thesis by simp
qed

section \<open>The KafkaReference schema\<close>

text \<open>
  \<open>kafkareference.v1alpha1.schema.json\<close>, which the sources embed, without its titles and descriptions, which no check
  reads; and how many links a definition's references, branches and negations have.
\<close>

definition reference_defs :: schema where
  "reference_defs =
     [(''dnsLabel'', JObject [(''type'', JStr ''string''), (''pattern'', JStr ''^[a-z0-9]([-a-z0-9]{0,61}[a-z0-9])?$'')]),
     (''severity'', JObject [(''enum'', JArr [JStr ''fail'', JStr ''warn'']), (''default'', JStr ''fail'')]),
     (''operatorShape'', JObject [(''anyOf'', JArr [JObject [(''required'', JArr [JStr ''equals''])], JObject [(''required'',
     JArr [JStr ''min''])], JObject [(''required'', JArr [JStr ''max''])], JObject [(''required'', JArr [JStr ''oneOf''])]]),
     (''dependentSchemas'', JObject [(''equals'', JObject [(''not'', JObject [(''anyOf'', JArr [JObject [(''required'',
     JArr [JStr ''min''])], JObject [(''required'', JArr [JStr ''max''])], JObject [(''required'',
     JArr [JStr ''oneOf''])]])])]), (''oneOf'', JObject [(''not'', JObject [(''anyOf'', JArr [JObject [(''required'',
     JArr [JStr ''min''])], JObject [(''required'', JArr [JStr ''max''])]])])])])]), (''count'', JObject [(''type'',
     JStr ''integer''), (''minimum'', JNum 0), (''maximum'', JNum 10000)]), (''intConstraint'', JObject [(''oneOf'',
     JArr [JObject [(''$ref'', JStr ''#/$defs/count'')], JObject [(''type'', JStr ''object''), (''allOf'',
     JArr [JObject [(''$ref'', JStr ''#/$defs/operatorShape'')]]), (''additionalProperties'', JBool False), (''properties'',
     JObject [(''equals'', JObject [(''$ref'', JStr ''#/$defs/count'')]), (''min'', JObject [(''$ref'',
     JStr ''#/$defs/count'')]), (''max'', JObject [(''$ref'', JStr ''#/$defs/count'')]), (''oneOf'', JObject [(''type'',
     JStr ''array''), (''minItems'', JNum 1), (''maxItems'', JNum 50), (''items'', JObject [(''$ref'',
     JStr ''#/$defs/count'')])]), (''severity'', JObject [(''$ref'', JStr ''#/$defs/severity'')])])]])]), (''port'',
     JObject [(''type'', JStr ''integer''), (''minimum'', JNum 1), (''maximum'', JNum 65535)]), (''portConstraint'',
     JObject [(''oneOf'', JArr [JObject [(''$ref'', JStr ''#/$defs/port'')], JObject [(''type'', JStr ''object''), (''allOf'',
     JArr [JObject [(''$ref'', JStr ''#/$defs/operatorShape'')]]), (''additionalProperties'', JBool False), (''properties'',
     JObject [(''equals'', JObject [(''$ref'', JStr ''#/$defs/port'')]), (''min'', JObject [(''$ref'',
     JStr ''#/$defs/port'')]), (''max'', JObject [(''$ref'', JStr ''#/$defs/port'')]), (''oneOf'', JObject [(''type'',
     JStr ''array''), (''minItems'', JNum 1), (''maxItems'', JNum 50), (''items'', JObject [(''$ref'',
     JStr ''#/$defs/port'')])]), (''severity'', JObject [(''$ref'', JStr ''#/$defs/severity'')])])]])]), (''quantity'',
     JObject [(''oneOf'', JArr [JObject [(''type'', JStr ''number''), (''minimum'', JNum 0)], JObject [(''type'',
     JStr ''string''), (''pattern'', JStr (''^[0-9]+('' @ [CHR 0x5c] @ ''.[0-9]+)?(m|k|M|G|T|P|E|Ki|Mi|Gi|Ti|Pi|Ei)?$''))]])]),
     (''quantityConstraint'', JObject [(''oneOf'', JArr [JObject [(''$ref'', JStr ''#/$defs/quantity'')], JObject [(''type'',
     JStr ''object''), (''allOf'', JArr [JObject [(''$ref'', JStr ''#/$defs/operatorShape'')]]), (''additionalProperties'',
     JBool False), (''properties'', JObject [(''equals'', JObject [(''$ref'', JStr ''#/$defs/quantity'')]), (''min'',
     JObject [(''$ref'', JStr ''#/$defs/quantity'')]), (''max'', JObject [(''$ref'', JStr ''#/$defs/quantity'')]), (''oneOf'',
     JObject [(''type'', JStr ''array''), (''minItems'', JNum 1), (''maxItems'', JNum 50), (''items'', JObject [(''$ref'',
     JStr ''#/$defs/quantity'')])]), (''severity'', JObject [(''$ref'', JStr ''#/$defs/severity'')])])]])]), (''version'',
     JObject [(''type'', JStr ''string''), (''pattern'', JStr (''^v?[0-9]+('' @ [CHR 0x5c] @ ''.[0-9]+){0,3}$''))]),
     (''versionConstraint'', JObject [(''oneOf'', JArr [JObject [(''$ref'', JStr ''#/$defs/version'')], JObject [(''type'',
     JStr ''object''), (''allOf'', JArr [JObject [(''$ref'', JStr ''#/$defs/operatorShape'')]]), (''additionalProperties'',
     JBool False), (''properties'', JObject [(''equals'', JObject [(''$ref'', JStr ''#/$defs/version'')]), (''min'',
     JObject [(''$ref'', JStr ''#/$defs/version'')]), (''max'', JObject [(''$ref'', JStr ''#/$defs/version'')]), (''oneOf'',
     JObject [(''type'', JStr ''array''), (''minItems'', JNum 1), (''maxItems'', JNum 50), (''items'', JObject [(''$ref'',
     JStr ''#/$defs/version'')])]), (''severity'', JObject [(''$ref'', JStr ''#/$defs/severity'')])])]])]),
     (''stringConstraint'', JObject [(''oneOf'', JArr [JObject [(''type'', JStr ''string''), (''minLength'', JNum 1),
     (''maxLength'', JNum 253)], JObject [(''type'', JStr ''object''), (''allOf'', JArr [JObject [(''$ref'',
     JStr ''#/$defs/operatorShape'')]]), (''additionalProperties'', JBool False), (''properties'', JObject [(''equals'',
     JObject [(''type'', JStr ''string''), (''minLength'', JNum 1), (''maxLength'', JNum 253)]), (''oneOf'',
     JObject [(''type'', JStr ''array''), (''minItems'', JNum 1), (''maxItems'', JNum 50), (''items'', JObject [(''type'',
     JStr ''string''), (''minLength'', JNum 1), (''maxLength'', JNum 253)])]), (''severity'', JObject [(''$ref'',
     JStr ''#/$defs/severity'')])])]])]), (''boolConstraint'', JObject [(''oneOf'', JArr [JObject [(''type'',
     JStr ''boolean'')], JObject [(''type'', JStr ''object''), (''additionalProperties'', JBool False), (''required'',
     JArr [JStr ''equals'']), (''properties'', JObject [(''equals'', JObject [(''type'', JStr ''boolean'')]), (''severity'',
     JObject [(''$ref'', JStr ''#/$defs/severity'')])])]])]), (''storageType'', JObject [(''enum'', JArr [JStr ''ephemeral'',
     JStr ''persistent-claim'', JStr ''jbod''])]), (''antiAffinityLevel'', JObject [(''enum'', JArr [JStr ''required'',
     JStr ''preferred'', JStr ''none''])]), (''authType'', JObject [(''enum'', JArr [JStr ''none'', JStr ''tls'',
     JStr ''scram-sha-512'', JStr ''oauth'', JStr ''custom''])]), (''authorizationType'', JObject [(''enum'',
     JArr [JStr ''none'', JStr ''simple'', JStr ''opa'', JStr ''keycloak'', JStr ''custom''])]), (''listenerType'',
     JObject [(''enum'', JArr [JStr ''internal'', JStr ''cluster-ip'', JStr ''route'', JStr ''loadbalancer'',
     JStr ''nodeport'', JStr ''ingress''])]), (''metricsType'', JObject [(''enum'', JArr [JStr ''none'',
     JStr ''jmxPrometheusExporter'', JStr ''strimziMetricsReporter''])]), (''storageTypeConstraint'', JObject [(''oneOf'',
     JArr [JObject [(''$ref'', JStr ''#/$defs/storageType'')], JObject [(''type'', JStr ''object''), (''allOf'',
     JArr [JObject [(''$ref'', JStr ''#/$defs/operatorShape'')]]), (''additionalProperties'', JBool False), (''properties'',
     JObject [(''equals'', JObject [(''$ref'', JStr ''#/$defs/storageType'')]), (''oneOf'', JObject [(''type'',
     JStr ''array''), (''minItems'', JNum 1), (''maxItems'', JNum 50), (''items'', JObject [(''$ref'',
     JStr ''#/$defs/storageType'')])]), (''severity'', JObject [(''$ref'', JStr ''#/$defs/severity'')])])]])]),
     (''antiAffinityConstraint'', JObject [(''oneOf'', JArr [JObject [(''$ref'', JStr ''#/$defs/antiAffinityLevel'')],
     JObject [(''type'', JStr ''object''), (''allOf'', JArr [JObject [(''$ref'', JStr ''#/$defs/operatorShape'')]]),
     (''additionalProperties'', JBool False), (''properties'', JObject [(''equals'', JObject [(''$ref'',
     JStr ''#/$defs/antiAffinityLevel'')]), (''oneOf'', JObject [(''type'', JStr ''array''), (''minItems'', JNum 1),
     (''maxItems'', JNum 50), (''items'', JObject [(''$ref'', JStr ''#/$defs/antiAffinityLevel'')])]), (''severity'',
     JObject [(''$ref'', JStr ''#/$defs/severity'')])])]])]), (''authConstraint'', JObject [(''oneOf'',
     JArr [JObject [(''$ref'', JStr ''#/$defs/authType'')], JObject [(''type'', JStr ''object''), (''allOf'',
     JArr [JObject [(''$ref'', JStr ''#/$defs/operatorShape'')]]), (''additionalProperties'', JBool False), (''properties'',
     JObject [(''equals'', JObject [(''$ref'', JStr ''#/$defs/authType'')]), (''oneOf'', JObject [(''type'', JStr ''array''),
     (''minItems'', JNum 1), (''maxItems'', JNum 50), (''items'', JObject [(''$ref'', JStr ''#/$defs/authType'')])]),
     (''severity'', JObject [(''$ref'', JStr ''#/$defs/severity'')])])]])]), (''authorizationConstraint'', JObject [(''oneOf'',
     JArr [JObject [(''$ref'', JStr ''#/$defs/authorizationType'')], JObject [(''type'', JStr ''object''), (''allOf'',
     JArr [JObject [(''$ref'', JStr ''#/$defs/operatorShape'')]]), (''additionalProperties'', JBool False), (''properties'',
     JObject [(''equals'', JObject [(''$ref'', JStr ''#/$defs/authorizationType'')]), (''oneOf'', JObject [(''type'',
     JStr ''array''), (''minItems'', JNum 1), (''maxItems'', JNum 50), (''items'', JObject [(''$ref'',
     JStr ''#/$defs/authorizationType'')])]), (''severity'', JObject [(''$ref'', JStr ''#/$defs/severity'')])])]])]),
     (''listenerTypeConstraint'', JObject [(''oneOf'', JArr [JObject [(''$ref'', JStr ''#/$defs/listenerType'')],
     JObject [(''type'', JStr ''object''), (''allOf'', JArr [JObject [(''$ref'', JStr ''#/$defs/operatorShape'')]]),
     (''additionalProperties'', JBool False), (''properties'', JObject [(''equals'', JObject [(''$ref'',
     JStr ''#/$defs/listenerType'')]), (''oneOf'', JObject [(''type'', JStr ''array''), (''minItems'', JNum 1), (''maxItems'',
     JNum 50), (''items'', JObject [(''$ref'', JStr ''#/$defs/listenerType'')])]), (''severity'', JObject [(''$ref'',
     JStr ''#/$defs/severity'')])])]])]), (''metricsConstraint'', JObject [(''oneOf'', JArr [JObject [(''$ref'',
     JStr ''#/$defs/metricsType'')], JObject [(''type'', JStr ''object''), (''allOf'', JArr [JObject [(''$ref'',
     JStr ''#/$defs/operatorShape'')]]), (''additionalProperties'', JBool False), (''properties'', JObject [(''equals'',
     JObject [(''$ref'', JStr ''#/$defs/metricsType'')]), (''oneOf'', JObject [(''type'', JStr ''array''), (''minItems'',
     JNum 1), (''maxItems'', JNum 50), (''items'', JObject [(''$ref'', JStr ''#/$defs/metricsType'')])]), (''severity'',
     JObject [(''$ref'', JStr ''#/$defs/severity'')])])]])]), (''configConstraint'', JObject [(''oneOf'',
     JArr [JObject [(''type'', JArr [JStr ''string'', JStr ''number'', JStr ''boolean''])], JObject [(''type'',
     JStr ''object''), (''allOf'', JArr [JObject [(''$ref'', JStr ''#/$defs/operatorShape'')]]), (''additionalProperties'',
     JBool False), (''properties'', JObject [(''equals'', JObject [(''type'', JArr [JStr ''string'', JStr ''number'',
     JStr ''boolean''])]), (''min'', JObject [(''type'', JStr ''number'')]), (''max'', JObject [(''type'', JStr ''number'')]),
     (''oneOf'', JObject [(''type'', JStr ''array''), (''minItems'', JNum 1), (''maxItems'', JNum 50), (''items'',
     JObject [(''type'', JArr [JStr ''string'', JStr ''number'', JStr ''boolean''])])]), (''severity'', JObject [(''$ref'',
     JStr ''#/$defs/severity'')])])]])]), (''resources'', JObject [(''type'', JStr ''object''), (''additionalProperties'',
     JBool False), (''minProperties'', JNum 1), (''properties'', JObject [(''cpu'', JObject [(''$ref'',
     JStr ''#/$defs/quantityConstraint'')]), (''memory'', JObject [(''$ref'', JStr ''#/$defs/quantityConstraint'')])])]),
     (''role'', JObject [(''type'', JStr ''object''), (''minProperties'', JNum 1), (''properties'', JObject [(''count'',
     JObject [(''$ref'', JStr ''#/$defs/intConstraint'')]), (''requests'', JObject [(''$ref'', JStr ''#/$defs/resources'')]),
     (''limits'', JObject [(''$ref'', JStr ''#/$defs/resources'')]), (''storage'', JObject [(''type'', JStr ''object''),
     (''additionalProperties'', JBool False), (''minProperties'', JNum 1), (''properties'', JObject [(''type'',
     JObject [(''$ref'', JStr ''#/$defs/storageTypeConstraint'')]), (''size'', JObject [(''$ref'',
     JStr ''#/$defs/quantityConstraint'')]), (''class'', JObject [(''$ref'', JStr ''#/$defs/stringConstraint'')])])]),
     (''zones'', JObject [(''$ref'', JStr ''#/$defs/intConstraint'')]), (''skew'', JObject [(''$ref'',
     JStr ''#/$defs/intConstraint'')]), (''perNode'', JObject [(''$ref'', JStr ''#/$defs/intConstraint'')]), (''antiAffinity'',
     JObject [(''$ref'', JStr ''#/$defs/antiAffinityConstraint'')])])]), (''requiredListener'', JObject [(''type'',
     JStr ''object''), (''additionalProperties'', JBool False), (''required'', JArr [JStr ''name'']), (''anyOf'',
     JArr [JObject [(''required'', JArr [JStr ''type''])], JObject [(''required'', JArr [JStr ''port''])],
     JObject [(''required'', JArr [JStr ''tls''])], JObject [(''required'', JArr [JStr ''auth''])]]), (''properties'',
     JObject [(''name'', JObject [(''type'', JStr ''string''), (''pattern'', JStr ''^[a-z0-9]{1,11}$'')]), (''type'',
     JObject [(''allOf'', JArr [JObject [(''$ref'', JStr ''#/$defs/listenerTypeConstraint'')], JObject [(''$ref'',
     JStr ''#/$defs/noWarn'')]])]), (''port'', JObject [(''allOf'', JArr [JObject [(''$ref'',
     JStr ''#/$defs/portConstraint'')], JObject [(''$ref'', JStr ''#/$defs/noWarn'')]])]), (''tls'', JObject [(''allOf'',
     JArr [JObject [(''$ref'', JStr ''#/$defs/boolConstraint'')], JObject [(''$ref'', JStr ''#/$defs/noWarn'')]])]), (''auth'',
     JObject [(''allOf'', JArr [JObject [(''$ref'', JStr ''#/$defs/authConstraint'')], JObject [(''$ref'',
     JStr ''#/$defs/noWarn'')]])]), (''severity'', JObject [(''$ref'', JStr ''#/$defs/severity'')])])]), (''noWarn'',
     JObject [(''not'', JObject [(''type'', JStr ''object''), (''required'', JArr [JStr ''severity'']), (''properties'',
     JObject [(''severity'', JObject [(''const'', JStr ''warn'')])])])]), (''waiver'', JObject [(''type'', JStr ''object''),
     (''additionalProperties'', JBool False), (''required'', JArr [JStr ''rule'', JStr ''reason'', JStr ''by'',
     JStr ''until'']), (''properties'', JObject [(''rule'', JObject [(''type'', JStr ''string''), (''maxLength'', JNum 200),
     (''pattern'',
     JStr (''^[a-z][A-Za-z]*('' @ [CHR 0x5c] @ ''.[a-z][A-Za-z]*|'' @ [CHR 0x5c] @ ''[[^'' @ [CHR 0x5c] @ '']]+'' @ [CHR 0x5c] @ ''])*$''))]),
     (''reason'', JObject [(''type'', JStr ''string''), (''minLength'', JNum 1), (''maxLength'', JNum 500)]), (''by'',
     JObject [(''type'', JStr ''string''), (''minLength'', JNum 1), (''maxLength'', JNum 100)]), (''until'',
     JObject [(''type'', JStr ''string''), (''format'', JStr ''date'')])])])]"

definition reference_schema :: schema where
  "reference_schema =
     [(''$schema'', JStr ''https://json-schema.org/draft/2020-12/schema''), (''$id'',
     JStr ''https://raw.githubusercontent.com/bmscomp/kates/main/cli/examples/conformity/kafkareference.v1alpha1.schema.json''),
     (''type'', JStr ''object''), (''additionalProperties'', JBool False), (''required'', JArr [JStr ''apiVersion'',
     JStr ''kind'', JStr ''metadata'', JStr ''spec'']), (''properties'', JObject [(''apiVersion'', JObject [(''const'',
     JStr ''conformity.kates.io/v1alpha1'')]), (''kind'', JObject [(''const'', JStr ''KafkaReference'')]), (''metadata'',
     JObject [(''type'', JStr ''object''), (''additionalProperties'', JBool False), (''required'', JArr [JStr ''name'']),
     (''properties'', JObject [(''name'', JObject [(''type'', JStr ''string''), (''pattern'',
     JStr ''^[a-z0-9]([-a-z0-9]{0,61}[a-z0-9])?$'')]), (''description'', JObject [(''type'', JStr ''string''), (''maxLength'',
     JNum 500)])])]), (''spec'', JObject [(''type'', JStr ''object''), (''additionalProperties'', JBool False),
     (''minProperties'', JNum 1), (''properties'', JObject [(''target'', JObject [(''type'', JStr ''object''),
     (''additionalProperties'', JBool False), (''properties'', JObject [(''platform'', JObject [(''enum'',
     JArr [JStr ''strimzi'']), (''default'', JStr ''strimzi'')]), (''namespace'', JObject [(''$ref'',
     JStr ''#/$defs/dnsLabel'')]), (''name'', JObject [(''$ref'', JStr ''#/$defs/dnsLabel'')]), (''clusterId'',
     JObject [(''type'', JStr ''string''), (''pattern'', JStr ''^[A-Za-z0-9_-]{22}$'')])])]), (''zoneLabel'',
     JObject [(''type'', JStr ''string''), (''default'', JStr ''topology.kubernetes.io/zone''), (''pattern'',
     JStr ''^([a-z0-9]([-a-z0-9.]*[a-z0-9])?/)?[A-Za-z0-9]([-A-Za-z0-9_.]{0,61}[A-Za-z0-9])?$'')]), (''versions'',
     JObject [(''type'', JStr ''object''), (''additionalProperties'', JBool False), (''minProperties'', JNum 1),
     (''properties'', JObject [(''kubernetes'', JObject [(''$ref'', JStr ''#/$defs/versionConstraint'')]), (''strimzi'',
     JObject [(''$ref'', JStr ''#/$defs/versionConstraint'')]), (''kafka'', JObject [(''$ref'',
     JStr ''#/$defs/versionConstraint'')])])]), (''controllers'', JObject [(''allOf'', JArr [JObject [(''$ref'',
     JStr ''#/$defs/role'')]]), (''properties'', JObject [(''dedicated'', JObject [(''$ref'',
     JStr ''#/$defs/boolConstraint'')])]), (''unevaluatedProperties'', JBool False)]), (''brokers'', JObject [(''allOf'',
     JArr [JObject [(''$ref'', JStr ''#/$defs/role'')]]), (''unevaluatedProperties'', JBool False)]), (''kafka'',
     JObject [(''type'', JStr ''object''), (''additionalProperties'', JBool False), (''minProperties'', JNum 1),
     (''properties'', JObject [(''source'', JObject [(''enum'', JArr [JStr ''cr'', JStr ''brokers'']), (''default'',
     JStr ''cr'')]), (''rackAwareness'', JObject [(''$ref'', JStr ''#/$defs/boolConstraint'')]), (''authorization'',
     JObject [(''$ref'', JStr ''#/$defs/authorizationConstraint'')]), (''listeners'', JObject [(''type'', JStr ''object''),
     (''additionalProperties'', JBool False), (''minProperties'', JNum 1), (''properties'', JObject [(''require'',
     JObject [(''type'', JStr ''array''), (''minItems'', JNum 1), (''maxItems'', JNum 50), (''items'', JObject [(''$ref'',
     JStr ''#/$defs/requiredListener'')])]), (''every'', JObject [(''type'', JStr ''object''), (''additionalProperties'',
     JBool False), (''minProperties'', JNum 1), (''properties'', JObject [(''type'', JObject [(''$ref'',
     JStr ''#/$defs/listenerTypeConstraint'')]), (''tls'', JObject [(''$ref'', JStr ''#/$defs/boolConstraint'')]), (''auth'',
     JObject [(''$ref'', JStr ''#/$defs/authConstraint'')])])])])]), (''config'', JObject [(''type'', JStr ''object''),
     (''minProperties'', JNum 1), (''maxProperties'', JNum 200), (''propertyNames'', JObject [(''pattern'',
     JStr ''^[a-z0-9]+([._-][a-z0-9]+)*$''), (''maxLength'', JNum 128)]), (''additionalProperties'', JObject [(''$ref'',
     JStr ''#/$defs/configConstraint'')])])])]), (''topics'', JObject [(''type'', JStr ''object''), (''additionalProperties'',
     JBool False), (''anyOf'', JArr [JObject [(''required'', JArr [JStr ''replicationFactor''])], JObject [(''required'',
     JArr [JStr ''minInsyncReplicas''])]]), (''properties'', JObject [(''replicationFactor'', JObject [(''$ref'',
     JStr ''#/$defs/intConstraint'')]), (''minInsyncReplicas'', JObject [(''$ref'', JStr ''#/$defs/intConstraint'')]),
     (''exclude'', JObject [(''type'', JStr ''array''), (''maxItems'', JNum 50), (''items'', JObject [(''type'',
     JStr ''string''), (''pattern'', JStr ''^[a-zA-Z0-9._-]{1,249}$'')])])])]), (''monitoring'', JObject [(''type'',
     JStr ''object''), (''additionalProperties'', JBool False), (''minProperties'', JNum 1), (''properties'',
     JObject [(''metrics'', JObject [(''$ref'', JStr ''#/$defs/metricsConstraint'')]), (''kafkaExporter'', JObject [(''$ref'',
     JStr ''#/$defs/boolConstraint'')]), (''podMonitor'', JObject [(''$ref'', JStr ''#/$defs/boolConstraint'')])])]),
     (''waivers'', JObject [(''type'', JStr ''array''), (''maxItems'', JNum 200), (''items'', JObject [(''$ref'',
     JStr ''#/$defs/waiver'')])])])])]), (''$defs'', JObject reference_defs)]"

definition reference_ranks :: "(string \<times> nat) list" where
  "reference_ranks =
     [(''dnsLabel'', 1), (''severity'', 1), (''operatorShape'', 2), (''count'', 1), (''intConstraint'', 5), (''port'', 1),
     (''portConstraint'', 5), (''quantity'', 2), (''quantityConstraint'', 5), (''version'', 1), (''versionConstraint'', 5),
     (''stringConstraint'', 5), (''boolConstraint'', 2), (''storageType'', 1), (''antiAffinityLevel'', 1), (''authType'', 1),
     (''authorizationType'', 1), (''listenerType'', 1), (''metricsType'', 1), (''storageTypeConstraint'', 5),
     (''antiAffinityConstraint'', 5), (''authConstraint'', 5), (''authorizationConstraint'', 5), (''listenerTypeConstraint'',
     5), (''metricsConstraint'', 5), (''configConstraint'', 5), (''resources'', 1), (''role'', 1), (''requiredListener'', 2),
     (''noWarn'', 2), (''waiver'', 1)]"

text \<open>
  How deep the references, branches and negations on one node go, from a rank for each definition: a reference must go
  to a smaller rank. Members start again from \<open>K\<close>.
\<close>

fun within :: "(string \<times> nat) list \<Rightarrow> nat \<Rightarrow> nat \<Rightarrow> nat \<Rightarrow> schema \<Rightarrow> bool" where
  "within R K k 0 s = False"
| "within R K 0 (Suc d) s = False"
| "within R K (Suc k) (Suc d) s =
     ((case field_str s ''$ref'' of Some r \<Rightarrow> (case map_of R (trim_prefix ''#/$defs/'' r) of Some j \<Rightarrow> 0 < j \<and> j \<le> k | None \<Rightarrow> False) | None \<Rightarrow> True) \<and>
      field_list s ''oneOf'' \<noteq> Some [] \<and>
      list_all (\<lambda>c. case field_list s c of
          Some bs \<Rightarrow> list_all (\<lambda>b. case b of JObject t \<Rightarrow> within R K k d t | _ \<Rightarrow> False) bs
        | None \<Rightarrow> True) [''allOf'', ''oneOf'', ''anyOf''] \<and>
      (case field_obj s ''not'' of Some neg \<Rightarrow> within R K k d neg | None \<Rightarrow> True) \<and>
      list_all (within R K K d) (below_subs s))"

definition well_ranked :: "(string \<times> nat) list \<Rightarrow> nat \<Rightarrow> nat \<Rightarrow> walker \<Rightarrow> bool" where
  "well_ranked R K d w \<longleftrightarrow>
     list_all (\<lambda>(name, v). case v of
         JObject s \<Rightarrow> (case map_of R name of Some j \<Rightarrow> j \<le> K \<and> within R K j d s | None \<Rightarrow> False) | _ \<Rightarrow> True) (wk_defs w)"

lemma level_mono: "level k w s \<Longrightarrow> k \<le> k' \<Longrightarrow> level k' w s"
proof (induction k arbitrary: s k')
  case (Suc k)
  then show ?case by (cases k') auto
qed simp

lemma ranked_def:
  assumes "well_ranked R K d w" "map_of R (trim_prefix ''#/$defs/'' r) = Some j"
  shows "def_of w r = [] \<or> j \<le> K \<and> within R K j d (def_of w r)"
proof (cases "map_of (wk_defs w) (trim_prefix ''#/$defs/'' r)")
  case (Some v)
  then have "(trim_prefix ''#/$defs/'' r, v) \<in> set (wk_defs w)" by (rule map_of_SomeD)
  then show ?thesis using assms Some by (auto simp: well_ranked_def list_all_iff def_of_def split: jvalue.splits)
qed (simp add: def_of_def)

lemma objects_as: "x \<in> set (objects bs) \<Longrightarrow> \<exists>b\<in>set bs. x = as_object b"
  by (force simp: objects_def List.map_filter_def as_object_def split: jvalue.splits)

lemma same_subs_cases:
  assumes "t \<in> set (same_subs w s)"
  shows "(\<exists>r. field_str s ''$ref'' = Some r \<and> t = def_of w r) \<or> field_obj s ''not'' = Some t \<or>
     (\<exists>c bs b. c \<in> {''allOf'', ''oneOf'', ''anyOf''} \<and> field_list s c = Some bs \<and> b \<in> set bs \<and> t = as_object b)"
proof -
  let ?P = "\<lambda>c. set (case field_list s c of Some bs \<Rightarrow> objects bs | None \<Rightarrow> [])"
    and ?Q = "\<lambda>c. set (case field_list s c of Some bs \<Rightarrow> map as_object bs | None \<Rightarrow> [])"
  have branch: ?thesis if "field_list s c = Some bs" "b \<in> set bs" "t = as_object b" "c \<in> {''allOf'', ''oneOf'', ''anyOf''}" for c bs b
    using that by blast
  have P: ?thesis if "t \<in> ?P c" "c \<in> {''allOf'', ''oneOf'', ''anyOf''}" for c
  proof (cases "field_list s c")
    case (Some bs)
    then have "t \<in> set (objects bs)" using that(1) by simp
    from objects_as [OF this] show ?thesis using branch Some that(2) by blast
  qed (use that in simp)
  have Q: ?thesis if "t \<in> ?Q c" "c \<in> {''allOf'', ''oneOf'', ''anyOf''}" for c
  proof (cases "field_list s c")
    case (Some bs)
    then have "t \<in> as_object ` set bs" using that(1) by simp
    then show ?thesis using branch Some that(2) by blast
  qed (use that in simp)
  have ref: ?thesis if "t \<in> set (case field_str s ''$ref'' of Some r \<Rightarrow> [def_of w r] | None \<Rightarrow> [])"
    using that by (cases "field_str s ''$ref''") auto
  have neg: ?thesis if "t \<in> set (case field_obj s ''not'' of Some neg \<Rightarrow> [neg] | None \<Rightarrow> [])"
    using that by (cases "field_obj s ''not''") auto
  have "t \<in> set (case field_str s ''$ref'' of Some r \<Rightarrow> [def_of w r] | None \<Rightarrow> []) \<or>
      ((t \<in> ?P ''allOf'' \<or> t \<in> ?P ''oneOf'' \<or> t \<in> ?P ''anyOf'') \<or> t \<in> ?Q ''oneOf'' \<or> t \<in> ?Q ''anyOf'') \<or>
      t \<in> set (case field_obj s ''not'' of Some neg \<Rightarrow> [neg] | None \<Rightarrow> [])"
    using assms unfolding same_subs_def composed_def list.map concat.simps set_append append_Nil2 Un_iff
    by (simp only: disj_assoc)
  then show ?thesis by (elim disjE) (erule ref, (erule P, simp)+, (erule Q, simp)+, erule neg)
qed

lemma within_same:
  assumes R: "well_ranked R K d0 w" and s: "within R K (Suc k) (Suc d) s" and t: "t \<in> set (same_subs w s)"
  shows "\<exists>j d. j \<le> k \<and> within R K j d t"
proof -
  have branch: "\<exists>t. b = JObject t \<and> within R K k d t"
    if "c \<in> {''allOf'', ''oneOf'', ''anyOf''}" "field_list s c = Some bs" "b \<in> set bs" for c bs b
  proof -
    have "list_all (\<lambda>b. case b of JObject t \<Rightarrow> within R K k d t | _ \<Rightarrow> False) bs" using s that(1,2) by auto
    then have "case b of JObject t \<Rightarrow> within R K k d t | _ \<Rightarrow> False" using that(3) by (simp add: list_all_iff)
    then show ?thesis by (cases b) auto
  qed
  from same_subs_cases [OF t] consider r where "field_str s ''$ref'' = Some r" "t = def_of w r" | "field_obj s ''not'' = Some t"
    | c bs b where "c \<in> {''allOf'', ''oneOf'', ''anyOf''}" "field_list s c = Some bs" "b \<in> set bs" "t = as_object b"
    by blast
  then show ?thesis
  proof cases
    case 1
    then obtain j where j: "map_of R (trim_prefix ''#/$defs/'' r) = Some j" "0 < j" "j \<le> k" using s by (auto split: option.splits)
    have "within R K (Suc 0) (Suc 0) []" by (simp add: field_str_def field_list_def field_obj_def below_subs_def)
    moreover have "Suc 0 \<le> k" using j by simp
    ultimately show ?thesis using ranked_def [OF R j(1)] 1(2) j(3) by metis
  next
    case 2
    then show ?thesis using s by auto
  next
    case 3
    then obtain u where "b = JObject u" "within R K k d u" using branch [OF 3(1-3)] by blast
    then have "within R K k d t" using 3(4) by (simp add: as_object_def)
    then show ?thesis by blast
  qed
qed

lemma within_level: "well_ranked R K d0 w \<Longrightarrow> within R K k d s \<Longrightarrow> level k w s"
proof (induction k arbitrary: d s rule: less_induct)
  case (less k)
  obtain k' d' where k: "k = Suc k'" "d = Suc d'" using less.prems(2) by (cases k; cases d) auto
  have "level k' w t" if t: "t \<in> set (same_subs w s)" for t
  proof -
    obtain j e where j: "j \<le> k'" "within R K j e t" using within_same [OF less.prems(1) less.prems(2) [unfolded k] t] by blast
    then have "level j w t" using k(1) by (intro less.IH [OF _ less.prems(1)]) auto
    then show ?thesis using level_mono j(1) by blast
  qed
  then show ?case unfolding k by simp
qed

lemma within_closed:
  assumes R: "well_ranked R K d0 w"
  shows "closed_under K w {s. \<exists>k d. k \<le> K \<and> within R K k d s}" (is "closed_under K w ?S")
  unfolding closed_under_def
proof
  fix s assume "s \<in> ?S"
  then obtain k d where k: "k \<le> K" and e: "within R K k d s" by blast
  obtain k' d' where sucs: "k = Suc k'" "d = Suc d'" using e by (cases k; cases d) auto
  note e' = e [unfolded sucs]
  have "t \<in> ?S" if t: "t \<in> set (same_subs w s)" for t
    
  proof -
    obtain j e where "j \<le> k'" "within R K j e t" using within_same [OF R e' t] by blast
    then have "j \<le> K \<and> within R K j e t" using k sucs(1) by simp
    then show ?thesis by blast
  qed
  moreover have "t \<in> ?S" if "t \<in> set (below_subs s)" for t using e' that by (auto simp: list_all_iff)
  moreover have "field_list s ''oneOf'' \<noteq> Some []" using e' by simp
  moreover have "level K w s" using level_mono [OF within_level [OF R e] k] .
  ultimately show "level K w s \<and> set (same_subs w s) \<subseteq> ?S \<and> set (below_subs s) \<subseteq> ?S \<and> field_list s ''oneOf'' \<noteq> Some []"
    by blast
qed

definition decimal :: "string \<Rightarrow> rat option" where
  "decimal v =
     (case map atoi_digits (split_on (CHR ''.'') v) of
        [Some i] \<Rightarrow> Some (of_int i)
      | [Some i, Some f] \<Rightarrow> Some (of_int i + of_int f / 10 ^ (length (dropWhile (\<lambda>c. c \<noteq> CHR ''.'') v) - 1))
      | _ \<Rightarrow> None)"

definition reference_walker :: walker where
  "reference_walker =
     \<lparr>wk_defs = reference_defs, wk_matches = (\<lambda>p v. v \<noteq> []), wk_number = decimal, wk_lower = id, wk_quote = id\<rparr>"

lemma reference_ranked: "well_ranked reference_ranks 8 10 reference_walker"
  by code_simp

lemma reference_within: "within reference_ranks 8 8 10 reference_schema"
  by code_simp

section \<open>Properties\<close>

text \<open>
  C28. The check of a reference returns, and what it returns is right. Over a schema whose references, branches and
  negations reach at most \<open>K\<close> links on one node before going down to a member, and with no empty \<open>oneOf\<close>, the recursion
  is at most \<open>K\<close> deep at each of the nodes on the way down; from that depth on the answer no longer changes. It reports
  nothing exactly when the reference satisfies the schema, and errors only. To satisfy the schema is what its keywords ask
  of the node, the member nodes satisfying their schemas in turn.
\<close>

theorem schema_check_exact:
  assumes "closed_under K w S" and "s \<in> S"
  shows "(\<exists>ds. (\<forall>fuel\<ge>K + K * size n. schema_check fuel w n s path = Some ds) \<and>
        (ds = [] \<longleftrightarrow> satisfies w n s) \<and> all_errors ds) \<and>
      (satisfies w n s \<longleftrightarrow> meets w (satisfies w) n s)"
proof -
  obtain ds where ds: "\<And>fuel. K + K * size n \<le> fuel \<Longrightarrow> schema_check fuel w n s path = Some ds"
    by (rule settled [OF assms]) blast
  have "ds = [] \<longleftrightarrow> satisfies w n s" "all_errors ds"
    using decidesD [OF schema_check_decides ds [OF order_refl]] valid_settled [OF assms order_refl] by auto
  then show ?thesis using ds satisfies_meets [OF assms] by blast
qed

text \<open>
  A reference asking for one version of Kafka, in quotes and without: YAML reads \<open>4.2\<close> as a number, which is no version.
\<close>

definition sample_map :: "(string \<times> ynode) list \<Rightarrow> ynode" where
  "sample_map kvs = YMap (map (\<lambda>(k, v). (YScalar ''!!str'' k 1 1, v)) kvs) 1 1"

definition sample_reference :: "ynode \<Rightarrow> ynode" where
  "sample_reference v = sample_map
     [(''apiVersion'', YScalar ''!!str'' ''conformity.kates.io/v1alpha1'' 1 13), (''kind'', YScalar ''!!str'' ''KafkaReference'' 2 7),
      (''metadata'', sample_map [(''name'', YScalar ''!!str'' ''minimal'' 4 9)]),
      (''spec'', sample_map [(''versions'', sample_map [(''kafka'', v)])])]"

lemma sample_checks:
  "schema_check 40 reference_walker (sample_reference (YScalar ''!!str'' ''4.2.0'' 7 12)) reference_schema [] = Some []"
  by code_simp

lemma sample_refused:
  "\<exists>d. schema_check 40 reference_walker (sample_reference (YScalar ''!!float'' ''4.2'' 7 12)) reference_schema [] = Some [d]"
proof -
  have "(case schema_check 40 reference_walker (sample_reference (YScalar ''!!float'' ''4.2'' 7 12)) reference_schema [] of
      Some [d] \<Rightarrow> True | _ \<Rightarrow> False)" by code_simp
  then show ?thesis by (simp split: option.splits list.splits)
qed

theorem schema_check_exact_witness:
  "satisfies reference_walker (sample_reference (YScalar ''!!str'' ''4.2.0'' 7 12)) reference_schema \<and>
   \<not> satisfies reference_walker (sample_reference (YScalar ''!!float'' ''4.2'' 7 12)) reference_schema"
proof -
  have S: "reference_schema \<in> {s. \<exists>k d. k \<le> 8 \<and> within reference_ranks 8 k d s}" using reference_within by blast
  have "satisfies reference_walker n reference_schema \<longleftrightarrow> ds = []" if "schema_check 40 reference_walker n reference_schema [] = Some ds" for n ds
  proof -
    obtain ds' where ds': "\<forall>fuel\<ge>8 + 8 * size n. schema_check fuel reference_walker n reference_schema [] = Some ds'"
      "ds' = [] \<longleftrightarrow> satisfies reference_walker n reference_schema"
      using schema_check_exact [OF within_closed [OF reference_ranked] S, of n "[]"] by blast
    have "schema_check (max 40 (8 + 8 * size n)) reference_walker n reference_schema [] = Some ds" by (rule schema_check_mono [OF that]) simp
    then show ?thesis using ds' by simp
  qed
  moreover obtain d where "schema_check 40 reference_walker (sample_reference (YScalar ''!!float'' ''4.2'' 7 12)) reference_schema [] = Some [d]"
    using sample_refused ..
  ultimately show ?thesis using sample_checks by (metis list.distinct(1))
qed

end
