(* ===== verification/McpRequests.thy ===== *)
theory McpRequests
  imports Kates_Prelude
begin

text \<open>
  The requests the MCP server may send (\<open>mcpIsReadOnlyRequest\<close> and \<open>mcpAPIPath\<close> of
  \<open>cli/cmd/mcp_guard.go\<close>) and the page arithmetic of its tools (\<open>cli/cmd/mcp_page.go\<close>).

  A URL is what net/url gives the transport: the escaped path, the decoded path and the raw query.
  \<open>routed\<close> is the other side, written here as the specification: the segments a JAX-RS router
  that decodes the path, drops matrix parameters and resolves dot segments would match.
\<close>

section \<open>Paths\<close>

record url =
  u_escaped :: string
  u_path :: string
  u_query :: string

text \<open>\<open>strings.Cut(seg, ";")\<close>: what is before the first matrix parameter.\<close>

definition cut_matrix :: "string \<Rightarrow> string" where
  "cut_matrix seg = takeWhile (\<lambda>c. c \<noteq> CHR '';'') seg"

fun api_segments :: "string list \<Rightarrow> string list option" where
  "api_segments [] = Some []"
| "api_segments (seg # segs) =
     (let s = cut_matrix seg
      in if s = ''.'' \<or> s = ''..'' \<or> s = [] \<and> segs \<noteq> [] then None
         else map_option (\<lambda>rest. s # rest) (api_segments segs))"

definition path_segments :: "string \<Rightarrow> string list option" where
  "path_segments p =
     (if \<not> prefix ''/'' p \<or> CHR 0x5c \<in> set p then None else api_segments (split_on (CHR ''/'') (tl p)))"

definition mcp_api_path :: "string \<Rightarrow> url \<Rightarrow> string option" where
  "mcp_api_path base u =
     (case path_segments (u_escaped u) of
        None \<Rightarrow> None
      | Some _ \<Rightarrow>
          (case path_segments (u_path u) of
             None \<Rightarrow> None
           | Some segs \<Rightarrow>
               (let rel = ''/'' @ join_with ''/'' segs
                in if base \<noteq> [] then (if prefix (base @ ''/'') rel then Some (trim_prefix base rel) else None)
                   else Some rel)))"

definition mcp_never_read :: "string list" where
  "mcp_never_read = [''/api/kafka/consume'', ''/api/security/secrets'', ''/api/security/acl-map'', ''/api/security/auth-test'']"

text \<open>
  \<open>strings.ToLower\<close>, as far as a comparison with ASCII text can see: the ASCII letters, and the
  two other runes whose lower case is ASCII, the Kelvin sign (bytes E2 84 AA) and the dotted
  capital I (C4 B0).
\<close>

definition lower_char :: "char \<Rightarrow> char" where
  "lower_char c = (let n = of_char c :: nat in if 65 \<le> n \<and> n \<le> 90 then char_of (n + 32) else c)"

fun go_to_lower :: "string \<Rightarrow> string" where
  "go_to_lower (a # b # c # s) =
     (if a = CHR 0xE2 \<and> b = CHR 0x84 \<and> c = CHR 0xAA then CHR ''k'' # go_to_lower s
      else if a = CHR 0xC4 \<and> b = CHR 0xB0 then CHR ''i'' # go_to_lower (c # s)
      else lower_char a # go_to_lower (b # c # s))"
| "go_to_lower [a, b] = (if a = CHR 0xC4 \<and> b = CHR 0xB0 then [CHR ''i''] else [lower_char a, lower_char b])"
| "go_to_lower s = map lower_char s"

section \<open>Queries\<close>

definition hex_val :: "char \<Rightarrow> nat option" where
  "hex_val c =
     (let n = of_char c :: nat
      in if 48 \<le> n \<and> n \<le> 57 then Some (n - 48) else if 97 \<le> n \<and> n \<le> 102 then Some (n - 87)
         else if 65 \<le> n \<and> n \<le> 70 then Some (n - 55) else None)"

text \<open>\<open>url.QueryUnescape\<close>: None is its error.\<close>

fun query_unescape :: "string \<Rightarrow> string option" where
  "query_unescape [] = Some []"
| "query_unescape (c # s) =
     (if c = CHR ''%'' then
        (case s of
           a # b # rest \<Rightarrow>
             (case (hex_val a, hex_val b) of
                (Some x, Some y) \<Rightarrow> map_option (\<lambda>r. char_of (16 * x + y) # r) (query_unescape rest)
              | _ \<Rightarrow> None)
         | _ \<Rightarrow> None)
      else map_option (\<lambda>r. (if c = CHR ''+'' then CHR '' '' else c) # r) (query_unescape s))"

text \<open>
  \<open>url.ParseQuery\<close>: None is its error, which any bad part gives; parts that are empty are skipped.
\<close>

fun parse_parts :: "string list \<Rightarrow> (string \<times> string) list option" where
  "parse_parts [] = Some []"
| "parse_parts (part # parts) =
     (if CHR '';'' \<in> set part then None
      else if part = [] then parse_parts parts
      else
        let k = takeWhile (\<lambda>c. c \<noteq> CHR ''='') part; v = drop (length k + 1) part
        in (case (query_unescape k, query_unescape v) of
              (Some key, Some val) \<Rightarrow> map_option (\<lambda>r. (key, val) # r) (parse_parts parts)
            | _ \<Rightarrow> None))"

definition parse_query :: "string \<Rightarrow> (string \<times> string) list option" where
  "parse_query q = parse_parts (split_on (CHR ''&'') q)"

definition mcp_is_read_only_request :: "string \<Rightarrow> string \<Rightarrow> url \<Rightarrow> bool" where
  "mcp_is_read_only_request meth base u =
     (case mcp_api_path base u of
        None \<Rightarrow> False
      | Some rel \<Rightarrow>
          if meth = ''GET'' then
            (let low = go_to_lower rel in \<not> list_ex (\<lambda>p. low = p \<or> prefix (p @ ''/'') low) mcp_never_read)
          else if meth = ''POST'' then
            u_escaped u = base @ ''/api/disruptions'' \<and>
            (case parse_query (u_query u) of
               None \<Rightarrow> False
             | Some q \<Rightarrow>
                 length (remdups (map fst q)) = 1 \<and>
                 (let v = map snd (filter (\<lambda>kv. fst kv = ''dryRun'') q) in length v = 1 \<and> hd v = ''true''))
          else False)"

section \<open>Pages\<close>

text \<open>Errors are the argument's message and value, as \<open>mcpInvalidArgument\<close> takes them.\<close>

definition mcp_page_args :: "int \<Rightarrow> int \<Rightarrow> int \<Rightarrow> int \<Rightarrow> int \<Rightarrow> (string \<times> string) + int" where
  "mcp_page_args offset limit max_offset def max_limit =
     (if offset < 0 \<or> offset > max_offset then
        Inl (''offset must be from 0 to '' @ show_int max_offset @ ''.'', show_int offset)
      else
        let l = (if limit = 0 then def else limit)
        in if l < 1 \<or> l > max_limit then Inl (''limit must be from 1 to '' @ show_int max_limit @ ''.'', show_int l)
           else Inr l)"

definition mcp_next_offset :: "nat \<Rightarrow> nat \<Rightarrow> nat \<Rightarrow> nat option" where
  "mcp_next_offset offset returned tot = (if tot \<le> offset + returned then None else Some (offset + returned))"

definition mcp_past_end :: "nat \<Rightarrow> nat \<Rightarrow> (string \<times> string) option" where
  "mcp_past_end offset tot =
     (if 0 < offset \<and> tot \<le> offset then
        Some (''offset is past the last item ('' @ show_nat tot @
              '' in all); page with nextOffset of the previous result, or start again from 0.'', show_nat offset)
      else None)"

text \<open>\<open>fetch page size\<close> answers the page's items and the backend's total, or an error.\<close>

definition mcp_backend_range :: "nat \<Rightarrow> nat \<Rightarrow> (nat \<Rightarrow> nat \<Rightarrow> 'e + ('a list \<times> nat)) \<Rightarrow> 'e + ('a list \<times> nat)" where
  "mcp_backend_range offset limit fetch =
     (let page = offset div limit; skip = offset mod limit
      in case fetch page limit of
           Inl e \<Rightarrow> Inl e
         | Inr (items, tot) \<Rightarrow>
             (let both = (if 0 < skip \<and> length items = limit \<and> (page + 1) * limit < tot then
                            (case fetch (page + 1) limit of
                               Inl e \<Rightarrow> Inl e
                             | Inr (next_items, t) \<Rightarrow> Inr (items @ next_items, t))
                          else Inr (items, tot))
              in case both of
                   Inl e \<Rightarrow> Inl e
                 | Inr (its, t) \<Rightarrow>
                     if length its \<le> skip then Inr ([], t) else Inr (take limit (drop skip its), t)))"

section \<open>What the router matches\<close>

fun resolve_dots :: "string list \<Rightarrow> string list \<Rightarrow> string list" where
  "resolve_dots acc [] = rev acc"
| "resolve_dots acc (s # ss) =
     (if s = ''.'' then resolve_dots acc ss
      else if s = ''..'' then resolve_dots (tl acc) ss
      else resolve_dots (s # acc) ss)"

definition routed :: "string \<Rightarrow> string list" where
  "routed p = resolve_dots [] (map cut_matrix (split_on (CHR ''/'') (tl p)))"

text \<open>
  A path that says where it goes: from the root, without backslashes, and with no dot segment and no empty segment but the
  last, also behind matrix parameters.
\<close>

definition plain_segments :: "string \<Rightarrow> string list" where
  "plain_segments p = map cut_matrix (split_on (CHR ''/'') (tl p))"

definition plain_path :: "string \<Rightarrow> bool" where
  "plain_path p \<longleftrightarrow>
     prefix ''/'' p \<and> CHR 0x5c \<notin> set p \<and> ''.'' \<notin> set (plain_segments p) \<and> ''..'' \<notin> set (plain_segments p) \<and>
     [] \<notin> set (butlast (plain_segments p))"

lemma api_segments_Some:
  "api_segments segs = Some out \<Longrightarrow>
     out = map cut_matrix segs \<and> ''.'' \<notin> set out \<and> ''..'' \<notin> set out \<and> [] \<notin> set (butlast out)"
  by (induction segs arbitrary: out) (auto simp: Let_def split: if_splits)

lemma resolve_plain: "''.'' \<notin> set ss \<Longrightarrow> ''..'' \<notin> set ss \<Longrightarrow> resolve_dots acc ss = rev acc @ ss"
  by (induction ss arbitrary: acc) auto

lemma path_segments_plain: "path_segments p = Some segs \<Longrightarrow> plain_path p \<and> segs = plain_segments p"
  by (auto simp: path_segments_def plain_path_def plain_segments_def split: if_splits dest!: api_segments_Some)

lemma plain_path_routed: "plain_path p \<Longrightarrow> routed p = plain_segments p"
  by (simp add: plain_path_def routed_def plain_segments_def resolve_plain)

lemma trim_prefix_prefix: "prefix b s \<Longrightarrow> s = b @ trim_prefix b s"
  by (auto simp: trim_prefix_def cut_prefix_def prefix_def)

lemma api_path_routed:
  assumes "mcp_api_path base u = Some rel"
  shows "plain_path (u_escaped u) \<and> plain_path (u_path u) \<and>
    ''/'' @ join_with ''/'' (plain_segments (u_path u)) = base @ rel \<and> prefix ''/'' rel"
proof -
  obtain segs' where "path_segments (u_escaped u) = Some segs'"
    using assms by (auto simp: mcp_api_path_def split: option.splits)
  then have esc: "plain_path (u_escaped u)" using path_segments_plain by blast
  obtain segs where segs: "path_segments (u_path u) = Some segs"
    using assms by (auto simp: mcp_api_path_def split: option.splits)
  let ?r = "''/'' @ join_with ''/'' segs"
  have rel: "if base = [] then rel = ?r else prefix (base @ ''/'') ?r \<and> rel = trim_prefix base ?r"
    using assms segs by (auto simp: mcp_api_path_def Let_def split: option.splits if_splits)
  show ?thesis
  proof (cases "base = []")
    case True
    then show ?thesis using rel path_segments_plain [OF segs] esc by simp
  next
    case False
    then obtain rest where r: "?r = base @ ''/'' @ rest" using rel by (auto simp: prefix_def)
    then have "?r = base @ trim_prefix base ?r" by (intro trim_prefix_prefix) simp
    then have "rel = ''/'' @ rest" using r False rel by simp
    then show ?thesis using path_segments_plain [OF segs] esc r by simp
  qed
qed

lemma go_to_lower_slash: "go_to_lower (CHR ''/'' # s) = CHR ''/'' # go_to_lower s"
proof -
  have [simp]: "lower_char (CHR ''/'') = CHR ''/''" by code_simp
  show ?thesis by (cases s; cases "tl s") simp_all
qed

lemma join_with_append:
  "ps \<noteq> [] \<Longrightarrow> qs \<noteq> [] \<Longrightarrow> join_with sep (ps @ qs) = join_with sep ps @ sep @ join_with sep qs"
proof (induction ps rule: list_nonempty_induct)
  case (single p)
  then show ?case by (cases qs) auto
next
  case (cons p ps)
  then obtain q qs' where "ps @ qs = q # qs'" by (cases "ps @ qs") auto
  moreover obtain p' ps' where "ps = p' # ps'" using cons by (cases ps) auto
  ultimately show ?case using cons by simp
qed

lemma segment_prefix:
  assumes "prefix (split_on CHR ''/'' p) (split_on CHR ''/'' s)"
  shows "s = p \<or> prefix (p @ ''/'') s"
proof -
  obtain qs where qs: "split_on CHR ''/'' s = split_on CHR ''/'' p @ qs" using assms by (auto simp: prefix_def)
  show ?thesis
  proof (cases "qs = []")
    case True
    then show ?thesis using qs join_split_on by (metis append_Nil2)
  next
    case False
    have "s = join_with ''/'' (split_on CHR ''/'' p @ qs)" using qs join_split_on by metis
    then show ?thesis using False by (simp add: join_with_append)
  qed
qed

section \<open>What the transport and the pages promise\<close>

text \<open>
  C34. A GET the server may send goes where it is written to go. Its path, as escaped and as decoded, starts at the root and
  has no backslash, no dot segment and no empty segment but a last one, also behind matrix parameters; so a router that
  decodes the path, drops matrix parameters and resolves dot segments matches its segments one by one, as they are written.
  They are the API's base path and a path below it that, in any case of its letters, is not in the tree of one the server
  never reads.
\<close>

theorem get_never_reads:
  assumes "mcp_is_read_only_request ''GET'' base u"
  shows "plain_path (u_escaped u) \<and> plain_path (u_path u) \<and> routed (u_path u) = plain_segments (u_path u) \<and>
    (\<exists>rel. prefix ''/'' rel \<and> ''/'' @ join_with ''/'' (plain_segments (u_path u)) = base @ rel \<and>
      \<not> list_ex (\<lambda>p. prefix (split_on CHR ''/'' (tl p)) (split_on CHR ''/'' (tl (go_to_lower rel)))) mcp_never_read)"
proof -
  obtain rel where rel: "mcp_api_path base u = Some rel"
    using assms by (auto simp: mcp_is_read_only_request_def split: option.splits)
  note r = api_path_routed [OF rel]
  then obtain x where x: "rel = CHR ''/'' # x" by (auto simp: prefix_def)
  have ok: "\<not> list_ex (\<lambda>p. go_to_lower rel = p \<or> prefix (p @ ''/'') (go_to_lower rel)) mcp_never_read"
    using assms rel by (simp add: mcp_is_read_only_request_def Let_def)
  have "go_to_lower rel = p \<or> prefix (p @ ''/'') (go_to_lower rel)"
    if "p \<in> set mcp_never_read" "prefix (split_on CHR ''/'' (tl p)) (split_on CHR ''/'' (tl (go_to_lower rel)))" for p
  proof -
    have "p = CHR ''/'' # tl p" using that(1) by (auto simp: mcp_never_read_def)
    then obtain q where "p = CHR ''/'' # q" by blast
    then show ?thesis using segment_prefix [of "tl p" "tl (go_to_lower rel)"] that(2) x by (simp add: go_to_lower_slash)
  qed
  then have "\<not> list_ex (\<lambda>p. prefix (split_on CHR ''/'' (tl p)) (split_on CHR ''/'' (tl (go_to_lower rel)))) mcp_never_read"
    using ok by (auto simp: list_ex_iff)
  then show ?thesis using r plain_path_routed by blast
qed

theorem get_never_reads_witness:
  "plain_path ''/kates/api/tests;v=1/0a1b2c3d'' \<and>
   routed ''/kates/api/tests;v=1/0a1b2c3d'' = [''kates'', ''api'', ''tests'', ''0a1b2c3d''] \<and>
   \<not> mcp_is_read_only_request ''GET'' ''/kates''
       \<lparr>u_escaped = ''/kates/api/tests/%2E%2E/kafka/topics'', u_path = ''/kates/api/tests/../kafka/topics'', u_query = []\<rparr>"
proof -
  let ?u = "\<lparr>u_escaped = ''/kates/api/tests;v=1/0a1b2c3d'', u_path = ''/kates/api/tests;v=1/0a1b2c3d'', u_query = []\<rparr>"
    and ?steered = "\<lparr>u_escaped = ''/kates/api/tests/%2E%2E/kafka/topics'', u_path = ''/kates/api/tests/../kafka/topics'', u_query = []\<rparr>"
  have "mcp_is_read_only_request ''GET'' ''/kates'' ?u" by code_simp
  from get_never_reads [OF this] have "plain_path (u_path ?u) \<and> routed (u_path ?u) = plain_segments (u_path ?u)" by blast
  moreover have "plain_segments ''/kates/api/tests;v=1/0a1b2c3d'' = [''kates'', ''api'', ''tests'', ''0a1b2c3d'']" by code_simp
  moreover have "\<not> plain_path ''/kates/api/tests/../kafka/topics''" by code_simp
  then have "\<not> mcp_is_read_only_request ''GET'' ''/kates'' ?steered" using get_never_reads [of "''/kates''" ?steered] by auto
  ultimately show ?thesis by simp
qed

lemma one_key_one_value:
  "length (remdups (map fst q)) = 1 \<and>
   (let v = map snd (filter (\<lambda>kv. fst kv = k) q) in length v = 1 \<and> hd v = w) \<longleftrightarrow> q = [(k, w)]"
proof
  assume l: "length (remdups (map fst q)) = 1 \<and> (let v = map snd (filter (\<lambda>kv. fst kv = k) q) in length v = 1 \<and> hd v = w)"
  then obtain k' where k': "set (map fst q) = {k'}" by (metis One_nat_def length_0_conv length_Suc_conv list.set set_remdups)
  have "filter (\<lambda>kv. fst kv = k) q \<noteq> []" using l by (auto simp: Let_def)
  then have "k \<in> fst ` set q" by (auto simp: filter_empty_conv)
  then have "\<forall>kv\<in>set q. fst kv = k" using k' by auto
  then have "filter (\<lambda>kv. fst kv = k) q = q" by (simp add: filter_id_conv)
  then have "length q = 1" "hd (map snd q) = w" using l by (auto simp: Let_def)
  then show "q = [(k, w)]" using \<open>\<forall>kv\<in>set q. fst kv = k\<close> by (cases q) auto
qed (simp add: Let_def)

text \<open>
  The only requests besides GET that the server may send are the disruption dry runs: a POST to
  \<open>/api/disruptions\<close> whose query decodes to \<open>dryRun=true\<close> and nothing else.
\<close>

theorem only_dry_runs:
  assumes "meth \<noteq> ''GET''"
  shows "mcp_is_read_only_request meth base u \<longleftrightarrow>
    meth = ''POST'' \<and> mcp_api_path base u \<noteq> None \<and> u_escaped u = base @ ''/api/disruptions'' \<and>
    parse_query (u_query u) = Some [(''dryRun'', ''true'')]"
  using assms one_key_one_value [of _ "''dryRun''" "''true''"]
  by (auto simp: mcp_is_read_only_request_def split: option.splits)

theorem only_dry_runs_witness:
  "\<not> mcp_is_read_only_request ''POST'' []
      \<lparr>u_escaped = ''/api/disruptions'', u_path = ''/api/disruptions'', u_query = ''dryRun=false&dryRun=true''\<rparr>"
proof -
  have "parse_query ''dryRun=false&dryRun=true'' \<noteq> Some [(''dryRun'', ''true'')]" by code_simp
  then show ?thesis using only_dry_runs [of "''POST''"] by simp
qed

text \<open>
  \<open>mcpBackendRange\<close> turns a backend paged by page number into one read by offset: from a backend
  whose page \<open>p\<close> of size \<open>n\<close> holds items \<open>p n\<close> to \<open>p n + n\<close> it returns exactly the \<open>limit\<close>
  items from \<open>offset\<close>, and the total.
\<close>

theorem backend_range_exact:
  assumes "\<And>page size. fetch page size = Inr (take size (drop (page * size) xs), length xs)" "0 < limit"
  shows "mcp_backend_range offset limit fetch = Inr (take limit (drop offset xs), length xs)"
proof -
  define page skip where "page = offset div limit" "skip = offset mod limit"
  have off: "page * limit + skip = offset" "skip < limit" using assms(2) by (auto simp: page_skip_def)
  let ?items = "take limit (drop (page * limit) xs)"
  show ?thesis
  proof (cases "0 < skip \<and> length ?items = limit \<and> (page + 1) * limit < length xs")
    case True
    have "?items @ take limit (drop ((page + 1) * limit) xs) = take (limit + limit) (drop (page * limit) xs)"
      by (simp add: take_add algebra_simps)
    moreover have "take limit (drop skip (take (limit + limit) (drop (page * limit) xs))) = take limit (drop offset xs)"
      using off by (simp add: drop_take min_def add.commute)
    moreover have "skip < length (take (limit + limit) (drop (page * limit) xs))"
      using True off(2) by (simp add: min_def split: if_splits)
    ultimately show ?thesis
      using True by (simp add: mcp_backend_range_def assms(1) page_skip_def [symmetric] Let_def) (simp add: min_def split: if_splits)
  next
    case False
    have "take limit (drop skip ?items) = take limit (drop offset xs)"
    proof (cases "skip = 0")
      case True
      then show ?thesis using off by simp
    next
      case s: False
      then have "length xs \<le> page * limit + limit" using False off by (auto simp: min_def not_less split: if_splits)
      then show ?thesis using off by (simp add: add.commute)
    qed
    moreover have "length ?items \<le> skip \<Longrightarrow> take limit (drop offset xs) = []"
      using calculation by (metis drop_all take_Nil)
    ultimately show ?thesis
      using False by (auto simp: mcp_backend_range_def assms(1) page_skip_def [symmetric] Let_def)
  qed
qed

theorem backend_range_exact_witness:
  "mcp_backend_range 3 2 (\<lambda>page size. (Inr (take size (drop (page * size) ''abcdef''), 6) :: unit + string \<times> nat)) = Inr (''de'', 6)"
  using backend_range_exact [of "\<lambda>page size. Inr (take size (drop (page * size) ''abcdef''), 6)" "''abcdef''" 2 3] by (simp add: eval_nat_numeral)

text \<open>
  A caller that follows \<open>nextOffset\<close>: the page at \<open>o\<close> has \<open>k o\<close> items, or what is left; None when
  the fuel runs out first.
\<close>

fun follow_pages :: "nat \<Rightarrow> (nat \<Rightarrow> nat) \<Rightarrow> 'a list \<Rightarrow> nat \<Rightarrow> 'a list option" where
  "follow_pages 0 k xs off = None"
| "follow_pages (Suc n) k xs off =
     (let page = take (k off) (drop off xs)
      in case mcp_next_offset off (length page) (length xs) of
           None \<Rightarrow> Some page
         | Some off' \<Rightarrow> map_option (\<lambda>rest. page @ rest) (follow_pages n k xs off'))"

text \<open>
  Paging ends and loses nothing: a caller that follows \<open>nextOffset\<close> from an offset gets every
  item from there on, once and in order, after at most as many pages as there are items, however
  short the pages, as long as none is empty.
\<close>

theorem paging_complete:
  assumes "\<And>off. 0 < k off"
  shows "length xs - off \<le> n \<Longrightarrow> follow_pages (Suc n) k xs off = Some (drop off xs)"
proof (induction n arbitrary: off)
  case 0
  then show ?case by (simp add: mcp_next_offset_def Let_def)
next
  case (Suc n)
  let ?page = "take (k off) (drop off xs)"
  show ?case
  proof (cases "length xs \<le> off + length ?page")
    case True
    then have "length xs - off \<le> k off" by auto
    then show ?thesis using True by (simp add: mcp_next_offset_def Let_def)
  next
    case False
    then have k: "length ?page = k off" "off + k off < length xs" by auto
    then have "follow_pages (Suc n) k xs (off + k off) = Some (drop (off + k off) xs)"
      using Suc.prems assms [of off] by (intro Suc.IH) linarith
    then have "follow_pages (Suc (Suc n)) k xs off = Some (?page @ drop (off + k off) xs)"
      using k False by (simp only: follow_pages.simps(2) [of "Suc n"] mcp_next_offset_def Let_def) simp
    then have "follow_pages (Suc (Suc n)) k xs off = Some (take (k off) (drop off xs) @ drop (k off) (drop off xs))"
      by (simp add: add.commute)
    then show ?thesis by (simp only: append_take_drop_id)
  qed
qed

theorem paging_complete_witness:
  "follow_pages 7 (\<lambda>off. 1 + off mod 2) ''abcdef'' 0 = Some ''abcdef''"
  using paging_complete [of "\<lambda>off. 1 + off mod 2" "''abcdef''" 0 6] by simp

end
