(* ===== verification/McpGuard.thy ===== *)
theory McpGuard
  imports Untrusted
begin

text \<open>
  The guard of \<open>kates mcp\<close> (\<open>cli/cmd/mcp_guard.go\<close>): the fixed error vocabulary and how any error
  is classified into it, the pin that holds every call to one Kafka cluster, the in-flight cap and
  the rate limit, the envelope with its size cap and last look, and the error results. The
  concurrent life of the calls is in McpCalls.

  The rate limiter (golang.org/x/time/rate) and encoding/json are not this repository's: the
  limiter's state is the type \<open>'l\<close>, with its ReserveN and CancelAt as the arguments \<open>reserve\<close> and
  \<open>cancel\<close>, and a serialised value's length is the argument \<open>wire\<close>. Durations are nanoseconds.
  Log lines are left out.
\<close>

section \<open>Errors\<close>

datatype error_code =
    NotFound | Unauthorized | Forbidden | Unavailable | RateLimited | ClusterChanged | InvalidArgument
  | Backend | ResultTooLarge | Internal | Cancelled | ClusterNotAllowed

record tool_error =
  te_code :: error_code
  te_message :: string
  te_detail :: string
  te_retryable :: bool
  te_retry_after :: int

definition tool_error :: "error_code \<Rightarrow> string \<Rightarrow> string \<Rightarrow> bool \<Rightarrow> tool_error" where
  "tool_error code msg detail retryable =
     \<lparr>te_code = code, te_message = msg, te_detail = detail, te_retryable = retryable, te_retry_after = 0\<rparr>"

definition error_code_string :: "error_code \<Rightarrow> string" where
  "error_code_string c =
     (case c of NotFound \<Rightarrow> ''KATES_NOT_FOUND'' | Unauthorized \<Rightarrow> ''KATES_UNAUTHORIZED'' | Forbidden \<Rightarrow> ''KATES_FORBIDDEN''
      | Unavailable \<Rightarrow> ''KATES_UNAVAILABLE'' | RateLimited \<Rightarrow> ''KATES_RATE_LIMITED''
      | ClusterChanged \<Rightarrow> ''KATES_CLUSTER_CHANGED'' | InvalidArgument \<Rightarrow> ''KATES_INVALID_ARGUMENT''
      | Backend \<Rightarrow> ''KATES_BACKEND_ERROR'' | ResultTooLarge \<Rightarrow> ''KATES_RESULT_TOO_LARGE'' | Internal \<Rightarrow> ''KATES_INTERNAL''
      | Cancelled \<Rightarrow> ''KATES_CANCELLED'' | ClusterNotAllowed \<Rightarrow> ''KATES_CLUSTER_NOT_ALLOWED'')"

text \<open>
  A Go error is the chain its Unwrap methods give, outermost first, as \<open>errors.As\<close> and \<open>errors.Is\<close>
  walk it, and its text after \<open>mcpErrorText\<close>. \<open>ToolLink None\<close> is a nil \<open>*mcpToolError\<close> in a non-nil
  error; \<open>HttpLink s\<close> a \<open>client.HTTPError\<close> of status \<open>s\<close>.
\<close>

datatype err_link =
    ToolLink "tool_error option" | NotReadOnlyLink | RedirectLink | InvalidPathLink | DeadlineLink | CanceledLink
  | HttpLink int | UrlLink | SyntaxLink | TypeLink | OtherLink

record go_error =
  ge_chain :: "err_link list"
  ge_text :: string

fun as_tool :: "err_link list \<Rightarrow> tool_error option option" where
  "as_tool [] = None"
| "as_tool (ToolLink t # ls) = Some t"
| "as_tool (l # ls) = as_tool ls"

fun as_http :: "err_link list \<Rightarrow> int option" where
  "as_http [] = None"
| "as_http (HttpLink s # ls) = Some s"
| "as_http (l # ls) = as_http ls"

definition http_retryable :: "int \<Rightarrow> bool" where
  "http_retryable s \<longleftrightarrow> 500 \<le> s \<or> s = 408 \<or> s = 429"

definition mcp_classify_status :: "int \<Rightarrow> string \<Rightarrow> tool_error" where
  "mcp_classify_status s text =
     (let te = (\<lambda>code msg. tool_error code msg text (http_retryable s))
      in if s = 400 \<or> s = 422 then
           te InvalidArgument (''The Kates API rejected the request as invalid (HTTP '' @ show_int s @ '').'')
         else if s = 401 then
           te Unauthorized ''The Kates API refused this context's API key (HTTP 401). Fix the key in the context, then restart kates mcp.''
         else if s = 403 then te Forbidden ''The Kates API does not allow this request for the key in use (HTTP 403).''
         else if s = 404 then te NotFound ''The Kates API has no such item (HTTP 404).''
         else if s = 405 then
           te Backend ''The Kates API does not support this read (HTTP 405). The backend may be older than this CLI.''
         else if s = 429 then
           (te RateLimited ''The Kates API is refusing requests for now (HTTP 429). Retry later.'')\<lparr>te_retry_after := 5000000000\<rparr>
         else if s = 408 \<or> s = 502 \<or> s = 503 \<or> s = 504 then
           te Unavailable (''The Kates API or something in front of it is unavailable (HTTP '' @ show_int s @ ''). Retry later.'')
         else te Backend (''The Kates API failed to answer this request (HTTP '' @ show_int s @ '').''))"

text \<open>\<open>timeout\<close> is the call timeout as fmt prints a Duration.\<close>

definition mcp_classify_error :: "string \<Rightarrow> go_error \<Rightarrow> tool_error" where
  "mcp_classify_error timeout e =
     (let chain = ge_chain e; text = ge_text e
      in case as_tool chain of
           Some (Some te) \<Rightarrow> te
         | Some None \<Rightarrow> tool_error Internal ''kates mcp returned an empty error from a tool. This is a bug in kates mcp.'' [] False
         | None \<Rightarrow>
             if NotReadOnlyLink \<in> set chain then
               tool_error Internal ''kates mcp stopped a tool from sending a request that is not read-only. Nothing was sent. This is a bug in kates mcp.'' text False
             else if RedirectLink \<in> set chain then
               tool_error Backend ''The Kates API answered with a redirect. kates mcp follows none, so nothing was read from where it pointed. The context's URL may not be the API's own address.'' text False
             else if InvalidPathLink \<in> set chain then
               tool_error InvalidArgument ''A name or id in the arguments cannot be used: it is empty, \".\" or \"..\". Nothing was sent.'' [] False
             else if DeadlineLink \<in> set chain then
               tool_error Unavailable (''The call did not finish within '' @ timeout @ ''. The Kates API or Kafka may be slow or unreachable.'') [] True
             else if CanceledLink \<in> set chain then
               tool_error Cancelled ''The call was cancelled before it finished, by the client or because kates mcp is shutting down.'' [] False
             else
               (case as_http chain of
                  Some s \<Rightarrow> mcp_classify_status s text
                | None \<Rightarrow>
                    if UrlLink \<in> set chain then
                      tool_error Unavailable ''The Kates API could not be reached. Check that it is running and reachable (kates ports), then retry.'' text True
                    else if SyntaxLink \<in> set chain \<or> TypeLink \<in> set chain then
                      tool_error Backend ''The Kates API answered with data this server could not read. The backend and the CLI may be different versions.'' text False
                    else tool_error Backend ''The request to the Kates API failed.'' text False))"

section \<open>The state of the server\<close>

text \<open>\<open>dp_cap\<close> and \<open>dp_in_flight\<close> are the capacity and the length of the channel \<open>inFlight\<close>.\<close>

record 'l mcp_deps =
  dp_label :: string
  dp_allowed :: "string list"
  dp_pinned :: string
  dp_limiter :: 'l
  dp_rate :: int
  dp_cap :: nat
  dp_in_flight :: nat
  dp_nonce :: string
  dp_timeout :: string
  dp_max_bytes :: int
  dp_caveats :: "string \<Rightarrow> string option"

text \<open>\<open>int(math.Ceil(d.Seconds()))\<close>: exact for any duration below a hundred days.\<close>

definition ceil_seconds :: "int \<Rightarrow> int" where
  "ceil_seconds d = (d + 999999999) div 1000000000"

definition mcp_admit :: "('l \<Rightarrow> int \<Rightarrow> 'l \<times> int option) \<Rightarrow> ('l \<Rightarrow> int \<Rightarrow> 'l) \<Rightarrow> int \<Rightarrow> 'l mcp_deps \<Rightarrow> 'l mcp_deps \<times> tool_error option" where
  "mcp_admit reserve cancel now d =
     (if dp_cap d \<le> dp_in_flight d then
        (d, Some ((tool_error RateLimited
           (show_nat (dp_cap d) @ '' calls are already running, the most this server runs at once. Retry when one of them has finished.'') [] True)
           \<lparr>te_retry_after := 1000000000\<rparr>))
      else
        (case reserve (dp_limiter d) now of
           (l, None) \<Rightarrow>
             (d\<lparr>dp_limiter := l\<rparr>, Some (tool_error RateLimited ''This server is configured to refuse every call.'' [] False))
         | (l, Some delay) \<Rightarrow>
             if 0 < delay then
               (d\<lparr>dp_limiter := cancel l now\<rparr>,
                Some ((tool_error RateLimited
                  (''More than '' @ show_int (dp_rate d) @ '' calls a minute. Retry in '' @ show_int (ceil_seconds delay) @ '' seconds.'') [] True)
                  \<lparr>te_retry_after := delay\<rparr>))
             else (d\<lparr>dp_limiter := l, dp_in_flight := dp_in_flight d + 1\<rparr>, None)))"

section \<open>The pin\<close>

definition cluster_changed :: "'l mcp_deps \<Rightarrow> string \<Rightarrow> tool_error" where
  "cluster_changed d live =
     tool_error ClusterChanged
       (''The Kates API behind this context now serves a different Kafka cluster from '' @ dp_pinned d @ '' ('' @ dp_label d @
        ''), the one this server is pinned to, so the call was refused. Restart kates mcp against the intended cluster.'')
       (''live clusterId: '' @ live) False"

definition cluster_not_allowed :: "string \<Rightarrow> tool_error" where
  "cluster_not_allowed live =
     tool_error ClusterNotAllowed
       (''The Kates API behind this context serves a Kafka cluster that --allow-cluster does not list, so the '' @
        ''call was refused and nothing was read. No cluster is pinned yet: kates mcp started before the Kates API '' @
        ''answered. Point the context's URL at an allowed cluster or, if this is the cluster you mean, restart '' @
        ''kates mcp with --allow-cluster set to the clusterId in the detail.'')
       (''live clusterId: '' @ live) False"

definition pin_failed :: "'l mcp_deps \<Rightarrow> go_error \<Rightarrow> tool_error" where
  "pin_failed d e =
     (let te = mcp_classify_error (dp_timeout d) e
      in if te_code te = Unavailable \<or> te_code te = RateLimited \<or> te_code te = Internal \<or> te_code te = Cancelled then te
         else case as_http (ge_chain e) of
           Some s \<Rightarrow>
             if s = 401 \<or> s = 403 then
               tool_error Unauthorized
                 (''The Kates API rejects the API key this server uses (HTTP '' @ show_int s @
                  ''), so every call will fail. Fix the key (KATES_API_KEY or the context's), then restart kates mcp.'')
                 (te_detail te) False
             else
               (tool_error Backend
                 (''Could not confirm which Kafka cluster the Kates API behind this context serves, so nothing was read. '' @
                  ''Check that the context's URL still reaches the Kates API.'') (te_detail te) (te_retryable te))
                 \<lparr>te_retry_after := te_retry_after te\<rparr>
         | None \<Rightarrow>
             (tool_error Backend
               (''Could not confirm which Kafka cluster the Kates API behind this context serves, so nothing was read. '' @
                ''Check that the context's URL still reaches the Kates API.'') (te_detail te) (te_retryable te))
               \<lparr>te_retry_after := te_retry_after te\<rparr>)"

definition unpinned :: "'l mcp_deps \<Rightarrow> tool_error \<Rightarrow> tool_error" where
  "unpinned d te =
     (if te_code te = Cancelled \<or> te_code te = Internal \<or> dp_pinned d \<noteq> [] then te
      else te\<lparr>te_message := te_message te @
        '' No cluster is pinned yet: kates mcp started without reading an allowed clusterId from the Kates API, and reads nothing until it does.''\<rparr>)"

definition pin_to :: "'l mcp_deps \<Rightarrow> string \<Rightarrow> 'l mcp_deps \<times> (tool_error + string \<times> bool)" where
  "pin_to d live =
     (if dp_pinned d \<noteq> [] then (d, Inr (dp_pinned d, False))
      else if live \<notin> set (dp_allowed d) then (d, Inl (cluster_not_allowed live))
      else (d\<lparr>dp_pinned := live\<rparr>, Inr (live, True)))"

text \<open>\<open>info\<close> is what GET /api/cluster/info gave: an error, or a clusterId (None: no body).\<close>

definition mcp_pin :: "'l mcp_deps \<Rightarrow> go_error + string option \<Rightarrow> 'l mcp_deps \<times> tool_error option" where
  "mcp_pin d info =
     (case info of
        Inl e \<Rightarrow> (d, Some (unpinned d (pin_failed d e)))
      | Inr i \<Rightarrow>
          (let live = (case i of None \<Rightarrow> [] | Some x \<Rightarrow> x)
           in if live = [] then
                (d, Some (unpinned d (tool_error Backend
                  ''The Kates API returned no Kafka clusterId, so this server cannot tell which cluster it would read. Nothing was read.'' [] True)))
              else
                (case pin_to d live of
                   (d', Inl te) \<Rightarrow> (d', Some te)
                 | (d', Inr (pinned, newly)) \<Rightarrow> if live \<noteq> pinned then (d', Some (cluster_changed d' live)) else (d', None))))"

definition check_cluster :: "'l mcp_deps \<Rightarrow> string \<Rightarrow> tool_error option" where
  "check_cluster d cluster_id = (if cluster_id = [] \<or> cluster_id = dp_pinned d then None else Some (cluster_changed d cluster_id))"

section \<open>Results\<close>

record call_notes =
  cn_caveats :: "string list"
  cn_truncated :: bool

definition add_caveats :: "string list \<Rightarrow> call_notes \<Rightarrow> call_notes" where
  "add_caveats ids c =
     fold (\<lambda>i c. if i \<in> set (cn_caveats c) then c else c\<lparr>cn_caveats := cn_caveats c @ [i]\<rparr>) ids c"

definition mcp_cap :: "int \<Rightarrow> 'a list \<Rightarrow> call_notes \<Rightarrow> 'a list \<times> call_notes" where
  "mcp_cap limit items c =
     (if 0 \<le> limit \<and> limit < int (length items) then (take (nat limit) items, c\<lparr>cn_truncated := True\<rparr>) else (items, c))"

text \<open>
  A result as it is serialised: its strings, those of type \<open>mcpUntrusted\<close> apart; anything else that
  holds no string is \<open>JPlain\<close>.
\<close>

datatype json =
    JText "rune list" | JUntrusted "rune list" | JPlain | JList "json list" | JObj "(rune list \<times> json) list"

fun envelope_parts :: "'l mcp_deps \<Rightarrow> string list \<Rightarrow> (string \<times> string) list option" where
  "envelope_parts d [] = Some []"
| "envelope_parts d (i # ids) =
     (case dp_caveats d i of None \<Rightarrow> None | Some short \<Rightarrow> map_option (\<lambda>refs. (i, short) # refs) (envelope_parts d ids))"

definition json_caveats :: "(string \<times> string) list \<Rightarrow> json" where
  "json_caveats refs =
     JList (map (\<lambda>(i, short). JObj [(ascii ''id'', JText (ascii i)), (ascii ''text'', JText (ascii short))]) refs)"

definition envelope_of :: "'l mcp_deps \<Rightarrow> (string \<times> string) list \<Rightarrow> bool \<Rightarrow> json \<Rightarrow> json" where
  "envelope_of d refs truncated data =
     JObj [(ascii ''cluster'', JObj [(ascii ''id'', JText (decode_text (ascii (dp_pinned d)))), (ascii ''label'', JText (decode_text (ascii (dp_label d))))]),
           (ascii ''tier'', JText (ascii ''observe'')), (ascii ''caveats'', json_caveats refs),
           (ascii ''truncated'', JPlain), (ascii ''data'', data)]"

text \<open>\<open>wire v\<close>: how many bytes encoding/json writes for \<open>v\<close>.\<close>

definition mcp_budget_bytes :: "(json \<Rightarrow> int) \<Rightarrow> json \<Rightarrow> (string \<times> string) list \<Rightarrow> int" where
  "mcp_budget_bytes wire env refs =
     (if refs = [] then 2 * wire env else 2 * wire env - 2 * (wire (json_caveats refs) - 2))"

text \<open>\<open>mcpCheckJSONText\<close> and \<open>mcpCheckFences\<close>, without the path of what they report.\<close>

fun check_json_text :: "rune list \<Rightarrow> json \<Rightarrow> bool" where
  "check_json_text nonce (JText s) = (mcp_check_text nonce s = None)"
| "check_json_text nonce (JUntrusted s) = (mcp_check_text nonce s = None)"
| "check_json_text nonce JPlain = True"
| "check_json_text nonce (JList vs) = (\<forall>v\<in>set vs. check_json_text nonce v)"
| "check_json_text nonce (JObj kvs) = (\<forall>kv\<in>set kvs. mcp_check_text nonce (fst kv) = None \<and> check_json_text nonce (snd kv))"

fun check_fences :: "rune list \<Rightarrow> json \<Rightarrow> bool" where
  "check_fences nonce (JUntrusted s) = mcp_is_fence nonce s"
| "check_fences nonce (JList vs) = (\<forall>v\<in>set vs. check_fences nonce v)"
| "check_fences nonce (JObj kvs) = (\<forall>kv\<in>set kvs. check_fences nonce (snd kv))"
| "check_fences nonce _ = True"

definition mcp_check_output :: "rune list \<Rightarrow> json \<Rightarrow> json \<Rightarrow> bool" where
  "mcp_check_output nonce data env \<longleftrightarrow> check_json_text nonce env \<and> check_fences nonce data"

definition mcp_envelope :: "(json \<Rightarrow> int) \<Rightarrow> 'l mcp_deps \<Rightarrow> json \<Rightarrow> call_notes \<Rightarrow> tool_error + json" where
  "mcp_envelope wire d data c =
     (case envelope_parts d (cn_caveats c) of
        None \<Rightarrow> Inl (tool_error Internal ''kates mcp built an invalid result. This is a bug in kates mcp; its log on stderr has the details.'' [] False)
      | Some refs \<Rightarrow>
          (let env = envelope_of d refs (cn_truncated c) data; budget = mcp_budget_bytes wire env refs
           in if dp_max_bytes d < budget then
                Inl (tool_error ResultTooLarge
                  (''The result would be '' @ show_int budget @ '' bytes on the wire (its JSON goes out twice, as structured content and as text), more than the '' @
                   show_int (dp_max_bytes d) @ '' this server sends for one call. Narrow the request or ask for a smaller page.'') [] False)
              else if \<not> mcp_check_output (ascii (dp_nonce d)) data env then
                Inl (tool_error Internal ''kates mcp built a result with text it had not cleaned, and withheld it. This is a bug in kates mcp; its log on stderr has the details.'' [] False)
              else Inr env))"

definition mcp_fits :: "(json \<Rightarrow> int) \<Rightarrow> 'l mcp_deps \<Rightarrow> json \<Rightarrow> call_notes \<Rightarrow> bool" where
  "mcp_fits wire d data c =
     (case envelope_parts d (cn_caveats c) of
        None \<Rightarrow> True
      | Some refs \<Rightarrow> mcp_budget_bytes wire (envelope_of d refs (cn_truncated c) data) refs \<le> dp_max_bytes d)"

section \<open>Error results\<close>

record error_body =
  eb_code :: error_code
  eb_message :: string
  eb_detail :: "rune list"
  eb_retryable :: bool
  eb_retry_after_seconds :: int
  eb_cluster_id :: string
  eb_cluster_label :: string

definition error_payload :: "'l mcp_deps \<Rightarrow> tool_error \<Rightarrow> error_body" where
  "error_payload d te =
     \<lparr>eb_code = te_code te, eb_message = te_message te,
      eb_detail = mcp_fence (ascii (dp_nonce d)) (ascii (te_detail te)) 300,
      eb_retryable = te_retryable te,
      eb_retry_after_seconds = (if te_retryable te \<and> 0 < te_retry_after te then ceil_seconds (te_retry_after te) else 0),
      eb_cluster_id = dp_pinned d, eb_cluster_label = dp_label d\<rparr>"

definition mcp_validate_id :: "string \<Rightarrow> string \<Rightarrow> tool_error option" where
  "mcp_validate_id field i =
     (if length i = 8 \<and> list_all (\<lambda>c. let n = of_char c :: nat in 48 \<le> n \<and> n \<le> 57 \<or> 97 \<le> n \<and> n \<le> 102) i then None
      else Some (tool_error InvalidArgument (field @ '' must be 8 lowercase hex characters, the form Kates prints run and disruption ids in.'') i False))"

text \<open>The largest int64 stands in for a doubled duration that would wrap.\<close>

definition mcp_planned_duration_ms :: "string \<Rightarrow> int \<Rightarrow> int \<times> bool" where
  "mcp_planned_duration_ms test_type duration_ms =
     (let d = max duration_ms 0
      in if test_type = ''INTEGRATION_CDC'' then (0, False)
         else if test_type = ''INTEGRITY'' then (if max_int64 div 2 < d then (max_int64, True) else (2 * d, True))
         else (d, True))"

section \<open>What the guard promises\<close>

fun json_strings :: "json \<Rightarrow> rune list set" where
  "json_strings (JText s) = {s}"
| "json_strings (JUntrusted s) = {s}"
| "json_strings JPlain = {}"
| "json_strings (JList vs) = (\<Union>v\<in>set vs. json_strings v)"
| "json_strings (JObj kvs) = (\<Union>kv\<in>set kvs. insert (fst kv) (json_strings (snd kv)))"

fun untrusted_strings :: "json \<Rightarrow> rune list set" where
  "untrusted_strings (JUntrusted s) = {s}"
| "untrusted_strings (JList vs) = (\<Union>v\<in>set vs. untrusted_strings v)"
| "untrusted_strings (JObj kvs) = (\<Union>kv\<in>set kvs. untrusted_strings (snd kv))"
| "untrusted_strings _ = {}"

lemma check_json_text_iff: "check_json_text nonce v \<longleftrightarrow> (\<forall>s\<in>json_strings v. marked nonce s)"
  by (induction nonce v rule: check_json_text.induct) (auto simp: check_text_marked)

lemma check_fences_iff: "check_fences nonce v \<longleftrightarrow> (\<forall>s\<in>untrusted_strings v. mcp_is_fence nonce s)"
  by (induction nonce v rule: check_fences.induct) auto

lemma json_strings_envelope: "json_strings data \<subseteq> json_strings (envelope_of d refs t data)"
  by (auto simp: envelope_of_def)

lemma envelope_cases:
  "mcp_envelope wire d data c = Inr env \<longleftrightarrow>
     (\<exists>refs. envelope_parts d (cn_caveats c) = Some refs \<and> env = envelope_of d refs (cn_truncated c) data \<and>
        mcp_budget_bytes wire env refs \<le> dp_max_bytes d \<and> mcp_check_output (ascii (dp_nonce d)) data env)"
  by (auto simp: mcp_envelope_def Let_def split: option.splits if_splits)

text \<open>
  C35. What a successful call sends is clean and bounded: every string of the envelope, keys
  included, is clean text with this server's fence markers only, every third-party field is empty
  or one whole fence, and its bytes on the wire less those of its caveats are within the cap.
\<close>

theorem sent_results_clean:
  assumes "mcp_envelope wire d data c = Inr env"
  shows "(\<forall>s\<in>json_strings env. marked (ascii (dp_nonce d)) s) \<and>
    (\<forall>s\<in>untrusted_strings data. mcp_is_fence (ascii (dp_nonce d)) s) \<and>
    (\<exists>refs. envelope_parts d (cn_caveats c) = Some refs \<and> mcp_budget_bytes wire env refs \<le> dp_max_bytes d)"
  using assms unfolding envelope_cases mcp_check_output_def check_json_text_iff check_fences_iff by blast

text \<open>A server of one cluster, as the witnesses use it.\<close>

definition demo_deps :: "unit mcp_deps" where
  "demo_deps =
     \<lparr>dp_label = ''lab'', dp_allowed = [''c1''], dp_pinned = [], dp_limiter = (), dp_rate = 60, dp_cap = 2,
      dp_in_flight = 0, dp_nonce = ''00ff'', dp_timeout = ''30s'', dp_max_bytes = 1000, dp_caveats = (\<lambda>i. None)\<rparr>"

definition no_notes :: call_notes where
  "no_notes = \<lparr>cn_caveats = [], cn_truncated = False\<rparr>"

lemma plain_texts: "list_all (\<lambda>c. 32 \<le> (of_char c :: nat) \<and> (of_char c :: nat) < 127) s \<Longrightarrow> marked nonce (ascii s)"
  by (rule clean_marked) (auto simp: ascii_def list_all_iff plain_clean)

lemma decode_text_Nil [simp]: "decode_text [] = []"
  by (simp add: decode_text_def)

lemma decode_plain: "list_all (\<lambda>c. (of_char c :: nat) < 128) s \<Longrightarrow> decode_text (ascii s) = ascii s"
  unfolding decode_text_def by (induction s) (auto simp: ascii_def)

text \<open>
  A well-built result is sent: when every string of the data is clean or fenced by this server,
  every caveat the call notes is in the catalogue with a clean text, and \<open>Fits\<close> holds, the
  envelope is the result and no error.
\<close>

theorem well_built_results_sent:
  assumes "\<forall>s\<in>json_strings data. marked (ascii (dp_nonce d)) s"
    "\<forall>s\<in>untrusted_strings data. mcp_is_fence (ascii (dp_nonce d)) s"
    "\<forall>s\<in>json_strings (envelope_of d refs (cn_truncated c) JPlain). marked (ascii (dp_nonce d)) s"
    "envelope_parts d (cn_caveats c) = Some refs" "mcp_fits wire d data c"
  shows "mcp_envelope wire d data c = Inr (envelope_of d refs (cn_truncated c) data)"
proof -
  have "json_strings (envelope_of d refs (cn_truncated c) data) =
      json_strings (envelope_of d refs (cn_truncated c) JPlain) \<union> json_strings data"
    by (auto simp: envelope_of_def)
  then have "\<forall>s\<in>json_strings (envelope_of d refs (cn_truncated c) data). marked (ascii (dp_nonce d)) s"
    using assms(1,3) by blast
  then show ?thesis
    using assms(2,4,5) by (simp add: envelope_cases mcp_fits_def mcp_check_output_def check_json_text_iff check_fences_iff)
qed

lemma demo_envelope_strings: "\<forall>s\<in>json_strings (envelope_of demo_deps [] t JPlain). marked nonce s"
  by (simp add: envelope_of_def demo_deps_def json_caveats_def decode_plain plain_texts marked_Nil del: ascii_Cons)

theorem well_built_results_sent_witness:
  "mcp_envelope (\<lambda>v. 200) demo_deps (JObj [(ascii ''name'', JUntrusted (mcp_fence (ascii ''00ff'') (ascii ''orders'') 100))]) no_notes =
   Inr (envelope_of demo_deps [] False (JObj [(ascii ''name'', JUntrusted (mcp_fence (ascii ''00ff'') (ascii ''orders'') 100))]))"
proof -
  let ?f = "mcp_fence (ascii ''00ff'') (ascii ''orders'') 100"
  let ?data = "JObj [(ascii ''name'', JUntrusted ?f)]"
  have f: "mcp_is_fence (ascii ''00ff'') ?f" "marked (ascii ''00ff'') ?f"
    using fence_ok [of "ascii ''00ff''" "ascii ''orders''" 100] by (simp_all only: check_text_marked)
  have "marked (ascii ''00ff'') (ascii ''name'')" by (rule plain_texts) simp
  then have "\<forall>s\<in>json_strings ?data. marked (ascii ''00ff'') s" using f(2) by simp
  moreover have "mcp_fits (\<lambda>v. 200) demo_deps ?data no_notes"
    by (simp add: mcp_fits_def demo_deps_def no_notes_def mcp_budget_bytes_def)
  ultimately show ?thesis
    using well_built_results_sent [of ?data demo_deps "[]" no_notes "\<lambda>v. 200"] f(1) demo_envelope_strings
    by (simp add: demo_deps_def no_notes_def)
qed

theorem sent_results_clean_witness:
  "json_strings (envelope_of demo_deps [] False JPlain) \<subseteq> {s. marked (ascii (dp_nonce demo_deps)) s} \<and>
   mcp_budget_bytes (\<lambda>v. 200) (envelope_of demo_deps [] False JPlain) [] \<le> dp_max_bytes demo_deps"
proof -
  have "mcp_envelope (\<lambda>v. 200) demo_deps JPlain no_notes = Inr (envelope_of demo_deps [] False JPlain)"
    unfolding envelope_cases using demo_envelope_strings
    by (simp add: no_notes_def mcp_budget_bytes_def mcp_check_output_def check_json_text_iff) (simp add: demo_deps_def)
  from sent_results_clean [OF this] show ?thesis by (auto simp: no_notes_def)
qed

text \<open>
  A refused call costs nothing: if a cancelled reservation leaves the limiter's later answers as
  they were, then after a refusal every slot is as it was and every later call gets the answer it
  would have got without the refused one.
\<close>

theorem refused_calls_cost_nothing:
  assumes "\<And>l now t. now \<le> t \<Longrightarrow> snd (reserve (cancel (fst (reserve l now)) now) t) = snd (reserve l t)"
    "\<And>l now t. snd (reserve l now) = None \<Longrightarrow> now \<le> t \<Longrightarrow> snd (reserve (fst (reserve l now)) t) = snd (reserve l t)"
    "snd (mcp_admit reserve cancel now d) = Some te" "now \<le> t"
  shows "dp_in_flight (fst (mcp_admit reserve cancel now d)) = dp_in_flight d \<and>
    snd (mcp_admit reserve cancel t (fst (mcp_admit reserve cancel now d))) = snd (mcp_admit reserve cancel t d)"
proof -
  have same: "snd (mcp_admit reserve cancel t (d\<lparr>dp_limiter := l\<rparr>)) = snd (mcp_admit reserve cancel t d)"
    if "snd (reserve l t) = snd (reserve (dp_limiter d) t)" for l
    using that by (auto simp: mcp_admit_def split: prod.splits option.splits if_splits)
  show ?thesis
  proof (cases "dp_cap d \<le> dp_in_flight d")
    case True
    then show ?thesis by (simp add: mcp_admit_def)
  next
    case False
    obtain l r where l: "reserve (dp_limiter d) now = (l, r)" by (cases "reserve (dp_limiter d) now")
    show ?thesis
    proof (cases r)
      case None
      then have "fst (mcp_admit reserve cancel now d) = d\<lparr>dp_limiter := l\<rparr>" using False l by (simp add: mcp_admit_def)
      then show ?thesis using same [of l] assms(2) [of "dp_limiter d" now t] assms(4) l None by simp
    next
      case (Some delay)
      then have "0 < delay" using assms(3) False l by (auto simp: mcp_admit_def split: if_splits)
      then have "fst (mcp_admit reserve cancel now d) = d\<lparr>dp_limiter := cancel l now\<rparr>"
        using False l Some by (simp add: mcp_admit_def)
      then show ?thesis using same [of "cancel l now"] assms(1) [of now t "dp_limiter d"] assms(4) l by simp
    qed
  qed
qed

text \<open>A limiter that grants a call a second: its state is the time of the last one.\<close>

definition demo_reserve :: "int \<Rightarrow> int \<Rightarrow> int \<times> int option" where
  "demo_reserve prev now = (max prev now + 1000000000, Some (max prev now - now))"

definition demo_cancel :: "int \<Rightarrow> int \<Rightarrow> int" where
  "demo_cancel next now = next - 1000000000"

definition busy_deps :: "int mcp_deps" where
  "busy_deps =
     \<lparr>dp_label = ''lab'', dp_allowed = [''c1''], dp_pinned = ''c1'', dp_limiter = 1000000000, dp_rate = 60, dp_cap = 2,
      dp_in_flight = 1, dp_nonce = ''00ff'', dp_timeout = ''30s'', dp_max_bytes = 1000, dp_caveats = (\<lambda>i. None)\<rparr>"

theorem refused_calls_cost_nothing_witness:
  "dp_in_flight (fst (mcp_admit demo_reserve demo_cancel 0 busy_deps)) = dp_in_flight busy_deps \<and>
   snd (mcp_admit demo_reserve demo_cancel 1000000000 (fst (mcp_admit demo_reserve demo_cancel 0 busy_deps))) =
   snd (mcp_admit demo_reserve demo_cancel 1000000000 busy_deps)"
proof -
  have "\<exists>te. snd (mcp_admit demo_reserve demo_cancel 0 busy_deps) = Some te"
    by (simp add: mcp_admit_def demo_reserve_def busy_deps_def)
  then obtain te where te: "snd (mcp_admit demo_reserve demo_cancel 0 busy_deps) = Some te" by blast
  show ?thesis
    by (rule refused_calls_cost_nothing [OF _ _ te]) (auto simp: demo_reserve_def demo_cancel_def)
qed

text \<open>
  Only what can pass is retryable: an error that no handler made is retryable exactly when the
  call ran out of time, the API could not be reached or it answered 408, 429 or a 5xx; and no code
  that names the caller's input, its rights or a bug is.
\<close>

theorem retryable_exact:
  assumes "as_tool (ge_chain e) = None" "te = mcp_classify_error timeout e"
  shows "(te_retryable te \<longrightarrow> te_code te \<in> {Unavailable, RateLimited, Backend}) \<and>
    (te_retryable te \<longleftrightarrow>
       set (ge_chain e) \<inter> {NotReadOnlyLink, RedirectLink, InvalidPathLink} = {} \<and>
       (DeadlineLink \<in> set (ge_chain e) \<or>
        CanceledLink \<notin> set (ge_chain e) \<and>
        (case as_http (ge_chain e) of Some s \<Rightarrow> 500 \<le> s \<or> s = 408 \<or> s = 429 | None \<Rightarrow> UrlLink \<in> set (ge_chain e))))"
proof -
  have http: "te_retryable (mcp_classify_status s w) = http_retryable s"
    "http_retryable s \<Longrightarrow> te_code (mcp_classify_status s w) \<in> {Unavailable, RateLimited, Backend}" for s w
    by (auto simp: mcp_classify_status_def tool_error_def http_retryable_def Let_def)
  show ?thesis
    unfolding assms(2) mcp_classify_error_def Let_def assms(1)
    using http by (simp add: tool_error_def http_retryable_def split: option.splits)
qed

theorem retryable_exact_witness:
  "te_retryable (mcp_classify_error ''30s'' \<lparr>ge_chain = [UrlLink, DeadlineLink], ge_text = ''t''\<rparr>) \<and>
   \<not> te_retryable (mcp_classify_error ''30s'' \<lparr>ge_chain = [OtherLink, HttpLink 409], ge_text = ''t''\<rparr>)"
  using retryable_exact [of "\<lparr>ge_chain = [UrlLink, DeadlineLink], ge_text = ''t''\<rparr>" _ "''30s''"]
    retryable_exact [of "\<lparr>ge_chain = [OtherLink, HttpLink 409], ge_text = ''t''\<rparr>" _ "''30s''"] by simp

text \<open>
  C31. The planned duration never wraps: for any int64 duration it is a non-negative int64, the
  duration itself or, for INTEGRITY, twice the duration held at the largest int64.
\<close>

theorem planned_duration_bounds:
  assumes "duration \<le> max_int64" "mcp_planned_duration_ms test_type duration = (ms, ok)"
  shows "0 \<le> ms \<and> ms \<le> max_int64 \<and>
    (ok \<longrightarrow> ms = (if test_type = ''INTEGRITY'' then min (2 * max duration 0) max_int64 else max duration 0)) \<and>
    (ok \<longleftrightarrow> test_type \<noteq> ''INTEGRATION_CDC'')"
  using assms by (auto simp: mcp_planned_duration_ms_def max_int64_def Let_def max_def min_def split: if_splits)

theorem planned_duration_bounds_witness:
  "mcp_planned_duration_ms ''INTEGRITY'' 5000000000000000000 = (max_int64, True) \<and> 0 \<le> max_int64"
proof -
  have e: "mcp_planned_duration_ms ''INTEGRITY'' 5000000000000000000 = (max_int64, True)"
    by (simp add: mcp_planned_duration_ms_def max_int64_def)
  show ?thesis using planned_duration_bounds [OF _ e] e by (simp add: max_int64_def)
qed

end
