(* ===== verification/McpCalls.thy ===== *)
theory McpCalls
  imports McpGuard
begin

text \<open>
  The calls of \<open>kates mcp\<close> running at once (\<open>invoke\<close> of \<open>cli/cmd/mcp_guard.go\<close>): each call is
  admitted or refused, then a goroutine checks the pin and runs the handler while the guard waits
  for it or for the deadline. The in-flight slot goes back when the goroutine ends, not when the
  guard gives up. Steps of different calls interleave freely; the clock, what the API answers and
  what handlers return are the environment's.
\<close>

section \<open>The calls\<close>

text \<open>
  The goroutine of a call: before admission, turned away, in the pin check, in the handler (with the
  clusterId the check read), or returned with its outcome.
\<close>

datatype 'a worker = Arriving | TurnedAway | Pinning | Handling string | Returned "go_error + 'a"

record 'a call =
  cl_worker :: "'a worker"
  cl_answer :: "(tool_error + 'a) option"

record ('l, 'a) server =
  sv_deps :: "'l mcp_deps"
  sv_calls :: "'a call list"
  sv_runs :: "(nat \<times> string) list"

definition as_error :: "tool_error \<Rightarrow> go_error" where
  "as_error te = \<lparr>ge_chain = [ToolLink (Some te)], ge_text = te_message te\<rparr>"

definition release :: "'l mcp_deps \<Rightarrow> 'l mcp_deps" where
  "release d = d\<lparr>dp_in_flight := dp_in_flight d - 1\<rparr>"

definition set_worker :: "nat \<Rightarrow> 'a worker \<Rightarrow> ('l, 'a) server \<Rightarrow> ('l, 'a) server" where
  "set_worker i w s = s\<lparr>sv_calls := (sv_calls s)[i := (sv_calls s ! i)\<lparr>cl_worker := w\<rparr>]\<rparr>"

definition set_answer :: "nat \<Rightarrow> tool_error + 'a \<Rightarrow> ('l, 'a) server \<Rightarrow> ('l, 'a) server" where
  "set_answer i a s = s\<lparr>sv_calls := (sv_calls s)[i := (sv_calls s ! i)\<lparr>cl_answer := Some a\<rparr>]\<rparr>"

definition outcome_answer :: "string \<Rightarrow> go_error + 'a \<Rightarrow> tool_error + 'a" where
  "outcome_answer timeout r = (case r of Inl e \<Rightarrow> Inl (mcp_classify_error timeout e) | Inr a \<Rightarrow> Inr a)"

text \<open>\<open>e\<close> in \<open>give_up\<close> is \<open>ctx.Err()\<close>: the deadline passed, or the call was cancelled.\<close>

inductive call_step ::
  "('l \<Rightarrow> int \<Rightarrow> 'l \<times> int option) \<Rightarrow> ('l \<Rightarrow> int \<Rightarrow> 'l) \<Rightarrow> ('l, 'a) server \<Rightarrow> ('l, 'a) server \<Rightarrow> bool"
  for reserve cancel where
  refuse: "i < length (sv_calls s) \<Longrightarrow> cl_worker (sv_calls s ! i) = Arriving \<Longrightarrow>
    mcp_admit reserve cancel now (sv_deps s) = (d, Some te) \<Longrightarrow>
    call_step reserve cancel s (set_answer i (Inl te) (set_worker i TurnedAway (s\<lparr>sv_deps := d\<rparr>)))"
| admit: "i < length (sv_calls s) \<Longrightarrow> cl_worker (sv_calls s ! i) = Arriving \<Longrightarrow>
    mcp_admit reserve cancel now (sv_deps s) = (d, None) \<Longrightarrow>
    call_step reserve cancel s (set_worker i Pinning (s\<lparr>sv_deps := d\<rparr>))"
| pin_refused: "i < length (sv_calls s) \<Longrightarrow> cl_worker (sv_calls s ! i) = Pinning \<Longrightarrow>
    mcp_pin (sv_deps s) info = (d, Some te) \<Longrightarrow>
    call_step reserve cancel s (set_worker i (Returned (Inl (as_error te))) (s\<lparr>sv_deps := release d\<rparr>))"
| pinned: "i < length (sv_calls s) \<Longrightarrow> cl_worker (sv_calls s ! i) = Pinning \<Longrightarrow>
    mcp_pin (sv_deps s) (Inr (Some live)) = (d, None) \<Longrightarrow>
    call_step reserve cancel s (set_worker i (Handling live) (s\<lparr>sv_deps := d, sv_runs := sv_runs s @ [(i, live)]\<rparr>))"
| handled: "i < length (sv_calls s) \<Longrightarrow> cl_worker (sv_calls s ! i) = Handling live \<Longrightarrow>
    call_step reserve cancel s (set_worker i (Returned r) (s\<lparr>sv_deps := release (sv_deps s)\<rparr>))"
| answer: "i < length (sv_calls s) \<Longrightarrow> cl_worker (sv_calls s ! i) = Returned r \<Longrightarrow> cl_answer (sv_calls s ! i) = None \<Longrightarrow>
    call_step reserve cancel s (set_answer i (outcome_answer (dp_timeout (sv_deps s)) r) s)"
| give_up: "i < length (sv_calls s) \<Longrightarrow> cl_worker (sv_calls s ! i) \<in> {Pinning} \<union> range Handling \<Longrightarrow>
    cl_answer (sv_calls s ! i) = None \<Longrightarrow> e \<in> {DeadlineLink, CanceledLink} \<Longrightarrow>
    call_step reserve cancel s
      (set_answer i (Inl (mcp_classify_error (dp_timeout (sv_deps s)) \<lparr>ge_chain = [e], ge_text = []\<rparr>)) s)"

text \<open>The server at the start, with \<open>n\<close> calls to come; \<open>newMCPDeps\<close> checks the limits and the pin.\<close>

definition deps_ok :: "'l mcp_deps \<Rightarrow> bool" where
  "deps_ok d \<longleftrightarrow> 0 < dp_cap d \<and> dp_in_flight d = 0 \<and> (dp_pinned d = [] \<or> dp_pinned d \<in> set (dp_allowed d))"

definition start :: "'l mcp_deps \<Rightarrow> nat \<Rightarrow> ('l, 'a) server" where
  "start d n = \<lparr>sv_deps = d, sv_calls = replicate n \<lparr>cl_worker = Arriving, cl_answer = None\<rparr>, sv_runs = []\<rparr>"

section \<open>The invariant\<close>

definition busy :: "'a call \<Rightarrow> bool" where
  "busy c \<longleftrightarrow> (case cl_worker c of Pinning \<Rightarrow> True | Handling _ \<Rightarrow> True | _ \<Rightarrow> False)"

definition arriving_ok :: "'a call \<Rightarrow> bool" where
  "arriving_ok c \<longleftrightarrow> (cl_worker c = Arriving \<longrightarrow> cl_answer c = None) \<and> (cl_worker c = TurnedAway \<longrightarrow> cl_answer c \<noteq> None)"

definition calls_inv :: "'l mcp_deps \<Rightarrow> ('l, 'a) server \<Rightarrow> bool" where
  "calls_inv d0 s \<longleftrightarrow>
     dp_in_flight (sv_deps s) = length (filter busy (sv_calls s)) \<and>
     dp_in_flight (sv_deps s) \<le> dp_cap (sv_deps s) \<and> dp_cap (sv_deps s) = dp_cap d0 \<and>
     dp_allowed (sv_deps s) = dp_allowed d0 \<and>
     (dp_pinned (sv_deps s) = [] \<or> dp_pinned (sv_deps s) \<in> set (dp_allowed d0)) \<and>
     (dp_pinned d0 \<noteq> [] \<longrightarrow> dp_pinned (sv_deps s) = dp_pinned d0) \<and>
     (\<forall>run\<in>set (sv_runs s). snd run = dp_pinned (sv_deps s) \<and> snd run \<noteq> []) \<and>
     list_all arriving_ok (sv_calls s)"

lemma filter_update:
  "i < length xs \<Longrightarrow>
   length (filter P (xs[i := x])) + (if P (xs ! i) then 1 else 0) = length (filter P xs) + (if P x then 1 else 0)"
proof (induction xs arbitrary: i)
  case (Cons y ys)
  show ?case
  proof (cases i)
    case 0
    then show ?thesis by simp
  next
    case (Suc j)
    then have "length (filter P (ys[j := x])) + (if P (ys ! j) then 1 else 0) = length (filter P ys) + (if P x then 1 else 0)"
      using Cons by simp
    then show ?thesis using Suc by simp
  qed
qed simp

lemma list_all_update: "list_all P xs \<Longrightarrow> P x \<Longrightarrow> list_all P (xs[i := x])"
  using set_update_subset_insert [of xs i x] by (auto simp: list_all_iff)

lemma admit_effect:
  assumes "mcp_admit reserve cancel now d = (d', r)"
  shows "dp_cap d' = dp_cap d" "dp_allowed d' = dp_allowed d" "dp_pinned d' = dp_pinned d"
    "dp_in_flight d' = dp_in_flight d + (if r = None then 1 else 0)" "r = None \<Longrightarrow> dp_in_flight d < dp_cap d"
  using assms by (auto simp: mcp_admit_def split: if_splits prod.splits option.splits)

lemma pin_effect:
  assumes "mcp_pin d info = (d', r)"
  shows "dp_cap d' = dp_cap d" "dp_allowed d' = dp_allowed d" "dp_in_flight d' = dp_in_flight d"
    "dp_pinned d \<noteq> [] \<Longrightarrow> dp_pinned d' = dp_pinned d"
    "dp_pinned d = [] \<Longrightarrow> dp_pinned d' = [] \<or> dp_pinned d' \<in> set (dp_allowed d)"
    "r = None \<Longrightarrow> info = Inr (Some live) \<Longrightarrow> dp_pinned d' = live \<and> live \<noteq> []"
  using assms by (auto simp: mcp_pin_def pin_to_def Let_def split: sum.splits option.splits if_splits)

lemma release_fields [simp]:
  "dp_cap (release d) = dp_cap d" "dp_allowed (release d) = dp_allowed d" "dp_pinned (release d) = dp_pinned d"
  "dp_in_flight (release d) = dp_in_flight d - 1"
  by (simp_all add: release_def)

lemma set_fields [simp]:
  "sv_deps (set_worker i w s) = sv_deps s" "sv_runs (set_worker i w s) = sv_runs s"
  "sv_deps (set_answer i a s) = sv_deps s" "sv_runs (set_answer i a s) = sv_runs s"
  "length (sv_calls (set_worker i w s)) = length (sv_calls s)" "length (sv_calls (set_answer i a s)) = length (sv_calls s)"
  by (simp_all add: set_worker_def set_answer_def)

lemma busy_worker:
  "i < length (sv_calls s) \<Longrightarrow>
   length (filter busy (sv_calls (set_worker i w s))) + (if busy (sv_calls s ! i) then 1 else 0) =
   length (filter busy (sv_calls s)) + (if busy \<lparr>cl_worker = w, cl_answer = None\<rparr> then 1 else 0)"
  using filter_update [of i "sv_calls s" busy "(sv_calls s ! i)\<lparr>cl_worker := w\<rparr>"]
  by (simp add: set_worker_def busy_def)

lemma busy_answer: "i < length (sv_calls s) \<Longrightarrow> length (filter busy (sv_calls (set_answer i a s))) = length (filter busy (sv_calls s))"
  using filter_update [of i "sv_calls s" busy "(sv_calls s ! i)\<lparr>cl_answer := Some a\<rparr>"]
  by (simp add: set_answer_def busy_def split: if_splits)

lemma arriving_worker:
  "list_all arriving_ok (sv_calls s) \<Longrightarrow> w \<noteq> Arriving \<Longrightarrow> w \<noteq> TurnedAway \<Longrightarrow> list_all arriving_ok (sv_calls (set_worker i w s))"
  by (simp add: set_worker_def list_all_update arriving_ok_def)

lemma arriving_answer:
  "i < length (sv_calls s) \<Longrightarrow> list_all arriving_ok (sv_calls s) \<Longrightarrow> cl_worker (sv_calls s ! i) \<noteq> Arriving \<Longrightarrow>
   list_all arriving_ok (sv_calls (set_answer i a s))"
  by (simp add: set_answer_def list_all_update arriving_ok_def)

lemma arriving_refuse:
  "i < length (sv_calls s) \<Longrightarrow> list_all arriving_ok (sv_calls s) \<Longrightarrow>
   list_all arriving_ok (sv_calls (set_answer i a (set_worker i TurnedAway s)))"
  by (simp add: set_answer_def set_worker_def list_all_update arriving_ok_def)

lemma busy_cases:
  "cl_worker c = Arriving \<Longrightarrow> \<not> busy c" "cl_worker c = Pinning \<Longrightarrow> busy c" "cl_worker c = Handling l \<Longrightarrow> busy c"
  by (simp_all add: busy_def)

lemma busy_new:
  "\<not> busy \<lparr>cl_worker = TurnedAway, cl_answer = a\<rparr>" "busy \<lparr>cl_worker = Pinning, cl_answer = a\<rparr>"
  "busy \<lparr>cl_worker = Handling l, cl_answer = a\<rparr>" "\<not> busy \<lparr>cl_worker = Returned r, cl_answer = a\<rparr>"
  by (simp_all add: busy_def)

lemma calls_update [simp]: "sv_calls (s\<lparr>sv_deps := d\<rparr>) = sv_calls s" "sv_calls (s\<lparr>sv_deps := d, sv_runs := r\<rparr>) = sv_calls s"
  by simp_all

lemma calls_inv_step:
  assumes "call_step reserve cancel s s'" "calls_inv d0 s"
  shows "calls_inv d0 s'"
  using assms
proof (induction rule: call_step.induct)
  case (refuse i s now d te)
  note e = admit_effect [OF refuse(3)]
  have "length (filter busy (sv_calls (set_answer i (Inl te) (set_worker i TurnedAway (s\<lparr>sv_deps := d\<rparr>))))) = length (filter busy (sv_calls s))"
    using busy_answer [of i "set_worker i TurnedAway (s\<lparr>sv_deps := d\<rparr>)"] busy_worker [of i "s\<lparr>sv_deps := d\<rparr>" TurnedAway] refuse(1,2)
    by (simp add: busy_cases busy_new)
  then show ?case
    using refuse(1,4) e arriving_refuse [of i "s\<lparr>sv_deps := d\<rparr>"] by (auto simp: calls_inv_def)
next
  case (admit i s now d)
  note e = admit_effect [OF admit(3)]
  have "length (filter busy (sv_calls (set_worker i Pinning (s\<lparr>sv_deps := d\<rparr>)))) = length (filter busy (sv_calls s)) + 1"
    using busy_worker [of i "s\<lparr>sv_deps := d\<rparr>" Pinning] admit(1,2) by (simp add: busy_cases busy_new)
  then show ?case
    using admit(4) e arriving_worker [of "s\<lparr>sv_deps := d\<rparr>" Pinning i] by (auto simp: calls_inv_def)
next
  case (pin_refused i s info d te)
  note e = pin_effect [OF pin_refused(3)]
  have "length (filter busy (sv_calls (set_worker i (Returned (Inl (as_error te))) (s\<lparr>sv_deps := release d\<rparr>)))) + 1 = length (filter busy (sv_calls s))"
    using busy_worker [of i "s\<lparr>sv_deps := release d\<rparr>"] pin_refused(1,2) by (simp add: busy_cases busy_new)
  moreover have "list_all arriving_ok (sv_calls (set_worker i (Returned (Inl (as_error te))) (s\<lparr>sv_deps := release d\<rparr>)))"
    using pin_refused(4) by (intro arriving_worker) (simp_all add: calls_inv_def)
  ultimately show ?case
    using pin_refused(4) e(1-5) by (cases "dp_pinned (sv_deps s) = []") (auto simp: calls_inv_def)
next
  case (pinned i s live d)
  note e = pin_effect [OF pinned(3)]
  have "length (filter busy (sv_calls (set_worker i (Handling live) (s\<lparr>sv_deps := d, sv_runs := sv_runs s @ [(i, live)]\<rparr>)))) = length (filter busy (sv_calls s))"
    using busy_worker [of i "s\<lparr>sv_deps := d, sv_runs := sv_runs s @ [(i, live)]\<rparr>" "Handling live"] pinned(1,2)
    by (simp add: busy_cases busy_new)
  moreover have "list_all arriving_ok (sv_calls (set_worker i (Handling live) (s\<lparr>sv_deps := d, sv_runs := sv_runs s @ [(i, live)]\<rparr>)))"
    using pinned(4) by (intro arriving_worker) (simp_all add: calls_inv_def)
  moreover have "dp_pinned d = live \<and> live \<noteq> []" using e(6) by simp
  ultimately show ?case
    using pinned(4) e(1-5) by (cases "dp_pinned (sv_deps s) = []") (auto simp: calls_inv_def)
next
  case (handled i s live r)
  have "length (filter busy (sv_calls (set_worker i (Returned r) (s\<lparr>sv_deps := release (sv_deps s)\<rparr>)))) + 1 = length (filter busy (sv_calls s))"
    using busy_worker [of i "s\<lparr>sv_deps := release (sv_deps s)\<rparr>" "Returned r"] handled(1,2) by (simp add: busy_cases busy_new)
  moreover have "list_all arriving_ok (sv_calls (set_worker i (Returned r) (s\<lparr>sv_deps := release (sv_deps s)\<rparr>)))"
    using handled(3) by (intro arriving_worker) (simp_all add: calls_inv_def)
  ultimately show ?case using handled(3) by (auto simp: calls_inv_def)
next
  case (answer i s r)
  then show ?case
    using busy_answer [OF answer(1)] arriving_answer [OF answer(1)] by (auto simp: calls_inv_def)
next
  case (give_up i s e)
  then have "cl_worker (sv_calls s ! i) \<noteq> Arriving" by auto
  then show ?case
    using give_up(5) busy_answer [OF give_up(1)] arriving_answer [OF give_up(1)] by (auto simp: calls_inv_def)
qed

lemma calls_inv_start: "deps_ok d \<Longrightarrow> calls_inv d (start d n)"
  by (auto simp: calls_inv_def deps_ok_def start_def busy_def arriving_ok_def list_all_iff)

lemma calls_inv_star: "(call_step reserve cancel)\<^sup>*\<^sup>* s m \<Longrightarrow> calls_inv d s \<Longrightarrow> calls_inv d m"
  by (induction rule: rtranclp_induct) (auto simp: calls_inv_step)

lemma calls_inv_reach: "(call_step reserve cancel)\<^sup>*\<^sup>* (start d n) s \<Longrightarrow> deps_ok d \<Longrightarrow> calls_inv d s"
  by (induction rule: rtranclp_induct) (auto simp: calls_inv_start calls_inv_step)

section \<open>Progress\<close>

text \<open>What a call has left: its goroutine's steps, and its answer.\<close>

definition worker_left :: "'a worker \<Rightarrow> nat" where
  "worker_left w = (case w of Arriving \<Rightarrow> 3 | Pinning \<Rightarrow> 2 | Handling _ \<Rightarrow> 1 | _ \<Rightarrow> 0)"

definition call_left :: "'a call \<Rightarrow> nat" where
  "call_left c = worker_left (cl_worker c) + (if cl_answer c = None then 1 else 0)"

definition calls_left :: "('l, 'a) server \<Rightarrow> nat" where
  "calls_left s = sum_list (map call_left (sv_calls s))"

lemma sum_update_less: "i < length xs \<Longrightarrow> f x < f (xs ! i) \<Longrightarrow> sum_list (map f (xs[i := x])) < (sum_list (map f xs) :: nat)"
proof (induction xs arbitrary: i)
  case (Cons y ys)
  then show ?case by (cases i) auto
qed simp

lemma left_worker:
  "i < length (sv_calls s) \<Longrightarrow> worker_left w < worker_left (cl_worker (sv_calls s ! i)) \<Longrightarrow> calls_left (set_worker i w s) < calls_left s"
  unfolding calls_left_def set_worker_def by (simp, rule sum_update_less) (simp_all add: call_left_def)

lemma left_answer:
  "i < length (sv_calls s) \<Longrightarrow> cl_answer (sv_calls s ! i) = None \<Longrightarrow> calls_left (set_answer i a s) < calls_left s"
  unfolding calls_left_def set_answer_def by (simp, rule sum_update_less) (simp_all add: call_left_def)

lemma left_deps [simp]: "calls_left (s\<lparr>sv_deps := d\<rparr>) = calls_left s" "calls_left (s\<lparr>sv_deps := d, sv_runs := r\<rparr>) = calls_left s"
  by (simp_all add: calls_left_def)

lemma worker_left_simps [simp]:
  "worker_left Arriving = 3" "worker_left Pinning = 2" "worker_left (Handling l) = 1" "worker_left TurnedAway = 0"
  "worker_left (Returned r) = 0"
  by (simp_all add: worker_left_def)

lemma call_step_decreases:
  assumes "call_step reserve cancel s s'" "list_all arriving_ok (sv_calls s)"
  shows "calls_left s' < calls_left s"
  using assms
proof (induction rule: call_step.induct)
  case (refuse i s now d te)
  let ?s = "set_worker i TurnedAway (s\<lparr>sv_deps := d\<rparr>)"
  have "cl_answer (sv_calls ?s ! i) = None"
    using refuse(1,2,4) by (auto simp: set_worker_def arriving_ok_def list_all_length)
  then have "calls_left (set_answer i (Inl te) ?s) < calls_left ?s" using refuse(1) by (intro left_answer) simp_all
  also have "\<dots> < calls_left (s\<lparr>sv_deps := d\<rparr>)" using refuse(1,2) by (intro left_worker) simp_all
  finally show ?case by simp
next
  case (admit i s now d)
  then show ?case using left_worker [of i "s\<lparr>sv_deps := d\<rparr>" Pinning] by simp
next
  case (pin_refused i s info d te)
  then show ?case using left_worker [of i "s\<lparr>sv_deps := release d\<rparr>" "Returned (Inl (as_error te))"] by simp
next
  case (pinned i s live d)
  then show ?case using left_worker [of i "s\<lparr>sv_deps := d, sv_runs := sv_runs s @ [(i, live)]\<rparr>" "Handling live"] by simp
next
  case (handled i s live r)
  then show ?case using left_worker [of i "s\<lparr>sv_deps := release (sv_deps s)\<rparr>" "Returned r"] by simp
next
  case (answer i s r)
  then show ?case by (intro left_answer)
next
  case (give_up i s e)
  then show ?case by (intro left_answer)
qed

lemma calls_left_start [simp]: "calls_left (start d n) = 4 * n"
  by (simp add: calls_left_def start_def call_left_def sum_list_replicate)

lemma calls_left_bound:
  "((call_step reserve cancel) ^^ k) s s' \<Longrightarrow> calls_inv d s \<Longrightarrow> calls_left s' + k \<le> calls_left s"
proof (induction k arbitrary: s')
  case (Suc k)
  then obtain m where m: "((call_step reserve cancel) ^^ k) s m" "call_step reserve cancel m s'" by auto
  have "calls_inv d m" using calls_inv_star [OF relpowp_imp_rtranclp [OF m(1)] Suc.prems(2)] .
  then have "calls_left s' < calls_left m" using call_step_decreases [OF m(2)] by (simp add: calls_inv_def)
  then show ?case using Suc.IH [OF m(1) Suc.prems(2)] by simp
qed simp

section \<open>What the calls are promised\<close>

text \<open>
  C17. At most the capacity of calls runs at once, counting those whose caller has been answered
  because the deadline passed: a slot is held exactly while a goroutine of the call runs.
\<close>

theorem in_flight_counts_real_work:
  assumes "deps_ok d" "(call_step reserve cancel)\<^sup>*\<^sup>* (start d n) s"
  shows "dp_in_flight (sv_deps s) = length (filter busy (sv_calls s)) \<and> length (filter busy (sv_calls s)) \<le> dp_cap d"
  using calls_inv_reach [OF assms(2,1)] by (simp add: calls_inv_def)

text \<open>
  C15. Every handler runs against one cluster: however calls interleave and whatever the API answers
  to each, all of them read the same clusterId when their handler began, it is one that
  \<open>--allow-cluster\<close> lists, and the one pinned at the start if there was one.
\<close>

theorem one_cluster:
  assumes "deps_ok d" "(call_step reserve cancel)\<^sup>*\<^sup>* (start d n) s" "run \<in> set (sv_runs s)" "run' \<in> set (sv_runs s)"
  shows "snd run = snd run' \<and> snd run \<in> set (dp_allowed d) \<and> (dp_pinned d = [] \<or> snd run = dp_pinned d)"
  using calls_inv_reach [OF assms(2,1)] assms(3,4) by (auto simp: calls_inv_def)

text \<open>Two calls of a server that started without a pin: the second reads another cluster.\<close>

definition demo_grant :: "unit \<Rightarrow> int \<Rightarrow> unit \<times> int option" where
  "demo_grant l now = ((), Some 0)"

definition demo_keep :: "unit \<Rightarrow> int \<Rightarrow> unit" where
  "demo_keep l now = ()"

definition demo_admitted :: "(unit, nat) server" where
  "demo_admitted = set_worker 0 Pinning ((start demo_deps 1)\<lparr>sv_deps := demo_deps\<lparr>dp_in_flight := 1\<rparr>\<rparr>)"

definition demo_running :: "(unit, nat) server" where
  "demo_running =
     set_worker 0 (Handling ''c1'')
       (demo_admitted\<lparr>sv_deps := demo_deps\<lparr>dp_in_flight := 1, dp_pinned := ''c1''\<rparr>, sv_runs := [(0, ''c1'')]\<rparr>)"

lemma demo_run: "(call_step demo_grant demo_keep)\<^sup>*\<^sup>* (start demo_deps 1) demo_running"
proof -
  have "mcp_admit demo_grant demo_keep 0 demo_deps = (demo_deps\<lparr>dp_in_flight := 1\<rparr>, None)"
    by (simp add: mcp_admit_def demo_deps_def demo_grant_def)
  then have "call_step demo_grant demo_keep (start demo_deps 1) demo_admitted"
    unfolding demo_admitted_def by (intro call_step.admit [of 0 _ _ _ 0]) (simp_all add: start_def)
  moreover have "mcp_pin (sv_deps demo_admitted) (Inr (Some ''c1'')) = (demo_deps\<lparr>dp_in_flight := 1, dp_pinned := ''c1''\<rparr>, None)"
    by (simp add: demo_admitted_def mcp_pin_def pin_to_def demo_deps_def Let_def)
  then have "call_step demo_grant demo_keep demo_admitted demo_running"
    using call_step.pinned [of 0 demo_admitted "''c1''" _ demo_grant demo_keep]
    by (simp add: demo_running_def) (simp add: demo_admitted_def set_worker_def start_def)
  ultimately show ?thesis by simp
qed

lemma demo_deps_ok: "deps_ok demo_deps"
  by (simp add: deps_ok_def demo_deps_def)

theorem in_flight_counts_real_work_witness:
  "dp_in_flight (sv_deps demo_running) = length (filter busy (sv_calls demo_running)) \<and>
   length (filter busy (sv_calls demo_running)) \<le> 2"
  using in_flight_counts_real_work [OF demo_deps_ok demo_run] by (simp add: demo_deps_def)

theorem one_cluster_witness:
  "sv_runs demo_running = [(0, ''c1'')] \<and> ''c1'' \<in> set (dp_allowed demo_deps)"
proof -
  have r: "sv_runs demo_running = [(0, ''c1'')]" by (simp add: demo_running_def)
  then show ?thesis using one_cluster [OF demo_deps_ok demo_run, of "(0, ''c1'')" "(0, ''c1'')"] by simp
qed

text \<open>
  C38. Every call is answered: no interleaving goes on for more than four steps a call, and while some
  call has no answer some step can be taken, so when none can every caller has its answer and, if
  its goroutine has ended too, its slot is free again.
\<close>

theorem every_call_answered:
  assumes "deps_ok d" "((call_step reserve cancel) ^^ k) (start d n) s"
  shows "k \<le> 4 * n \<and>
    ((\<forall>s'. \<not> call_step reserve cancel s s') \<longrightarrow>
       (\<forall>c\<in>set (sv_calls s). cl_answer c \<noteq> None) \<and> dp_in_flight (sv_deps s) = 0)"
proof -
  have inv: "calls_inv d s" using calls_inv_reach [OF relpowp_imp_rtranclp [OF assms(2)] assms(1)] .
  have "k \<le> 4 * n" using calls_left_bound [OF assms(2) calls_inv_start [OF assms(1)]] calls_left_start by simp
  moreover have "cl_answer (sv_calls s ! i) \<noteq> None \<and> \<not> busy (sv_calls s ! i)"
    if stuck: "\<forall>s'. \<not> call_step reserve cancel s s'" and i: "i < length (sv_calls s)" for i
  proof (cases "cl_worker (sv_calls s ! i)")
    case Arriving
    obtain d' r where "mcp_admit reserve cancel 0 (sv_deps s) = (d', r)" by (cases "mcp_admit reserve cancel 0 (sv_deps s)")
    then show ?thesis
      using stuck call_step.refuse [OF i Arriving] call_step.admit [OF i Arriving] by (cases r) blast+
  next
    case TurnedAway
    then show ?thesis using inv i by (auto simp: calls_inv_def list_all_length arriving_ok_def busy_def)
  next
    case Pinning
    obtain d' r where "mcp_pin (sv_deps s) (Inr (Some (dp_pinned (sv_deps s)))) = (d', r)"
      by (cases "mcp_pin (sv_deps s) (Inr (Some (dp_pinned (sv_deps s))))")
    then show ?thesis
      using stuck call_step.pin_refused [OF i Pinning] call_step.pinned [OF i Pinning] by (cases r) blast+
  next
    case (Handling l)
    then show ?thesis using stuck call_step.handled [OF i Handling] by blast
  next
    case (Returned r)
    then show ?thesis using stuck call_step.answer [OF i Returned] by (auto simp: busy_def)
  qed
  then have "(\<forall>s'. \<not> call_step reserve cancel s s') \<longrightarrow>
      (\<forall>c\<in>set (sv_calls s). cl_answer c \<noteq> None) \<and> filter busy (sv_calls s) = []"
    by (metis (no_types, lifting) filter_False in_set_conv_nth)
  ultimately show ?thesis using inv by (auto simp: calls_inv_def)
qed

theorem every_call_answered_witness:
  "\<exists>k. ((call_step demo_grant demo_keep) ^^ k) (start demo_deps 1) demo_running \<and> k \<le> 4"
proof -
  obtain k where k: "((call_step demo_grant demo_keep) ^^ k) (start demo_deps 1) demo_running"
    using rtranclp_imp_relpowp [OF demo_run] by blast
  then show ?thesis using every_call_answered [OF demo_deps_ok k] by auto
qed

end
