(* ===== verification/MigrationLab.thy ===== *)
theory MigrationLab
  imports KafkaVersion
begin

text \<open>
  A migration lab (\<open>cli/pkg/migrate/lab.go\<close>): \<open>New\<close> validates the options, names every source and
  derives the namespaces, releases, addresses, credentials and topics the commands use.

  \<open>Lab\<close> embeds \<open>Options\<close>, so \<open>lab\<close> extends the record \<open>options\<close>. A provider and a mode are the texts
  they are in Go, "" being unset. The password \<open>crypto/rand\<close> yields for the source of a given index
  is the argument \<open>rand\<close>; None is its failure. An error is a constructor that carries what the
  message prints.
\<close>

section \<open>Options, sources and labs\<close>

definition provider_name :: "provider \<Rightarrow> string" where
  "provider_name p = (case p of ProviderStrimzi \<Rightarrow> ''strimzi'' | ProviderLegacy \<Rightarrow> ''legacy'')"

definition mode_name :: "legacy_mode \<Rightarrow> string" where
  "mode_name m = (case m of LegacyZooKeeper \<Rightarrow> ''zookeeper'' | LegacyKRaftBuilt \<Rightarrow> ''kraft-built'' | LegacyKRaftOfficial \<Rightarrow> ''kraft-official'')"

definition policy_identity :: string where "policy_identity = ''identity''"
definition policy_default :: string where "policy_default = ''default''"
definition scope_cluster :: string where "scope_cluster = ''cluster''"
definition scope_namespace :: string where "scope_namespace = ''namespace''"
definition default_topic :: string where "default_topic = ''kates.orders''"
definition default_messages :: int where "default_messages = 200"
definition default_target_cluster :: string where "default_target_cluster = ''krafter''"
definition default_target_namespace :: string where "default_target_namespace = ''kafka''"
definition target_user :: string where "target_user = ''kates-mm2''"
definition legacy_sasl_user :: string where "legacy_sasl_user = ''mm2reader''"
definition source_alias :: string where "source_alias = ''source''"
definition source_alias_prefix :: string where "source_alias_prefix = ''src''"
definition cluster_domain :: string where "cluster_domain = ''cluster.local''"
definition max_name_len :: nat where "max_name_len = 24"
definition label_lab :: string where "label_lab = ''kates.io/lab''"
definition label_role :: string where "label_role = ''kates.io/lab-role''"
definition label_source_alias :: string where "label_source_alias = ''kates.io/lab-source''"
definition role_source :: string where "role_source = ''source''"
definition role_mirror :: string where "role_mirror = ''mirror''"

definition zero_version :: version where "zero_version = \<lparr>major = 0, minor = 0, patch = 0\<rparr>"

record source_spec =
  sp_from :: version
  sp_provider :: string
  sp_mode :: string
  sp_strimzi :: string

record options =
  op_name :: string
  op_from :: version
  op_to :: version
  op_provider :: string
  op_mode :: string
  op_source_strimzi :: string
  op_also_from :: "source_spec list"
  op_read_only :: bool
  op_target_is_primary :: bool
  op_target_cluster :: string
  op_target_namespace :: string
  op_policy :: string
  op_topics :: "string list"
  op_messages :: int
  op_sasl :: bool
  op_password :: string
  op_tls :: bool
  op_registry :: string
  op_image_mirror :: string
  op_strimzi :: string
  op_scope :: string

record lab_source =
  so_from :: version
  so_provider :: string
  so_mode :: string
  so_strimzi :: string
  so_alias :: string
  so_namespace :: string
  so_cluster :: string
  so_release :: string
  so_image :: string
  so_bootstrap :: string
  so_user :: string
  so_secret :: string
  so_ca_secret :: string
  so_password :: string
  so_sasl :: bool
  so_tls :: bool
  so_topics :: "string list"

record lab = options +
  lb_source_namespace :: string
  lb_source_cluster :: string
  lb_source_release :: string
  lb_source_image :: string
  lb_source_bootstrap :: string
  lb_source_user :: string
  lb_source_secret :: string
  lb_source_ca_secret :: string
  lb_source_topics :: "string list"
  lb_extra_sources :: "lab_source list"
  lb_mirror_release :: string
  lb_mirror_namespace :: string
  lb_mirror_cr :: string
  lb_group_id :: string
  lb_source_alias :: string
  lb_consumer_group :: string
  lb_verify_group :: string
  lb_labels :: "string \<rightharpoonup> string"

datatype lab_error =
    FromRequired | ToRequired
  | BelowFloor version
  | BadProvider string | BadMode string | OperatorOnLegacy
  | BadName string | BadPolicy string | BadScope string
  | BadTopic string | TopicTwice string | BadMessages int
  | NotDnsLabel string string
  | AliasNotKafka string version
  | AliasTwice version version string
  | FanInClash version version string string string
  | NoPassword

section \<open>Names\<close>

text \<open>\<open>labName\<close> and \<open>topicName\<close>, the two regular expressions of the file.\<close>

definition is_label_char :: "char \<Rightarrow> bool" where
  "is_label_char c \<longleftrightarrow> is_digit c \<or> 97 \<le> (of_char c :: nat) \<and> (of_char c :: nat) \<le> 122"

definition lab_name :: "string \<Rightarrow> bool" where
  "lab_name s \<longleftrightarrow> s \<noteq> [] \<and> is_label_char (hd s) \<and> is_label_char (last s) \<and> list_all (\<lambda>c. is_label_char c \<or> c = CHR ''-'') s"

definition topic_name :: "string \<Rightarrow> bool" where
  "topic_name s \<longleftrightarrow> 1 \<le> length s \<and> length s \<le> 249 \<and>
     list_all (\<lambda>c. is_label_char c \<or> 65 \<le> (of_char c :: nat) \<and> (of_char c :: nat) \<le> 90 \<or> c \<in> set ''._-'') s"

text \<open>A DNS label, as \<open>normaliseOptions\<close> and \<open>deriveSources\<close> check one.\<close>

definition dns_label :: "string \<Rightarrow> bool" where
  "dns_label s \<longleftrightarrow> lab_name s \<and> length s \<le> 63"

definition version_digits :: "version \<Rightarrow> string" where
  "version_digits v = filter (\<lambda>c. c \<noteq> CHR ''.'') (version_string v)"

definition default_name_for :: "version list \<Rightarrow> version \<Rightarrow> string" where
  "default_name_for froms to' = ''m'' @ join_with ''-'' (map version_digits froms @ [version_digits to'])"

definition default_name :: "version \<Rightarrow> version \<Rightarrow> string" where
  "default_name frm to' = default_name_for [frm] to'"

definition source_alias_for :: "version \<Rightarrow> string" where
  "source_alias_for v = source_alias_prefix @ version_digits v"

section \<open>Validation\<close>

fun repeated_topic :: "string list \<Rightarrow> string list \<Rightarrow> lab_error option" where
  "repeated_topic seen [] = None"
| "repeated_topic seen (t # ts) =
     (if \<not> topic_name t \<or> t = ''.'' \<or> t = ''..'' then Some (BadTopic t)
      else if t \<in> set seen then Some (TopicTwice t)
      else repeated_topic (t # seen) ts)"

definition normalise_options :: "options \<Rightarrow> lab_error + options" where
  "normalise_options o' =
     (if \<not> lab_name (op_name o') \<or> max_name_len < length (op_name o') then Inl (BadName (op_name o'))
      else if op_policy o' \<notin> {[], policy_identity, policy_default} then Inl (BadPolicy (op_policy o'))
      else if op_scope o' \<notin> {[], scope_cluster, scope_namespace} then Inl (BadScope (op_scope o'))
      else
        (case repeated_topic [] (op_topics o') of
           Some e \<Rightarrow> Inl e
         | None \<Rightarrow>
             if op_messages o' < 0 then Inl (BadMessages (op_messages o'))
             else
               let cluster = (if op_target_cluster o' \<noteq> [] then op_target_cluster o'
                              else if op_target_is_primary o' then default_target_cluster else op_name o' @ ''-tgt'');
                   ns = (if op_target_namespace o' \<noteq> [] then op_target_namespace o'
                         else if op_target_is_primary o' then default_target_namespace else ''kafka-'' @ op_name o' @ ''-tgt'')
               in if \<not> dns_label cluster then Inl (NotDnsLabel ''target cluster'' cluster)
                  else if \<not> dns_label ns then Inl (NotDnsLabel ''target namespace'' ns)
                  else Inr (o'\<lparr>op_policy := (if op_policy o' = [] then policy_identity else op_policy o'),
                    op_scope := (if op_scope o' = [] then scope_cluster else op_scope o'),
                    op_messages := (if op_messages o' = 0 then default_messages else op_messages o'),
                    op_target_cluster := cluster, op_target_namespace := ns\<rparr>)))"

definition normalise_spec :: "source_spec \<Rightarrow> lab_error + source_spec" where
  "normalise_spec s =
     (if sp_from s = zero_version then Inl FromRequired
      else if version_less (sp_from s) min_mirror_source then Inl (BelowFloor (sp_from s))
      else if sp_provider s \<notin> {[], provider_name ProviderLegacy, provider_name ProviderStrimzi} then Inl (BadProvider (sp_provider s))
      else if sp_provider s = provider_name ProviderStrimzi then Inr (s\<lparr>sp_mode := []\<rparr>)
      else
        let mode = (if sp_mode s = [] then mode_name (legacy_mode_for (sp_from s)) else sp_mode s)
        in if mode \<notin> {mode_name LegacyZooKeeper, mode_name LegacyKRaftBuilt, mode_name LegacyKRaftOfficial} then Inl (BadMode mode)
           else if sp_strimzi s \<noteq> [] then Inl OperatorOnLegacy
           else Inr (s\<lparr>sp_provider := provider_name ProviderLegacy, sp_mode := mode\<rparr>))"

text \<open>A loop that returns at the first error.\<close>

fun try_map :: "('a \<Rightarrow> 'e + 'b) \<Rightarrow> 'a list \<Rightarrow> 'e + 'b list" where
  "try_map f [] = Inr []"
| "try_map f (x # xs) =
     (case f x of Inl e \<Rightarrow> Inl e | Inr y \<Rightarrow> (case try_map f xs of Inl e \<Rightarrow> Inl e | Inr ys \<Rightarrow> Inr (y # ys)))"

definition specs_of :: "options \<Rightarrow> source_spec list" where
  "specs_of o' = \<lparr>sp_from = op_from o', sp_provider = op_provider o', sp_mode = op_mode o', sp_strimzi = op_source_strimzi o'\<rparr> # op_also_from o'"

definition normalise_sources :: "options \<Rightarrow> lab_error + source_spec list" where
  "normalise_sources o' = try_map normalise_spec (specs_of o')"

section \<open>Deriving the sources\<close>

definition corpus_topics :: "string list \<Rightarrow> string \<Rightarrow> bool \<Rightarrow> string list" where
  "corpus_topics topics alias multi =
     (if topics \<noteq> [] then topics else if multi then [default_topic @ ''.'' @ alias] else [default_topic])"

definition alias_of :: "bool \<Rightarrow> source_spec \<Rightarrow> string" where
  "alias_of multi s = (if multi then source_alias_for (sp_from s) else source_alias)"

definition suffix_of :: "bool \<Rightarrow> source_spec \<Rightarrow> string" where
  "suffix_of multi s = (if multi then source_alias_for (sp_from s) else ''src'')"

text \<open>The fields every source has, and those of a legacy and of a Strimzi source.\<close>

definition named_source :: "options \<Rightarrow> bool \<Rightarrow> source_spec \<Rightarrow> lab_source" where
  "named_source o' multi s =
     \<lparr>so_from = sp_from s, so_provider = sp_provider s, so_mode = sp_mode s, so_strimzi = sp_strimzi s,
      so_alias = alias_of multi s,
      so_namespace = ''kafka-'' @ op_name o' @ ''-'' @ suffix_of multi s,
      so_cluster = op_name o' @ ''-'' @ suffix_of multi s,
      so_release = op_name o' @ ''-'' @ suffix_of multi s,
      so_image = [], so_bootstrap = [], so_user = [], so_secret = [], so_ca_secret = [], so_password = [],
      so_sasl = False, so_tls = False,
      so_topics = corpus_topics (op_topics o') (alias_of multi s) multi\<rparr>"

definition service_address :: "string \<Rightarrow> string \<Rightarrow> int \<Rightarrow> string" where
  "service_address svc ns port = svc @ ''.'' @ ns @ ''.svc.'' @ cluster_domain @ '':'' @ show_int port"

definition legacy_source :: "string option \<Rightarrow> options \<Rightarrow> lab_source \<Rightarrow> lab_error + lab_source" where
  "legacy_source rand o' s =
     (let image = legacy_image_for (so_from s) (op_registry o');
          s' = s\<lparr>so_image := (if op_image_mirror o' \<noteq> [] then op_image_mirror o' @ ''/'' @ image else image),
                 so_bootstrap := service_address (so_release s @ ''-legacy-kafka-bootstrap'') (so_namespace s) (if op_sasl o' then 9094 else 9092)\<rparr>
      in if \<not> op_sasl o' then Inr s'
         else
           (case (if op_password o' \<noteq> [] then Some (op_password o') else rand) of
              None \<Rightarrow> Inl NoPassword
            | Some pw \<Rightarrow>
                Inr (s'\<lparr>so_sasl := True, so_user := legacy_sasl_user, so_secret := so_release s @ ''-'' @ legacy_sasl_user, so_password := pw\<rparr>)))"

definition strimzi_source :: "string \<Rightarrow> options \<Rightarrow> lab_source \<Rightarrow> lab_source" where
  "strimzi_source mirror_release o' s =
     s\<lparr>so_sasl := True, so_user := target_user, so_secret := mirror_release @ ''-'' @ so_alias s,
       so_tls := op_tls o',
       so_ca_secret := (if op_tls o' then so_cluster s @ ''-cluster-ca-cert'' else []),
       so_bootstrap := service_address (so_cluster s @ ''-kafka-bootstrap'') (so_namespace s) (if op_tls o' then 9093 else 9092)\<rparr>"

text \<open>One turn of the loop of \<open>deriveSources\<close>: \<open>aliases\<close> are those of the sources before, with their versions.\<close>

definition derive_source ::
  "string option \<Rightarrow> options \<Rightarrow> string \<Rightarrow> bool \<Rightarrow> (string \<times> version) list \<Rightarrow> source_spec \<Rightarrow> lab_error + lab_source" where
  "derive_source rand o' mirror_release multi aliases s =
     (let x = named_source o' multi s
      in if \<not> lab_name (so_alias x) then Inl (AliasNotKafka (so_alias x) (sp_from s))
         else
           (case map_of aliases (so_alias x) of
              Some other \<Rightarrow> Inl (AliasTwice other (sp_from s) (so_alias x))
            | None \<Rightarrow>
                if \<not> dns_label (so_namespace x) then Inl (NotDnsLabel ''source namespace'' (so_namespace x))
                else if \<not> dns_label (so_release x) then Inl (NotDnsLabel ''source release'' (so_release x))
                else if sp_provider s = provider_name ProviderLegacy then legacy_source rand o' x
                else Inr (strimzi_source mirror_release o' x)))"

fun derive_loop ::
  "(nat \<Rightarrow> string option) \<Rightarrow> options \<Rightarrow> string \<Rightarrow> bool \<Rightarrow> (string \<times> version) list \<Rightarrow> source_spec list \<Rightarrow> lab_error + lab_source list" where
  "derive_loop rand o' mirror_release multi aliases [] = Inr []"
| "derive_loop rand o' mirror_release multi aliases (s # ss) =
     (case derive_source (rand (length aliases)) o' mirror_release multi aliases s of
        Inl e \<Rightarrow> Inl e
      | Inr x \<Rightarrow>
          (case derive_loop rand o' mirror_release multi ((so_alias x, sp_from s) # aliases) ss of
             Inl e \<Rightarrow> Inl e | Inr xs \<Rightarrow> Inr (x # xs)))"

definition first_clash :: "lab_source \<Rightarrow> lab_source list \<Rightarrow> lab_error option" where
  "first_clash a rest =
     (case [FanInClash (so_from a) (so_from b) t (so_alias a) (so_alias b). b \<leftarrow> rest, t \<leftarrow> so_topics a, u \<leftarrow> so_topics b, t = u] of
        [] \<Rightarrow> None | e # _ \<Rightarrow> Some e)"

fun clash_among :: "lab_source list \<Rightarrow> lab_error option" where
  "clash_among [] = None"
| "clash_among (a # rest) = (case first_clash a rest of Some e \<Rightarrow> Some e | None \<Rightarrow> clash_among rest)"

definition refuse_identity_fan_in :: "string \<Rightarrow> lab_source list \<Rightarrow> lab_error option" where
  "refuse_identity_fan_in policy sources =
     (if policy \<noteq> policy_identity \<or> length sources < 2 then None else clash_among sources)"

definition derive_sources :: "(nat \<Rightarrow> string option) \<Rightarrow> options \<Rightarrow> string \<Rightarrow> source_spec list \<Rightarrow> lab_error + lab_source list" where
  "derive_sources rand o' mirror_release specs =
     (case derive_loop rand o' mirror_release (1 < length specs) [] specs of
        Inl e \<Rightarrow> Inl e
      | Inr sources \<Rightarrow> (case refuse_identity_fan_in (op_policy o') sources of Some e \<Rightarrow> Inl e | None \<Rightarrow> Inr sources))"

text \<open>\<open>New\<close>'s literal with the lab's own names, then the first source's names written into it.\<close>

definition lab_with :: "options \<Rightarrow> lab_source list \<Rightarrow> lab" where
  "lab_with o' sources =
     (let first = hd sources in
      options.extend
        (o'\<lparr>op_provider := so_provider first, op_mode := so_mode first, op_source_strimzi := so_strimzi first,
            op_password := so_password first, op_sasl := so_sasl first, op_topics := concat (map so_topics sources)\<rparr>)
        (lab.fields (so_namespace first) (so_cluster first) (so_release first) (so_image first) (so_bootstrap first)
           (so_user first) (so_secret first) (so_ca_secret first) (so_topics first) (tl sources)
           (''mm2-'' @ op_name o') (op_target_namespace o') (''mm2-'' @ op_name o' @ ''-mirror-maker2'') (''mm2-'' @ op_name o')
           (so_alias first) (''kates-migration-'' @ op_name o') (''kates-migration-verify-'' @ op_name o')
           [label_lab \<mapsto> op_name o']))"

definition new_lab :: "(nat \<Rightarrow> string option) \<Rightarrow> options \<Rightarrow> lab_error + lab" where
  "new_lab rand o' =
     (if op_from o' = zero_version then Inl FromRequired
      else if op_to o' = zero_version then Inl ToRequired
      else
        (case normalise_sources o' of
           Inl e \<Rightarrow> Inl e
         | Inr specs \<Rightarrow>
             let named = o'\<lparr>op_provider := sp_provider (hd specs), op_mode := sp_mode (hd specs), op_also_from := tl specs,
                            op_name := (if op_name o' = [] then default_name_for (map sp_from specs) (op_to o') else op_name o')\<rparr>
             in (case normalise_options named of
                   Inl e \<Rightarrow> Inl e
                 | Inr n \<Rightarrow>
                     (case derive_sources rand n (''mm2-'' @ op_name n) specs of
                        Inl e \<Rightarrow> Inl e
                      | Inr sources \<Rightarrow> Inr (lab_with n sources)))))"

section \<open>Reading a lab\<close>

definition source_auth_none :: string where "source_auth_none = ''none''"
definition source_auth_sasl :: string where "source_auth_sasl = ''sasl''"
definition source_auth_tls :: string where "source_auth_tls = ''tls''"
definition mechanism_plain :: string where "mechanism_plain = ''plain''"
definition mechanism_scram_512 :: string where "mechanism_scram_512 = ''scram-sha-512''"
definition mechanism_scram_256 :: string where "mechanism_scram_256 = ''scram-sha-256''"

definition auth_of :: "lab_source \<Rightarrow> string" where
  "auth_of s =
     (if so_provider s = provider_name ProviderStrimzi \<and> so_tls s then source_auth_tls
      else if so_provider s = provider_name ProviderStrimzi \<or> so_sasl s then source_auth_sasl
      else source_auth_none)"

definition mechanism_of :: "lab_source \<Rightarrow> string" where
  "mechanism_of s =
     (if auth_of s = source_auth_none then []
      else if auth_of s = source_auth_sasl \<and> so_provider s = provider_name ProviderLegacy then mechanism_plain
      else mechanism_scram_512)"

definition describe_source :: "lab_source \<Rightarrow> string" where
  "describe_source s =
     ''Kafka '' @ version_string (so_from s) @ '' ('' @ so_provider s @
     (if so_provider s = provider_name ProviderLegacy then '', '' @ so_mode s
      else if so_strimzi s \<noteq> [] then '' '' @ so_strimzi s else []) @ '')''"

definition first_source :: "lab \<Rightarrow> lab_source" where
  "first_source l =
     \<lparr>so_from = op_from l, so_provider = op_provider l, so_mode = op_mode l, so_strimzi = op_source_strimzi l,
      so_alias = (if lb_source_alias l = [] then source_alias else lb_source_alias l),
      so_namespace = lb_source_namespace l, so_cluster = lb_source_cluster l, so_release = lb_source_release l,
      so_image = lb_source_image l, so_bootstrap = lb_source_bootstrap l,
      so_user = lb_source_user l, so_secret = lb_source_secret l, so_ca_secret = lb_source_ca_secret l, so_password = op_password l,
      so_sasl = op_sasl l, so_tls = op_tls l,
      so_topics = (if lb_source_topics l = [] then op_topics l else lb_source_topics l)\<rparr>"

definition lab_sources :: "lab \<Rightarrow> lab_source list" where
  "lab_sources l = first_source l # lb_extra_sources l"

definition fan_in :: "lab \<Rightarrow> bool" where
  "fan_in l \<longleftrightarrow> lb_extra_sources l \<noteq> []"

definition role_labels :: "lab \<Rightarrow> string \<Rightarrow> string \<rightharpoonup> string" where
  "role_labels l role = (lb_labels l)(label_role \<mapsto> role)"

definition source_labels :: "lab \<Rightarrow> lab_source option \<Rightarrow> string \<rightharpoonup> string" where
  "source_labels l s =
     (case s of
        Some x \<Rightarrow> if fan_in l \<and> so_alias x \<noteq> [] then (role_labels l role_source)(label_source_alias \<mapsto> so_alias x)
                  else role_labels l role_source
      | None \<Rightarrow> role_labels l role_source)"

definition selector :: "lab \<Rightarrow> string" where
  "selector l = label_lab @ ''='' @ op_name l"

definition row_for :: "lab \<Rightarrow> string \<Rightarrow> lab_source option \<Rightarrow> string" where
  "row_for l row s = (case s of Some x \<Rightarrow> if fan_in l then row @ '' ['' @ so_alias x @ '']'' else row | None \<Rightarrow> row)"

definition replicated_topic_of :: "lab \<Rightarrow> lab_source option \<Rightarrow> string \<Rightarrow> string" where
  "replicated_topic_of l s t =
     (if op_policy l = policy_default
      then (case s of Some x \<Rightarrow> if so_alias x \<noteq> [] then so_alias x else source_alias | None \<Rightarrow> source_alias) @ ''.'' @ t
      else t)"

definition replicated_topics :: "lab \<Rightarrow> string list" where
  "replicated_topics l = concat (map (\<lambda>s. map (replicated_topic_of l (Some s)) (so_topics s)) (lab_sources l))"

definition describe_lab :: "lab \<Rightarrow> string" where
  "describe_lab l =
     join_with '' + '' (map describe_source (lab_sources l)) @ '' '' @ map char_of [226, 134, 146 :: nat] @ '' '' @
     version_string (op_to l) @ '' ('' @ op_target_cluster l @ '' in '' @ op_target_namespace l @ '')''"

section \<open>What the derivation gives\<close>

lemma try_map_Inr: "try_map f xs = Inr ys \<longleftrightarrow> list_all2 (\<lambda>x y. f x = Inr y) xs ys"
proof (induction xs arbitrary: ys)
  case (Cons x xs)
  show ?case by (cases ys) (auto simp: Cons.IH [symmetric] split: sum.splits)
qed auto

definition legacy_ok :: "options \<Rightarrow> lab_source \<Rightarrow> bool" where
  "legacy_ok o' x \<longleftrightarrow>
     so_sasl x = op_sasl o' \<and> \<not> so_tls x \<and> so_ca_secret x = [] \<and> so_image x \<noteq> [] \<and>
     (if op_sasl o' then so_user x = legacy_sasl_user \<and> so_secret x = so_release x @ ''-'' @ legacy_sasl_user
      else so_user x = [] \<and> so_secret x = [])"

definition strimzi_ok :: "string \<Rightarrow> options \<Rightarrow> lab_source \<Rightarrow> bool" where
  "strimzi_ok mirror_release o' x \<longleftrightarrow>
     so_sasl x \<and> so_user x = target_user \<and> so_secret x = mirror_release @ ''-'' @ so_alias x \<and> so_image x = [] \<and>
     so_tls x = op_tls o' \<and> (if op_tls o' then so_ca_secret x = so_cluster x @ ''-cluster-ca-cert'' else so_ca_secret x = [])"

text \<open>The source derived from a spec.\<close>

definition derived :: "options \<Rightarrow> string \<Rightarrow> bool \<Rightarrow> source_spec \<Rightarrow> lab_source \<Rightarrow> bool" where
  "derived o' mirror_release multi s x \<longleftrightarrow>
     so_from x = sp_from s \<and> so_provider x = sp_provider s \<and> so_mode x = sp_mode s \<and> so_strimzi x = sp_strimzi s \<and>
     so_alias x = alias_of multi s \<and> lab_name (so_alias x) \<and>
     so_namespace x = ''kafka-'' @ op_name o' @ ''-'' @ suffix_of multi s \<and> dns_label (so_namespace x) \<and>
     so_cluster x = op_name o' @ ''-'' @ suffix_of multi s \<and> so_release x = so_cluster x \<and> dns_label (so_release x) \<and>
     so_topics x = corpus_topics (op_topics o') (so_alias x) multi \<and> CHR '':'' \<in> set (so_bootstrap x) \<and>
     (if sp_provider s = provider_name ProviderLegacy then legacy_ok o' x else strimzi_ok mirror_release o' x)"

lemma legacy_image_nonempty: "legacy_image_for v r \<noteq> []"
  by (simp add: legacy_image_for_def)

lemma service_address_colon: "CHR '':'' \<in> set (service_address svc ns port)"
  by (simp add: service_address_def)

lemma legacy_source_derived:
  assumes "legacy_source r o' y = Inr x" "\<not> so_tls y" "so_ca_secret y = []" "so_user y = []" "so_secret y = []" "\<not> so_sasl y"
  obtains im pw where "im \<noteq> []" "x = y\<lparr>so_image := im,
      so_bootstrap := service_address (so_release y @ ''-legacy-kafka-bootstrap'') (so_namespace y) (if op_sasl o' then 9094 else 9092),
      so_sasl := op_sasl o', so_user := (if op_sasl o' then legacy_sasl_user else []),
      so_secret := (if op_sasl o' then so_release y @ ''-'' @ legacy_sasl_user else []), so_password := pw\<rparr>"
proof -
  let ?im = "if op_image_mirror o' \<noteq> [] then op_image_mirror o' @ ''/'' @ legacy_image_for (so_from y) (op_registry o')
      else legacy_image_for (so_from y) (op_registry o')"
  have im: "?im \<noteq> []" using legacy_image_nonempty by simp
  show ?thesis
  proof (cases "op_sasl o'")
    case True
    obtain pw where "(if op_password o' \<noteq> [] then Some (op_password o') else r) = Some pw"
      using assms(1) True unfolding legacy_source_def Let_def by (cases "if op_password o' \<noteq> [] then Some (op_password o') else r") simp_all
    then have "x = (y\<lparr>so_image := ?im, so_bootstrap := service_address (so_release y @ ''-legacy-kafka-bootstrap'') (so_namespace y) 9094\<rparr>)
        \<lparr>so_sasl := True, so_user := legacy_sasl_user, so_secret := so_release y @ ''-'' @ legacy_sasl_user, so_password := pw\<rparr>"
      using assms(1) True unfolding legacy_source_def Let_def by simp
    then show ?thesis using True im by (intro that [of ?im pw]) simp_all
  next
    case False
    then have "x = y\<lparr>so_image := ?im, so_bootstrap := service_address (so_release y @ ''-legacy-kafka-bootstrap'') (so_namespace y) 9092\<rparr>"
      using assms(1) unfolding legacy_source_def Let_def by simp
    then have "x = y\<lparr>so_image := ?im,
        so_bootstrap := service_address (so_release y @ ''-legacy-kafka-bootstrap'') (so_namespace y) (if op_sasl o' then 9094 else 9092),
        so_sasl := op_sasl o', so_user := (if op_sasl o' then legacy_sasl_user else []),
        so_secret := (if op_sasl o' then so_release y @ ''-'' @ legacy_sasl_user else []), so_password := so_password y\<rparr>"
      using False assms(2-) by (cases y) simp
    then show ?thesis using im by (intro that [of ?im "so_password y"])
  qed
qed

lemma derive_source_derived:
  assumes "derive_source rand o' rel multi aliases s = Inr x"
  shows "derived o' rel multi s x \<and> so_alias x \<notin> fst ` set aliases"
proof -
  let ?y = "named_source o' multi s"
  have ok: "lab_name (so_alias ?y)" "map_of aliases (so_alias ?y) = None" "dns_label (so_namespace ?y)" "dns_label (so_release ?y)"
    and x: "if sp_provider s = provider_name ProviderLegacy then legacy_source rand o' ?y = Inr x else x = strimzi_source rel o' ?y"
    using assms unfolding derive_source_def Let_def by (auto split: if_split_asm option.split_asm)
  note y = named_source_def service_address_colon
  have "so_alias x = so_alias ?y \<and> derived o' rel multi s x"
  proof (cases "sp_provider s = provider_name ProviderLegacy")
    case True
    with x have l: "legacy_source rand o' ?y = Inr x" by simp
    have flags: "\<not> so_tls ?y" "so_ca_secret ?y = []" "so_user ?y = []" "so_secret ?y = []" "\<not> so_sasl ?y" by (simp_all add: y)
    obtain im pw where im: "im \<noteq> []" and x': "x = ?y\<lparr>so_image := im,
        so_bootstrap := service_address (so_release ?y @ ''-legacy-kafka-bootstrap'') (so_namespace ?y) (if op_sasl o' then 9094 else 9092),
        so_sasl := op_sasl o', so_user := (if op_sasl o' then legacy_sasl_user else []),
        so_secret := (if op_sasl o' then so_release ?y @ ''-'' @ legacy_sasl_user else []), so_password := pw\<rparr>"
      by (rule legacy_source_derived [OF l flags])
    show ?thesis unfolding x' derived_def legacy_ok_def using ok True im by (simp add: y)
  next
    case False
    with x have x': "x = strimzi_source rel o' ?y" by simp
    show ?thesis unfolding x' derived_def strimzi_ok_def using ok False by (simp add: strimzi_source_def y)
  qed
  then show ?thesis using ok(2) by (simp add: map_of_eq_None_iff)
qed

lemma derive_loop_derived:
  "derive_loop rand o' rel multi aliases ss = Inr xs \<Longrightarrow>
   list_all2 (derived o' rel multi) ss xs \<and> distinct (map so_alias xs) \<and> so_alias ` set xs \<inter> fst ` set aliases = {}"
proof (induction ss arbitrary: aliases xs)
  case (Cons s ss)
  then obtain x ys where x: "derive_source (rand (length aliases)) o' rel multi aliases s = Inr x"
    and ys: "derive_loop rand o' rel multi ((so_alias x, sp_from s) # aliases) ss = Inr ys" and xs: "xs = x # ys"
    by (auto split: sum.splits)
  show ?case using Cons.IH [OF ys] derive_source_derived [OF x] xs by auto
qed simp

lemma first_clash_None: "first_clash a rest = None \<longleftrightarrow> (\<forall>b\<in>set rest. set (so_topics a) \<inter> set (so_topics b) = {})"
proof -
  have hd: "(case es of [] \<Rightarrow> None | e # _ \<Rightarrow> Some e) = None \<longleftrightarrow> es = []" for es :: "lab_error list" by (cases es) auto
  show ?thesis unfolding first_clash_def hd by (auto simp: concat_eq_Nil_conv)
qed

lemma clash_among_None: "clash_among xs = None \<longleftrightarrow> sorted_wrt (\<lambda>a b. set (so_topics a) \<inter> set (so_topics b) = {}) xs"
proof (induction xs)
  case (Cons a xs)
  then show ?case using first_clash_None [of a xs] by (cases "first_clash a xs") auto
qed simp

lemma derive_sources_derived:
  assumes "derive_sources rand o' rel ss = Inr xs"
  shows "list_all2 (derived o' rel (1 < length ss)) ss xs" "distinct (map so_alias xs)"
    "op_policy o' = policy_identity \<Longrightarrow> sorted_wrt (\<lambda>a b. set (so_topics a) \<inter> set (so_topics b) = {}) xs"
proof -
  obtain ys where ys: "derive_loop rand o' rel (1 < length ss) [] ss = Inr ys" "ys = xs" "refuse_identity_fan_in (op_policy o') xs = None"
    using assms by (auto simp: derive_sources_def split: sum.splits option.splits)
  show "list_all2 (derived o' rel (1 < length ss)) ss xs" "distinct (map so_alias xs)"
    using derive_loop_derived [OF ys(1)] ys(2) by auto
  assume "op_policy o' = policy_identity"
  then show "sorted_wrt (\<lambda>a b. set (so_topics a) \<inter> set (so_topics b) = {}) xs"
    using ys(3) clash_among_None [of xs] by (cases xs; cases "tl xs") (auto simp: refuse_identity_fan_in_def simp del: clash_among.simps)
qed

lemma repeated_topic_None: "repeated_topic seen ts = None \<Longrightarrow> distinct ts \<and> set ts \<inter> set seen = {} \<and> list_all topic_name ts"
proof (induction ts arbitrary: seen)
  case (Cons t ts)
  then show ?case using Cons.IH [of "t # seen"] by (auto split: if_splits)
qed simp

lemma normalise_options_ok:
  assumes "normalise_options o' = Inr n"
  shows "lab_name (op_name n)" "length (op_name n) \<le> 24" "op_policy n \<in> {policy_identity, policy_default}"
    "distinct (op_topics n)" "list_all topic_name (op_topics n)" "0 < op_messages n"
    "dns_label (op_target_cluster n)" "dns_label (op_target_namespace n)"
    "op_name n = op_name o'" "op_topics n = op_topics o'" "op_from n = op_from o'" "op_to n = op_to o'" "op_tls n = op_tls o'"
    "op_sasl n = op_sasl o'" "op_read_only n = op_read_only o'"
proof -
  let ?cluster = "if op_target_cluster o' \<noteq> [] then op_target_cluster o'
      else if op_target_is_primary o' then default_target_cluster else op_name o' @ ''-tgt''"
  let ?ns = "if op_target_namespace o' \<noteq> [] then op_target_namespace o'
      else if op_target_is_primary o' then default_target_namespace else ''kafka-'' @ op_name o' @ ''-tgt''"
  have r: "repeated_topic [] (op_topics o') = None" using assms by (auto simp: normalise_options_def split: if_splits option.splits)
  note a = assms [unfolded normalise_options_def r option.case Let_def]
  have c: "lab_name (op_name o')" "length (op_name o') \<le> max_name_len" "op_policy o' \<in> {[], policy_identity, policy_default}"
    "\<not> op_messages o' < 0" "dns_label ?cluster" "dns_label ?ns"
    using a by (auto simp only: split: if_splits)
  have n: "n = o'\<lparr>op_policy := (if op_policy o' = [] then policy_identity else op_policy o'),
      op_scope := (if op_scope o' = [] then scope_cluster else op_scope o'),
      op_messages := (if op_messages o' = 0 then default_messages else op_messages o'),
      op_target_cluster := ?cluster, op_target_namespace := ?ns\<rparr>"
    using a by (simp split: if_split_asm)
  show "lab_name (op_name n)" "length (op_name n) \<le> 24" "op_policy n \<in> {policy_identity, policy_default}"
    "0 < op_messages n" "dns_label (op_target_cluster n)" "dns_label (op_target_namespace n)"
    using c by (auto simp: n max_name_len_def default_messages_def)
  show "distinct (op_topics n)" "list_all topic_name (op_topics n)" using repeated_topic_None [OF r] by (simp_all add: n)
  show "op_name n = op_name o'" "op_topics n = op_topics o'" "op_from n = op_from o'" "op_to n = op_to o'" "op_tls n = op_tls o'"
    "op_sasl n = op_sasl o'" "op_read_only n = op_read_only o'" by (simp_all add: n)
qed

text \<open>What \<open>New\<close> goes through.\<close>

lemma new_lab_Inr:
  assumes "new_lab rand o' = Inr l"
  obtains specs n sources where "normalise_sources o' = Inr specs"
    "normalise_options (o'\<lparr>op_provider := sp_provider (hd specs), op_mode := sp_mode (hd specs), op_also_from := tl specs,
        op_name := (if op_name o' = [] then default_name_for (map sp_from specs) (op_to o') else op_name o')\<rparr>) = Inr n"
    "derive_sources rand n (''mm2-'' @ op_name n) specs = Inr sources" "l = lab_with n sources"
  using assms by (auto simp: new_lab_def Let_def split: if_splits sum.splits)

lemma lab_with_sources:
  assumes "sources = x # xs" "so_alias x \<noteq> []" "so_topics x \<noteq> []" "op_from n = so_from x"
  shows "lab_sources (lab_with n sources) = x\<lparr>so_tls := op_tls n\<rparr> # xs"
  using assms by (cases x) (simp add: lab_sources_def lab_with_def first_source_def options.extend_def lab.fields_def Let_def)

lemma lab_with_fields [simp]:
  "op_name (lab_with n sources) = op_name n" "op_policy (lab_with n sources) = op_policy n"
  "op_read_only (lab_with n sources) = op_read_only n" "op_messages (lab_with n sources) = op_messages n"
  "op_target_cluster (lab_with n sources) = op_target_cluster n" "op_target_namespace (lab_with n sources) = op_target_namespace n"
  "lb_extra_sources (lab_with n sources) = tl sources" "op_to (lab_with n sources) = op_to n"
  "op_topics (lab_with n sources) = concat (map so_topics sources)"
  by (simp_all add: lab_with_def options.extend_def lab.fields_def Let_def)

text \<open>A source as every command finds it.\<close>

definition wf_source :: "lab_source \<Rightarrow> bool" where
  "wf_source s \<longleftrightarrow>
     lab_name (so_alias s) \<and> dns_label (so_namespace s) \<and> dns_label (so_release s) \<and>
     at_least (so_from s) min_mirror_source \<and>
     (so_provider s = provider_name ProviderLegacy \<and> so_mode s \<noteq> [] \<or> so_provider s = provider_name ProviderStrimzi \<and> so_mode s = []) \<and>
     so_topics s \<noteq> [] \<and> distinct (so_topics s) \<and> CHR '':'' \<in> set (so_bootstrap s) \<and>
     (auth_of s \<noteq> source_auth_none \<longrightarrow> so_user s \<noteq> [] \<and> so_secret s \<noteq> [] \<and> so_secret s \<noteq> target_user) \<and>
     (auth_of s = source_auth_tls \<longrightarrow> so_ca_secret s \<noteq> [])"

definition wf_lab :: "lab \<Rightarrow> bool" where
  "wf_lab l \<longleftrightarrow>
     lab_name (op_name l) \<and> length (op_name l) \<le> max_name_len \<and> op_policy l \<in> {policy_identity, policy_default} \<and>
     0 < op_messages l \<and> dns_label (op_target_cluster l) \<and> dns_label (op_target_namespace l) \<and>
     list_all wf_source (lab_sources l) \<and> distinct (map so_alias (lab_sources l)) \<and>
     distinct (map so_namespace (lab_sources l)) \<and> distinct (map so_release (lab_sources l))"

lemma normalised_spec:
  assumes "normalise_spec s = Inr t"
  shows "sp_from t = sp_from s" "at_least (sp_from t) min_mirror_source"
    "sp_provider t = provider_name ProviderLegacy \<and> sp_mode t \<noteq> [] \<or> sp_provider t = provider_name ProviderStrimzi \<and> sp_mode t = []"
  using assms by (auto simp: normalise_spec_def Let_def at_least_not_less provider_name_def mode_name_def split: if_split_asm)

lemma alias_nonempty: "lab_name s \<Longrightarrow> s \<noteq> []"
  by (simp add: lab_name_def)

lemma corpus_topics_ok: "distinct ts \<Longrightarrow> corpus_topics ts a multi \<noteq> [] \<and> distinct (corpus_topics ts a multi)"
  by (simp add: corpus_topics_def)

lemma derived_wf:
  assumes d: "derived n (''mm2-'' @ op_name n) multi t x" and t: "normalise_spec s = Inr t" and ts: "distinct (op_topics n)"
    and y: "y = x \<or> y = x\<lparr>so_tls := op_tls n\<rparr>"
  shows "wf_source y"
proof -
  note sp = normalised_spec [OF t]
  have x: "lab_name (so_alias x)" "dns_label (so_namespace x)" "dns_label (so_release x)" "CHR '':'' \<in> set (so_bootstrap x)"
    "so_from x = sp_from t" "so_provider x = sp_provider t" "so_mode x = sp_mode t"
    "so_topics x = corpus_topics (op_topics n) (so_alias x) multi"
    using d unfolding derived_def by blast+
  then have names: "lab_name (so_alias y)" "dns_label (so_namespace y)" "dns_label (so_release y)" "so_topics y \<noteq> []" "distinct (so_topics y)"
    "CHR '':'' \<in> set (so_bootstrap y)" "so_from y = sp_from t" "so_provider y = sp_provider t" "so_mode y = sp_mode t"
    using y corpus_topics_ok [OF ts, of "so_alias x" multi] by auto
  have legacy: "legacy_ok n x" if "sp_provider t = provider_name ProviderLegacy" using d that by (simp add: derived_def)
  have strimzi: "strimzi_ok (''mm2-'' @ op_name n) n x" if "sp_provider t = provider_name ProviderStrimzi"
    using d that by (simp add: derived_def provider_name_def)
  have "last (so_release x @ ''-'' @ legacy_sasl_user) \<noteq> last target_user" by (simp add: legacy_sasl_user_def target_user_def)
  then have l: "so_release x @ ''-'' @ legacy_sasl_user \<noteq> target_user" by metis
  have cred: "(auth_of y \<noteq> source_auth_none \<longrightarrow> so_user y \<noteq> [] \<and> so_secret y \<noteq> [] \<and> so_secret y \<noteq> target_user) \<and>
     (auth_of y = source_auth_tls \<longrightarrow> so_ca_secret y \<noteq> [])"
    using sp(3)
  proof
    assume "sp_provider t = provider_name ProviderLegacy \<and> sp_mode t \<noteq> []"
    then show ?thesis using legacy y l names(8)
      by (auto simp: legacy_ok_def auth_of_def provider_name_def legacy_sasl_user_def source_auth_none_def source_auth_sasl_def source_auth_tls_def)
  next
    assume "sp_provider t = provider_name ProviderStrimzi \<and> sp_mode t = []"
    then show ?thesis using strimzi y names(8)
      by (auto simp: strimzi_ok_def auth_of_def provider_name_def target_user_def source_auth_none_def source_auth_sasl_def source_auth_tls_def)
  qed
  show ?thesis unfolding wf_source_def using names sp(2,3) cred by simp
qed

lemma list_all2_right: "list_all2 P xs ys \<Longrightarrow> y \<in> set ys \<Longrightarrow> \<exists>x\<in>set xs. P x y"
  by (induction rule: list_all2_induct) auto

lemma pairwise_namespaces:
  assumes "list_all2 (derived n rel multi) ts xs" "distinct (map so_alias xs)" "length ts = 1 \<or> multi"
  shows "distinct (map so_namespace xs) \<and> distinct (map so_release xs)"
proof -
  have "xs = [] \<or> length xs = 1 \<or> multi" using assms(1,3) by (auto dest: list_all2_lengthD)
  then consider "length xs \<le> 1" | "multi" by fastforce
  then show ?thesis
  proof cases
    case 1
    then show ?thesis by (cases xs) auto
  next
    case 2
    have "so_namespace x = ''kafka-'' @ op_name n @ ''-'' @ so_alias x \<and> so_release x = op_name n @ ''-'' @ so_alias x"
      if x: "x \<in> set xs" for x
    proof -
      obtain t where "derived n rel multi t x" using list_all2_right [OF assms(1) x] by blast
      then show ?thesis using 2 by (simp add: derived_def suffix_of_def alias_of_def)
    qed
    then have "map so_namespace xs = map (\<lambda>a. ''kafka-'' @ op_name n @ ''-'' @ a) (map so_alias xs)"
      "map so_release xs = map (\<lambda>a. op_name n @ ''-'' @ a) (map so_alias xs)" by auto
    then show ?thesis using assms(2) by (simp add: distinct_map inj_on_def del: map_map)
  qed
qed

text \<open>The lab \<open>New\<close> returns, over the sources it derived.\<close>

lemma new_lab_derived:
  assumes "new_lab rand o' = Inr l"
  obtains n specs x xs where "l = lab_with n (x # xs)" "lab_sources l = x\<lparr>so_tls := op_tls n\<rparr> # xs"
    "list_all2 (\<lambda>s t. normalise_spec s = Inr t) (specs_of o') specs" "op_topics n = op_topics o'"
    "op_read_only n = op_read_only o'" "op_name o' \<noteq> [] \<Longrightarrow> op_name n = op_name o'"
    "list_all2 (derived n (''mm2-'' @ op_name n) (1 < length specs)) specs (x # xs)"
    "distinct (map so_alias (x # xs))" "distinct (op_topics n)" "list_all topic_name (op_topics n)"
    "op_policy n = policy_identity \<longrightarrow> sorted_wrt (\<lambda>a b. set (so_topics a) \<inter> set (so_topics b) = {}) (x # xs)"
    "lab_name (op_name n)" "length (op_name n) \<le> max_name_len" "op_policy n \<in> {policy_identity, policy_default}"
    "0 < op_messages n" "dns_label (op_target_cluster n)" "dns_label (op_target_namespace n)"
proof -
  obtain specs n sources where a: "normalise_sources o' = Inr specs"
    "normalise_options (o'\<lparr>op_provider := sp_provider (hd specs), op_mode := sp_mode (hd specs), op_also_from := tl specs,
        op_name := (if op_name o' = [] then default_name_for (map sp_from specs) (op_to o') else op_name o')\<rparr>) = Inr n"
    "derive_sources rand n (''mm2-'' @ op_name n) specs = Inr sources" "l = lab_with n sources"
    by (rule new_lab_Inr [OF assms])
  note n = normalise_options_ok [OF a(2)]
  note d = derive_sources_derived [OF a(3)]
  have sp: "list_all2 (\<lambda>s t. normalise_spec s = Inr t) (specs_of o') specs" using a(1) by (simp add: normalise_sources_def try_map_Inr)
  then obtain t ts where t: "specs = t # ts" "sp_from t = op_from o'"
    by (auto simp: specs_of_def list_all2_Cons1 dest: normalised_spec(1))
  then obtain x xs where x: "sources = x # xs" "derived n (''mm2-'' @ op_name n) (1 < length specs) t x"
    using d(1) by (auto simp: list_all2_Cons1)
  have "so_alias x \<noteq> []" "so_topics x \<noteq> []" "op_from n = so_from x"
    using x(2) t(2) n(11) corpus_topics_ok [OF n(4), of "so_alias x" "1 < length specs"] unfolding derived_def by (auto dest: alias_nonempty)
  from lab_with_sources [OF x(1) this] have "lab_sources l = x\<lparr>so_tls := op_tls n\<rparr> # xs" using a(4) by simp
  then show ?thesis using that [of n x xs specs] a(4) x(1) sp n d by (simp add: max_name_len_def)
qed

lemma pieces_distinct:
  "sorted_wrt (\<lambda>a b. set (g a) \<inter> set (g b) = {}) xs \<Longrightarrow> \<forall>x\<in>set xs. distinct (g x) \<Longrightarrow> distinct (concat (map g xs))"
  by (induction xs) auto

lemma sorted_wrt_distinct_map: "distinct (map f xs) \<longleftrightarrow> sorted_wrt (\<lambda>a b. f a \<noteq> f b) xs"
  by (induction xs) auto

lemma cut_at_separator: "c \<notin> set a \<Longrightarrow> c \<notin> set b \<Longrightarrow> a @ c # s = b @ c # t \<Longrightarrow> a = b"
  by (induction a arbitrary: b) (auto simp: Cons_eq_append_conv append_eq_Cons_conv)

lemma lab_name_no_dot: "lab_name s \<Longrightarrow> CHR ''.'' \<notin> set s"
  by (auto simp: lab_name_def list_all_iff is_label_char_def is_digit_def)

section \<open>Properties of a new lab\<close>

lemma lab_constructed:
  assumes "new_lab rand o' = Inr l"
  shows "wf_lab l"
proof -
  obtain n specs x xs where l: "l = lab_with n (x # xs)" "lab_sources l = x\<lparr>so_tls := op_tls n\<rparr> # xs"
    and sp: "list_all2 (\<lambda>s t. normalise_spec s = Inr t) (specs_of o') specs"
    and d: "list_all2 (derived n (''mm2-'' @ op_name n) (1 < length specs)) specs (x # xs)"
    and a: "distinct (map so_alias (x # xs))" "distinct (op_topics n)"
    and n: "lab_name (op_name n)" "length (op_name n) \<le> max_name_len" "op_policy n \<in> {policy_identity, policy_default}"
      "0 < op_messages n" "dns_label (op_target_cluster n)" "dns_label (op_target_namespace n)"
    by (rule new_lab_derived [OF assms])
  have wf: "wf_source s" if s: "s = z \<or> s = z\<lparr>so_tls := op_tls n\<rparr>" and z: "z \<in> set (x # xs)" for s z
  proof -
    obtain t where t: "t \<in> set specs" "derived n (''mm2-'' @ op_name n) (1 < length specs) t z"
      using list_all2_right [OF d z] by blast
    then obtain t' where "normalise_spec t' = Inr t" using list_all2_right [OF sp] by blast
    then show ?thesis by (rule derived_wf [OF t(2) _ a(2) s])
  qed
  have len: "length specs = 1 \<or> 1 < length specs" using list_all2_lengthD [OF d] by auto
  note apart = pairwise_namespaces [OF d a(1) len]
  have "list_all wf_source (lab_sources l)" unfolding l(2) list_all_iff using wf by auto
  moreover have "op_name l = op_name n \<and> op_policy l = op_policy n \<and> op_messages l = op_messages n \<and>
      op_target_cluster l = op_target_cluster n \<and> op_target_namespace l = op_target_namespace n" by (simp add: l(1))
  moreover have "distinct (map so_alias (lab_sources l)) \<and> distinct (map so_namespace (lab_sources l)) \<and> distinct (map so_release (lab_sources l))"
    using apart a(1) by (simp add: l(2))
  ultimately show ?thesis unfolding wf_lab_def using n by simp
qed

text \<open>
  C32. A lab \<open>New\<close> returns is well formed: its name is a DNS label of at most 24 characters, every source
  has DNS labels for namespace and release, an alias of its own, a namespace and a release of its own,
  a version Kafka 4 can read, topics to mirror, an address, and, unless its listener is open, a user
  and a credential Secret, which is never the target's.
\<close>

theorem new_lab_wf:
  assumes "new_lab rand o' = Inr l"
  shows "wf_lab l"
  by (rule lab_constructed [OF assms])

text \<open>
  C27. Two mirrors never write one topic of the target: over every source of a new lab and under either
  policy, the names its topics take on the target are pairwise distinct.
\<close>

theorem replicated_topics_distinct:
  assumes "new_lab rand o' = Inr l"
  shows "distinct (replicated_topics l)"
proof -
  obtain n x xs where l: "l = lab_with n (x # xs)" "lab_sources l = x\<lparr>so_tls := op_tls n\<rparr> # xs"
    and a: "distinct (map so_alias (x # xs))"
    and p: "op_policy n \<in> {policy_identity, policy_default}"
      "op_policy n = policy_identity \<longrightarrow> sorted_wrt (\<lambda>a b. set (so_topics a) \<inter> set (so_topics b) = {}) (x # xs)"
    by (rule new_lab_derived [OF assms])
  have wf: "\<forall>s\<in>set (lab_sources l). wf_source s" using lab_constructed [OF assms] by (simp add: wf_lab_def list_all_iff)
  show ?thesis unfolding replicated_topics_def
  proof (rule pieces_distinct)
    show "\<forall>s\<in>set (lab_sources l). distinct (map (replicated_topic_of l (Some s)) (so_topics s))"
      using wf by (auto simp: wf_source_def replicated_topic_of_def distinct_map inj_on_def)
    show "sorted_wrt (\<lambda>a b. set (map (replicated_topic_of l (Some a)) (so_topics a)) \<inter>
        set (map (replicated_topic_of l (Some b)) (so_topics b)) = {}) (lab_sources l)"
    proof (cases "op_policy n = policy_identity")
      case True
      then have "replicated_topic_of l (Some s) t = t" for s t by (simp add: replicated_topic_of_def l(1) policy_identity_def policy_default_def)
      then show ?thesis using p(2) True by (simp add: l(2))
    next
      case False
      then have "op_policy l = policy_default" using p(1) by (simp add: l(1))
      then have r: "replicated_topic_of l (Some s) t = so_alias s @ ''.'' @ t \<and> CHR ''.'' \<notin> set (so_alias s)" if "s \<in> set (lab_sources l)" for s t
        using wf that by (auto simp: replicated_topic_of_def wf_source_def dest: alias_nonempty lab_name_no_dot)
      have "sorted_wrt (\<lambda>a b. so_alias a \<noteq> so_alias b) (lab_sources l)" using a sorted_wrt_distinct_map [of so_alias "lab_sources l"] by (simp add: l(2))
      moreover have "set (map (replicated_topic_of l (Some a)) (so_topics a)) \<inter> set (map (replicated_topic_of l (Some b)) (so_topics b)) = {}"
        if "a \<in> set (lab_sources l)" "b \<in> set (lab_sources l)" "so_alias a \<noteq> so_alias b" for a b
        using cut_at_separator [of "CHR ''.''" "so_alias a" "so_alias b"] that(3) r [OF that(1)] r [OF that(2)] by auto
      ultimately show ?thesis by (rule sorted_wrt_mono_rel [rotated])
    qed
  qed
qed

text \<open>
  Labs do not share sources: when the versions are ones \<open>Parse\<close> returns, two labs of different names
  have no source namespace and no source release in common, whatever their sources.
\<close>

lemma show_nat_no_dash: "CHR ''-'' \<notin> set (show_nat n)"
  using show_nat_digits [of "CHR ''-''" n] by (auto simp: is_digit_def)

lemma version_digits_chars: "wf_version v \<Longrightarrow> CHR ''-'' \<notin> set (version_digits v)"
  by (simp add: version_digits_def version_string_def wf_version_def show_int_nonneg show_nat_no_dash)

lemma suffix_no_dash: "wf_version (sp_from t) \<Longrightarrow> CHR ''-'' \<notin> set (suffix_of multi t)"
  using version_digits_chars by (auto simp: suffix_of_def source_alias_for_def source_alias_prefix_def)

lemma new_lab_release:
  assumes "new_lab rand o' = Inr l" "list_all (\<lambda>t. wf_version (sp_from t)) (specs_of o')" "s \<in> set (lab_sources l)"
  obtains u where "CHR ''-'' \<notin> set u" "so_release s = op_name l @ ''-'' @ u" "so_namespace s = ''kafka-'' @ op_name l @ ''-'' @ u"
proof -
  obtain n specs x xs where l: "l = lab_with n (x # xs)" "lab_sources l = x\<lparr>so_tls := op_tls n\<rparr> # xs"
    and sp: "list_all2 (\<lambda>s t. normalise_spec s = Inr t) (specs_of o') specs"
    and d: "list_all2 (derived n (''mm2-'' @ op_name n) (1 < length specs)) specs (x # xs)"
    by (rule new_lab_derived [OF assms(1)])
  have "\<exists>z\<in>set (x # xs). so_release s = so_release z \<and> so_namespace s = so_namespace z" using assms(3) unfolding l(2) by auto
  then obtain z where z: "z \<in> set (x # xs)" "so_release s = so_release z" "so_namespace s = so_namespace z" by blast
  obtain t where t: "t \<in> set specs" "derived n (''mm2-'' @ op_name n) (1 < length specs) t z" using list_all2_right [OF d z(1)] by blast
  obtain t' where "t' \<in> set (specs_of o')" "normalise_spec t' = Inr t" using list_all2_right [OF sp t(1)] by blast
  then have "wf_version (sp_from t)" using assms(2) by (auto simp: list_all_iff dest: normalised_spec(1))
  then have u: "CHR ''-'' \<notin> set (suffix_of (1 < length specs) t)" by (rule suffix_no_dash)
  have "op_name l = op_name n" by (simp add: l(1))
  then show ?thesis using that [OF u] t(2) z by (simp add: derived_def)
qed

lemma last_separator: "c \<notin> set u \<Longrightarrow> c \<notin> set v \<Longrightarrow> a @ c # u = b @ c # v \<Longrightarrow> a = b"
  using cut_at_separator [of c "rev u" "rev v" "rev a" "rev b"] by (metis append_eq_append_conv append_eq_rev_conv in_set_conv_decomp rev_append rev.simps(2) set_rev append_assoc append_Cons append_Nil same_append_eq)

theorem labs_disjoint:
  assumes "new_lab rand o1 = Inr l1" "list_all (\<lambda>t. wf_version (sp_from t)) (specs_of o1)"
    "new_lab rand' o2 = Inr l2" "list_all (\<lambda>t. wf_version (sp_from t)) (specs_of o2)"
    "op_name l1 \<noteq> op_name l2"
  shows "so_namespace ` set (lab_sources l1) \<inter> so_namespace ` set (lab_sources l2) = {} \<and>
    so_release ` set (lab_sources l1) \<inter> so_release ` set (lab_sources l2) = {}"
proof -
  have "so_release s \<noteq> so_release t \<and> so_namespace s \<noteq> so_namespace t" if st: "s \<in> set (lab_sources l1)" "t \<in> set (lab_sources l2)" for s t
  proof -
    obtain u where u: "CHR ''-'' \<notin> set u" "so_release s = op_name l1 @ ''-'' @ u" "so_namespace s = ''kafka-'' @ op_name l1 @ ''-'' @ u"
      by (rule new_lab_release [OF assms(1,2) st(1)])
    obtain v where v: "CHR ''-'' \<notin> set v" "so_release t = op_name l2 @ ''-'' @ v" "so_namespace t = ''kafka-'' @ op_name l2 @ ''-'' @ v"
      by (rule new_lab_release [OF assms(3,4) st(2)])
    show ?thesis using u v assms(5) last_separator [of "CHR ''-''" u v] by auto
  qed
  then show ?thesis by blast
qed

text \<open>A lab of a legacy and a Strimzi source into an additional target, and one of a single source.\<close>

definition demo_options :: options where
  "demo_options =
     \<lparr>op_name = [], op_from = \<lparr>major = 2, minor = 8, patch = 2\<rparr>, op_to = \<lparr>major = 4, minor = 3, patch = 0\<rparr>,
      op_provider = [], op_mode = [], op_source_strimzi = [],
      op_also_from = [\<lparr>sp_from = \<lparr>major = 3, minor = 9, patch = 1\<rparr>, sp_provider = ''strimzi'', sp_mode = [], sp_strimzi = []\<rparr>],
      op_read_only = False, op_target_is_primary = False, op_target_cluster = [], op_target_namespace = [],
      op_policy = [], op_topics = [], op_messages = 0, op_sasl = True, op_password = ''pw'', op_tls = True,
      op_registry = [], op_image_mirror = [], op_strimzi = [], op_scope = []\<rparr>"

definition demo_single :: options where
  "demo_single = demo_options\<lparr>op_also_from := [], op_topics := [''orders'', ''payments'']\<rparr>"

definition demo_rand :: "nat \<Rightarrow> string option" where
  "demo_rand i = None"

definition lab_seen :: "lab_error + lab \<Rightarrow> (string \<times> string list) option" where
  "lab_seen r = (case r of Inr l \<Rightarrow> Some (op_name l, replicated_topics l) | Inl e \<Rightarrow> None)"

lemmas lab_defs = new_lab_def normalise_sources_def specs_of_def normalise_spec_def zero_version_def version_less_def
  compare_version_def cmp_int_def min_mirror_source_def provider_name_def mode_name_def legacy_mode_for_def first_kraft_def
  first_official_image_def default_name_for_def
  normalise_options_def lab_name_def is_label_char_def is_digit_def topic_name_def dns_label_def max_name_len_def
  policy_identity_def policy_default_def scope_cluster_def scope_namespace_def default_messages_def derive_sources_def
  derive_source_def named_source_def alias_of_def suffix_of_def source_alias_for_def source_alias_prefix_def source_alias_def
  corpus_topics_def default_topic_def legacy_source_def strimzi_source_def refuse_identity_fan_in_def first_clash_def at_least_def

lemma demo_digits:
  "version_digits \<lparr>major = 2, minor = 8, patch = 2\<rparr> = ''282''" "version_digits \<lparr>major = 3, minor = 9, patch = 1\<rparr> = ''391''"
  "version_digits \<lparr>major = 4, minor = 3, patch = 0\<rparr> = ''430''"
  by code_simp+

lemma demo_labs:
  "lab_seen (new_lab demo_rand demo_options) = Some (''m282-391-430'', [''kates.orders.src282'', ''kates.orders.src391''])"
  "lab_seen (new_lab demo_rand demo_single) = Some (''m282-430'', [''orders'', ''payments''])"
  by (simp_all add: lab_defs demo_digits demo_options_def demo_single_def demo_rand_def Let_def lab_seen_def replicated_topics_def
      lab_with_def lab_sources_def first_source_def options.extend_def lab.fields_def replicated_topic_of_def)

lemma demo_new: "\<exists>l. new_lab demo_rand demo_options = Inr l" "\<exists>l. new_lab demo_rand demo_single = Inr l"
  using demo_labs by (auto simp: lab_seen_def split: sum.splits)

theorem new_lab_wf_witness: "\<exists>l. new_lab demo_rand demo_options = Inr l \<and> wf_lab l"
  using demo_new(1) new_lab_wf by blast

theorem replicated_topics_distinct_witness:
  "\<exists>l. new_lab demo_rand demo_options = Inr l \<and> replicated_topics l = [''kates.orders.src282'', ''kates.orders.src391''] \<and>
     distinct (replicated_topics l)"
proof -
  obtain l where l: "new_lab demo_rand demo_options = Inr l" using demo_new(1) by blast
  show ?thesis using l replicated_topics_distinct [OF l] demo_labs(1) by (simp add: lab_seen_def)
qed

theorem labs_disjoint_witness:
  "\<exists>l1 l2. new_lab demo_rand demo_options = Inr l1 \<and> new_lab demo_rand demo_single = Inr l2 \<and>
     so_release ` set (lab_sources l1) \<inter> so_release ` set (lab_sources l2) = {}"
proof -
  obtain l1 l2 where l: "new_lab demo_rand demo_options = Inr l1" "new_lab demo_rand demo_single = Inr l2" using demo_new by blast
  have wf: "list_all (\<lambda>t. wf_version (sp_from t)) (specs_of demo_options)" "list_all (\<lambda>t. wf_version (sp_from t)) (specs_of demo_single)"
    by (simp_all add: specs_of_def demo_single_def demo_options_def wf_version_def max_int64_def)
  have "op_name l1 \<noteq> op_name l2" using demo_labs by (simp add: lab_seen_def l)
  then show ?thesis using labs_disjoint [OF l(1) wf(1) l(2) wf(2)] l by blast
qed

end
