(* ===== verification/MirrorValues.thy ===== *)
theory MirrorValues
  imports MigrationLab
begin

text \<open>
  The values a lab's mirror and its legacy sources are installed with
  (\<open>cli/pkg/migrate/values.go\<close>): \<open>MirrorValues\<close> and \<open>SourceValuesFor\<close> up to the document they hand to
  yaml.v3's \<open>Marshal\<close>. A value that \<open>omitempty\<close> leaves out is the zero value here too; a nil pointer
  is None. The maps of settings are Isabelle maps.
\<close>

section \<open>Inputs\<close>

definition era_overlay :: "version \<Rightarrow> string" where
  "era_overlay v =
     (if version_less v \<lparr>major = 3, minor = 0, patch = 0\<rparr> then ''values-migrate-2x.yaml''
      else if version_less v \<lparr>major = 4, minor = 0, patch = 0\<rparr> then ''values-migrate-3x.yaml''
      else ''values-migrate-4x.yaml'')"

definition mirror_chart_path :: string where "mirror_chart_path = ''charts/mirror-maker2''"

definition era_overlay_path :: "version \<Rightarrow> string" where
  "era_overlay_path v = mirror_chart_path @ ''/'' @ era_overlay v"

definition cutover_values :: string where
  "cutover_values = mirror_chart_path @ ''/'' @ ''values-cutover.yaml''"

definition default_test_topic :: string where "default_test_topic = ''kates.mm2-e2e''"

record mirror_inputs =
  mi_bootstrap :: string
  mi_version :: version
  mi_auth :: string
  mi_mechanism :: string
  mi_user :: string
  mi_secret :: string
  mi_secret_ns :: string
  mi_ca_secret :: string
  mi_ca_ns :: string
  mi_target_cluster :: string
  mi_target_ns :: string
  mi_target_secret :: string
  mi_brokers :: int
  mi_rf :: int
  mi_strimzi :: string
  mi_kafka :: string
  mi_operator_ns :: string
  mi_helm_tests :: bool
  mi_test_topic :: string
  mi_read_only :: bool

text \<open>The zero \<open>MirrorInputs\<close>, and those of the lab.\<close>

definition zero_inputs :: mirror_inputs where
  "zero_inputs =
     \<lparr>mi_bootstrap = [], mi_version = zero_version, mi_auth = [], mi_mechanism = [], mi_user = [], mi_secret = [],
      mi_secret_ns = [], mi_ca_secret = [], mi_ca_ns = [], mi_target_cluster = [], mi_target_ns = [], mi_target_secret = [],
      mi_brokers = 0, mi_rf = 0, mi_strimzi = [], mi_kafka = [], mi_operator_ns = [], mi_helm_tests = False,
      mi_test_topic = [], mi_read_only = False\<rparr>"

definition lab_inputs :: "lab \<Rightarrow> mirror_inputs" where
  "lab_inputs l =
     zero_inputs\<lparr>mi_bootstrap := lb_source_bootstrap l, mi_version := op_from l, mi_auth := auth_of (first_source l),
       mi_mechanism := mechanism_of (first_source l), mi_user := lb_source_user l, mi_secret := lb_source_secret l,
       mi_ca_secret := lb_source_ca_secret l,
       mi_ca_ns := (if lb_source_ca_secret l \<noteq> [] then lb_source_namespace l else []),
       mi_target_cluster := op_target_cluster l, mi_target_ns := op_target_namespace l,
       mi_strimzi := op_strimzi l, mi_kafka := version_string (op_to l), mi_read_only := op_read_only l\<rparr>"

definition or_else :: "string \<Rightarrow> string \<Rightarrow> string" where
  "or_else x d = (if x = [] then d else x)"

definition fill_mirror_inputs :: "lab \<Rightarrow> mirror_inputs \<Rightarrow> mirror_inputs" where
  "fill_mirror_inputs l m =
     (let d = lab_inputs l;
          m1 = m\<lparr>mi_bootstrap := or_else (mi_bootstrap m) (mi_bootstrap d),
                 mi_version := (if mi_version m = zero_version then mi_version d else mi_version m),
                 mi_auth := or_else (mi_auth m) (mi_auth d)\<rparr>;
          m2 = (if mi_auth m1 = mi_auth d
                then m1\<lparr>mi_mechanism := or_else (mi_mechanism m1) (mi_mechanism d), mi_user := or_else (mi_user m1) (mi_user d),
                        mi_secret := or_else (mi_secret m1) (mi_secret d), mi_ca_secret := or_else (mi_ca_secret m1) (mi_ca_secret d),
                        mi_ca_ns := (if mi_ca_secret m1 = [] then mi_ca_ns d else mi_ca_ns m1)\<rparr>
                else m1)
      in m2\<lparr>mi_target_cluster := or_else (mi_target_cluster m2) (mi_target_cluster d),
            mi_target_ns := or_else (mi_target_ns m2) (mi_target_ns d), mi_target_secret := or_else (mi_target_secret m2) target_user,
            mi_kafka := or_else (mi_kafka m2) (mi_kafka d), mi_strimzi := or_else (mi_strimzi m2) (mi_strimzi d),
            mi_test_topic := or_else (mi_test_topic m2) default_test_topic\<rparr>)"

datatype values_error =
    NegativeCount
  | FactorAboveBrokers int int
  | BadAuth string
  | NoMechanism string
  | BadMechanism string
  | NoCredential string
  | TargetSecretName string string
  | NoCASecret
  | NoTopics
  | SourceWithoutTopics string
  | NoPort string
  | SourceBelowFloor version
  | NotLegacy string
  | SaslWithoutPassword

definition size_mirror_replication :: "mirror_inputs \<Rightarrow> values_error + mirror_inputs" where
  "size_mirror_replication m =
     (if mi_brokers m < 0 \<or> mi_rf m < 0 then Inl NegativeCount
      else
        let rf = (if mi_rf m \<noteq> 0 then mi_rf m else if 3 \<le> mi_brokers m then 3 else if 0 < mi_brokers m then mi_brokers m else 1)
        in if 0 < mi_brokers m \<and> mi_brokers m < rf then Inl (FactorAboveBrokers rf (mi_brokers m)) else Inr (m\<lparr>mi_rf := rf\<rparr>))"

section \<open>The mirrors\<close>

record source_inputs =
  si_alias :: string
  si_bootstrap :: string
  si_version :: version
  si_auth :: string
  si_mechanism :: string
  si_user :: string
  si_secret :: string
  si_secret_ns :: string
  si_ca_secret :: string
  si_ca_ns :: string
  si_topics :: "string list"

definition first_inputs :: "lab \<Rightarrow> mirror_inputs \<Rightarrow> source_inputs" where
  "first_inputs l m =
     \<lparr>si_alias = so_alias (first_source l), si_bootstrap = mi_bootstrap m, si_version = mi_version m, si_auth = mi_auth m,
      si_mechanism = mi_mechanism m, si_user = mi_user m, si_secret = mi_secret m, si_secret_ns = mi_secret_ns m,
      si_ca_secret = mi_ca_secret m, si_ca_ns = mi_ca_ns m,
      si_topics = so_topics (first_source l) @ (if mi_helm_tests m then [mi_test_topic m] else [])\<rparr>"

definition extra_inputs :: "lab_source \<Rightarrow> source_inputs" where
  "extra_inputs s =
     \<lparr>si_alias = so_alias s, si_bootstrap = so_bootstrap s, si_version = so_from s, si_auth = auth_of s,
      si_mechanism = mechanism_of s, si_user = so_user s, si_secret = so_secret s, si_secret_ns = [],
      si_ca_secret = so_ca_secret s, si_ca_ns = (if so_ca_secret s \<noteq> [] then so_namespace s else []), si_topics = so_topics s\<rparr>"

definition mirror_source_inputs :: "lab \<Rightarrow> mirror_inputs \<Rightarrow> source_inputs list" where
  "mirror_source_inputs l m = first_inputs l m # map extra_inputs (lb_extra_sources l)"

record authentication =
  au_type :: string
  au_username :: string
  au_secret :: string
  au_key :: string

record tls_values =
  tv_secret :: string
  tv_key :: string

definition source_auth_values :: "source_inputs \<Rightarrow> mirror_inputs \<Rightarrow> values_error + authentication \<times> tls_values option" where
  "source_auth_values i m =
     (if si_auth i = source_auth_none then Inr (\<lparr>au_type = [], au_username = [], au_secret = [], au_key = []\<rparr>, None)
      else if si_auth i \<noteq> source_auth_sasl \<and> si_auth i \<noteq> source_auth_tls then Inl (BadAuth (si_auth i))
      else if si_mechanism i = [] then Inl (NoMechanism (si_auth i))
      else if si_mechanism i \<notin> {mechanism_plain, mechanism_scram_512, mechanism_scram_256} then Inl (BadMechanism (si_mechanism i))
      else if si_user i = [] \<or> si_secret i = [] then Inl (NoCredential (si_auth i))
      else if si_secret i = mi_target_secret m then Inl (TargetSecretName (si_secret i) (mi_target_ns m))
      else
        let auth = \<lparr>au_type = si_mechanism i, au_username = si_user i, au_secret = si_secret i, au_key = ''password''\<rparr>
        in if si_auth i \<noteq> source_auth_tls then Inr (auth, None)
           else if si_ca_secret i = [] then Inl NoCASecret
           else Inr (auth, Some \<lparr>tv_secret = si_ca_secret i, tv_key = ''ca.crt''\<rparr>))"

datatype setting = SetText string | SetInt int

record mirror_connector =
  mc_tasks_max :: int
  mc_state :: string
  mc_config :: "string \<rightharpoonup> setting"

record mirror =
  mr_alias :: string
  mr_bootstrap :: string
  mr_version :: string
  mr_tls :: "tls_values option"
  mr_auth :: authentication
  mr_topics :: "string list"
  mr_groups :: string
  mr_read_only :: bool
  mr_source :: mirror_connector
  mr_checkpoint :: mirror_connector

record synced_secret =
  sy_name :: string
  sy_from :: string

definition mirror_entry :: "source_inputs \<Rightarrow> mirror_inputs \<Rightarrow> authentication \<Rightarrow> tls_values option \<Rightarrow> mirror" where
  "mirror_entry i m auth tls =
     \<lparr>mr_alias = si_alias i, mr_bootstrap = si_bootstrap i, mr_version = version_string (si_version i), mr_tls = tls, mr_auth = auth,
      mr_topics = si_topics i, mr_groups = ''.*'', mr_read_only = mi_read_only m,
      mr_source = \<lparr>mc_tasks_max = 2, mc_state = ''running'',
        mc_config = [''replication.factor'' \<mapsto> SetInt (mi_rf m), ''offset-syncs.topic.replication.factor'' \<mapsto> SetInt (mi_rf m),
          ''sync.topic.acls.enabled'' \<mapsto> SetText ''false'', ''sync.topic.configs.enabled'' \<mapsto> SetText ''true'',
          ''refresh.topics.interval.seconds'' \<mapsto> SetInt 20]\<rparr>,
      mr_checkpoint = \<lparr>mc_tasks_max = 1, mc_state = ''running'',
        mc_config = [''checkpoints.topic.replication.factor'' \<mapsto> SetInt (mi_rf m), ''sync.group.offsets.enabled'' \<mapsto> SetText ''true'',
          ''sync.group.offsets.interval.seconds'' \<mapsto> SetInt 10, ''emit.checkpoints.interval.seconds'' \<mapsto> SetInt 10,
          ''refresh.groups.interval.seconds'' \<mapsto> SetInt 20]\<rparr>\<rparr>"

text \<open>One turn of the loop of \<open>mirrorEntries\<close>: the entry, and the Secrets to copy for it.\<close>

definition mirror_and_secrets :: "mirror_inputs \<Rightarrow> source_inputs \<Rightarrow> values_error + mirror \<times> synced_secret list" where
  "mirror_and_secrets m i =
     (case source_auth_values i m of
        Inl e \<Rightarrow> Inl e
      | Inr (auth, tls) \<Rightarrow>
          if si_topics i = [] then Inl (SourceWithoutTopics (si_alias i))
          else if CHR '':'' \<notin> set (si_bootstrap i) then Inl (NoPort (si_bootstrap i))
          else if version_less (si_version i) min_mirror_source then Inl (SourceBelowFloor (si_version i))
          else Inr (mirror_entry i m auth tls,
            (if si_secret_ns i \<noteq> [] \<and> si_secret_ns i \<noteq> mi_target_ns m \<and> si_auth i \<noteq> source_auth_none
             then [\<lparr>sy_name = si_secret i, sy_from = si_secret_ns i\<rparr>] else []) @
            (if tls \<noteq> None \<and> si_ca_ns i \<noteq> [] \<and> si_ca_ns i \<noteq> mi_target_ns m
             then [\<lparr>sy_name = si_ca_secret i, sy_from = si_ca_ns i\<rparr>] else [])))"

definition mirror_entries :: "source_inputs list \<Rightarrow> mirror_inputs \<Rightarrow> values_error + mirror list \<times> synced_secret list" where
  "mirror_entries is m = map_sum id (\<lambda>rs. (map fst rs, concat (map snd rs))) (try_map (mirror_and_secrets m) is)"

section \<open>The document\<close>

record replication_test =
  rt_topic :: string
  rt_rf :: int
  rt_messages :: int
  rt_source_alias :: string

record mirror_values =
  mv_labels :: "string \<rightharpoonup> string"
  mv_version :: string
  mv_strimzi :: string
  mv_policy :: string
  mv_min_source :: string
  mv_target_cluster :: string
  mv_target_ns :: string
  mv_group_id :: string
  mv_brokers :: int
  mv_target_config :: "string \<rightharpoonup> setting"
  mv_mirrors :: "mirror list"
  mv_secret_sync :: "synced_secret list"
  mv_tests :: "replication_test option"
  mv_operator_ns :: string

text \<open>The fields with the same value in every document (\<open>compatibility\<close> and \<open>preflight\<close> switched on, the
  target's alias, the Helm tests' partitions and groups) are left out of the record.\<close>

definition mirror_values_for :: "lab \<Rightarrow> mirror_inputs \<Rightarrow> values_error + mirror_values" where
  "mirror_values_for l inputs =
     (case size_mirror_replication (fill_mirror_inputs l inputs) of
        Inl e \<Rightarrow> Inl e
      | Inr m \<Rightarrow>
          if op_topics l = [] then Inl NoTopics
          else
            (case mirror_entries (mirror_source_inputs l m) m of
               Inl e \<Rightarrow> Inl e
             | Inr (mirrors, synced) \<Rightarrow>
                 Inr \<lparr>mv_labels = role_labels l role_mirror, mv_version = mi_kafka m, mv_strimzi = mi_strimzi m, mv_policy = op_policy l,
                      mv_min_source = version_string min_mirror_source, mv_target_cluster = mi_target_cluster m,
                      mv_target_ns = mi_target_ns m, mv_group_id = lb_group_id l, mv_brokers = mi_brokers m,
                      mv_target_config = [''config.storage.replication.factor'' \<mapsto> SetInt (mi_rf m),
                        ''offset.storage.replication.factor'' \<mapsto> SetInt (mi_rf m),
                        ''status.storage.replication.factor'' \<mapsto> SetInt (mi_rf m)],
                      mv_mirrors = mirrors, mv_secret_sync = synced,
                      mv_tests = (if mi_helm_tests m then
                          Some \<lparr>rt_topic = mi_test_topic m, rt_rf = mi_rf m, rt_messages = op_messages l, rt_source_alias = lb_source_alias l\<rparr>
                        else None),
                      mv_operator_ns = mi_operator_ns m\<rparr>))"

section \<open>A legacy source's values\<close>

record source_topic =
  st_name :: string
  st_partitions :: int
  st_rf :: int

record sasl_user =
  su_name :: string
  su_password :: string

record source_values =
  sv_labels :: "string \<rightharpoonup> string"
  sv_mode :: string
  sv_version :: string
  sv_image :: string
  sv_config :: "string \<rightharpoonup> setting"
  sv_zookeeper :: bool
  sv_sasl_users :: "sasl_user list option"
  sv_topics :: "source_topic list"

definition source_topic_partitions :: int where "source_topic_partitions = 3"

text \<open>
  The sizes and switches with the same value in every document are left out; \<open>sv_zookeeper\<close> says whether the
  ensemble's block is there, \<open>sv_sasl_users\<close> the users of the SASL listener on 9094, beside 9092.
\<close>

definition source_values_for :: "lab \<Rightarrow> lab_source \<Rightarrow> values_error + source_values" where
  "source_values_for l s =
     (if so_provider s \<noteq> provider_name ProviderLegacy then Inl (NotLegacy (so_provider s))
      else if so_sasl s \<and> so_password s = [] then Inl SaslWithoutPassword
      else
        let mode = (if so_mode s = mode_name LegacyZooKeeper then ''zookeeper'' else ''kraft'');
            config = [''log.retention.hours'' \<mapsto> SetInt 168]
        in Inr \<lparr>sv_labels = source_labels l (Some s), sv_mode = mode, sv_version = version_string (so_from s), sv_image = so_image s,
             sv_config = (if major (so_from s) < 3
               then config(''inter.broker.protocol.version'' \<mapsto> SetText (major_minor (so_from s)),
                           ''log.message.format.version'' \<mapsto> SetText (major_minor (so_from s)))
               else config),
             sv_zookeeper = (mode = ''zookeeper''),
             sv_sasl_users = (if so_sasl s then Some [\<lparr>su_name = so_user s, su_password = so_password s\<rparr>] else None),
             sv_topics = map (\<lambda>t. \<lparr>st_name = t, st_partitions = source_topic_partitions, st_rf = 1\<rparr>) (so_topics s)\<rparr>)"

section \<open>Topic patterns\<close>

definition regex_specials :: string where
  "regex_specials = CHR 0x5c # ''.[]{}()<>*+-=!?^$|''"

definition java_regex_quote :: "string \<Rightarrow> string" where
  "java_regex_quote s = concat (map (\<lambda>c. if c \<in> set regex_specials then [CHR 0x5c, c] else [c]) s)"

definition topics_pattern :: "string list \<Rightarrow> string" where
  "topics_pattern ts = join_with ''|'' (map java_regex_quote ts)"

text \<open>
  A Java regular expression of quoted characters, plain characters and top-level bars: the list of the
  texts it matches, None for one that uses any other construct.
\<close>

fun pattern_texts :: "string \<Rightarrow> string list option" where
  "pattern_texts [] = Some [[]]"
| "pattern_texts (c # s) =
     (if c = CHR 0x5c then
        (case s of
           d # s' \<Rightarrow> if d \<in> set regex_specials then map_option (\<lambda>ts. (d # hd ts) # tl ts) (pattern_texts s') else None
         | [] \<Rightarrow> None)
      else if c = CHR ''|'' then map_option (\<lambda>ts. [] # ts) (pattern_texts s)
      else if c \<in> set regex_specials then None
      else map_option (\<lambda>ts. (c # hd ts) # tl ts) (pattern_texts s))"

lemma pattern_texts_nonempty: "pattern_texts s = Some ts \<Longrightarrow> ts \<noteq> []"
  by (induction s arbitrary: ts rule: pattern_texts.induct) (auto split: if_splits list.splits)

lemma pattern_texts_quote:
  "pattern_texts (java_regex_quote t @ s) = map_option (\<lambda>ts. (t @ hd ts) # tl ts) (pattern_texts s)"
proof (induction t)
  case Nil
  then show ?case using pattern_texts_nonempty [of s] by (cases "pattern_texts s") (auto simp: java_regex_quote_def)
next
  case (Cons c t)
  have bar: "CHR ''|'' \<in> set regex_specials" "CHR 0x5c \<in> set regex_specials" by (simp_all add: regex_specials_def)
  have "java_regex_quote (c # t) = (if c \<in> set regex_specials then [CHR 0x5c, c] else [c]) @ java_regex_quote t"
    by (simp add: java_regex_quote_def)
  then show ?case using Cons bar by (auto simp: option.map_comp comp_def)
qed

lemma pattern_texts_topics: "ts \<noteq> [] \<Longrightarrow> pattern_texts (topics_pattern ts) = Some ts"
proof (induction ts)
  case (Cons t ts)
  show ?case
  proof (cases ts)
    case Nil
    then show ?thesis using pattern_texts_quote [of t "[]"] by (simp add: topics_pattern_def)
  next
    case (Cons u us)
    then have "topics_pattern (t # ts) = java_regex_quote t @ CHR ''|'' # topics_pattern ts" by (simp add: topics_pattern_def)
    then show ?thesis using pattern_texts_quote [of t "CHR ''|'' # topics_pattern ts"] Cons.IH Cons by simp
  qed
qed simp

section \<open>The mirrors of a new lab\<close>

text \<open>The inputs describe a source as the lab has it.\<close>

definition describes :: "source_inputs \<Rightarrow> lab_source \<Rightarrow> bool" where
  "describes i s \<longleftrightarrow>
     si_alias i = so_alias s \<and> si_bootstrap i = so_bootstrap s \<and> si_version i = so_from s \<and> si_auth i = auth_of s \<and>
     si_mechanism i = mechanism_of s \<and> si_user i = so_user s \<and> si_secret i = so_secret s \<and> si_ca_secret i = so_ca_secret s \<and>
     si_topics i = so_topics s"

lemma auth_cases: "auth_of s = source_auth_none \<or> auth_of s = source_auth_sasl \<or> auth_of s = source_auth_tls"
  by (simp add: auth_of_def)

lemmas auth_texts = source_auth_none_def source_auth_sasl_def source_auth_tls_def mechanism_plain_def mechanism_scram_512_def mechanism_scram_256_def

lemma source_auth_values_ok:
  assumes "wf_source s" "describes i s" "mi_target_secret m = target_user"
  shows "\<exists>auth tls. source_auth_values i m = Inr (auth, tls) \<and> au_secret auth \<noteq> target_user"
proof (cases "auth_of s = source_auth_none")
  case True
  then show ?thesis using assms(2) by (simp add: source_auth_values_def describes_def target_user_def)
next
  case False
  then have "mechanism_of s \<in> {mechanism_plain, mechanism_scram_512}" "mechanism_of s \<noteq> []" by (auto simp: mechanism_of_def auth_texts)
  then show ?thesis using False assms auth_cases [of s]
    by (auto simp: source_auth_values_def describes_def wf_source_def Let_def)
qed

lemma mirror_and_secrets_ok:
  assumes "wf_source s" "describes i s" "mi_target_secret m = target_user"
  shows "\<exists>r sy. mirror_and_secrets m i = Inr (r, sy) \<and> mr_alias r = so_alias s \<and> mr_bootstrap r = so_bootstrap s \<and>
    mr_version r = version_string (so_from s) \<and> mr_topics r = so_topics s \<and> mr_read_only r = mi_read_only m \<and>
    au_secret (mr_auth r) \<noteq> target_user \<and> mc_config (mr_source r) ''replication.factor'' = Some (SetInt (mi_rf m))"
proof -
  obtain auth tls where a: "source_auth_values i m = Inr (auth, tls)" "au_secret auth \<noteq> target_user"
    using source_auth_values_ok [OF assms] by blast
  then show ?thesis using assms(1,2)
    by (auto simp: mirror_and_secrets_def describes_def wf_source_def mirror_entry_def at_least_not_less)
qed

lemma try_map_ok:
  assumes "list_all2 (\<lambda>x s. \<exists>y. f x = Inr y \<and> P y s) xs ss"
  shows "\<exists>ys. try_map f xs = Inr ys \<and> list_all2 P ys ss"
  using assms by (induction rule: list_all2_induct) auto

text \<open>What a mirror says of its source, of the lab's option and of the factor.\<close>

definition mirrors_source :: "bool \<Rightarrow> int \<Rightarrow> mirror \<Rightarrow> lab_source \<Rightarrow> bool" where
  "mirrors_source ro rf r s \<longleftrightarrow>
     mr_alias r = so_alias s \<and> mr_bootstrap r = so_bootstrap s \<and> mr_version r = version_string (so_from s) \<and>
     mr_topics r = so_topics s \<and> mr_read_only r = ro \<and> au_secret (mr_auth r) \<noteq> target_user \<and>
     mc_config (mr_source r) ''replication.factor'' = Some (SetInt rf)"

lemma mirror_entries_ok:
  assumes "list_all2 describes is ss" "list_all wf_source ss" "mi_target_secret m = target_user"
  shows "\<exists>mirrors synced. mirror_entries is m = Inr (mirrors, synced) \<and> list_all2 (mirrors_source (mi_read_only m) (mi_rf m)) mirrors ss"
proof -
  have "list_all2 (\<lambda>i s. \<exists>y. mirror_and_secrets m i = Inr y \<and> mirrors_source (mi_read_only m) (mi_rf m) (fst y) s) is ss"
    using assms(1,2)
  proof (induction rule: list_all2_induct)
    case (Cons i ins s ss)
    then show ?case using mirror_and_secrets_ok [of s i m] assms(3) by (fastforce simp: mirrors_source_def)
  qed simp
  from try_map_ok [OF this] show ?thesis by (auto simp: mirror_entries_def list_all2_map1)
qed

lemma first_source_fields [simp]:
  "so_bootstrap (first_source l) = lb_source_bootstrap l" "so_from (first_source l) = op_from l" "so_user (first_source l) = lb_source_user l"
  "so_secret (first_source l) = lb_source_secret l" "so_ca_secret (first_source l) = lb_source_ca_secret l"
  by (simp_all add: first_source_def)

text \<open>Inputs as a command builds them: the lab's own, with what only the cluster knows.\<close>

definition cluster_inputs :: "lab \<Rightarrow> int \<Rightarrow> string \<Rightarrow> mirror_inputs" where
  "cluster_inputs l brokers operator_ns = (lab_inputs l)\<lparr>mi_brokers := brokers, mi_operator_ns := operator_ns\<rparr>"

lemma filled_inputs:
  assumes "wf_source (first_source l)"
  shows "fill_mirror_inputs l (cluster_inputs l b ns) =
    (cluster_inputs l b ns)\<lparr>mi_target_secret := target_user, mi_test_topic := default_test_topic\<rparr>"
proof -
  have "lb_source_bootstrap l \<noteq> []" "auth_of (first_source l) \<noteq> []"
    using assms auth_cases [of "first_source l"] by (auto simp: wf_source_def auth_texts)
  then show ?thesis
    by (simp add: fill_mirror_inputs_def cluster_inputs_def lab_inputs_def zero_inputs_def or_else_def Let_def)
qed

section \<open>Properties\<close>

text \<open>
  The pattern of a list of topics matches exactly those names: read as a regular expression of quoted
  and plain characters it gives back the list, whatever bytes the names are made of.
\<close>

theorem topics_pattern_exact:
  assumes "ts \<noteq> []"
  shows "pattern_texts (topics_pattern ts) = Some ts"
  by (rule pattern_texts_topics [OF assms])

theorem topics_pattern_exact_witness:
  "pattern_texts (topics_pattern [''kates.orders'', ''a|b'']) = Some [''kates.orders'', ''a|b'']"
  by (rule topics_pattern_exact) simp

text \<open>
  C29. A new lab can be mirrored: whatever the broker count of the target, the values of its mirror are
  rendered without error, with one mirror per source, in order, that names the source's alias,
  address, version and topics, carries the lab's read-only option, reads no Secret named as the
  target's, and replicates with a factor of at least 1 and at most 3 that no known broker count is below.
\<close>

theorem new_lab_mirrors:
  assumes "new_lab rand o' = Inr l" "0 \<le> b"
  shows "\<exists>v rf. mirror_values_for l (cluster_inputs l b ns) = Inr v \<and> 1 \<le> rf \<and> rf \<le> 3 \<and> (b = 0 \<or> rf \<le> b) \<and>
    list_all2 (mirrors_source (op_read_only l) rf) (mv_mirrors v) (lab_sources l)"
proof -
  have wf: "list_all wf_source (lab_sources l)" using lab_constructed [OF assms(1)] by (simp add: wf_lab_def)
  then have f: "wf_source (first_source l)" by (simp add: lab_sources_def)
  obtain n x xs where l: "l = lab_with n (x # xs)" "lab_sources l = x\<lparr>so_tls := op_tls n\<rparr> # xs" by (rule new_lab_derived [OF assms(1)])
  then have topics: "op_topics l \<noteq> []" using wf by (simp add: wf_source_def)
  let ?rf = "if 3 \<le> b then 3 else if 0 < b then b else 1 :: int"
  let ?m = "(cluster_inputs l b ns)\<lparr>mi_target_secret := target_user, mi_test_topic := default_test_topic, mi_rf := ?rf\<rparr>"
  have size: "size_mirror_replication (fill_mirror_inputs l (cluster_inputs l b ns)) = Inr ?m"
    using assms(2) unfolding filled_inputs [OF f]
    by (simp add: size_mirror_replication_def cluster_inputs_def lab_inputs_def zero_inputs_def)
  have ro: "mi_read_only ?m = op_read_only l" "mi_rf ?m = ?rf" "mi_target_secret ?m = target_user"
    by (simp_all add: cluster_inputs_def lab_inputs_def)
  have "list_all2 describes (mirror_source_inputs l ?m) (lab_sources l)"
    by (simp add: mirror_source_inputs_def lab_sources_def describes_def first_inputs_def extra_inputs_def
        cluster_inputs_def lab_inputs_def zero_inputs_def list_all2_map1 list.rel_refl)
  from mirror_entries_ok [OF this wf ro(3)] obtain mirrors synced
    where r: "mirror_entries (mirror_source_inputs l ?m) ?m = Inr (mirrors, synced)"
      "list_all2 (mirrors_source (op_read_only l) ?rf) mirrors (lab_sources l)" unfolding ro by blast
  then have "\<exists>v. mirror_values_for l (cluster_inputs l b ns) = Inr v \<and> mv_mirrors v = mirrors"
    using topics by (simp add: mirror_values_for_def size)
  moreover have "1 \<le> ?rf \<and> ?rf \<le> 3 \<and> (b = 0 \<or> ?rf \<le> b)" using assms(2) by auto
  ultimately show ?thesis using r(2) by blast
qed

theorem new_lab_mirrors_witness:
  "\<exists>l v rf. new_lab demo_rand demo_options = Inr l \<and> mirror_values_for l (cluster_inputs l 3 ''strimzi'') = Inr v \<and>
     rf \<le> 3 \<and> list_all2 (mirrors_source (op_read_only l) rf) (mv_mirrors v) (lab_sources l)"
proof -
  obtain l where l: "new_lab demo_rand demo_options = Inr l" using demo_new(1) by blast
  from new_lab_mirrors [OF l, of 3 "''strimzi''"] show ?thesis using l by auto
qed

lemma filled_read_only: "mi_read_only (fill_mirror_inputs l m) = mi_read_only m"
  by (simp add: fill_mirror_inputs_def Let_def)

lemma sized_read_only: "size_mirror_replication m = Inr m' \<Longrightarrow> mi_read_only m' = mi_read_only m"
  by (auto simp: size_mirror_replication_def Let_def split: if_split_asm)

lemma entries_read_only:
  assumes "mirror_entries ins m = Inr (mirrors, synced)"
  shows "list_all (\<lambda>r. mr_read_only r = mi_read_only m) mirrors"
proof -
  obtain rs where rs: "try_map (mirror_and_secrets m) ins = Inr rs" "mirrors = map fst rs"
    using assms by (cases "try_map (mirror_and_secrets m) ins") (auto simp: mirror_entries_def)
  have one: "mirror_and_secrets m i = Inr r \<Longrightarrow> mr_read_only (fst r) = mi_read_only m" for i r
    by (auto simp: mirror_and_secrets_def mirror_entry_def split: sum.splits prod.splits if_split_asm)
  have "list_all2 (\<lambda>i r. mirror_and_secrets m i = Inr r) ins rs" using rs(1) by (simp add: try_map_Inr)
  then have "list_all (\<lambda>r. mr_read_only (fst r) = mi_read_only m) rs" by (induction rule: list_all2_induct) (auto dest: one)
  then show ?thesis by (simp add: rs(2) list_all_iff)
qed

text \<open>
  \<open>MirrorInputs\<close> is documented to take every field left at its zero value from the lab. The read-only
  option is not taken: with the other inputs left zero, the mirrors of a lab that asks to keep every write on
  its target still let MirrorMaker 2 write to the source.
\<close>

theorem zero_inputs_write_source:
  assumes "mirror_values_for l zero_inputs = Inr v"
  shows "list_all (\<lambda>r. \<not> mr_read_only r) (mv_mirrors v)"
proof -
  obtain m where m: "size_mirror_replication (fill_mirror_inputs l zero_inputs) = Inr m"
    using assms by (cases "size_mirror_replication (fill_mirror_inputs l zero_inputs)") (auto simp: mirror_values_for_def)
  then have ro: "\<not> mi_read_only m" using sized_read_only [OF m] by (simp add: filled_read_only zero_inputs_def)
  obtain ms sy where e: "mirror_entries (mirror_source_inputs l m) m = Inr (ms, sy)" "mv_mirrors v = ms"
    using assms m by (auto simp: mirror_values_for_def split: if_split_asm sum.splits prod.splits)
  show ?thesis using entries_read_only [OF e(1)] ro e(2) by simp
qed

definition demo_read_only :: options where
  "demo_read_only = demo_single\<lparr>op_read_only := True\<rparr>"

definition seen_mirrors :: "lab_error + lab \<Rightarrow> (bool \<times> bool list) option" where
  "seen_mirrors r =
     (case r of
        Inr l \<Rightarrow> (case mirror_values_for l zero_inputs of Inr v \<Rightarrow> Some (op_read_only l, map mr_read_only (mv_mirrors v)) | Inl e \<Rightarrow> None)
      | Inl e \<Rightarrow> None)"

lemma demo_mirrors: "seen_mirrors (new_lab demo_rand demo_read_only) = Some (True, [False])"
  by (simp add: lab_defs demo_digits demo_read_only_def demo_options_def demo_single_def demo_rand_def Let_def seen_mirrors_def
      lab_with_def first_source_def options.extend_def lab.fields_def mirror_values_for_def size_mirror_replication_def
      fill_mirror_inputs_def zero_inputs_def lab_inputs_def or_else_def mirror_source_inputs_def first_inputs_def mirror_entries_def
      mirror_and_secrets_def source_auth_values_def auth_of_def mechanism_of_def auth_texts legacy_sasl_user_def target_user_def
      service_address_def mirror_entry_def)

theorem zero_inputs_write_source_witness:
  "\<exists>l v. new_lab demo_rand demo_read_only = Inr l \<and> op_read_only l \<and> mirror_values_for l zero_inputs = Inr v \<and>
     map mr_read_only (mv_mirrors v) = [False]"
proof -
  obtain l v where l: "new_lab demo_rand demo_read_only = Inr l" "mirror_values_for l zero_inputs = Inr v"
    and s: "op_read_only l" "length (mv_mirrors v) = 1"
    using demo_mirrors by (auto simp: seen_mirrors_def split: sum.splits)
  then show ?thesis using zero_inputs_write_source [OF l(2)] by (cases "mv_mirrors v") auto
qed

end
