(* ===== verification/MigrationReport.thy ===== *)
theory MigrationReport
  imports MigrationLab
begin

text \<open>
  The parts of \<open>cli/pkg/migrate\<close> a verify run is made of: the assertion report (\<open>report.go\<close>), the phase
  runner (\<open>plan.go\<close>), the corpus (\<open>corpus.go\<close>) and the mirror's status (\<open>status.go\<close>).

  A report's start time, its table and its JSON are left out. The state the phases share is never nil here, nor
  its report and its values, which \<open>RunPhases\<close> would replace. \<open>encoding/json\<close>'s decoder and the first eight
  bytes of \<open>sha256.Sum256\<close> are arguments. The JSON a record encodes to is written out for a lab and
  a payload that need no escape, as a lab's name and a digest never do.
\<close>

section \<open>Report\<close>

definition status_pass :: string where "status_pass = ''PASS''"
definition status_fail :: string where "status_fail = ''FAIL''"
definition status_skip :: string where "status_skip = ''SKIP''"

record report_row =
  rw_name :: string
  rw_status :: string
  rw_detail :: string

record report =
  rp_header :: "string \<rightharpoonup> string"
  rp_rows :: "report_row list"

definition new_report :: "(string \<rightharpoonup> string) \<Rightarrow> report" where
  "new_report h = \<lparr>rp_header = h, rp_rows = []\<rparr>"

definition add_row :: "report_row \<Rightarrow> report \<Rightarrow> report" where
  "add_row r p = p\<lparr>rp_rows := rp_rows p @ [r]\<rparr>"

definition row_pass :: "string \<Rightarrow> string \<Rightarrow> report \<Rightarrow> report" where
  "row_pass n d = add_row \<lparr>rw_name = n, rw_status = status_pass, rw_detail = d\<rparr>"

definition row_fail :: "string \<Rightarrow> string \<Rightarrow> report \<Rightarrow> report" where
  "row_fail n d = add_row \<lparr>rw_name = n, rw_status = status_fail, rw_detail = d\<rparr>"

definition row_skip :: "string \<Rightarrow> string \<Rightarrow> report \<Rightarrow> report" where
  "row_skip n d = add_row \<lparr>rw_name = n, rw_status = status_skip, rw_detail = d\<rparr>"

fun row_counts :: "report_row list \<Rightarrow> int \<times> int \<times> int" where
  "row_counts [] = (0, 0, 0)"
| "row_counts (r # rs) =
     (let (p, f, s) = row_counts rs
      in if rw_status r = status_pass then (p + 1, f, s)
         else if rw_status r = status_fail then (p, f + 1, s)
         else if rw_status r = status_skip then (p, f, s + 1) else (p, f, s))"

definition report_counts :: "report \<Rightarrow> int \<times> int \<times> int" where
  "report_counts p = row_counts (rp_rows p)"

definition report_failed :: "report \<Rightarrow> bool" where
  "report_failed p \<longleftrightarrow> (let (pass, failed, skip) = report_counts p in failed > 0)"

text \<open>The last row of a name.\<close>

definition report_row_of :: "report \<Rightarrow> string \<Rightarrow> report_row option" where
  "report_row_of p n = find (\<lambda>r. rw_name r = n) (rev (rp_rows p))"

section \<open>Phases\<close>

record offset_sum =
  os_sum :: int
  os_measured :: bool

definition no_reading :: offset_sum where "no_reading = \<lparr>os_sum = 0, os_measured = False\<rparr>"

definition measured :: "int \<Rightarrow> offset_sum" where "measured n = \<lparr>os_sum = n, os_measured = True\<rparr>"

definition offset_string :: "offset_sum \<Rightarrow> string" where
  "offset_string o' = (if os_measured o' then show_int (os_sum o') else ''<no reading>'')"

record 'v mig_state =
  ms_report :: report
  ms_values :: 'v
  ms_produced :: "string list"
  ms_consumed :: "string list"
  ms_source_end :: offset_sum
  ms_before :: offset_sum
  ms_after :: offset_sum
  ms_group_partitions :: int
  ms_errors :: "(string \<times> string) list"

definition new_state :: "(string \<rightharpoonup> string) \<Rightarrow> 'v \<Rightarrow> 'v mig_state" where
  "new_state h v =
     \<lparr>ms_report = new_report h, ms_values = v, ms_produced = [], ms_consumed = [], ms_source_end = no_reading,
      ms_before = no_reading, ms_after = no_reading, ms_group_partitions = 0, ms_errors = []\<rparr>"

text \<open>A phase's \<open>Run\<close> changes the state and may return an error; None is a phase without \<open>Run\<close>.\<close>

record 'v phase =
  ph_name :: string
  ph_run :: "('v mig_state \<Rightarrow> 'v mig_state \<times> string option) option"
  ph_optional :: bool

definition phase_error_string :: "string \<times> string \<Rightarrow> string" where
  "phase_error_string pe = ''phase '' @ CHR 0x22 # fst pe @ [CHR 0x22] @ '': '' @ snd pe"

definition no_run :: string where "no_run = ''phase has no Run function''"

text \<open>\<open>ctx i\<close> is the context's error when the phase of index \<open>i\<close> is about to start.\<close>

fun run_phases ::
  "(nat \<Rightarrow> string option) \<Rightarrow> nat \<Rightarrow> 'v phase list \<Rightarrow> 'v mig_state \<Rightarrow> 'v mig_state \<times> (string \<times> string) option" where
  "run_phases ctx i [] s = (s, None)"
| "run_phases ctx i (p # ps) s =
     (case ctx i of
        Some e \<Rightarrow> (s, Some (ph_name p, e))
      | None \<Rightarrow>
          (case ph_run p of
             None \<Rightarrow> (s, Some (ph_name p, no_run))
           | Some f \<Rightarrow>
               (case f s of
                  (s', None) \<Rightarrow> run_phases ctx (Suc i) ps s'
                | (s', Some e) \<Rightarrow>
                    let s'' = s'\<lparr>ms_errors := ms_errors s' @ [(ph_name p, e)]\<rparr>
                    in if ph_optional p then run_phases ctx (Suc i) ps s'' else (s'', Some (ph_name p, e)))))"

section \<open>Corpus\<close>

record corpus_record =
  cr_id :: int
  cr_lab :: string
  cr_payload :: string

definition hex_digit :: "nat \<Rightarrow> char" where
  "hex_digit n = (if n < 10 then char_of (48 + n) else char_of (87 + n))"

definition hex_encode :: "nat list \<Rightarrow> string" where
  "hex_encode bs = concat (map (\<lambda>b. [hex_digit (b div 16), hex_digit (b mod 16)]) bs)"

definition record_payload :: "(string \<Rightarrow> nat list) \<Rightarrow> string \<Rightarrow> int \<Rightarrow> string" where
  "record_payload digest lab i = hex_encode (digest (lab @ '':'' @ show_int i))"

definition quoted :: "string \<Rightarrow> string" where
  "quoted s = CHR 0x22 # s @ [CHR 0x22]"

definition record_line :: "corpus_record \<Rightarrow> string" where
  "record_line r =
     ''{'' @ quoted ''id'' @ '':'' @ show_int (cr_id r) @ '','' @ quoted ''lab'' @ '':'' @ quoted (cr_lab r) @ '','' @
     quoted ''payload'' @ '':'' @ quoted (cr_payload r) @ ''}''"

definition corpus_record_of :: "(string \<Rightarrow> nat list) \<Rightarrow> string \<Rightarrow> int \<Rightarrow> corpus_record" where
  "corpus_record_of digest lab i = \<lparr>cr_id = i, cr_lab = lab, cr_payload = record_payload digest lab i\<rparr>"

definition records :: "(string \<Rightarrow> nat list) \<Rightarrow> string \<Rightarrow> int \<Rightarrow> string list" where
  "records digest lab n = map (\<lambda>i. record_line (corpus_record_of digest lab i)) [1..n]"

definition parse_record :: "(string \<Rightarrow> corpus_record option) \<Rightarrow> string \<Rightarrow> corpus_record option" where
  "parse_record decode line =
     (let t = trim_space line
      in if \<not> prefix ''{'' t then None
         else (case decode t of
                 Some r \<Rightarrow> if cr_id r \<le> 0 \<or> cr_lab r = [] then None else Some r
               | None \<Rightarrow> None))"

definition trim_right_cr :: "string \<Rightarrow> string" where
  "trim_right_cr s = rev (dropWhile (\<lambda>c. c = CHR 0x0d) (rev s))"

definition clean_line :: "string \<Rightarrow> string" where
  "clean_line l = trim_space (trim_right_cr l)"

definition parse_consumed :: "(string \<Rightarrow> corpus_record option) \<Rightarrow> string \<Rightarrow> string list" where
  "parse_consumed decode out =
     filter (\<lambda>l. l \<noteq> [] \<and> parse_record decode l \<noteq> None) (map clean_line (split_on (CHR 0x0a) out))"

text \<open>The Go maps \<open>seen\<close>, \<open>got\<close> and \<open>want\<close> are the sets of their keys.\<close>

definition distinct_count :: "string list \<Rightarrow> int" where
  "distinct_count ls = int (length (remdups (filter (\<lambda>l. l \<noteq> []) (map trim_space ls))))"

fun extra_lines :: "string list \<Rightarrow> string list \<Rightarrow> string list \<Rightarrow> string list" where
  "extra_lines want seen [] = []"
| "extra_lines want seen (a # as) =
     (let t = trim_space a
      in if t = [] \<or> t \<in> set want \<or> t \<in> set seen then extra_lines want seen as
         else t # extra_lines want (t # seen) as)"

definition corpus_diff :: "string list \<Rightarrow> string list \<Rightarrow> string list \<times> string list" where
  "corpus_diff expected actual =
     (let got = map trim_space actual; want = map trim_space expected
      in (filter (\<lambda>e. e \<notin> set got) want, extra_lines want [] actual))"

definition record_ids :: "(string \<Rightarrow> corpus_record option) \<Rightarrow> string list \<Rightarrow> int list" where
  "record_ids decode ls = map cr_id (List.map_filter (parse_record decode) ls)"

section \<open>Mirror status\<close>

definition state_running :: string where "state_running = ''RUNNING''"
definition state_stopped :: string where "state_stopped = ''STOPPED''"
definition state_failed :: string where "state_failed = ''FAILED''"
definition source_connector_suffix :: string where "source_connector_suffix = ''MirrorSourceConnector''"
definition checkpoint_connector_suffix :: string where "checkpoint_connector_suffix = ''MirrorCheckpointConnector''"

record connector_status =
  cs_name :: string
  cs_state :: string
  cs_tasks :: "string list"
  cs_trace :: string

definition connector_running :: "connector_status \<Rightarrow> bool" where
  "connector_running c \<longleftrightarrow> cs_state c = state_running \<and> list_all (\<lambda>t. t = state_running) (cs_tasks c)"

definition connector_failed_tasks :: "connector_status \<Rightarrow> int" where
  "connector_failed_tasks c = int (length (filter (\<lambda>t. t = state_failed) (cs_tasks c)))"

record mirror_status =
  mt_ready :: bool
  mt_reason :: string
  mt_message :: string
  mt_connectors :: "connector_status list"
  mt_replicas :: int
  mt_observed :: int
  mt_generation :: int

text \<open>The decoded object: its conditions and connectors as \<open>kmm2\<close> names them.\<close>

record condition =
  cd_type :: string
  cd_status :: string
  cd_reason :: string
  cd_message :: string

record task_doc =
  td_state :: string
  td_trace :: string

record connector_doc =
  co_name :: string
  co_state :: string
  co_trace :: string
  co_tasks :: "task_doc list"

record status_doc =
  sd_conditions :: "condition list"
  sd_connectors :: "connector_doc list"
  sd_replicas :: int
  sd_observed :: int

text \<open>The conditions' loop: ready, the trouble found first, the last Ready condition's reason and message.\<close>

fun read_conditions :: "condition list \<Rightarrow> bool \<Rightarrow> string \<times> string \<Rightarrow> string \<times> string \<Rightarrow> bool \<times> (string \<times> string) \<times> string \<times> string" where
  "read_conditions [] ready trouble last_ready = (ready, trouble, last_ready)"
| "read_conditions (c # cs) ready trouble last_ready =
     (if cd_type c = ''Ready'' then read_conditions cs (ready \<or> cd_status c = ''True'') trouble (cd_reason c, cd_message c)
      else if (cd_type c = ''NotReady'' \<or> cd_type c = ''Warning'') \<and> fst trouble = [] \<and> (cd_reason c \<noteq> [] \<or> cd_message c \<noteq> [])
        then read_conditions cs ready (cd_reason c, cd_message c) last_ready
      else read_conditions cs ready trouble last_ready)"

definition read_connector :: "connector_doc \<Rightarrow> connector_status" where
  "read_connector c =
     \<lparr>cs_name = co_name c, cs_state = co_state c, cs_tasks = map td_state (co_tasks c),
      cs_trace = (case find (\<lambda>t. t \<noteq> []) (co_trace c # map td_trace (co_tasks c)) of Some t \<Rightarrow> t | None \<Rightarrow> [])\<rparr>"

definition parse_mirror_status :: "int \<Rightarrow> status_doc option \<Rightarrow> mirror_status" where
  "parse_mirror_status generation doc =
     (case doc of
        None \<Rightarrow> \<lparr>mt_ready = False, mt_reason = [], mt_message = [], mt_connectors = [], mt_replicas = 0, mt_observed = 0, mt_generation = generation\<rparr>
      | Some d \<Rightarrow>
          let (ready, trouble, last_ready) = read_conditions (sd_conditions d) False ([], []) ([], []);
              why = (if trouble = ([], []) then last_ready else trouble)
          in \<lparr>mt_ready = ready, mt_reason = fst why, mt_message = snd why, mt_connectors = map read_connector (sd_connectors d),
              mt_replicas = sd_replicas d, mt_observed = sd_observed d, mt_generation = generation\<rparr>)"

definition all_running :: "mirror_status \<Rightarrow> bool" where
  "all_running s \<longleftrightarrow> mt_connectors s \<noteq> [] \<and> list_all connector_running (mt_connectors s)"

definition running_count :: "mirror_status \<Rightarrow> int" where
  "running_count s = int (length (filter (\<lambda>c. cs_state c = state_running) (mt_connectors s)))"

definition connector_of :: "mirror_status \<Rightarrow> string \<Rightarrow> connector_status option" where
  "connector_of s sfx = find (\<lambda>c. suffix sfx (cs_name c)) (mt_connectors s)"

definition connector_stopped :: "mirror_status \<Rightarrow> string \<Rightarrow> bool" where
  "connector_stopped s sfx \<longleftrightarrow> (case connector_of s sfx of Some c \<Rightarrow> cs_state c = state_stopped | None \<Rightarrow> False)"

definition failed_tasks :: "mirror_status \<Rightarrow> int" where
  "failed_tasks s = sum_list (map connector_failed_tasks (mt_connectors s))"

definition status_summary :: "mirror_status \<Rightarrow> string" where
  "status_summary s = join_with '' '' (map (\<lambda>c. cs_name c @ ''='' @ cs_state c) (mt_connectors s))"

section \<open>Running phases\<close>

text \<open>A phase that is run on its own: the state it leaves, with its error noted, and the error.\<close>

definition phase_effect :: "'v phase \<Rightarrow> 'v mig_state \<Rightarrow> 'v mig_state \<times> string option" where
  "phase_effect p s =
     (case ph_run p of
        None \<Rightarrow> (s, None)
      | Some f \<Rightarrow> (case f s of (s', None) \<Rightarrow> (s', None) | (s', Some e) \<Rightarrow> (s'\<lparr>ms_errors := ms_errors s' @ [(ph_name p, e)]\<rparr>, Some e)))"

definition after_phases :: "'v phase list \<Rightarrow> 'v mig_state \<Rightarrow> 'v mig_state" where
  "after_phases ps s = fold (\<lambda>p s. fst (phase_effect p s)) ps s"

text \<open>The run goes past a phase: the context is alive, it has a \<open>Run\<close>, and its error, if any, is optional.\<close>

definition goes_past :: "string option \<Rightarrow> 'v phase \<Rightarrow> 'v mig_state \<Rightarrow> bool" where
  "goes_past ctx p s \<longleftrightarrow> ctx = None \<and> ph_run p \<noteq> None \<and> (snd (phase_effect p s) = None \<or> ph_optional p)"

text \<open>What a phase the run does not go past leaves and reports.\<close>

definition stops_at :: "string option \<Rightarrow> 'v phase \<Rightarrow> 'v mig_state \<Rightarrow> 'v mig_state \<times> (string \<times> string) option" where
  "stops_at ctx p s =
     (case ctx of
        Some e \<Rightarrow> (s, Some (ph_name p, e))
      | None \<Rightarrow> if ph_run p = None then (s, Some (ph_name p, no_run))
                else (fst (phase_effect p s), map_option (Pair (ph_name p)) (snd (phase_effect p s))))"

lemma run_phases_past:
  "goes_past (ctx i) p s \<Longrightarrow> run_phases ctx i (p # ps) s = run_phases ctx (Suc i) ps (fst (phase_effect p s))"
  by (auto simp: goes_past_def phase_effect_def Let_def split: option.splits prod.splits)

lemma run_phases_stop: "\<not> goes_past (ctx i) p s \<Longrightarrow> run_phases ctx i (p # ps) s = stops_at (ctx i) p s"
  by (auto simp: goes_past_def stops_at_def phase_effect_def Let_def split: option.splits prod.splits)

lemma stops_at_error: "\<not> goes_past ctx p s \<Longrightarrow> snd (stops_at ctx p s) \<noteq> None"
  by (auto simp: goes_past_def stops_at_def split: option.splits)

lemma after_phases_Cons [simp]: "after_phases (p # ps) s = after_phases ps (fst (phase_effect p s))"
  by (simp add: after_phases_def)

lemma after_phases_Nil [simp]: "after_phases [] s = s"
  by (simp add: after_phases_def)

lemma run_phases_cases:
  "(\<forall>k<length ps. goes_past (ctx (i + k)) (ps ! k) (after_phases (take k ps) s)) \<and> run_phases ctx i ps s = (after_phases ps s, None) \<or>
   (\<exists>k<length ps. (\<forall>j<k. goes_past (ctx (i + j)) (ps ! j) (after_phases (take j ps) s)) \<and>
      \<not> goes_past (ctx (i + k)) (ps ! k) (after_phases (take k ps) s) \<and>
      run_phases ctx i ps s = stops_at (ctx (i + k)) (ps ! k) (after_phases (take k ps) s))"
proof (induction ps arbitrary: i s)
  case (Cons p ps)
  show ?case
  proof (cases "goes_past (ctx i) p s")
    case False
    then show ?thesis using run_phases_stop by (intro disjI2 exI [of _ 0]) simp
  next
    case True
    let ?s = "fst (phase_effect p s)"
    note past = run_phases_past [of ctx i p s ps, OF True]
    from Cons.IH [of "Suc i" ?s] show ?thesis
    proof (elim disjE conjE exE)
      assume a: "\<forall>k<length ps. goes_past (ctx (Suc i + k)) (ps ! k) (after_phases (take k ps) ?s)"
        and r: "run_phases ctx (Suc i) ps ?s = (after_phases ps ?s, None)"
      have "goes_past (ctx (i + k)) ((p # ps) ! k) (after_phases (take k (p # ps)) s)" if "k < length (p # ps)" for k
        using that a True by (cases k) auto
      then show ?thesis using past r by (intro disjI1) simp
    next
      fix k assume k: "k < length ps" "\<forall>j<k. goes_past (ctx (Suc i + j)) (ps ! j) (after_phases (take j ps) ?s)"
        "\<not> goes_past (ctx (Suc i + k)) (ps ! k) (after_phases (take k ps) ?s)"
        and r: "run_phases ctx (Suc i) ps ?s = stops_at (ctx (Suc i + k)) (ps ! k) (after_phases (take k ps) ?s)"
      have "goes_past (ctx (i + j)) ((p # ps) ! j) (after_phases (take j (p # ps)) s)" if "j < Suc k" for j
        using that k(2) True by (cases j) auto
      then show ?thesis using past r k by (intro disjI2 exI [of _ "Suc k"]) simp
    qed
  qed
qed simp

section \<open>Trimming twice\<close>

lemma trim_left_of_done: "e \<in> set encs \<Longrightarrow> e \<noteq> [] \<Longrightarrow> \<not> prefix e (trim_left_of encs s)"
proof (induction encs s rule: trim_left_of.induct)
  case (2 encs c s)
  then show ?case by (auto simp: find_None_iff split: option.splits)
qed simp

lemma trim_left_of_suffix: "suffix (trim_left_of encs s) s"
proof (induction encs s rule: trim_left_of.induct)
  case (2 encs c s)
  then show ?case
    by (auto split: option.splits intro: suffix_ConsI dest!: suffix_order.order_trans [OF _ suffix_drop])
qed simp

lemma trim_left_of_stable: "\<forall>e\<in>set encs. e \<noteq> [] \<longrightarrow> \<not> prefix e s \<Longrightarrow> trim_left_of encs s = s"
proof (cases s)
  case (Cons c t)
  assume "\<forall>e\<in>set encs. e \<noteq> [] \<longrightarrow> \<not> prefix e s"
  then have "find (\<lambda>e. e \<noteq> [] \<and> prefix e (c # t)) encs = None" by (auto simp: find_None_iff Cons)
  then show ?thesis by (simp add: Cons)
qed simp

lemma trim_space_twice [simp]: "trim_space (trim_space s) = trim_space s"
proof -
  let ?L = "trim_left_of space_encodings" and ?R = "trim_left_of (map rev space_encodings)"
  define a b where "a = ?L s" and "b = ?R (rev a)"
  have t: "trim_space s = rev b" by (simp add: trim_space_def a_def b_def)
  have "suffix b (rev a)" unfolding b_def by (rule trim_left_of_suffix)
  then have "prefix (rev b) a" by (simp add: suffix_to_prefix)
  moreover have "\<not> prefix e a" if "e \<in> set space_encodings" "e \<noteq> []" for e
    unfolding a_def using that by (rule trim_left_of_done)
  ultimately have l: "?L (rev b) = rev b" by (intro trim_left_of_stable) (blast intro: prefix_order.trans)
  have "?R b = b" unfolding b_def using trim_left_of_done by (intro trim_left_of_stable) blast
  then show ?thesis unfolding t by (simp add: trim_space_def l)
qed

section \<open>Comparing corpora\<close>

lemma extra_lines_spec:
  "distinct (extra_lines want seen as) \<and>
   set (extra_lines want seen as) = set (map trim_space as) - set want - set seen - {[]}"
proof (induction as arbitrary: seen)
  case (Cons a as)
  show ?case using Cons.IH [of seen] Cons.IH [of "trim_space a # seen"] by (auto simp: Let_def)
qed simp

lemma distinct_count_card: "distinct_count ls = int (card (set (map trim_space ls) - {[]}))"
proof -
  have "set (remdups (filter (\<lambda>l. l \<noteq> []) (map trim_space ls))) = set (map trim_space ls) - {[]}" by auto
  then show ?thesis unfolding distinct_count_def using distinct_card [OF distinct_remdups, of "filter (\<lambda>l. l \<noteq> []) (map trim_space ls)"] by simp
qed

lemma quoted_plain: "list_all space_free_end s \<Longrightarrow> list_all space_free_end (quoted s)"
  by (simp add: quoted_def space_free_end_def)

lemma record_line_ends: "record_line r \<noteq> [] \<and> hd (record_line r) = CHR ''{'' \<and> last (record_line r) = CHR ''}''"
  by (simp add: record_line_def)

lemma record_line_trim [simp]: "trim_space (record_line r) = record_line r"
  using record_line_ends [of r] by (intro trim_space_id) (simp_all add: space_free_end_def)

lemma record_line_parsed:
  "decode (record_line r) = Some r \<Longrightarrow> 0 < cr_id r \<Longrightarrow> cr_lab r \<noteq> [] \<Longrightarrow> parse_record decode (record_line r) = Some r"
proof -
  assume a: "decode (record_line r) = Some r" "0 < cr_id r" "cr_lab r \<noteq> []"
  have "prefix ''{'' (record_line r)" using record_line_ends [of r] by (cases "record_line r") auto
  then show ?thesis using a by (simp add: parse_record_def)
qed

text \<open>
  The read-back misses exactly the records that are on no line of the consumer's output, in the corpus's
  order: other lines, white space around a record, duplicates and the order of arrival change nothing.
  \<open>decode\<close> need only read back what the corpus encodes.
\<close>

definition reads_corpus :: "(string \<Rightarrow> corpus_record option) \<Rightarrow> (string \<Rightarrow> nat list) \<Rightarrow> string \<Rightarrow> int \<Rightarrow> bool" where
  "reads_corpus decode digest lab n \<longleftrightarrow>
     list_all (\<lambda>i. decode (record_line (corpus_record_of digest lab i)) = Some (corpus_record_of digest lab i)) [1..n]"

lemma records_parsed:
  assumes "reads_corpus decode digest lab n" "lab \<noteq> []" "l \<in> set (records digest lab n)"
  obtains i where "1 \<le> i" "i \<le> n" "l = record_line (corpus_record_of digest lab i)" "parse_record decode l = Some (corpus_record_of digest lab i)"
proof -
  obtain i where i: "1 \<le> i" "i \<le> n" "l = record_line (corpus_record_of digest lab i)" using assms(3) by (auto simp: records_def)
  then have "decode l = Some (corpus_record_of digest lab i)" using assms(1) by (simp add: reads_corpus_def list_all_iff)
  then show ?thesis using that i assms(2) record_line_parsed [of decode "corpus_record_of digest lab i"] by (simp add: corpus_record_of_def)
qed

lemma records_trim [simp]: "map trim_space (records digest lab n) = records digest lab n"
  by (simp add: records_def)

lemma consumed_records:
  assumes "reads_corpus decode digest lab n" "lab \<noteq> []" "l \<in> set (records digest lab n)"
  shows "l \<in> set (map trim_space (parse_consumed decode out)) \<longleftrightarrow> l \<in> set (map clean_line (split_on (CHR 0x0a) out))"
proof -
  obtain i where i: "l = record_line (corpus_record_of digest lab i)" "parse_record decode l = Some (corpus_record_of digest lab i)"
    using records_parsed [OF assms] by blast
  show ?thesis
  proof
    assume "l \<in> set (map clean_line (split_on (CHR 0x0a) out))"
    then have "l \<in> set (parse_consumed decode out)" using i record_line_ends by (auto simp: parse_consumed_def)
    then have "trim_space l \<in> set (map trim_space (parse_consumed decode out))" by simp
    then show "l \<in> set (map trim_space (parse_consumed decode out))" by (simp add: i(1))
  next
    assume "l \<in> set (map trim_space (parse_consumed decode out))"
    then obtain x where x: "x \<in> set (map clean_line (split_on (CHR 0x0a) out))" "l = trim_space x" by (auto simp: parse_consumed_def)
    then have "trim_space x = x" by (auto simp: clean_line_def)
    then show "l \<in> set (map clean_line (split_on (CHR 0x0a) out))" using x by simp
  qed
qed

section \<open>Properties\<close>

text \<open>
  The runner runs the phases in order and stops exactly at the first that does not go through: a context
  already cancelled, a phase without \<open>Run\<close>, or an error of a phase that is not optional. The state is what
  the phases before it left, errors noted, and it returns that phase's error; with no such phase it returns nil
  after them all.
\<close>

theorem run_phases_exact:
  "(\<forall>k<length ps. goes_past (ctx k) (ps ! k) (after_phases (take k ps) s)) \<and> run_phases ctx 0 ps s = (after_phases ps s, None) \<or>
   (\<exists>k<length ps. (\<forall>j<k. goes_past (ctx j) (ps ! j) (after_phases (take j ps) s)) \<and>
      \<not> goes_past (ctx k) (ps ! k) (after_phases (take k ps) s) \<and>
      run_phases ctx 0 ps s = stops_at (ctx k) (ps ! k) (after_phases (take k ps) s) \<and> snd (run_phases ctx 0 ps s) \<noteq> None)"
proof (rule disjE [OF run_phases_cases [of ps ctx 0 s, unfolded add_0]])
  assume "\<exists>k<length ps. (\<forall>j<k. goes_past (ctx j) (ps ! j) (after_phases (take j ps) s)) \<and>
      \<not> goes_past (ctx k) (ps ! k) (after_phases (take k ps) s) \<and>
      run_phases ctx 0 ps s = stops_at (ctx k) (ps ! k) (after_phases (take k ps) s)"
  then obtain k where k: "k < length ps" "\<forall>j<k. goes_past (ctx j) (ps ! j) (after_phases (take j ps) s)"
    "\<not> goes_past (ctx k) (ps ! k) (after_phases (take k ps) s)"
    "run_phases ctx 0 ps s = stops_at (ctx k) (ps ! k) (after_phases (take k ps) s)" by blast
  show ?thesis using k stops_at_error [OF k(3)] by (intro disjI2 exI [of _ k] conjI) simp_all
qed (rule disjI1)

text \<open>
  \<open>Diff\<close> compares two corpora as sets of trimmed lines: the missing are the expected lines that never
  arrived, in their order; the extra are the other lines that did, each once, the empty one apart.
  \<open>Distinct\<close> is the number of different lines.
\<close>

theorem corpus_diff_exact:
  "fst (corpus_diff expected actual) = filter (\<lambda>e. e \<notin> set (map trim_space actual)) (map trim_space expected) \<and>
   distinct (snd (corpus_diff expected actual)) \<and>
   set (snd (corpus_diff expected actual)) = set (map trim_space actual) - set (map trim_space expected) - {[]} \<and>
   distinct_count actual = int (card (set (map trim_space actual) - {[]}))"
  using extra_lines_spec [of "map trim_space expected" "[]" actual] distinct_count_card [of actual]
  by (simp add: corpus_diff_def Let_def)

text \<open>
  A read-back misses exactly the records that stand on no line of the consumer's output, in the corpus's
  order: other output, white space around a record, repeats and the order of arrival make no difference.
\<close>

theorem read_back_exact:
  assumes "reads_corpus decode digest lab n" "lab \<noteq> []"
  shows "fst (corpus_diff (records digest lab n) (parse_consumed decode out)) =
    filter (\<lambda>l. l \<notin> set (map clean_line (split_on (CHR 0x0a) out))) (records digest lab n)"
  unfolding corpus_diff_def Let_def fst_conv records_trim
  by (rule filter_cong [OF refl]) (use consumed_records [OF assms] in blast)

definition demo_digest :: "string \<Rightarrow> nat list" where "demo_digest s = [171, length s]"

definition demo_decode :: "string \<Rightarrow> corpus_record option" where
  "demo_decode l = map_of (map (\<lambda>i. (record_line (corpus_record_of demo_digest ''m1'' i), corpus_record_of demo_digest ''m1'' i)) [1, 2]) l"

definition demo_output :: string where
  "demo_output = ''Processed 2'' @ CHR 0x0a # record_line (corpus_record_of demo_digest ''m1'' 2) @ CHR 0x0a # []"

lemma clean_record_line [simp]: "clean_line (record_line r) = record_line r"
proof -
  obtain x where "record_line r = x @ [CHR ''}'']" using record_line_ends [of r] by (metis append_butlast_last_id)
  then have "trim_right_cr (record_line r) = record_line r" by (simp add: trim_right_cr_def)
  then show ?thesis by (simp add: clean_line_def)
qed

lemma demo_lines:
  "map clean_line (split_on (CHR 0x0a) demo_output) = [''Processed 2'', record_line (corpus_record_of demo_digest ''m1'' 2), []]"
proof -
  have "CHR 0x0a \<notin> set (record_line (corpus_record_of demo_digest ''m1'' 2))" by code_simp
  then have "split_on (CHR 0x0a) demo_output = [''Processed 2'', record_line (corpus_record_of demo_digest ''m1'' 2), []]"
    by (simp add: demo_output_def split_on_append_sep)
  moreover have "trim_space ''Processed 2'' = ''Processed 2''" by (rule trim_space_id) (simp_all add: space_free_end_def)
  then have "clean_line ''Processed 2'' = ''Processed 2''" "clean_line [] = []" by (simp_all add: clean_line_def trim_right_cr_def)
  ultimately show ?thesis by simp
qed

theorem read_back_exact_witness:
  "fst (corpus_diff (records demo_digest ''m1'' 2) (parse_consumed demo_decode demo_output)) =
   [record_line (corpus_record_of demo_digest ''m1'' 1)]"
proof -
  have r: "reads_corpus demo_decode demo_digest ''m1'' 2" by code_simp
  have "records demo_digest ''m1'' 2 = map (\<lambda>i. record_line (corpus_record_of demo_digest ''m1'' i)) [1, 2]"
    by (simp add: records_def upto_rec1)
  moreover have "record_line (corpus_record_of demo_digest ''m1'' 1) \<noteq> record_line (corpus_record_of demo_digest ''m1'' 2)"
    "record_line (corpus_record_of demo_digest ''m1'' 1) \<noteq> ''Processed 2''" by code_simp+
  ultimately show ?thesis using read_back_exact [OF r, of demo_output] record_line_ends by (simp add: demo_lines)
qed

end
