(* ===== verification/PodTools.thy ===== *)
theory PodTools
  imports KafkaVersion
begin

text \<open>
  The Kafka command-line tools as the client pods run them (\<open>cli/internal/podrun\<close>): the argument lists of
  \<open>tools.go\<close> per Kafka line, the readers of what the tools print, and the client properties of
  \<open>properties.go\<close>. A \<open>time.Duration\<close> is its nanoseconds. The error that lists several topics carries them in
  the order they appear; the message sorts them. Texts are their bytes and valid UTF-8.
\<close>

section \<open>Argument lists\<close>

definition default_home :: string where "default_home = ''/opt/kafka''"

record tools =
  tl_home :: string
  tl_version :: version

definition first_topics_bootstrap :: version where "first_topics_bootstrap = \<lparr>major = 2, minor = 2, patch = 0\<rparr>"
definition first_producer_bootstrap :: version where "first_producer_bootstrap = \<lparr>major = 2, minor = 5, patch = 0\<rparr>"
definition first_get_offsets :: version where "first_get_offsets = \<lparr>major = 3, minor = 0, patch = 0\<rparr>"

definition trim_right_slash :: "string \<Rightarrow> string" where
  "trim_right_slash s = rev (dropWhile (\<lambda>c. c = CHR ''/'') (rev s))"

definition tools_for :: "version \<Rightarrow> string \<Rightarrow> tools" where
  "tools_for v home = \<lparr>tl_home = trim_right_slash (if home = [] then default_home else home), tl_version = v\<rparr>"

definition tool_bin :: "tools \<Rightarrow> string \<Rightarrow> string" where
  "tool_bin t n = (if tl_home t = [] then default_home else tl_home t) @ ''/bin/'' @ n"

definition with_config :: "string list \<Rightarrow> string \<Rightarrow> string \<Rightarrow> string list" where
  "with_config argv flag path = (if path = [] then argv else argv @ [flag, path])"

definition topics_args :: "tools \<Rightarrow> string \<Rightarrow> string \<Rightarrow> string list \<Rightarrow> string list" where
  "topics_args t bootstrap cfg extra =
     with_config [tool_bin t ''kafka-topics.sh'', ''--bootstrap-server'', bootstrap] ''--command-config'' cfg @ extra"

definition list_topics :: "tools \<Rightarrow> string \<Rightarrow> string \<Rightarrow> string list" where
  "list_topics t bootstrap cfg = topics_args t bootstrap cfg [''--list'']"

definition create_topic :: "tools \<Rightarrow> string \<Rightarrow> string \<Rightarrow> string \<Rightarrow> int \<Rightarrow> int \<Rightarrow> string list" where
  "create_topic t bootstrap cfg topic partitions rf =
     topics_args t bootstrap cfg [''--create'', ''--if-not-exists'', ''--topic'', topic, ''--partitions'', show_int partitions,
       ''--replication-factor'', show_int rf]"

definition producer_args :: "tools \<Rightarrow> string \<Rightarrow> string \<Rightarrow> string \<Rightarrow> string list" where
  "producer_args t bootstrap cfg topic =
     with_config [tool_bin t ''kafka-console-producer.sh'',
       (if version_less (tl_version t) first_producer_bootstrap then ''--broker-list'' else ''--bootstrap-server''), bootstrap]
       ''--producer.config'' cfg @ [''--topic'', topic]"

definition consumer_args :: "tools \<Rightarrow> string \<Rightarrow> string \<Rightarrow> string \<Rightarrow> string \<Rightarrow> int \<Rightarrow> bool \<Rightarrow> int \<Rightarrow> string list" where
  "consumer_args t bootstrap cfg topic grp max_messages from_beginning timeout =
     with_config [tool_bin t ''kafka-console-consumer.sh'', ''--bootstrap-server'', bootstrap] ''--consumer.config'' cfg @
     [''--topic'', topic] @ (if grp \<noteq> [] then [''--group'', grp] else []) @
     (if from_beginning then [''--from-beginning''] else []) @
     (if 0 < max_messages then [''--max-messages'', show_int max_messages] else []) @
     (if 0 < timeout then [''--timeout-ms'', show_int (timeout div 1000000)] else [])"

definition consumer_groups :: "tools \<Rightarrow> string \<Rightarrow> string \<Rightarrow> string list \<Rightarrow> string list" where
  "consumer_groups t bootstrap cfg extra =
     with_config [tool_bin t ''kafka-consumer-groups.sh'', ''--bootstrap-server'', bootstrap] ''--command-config'' cfg @ extra"

definition list_groups :: "tools \<Rightarrow> string \<Rightarrow> string \<Rightarrow> string list" where
  "list_groups t bootstrap cfg = consumer_groups t bootstrap cfg [''--list'']"

definition describe_group :: "tools \<Rightarrow> string \<Rightarrow> string \<Rightarrow> string \<Rightarrow> string list" where
  "describe_group t bootstrap cfg grp = consumer_groups t bootstrap cfg [''--describe'', ''--group'', grp]"

definition broker_api_versions :: "tools \<Rightarrow> string \<Rightarrow> string \<Rightarrow> string list" where
  "broker_api_versions t bootstrap cfg =
     with_config [tool_bin t ''kafka-broker-api-versions.sh'', ''--bootstrap-server'', bootstrap] ''--command-config'' cfg"

definition end_offsets :: "tools \<Rightarrow> string \<Rightarrow> string \<Rightarrow> string \<Rightarrow> string list" where
  "end_offsets t bootstrap cfg topic =
     (if version_less (tl_version t) first_get_offsets
      then [tool_bin t ''kafka-run-class.sh'', ''kafka.tools.GetOffsetShell'', ''--broker-list'', bootstrap, ''--topic'', topic, ''--time'', ''-1'']
      else with_config [tool_bin t ''kafka-get-offsets.sh'', ''--bootstrap-server'', bootstrap, ''--topic'', topic, ''--time'', ''-1'']
             ''--command-config'' cfg)"

definition offsets_take_config :: "tools \<Rightarrow> bool" where
  "offsets_take_config t \<longleftrightarrow> \<not> version_less (tl_version t) first_get_offsets"

definition tool_caveats :: "tools \<Rightarrow> string list" where
  "tool_caveats t =
     (if version_less (tl_version t) first_topics_bootstrap
      then [''kafka-topics.sh on Kafka '' @ version_string (tl_version t) @ '' takes only --zookeeper (KIP-377 added --bootstrap-server in '' @
        version_string first_topics_bootstrap @ ''); topics must be created by the broker's own tooling''] else []) @
     (if version_less (tl_version t) first_get_offsets
      then [''GetOffsetShell on Kafka '' @ version_string (tl_version t) @ '' takes no client configuration (KIP-635 added --command-config in '' @
        version_string first_get_offsets @ ''); end offsets are read over the plaintext listener''] else [])"

section \<open>Numbers and fields\<close>

text \<open>\<open>strconv.ParseInt(s, 10, 64)\<close>, and \<open>Atoi\<close> on 64 bits: an optional sign and decimal digits within range.\<close>

definition parse_int64 :: "string \<Rightarrow> int option" where
  "parse_int64 s =
     (case s of
        c # ds \<Rightarrow>
          if c = CHR ''-'' then
            (if ds \<noteq> [] \<and> list_all is_digit ds \<and> int (digits_val ds) \<le> max_int64 + 1 then Some (- int (digits_val ds)) else None)
          else if c = CHR ''+'' then atoi_digits ds
          else atoi_digits s
      | [] \<Rightarrow> None)"

text \<open>An \<open>int64\<close> sum wraps.\<close>

definition wrap64 :: "int \<Rightarrow> int" where
  "wrap64 n = (n + 2 ^ 63) mod 2 ^ 64 - 2 ^ 63"

text \<open>\<open>strings.Fields\<close>: \<open>cur\<close> is the field being read, reversed.\<close>

function fields_from :: "string \<Rightarrow> string \<Rightarrow> string list" where
  "fields_from cur [] = (if cur = [] then [] else [rev cur])"
| "fields_from cur (c # s) =
     (case find (\<lambda>e. e \<noteq> [] \<and> prefix e (c # s)) space_encodings of
        Some e \<Rightarrow> (if cur = [] then [] else [rev cur]) @ fields_from [] (drop (length e - 1) s)
      | None \<Rightarrow> fields_from (c # cur) s)"
  by pat_completeness auto
termination
  by (relation "measure (\<lambda>(cur, s). length s)") auto

definition go_fields :: "string \<Rightarrow> string list" where
  "go_fields s = fields_from [] s"

definition strip_cr :: "string \<Rightarrow> string" where
  "strip_cr s = rev (dropWhile (\<lambda>c. c = CHR 0x0d) (rev s))"

section \<open>End offsets\<close>

text \<open>\<open>offsetLine\<close>: the topic, partition and offset of a row.\<close>

definition is_topic_char :: "char \<Rightarrow> bool" where
  "is_topic_char c \<longleftrightarrow> is_digit c \<or> 65 \<le> (of_char c :: nat) \<and> (of_char c :: nat) \<le> 90 \<or>
     97 \<le> (of_char c :: nat) \<and> (of_char c :: nat) \<le> 122 \<or> c \<in> set ''._-''"

definition offset_line :: "string \<Rightarrow> (string \<times> string \<times> string) option" where
  "offset_line line =
     (case split_on (CHR '':'') line of
        [t, p, off] \<Rightarrow>
          if t \<noteq> [] \<and> list_all is_topic_char t \<and> p \<noteq> [] \<and> list_all is_digit p \<and> list_all is_digit (trim_prefix ''-'' off)
          then Some (t, p, off) else None
      | _ \<Rightarrow> None)"

datatype offsets_error =
    TopicRequired | NoOffsets string | ManyTopics "string list" | BadPartition string
  | NoOffset int string | BadOffset int string | NegativeOffset int string int | PartitionTwice int string

definition offset_rows :: "string \<Rightarrow> string \<Rightarrow> (string \<times> string \<times> string) list" where
  "offset_rows output topic =
     filter (\<lambda>r. topic = [] \<or> fst r = topic)
       (List.map_filter (\<lambda>l. offset_line (trim_space (strip_cr l))) (split_on (CHR 0x0a) output))"

text \<open>The first loop stops at a partition beyond 64 bits.\<close>

fun read_partitions :: "(string \<times> string \<times> string) list \<Rightarrow> offsets_error + (string \<times> int \<times> string) list" where
  "read_partitions [] = Inr []"
| "read_partitions ((t, p, off) # rs) =
     (case atoi_digits p of
        None \<Rightarrow> Inl (BadPartition p)
      | Some n \<Rightarrow> (case read_partitions rs of Inl e \<Rightarrow> Inl e | Inr xs \<Rightarrow> Inr ((t, n, off) # xs)))"

fun add_offsets :: "(int \<rightharpoonup> int) \<Rightarrow> int \<Rightarrow> (string \<times> int \<times> string) list \<Rightarrow> offsets_error + (int \<rightharpoonup> int) \<times> int" where
  "add_offsets per acc [] = Inr (per, acc)"
| "add_offsets per acc ((t, p, off) # rs) =
     (if off = [] then Inl (NoOffset p t)
      else
        (case parse_int64 off of
           None \<Rightarrow> Inl (BadOffset p off)
         | Some n \<Rightarrow>
             if n < 0 then Inl (NegativeOffset p t n)
             else if per p \<noteq> None then Inl (PartitionTwice p t)
             else add_offsets (per(p \<mapsto> n)) (wrap64 (acc + n)) rs))"

definition parse_offsets_of :: "string \<Rightarrow> string \<Rightarrow> offsets_error + (int \<rightharpoonup> int) \<times> int" where
  "parse_offsets_of output topic =
     (case read_partitions (offset_rows output topic) of
        Inl e \<Rightarrow> Inl e
      | Inr rs \<Rightarrow>
          if rs = [] then Inl (NoOffsets topic)
          else if 1 < length (remdups (map fst rs)) then Inl (ManyTopics (remdups (map fst rs)))
          else add_offsets Map.empty 0 rs)"

definition parse_offsets :: "string \<Rightarrow> offsets_error + (int \<rightharpoonup> int) \<times> int" where
  "parse_offsets output = parse_offsets_of output []"

definition parse_topic_offsets :: "string \<Rightarrow> string \<Rightarrow> offsets_error + (int \<rightharpoonup> int) \<times> int" where
  "parse_topic_offsets output topic = (if topic = [] then Inl TopicRequired else parse_offsets_of output topic)"

section \<open>Consumer groups\<close>

record group_offset =
  go_group :: string
  go_topic :: string
  go_partition :: int
  go_current :: int
  go_end :: int
  go_lag :: int

definition offset_cell :: "string \<Rightarrow> int option" where
  "offset_cell s = (if s = ''-'' then Some (- 1) else parse_int64 s)"

definition group_row :: "string \<Rightarrow> string list \<Rightarrow> group_offset option" where
  "group_row grp cells =
     (case (parse_int64 (cells ! 1), offset_cell (cells ! 2), offset_cell (cells ! 3), offset_cell (cells ! 4)) of
        (Some p, Some c, Some e, Some l) \<Rightarrow>
          Some \<lparr>go_group = grp, go_topic = cells ! 0, go_partition = p, go_current = c, go_end = e, go_lag = l\<rparr>
      | _ \<Rightarrow> None)"

text \<open>\<open>layout\<close> is what a header line settled: whether the table has a GROUP column. None: no header yet.\<close>

definition row_layout :: "bool option \<Rightarrow> string list \<Rightarrow> bool" where
  "row_layout layout fs =
     (case layout of
        Some b \<Rightarrow> b
      | None \<Rightarrow> parse_int64 (fs ! 1) = None)"

fun describe_rows :: "bool option \<Rightarrow> string list list \<Rightarrow> group_offset list" where
  "describe_rows layout [] = []"
| "describe_rows layout (fs # rest) =
     (if length fs < 5 then describe_rows layout rest
      else if fs ! 0 = ''GROUP'' then describe_rows (Some (fs ! 1 = ''TOPIC'')) rest
      else if fs ! 0 = ''TOPIC'' then describe_rows (Some False) rest
      else if row_layout layout fs \<and> length fs < 6 then describe_rows layout rest
      else
        (case (if row_layout layout fs then group_row (fs ! 0) (tl fs) else group_row [] fs) of
           None \<Rightarrow> describe_rows layout rest
         | Some r \<Rightarrow> r # describe_rows layout rest))"

definition parse_group_describe :: "string \<Rightarrow> group_offset list" where
  "parse_group_describe output = describe_rows None (map (\<lambda>l. go_fields (strip_cr l)) (split_on (CHR 0x0a) output))"

definition group_offsets_for :: "group_offset list \<Rightarrow> string \<Rightarrow> group_offset list" where
  "group_offsets_for rows topic = filter (\<lambda>r. go_topic r = topic) rows"

section \<open>Client properties\<close>

record sasl =
  sl_mechanism :: string
  sl_username :: string
  sl_password :: string

definition bs :: char where "bs = CHR 0x5c"
definition dq :: char where "dq = CHR 0x22"
definition nl :: char where "nl = CHR 0x0a"

definition plaintext_properties :: string where
  "plaintext_properties = ''security.protocol=PLAINTEXT'' @ [nl]"

definition jaas_quote :: "string \<Rightarrow> string" where
  "jaas_quote s = concat (map (\<lambda>c. if c = bs then [bs, bs, bs, bs] else if c = dq then [bs, bs, dq] else [c]) s)"

text \<open>The class name is the \<open>module\<close> variable of \<open>writeSASL\<close>.\<close>

definition jaas_module :: "string \<Rightarrow> string" where
  "jaas_module mech =
     (if mech = ''PLAIN'' then ''org.apache.kafka.common.security.plain.PlainLoginModule''
      else ''org.apache.kafka.common.security.scram.ScramLoginModule'')"

definition jaas_value :: "string \<Rightarrow> sasl \<Rightarrow> string" where
  "jaas_value mech s =
     jaas_module mech @ '' required username='' @ dq # jaas_quote (sl_username s) @ dq # '' password='' @
     dq # jaas_quote (sl_password s) @ dq # '';''"

text \<open>\<open>upper\<close> is \<open>strings.ToUpper\<close>.\<close>

definition write_sasl :: "(string \<Rightarrow> string) \<Rightarrow> sasl \<Rightarrow> string" where
  "write_sasl upper s =
     (let mech = upper (trim_space (sl_mechanism s))
      in ''sasl.mechanism='' @ mech @ nl # ''sasl.jaas.config='' @ jaas_value mech s @ [nl])"

definition sasl_properties :: "(string \<Rightarrow> string) \<Rightarrow> sasl \<Rightarrow> string" where
  "sasl_properties upper s = ''security.protocol=SASL_PLAINTEXT'' @ nl # write_sasl upper s"

definition tls_properties :: "(string \<Rightarrow> string) \<Rightarrow> string \<Rightarrow> sasl option \<Rightarrow> string" where
  "tls_properties upper ca s =
     (if s = None then ''security.protocol=SSL'' @ [nl] else ''security.protocol=SASL_SSL'' @ [nl]) @
     ''ssl.truststore.type=PEM'' @ nl # ''ssl.truststore.location='' @ ca @ nl # (case s of Some x \<Rightarrow> write_sasl upper x | None \<Rightarrow> [])"

section \<open>The two readers of a JAAS line\<close>

text \<open>
  What \<open>JaasQuote\<close> says of Java: \<open>Properties.load\<close> drops the backslash of an escape it has no meaning for
  and reads the ones it has one for (a Unicode escape is None here) up to the end of the line, and the JAAS parser's tokenizer
  reads a quoted text up to its closing quote, undoing escapes again (an octal one is None).
\<close>

definition escape_of :: "(char \<times> nat) list \<Rightarrow> char \<Rightarrow> char" where
  "escape_of t c = (case map_of t c of Some n \<Rightarrow> char_of n | None \<Rightarrow> c)"

fun properties_load :: "string \<Rightarrow> string option" where
  "properties_load [] = Some []"
| "properties_load (c # s) =
     (if c = nl \<or> c = CHR 0x0d then Some []
      else if c = bs then
        (case s of
           [] \<Rightarrow> Some []
         | d # s' \<Rightarrow>
             if d = CHR ''u'' then None
             else map_option ((#) (escape_of [(CHR ''t'', 9), (CHR ''n'', 10), (CHR ''f'', 12), (CHR ''r'', 13)] d)) (properties_load s'))
      else map_option ((#) c) (properties_load s))"

fun jaas_text :: "string \<Rightarrow> (string \<times> string) option" where
  "jaas_text [] = None"
| "jaas_text (c # s) =
     (if c = nl \<or> c = CHR 0x0d then None
      else if c = dq then Some ([], s)
      else if c = bs then
        (case s of
           [] \<Rightarrow> None
         | d # s' \<Rightarrow>
             if is_digit d then None
             else map_option (apfst ((#) (escape_of [(CHR ''a'', 7), (CHR ''b'', 8), (CHR ''f'', 12), (CHR ''n'', 10), (CHR ''r'', 13), (CHR ''t'', 9), (CHR ''v'', 11)] d))) (jaas_text s'))
      else map_option (apfst ((#) c)) (jaas_text s))"

text \<open>What is left of a quoted text once the properties are loaded: one level of backslashes.\<close>

definition quoted_once :: "string \<Rightarrow> string" where
  "quoted_once s = concat (map (\<lambda>c. if c = bs \<or> c = dq then [bs, c] else [c]) s)"

lemma escape_of_quotes [simp]:
  "escape_of [(CHR ''t'', 9), (CHR ''n'', 10), (CHR ''f'', 12), (CHR ''r'', 13)] bs = bs"
  "escape_of [(CHR ''t'', 9), (CHR ''n'', 10), (CHR ''f'', 12), (CHR ''r'', 13)] dq = dq"
  "escape_of [(CHR ''a'', 7), (CHR ''b'', 8), (CHR ''f'', 12), (CHR ''n'', 10), (CHR ''r'', 13), (CHR ''t'', 9), (CHR ''v'', 11)] bs = bs"
  "escape_of [(CHR ''a'', 7), (CHR ''b'', 8), (CHR ''f'', 12), (CHR ''n'', 10), (CHR ''r'', 13), (CHR ''t'', 9), (CHR ''v'', 11)] dq = dq"
  by (simp_all add: escape_of_def bs_def dq_def)

text \<open>A text both readers take byte for byte: ASCII, without line ends.\<close>

definition one_line :: "string \<Rightarrow> bool" where
  "one_line s \<longleftrightarrow> list_all (\<lambda>c. (of_char c :: nat) < 128 \<and> c \<noteq> nl \<and> c \<noteq> CHR 0x0d) s"

lemma quote_chars: "bs \<noteq> nl" "dq \<noteq> nl" "bs \<noteq> CHR 0x0d" "dq \<noteq> CHR 0x0d" "bs \<noteq> CHR ''u''" "dq \<noteq> bs" "bs \<noteq> dq" "\<not> is_digit bs" "\<not> is_digit dq"
  by (simp_all add: bs_def dq_def nl_def is_digit_def)

lemma quote_parts:
  "jaas_quote [] = []" "jaas_quote (c # s) = (if c = bs then [bs, bs, bs, bs] else if c = dq then [bs, bs, dq] else [c]) @ jaas_quote s"
  "quoted_once [] = []" "quoted_once (c # s) = (if c = bs \<or> c = dq then [bs, c] else [c]) @ quoted_once s"
  by (simp_all add: jaas_quote_def quoted_once_def)

lemma one_line_Cons [simp]: "one_line (c # s) \<longleftrightarrow> (of_char c :: nat) < 128 \<and> c \<noteq> nl \<and> c \<noteq> CHR 0x0d \<and> one_line s"
  by (simp add: one_line_def)

lemma properties_load_plain: "one_line s \<Longrightarrow> bs \<notin> set s \<Longrightarrow> properties_load (s @ t) = map_option ((@) s) (properties_load t)"
  by (cases "properties_load t"; induction s) auto

lemma properties_load_quote: "one_line s \<Longrightarrow> properties_load (jaas_quote s @ t) = map_option ((@) (quoted_once s)) (properties_load t)"
  using quote_chars by (cases "properties_load t"; induction s) (auto simp: quote_parts)

lemma jaas_text_quoted: "one_line s \<Longrightarrow> jaas_text (quoted_once s @ dq # t) = Some (s, t)"
  using quote_chars by (induction s) (auto simp: quote_parts)

section \<open>Splitting into fields\<close>

lemma fields_from_plain: "space_free_end c \<Longrightarrow> fields_from cur (c # s) = fields_from (c # cur) s"
proof -
  assume c: "space_free_end c"
  have "find (\<lambda>e. e \<noteq> [] \<and> prefix e (c # s)) space_encodings = None"
    using space_encodings_ends c by (fastforce simp: find_None_iff prefix_Cons)
  then show ?thesis by simp
qed

lemma find_blank:
  assumes "i < length space_encodings" "space_encodings ! i = [c]" "list_all (\<lambda>e. hd e \<noteq> c) (take i space_encodings)"
  shows "find (\<lambda>e. e \<noteq> [] \<and> prefix e (c # s)) space_encodings = Some [c]"
  unfolding find_Some_iff
proof (intro exI [of _ i] conjI allI impI)
  fix j assume j: "j < i"
  then have "hd (space_encodings ! j) \<noteq> c" using assms(1,3) by (auto simp: list_all_length)
  then show "\<not> (space_encodings ! j \<noteq> [] \<and> prefix (space_encodings ! j) (c # s))" by (auto simp: prefix_Cons)
qed (use assms in simp_all)

lemma fields_from_blank:
  "fields_from cur (CHR '' '' # s) = (if cur = [] then [] else [rev cur]) @ fields_from [] s"
  "fields_from cur (nl # s) = (if cur = [] then [] else [rev cur]) @ fields_from [] s"
proof -
  have c: "CHR '' '' = char_of (32 :: nat)" "nl = char_of (10 :: nat)" by (simp_all add: nl_def) code_simp+
  have "5 < length space_encodings" "space_encodings ! 5 = '' ''" "list_all (\<lambda>e. hd e \<noteq> CHR '' '') (take 5 space_encodings)"
    "1 < length space_encodings" "space_encodings ! 1 = [nl]" "list_all (\<lambda>e. hd e \<noteq> nl) (take 1 space_encodings)"
    unfolding c by (simp_all add: space_encodings_def char_of_eq_iff take_bit_eq_mod)
  then show "fields_from cur (CHR '' '' # s) = (if cur = [] then [] else [rev cur]) @ fields_from [] s"
    "fields_from cur (nl # s) = (if cur = [] then [] else [rev cur]) @ fields_from [] s"
    using find_blank [of 5 "CHR '' ''" s] find_blank [of 1 nl s] by simp_all
qed

lemma fields_from_run: "list_all space_free_end s \<Longrightarrow> fields_from cur s = (if rev cur @ s = [] then [] else [rev cur @ s])"
proof (induction s arbitrary: cur)
  case (Cons c s)
  then show ?case using fields_from_plain [of c cur s] by (simp del: fields_from.simps)
qed simp

section \<open>Properties\<close>

text \<open>
  A credential survives both readers: a user name and a password of one line of ASCII, with any quotes
  and backslashes, come back as they were from the properties loader and then the JAAS tokenizer reading
  the line \<open>SASLProperties\<close> writes.
\<close>

theorem jaas_round_trip:
  assumes "one_line (sl_username s)" "one_line (sl_password s)"
  shows "\<exists>rest user_rest. properties_load (jaas_value mech s) = Some (jaas_module mech @ '' required username='' @ dq # rest) \<and>
     jaas_text rest = Some (sl_username s, '' password='' @ dq # user_rest) \<and> jaas_text user_rest = Some (sl_password s, '';'')"
proof -
  let ?a = "jaas_module mech @ '' required username='' @ [dq]" and ?b = "dq # '' password='' @ [dq]" and ?c = "dq # '';''"
  have o: "one_line ?a" "one_line ?b" "one_line ?c" by (simp_all add: one_line_def jaas_module_def dq_def nl_def)
  have b: "bs \<notin> set ?a" "bs \<notin> set ?b" "bs \<notin> set ?c" by (simp_all add: jaas_module_def bs_def dq_def)
  have e: "properties_load ?c = Some ?c" using properties_load_plain [OF o(3) b(3), of "[]"] by simp
  have "jaas_value mech s = ?a @ jaas_quote (sl_username s) @ ?b @ jaas_quote (sl_password s) @ ?c" by (simp add: jaas_value_def)
  then have l: "properties_load (jaas_value mech s) = Some (?a @ quoted_once (sl_username s) @ ?b @ quoted_once (sl_password s) @ ?c)"
    by (simp only: properties_load_plain [OF o(1) b(1)] properties_load_plain [OF o(2) b(2)]
        properties_load_quote [OF assms(1)] properties_load_quote [OF assms(2)] e option.map)
  let ?r = "quoted_once (sl_password s) @ dq # '';''"
  have "jaas_text ?r = Some (sl_password s, '';'')" by (rule jaas_text_quoted [OF assms(2)])
  moreover have "jaas_text (quoted_once (sl_username s) @ ?b @ ?r) = Some (sl_username s, '' password='' @ dq # ?r)"
    using jaas_text_quoted [OF assms(1), of "'' password='' @ dq # ?r"] by simp
  moreover have "properties_load (jaas_value mech s) =
      Some (jaas_module mech @ '' required username='' @ dq # quoted_once (sl_username s) @ ?b @ ?r)"
    unfolding l by simp
  ultimately show ?thesis by blast
qed

theorem jaas_round_trip_witness:
  "\<exists>rest user_rest. properties_load (jaas_value ''PLAIN'' \<lparr>sl_mechanism = ''plain'', sl_username = ''mm2'', sl_password = [bs, dq, CHR ''x'']\<rparr>) =
       Some (jaas_module ''PLAIN'' @ '' required username='' @ dq # rest) \<and>
     jaas_text rest = Some (''mm2'', '' password='' @ dq # user_rest) \<and> jaas_text user_rest = Some ([bs, dq, CHR ''x''], '';'')"
  using jaas_round_trip [of "\<lparr>sl_mechanism = ''plain'', sl_username = ''mm2'', sl_password = [bs, dq, CHR ''x'']\<rparr>" "''PLAIN''"]
  by (simp add: one_line_def bs_def dq_def nl_def)

lemma wrap64_add [simp]: "wrap64 (wrap64 a + b) = wrap64 (a + b)"
  unfolding wrap64_def by (simp add: algebra_simps mod_simps)

lemma add_offsets_Inr:
  "add_offsets m (wrap64 acc) rs = Inr (per, total_offset) \<longleftrightarrow>
     distinct (map (fst \<circ> snd) rs) \<and> (\<forall>r\<in>set rs. m (fst (snd r)) = None \<and> (\<exists>n\<ge>0. parse_int64 (snd (snd r)) = Some n)) \<and>
     per = m ++ map_of (map (\<lambda>r. (fst (snd r), the (parse_int64 (snd (snd r))))) rs) \<and>
     total_offset = wrap64 (acc + sum_list (map (\<lambda>r. the (parse_int64 (snd (snd r)))) rs))"
proof (induction rs arbitrary: m acc)
  case (Cons r rs)
  obtain t p off where r: "r = (t, p, off)" by (cases r)
  show ?case
  proof (cases "\<exists>n\<ge>0. parse_int64 off = Some n")
    case True
    then obtain n where n: "0 \<le> n" "parse_int64 off = Some n" by blast
    then have ne: "off \<noteq> []" by (auto simp: parse_int64_def)
    let ?tail = "map_of (map (\<lambda>r. (fst (snd r), the (parse_int64 (snd (snd r))))) rs)"
    have up: "m(p \<mapsto> n) ++ ?tail = m ++ ?tail(p \<mapsto> n)" if "p \<notin> set (map (fst \<circ> snd) rs)"
    proof -
      have "?tail p = None" using that by (force simp: map_of_eq_None_iff)
      then show ?thesis by (auto simp: fun_eq_iff map_add_def split: option.splits)
    qed
    have step: "add_offsets m (wrap64 acc) (r # rs) = Inr (per, total_offset) \<longleftrightarrow>
        m p = None \<and> add_offsets (m(p \<mapsto> n)) (wrap64 (acc + n)) rs = Inr (per, total_offset)"
      using n ne unfolding r by simp
    have free: "(\<forall>r\<in>set rs. (m(p \<mapsto> n)) (fst (snd r)) = None \<and> Q r) \<longleftrightarrow>
        p \<notin> set (map (fst \<circ> snd) rs) \<and> (\<forall>r\<in>set rs. m (fst (snd r)) = None \<and> Q r)" for Q by auto
    show ?thesis
      unfolding step Cons.IH free using n up unfolding r
      by (cases "p \<in> set (map (fst \<circ> snd) rs)") (auto simp: add.assoc comp_def simp del: set_map fun_upd_apply)
  next
    case False
    then show ?thesis unfolding r by (auto split: option.splits)
  qed
qed auto

lemma offset_rows_topic: "r \<in> set (offset_rows output topic) \<Longrightarrow> topic \<noteq> [] \<Longrightarrow> fst r = topic"
  by (simp add: offset_rows_def)

lemma read_partitions_topics: "read_partitions rs = Inr xs \<Longrightarrow> map fst xs = map fst rs"
  by (induction rs arbitrary: xs rule: read_partitions.induct) (auto split: option.splits sum.splits)

lemma remdups_constant: "list_all (\<lambda>x. x = a) xs \<Longrightarrow> length (remdups xs) \<le> 1"
proof (induction xs)
  case (Cons x xs)
  then show ?case by (cases xs) (auto simp: list_all_iff)
qed simp

text \<open>
  C40. A reading of a topic's end offsets is exact: \<open>ParseTopicOffsets\<close> returns a result just when the topic is
  named, the listing has a row of it, no partition is listed twice and every row of it carries an offset
  that is not negative; the map is then the rows and the sum is the sum of the rows, wrapped to 64 bits.
  An empty listing and a row without an offset are never a total of zero.
\<close>

theorem parse_topic_offsets_exact:
  "parse_topic_offsets output topic = Inr (per, total_offset) \<longleftrightarrow>
     topic \<noteq> [] \<and>
     (\<exists>rs. read_partitions (offset_rows output topic) = Inr rs \<and> rs \<noteq> [] \<and> distinct (map (fst \<circ> snd) rs) \<and>
        (\<forall>r\<in>set rs. \<exists>n\<ge>0. parse_int64 (snd (snd r)) = Some n) \<and>
        per = map_of (map (\<lambda>r. (fst (snd r), the (parse_int64 (snd (snd r))))) rs) \<and>
        total_offset = wrap64 (sum_list (map (\<lambda>r. the (parse_int64 (snd (snd r)))) rs)))"
proof (cases "read_partitions (offset_rows output topic)")
  case (Inr rs)
  have z: "wrap64 0 = 0" by (simp add: wrap64_def)
  have one: "length (remdups (map fst rs)) \<le> 1" if ne: "topic \<noteq> []"
    unfolding read_partitions_topics [OF Inr]
    by (rule remdups_constant [of topic]) (auto simp: list_all_iff dest: offset_rows_topic [OF _ ne])
  show ?thesis
    using add_offsets_Inr [of Map.empty 0 rs per total_offset] one
    by (auto simp: parse_topic_offsets_def parse_offsets_of_def Inr z)
qed (simp add: parse_topic_offsets_def parse_offsets_of_def)

lemma demo_listing: "read_partitions (offset_rows (''t:0:5'' @ [nl] @ ''t:1:7'') ''t'') = Inr [(''t'', 0, ''5''), (''t'', 1, ''7'')]"
  by code_simp

lemma demo_offsets: "parse_int64 ''5'' = Some 5" "parse_int64 ''7'' = Some 7" "wrap64 12 = 12"
  by code_simp+

theorem parse_topic_offsets_exact_witness:
  "parse_topic_offsets (''t:0:5'' @ [nl] @ ''t:1:7'') ''t'' = Inr ([1 \<mapsto> 7, 0 \<mapsto> 5], 12)"
  unfolding parse_topic_offsets_exact demo_listing
  by (rule conjI, simp, rule exI [of _ "[(''t'', 0, ''5''), (''t'', 1, ''7'')]"]) (simp add: demo_offsets)

end
