(* ===== verification/CommandRunner.thy ===== *)
theory CommandRunner
  imports PodTools MigrationLab
begin

text \<open>
  What the migration commands do to the cluster (\<open>cli/internal/podrun/runner.go\<close>, \<open>pod.go\<close>): commands run one
  after the other, waits between them, and the client pods on top. The cluster, the processes and the context
  are a \<open>world\<close>: it answers each command and each wait, as it likes, from everything that happened before, and
  says how long it took. The clock only goes forward, as \<open>time.Now\<close>'s monotonic reading does, and a wait that is
  not interrupted lasts at least as long as asked. Times are nanoseconds.

  Left out: the environment of a pod's manifest beyond its own fields, and \<open>yaml.Marshal\<close>, an argument.
\<close>

section \<open>The world\<close>

datatype call = Command "string option" "string list" | Pause int

text \<open>What was done and how it ended: a message, or standard output.\<close>

type_synonym event = "call \<times> (string + string)"

record world =
  wd_command :: "event list \<Rightarrow> string option \<Rightarrow> string list \<Rightarrow> (string \<times> string + string) \<times> nat"
  wd_pause :: "event list \<Rightarrow> int \<Rightarrow> string option \<times> nat"

text \<open>The latest event is the first.\<close>

record io =
  io_log :: "event list"
  io_now :: int

definition one_second :: int where "one_second = 1000000000"

text \<open>A failed process is its exit error and its standard error.\<close>

definition command_error :: "string list \<Rightarrow> string \<Rightarrow> string \<Rightarrow> string" where
  "command_error argv err stderr =
     (let shown = join_with '' '' (take 4 argv); msg = trim_space stderr
      in if msg = [] then shown @ '': '' @ err else shown @ '': '' @ err @ '': '' @ msg)"

definition run_command :: "world \<Rightarrow> string option \<Rightarrow> string list \<Rightarrow> io \<Rightarrow> (string + string) \<times> io" where
  "run_command w input argv io =
     (let (answer, dt) = wd_command w (io_log io) input argv;
          r = (case answer of Inl (err, stderr) \<Rightarrow> Inl (command_error argv err stderr) | Inr out \<Rightarrow> Inr out)
      in (r, \<lparr>io_log = (Command input argv, r) # io_log io, io_now = io_now io + int dt\<rparr>))"

definition pause :: "world \<Rightarrow> int \<Rightarrow> io \<Rightarrow> string option \<times> io" where
  "pause w d io =
     (let (e, dt) = wd_pause w (io_log io) d
      in (e, \<lparr>io_log = (Pause d, case e of Some m \<Rightarrow> Inl m | None \<Rightarrow> Inr []) # io_log io,
              io_now = io_now io + int dt + (if e = None then max 0 d else 0)\<rparr>))"

section \<open>Pods\<close>

definition container_name :: string where "container_name = ''client''"
definition default_ready_timeout :: int where "default_ready_timeout = 5 * 60 * one_second"
definition label_test_pod :: string where "label_test_pod = ''kates.io/test-pod''"
definition label_podrun :: string where "label_podrun = ''kates.io/podrun''"
definition label_part_of :: string where "label_part_of = ''app.kubernetes.io/part-of''"
definition entrypoint :: string where "entrypoint = ''trap : TERM INT; sleep infinity & wait''"

record secret_ref =
  sr_secret :: string
  sr_key :: string

text \<open>The two maps of a pod are their entries in the order Go's \<open>range\<close> visits them.\<close>

record pod =
  pd_namespace :: string
  pd_name :: string
  pd_image :: string
  pd_labels :: "string \<rightharpoonup> string"
  pd_env :: "(string \<times> string) list"
  pd_secret_env :: "(string \<times> secret_ref) list"
  pd_pull_policy :: string
  pd_run_as :: int

definition env_name :: "string \<Rightarrow> bool" where
  "env_name s \<longleftrightarrow> s \<noteq> [] \<and> re_word (hd s) \<and> \<not> is_digit (hd s) \<and> list_all re_word s"

datatype pod_error =
    NamespaceRequired | BadNamespace string | NameRequired | BadPodName string | ImageRequired | NegativeUser int
  | BadEnvName string | BadSecretEnvName string | IncompleteRef string | EnvTwice string

definition validate_env :: "(string \<times> string) list \<Rightarrow> pod_error option" where
  "validate_env es = map_option (\<lambda>e. BadEnvName (fst e)) (find (\<lambda>e. \<not> env_name (fst e)) es)"

fun validate_secret_env :: "(string \<times> string) list \<Rightarrow> (string \<times> secret_ref) list \<Rightarrow> pod_error option" where
  "validate_secret_env env [] = None"
| "validate_secret_env env ((k, r) # es) =
     (if \<not> env_name k then Some (BadSecretEnvName k)
      else if sr_secret r = [] \<or> sr_key r = [] then Some (IncompleteRef k)
      else if k \<in> set (map fst env) then Some (EnvTwice k)
      else validate_secret_env env es)"

definition validate_pod :: "pod \<Rightarrow> pod_error option" where
  "validate_pod p =
     (if pd_namespace p = [] then Some NamespaceRequired
      else if \<not> dns_label (pd_namespace p) then Some (BadNamespace (pd_namespace p))
      else if pd_name p = [] then Some NameRequired
      else if \<not> dns_label (pd_name p) then Some (BadPodName (pd_name p))
      else if pd_image p = [] then Some ImageRequired
      else if pd_run_as p < 0 then Some (NegativeUser (pd_run_as p))
      else (case validate_env (pd_env p) of
              Some e \<Rightarrow> Some e
            | None \<Rightarrow> validate_secret_env (pd_env p) (pd_secret_env p)))"

datatype env_value = Plain string | FromSecret string string

record pod_manifest =
  pm_namespace :: string
  pm_name :: string
  pm_labels :: "string \<rightharpoonup> string"
  pm_run_as_user :: "int option"
  pm_container :: string
  pm_image :: string
  pm_pull_policy :: string
  pm_command :: "string list"
  pm_env :: "(string \<times> env_value) list"

text \<open>\<open>sort_names\<close> is \<open>sort.Strings\<close>.\<close>

definition compare_strings :: "string \<Rightarrow> string \<Rightarrow> int" where
  "compare_strings a b = (if a = b then 0 else if ord_class.lexordp (map (of_char :: char \<Rightarrow> nat) a) (map of_char b) then - 1 else 1)"

definition sort_names :: "string list \<Rightarrow> string list" where
  "sort_names = stable_sort compare_strings"

definition env_of :: "pod \<Rightarrow> (string \<times> env_value) list" where
  "env_of p =
     (if ''LOG_DIR'' \<in> set (map fst (pd_env p)) then [] else [(''LOG_DIR'', Plain ''/tmp'')]) @
     map (\<lambda>k. (k, Plain (the (map_of (pd_env p) k)))) (sort_names (map fst (pd_env p))) @
     map (\<lambda>k. (k, case the (map_of (pd_secret_env p) k) of r \<Rightarrow> FromSecret (sr_secret r) (sr_key r))) (sort_names (map fst (pd_secret_env p)))"

definition pod_labels :: "pod \<Rightarrow> string \<rightharpoonup> string" where
  "pod_labels p = (pd_labels p)(label_test_pod \<mapsto> ''true'', label_part_of \<mapsto> ''kates'', label_podrun \<mapsto> ''true'')"

definition manifest_of :: "pod \<Rightarrow> pod_error + pod_manifest" where
  "manifest_of p =
     (case validate_pod p of
        Some e \<Rightarrow> Inl e
      | None \<Rightarrow>
          Inr \<lparr>pm_namespace = pd_namespace p, pm_name = pd_name p, pm_labels = pod_labels p,
               pm_run_as_user = (if 0 < pd_run_as p then Some (pd_run_as p) else None),
               pm_container = container_name, pm_image = pd_image p, pm_pull_policy = pd_pull_policy p,
               pm_command = [''/bin/sh'', ''-c'', entrypoint], pm_env = env_of p\<rparr>)"

section \<open>Running in a pod\<close>

text \<open>\<open>Failed\<close> is a command's own error under what was being done, which is empty for a plain \<open>Exec\<close>.\<close>

datatype run_error =
    PodInvalid pod_error | Failed string string | NotInPod | NoCommand | NoPath | WriteFailed string run_error
  | ShortWrite string nat nat | ReplaceFailed string run_error | NotRendered string

definition pod_path :: "pod \<Rightarrow> string" where
  "pod_path p = pd_namespace p @ ''/'' @ pd_name p"

text \<open>A command that is refused before it runs, or is run.\<close>

datatype invocation = Refused run_error | Invoke "string option" "string list"

definition invoke :: "world \<Rightarrow> invocation \<Rightarrow> io \<Rightarrow> (run_error + string) \<times> io" where
  "invoke w c io =
     (case c of
        Refused e \<Rightarrow> (Inl e, io)
      | Invoke input argv \<Rightarrow>
          (case run_command w input argv io of
             (Inl m, io') \<Rightarrow> (Inl (Failed [] m), io')
           | (Inr out, io') \<Rightarrow> (Inr out, io')))"

definition check_exec :: "pod \<Rightarrow> string list \<Rightarrow> run_error option" where
  "check_exec p argv =
     (if pd_namespace p = [] \<or> pd_name p = [] then Some NotInPod
      else if argv = [] \<or> hd argv = [] then Some NoCommand else None)"

definition exec_call :: "pod \<Rightarrow> string list \<Rightarrow> invocation" where
  "exec_call p argv =
     (case check_exec p argv of
        Some e \<Rightarrow> Refused e
      | None \<Rightarrow> Invoke None ([''kubectl'', ''-n'', pd_namespace p, ''exec'', pd_name p, ''-c'', container_name, ''--''] @ argv))"

definition exec_input_call :: "pod \<Rightarrow> string \<Rightarrow> string list \<Rightarrow> invocation" where
  "exec_input_call p input argv =
     (case check_exec p argv of
        Some e \<Rightarrow> Refused e
      | None \<Rightarrow> Invoke (Some input) ([''kubectl'', ''-n'', pd_namespace p, ''exec'', ''-i'', pd_name p, ''-c'', container_name, ''--''] @ argv))"

definition pod_exec :: "world \<Rightarrow> pod \<Rightarrow> string list \<Rightarrow> io \<Rightarrow> (run_error + string) \<times> io" where
  "pod_exec w p argv = invoke w (exec_call p argv)"

definition pod_exec_input :: "world \<Rightarrow> pod \<Rightarrow> string \<Rightarrow> string list \<Rightarrow> io \<Rightarrow> (run_error + string) \<times> io" where
  "pod_exec_input w p input argv = invoke w (exec_input_call p input argv)"

definition write_file :: "world \<Rightarrow> pod \<Rightarrow> string \<Rightarrow> string \<Rightarrow> io \<Rightarrow> run_error option \<times> io" where
  "write_file w p path content io =
     (if path = [] then (Some NoPath, io)
      else
        (case pod_exec_input w p content [''tee'', path] io of
           (Inl e, io') \<Rightarrow> (Some (WriteFailed path e), io')
         | (Inr echo, io') \<Rightarrow> if echo \<noteq> content then (Some (ShortWrite path (length echo) (length content)), io') else (None, io')))"

definition delete_pod :: "world \<Rightarrow> pod \<Rightarrow> io \<Rightarrow> run_error option \<times> io" where
  "delete_pod w p io =
     (if pd_namespace p = [] \<or> pd_name p = [] then (Some NotInPod, io)
      else
        (case run_command w None [''kubectl'', ''-n'', pd_namespace p, ''delete'', ''pod'', pd_name p, ''--ignore-not-found''] io of
           (Inl m, io') \<Rightarrow> (Some (Failed (''delete pod '' @ pod_path p) m), io')
         | (Inr out, io') \<Rightarrow> (None, io')))"

text \<open>\<open>Duration.Round(time.Second)\<close>, in seconds, at least one.\<close>

definition round_seconds :: "int \<Rightarrow> int" where
  "round_seconds d =
     (if d < 0 then 0
      else if 2 * (d mod one_second) < one_second \<or> max_int64 < d + one_second - d mod one_second then d div one_second
      else d div one_second + 1)"

definition format_timeout :: "int \<Rightarrow> string" where
  "format_timeout d = show_int (max 1 (round_seconds d)) @ ''s''"

definition wait_ready_argv :: "pod \<Rightarrow> int \<Rightarrow> string list" where
  "wait_ready_argv p timeout =
     [''kubectl'', ''-n'', pd_namespace p, ''wait'', ''--for=condition=Ready'', ''pod/'' @ pd_name p, ''--timeout='' @ format_timeout timeout]"

definition apply_argv :: "string \<Rightarrow> string list" where
  "apply_argv ns = [''kubectl'', ''-n'', ns, ''apply'', ''-f'', ''-'']"

definition phase_argv :: "pod \<Rightarrow> string list" where
  "phase_argv p =
     [''kubectl'', ''-n'', pd_namespace p, ''get'', ''pod'', pd_name p, ''--ignore-not-found'', ''-o'', ''jsonpath={.status.phase}'']"

definition create_pod :: "(pod_manifest \<Rightarrow> string + string) \<Rightarrow> world \<Rightarrow> pod \<Rightarrow> io \<Rightarrow> run_error option \<times> io" where
  "create_pod render w p io =
     (case manifest_of p of
        Inl e \<Rightarrow> (Some (PodInvalid e), io)
      | Inr m \<Rightarrow>
          (case render m of
             Inl e \<Rightarrow> (Some (NotRendered e), io)
           | Inr yaml \<Rightarrow>
               (case run_command w (Some yaml) (apply_argv (pd_namespace p)) io of
                  (Inl e, io') \<Rightarrow> (Some (Failed (''create pod '' @ pod_path p) e), io')
                | (Inr out, io') \<Rightarrow> (None, io'))))"

definition wait_ready :: "world \<Rightarrow> pod \<Rightarrow> int \<Rightarrow> io \<Rightarrow> run_error option \<times> io" where
  "wait_ready w p timeout io =
     (case run_command w None (wait_ready_argv p timeout) io of
        (Inl e, io') \<Rightarrow> (Some (Failed (''pod '' @ pod_path p @ '' did not become Ready'') e), io')
      | (Inr out, io') \<Rightarrow> (None, io'))"

definition ensure_pod :: "(pod_manifest \<Rightarrow> string + string) \<Rightarrow> world \<Rightarrow> pod \<Rightarrow> int \<Rightarrow> io \<Rightarrow> run_error option \<times> io" where
  "ensure_pod render w p timeout io =
     (case validate_pod p of
        Some e \<Rightarrow> (Some (PodInvalid e), io)
      | None \<Rightarrow>
          let timeout = (if timeout \<le> 0 then default_ready_timeout else timeout)
          in (case run_command w None (phase_argv p) io of
                (Inl e, io') \<Rightarrow> (Some (Failed (''look up pod '' @ pod_path p) e), io')
              | (Inr out, io') \<Rightarrow>
                  let status = trim_space out; finished = (status = ''Succeeded'' \<or> status = ''Failed'')
                  in (case (if finished then delete_pod w p io' else (None, io')) of
                        (Some e, io'') \<Rightarrow> (Some (ReplaceFailed status e), io'')
                      | (None, io'') \<Rightarrow>
                          (case (if finished \<or> status = [] then create_pod render w p io'' else (None, io'')) of
                             (Some e, io3) \<Rightarrow> (Some e, io3)
                           | (None, io3) \<Rightarrow> wait_ready w p timeout io3))))"

section \<open>Messages\<close>

text \<open>The texts, without the pod a write went to and the time a wait was given.\<close>

definition pod_error_text :: "pod_error \<Rightarrow> string" where
  "pod_error_text e =
     (case e of
        NamespaceRequired \<Rightarrow> ''pod namespace is required''
      | BadNamespace s \<Rightarrow> ''pod namespace '' @ dq # s @ dq # '' is not a DNS label''
      | NameRequired \<Rightarrow> ''pod name is required''
      | BadPodName s \<Rightarrow> ''pod name '' @ dq # s @ dq # '' is not a DNS label''
      | ImageRequired \<Rightarrow> ''pod image is required''
      | NegativeUser n \<Rightarrow> ''pod runAsUser '' @ show_int n @ '' is negative''
      | BadEnvName s \<Rightarrow> ''env name '' @ dq # s @ dq # '' is not an identifier''
      | BadSecretEnvName s \<Rightarrow> ''secret env name '' @ dq # s @ dq # '' is not an identifier''
      | IncompleteRef s \<Rightarrow> ''secret env '' @ s @ '' needs both a Secret name and a key''
      | EnvTwice s \<Rightarrow> ''env '' @ s @ '' is set both as a value and from a Secret'')"

fun run_error_text :: "run_error \<Rightarrow> string" where
  "run_error_text (PodInvalid e) = pod_error_text e"
| "run_error_text (Failed what m) = (if what = [] then m else what @ '': '' @ m)"
| "run_error_text NotInPod = ''pod namespace and name are required''"
| "run_error_text NoCommand = ''exec needs a command''"
| "run_error_text NoPath = ''file path is required''"
| "run_error_text (WriteFailed path e) = ''write '' @ path @ '': '' @ run_error_text e"
| "run_error_text (ShortWrite path n m) = ''write '' @ path @ '': wrote '' @ show_nat n @ '' bytes, expected '' @ show_nat m"
| "run_error_text (ReplaceFailed status e) = ''replace terminated ('' @ status @ '') pod: '' @ run_error_text e"
| "run_error_text (NotRendered e) = ''render pod: '' @ e"

section \<open>Polling\<close>

text \<open>
  The three loops that wait for the cluster (\<open>phaseReplicatedTopic\<close>, \<open>phaseOffsetTranslation\<close>,
  \<open>waitConnectorStates\<close>) have one shape: run a command, judge its answer, stop past the deadline, wait, again.
  \<open>judge\<close> returns the value the loop returns or what it remembers for the next round.
\<close>

datatype poll_gap = TenSeconds | FifteenSeconds

definition gap_of :: "poll_gap \<Rightarrow> int" where
  "gap_of g = (case g of TenSeconds \<Rightarrow> 10 * one_second | FifteenSeconds \<Rightarrow> 15 * one_second)"

datatype ('s, 'r) polled = Polled 'r | Expired 's | Interrupted string 's

lemma gap_pos [simp]: "0 < gap_of g"
  by (cases g) (simp_all add: gap_of_def one_second_def)

lemma invoke_now: "invoke w c io = (r, io') \<Longrightarrow> io_now io \<le> io_now io'"
  by (auto simp: invoke_def run_command_def Let_def split: invocation.splits prod.splits sum.splits)

lemma pause_now: "pause w d io = (None, io') \<Longrightarrow> io_now io + d \<le> io_now io'"
  by (auto simp: pause_def Let_def split: prod.splits)

lemma pause_gap_now: "pause w (gap_of g) io = (None, io') \<Longrightarrow> io_now io < io_now io'"
  using pause_now [of w "gap_of g" io io'] gap_pos [of g] by (simp del: gap_pos)

function poll ::
  "world \<Rightarrow> invocation \<Rightarrow> poll_gap \<Rightarrow> int \<Rightarrow> ('s \<Rightarrow> run_error + string \<Rightarrow> 's + 'r) \<Rightarrow> 's \<Rightarrow> io \<Rightarrow> ('s, 'r) polled \<times> io" where
  "poll w c g deadline judge s io =
     (case invoke w c io of
        (answer, io1) \<Rightarrow>
          (case judge s answer of
             Inr r \<Rightarrow> (Polled r, io1)
           | Inl s' \<Rightarrow>
               if deadline \<le> io_now io1 then (Expired s', io1)
               else
                 (case pause w (gap_of g) io1 of
                    (Some e, io2) \<Rightarrow> (Interrupted e s', io2)
                  | (None, io2) \<Rightarrow> poll w c g deadline judge s' io2)))"
  by pat_completeness auto
termination
  by (relation "measure (\<lambda>(w, c, g, deadline, judge, s, io). nat (deadline - io_now io))")
    (auto dest!: invoke_now [OF sym] pause_gap_now [OF sym])

declare poll.simps [simp del]

section \<open>What an operation adds\<close>

text \<open>The events an operation added satisfy \<open>P\<close>, none was lost, and the clock did not go back.\<close>

definition adds :: "(event \<Rightarrow> bool) \<Rightarrow> io \<Rightarrow> io \<Rightarrow> bool" where
  "adds P io io' \<longleftrightarrow> (\<exists>es. io_log io' = es @ io_log io \<and> list_all P es) \<and> io_now io \<le> io_now io'"

named_theorems adds_rules

lemma adds_refl [simp]: "adds P io io"
  by (simp add: adds_def)

lemma adds_trans: "adds P a b \<Longrightarrow> adds P b c \<Longrightarrow> adds P a c"
proof -
  assume a: "adds P a b" and b: "adds P b c"
  then obtain es fs where "io_log b = es @ io_log a" "list_all P es" "io_log c = fs @ io_log b" "list_all P fs"
    by (auto simp: adds_def)
  then have "io_log c = (fs @ es) @ io_log a \<and> list_all P (fs @ es)" by simp
  then show ?thesis using a b unfolding adds_def by (meson order_trans)
qed

lemma adds_mono: "adds P a b \<Longrightarrow> (\<And>e. P e \<Longrightarrow> Q e) \<Longrightarrow> adds Q a b"
  unfolding adds_def by (auto simp: list_all_iff)

lemma adds_keeps: "adds P a b \<Longrightarrow> e \<in> set (io_log a) \<Longrightarrow> e \<in> set (io_log b)"
  by (auto simp: adds_def)

lemma run_command_adds:
  "run_command w input argv io = (r, io') \<Longrightarrow> (\<And>x. P (Command input argv, x)) \<Longrightarrow> adds P io io'"
  by (auto simp: run_command_def adds_def Let_def split: prod.splits)

lemma run_command_event: "run_command w input argv io = (r, io') \<Longrightarrow> io_log io' = (Command input argv, r) # io_log io"
  by (auto simp: run_command_def Let_def split: prod.splits)

lemma pause_adds: "pause w d io = (e, io') \<Longrightarrow> (\<And>x. P (Pause d, x)) \<Longrightarrow> adds P io io'"
  by (auto simp: pause_def adds_def Let_def split: prod.splits)

lemma invoke_adds:
  "invoke w c io = (r, io') \<Longrightarrow> (\<And>input argv x. c = Invoke input argv \<Longrightarrow> P (Command input argv, x)) \<Longrightarrow> adds P io io'"
  by (auto simp: invoke_def split: invocation.splits prod.splits sum.splits intro: run_command_adds)

lemma invoke_output: "invoke w c io = (Inr out, io') \<Longrightarrow> \<exists>input argv. c = Invoke input argv \<and> (Command input argv, Inr out) \<in> set (io_log io')"
  by (auto simp: invoke_def split: invocation.splits prod.splits sum.splits dest: run_command_event)

lemma poll_cases:
  obtains (polled) a io1 r where "invoke w c io = (a, io1)" "judge s a = Inr r" "poll w c g deadline judge s io = (Polled r, io1)"
  | (expired) a io1 s' where "invoke w c io = (a, io1)" "judge s a = Inl s'" "deadline \<le> io_now io1"
      "poll w c g deadline judge s io = (Expired s', io1)"
  | (interrupted) a io1 s' e io2 where "invoke w c io = (a, io1)" "judge s a = Inl s'" "io_now io1 < deadline"
      "pause w (gap_of g) io1 = (Some e, io2)" "poll w c g deadline judge s io = (Interrupted e s', io2)"
  | (again) a io1 s' io2 where "invoke w c io = (a, io1)" "judge s a = Inl s'" "io_now io1 < deadline"
      "pause w (gap_of g) io1 = (None, io2)" "poll w c g deadline judge s io = poll w c g deadline judge s' io2"
proof -
  obtain a io1 where a: "invoke w c io = (a, io1)" by (cases "invoke w c io")
  obtain e io2 where p: "pause w (gap_of g) io1 = (e, io2)" by (cases "pause w (gap_of g) io1")
  show ?thesis
    using that a p poll.simps [of w c g deadline judge s io]
    by (cases "judge s a"; cases "deadline \<le> io_now io1"; cases e) auto
qed

lemma poll_induct [consumes 0, case_names poll]:
  assumes "\<And>s io. (\<And>a io1 s' io2. invoke w c io = (a, io1) \<Longrightarrow> judge s a = Inl s' \<Longrightarrow> io_now io1 < deadline \<Longrightarrow>
      pause w (gap_of g) io1 = (None, io2) \<Longrightarrow> Q s' io2) \<Longrightarrow> Q s io"
  shows "Q s io"
proof (induction "nat (deadline - io_now io)" arbitrary: s io rule: less_induct)
  case less
  show ?case
  proof (rule assms)
    fix a io1 s' io2
    assume "invoke w c io = (a, io1)" "io_now io1 < deadline" "pause w (gap_of g) io1 = (None, io2)"
    then show "Q s' io2" using invoke_now [of w c io a io1] pause_gap_now [of w g io1 io2] by (intro less) auto
  qed
qed

lemma poll_adds:
  assumes "poll w c g deadline judge s io = (x, io')"
    and "\<And>input argv x. c = Invoke input argv \<Longrightarrow> P (Command input argv, x)" "\<And>x. P (Pause (gap_of g), x)"
  shows "adds P io io'"
proof -
  note i = invoke_adds [of w c _ _ _ P, OF _ assms(2)] and p = pause_adds [of w "gap_of g" _ _ _ P, OF _ assms(3)]
  have "adds P io (snd (poll w c g deadline judge s io))"
  proof (induction s io rule: poll_induct [of w c judge deadline g])
    case (poll s io)
    show ?case
    proof (cases rule: poll_cases [of w c io judge s g deadline])
      case (interrupted a io1 s' e io2)
      then show ?thesis using adds_trans [OF i [OF interrupted(1)] p [OF interrupted(4)]] by simp
    next
      case (again a io1 s' io2)
      then show ?thesis using adds_trans [OF adds_trans [OF i [OF again(1)] p [OF again(4)]] poll [OF again(1-4)]] by simp
    qed (use i in simp_all)
  qed
  then show ?thesis using assms(1) by simp
qed

text \<open>A loop that answers judged the last answer it got, from a state some property of which every round keeps.\<close>

locale judged =
  fixes judge :: "'s \<Rightarrow> run_error + string \<Rightarrow> 's + 'r" and ok :: "'s \<Rightarrow> bool"
  assumes keeps: "ok s \<Longrightarrow> judge s a = Inl s' \<Longrightarrow> ok s'"
begin

lemma poll_ok:
  "ok s \<Longrightarrow> poll w c g deadline judge s io = (x, io') \<Longrightarrow>
     (case x of
        Polled r \<Rightarrow> \<exists>s' a io1. ok s' \<and> invoke w c io1 = (a, io') \<and> judge s' a = Inr r
      | Expired s' \<Rightarrow> ok s'
      | Interrupted e s' \<Rightarrow> ok s')"
proof (induction s io rule: poll_induct [of w c judge deadline g])
  case (poll s io)
  show ?case
  proof (cases rule: poll_cases [of w c io judge s g deadline])
    case (again a io1 s' io2)
    then show ?thesis using poll.IH [OF again(1-4)] keeps [OF poll.prems(1) again(2)] poll.prems(2) by simp
  qed (use poll keeps in \<open>auto\<close>)
qed

end

section \<open>Pods\<close>

text \<open>The command lines a client pod is handled with, none of which depends on what a file holds.\<close>

definition delete_argv :: "pod \<Rightarrow> string list" where
  "delete_argv p = [''kubectl'', ''-n'', pd_namespace p, ''delete'', ''pod'', pd_name p, ''--ignore-not-found'']"

definition tee_argv :: "pod \<Rightarrow> string \<Rightarrow> string list" where
  "tee_argv p path = [''kubectl'', ''-n'', pd_namespace p, ''exec'', ''-i'', pd_name p, ''-c'', container_name, ''--'', ''tee'', path]"

definition pod_argvs :: "pod \<Rightarrow> int \<Rightarrow> string list list" where
  "pod_argvs p timeout =
     [phase_argv p, delete_argv p, apply_argv (pd_namespace p),
      wait_ready_argv p (if timeout \<le> 0 then default_ready_timeout else timeout)]"

definition is_command :: "string list list \<Rightarrow> event \<Rightarrow> bool" where
  "is_command argvs e \<longleftrightarrow> (case fst e of Command input argv \<Rightarrow> argv \<in> set argvs | Pause d \<Rightarrow> False)"

lemma is_command_simps [simp]:
  "is_command argvs (Command input argv, x) \<longleftrightarrow> argv \<in> set argvs" "\<not> is_command argvs (Pause d, x)"
  by (simp_all add: is_command_def)

lemma delete_pod_adds: "delete_pod w p io = (e, io') \<Longrightarrow> adds (is_command [delete_argv p]) io io'"
  by (auto simp: delete_pod_def delete_argv_def [symmetric] split: if_splits prod.splits sum.splits intro: run_command_adds)

lemma write_file_adds: "write_file w p path content io = (e, io') \<Longrightarrow> adds (is_command [tee_argv p path]) io io'"
  by (auto simp: write_file_def pod_exec_input_def exec_input_call_def tee_argv_def
      split: if_splits option.splits prod.splits sum.splits intro: invoke_adds)

lemma create_pod_adds: "create_pod render w p io = (e, io') \<Longrightarrow> adds (is_command [apply_argv (pd_namespace p)]) io io'"
  by (auto simp: create_pod_def split: prod.splits sum.splits intro: run_command_adds)

lemma wait_ready_adds: "wait_ready w p timeout io = (e, io') \<Longrightarrow> adds (is_command [wait_ready_argv p timeout]) io io'"
  by (auto simp: wait_ready_def split: prod.splits sum.splits intro: run_command_adds)

lemma ensure_pod_cases:
  assumes "ensure_pod render w p timeout io = (e, io')"
  defines "t \<equiv> if timeout \<le> 0 then default_ready_timeout else timeout"
  obtains (invalid) x where "validate_pod p = Some x" "e = Some (PodInvalid x)" "io' = io"
  | (unread) m where "validate_pod p = None" "run_command w None (phase_argv p) io = (Inl m, io')" "e \<noteq> None"
  | (undeleted) out io1 x where "validate_pod p = None" "run_command w None (phase_argv p) io = (Inr out, io1)"
      "trim_space out \<in> {''Succeeded'', ''Failed''}" "delete_pod w p io1 = (Some x, io')" "e \<noteq> None"
  | (uncreated) out io1 io2 x where "validate_pod p = None" "run_command w None (phase_argv p) io = (Inr out, io1)"
      "(if trim_space out \<in> {''Succeeded'', ''Failed''} then delete_pod w p io1 else (None, io1)) = (None, io2)"
      "trim_space out \<in> {[], ''Succeeded'', ''Failed''}" "create_pod render w p io2 = (Some x, io')" "e \<noteq> None"
  | (waited) out io1 io2 io3 where "validate_pod p = None" "run_command w None (phase_argv p) io = (Inr out, io1)"
      "(if trim_space out \<in> {''Succeeded'', ''Failed''} then delete_pod w p io1 else (None, io1)) = (None, io2)"
      "(if trim_space out \<in> {[], ''Succeeded'', ''Failed''} then create_pod render w p io2 else (None, io2)) = (None, io3)"
      "wait_ready w p t io3 = (e, io')"
proof (cases "validate_pod p")
  case None
  obtain r1 io1 where r1: "run_command w None (phase_argv p) io = (r1, io1)" by (cases "run_command w None (phase_argv p) io")
  show ?thesis
  proof (cases r1)
    case (Inl m)
    with assms(1) None r1 have "io1 = io'" "e \<noteq> None" by (auto simp: ensure_pod_def Let_def)
    then show ?thesis using unread [OF None, of m] r1 Inl by simp
  next
    case (Inr out)
    let ?fin = "trim_space out \<in> {''Succeeded'', ''Failed''}" and ?make = "trim_space out \<in> {[], ''Succeeded'', ''Failed''}"
    obtain d io2 where d: "(if ?fin then delete_pod w p io1 else (None, io1)) = (d, io2)" by (cases "if ?fin then delete_pod w p io1 else (None, io1)")
    obtain c io3 where c: "(if ?make then create_pod render w p io2 else (None, io2)) = (c, io3)" by (cases "if ?make then create_pod render w p io2 else (None, io2)")
    have run: "ensure_pod render w p timeout io =
        (case d of Some x \<Rightarrow> (Some (ReplaceFailed (trim_space out) x), io2) | None \<Rightarrow> (case c of Some x \<Rightarrow> (Some x, io3) | None \<Rightarrow> wait_ready w p t io3))"
      using d c unfolding ensure_pod_def Let_def t_def [symmetric]
      by (cases ?fin; cases "trim_space out = []") (auto simp: None r1 Inr split: option.splits)
    show ?thesis
    proof (cases d)
      case (Some x)
      with d have "?fin" by (auto split: if_splits)
      then show ?thesis using undeleted [OF None r1 [unfolded Inr], of x] run d assms(1) Some by simp
    next
      case d': None
      show ?thesis
      proof (cases c)
        case (Some x)
        with c have m: "?make" by (auto split: if_splits)
        with c Some have "create_pod render w p io2 = (Some x, io3)" by simp
        then show ?thesis using uncreated [OF None r1 [unfolded Inr] d [unfolded d'] m] run assms(1) Some d' by simp
      next
        case c': None
        show ?thesis using waited [OF None r1 [unfolded Inr] d [unfolded d'] c [unfolded c']] run assms(1) d' c' by simp
      qed
    qed
  qed
qed (use assms invalid in \<open>auto simp: ensure_pod_def\<close>)

lemma round_up: "0 < (g :: int) \<Longrightarrow> (b + g - 1) div g = (b - 1) div g + 1"
proof -
  assume "0 < g"
  then have "((b - 1) + g) div g = (b - 1) div g + 1" by (intro div_add_self2) simp
  then show ?thesis by (simp add: algebra_simps)
qed

lemma ensure_pod_adds: "ensure_pod render w p timeout io = (e, io') \<Longrightarrow> adds (is_command (pod_argvs p timeout)) io io'"
proof -
  assume run: "ensure_pod render w p timeout io = (e, io')"
  let ?P = "is_command (pod_argvs p timeout)"
  have r: "adds ?P x y" if "run_command w None (phase_argv p) x = (z, y)" for x y z
    by (rule run_command_adds [OF that]) (simp add: pod_argvs_def)
  have d: "adds ?P x y" if "delete_pod w p x = (z, y)" for x y z
    by (rule adds_mono [OF delete_pod_adds [OF that]]) (auto simp: is_command_def pod_argvs_def split: call.splits)
  have c: "adds ?P x y" if "create_pod render w p x = (z, y)" for x y z
    by (rule adds_mono [OF create_pod_adds [OF that]]) (auto simp: is_command_def pod_argvs_def split: call.splits)
  have t: "adds ?P x y" if "wait_ready w p (if timeout \<le> 0 then default_ready_timeout else timeout) x = (z, y)" for x y z
    by (rule adds_mono [OF wait_ready_adds [OF that]]) (auto simp: is_command_def pod_argvs_def split: call.splits)
  from run show ?thesis
  proof (cases rule: ensure_pod_cases)
    case (undeleted out io1 x)
    then show ?thesis using adds_trans [OF r d] by blast
  next
    case (uncreated out io1 io2 x)
    have "adds ?P io1 io2" using uncreated(3) d by (auto split: if_splits)
    then show ?thesis using adds_trans [OF adds_trans [OF r [OF uncreated(2)]] c [OF uncreated(5)]] by simp
  next
    case (waited out io1 io2 io3)
    have "adds ?P io1 io2" "adds ?P io2 io3" using waited(3,4) d c by (auto split: if_splits)
    then show ?thesis using adds_trans [OF adds_trans [OF adds_trans [OF r [OF waited(2)]]] t [OF waited(5)]] by simp
  qed (use r in simp_all)
qed

section \<open>Properties\<close>

text \<open>
  When \<open>Ensure\<close> returns without an error the pod could be named, and the commands were, in this order: the look-up
  of its phase, the deletion of one that had finished, the creation from its manifest of one that had finished or was not
  there, and the wait until it is Ready, all successful. A pod that runs is only waited for.
\<close>

theorem ensure_pod_ready:
  assumes "ensure_pod render w p timeout io = (None, io')"
  shows "validate_pod p = None \<and>
    (\<exists>out ended made x. io_log io' =
        (Command None (wait_ready_argv p (if timeout \<le> 0 then default_ready_timeout else timeout)), Inr x) # made @ ended @
        (Command None (phase_argv p), Inr out) # io_log io \<and>
      (if trim_space out \<in> {''Succeeded'', ''Failed''} then \<exists>y. ended = [(Command None (delete_argv p), Inr y)] else ended = []) \<and>
      (if trim_space out \<in> {[], ''Succeeded'', ''Failed''}
       then \<exists>m yaml y. manifest_of p = Inr m \<and> render m = Inr yaml \<and> made = [(Command (Some yaml) (apply_argv (pd_namespace p)), Inr y)]
       else made = []))"
  using assms
proof (cases rule: ensure_pod_cases)
  case (waited out io1 io2 io3)
  let ?t = "if timeout \<le> 0 then default_ready_timeout else timeout"
  have l1: "io_log io1 = (Command None (phase_argv p), Inr out) # io_log io" using run_command_event [OF waited(2)] .
  obtain x where l4: "io_log io' = (Command None (wait_ready_argv p ?t), Inr x) # io_log io3"
    using waited(5) by (auto simp: wait_ready_def split: prod.splits sum.splits dest: run_command_event)
  obtain ended where l2: "io_log io2 = ended @ io_log io1"
    "if trim_space out \<in> {''Succeeded'', ''Failed''} then \<exists>y. ended = [(Command None (delete_argv p), Inr y)] else ended = []"
    using waited(3) by (fastforce simp: delete_pod_def delete_argv_def split: if_splits prod.splits sum.splits dest: run_command_event)
  obtain made where l3: "io_log io3 = made @ io_log io2"
    "if trim_space out \<in> {[], ''Succeeded'', ''Failed''}
     then \<exists>m yaml y. manifest_of p = Inr m \<and> render m = Inr yaml \<and> made = [(Command (Some yaml) (apply_argv (pd_namespace p)), Inr y)] else made = []"
    using waited(4) by (fastforce simp: create_pod_def split: if_splits prod.splits sum.splits dest: run_command_event)
  show ?thesis using waited(1) l1 l2 l3 l4 by (intro conjI exI [of _ out] exI [of _ ended] exI [of _ made] exI [of _ x]) simp_all
qed simp_all

definition calm_world :: world where
  "calm_world = \<lparr>wd_command = (\<lambda>h input argv. (Inr ''Running'', 0)), wd_pause = (\<lambda>h d. (None, 0))\<rparr>"

definition calm_pod :: pod where
  "calm_pod =
     \<lparr>pd_namespace = ''kafka'', pd_name = ''tgt'', pd_image = ''kafka:1'', pd_labels = Map.empty, pd_env = [], pd_secret_env = [],
      pd_pull_policy = [], pd_run_as = 0\<rparr>"

theorem ensure_pod_ready_witness:
  "\<exists>io' x out. ensure_pod (\<lambda>m. Inr ''y'') calm_world calm_pod 0 \<lparr>io_log = [], io_now = 0\<rparr> = (None, io') \<and>
     io_log io' = [(Command None (wait_ready_argv calm_pod default_ready_timeout), Inr x), (Command None (phase_argv calm_pod), Inr out)]"
proof -
  have v: "validate_pod calm_pod = None" by code_simp
  have t: "trim_space ''Running'' = ''Running''" by (rule trim_space_id) (simp_all add: space_free_end_def)
  obtain io' where run: "ensure_pod (\<lambda>m. Inr ''y'') calm_world calm_pod 0 \<lparr>io_log = [], io_now = 0\<rparr> = (None, io')"
    by (simp add: ensure_pod_def v t run_command_def calm_world_def wait_ready_def Let_def)
  have "length (io_log io') = 2"
    using run by (auto simp: ensure_pod_def v t run_command_def calm_world_def wait_ready_def Let_def)
  then show ?thesis using ensure_pod_ready [OF run] run by auto
qed

text \<open>
  A wait for the cluster ends: whatever the cluster answers, a poll runs at most one command per started gap of
  its budget and one more, with a pause after each.
\<close>

theorem polls_bounded:
  "\<exists>es. io_log (snd (poll w c g deadline judge s io)) = es @ io_log io \<and>
     int (length es) \<le> 2 * ((max 0 (deadline - io_now io) + gap_of g - 1) div gap_of g) + 2"
proof (induction s io rule: poll_induct [of w c judge deadline g])
  case (poll s io)
  have one: "\<exists>es. io_log io1 = es @ io_log io \<and> length es \<le> 1" if "invoke w c io = (a, io1)" for a io1
    using that by (auto simp: invoke_def split: invocation.splits prod.splits sum.splits dest: run_command_event)
  have two: "\<exists>es. io_log io2 = es @ io_log io1 \<and> length es = 1" if "pause w (gap_of g) io1 = (e, io2)" for e io1 io2
    using that by (auto simp: pause_def Let_def split: prod.splits)
  have pos: "0 \<le> (max 0 (deadline - io_now io) + gap_of g - 1) div gap_of g"
    using gap_pos [of g] by (simp del: gap_pos add: pos_imp_zdiv_nonneg_iff)
  show ?case
  proof (cases rule: poll_cases [of w c io judge s g deadline])
    case (interrupted a io1 s' e io2)
    then show ?thesis using one [OF interrupted(1)] two [OF interrupted(4)] pos by auto
  next
    case (again a io1 s' io2)
    have "(max 0 (deadline - io_now io2) + gap_of g - 1) div gap_of g \<le> (max 0 (deadline - io_now io) - 1) div gap_of g"
    proof (cases "deadline \<le> io_now io2")
      case True
      have "0 \<le> (max 0 (deadline - io_now io) - 1) div gap_of g"
        using again(3) invoke_now [OF again(1)] gap_pos [of g] by (simp del: gap_pos add: pos_imp_zdiv_nonneg_iff)
      then show ?thesis using True gap_pos [of g] by (simp del: gap_pos)
    next
      case False
      then show ?thesis using again(3) invoke_now [OF again(1)] pause_now [OF again(4)] gap_pos [of g]
        by (intro zdiv_mono1) (simp_all del: gap_pos)
    qed
    also have "\<dots> = (max 0 (deadline - io_now io) + gap_of g - 1) div gap_of g - 1"
      by (subst round_up) (use gap_pos [of g] in \<open>simp_all del: gap_pos\<close>)
    finally show ?thesis using one [OF again(1)] two [OF again(4)] poll [OF again(1-4)] again(5) by fastforce
  qed (use one pos in \<open>fastforce+\<close>)
qed

end
