(* ===== verification/MigrationVerify.thy ===== *)
theory MigrationVerify
  imports CommandRunner MigrationReport MirrorValues
begin

text \<open>
  A lab's verification, its cutover and its rollback (\<open>cli/cmd/migrate_verify.go\<close>, with \<open>waitConnectorStates\<close> of
  \<open>migrate_up.go\<close> and the helm arguments of \<open>migrate.go\<close>): the phases as they run over a \<open>world\<close>, the report they
  write and the command's outcome. What a phase shares with the next is a \<open>mig_state\<close> whose values carry the
  client pods, the committed offsets and the commands so far.

  The libraries the commands call (\<open>encoding/json\<close>, \<open>encoding/base64\<close>, \<open>crypto/sha256\<close>, \<open>yaml.Marshal\<close>,
  \<open>strings.ToUpper\<close>) and the file writer are fields of \<open>outside\<close>. Hints and warnings are output only and left
  out. A lab has a topic, as \<open>New\<close> gives it one.
\<close>

section \<open>State\<close>

record outside =
  ou_world :: world
  ou_render :: "pod_manifest \<Rightarrow> string + string"
  ou_decode :: "string \<Rightarrow> corpus_record option"
  ou_digest :: "string \<Rightarrow> nat list"
  ou_upper :: "string \<Rightarrow> string"
  ou_base64 :: "string \<Rightarrow> string option"
  ou_status :: "string \<Rightarrow> (int \<times> status_doc option) option"
  ou_chart_path :: "string \<Rightarrow> string"
  ou_published :: bool
  ou_write_file :: "string \<Rightarrow> string \<Rightarrow> string option"
  ou_rollback_path :: "string \<Rightarrow> string"

record source_client =
  sc_src :: lab_source
  sc_pod :: pod
  sc_tools :: tools
  sc_cfg :: string
  sc_bootstrap :: string
  sc_plain :: string

record lab_clients =
  lc_sources :: "source_client list"
  lc_target :: pod
  lc_target_tools :: tools
  lc_target_cfg :: string
  lc_target_bootstrap :: string
  lc_ready :: bool

text \<open>\<open>rn_source_image\<close> and \<open>rn_source_mechanism\<close> are the \<open>Values\<close> an external run carries, empty without.\<close>

record lab_run =
  rn_lab :: lab
  rn_timeout :: int
  rn_client_image :: string
  rn_external :: bool
  rn_source_image :: string
  rn_source_mechanism :: string

record lab_values =
  lv_io :: io
  lv_clients :: "lab_clients option"
  lv_committed :: "string \<times> int \<rightharpoonup> int"

type_synonym run_state = "lab_values mig_state"

abbreviation st_io :: "run_state \<Rightarrow> io" where "st_io s \<equiv> lv_io (ms_values s)"

abbreviation with_io :: "io \<Rightarrow> run_state \<Rightarrow> run_state" where
  "with_io x s \<equiv> s\<lparr>ms_values := (ms_values s)\<lparr>lv_io := x\<rparr>\<rparr>"

abbreviation with_report :: "(report \<Rightarrow> report) \<Rightarrow> run_state \<Rightarrow> run_state" where
  "with_report f s \<equiv> s\<lparr>ms_report := f (ms_report s)\<rparr>"

definition row_corpus_produced :: string where "row_corpus_produced = ''corpus produced''"
definition row_source_end_offsets :: string where "row_source_end_offsets = ''source end offsets''"
definition row_source_consumer_group :: string where "row_source_consumer_group = ''source consumer group''"
definition row_replicated_topic :: string where "row_replicated_topic = ''replicated topic exists''"
definition row_record_count :: string where "row_record_count = ''record count''"
definition row_record_content :: string where "row_record_content = ''record content''"
definition row_offset_translation :: string where "row_offset_translation = ''offset translation''"
definition row_cutover_applied :: string where "row_cutover_applied = ''cutover applied''"
definition row_cutover_froze :: string where "row_cutover_froze = ''cutover froze the target''"
definition row_rollback_applied :: string where "row_rollback_applied = ''rollback applied''"
definition default_properties_path :: string where "default_properties_path = ''/tmp/client.properties''"
definition migrate_cutover_settle :: int where "migrate_cutover_settle = 45 * one_second"
definition migrate_cutover_extra :: int where "migrate_cutover_extra = 50"

definition arrow :: string where "arrow = map char_of [226, 134, 146 :: nat]"
definition dash :: string where "dash = map char_of [226, 128, 148 :: nat]"

section \<open>Client pods\<close>

definition client_pod_name :: "string \<Rightarrow> string \<Rightarrow> string" where
  "client_pod_name lab side = ''kates-migrate-'' @ lab @ ''-'' @ side"

definition source_client_side :: "lab \<Rightarrow> lab_source \<Rightarrow> string" where
  "source_client_side l s = (if fan_in l then so_alias s else ''src'')"

definition target_bootstrap_for :: "string \<Rightarrow> string \<Rightarrow> string" where
  "target_bootstrap_for cluster ns = cluster @ ''-kafka-bootstrap.'' @ ns @ ''.svc.'' @ cluster_domain @ '':9092''"

definition run_as_user_for :: "string \<Rightarrow> int" where
  "run_as_user_for img = (if prefix ''apache/kafka:'' img then 1000 else 0)"

definition plaintext_bootstrap :: "lab_source \<Rightarrow> string" where
  "plaintext_bootstrap s =
     (if so_provider s \<noteq> provider_name ProviderLegacy then so_bootstrap s
      else let i = last_index_byte (so_bootstrap s) (CHR '':'')
           in (if 0 \<le> i then take (nat i) (so_bootstrap s) else so_bootstrap s) @ '':9092'')"

definition jsonpath_key :: "string \<Rightarrow> string" where
  "jsonpath_key k = concat (map (\<lambda>c. if c = CHR ''.'' then [CHR 0x5c, c] else [c]) k)"

definition read_secret_key :: "outside \<Rightarrow> string \<Rightarrow> string \<Rightarrow> string \<Rightarrow> io \<Rightarrow> (string + string) \<times> io" where
  "read_secret_key v ns n key io =
     (case run_command (ou_world v) None
         [''kubectl'', ''-n'', ns, ''get'', ''secret'', n, ''-o'', ''jsonpath={.data.'' @ jsonpath_key key @ ''}''] io of
        (Inl m, io') \<Rightarrow> (Inl (''read Secret '' @ ns @ ''/'' @ n @ '': '' @ m), io')
      | (Inr out, io') \<Rightarrow>
          (case ou_base64 v (trim_space out) of
             None \<Rightarrow> (Inl (''secret '' @ ns @ ''/'' @ n @ '' key '' @ key @ '' is not base64''), io')
           | Some raw \<Rightarrow> if raw = [] then (Inl (''secret '' @ ns @ ''/'' @ n @ '' has no '' @ key), io') else (Inr raw, io')))"

definition source_image :: "outside \<Rightarrow> lab_run \<Rightarrow> lab_source \<Rightarrow> io \<Rightarrow> string \<times> io" where
  "source_image v r s io =
     (let expected = (if so_image s \<noteq> [] then so_image s else legacy_image_for (so_from s) (op_registry (rn_lab r)))
      in if so_provider s = provider_name ProviderLegacy \<and> \<not> rn_external r then
           (case run_command (ou_world v) None
               [''kubectl'', ''-n'', so_namespace s, ''get'', ''statefulset'', so_release s @ ''-legacy-kafka'', ''-o'',
                ''jsonpath={.spec.template.spec.containers[0].image}''] io of
              (Inr out, io') \<Rightarrow> if trim_space out \<noteq> [] then (trim_space out, io') else (expected, io')
            | (Inl m, io') \<Rightarrow> (expected, io'))
         else (expected, io))"

definition source_client_of :: "lab_run \<Rightarrow> nat \<Rightarrow> lab_source \<Rightarrow> string \<Rightarrow> source_client" where
  "source_client_of r i s found =
     (let l = rn_lab r; img = (if i = 0 \<and> rn_source_image r \<noteq> [] then rn_source_image r else found)
      in \<lparr>sc_src = s,
          sc_pod = \<lparr>pd_namespace = (if rn_external r then lb_mirror_namespace l else so_namespace s),
                    pd_name = client_pod_name (op_name l) (source_client_side l s), pd_image = img,
                    pd_labels = source_labels l (Some s), pd_env = [], pd_secret_env = [], pd_pull_policy = [],
                    pd_run_as = run_as_user_for img\<rparr>,
          sc_tools = tools_for (so_from s) [], sc_cfg = [], sc_bootstrap = so_bootstrap s,
          sc_plain = (if rn_external r then so_bootstrap s else plaintext_bootstrap s)\<rparr>)"

fun build_sources :: "outside \<Rightarrow> lab_run \<Rightarrow> nat \<Rightarrow> lab_source list \<Rightarrow> io \<Rightarrow> source_client list \<times> io" where
  "build_sources v r i [] io = ([], io)"
| "build_sources v r i (s # ss) io =
     (let (img, io1) = source_image v r s io; (cs, io2) = build_sources v r (Suc i) ss io1
      in (source_client_of r i s img # cs, io2))"

fun ensure_pods :: "outside \<Rightarrow> int \<Rightarrow> pod list \<Rightarrow> io \<Rightarrow> string option \<times> io" where
  "ensure_pods v timeout [] io = (None, io)"
| "ensure_pods v timeout (p # ps) io =
     (case ensure_pod (ou_render v) (ou_world v) p timeout io of
        (Some e, io1) \<Rightarrow> (Some (run_error_text e), io1)
      | (None, io1) \<Rightarrow> ensure_pods v timeout ps io1)"

text \<open>A credential: read into memory, then written into the pod through \<open>tee\<close>'s standard input.\<close>

definition place_credential ::
  "outside \<Rightarrow> pod \<Rightarrow> string \<Rightarrow> string \<Rightarrow> string \<Rightarrow> string \<Rightarrow> io \<Rightarrow> string option \<times> io" where
  "place_credential v p ns secret mechanism user io =
     (case read_secret_key v ns secret ''password'' io of
        (Inl e, io1) \<Rightarrow> (Some e, io1)
      | (Inr pw, io1) \<Rightarrow>
          (case write_file (ou_world v) p default_properties_path
              (sasl_properties (ou_upper v) \<lparr>sl_mechanism = mechanism, sl_username = user, sl_password = pw\<rparr>) io1 of
             (Some e, io2) \<Rightarrow> (Some (run_error_text e), io2)
           | (None, io2) \<Rightarrow> (None, io2)))"

fun place_sources :: "outside \<Rightarrow> lab_run \<Rightarrow> nat \<Rightarrow> source_client list \<Rightarrow> io \<Rightarrow> string option \<times> source_client list \<times> io" where
  "place_sources v r i [] io = (None, [], io)"
| "place_sources v r i (c # cs) io =
     (let x = sc_src c
      in if auth_of x = source_auth_none then
           (let (e, cs', io') = place_sources v r (Suc i) cs io in (e, c # cs', io'))
         else
           (let mechanism = (if rn_source_mechanism r \<noteq> [] \<and> i = 0 then rn_source_mechanism r else mechanism_of x)
            in (case place_credential v (sc_pod c) (lb_mirror_namespace (rn_lab r)) (so_secret x) mechanism (so_user x) io of
                  (Some e, io1) \<Rightarrow> (Some e, c # cs, io1)
                | (None, io1) \<Rightarrow>
                    (let (e, cs', io') = place_sources v r (Suc i) cs io1 in (e, c\<lparr>sc_cfg := default_properties_path\<rparr> # cs', io')))))"

definition target_pod :: "lab_run \<Rightarrow> pod" where
  "target_pod r =
     (let l = rn_lab r
      in \<lparr>pd_namespace = lb_mirror_namespace l, pd_name = client_pod_name (op_name l) ''tgt'', pd_image = rn_client_image r,
          pd_labels = role_labels l role_mirror, pd_env = [], pd_secret_env = [], pd_pull_policy = [], pd_run_as = 0\<rparr>)"

text \<open>
  The clients are registered before their pods exist. After a failure only their pods are used, to delete them.
\<close>

abbreviation with_clients :: "lab_clients option \<Rightarrow> io \<Rightarrow> run_state \<Rightarrow> run_state" where
  "with_clients c x s \<equiv> s\<lparr>ms_values := (ms_values s)\<lparr>lv_io := x, lv_clients := c\<rparr>\<rparr>"

definition ensure_clients :: "outside \<Rightarrow> lab_run \<Rightarrow> run_state \<Rightarrow> run_state \<times> string option" where
  "ensure_clients v r s =
     (if (case lv_clients (ms_values s) of Some c \<Rightarrow> lc_ready c | None \<Rightarrow> False) then (s, None)
      else
        (let l = rn_lab r;
             (cs, io1) = build_sources v r 0 (lab_sources l) (st_io s);
             c = \<lparr>lc_sources = cs, lc_target = target_pod r, lc_target_tools = tools_for (op_to l) [], lc_target_cfg = default_properties_path,
                  lc_target_bootstrap = target_bootstrap_for (op_target_cluster l) (op_target_namespace l), lc_ready = False\<rparr>
         in (case ensure_pods v (rn_timeout r) (map sc_pod cs @ [target_pod r]) io1 of
               (Some e, io2) \<Rightarrow> (with_clients (Some c) io2 s, Some e)
             | (None, io2) \<Rightarrow>
                 (case place_credential v (target_pod r) (op_target_namespace l) target_user ''SCRAM-SHA-512'' target_user io2 of
                    (Some e, io3) \<Rightarrow> (with_clients (Some c) io3 s, Some e)
                  | (None, io3) \<Rightarrow>
                      (let (e, cs', io4) = place_sources v r 0 cs io3
                       in (with_clients (Some (c\<lparr>lc_sources := cs', lc_ready := (e = None)\<rparr>)) io4 s, e))))))"

text \<open>The deletions' errors are only reported.\<close>

fun delete_pods :: "outside \<Rightarrow> pod list \<Rightarrow> io \<Rightarrow> io" where
  "delete_pods v [] io = io"
| "delete_pods v (p # ps) io = delete_pods v ps (snd (delete_pod (ou_world v) p io))"

definition delete_clients :: "outside \<Rightarrow> run_state \<Rightarrow> run_state" where
  "delete_clients v s =
     (case lv_clients (ms_values s) of
        None \<Rightarrow> s
      | Some c \<Rightarrow> with_clients None (delete_pods v (lc_target c # map sc_pod (lc_sources c)) (st_io s)) s)"

text \<open>The clients a phase after \<open>clients\<close> works with.\<close>

definition sources_of :: "run_state \<Rightarrow> source_client list" where
  "sources_of s = (case lv_clients (ms_values s) of Some c \<Rightarrow> lc_sources c | None \<Rightarrow> [])"

section \<open>Seeding the source\<close>

definition corpus :: "outside \<Rightarrow> lab_run \<Rightarrow> string list" where
  "corpus v r = records (ou_digest v) (op_name (rn_lab r)) (op_messages (rn_lab r))"

definition input_of :: "string list \<Rightarrow> string" where
  "input_of ls = join_with [nl] ls @ [nl]"

definition creates_topics :: "lab_run \<Rightarrow> source_client \<Rightarrow> bool" where
  "creates_topics r c \<longleftrightarrow> rn_external r \<and> \<not> version_less (tl_version (sc_tools c)) \<lparr>major = 2, minor = 2, patch = 0\<rparr>"

fun create_topics :: "outside \<Rightarrow> source_client \<Rightarrow> string list \<Rightarrow> io \<Rightarrow> io" where
  "create_topics v c [] io = io"
| "create_topics v c (t # ts) io =
     create_topics v c ts
       (snd (pod_exec (ou_world v) (sc_pod c) (create_topic (sc_tools c) (sc_bootstrap c) (sc_cfg c) t source_topic_partitions 1) io))"

fun produce_topics :: "outside \<Rightarrow> source_client \<Rightarrow> string \<Rightarrow> string list \<Rightarrow> io \<Rightarrow> (string \<times> run_error) option \<times> io" where
  "produce_topics v c input [] io = (None, io)"
| "produce_topics v c input (t # ts) io =
     (case pod_exec_input (ou_world v) (sc_pod c) input (producer_args (sc_tools c) (sc_bootstrap c) (sc_cfg c) t) io of
        (Inl e, io1) \<Rightarrow> (Some (t, e), io1)
      | (Inr out, io1) \<Rightarrow> produce_topics v c input ts io1)"

fun seed_sources :: "outside \<Rightarrow> lab_run \<Rightarrow> source_client list \<Rightarrow> run_state \<Rightarrow> run_state \<times> string option" where
  "seed_sources v r [] s = (s, None)"
| "seed_sources v r (c # cs) s =
     (let l = rn_lab r; x = sc_src c; row = row_for l row_corpus_produced (Some x);
          io1 = (if creates_topics r c then create_topics v c (so_topics x) (st_io s) else st_io s)
      in (case produce_topics v c (input_of (corpus v r)) (so_topics x) io1 of
            (Some (t, e), io2) \<Rightarrow>
              (with_report (row_fail row ''the producer did not report success'') (with_io io2 s),
               Some (''produce to '' @ t @ '' on '' @ so_alias x @ '': '' @ run_error_text e))
          | (None, io2) \<Rightarrow>
              seed_sources v r cs
                (with_report (row_pass row (show_nat (length (corpus v r)) @ '' records '' @ arrow @ '' '' @ join_with '', '' (so_topics x)))
                  (with_io io2 s))))"

definition phase_seed :: "outside \<Rightarrow> lab_run \<Rightarrow> run_state \<Rightarrow> run_state \<times> string option" where
  "phase_seed v r s =
     (case seed_sources v r (sources_of s) s of
        (s', Some e) \<Rightarrow> (s', Some e)
      | (s', None) \<Rightarrow> (s'\<lparr>ms_produced := corpus v r\<rparr>, None))"

section \<open>End offsets\<close>

definition reading_of :: "string \<Rightarrow> run_error + string \<Rightarrow> offset_sum" where
  "reading_of topic answer =
     (case answer of
        Inl e \<Rightarrow> no_reading
      | Inr out \<Rightarrow> (case parse_topic_offsets out topic of Inl e \<Rightarrow> no_reading | Inr (per, n) \<Rightarrow> measured n))"

definition source_end_offsets :: "outside \<Rightarrow> source_client \<Rightarrow> string \<Rightarrow> io \<Rightarrow> offset_sum \<times> io" where
  "source_end_offsets v c topic io =
     (let (bootstrap, cfg) = (if offsets_take_config (sc_tools c) then (sc_bootstrap c, sc_cfg c) else (sc_plain c, []))
      in apfst (reading_of topic) (pod_exec (ou_world v) (sc_pod c) (end_offsets (sc_tools c) bootstrap cfg topic) io))"

definition target_end_offsets :: "outside \<Rightarrow> lab_clients \<Rightarrow> string \<Rightarrow> io \<Rightarrow> offset_sum \<times> io" where
  "target_end_offsets v c topic io =
     apfst (reading_of topic)
       (pod_exec (ou_world v) (lc_target c) (end_offsets (lc_target_tools c) (lc_target_bootstrap c) (lc_target_cfg c) topic) io)"

fun sum_from :: "int \<Rightarrow> offset_sum list \<Rightarrow> offset_sum" where
  "sum_from n [] = measured n"
| "sum_from n (o' # os) = (if os_measured o' then sum_from (wrap64 (n + os_sum o')) os else no_reading)"

definition sum_offsets :: "offset_sum list \<Rightarrow> offset_sum" where
  "sum_offsets os = sum_from 0 os"

text \<open>A loop that keeps each step's result.\<close>

fun collect :: "('a \<Rightarrow> io \<Rightarrow> 'b \<times> io) \<Rightarrow> 'a list \<Rightarrow> io \<Rightarrow> 'b list \<times> io" where
  "collect f [] io = ([], io)"
| "collect f (x # xs) io = (let (y, io1) = f x io; (ys, io2) = collect f xs io1 in (y # ys, io2))"

fun offsets_of_sources :: "outside \<Rightarrow> lab_run \<Rightarrow> source_client list \<Rightarrow> run_state \<Rightarrow> offset_sum list \<times> run_state" where
  "offsets_of_sources v r [] s = ([], s)"
| "offsets_of_sources v r (c # cs) s =
     (let x = sc_src c; row = row_for (rn_lab r) row_source_end_offsets (Some x);
          (readings, io1) = collect (source_end_offsets v c) (so_topics x) (st_io s);
          n = sum_offsets readings; want = wrap64 (op_messages (rn_lab r) * int (length (so_topics x)));
          s1 = (if os_measured n \<and> want \<le> os_sum n
                then with_report (row_pass row (show_int (os_sum n) @ '' across all partitions'')) (with_io io1 s)
                else with_report (row_fail row (''expected >= '' @ show_int want @ '', measured '' @ CHR 0x27 # offset_string n @ [CHR 0x27])) (with_io io1 s));
          (ns, s2) = offsets_of_sources v r cs s1
      in (n # ns, s2))"

definition phase_source_offsets :: "outside \<Rightarrow> lab_run \<Rightarrow> run_state \<Rightarrow> run_state \<times> string option" where
  "phase_source_offsets v r s =
     (let (ns, s1) = offsets_of_sources v r (sources_of s) s in (s1\<lparr>ms_source_end := sum_offsets ns\<rparr>, None))"

section \<open>The consumer group on the source\<close>

definition half_of :: "int \<Rightarrow> int" where
  "half_of n = (if n div 2 < 1 then 1 else n div 2)"

definition sixty_seconds :: int where "sixty_seconds = 60 * one_second"

definition consume_half :: "outside \<Rightarrow> lab_run \<Rightarrow> source_client \<Rightarrow> string \<Rightarrow> io \<Rightarrow> (run_error + string) \<times> io" where
  "consume_half v r c t =
     pod_exec (ou_world v) (sc_pod c)
       (consumer_args (sc_tools c) (sc_bootstrap c) (sc_cfg c) t (lb_consumer_group (rn_lab r)) (half_of (op_messages (rn_lab r))) True sixty_seconds)"

definition committed_rows :: "run_error + string \<Rightarrow> group_offset list" where
  "committed_rows answer = (case answer of Inl e \<Rightarrow> [] | Inr out \<Rightarrow> filter (\<lambda>g. 0 \<le> go_current g) (parse_group_describe out))"

definition record_committed :: "group_offset list \<Rightarrow> (string \<times> int \<rightharpoonup> int) \<Rightarrow> (string \<times> int \<rightharpoonup> int)" where
  "record_committed gs m = fold (\<lambda>g m. m((go_topic g, go_partition g) \<mapsto> go_current g)) gs m"

fun groups_of_sources ::
  "outside \<Rightarrow> lab_run \<Rightarrow> source_client list \<Rightarrow> (string \<times> int \<rightharpoonup> int) \<Rightarrow> int \<Rightarrow> run_state \<Rightarrow> (string \<times> int \<rightharpoonup> int) \<times> int \<times> run_state" where
  "groups_of_sources v r [] m n s = (m, n, s)"
| "groups_of_sources v r (c # cs) m n s =
     (let l = rn_lab r; row = row_for l row_source_consumer_group (Some (sc_src c));
          (consumed, io1) = collect (consume_half v r c) (so_topics (sc_src c)) (st_io s);
          (answer, io2) = pod_exec (ou_world v) (sc_pod c) (describe_group (sc_tools c) (sc_bootstrap c) (sc_cfg c) (lb_consumer_group l)) io1;
          gs = committed_rows answer; k = int (length gs);
          s1 = (if 0 < k then with_report (row_pass row (lb_consumer_group l @ '' committed on '' @ show_int k @ '' partition(s)'')) (with_io io2 s)
                else with_report (row_fail row (''no committed offset '' @ dash @ '' offset translation cannot be tested'')) (with_io io2 s))
      in groups_of_sources v r cs (record_committed gs m) (n + k) s1)"

definition phase_source_group :: "outside \<Rightarrow> lab_run \<Rightarrow> run_state \<Rightarrow> run_state \<times> string option" where
  "phase_source_group v r s =
     (let (m, n, s1) = groups_of_sources v r (sources_of s) Map.empty 0 s
      in (s1\<lparr>ms_values := (ms_values s1)\<lparr>lv_committed := m\<rparr>, ms_group_partitions := n\<rparr>, None))"

section \<open>The replicated topics\<close>

definition all_listed :: "string list \<Rightarrow> string list \<Rightarrow> bool" where
  "all_listed want listed \<longleftrightarrow> list_all (\<lambda>t. t \<in> set listed) want"

definition judge_topics :: "string list \<Rightarrow> string list \<Rightarrow> run_error + string \<Rightarrow> string list + unit" where
  "judge_topics want listed answer =
     (case answer of
        Inl e \<Rightarrow> Inl listed
      | Inr out \<Rightarrow> if all_listed want (go_fields out) then Inr () else Inl (go_fields out))"

definition first_missing :: "string list \<Rightarrow> string list \<Rightarrow> string" where
  "first_missing want listed = (case find (\<lambda>t. t \<notin> set listed) want of Some t \<Rightarrow> t | None \<Rightarrow> hd want)"

definition never_appeared :: string where "never_appeared = ''the replicated topic never appeared on the target''"

text \<open>A call of the target's tools; without clients Go would panic, and no phase comes here without them.\<close>

definition target_call :: "run_state \<Rightarrow> (tools \<Rightarrow> string \<Rightarrow> string \<Rightarrow> string list) \<Rightarrow> invocation" where
  "target_call s f =
     (case lv_clients (ms_values s) of
        Some c \<Rightarrow> exec_call (lc_target c) (f (lc_target_tools c) (lc_target_bootstrap c) (lc_target_cfg c))
      | None \<Rightarrow> Refused NotInPod)"

definition phase_replicated_topic :: "outside \<Rightarrow> lab_run \<Rightarrow> run_state \<Rightarrow> run_state \<times> string option" where
  "phase_replicated_topic v r s =
     (let want = replicated_topics (rn_lab r)
      in (case poll (ou_world v) (target_call s list_topics) FifteenSeconds (io_now (st_io s) + rn_timeout r) (judge_topics want) [] (st_io s) of
            (Polled u, io1) \<Rightarrow> (with_report (row_pass row_replicated_topic (join_with '', '' want @ '' on the target'')) (with_io io1 s), None)
          | (Expired listed, io1) \<Rightarrow>
              (with_report (row_fail row_replicated_topic (first_missing want listed @ '' never appeared'')) (with_io io1 s), Some never_appeared)
          | (Interrupted e listed, io1) \<Rightarrow> (with_io io1 s, Some e)))"

section \<open>Reading the corpus back\<close>

definition read_back_timeout :: int where "read_back_timeout = 120 * one_second"

definition read_back_call :: "lab_run \<Rightarrow> run_state \<Rightarrow> string \<Rightarrow> nat \<Rightarrow> invocation" where
  "read_back_call r s replicated k =
     target_call s (\<lambda>t b cfg. consumer_args t b cfg replicated (lb_verify_group (rn_lab r) @ ''-'' @ show_nat k)
        (2 * op_messages (rn_lab r)) True read_back_timeout)"

definition output_of :: "run_error + string \<Rightarrow> string" where
  "output_of answer = (case answer of Inl e \<Rightarrow> [] | Inr out \<Rightarrow> out)"

text \<open>What each topic gave: its name on the target and the corpus lines of the consumer's output.\<close>

fun read_topics :: "outside \<Rightarrow> lab_run \<Rightarrow> run_state \<Rightarrow> lab_source \<Rightarrow> string list \<Rightarrow> nat \<Rightarrow> io \<Rightarrow> (string \<times> string list) list \<times> io" where
  "read_topics v r s x [] k io = ([], io)"
| "read_topics v r s x (t # ts) k io =
     (let replicated = replicated_topic_of (rn_lab r) (Some x) t;
          (answer, io1) = invoke (ou_world v) (read_back_call r s replicated k) io;
          (rest, io2) = read_topics v r s x ts (Suc k) io1
      in ((replicated, parse_consumed (ou_decode v) (output_of answer)) # rest, io2))"

definition missing_of :: "outside \<Rightarrow> lab_run \<Rightarrow> (string \<times> string list) list \<Rightarrow> string list" where
  "missing_of v r gots =
     concat (map (\<lambda>(t, got). map (\<lambda>i. t @ ''#'' @ show_int i) (record_ids (ou_decode v) (fst (corpus_diff (corpus v r) got)))) gots)"

definition count_row :: "lab_run \<Rightarrow> lab_source \<Rightarrow> (string \<times> string list) list \<Rightarrow> report \<Rightarrow> report" where
  "count_row r x gots =
     (let row = row_for (rn_lab r) row_record_count (Some x); want = wrap64 (op_messages (rn_lab r) * int (length (so_topics x)));
          n = sum_list (map (\<lambda>g. distinct_count (snd g)) gots); ls = show_nat (sum_list (map (\<lambda>g. length (snd g)) gots))
      in if want \<le> n
         then row_pass row (show_int n @ '' distinct of '' @ show_int want @ '' received ('' @ ls @ '' lines '' @ dash @ '' duplicates are at-least-once, not a fault)'')
         else row_fail row (''only '' @ show_int n @ '' distinct of '' @ show_int want @ '' arrived ('' @ ls @ '' lines)''))"

definition ellipsis :: string where "ellipsis = map char_of [226, 128, 166 :: nat]"

definition content_row :: "outside \<Rightarrow> lab_run \<Rightarrow> lab_source \<Rightarrow> (string \<times> string list) list \<Rightarrow> report \<Rightarrow> report" where
  "content_row v r x gots =
     (let row = row_for (rn_lab r) row_record_content (Some x); missing = missing_of v r gots
      in if missing = [] then row_pass row (''every record 1..'' @ show_int (op_messages (rn_lab r)) @ '' present on the target'')
         else row_fail row (''missing from the target: '' @ join_with '' '' (take 5 missing) @ ellipsis @ '' ('' @ show_nat (length missing) @ '' in all)''))"

fun read_sources :: "outside \<Rightarrow> lab_run \<Rightarrow> lab_source list \<Rightarrow> nat \<Rightarrow> string list \<Rightarrow> run_state \<Rightarrow> string list \<times> run_state" where
  "read_sources v r [] k acc s = (acc, s)"
| "read_sources v r (x # xs) k acc s =
     (let (gots, io1) = read_topics v r s x (so_topics x) k (st_io s)
      in read_sources v r xs (k + length (so_topics x)) (acc @ concat (map snd gots))
           (with_report (content_row v r x gots) (with_report (count_row r x gots) (with_io io1 s))))"

definition phase_read_back :: "outside \<Rightarrow> lab_run \<Rightarrow> run_state \<Rightarrow> run_state \<times> string option" where
  "phase_read_back v r s = (let (got, s1) = read_sources v r (lab_sources (rn_lab r)) 0 [] s in (s1\<lparr>ms_consumed := got\<rparr>, None))"

section \<open>The translated offsets\<close>

definition translated_rows :: "lab_run \<Rightarrow> lab_source \<Rightarrow> group_offset list \<Rightarrow> (string \<times> group_offset) list" where
  "translated_rows r x rows =
     concat (map (\<lambda>t. map (Pair t) (filter (\<lambda>g. 0 \<le> go_current g) (group_offsets_for rows (replicated_topic_of (rn_lab r) (Some x) t)))) (so_topics x))"

definition source_position :: "(string \<times> int \<rightharpoonup> int) \<Rightarrow> string \<times> group_offset \<Rightarrow> int option" where
  "source_position committed p = committed (fst p, go_partition (snd p))"

definition position_detail :: "(string \<times> int \<rightharpoonup> int) \<Rightarrow> string \<times> group_offset \<Rightarrow> string" where
  "position_detail committed p =
     go_topic (snd p) @ ''/'' @ show_int (go_partition (snd p)) @ ''='' @ show_int (go_current (snd p)) @
     (case source_position committed p of Some n \<Rightarrow> '' (source '' @ show_int n @ '')'' | None \<Rightarrow> [])"

definition translation_detail :: "lab_run \<Rightarrow> (string \<times> int \<rightharpoonup> int) \<Rightarrow> (string \<times> group_offset) list \<Rightarrow> string" where
  "translation_detail r committed ps =
     (let exact = filter (\<lambda>p. source_position committed p = Some (go_current (snd p))) ps;
          behind = filter (\<lambda>p. source_position committed p \<notin> {None, Some (go_current (snd p))}) ps
      in lb_consumer_group (rn_lab r) @ '' has a committed position on the target: '' @ join_with '' '' (map (position_detail committed) ps) @
         (if behind \<noteq> [] then '' '' @ dash @ '' '' @ show_nat (length behind) @
            '' partition(s) trail the source's position (offset syncs are emitted every offset.lag.max records, so the translated position is conservative)''
          else if exact \<noteq> [] then '' '' @ dash @ '' equal to the source's committed position'' else []))"

fun translate_pending ::
  "lab_run \<Rightarrow> (string \<times> int \<rightharpoonup> int) \<Rightarrow> group_offset list \<Rightarrow> lab_source list \<Rightarrow> report \<Rightarrow> lab_source list \<times> report" where
  "translate_pending r committed rows [] p = ([], p)"
| "translate_pending r committed rows (x # xs) p =
     (let ts = translated_rows r x rows
      in if ts = [] then (let (still, p') = translate_pending r committed rows xs p in (x # still, p'))
         else translate_pending r committed rows xs
                (row_pass (row_for (rn_lab r) row_offset_translation (Some x)) (translation_detail r committed ts) p))"

definition judge_groups ::
  "lab_run \<Rightarrow> (string \<times> int \<rightharpoonup> int) \<Rightarrow> lab_source list \<times> report \<Rightarrow> run_error + string \<Rightarrow> (lab_source list \<times> report) + report" where
  "judge_groups r committed sp answer =
     (case answer of
        Inl e \<Rightarrow> Inl sp
      | Inr out \<Rightarrow>
          (let (still, p) = translate_pending r committed (parse_group_describe out) (fst sp) (snd sp)
           in if still = [] then Inr p else Inl (still, p)))"

definition phase_offset_translation :: "outside \<Rightarrow> lab_run \<Rightarrow> run_state \<Rightarrow> run_state \<times> string option" where
  "phase_offset_translation v r s =
     (let l = rn_lab r; committed = lv_committed (ms_values s)
      in (case poll (ou_world v) (target_call s (\<lambda>t b cfg. describe_group t b cfg (lb_consumer_group l))) FifteenSeconds
                (io_now (st_io s) + rn_timeout r) (judge_groups r committed) (lab_sources l, ms_report s) (st_io s) of
            (Polled p, io1) \<Rightarrow> (with_report (\<lambda>_. p) (with_io io1 s), None)
          | (Expired (pending, p), io1) \<Rightarrow>
              (with_report (\<lambda>_. fold (\<lambda>x. row_fail (row_for l row_offset_translation (Some x)) (lb_consumer_group l @ '' never appeared on the target'')) pending p)
                 (with_io io1 s), None)
          | (Interrupted e (pending, p), io1) \<Rightarrow> (with_report (\<lambda>_. p) (with_io io1 s), Some e)))"

section \<open>Cutover and rollback\<close>

definition helm_argv :: "string list \<Rightarrow> string list" where
  "helm_argv args = ''helm'' # args"

definition ensure_mirror_chart_deps :: "outside \<Rightarrow> io \<Rightarrow> string option \<times> io" where
  "ensure_mirror_chart_deps v io =
     (if ou_published v then (None, io)
      else
        (case run_command (ou_world v) None
            (helm_argv [''dependency'', ''update'', ''--skip-refresh'', ou_chart_path v mirror_chart_path]) io of
           (Inl e, io1) \<Rightarrow> (Some (''build the '' @ ou_chart_path v mirror_chart_path @ '' dependencies: '' @ e), io1)
         | (Inr out, io1) \<Rightarrow> (None, io1)))"

definition helm_upgrade_args :: "outside \<Rightarrow> string \<Rightarrow> string \<Rightarrow> string \<Rightarrow> int \<Rightarrow> string list" where
  "helm_upgrade_args v release ns values timeout =
     [''upgrade'', release, ou_chart_path v mirror_chart_path, ''-n'', ns, ''--reuse-values'', ''-f'', values, ''--timeout'', format_timeout timeout]"

definition helm_cutover_args :: "outside \<Rightarrow> string \<Rightarrow> string \<Rightarrow> int \<Rightarrow> string list" where
  "helm_cutover_args v release ns timeout = helm_upgrade_args v release ns (ou_chart_path v cutover_values) timeout"

definition helm_rollback_args :: "outside \<Rightarrow> string \<Rightarrow> string \<Rightarrow> string \<Rightarrow> int \<Rightarrow> string list" where
  "helm_rollback_args v release ns path timeout = helm_upgrade_args v release ns path timeout"

definition empty_status :: mirror_status where
  "empty_status =
     \<lparr>mt_ready = False, mt_reason = [], mt_message = [], mt_connectors = [], mt_replicas = 0, mt_observed = 0, mt_generation = 0\<rparr>"

definition status_argv :: "string \<Rightarrow> string \<Rightarrow> string list" where
  "status_argv ns cr = [''kubectl'', ''-n'', ns, ''get'', ''kafkamirrormaker2'', cr, ''-o'', ''json'']"

text \<open>\<open>readMirrorStatus\<close>'s answer, None on an error of the command or of the JSON.\<close>

definition status_of :: "outside \<Rightarrow> run_error + string \<Rightarrow> mirror_status option" where
  "status_of v answer =
     (case answer of
        Inl e \<Rightarrow> None
      | Inr out \<Rightarrow> (case ou_status v out of None \<Rightarrow> None | Some (generation, doc) \<Rightarrow> Some (parse_mirror_status generation doc)))"

definition connector_in :: "mirror_status \<Rightarrow> string \<Rightarrow> string \<Rightarrow> bool" where
  "connector_in st sfx state \<longleftrightarrow> (case connector_of st sfx of Some c \<Rightarrow> cs_state c = state | None \<Rightarrow> False)"

definition states_reached :: "string \<Rightarrow> string \<Rightarrow> mirror_status \<Rightarrow> bool" where
  "states_reached source_state checkpoint_state st \<longleftrightarrow>
     connector_in st source_connector_suffix source_state \<and> connector_in st checkpoint_connector_suffix checkpoint_state \<and>
     mt_generation st \<le> mt_observed st"

definition judge_states ::
  "outside \<Rightarrow> string \<Rightarrow> string \<Rightarrow> mirror_status \<Rightarrow> run_error + string \<Rightarrow> mirror_status + mirror_status" where
  "judge_states v source_state checkpoint_state seen answer =
     (case status_of v answer of
        None \<Rightarrow> Inl seen
      | Some st \<Rightarrow> if states_reached source_state checkpoint_state st then Inr st else Inl st)"

definition wait_connector_states ::
  "outside \<Rightarrow> string \<Rightarrow> string \<Rightarrow> string \<Rightarrow> string \<Rightarrow> int \<Rightarrow> io \<Rightarrow> string option \<times> io" where
  "wait_connector_states v ns cr source_state checkpoint_state timeout io =
     (case poll (ou_world v) (Invoke None (status_argv ns cr)) TenSeconds (io_now io + timeout)
           (judge_states v source_state checkpoint_state) empty_status io of
        (Polled st, io1) \<Rightarrow> (None, io1)
      | (Expired st, io1) \<Rightarrow>
          (Some (''connectors did not reach source='' @ source_state @ '' checkpoint='' @ checkpoint_state @ '' within '' @ format_timeout timeout @
             '' (last: '' @ status_summary st @ '')''), io1)
      | (Interrupted e st, io1) \<Rightarrow> (Some e, io1))"

definition apply_cutover :: "outside \<Rightarrow> lab_run \<Rightarrow> run_state \<Rightarrow> run_state \<times> string option" where
  "apply_cutover v r s =
     (let l = rn_lab r
      in (case ensure_mirror_chart_deps v (st_io s) of
            (Some e, io1) \<Rightarrow> (with_io io1 s, Some e)
          | (None, io1) \<Rightarrow>
              (case run_command (ou_world v) None (helm_argv (helm_cutover_args v (lb_mirror_release l) (lb_mirror_namespace l) (rn_timeout r))) io1 of
                 (Inl e, io2) \<Rightarrow>
                   (with_report (row_fail row_cutover_applied ''helm upgrade with values-cutover.yaml failed'') (with_io io2 s),
                    Some (''apply the cutover: '' @ e))
               | (Inr out, io2) \<Rightarrow>
                   (case wait_connector_states v (lb_mirror_namespace l) (lb_mirror_cr l) state_stopped state_running (rn_timeout r) io2 of
                      (Some e, io3) \<Rightarrow> (with_report (row_fail row_cutover_applied e) (with_io io3 s), Some e)
                    | (None, io3) \<Rightarrow>
                        (with_report (row_pass row_cutover_applied ''source connector stopped, checkpoint connector still running'') (with_io io3 s), None)))))"

definition extra_records :: "string list" where
  "extra_records = map (\<lambda>i. ''after-cutover-'' @ show_int i) [1..migrate_cutover_extra]"

fun produce_extra :: "outside \<Rightarrow> source_client list \<Rightarrow> io \<Rightarrow> io" where
  "produce_extra v [] io = io"
| "produce_extra v (c # cs) io =
     produce_extra v cs
       (snd (collect (\<lambda>t. pod_exec_input (ou_world v) (sc_pod c) (input_of extra_records) (producer_args (sc_tools c) (sc_bootstrap c) (sc_cfg c) t))
          (so_topics (sc_src c)) io))"

definition target_readings :: "outside \<Rightarrow> lab_run \<Rightarrow> run_state \<Rightarrow> io \<Rightarrow> offset_sum \<times> io" where
  "target_readings v r s io =
     (let (os, io1) = collect (\<lambda>t io. apfst (reading_of t) (invoke (ou_world v) (target_call s (\<lambda>tl b cfg. end_offsets tl b cfg t)) io))
            (replicated_topics (rn_lab r)) io
      in (sum_offsets os, io1))"

definition froze_row :: "lab_run \<Rightarrow> offset_sum \<Rightarrow> offset_sum \<Rightarrow> report \<Rightarrow> report" where
  "froze_row r b a =
     (let floor' = wrap64 (op_messages (rn_lab r) * int (length (op_topics (rn_lab r))))
      in if \<not> os_measured b \<or> \<not> os_measured a
         then row_fail row_cutover_froze (''could not read end offsets (before='' @ CHR 0x27 # offset_string b @ CHR 0x27 # '' after='' @ CHR 0x27 # offset_string a @
                CHR 0x27 # '') '' @ dash @ '' the measurement failed, not necessarily the cutover'')
         else if os_sum b < floor'
         then row_fail row_cutover_froze (''baseline '' @ show_int (os_sum b) @ '' is below the '' @ show_int floor' @ '' records already read back '' @ dash @
                '' the offset tool is not measuring what it should'')
         else if os_sum b = os_sum a
         then row_pass row_cutover_froze (''end offsets unchanged at '' @ show_int (os_sum a) @ '' after '' @
                show_int (migrate_cutover_extra * int (length (op_topics (rn_lab r)))) @ '' more source records'')
         else row_fail row_cutover_froze (''offsets moved '' @ show_int (os_sum b) @ '' '' @ arrow @ '' '' @ show_int (os_sum a) @ '' '' @ dash @
                '' the source connector did not stop''))"

definition prove_frozen :: "outside \<Rightarrow> lab_run \<Rightarrow> run_state \<Rightarrow> run_state \<times> string option" where
  "prove_frozen v r s =
     (case pause (ou_world v) migrate_cutover_settle (st_io s) of
        (Some e, io1) \<Rightarrow> (with_io io1 s, Some e)
      | (None, io1) \<Rightarrow>
          (let (b, io2) = target_readings v r s io1;
               s2 = (with_io io2 s)\<lparr>ms_before := b\<rparr>;
               io3 = produce_extra v (sources_of s) io2
           in (case pause (ou_world v) migrate_cutover_settle io3 of
                 (Some e, io4) \<Rightarrow> (with_io io4 s2, Some e)
               | (None, io4) \<Rightarrow>
                   (let (a, io5) = target_readings v r s io4
                    in (with_report (froze_row r b a) ((with_io io5 s2)\<lparr>ms_after := a\<rparr>), None)))))"

definition phase_cutover_rehearsal :: "outside \<Rightarrow> lab_run \<Rightarrow> run_state \<Rightarrow> run_state \<times> string option" where
  "phase_cutover_rehearsal v r s =
     (case apply_cutover v r s of (s1, Some e) \<Rightarrow> (s1, Some e) | (s1, None) \<Rightarrow> prove_frozen v r s1)"

definition rollback_values :: string where
  "rollback_values = concat (map (\<lambda>l. l @ [nl])
     [''# Written by kates migrate rollback: reverses charts/mirror-maker2/values-cutover.yaml.'',
      ''# stopped '' @ arrow @ '' running resumes from the committed offsets; anything produced to the'',
      ''# TARGET in the meantime is not replicated backwards '' @ dash @ '' a rollback after producers'',
      ''# have moved is a data merge, not a switch.'',
      ''cutover:'', ''  enabled: false'', ''autoRestart:'', ''  enabled: true''])"

definition apply_rollback :: "outside \<Rightarrow> lab_run \<Rightarrow> run_state \<Rightarrow> run_state \<times> string option" where
  "apply_rollback v r s =
     (let l = rn_lab r; path = ou_rollback_path v (op_name l)
      in (case ou_write_file v path rollback_values of
            Some e \<Rightarrow> (s, Some e)
          | None \<Rightarrow>
              (case ensure_mirror_chart_deps v (st_io s) of
                 (Some e, io1) \<Rightarrow> (with_io io1 s, Some e)
               | (None, io1) \<Rightarrow>
                   (case run_command (ou_world v) None
                       (helm_argv (helm_rollback_args v (lb_mirror_release l) (lb_mirror_namespace l) path (rn_timeout r))) io1 of
                      (Inl e, io2) \<Rightarrow>
                        (with_report (row_fail row_rollback_applied ''helm upgrade without the cutover overlay failed'') (with_io io2 s),
                         Some (''apply the rollback: '' @ e))
                    | (Inr out, io2) \<Rightarrow>
                        (case wait_connector_states v (lb_mirror_namespace l) (lb_mirror_cr l) state_running state_running (rn_timeout r) io2 of
                           (Some e, io3) \<Rightarrow> (with_report (row_fail row_rollback_applied e) (with_io io3 s), Some e)
                         | (None, io3) \<Rightarrow>
                             (with_report (row_pass row_rollback_applied ''source connector running again from its committed offsets'') (with_io io3 s), None))))))"

section \<open>The commands\<close>

definition run_phase :: "string \<Rightarrow> bool \<Rightarrow> (run_state \<Rightarrow> run_state \<times> string option) \<Rightarrow> lab_values phase" where
  "run_phase n optional f = \<lparr>ph_name = n, ph_run = Some f, ph_optional = optional\<rparr>"

definition verify_phases :: "outside \<Rightarrow> lab_run \<Rightarrow> bool \<Rightarrow> lab_values phase list" where
  "verify_phases v r cutover =
     [run_phase ''clients'' False (ensure_clients v r),
      run_phase ''seed'' False (phase_seed v r),
      run_phase ''source end offsets'' True (phase_source_offsets v r),
      run_phase ''source consumer group'' True (phase_source_group v r),
      run_phase ''replicated topic'' False (phase_replicated_topic v r),
      run_phase ''read back'' True (phase_read_back v r),
      run_phase ''offset translation'' True (phase_offset_translation v r)] @
     (if cutover then [run_phase ''cutover rehearsal'' True (phase_cutover_rehearsal v r)] else [])"

definition cutover_phases :: "outside \<Rightarrow> lab_run \<Rightarrow> lab_values phase list" where
  "cutover_phases v r =
     [run_phase ''clients'' False (ensure_clients v r),
      run_phase ''cutover'' False (apply_cutover v r),
      run_phase ''cutover froze the target'' False (prove_frozen v r)]"

definition report_failure :: "report \<Rightarrow> string \<Rightarrow> string option" where
  "report_failure p what =
     (let (pass, failed, skip) = report_counts p
      in if failed = 0 then None else Some (show_int failed @ '' assertion(s) failed for '' @ what))"

text \<open>How the commands end: the error they exit 1 with, or none.\<close>

definition command_error_of :: "report \<Rightarrow> string \<Rightarrow> (string \<times> string) option \<Rightarrow> string option" where
  "command_error_of p what run_err =
     (case report_failure p what of
        Some e \<Rightarrow> Some e
      | None \<Rightarrow> map_option phase_error_string run_err)"

definition fresh_state :: "(string \<rightharpoonup> string) \<Rightarrow> io \<Rightarrow> run_state" where
  "fresh_state header x = new_state header \<lparr>lv_io = x, lv_clients = None, lv_committed = Map.empty\<rparr>"

text \<open>\<open>runMigrateVerify\<close> from the opened run on; \<open>ctx k\<close> is the context's error before the phase of index \<open>k\<close>.\<close>

definition run_migrate_verify :: "outside \<Rightarrow> lab_run \<Rightarrow> (nat \<Rightarrow> string option) \<Rightarrow> bool \<Rightarrow> run_state \<Rightarrow> run_state \<times> string option" where
  "run_migrate_verify v r ctx keep s =
     (let (s1, run_err) = run_phases ctx 0 (verify_phases v r False) s;
          s2 = (if keep then s1 else delete_clients v s1)
      in (s2, command_error_of (ms_report s2) (''lab '' @ op_name (rn_lab r)) run_err))"

text \<open>\<open>runMigrateCutover\<close> after its checks and the confirmation.\<close>

definition run_migrate_cutover :: "outside \<Rightarrow> lab_run \<Rightarrow> (nat \<Rightarrow> string option) \<Rightarrow> run_state \<Rightarrow> run_state \<times> string option" where
  "run_migrate_cutover v r ctx s =
     (let (s1, run_err) = run_phases ctx 0 (cutover_phases v r) s; s2 = delete_clients v s1
      in (s2, command_error_of (ms_report s2) (''the cutover of lab '' @ op_name (rn_lab r)) run_err))"

definition run_migrate_rollback :: "outside \<Rightarrow> lab_run \<Rightarrow> (nat \<Rightarrow> string option) \<Rightarrow> run_state \<Rightarrow> run_state \<times> string option" where
  "run_migrate_rollback v r ctx s =
     (let (s1, run_err) = run_phases ctx 0 [run_phase ''rollback'' False (apply_rollback v r)] s
      in (s1, command_error_of (ms_report s1) (''the rollback of lab '' @ op_name (rn_lab r)) run_err))"

text \<open>
  \<open>runMigrateRun\<close> once the up phases have passed, up to its report: the verification with the cutover
  rehearsal, and the outcome (the teardown between them changes neither).
\<close>

definition run_migrate_run :: "outside \<Rightarrow> lab_run \<Rightarrow> (nat \<Rightarrow> string option) \<Rightarrow> run_state \<Rightarrow> run_state \<times> string option" where
  "run_migrate_run v r ctx s =
     (let (s1, run_err) = run_phases ctx 0 (verify_phases v r True) s; l = rn_lab r
      in (s1, command_error_of (ms_report s1)
                (''the Kafka '' @ version_string (op_from l) @ '' '' @ arrow @ '' '' @ version_string (op_to l) @ '' path'') run_err))"

section \<open>What a phase keeps\<close>

definition clean :: "report \<Rightarrow> bool" where
  "clean p \<longleftrightarrow> list_all (\<lambda>r. rw_status r \<noteq> status_fail) (rp_rows p)"

lemma clean_rows [simp]: "clean (row_pass n d p) \<longleftrightarrow> clean p" "\<not> clean (row_fail n d p)"
  by (simp_all add: clean_def row_pass_def row_fail_def add_row_def status_pass_def status_fail_def)

lemma row_counts_clean: "fst (snd (row_counts rs)) = 0 \<longleftrightarrow> list_all (\<lambda>r. rw_status r \<noteq> status_fail) rs" "0 \<le> fst (snd (row_counts rs))"
  by (induction rs) (auto simp: Let_def status_pass_def status_fail_def status_skip_def split: prod.splits if_splits)

lemma report_failure_None [simp]: "report_failure p what = None \<longleftrightarrow> clean p"
  using row_counts_clean [of "rp_rows p"] by (auto simp: report_failure_def report_counts_def clean_def Let_def split: prod.splits)

lemma command_error_None: "command_error_of p what e = None \<longleftrightarrow> clean p \<and> e = None"
proof (cases "clean p")
  case True
  then have "report_failure p what = None" by simp
  then show ?thesis using True by (simp add: command_error_of_def del: report_failure_None)
next
  case False
  then obtain x where "report_failure p what = Some x" by (metis not_None_eq report_failure_None)
  then show ?thesis using False by (simp add: command_error_of_def)
qed

text \<open>A step after which no failed row is gone, no event is lost, and the clients and the phase errors are as before.\<close>

definition follows :: "run_state \<Rightarrow> run_state \<Rightarrow> bool" where
  "follows s s' \<longleftrightarrow>
     (clean (ms_report s') \<longrightarrow> clean (ms_report s)) \<and> lv_clients (ms_values s') = lv_clients (ms_values s) \<and>
     ms_errors s' = ms_errors s \<and> adds (\<lambda>e. True) (st_io s) (st_io s')"

lemma follows_refl [simp]: "follows s s"
  by (simp add: follows_def)

lemma follows_trans: "follows a b \<Longrightarrow> follows b c \<Longrightarrow> follows a c"
  by (auto simp: follows_def intro: adds_trans)

lemma follows_io: "adds (\<lambda>e. True) (st_io s) x \<Longrightarrow> follows s (with_io x s)"
  by (simp add: follows_def)

lemma follows_row: "follows s (with_report (row_pass n d) s)" "follows s (with_report (row_fail n d) s)"
  by (simp_all add: follows_def)

lemma follows_io_row:
  assumes "adds (\<lambda>e. True) (st_io s) x"
  shows "follows s (with_report (row_pass n d) (with_io x s))" "follows s (with_report (row_fail n d) (with_io x s))"
  using follows_trans [OF follows_io [OF assms] follows_row(1)] follows_trans [OF follows_io [OF assms] follows_row(2)] by simp_all

lemma pod_exec_adds: "pod_exec w p argv io = (x, io') \<Longrightarrow> adds (\<lambda>e. True) io io'"
  unfolding pod_exec_def by (erule invoke_adds) simp

lemma pod_exec_input_adds: "pod_exec_input w p i argv io = (x, io') \<Longrightarrow> adds (\<lambda>e. True) io io'"
  unfolding pod_exec_input_def by (erule invoke_adds) simp

lemma collect_adds:
  assumes "\<And>x io y io'. f x io = (y, io') \<Longrightarrow> adds P io io'"
  shows "collect f xs io = (ys, io') \<Longrightarrow> adds P io io'"
proof (induction xs arbitrary: io ys)
  case (Cons x xs)
  then show ?case by (auto simp: Let_def split: prod.splits dest!: assms intro: adds_trans)
qed simp

lemma apfst_adds: "(\<And>y io'. f io = (y, io') \<Longrightarrow> adds P io io') \<Longrightarrow> apfst g (f io) = (y, io') \<Longrightarrow> adds P io io'"
  by (cases "f io") auto

lemma create_topics_adds: "adds (\<lambda>e. True) io (create_topics v c ts io)"
proof (induction ts arbitrary: io)
  case (Cons t ts)
  obtain a io1 where "pod_exec (ou_world v) (sc_pod c) (create_topic (sc_tools c) (sc_bootstrap c) (sc_cfg c) t source_topic_partitions 1) io = (a, io1)"
    by (rule prod.exhaust)
  then show ?case using adds_trans [OF pod_exec_adds Cons.IH] by simp
qed simp

lemma produce_topics_adds: "produce_topics v c input ts io = (x, io') \<Longrightarrow> adds (\<lambda>e. True) io io'"
  by (induction ts arbitrary: io) (auto split: prod.splits sum.splits dest!: pod_exec_input_adds intro: adds_trans)

lemma seed_sources_follows: "follows s (fst (seed_sources v r cs s))"
proof (induction cs arbitrary: s)
  case (Cons c cs)
  let ?io = "if creates_topics r c then create_topics v c (so_topics (sc_src c)) (st_io s) else st_io s"
  obtain e io2 where p: "produce_topics v c (input_of (corpus v r)) (so_topics (sc_src c)) ?io = (e, io2)" by (rule prod.exhaust)
  have "adds (\<lambda>e. True) (st_io s) io2" using adds_trans [OF _ produce_topics_adds [OF p]] create_topics_adds by simp
  note step = follows_io_row [OF this]
  show ?case
  proof (cases e)
    case None
    then show ?thesis using follows_trans [OF step(1) Cons.IH] by (simp add: Let_def p)
  next
    case (Some x)
    then show ?thesis using step(2) by (cases x) (simp add: Let_def p)
  qed
qed simp

lemma source_end_offsets_adds: "source_end_offsets v c t io = (x, io') \<Longrightarrow> adds (\<lambda>e. True) io io'"
  by (auto simp: source_end_offsets_def Let_def split: if_splits intro: apfst_adds pod_exec_adds)

lemma offsets_of_sources_follows: "follows s (snd (offsets_of_sources v r cs s))"
proof (induction cs arbitrary: s)
  case (Cons c cs)
  obtain readings io1 where p: "collect (source_end_offsets v c) (so_topics (sc_src c)) (st_io s) = (readings, io1)" by (rule prod.exhaust)
  have "adds (\<lambda>e. True) (st_io s) io1" by (rule collect_adds [OF source_end_offsets_adds p])
  note step = follows_io_row [OF this]
  show ?case using follows_trans [OF step(1) Cons.IH] follows_trans [OF step(2) Cons.IH]
    by (simp add: Let_def p split_beta)
qed simp

lemma consume_half_adds: "consume_half v r c t io = (x, io') \<Longrightarrow> adds (\<lambda>e. True) io io'"
  unfolding consume_half_def by (rule pod_exec_adds)

lemma groups_of_sources_follows: "groups_of_sources v r cs m n s = (m', n', s') \<Longrightarrow> follows s s'"
proof (induction cs arbitrary: s m n)
  case (Cons c cs)
  obtain x io1 where p: "collect (consume_half v r c) (so_topics (sc_src c)) (st_io s) = (x, io1)" by (rule prod.exhaust)
  obtain a io2 where q: "pod_exec (ou_world v) (sc_pod c)
      (describe_group (sc_tools c) (sc_bootstrap c) (sc_cfg c) (lb_consumer_group (rn_lab r))) io1 = (a, io2)" by (rule prod.exhaust)
  have "adds (\<lambda>e. True) (st_io s) io2" by (rule adds_trans [OF collect_adds [OF consume_half_adds p] pod_exec_adds [OF q]])
  note step = follows_io_row [OF this]
  show ?case using Cons.prems follows_trans [OF step(1) Cons.IH] follows_trans [OF step(2) Cons.IH]
    by (auto simp: Let_def p q split: if_splits)
qed simp

lemma poll_any: "poll w c g d j z io = (x, io') \<Longrightarrow> adds (\<lambda>e. True) io io'"
  by (erule poll_adds) simp_all

lemma phase_replicated_topic_follows: "follows s (fst (phase_replicated_topic v r s))"
proof -
  obtain x io1 where p: "poll (ou_world v) (target_call s list_topics) FifteenSeconds (io_now (st_io s) + rn_timeout r)
      (judge_topics (replicated_topics (rn_lab r))) [] (st_io s) = (x, io1)" by (rule prod.exhaust)
  note step = follows_io_row [OF poll_any [OF p]] follows_io [OF poll_any [OF p]]
  show ?thesis using step by (cases x) (simp_all add: phase_replicated_topic_def p Let_def)
qed

lemma invoke_any: "invoke w c io = (x, io') \<Longrightarrow> adds (\<lambda>e. True) io io'"
  by (erule invoke_adds) simp

lemma read_topics_adds: "read_topics v r s x ts k io = (gots, io') \<Longrightarrow> adds (\<lambda>e. True) io io'"
proof (induction ts arbitrary: k io gots)
  case (Cons t ts)
  then show ?case by (auto simp: Let_def split: prod.splits dest!: invoke_any intro: adds_trans)
qed simp

lemma clean_count_row: "clean (count_row r x gots p) \<Longrightarrow> clean p"
  by (auto simp: count_row_def Let_def split: if_splits)

lemma clean_content_row: "clean (content_row v r x gots p) \<longleftrightarrow> clean p \<and> missing_of v r gots = []"
  by (auto simp: content_row_def Let_def)

lemma read_sources_follows: "follows s (snd (read_sources v r xs k acc s))"
proof (induction xs arbitrary: k acc s)
  case (Cons x xs)
  obtain gots io1 where p: "read_topics v r s x (so_topics x) k (st_io s) = (gots, io1)" by (rule prod.exhaust)
  let ?s = "with_report (content_row v r x gots) (with_report (count_row r x gots) (with_io io1 s))"
  have "follows s ?s" using read_topics_adds [OF p] clean_count_row by (auto simp: follows_def clean_content_row)
  then show ?case using follows_trans [OF _ Cons.IH] by (simp add: p)
qed simp

lemma phase_read_back_follows: "follows s (fst (phase_read_back v r s))"
  using read_sources_follows [of s v r "lab_sources (rn_lab r)" 0 "[]"] by (auto simp: phase_read_back_def follows_def split: prod.splits)

lemma translate_pending_clean: "clean (snd (translate_pending r m rows xs p)) \<Longrightarrow> clean p"
proof (induction xs arbitrary: p)
  case (Cons x xs)
  show ?case
  proof (cases "translated_rows r x rows = []")
    case True
    then show ?thesis using Cons by (simp add: Let_def split_beta)
  next
    case False
    then show ?thesis using Cons.prems Cons.IH [of "row_pass n d p" for n d] by (simp add: Let_def)
  qed
qed simp

interpretation groups: judged "judge_groups r m" "\<lambda>sp. clean (snd sp) \<longrightarrow> clean p0"
proof
  fix s a s'
  assume "clean (snd s) \<longrightarrow> clean p0" "judge_groups r m s a = Inl s'"
  then show "clean (snd s') \<longrightarrow> clean p0"
    by (auto simp: judge_groups_def Let_def split_beta split: sum.splits if_splits dest!: translate_pending_clean)
qed

lemma judge_groups_clean: "judge_groups r m sp a = Inr p \<Longrightarrow> clean p \<Longrightarrow> clean (snd sp)"
  by (auto simp: judge_groups_def Let_def split_beta split: sum.splits if_splits dest!: translate_pending_clean)

lemma fold_fail_clean: "clean (fold (\<lambda>x. row_fail (f x) d) xs p) \<Longrightarrow> clean p"
  by (induction xs arbitrary: p) fastforce+

lemma phase_offset_translation_follows: "follows s (fst (phase_offset_translation v r s))"
proof -
  let ?m = "lv_committed (ms_values s)"
  obtain x io1 where p: "poll (ou_world v) (target_call s (\<lambda>t b cfg. describe_group t b cfg (lb_consumer_group (rn_lab r)))) FifteenSeconds
      (io_now (st_io s) + rn_timeout r) (judge_groups r ?m) (lab_sources (rn_lab r), ms_report s) (st_io s) = (x, io1)" by (rule prod.exhaust)
  note ok = groups.poll_ok [OF _ p, of "ms_report s"]
  show ?thesis
  proof (cases x)
    case (Polled q)
    then have "clean q \<Longrightarrow> clean (ms_report s)" using ok judge_groups_clean by fastforce
    then show ?thesis using poll_any [OF p] by (simp add: phase_offset_translation_def p Polled Let_def follows_def)
  next
    case (Expired y)
    then show ?thesis using ok poll_any [OF p] fold_fail_clean
      by (fastforce simp: phase_offset_translation_def p Let_def follows_def split: prod.splits)
  next
    case (Interrupted e y)
    then show ?thesis using ok poll_any [OF p] by (auto simp: phase_offset_translation_def p Let_def follows_def split: prod.splits)
  qed
qed

lemma ensure_mirror_chart_deps_adds: "ensure_mirror_chart_deps v io = (e, io') \<Longrightarrow> adds (\<lambda>e. True) io io'"
  by (auto simp: ensure_mirror_chart_deps_def split: if_splits prod.splits sum.splits intro: run_command_adds)

lemma wait_connector_states_adds: "wait_connector_states v ns cr a b t io = (e, io') \<Longrightarrow> adds (\<lambda>e. True) io io'"
  by (auto simp: wait_connector_states_def split: prod.splits polled.splits dest: poll_any)

lemma apply_cutover_follows: "follows s (fst (apply_cutover v r s))"
proof -
  let ?l = "rn_lab r"
  obtain e io1 where d: "ensure_mirror_chart_deps v (st_io s) = (e, io1)" by (rule prod.exhaust)
  obtain a io2 where h: "run_command (ou_world v) None
      (helm_argv (helm_cutover_args v (lb_mirror_release ?l) (lb_mirror_namespace ?l) (rn_timeout r))) io1 = (a, io2)" by (rule prod.exhaust)
  obtain f io3 where w: "wait_connector_states v (lb_mirror_namespace ?l) (lb_mirror_cr ?l) state_stopped state_running (rn_timeout r) io2 = (f, io3)"
    by (rule prod.exhaust)
  have 1: "adds (\<lambda>e. True) (st_io s) io1" by (rule ensure_mirror_chart_deps_adds [OF d])
  have 2: "adds (\<lambda>e. True) (st_io s) io2" by (rule adds_trans [OF 1 run_command_adds [OF h]]) simp
  have 3: "adds (\<lambda>e. True) (st_io s) io3" by (rule adds_trans [OF 2 wait_connector_states_adds [OF w]])
  show ?thesis
    using follows_io [OF 1] follows_io_row [OF 2] follows_io_row [OF 3]
    by (cases e; cases a; cases f) (simp_all add: apply_cutover_def Let_def d h w)
qed

lemma target_readings_adds: "target_readings v r s io = (x, io') \<Longrightarrow> adds (\<lambda>e. True) io io'"
proof -
  let ?f = "\<lambda>t io. apfst (reading_of t) (invoke (ou_world v) (target_call s (\<lambda>tl b cfg. end_offsets tl b cfg t)) io)"
  assume "target_readings v r s io = (x, io')"
  then have "collect ?f (replicated_topics (rn_lab r)) io = (fst (collect ?f (replicated_topics (rn_lab r)) io), io')"
    by (simp add: target_readings_def Let_def split: prod.splits)
  moreover have "adds (\<lambda>e. True) io io'" if "?f t io = (y, io')" for t io y io'
    using that by (cases "invoke (ou_world v) (target_call s (\<lambda>tl b cfg. end_offsets tl b cfg t)) io") (auto dest: invoke_any)
  ultimately show ?thesis by (rule collect_adds [rotated])
qed

lemma produce_extra_adds: "adds (\<lambda>e. True) io (produce_extra v cs io)"
proof (induction cs arbitrary: io)
  case (Cons c cs)
  let ?f = "\<lambda>t. pod_exec_input (ou_world v) (sc_pod c) (input_of extra_records) (producer_args (sc_tools c) (sc_bootstrap c) (sc_cfg c) t)"
  obtain ys io1 where p: "collect ?f (so_topics (sc_src c)) io = (ys, io1)" by (rule prod.exhaust)
  show ?case using adds_trans [OF collect_adds [OF pod_exec_input_adds p] Cons.IH] by (simp add: p)
qed simp

text \<open>What the proof shows when it runs to its end without a failed row.\<close>

definition frozen :: "lab_run \<Rightarrow> run_state \<Rightarrow> bool" where
  "frozen r s \<longleftrightarrow>
     os_measured (ms_before s) \<and> os_measured (ms_after s) \<and> os_sum (ms_before s) = os_sum (ms_after s) \<and>
     wrap64 (op_messages (rn_lab r) * int (length (op_topics (rn_lab r)))) \<le> os_sum (ms_before s)"

lemma clean_froze_row:
  "clean (froze_row r b a p) \<longleftrightarrow> clean p \<and> os_measured b \<and> os_measured a \<and> os_sum b = os_sum a \<and>
     wrap64 (op_messages (rn_lab r) * int (length (op_topics (rn_lab r)))) \<le> os_sum b"
  by (auto simp: froze_row_def Let_def)

lemma prove_frozen_outcome:
  "follows s (fst (prove_frozen v r s)) \<and>
   (snd (prove_frozen v r s) = None \<longrightarrow> clean (ms_report (fst (prove_frozen v r s))) \<longrightarrow> frozen r (fst (prove_frozen v r s)))"
proof -
  obtain e io1 where p1: "pause (ou_world v) migrate_cutover_settle (st_io s) = (e, io1)" by (rule prod.exhaust)
  obtain b io2 where b: "target_readings v r s io1 = (b, io2)" by (rule prod.exhaust)
  let ?io3 = "produce_extra v (sources_of s) io2"
  obtain f io4 where p2: "pause (ou_world v) migrate_cutover_settle ?io3 = (f, io4)" by (rule prod.exhaust)
  obtain a io5 where a: "target_readings v r s io4 = (a, io5)" by (rule prod.exhaust)
  have 1: "adds (\<lambda>e. True) (st_io s) io1" by (rule pause_adds [OF p1]) simp
  have 4: "adds (\<lambda>e. True) (st_io s) io4"
    by (rule adds_trans [OF adds_trans [OF adds_trans [OF 1 target_readings_adds [OF b]] produce_extra_adds] pause_adds [OF p2]]) simp
  have 5: "adds (\<lambda>e. True) (st_io s) io5" by (rule adds_trans [OF 4 target_readings_adds [OF a]])
  show ?thesis
    using 1 4 5 by (cases e; cases f) (simp_all add: prove_frozen_def Let_def p1 b p2 a follows_def clean_froze_row frozen_def)
qed

lemma rehearsal_outcome:
  "follows s (fst (phase_cutover_rehearsal v r s)) \<and>
   (snd (phase_cutover_rehearsal v r s) = None \<longrightarrow> clean (ms_report (fst (phase_cutover_rehearsal v r s))) \<longrightarrow>
      frozen r (fst (phase_cutover_rehearsal v r s)))"
proof -
  obtain s1 e where a: "apply_cutover v r s = (s1, e)" by (rule prod.exhaust)
  have "follows s s1" using apply_cutover_follows [of s v r] a by simp
  then show ?thesis using prove_frozen_outcome [of s1 v r] follows_trans by (cases e) (auto simp: phase_cutover_rehearsal_def a)
qed

section \<open>What a clean read-back shows\<close>

lemma target_call_cong: "lv_clients (ms_values s) = lv_clients (ms_values s') \<Longrightarrow> target_call s = target_call s'"
  by (rule ext) (simp add: target_call_def)

text \<open>Some consumer's output on the topic holds every record of the corpus, each on a line of its own.\<close>

definition read_from_target :: "outside \<Rightarrow> lab_run \<Rightarrow> run_state \<Rightarrow> string \<Rightarrow> bool" where
  "read_from_target v r s topic \<longleftrightarrow>
     (\<exists>k input argv out. read_back_call r s topic k = Invoke input argv \<and> (Command input argv, Inr out) \<in> set (io_log (st_io s)) \<and>
        set (corpus v r) \<subseteq> set (map clean_line (split_on nl out)))"

definition corpus_ok :: "outside \<Rightarrow> lab_run \<Rightarrow> bool" where
  "corpus_ok v r \<longleftrightarrow>
     reads_corpus (ou_decode v) (ou_digest v) (op_name (rn_lab r)) (op_messages (rn_lab r)) \<and> op_name (rn_lab r) \<noteq> [] \<and> 0 < op_messages (rn_lab r)"

lemma corpus_nonempty: "corpus_ok v r \<Longrightarrow> \<exists>l. l \<in> set (corpus v r) \<and> l \<noteq> []"
proof -
  assume "corpus_ok v r"
  then have "1 \<in> set [1..op_messages (rn_lab r)]" by (simp add: corpus_ok_def)
  then have "record_line (corpus_record_of (ou_digest v) (op_name (rn_lab r)) 1) \<in> set (corpus v r)"
    unfolding corpus_def records_def set_map by (rule imageI)
  then show ?thesis using record_line_ends by blast
qed

lemma no_ids:
  assumes "corpus_ok v r" "set ls \<subseteq> set (corpus v r)" "record_ids (ou_decode v) ls = []"
  shows "ls = []"
proof (rule ccontr)
  assume "ls \<noteq> []"
  then obtain l where l: "l \<in> set ls" by (meson list.set_sel(1))
  then obtain x where "parse_record (ou_decode v) l = Some x"
    using assms(1,2) by (auto simp: corpus_ok_def corpus_def elim!: records_parsed)
  then have "x \<in> set (List.map_filter (parse_record (ou_decode v)) ls)" using l by (force simp: map_filter_def)
  then show False using assms(3) by (simp add: record_ids_def)
qed

lemma nothing_missing:
  assumes "corpus_ok v r" "missing_of v r gots = []" "(t, parse_consumed (ou_decode v) out) \<in> set gots"
  shows "set (corpus v r) \<subseteq> set (map clean_line (split_on nl out))"
proof -
  let ?d = "fst (corpus_diff (corpus v r) (parse_consumed (ou_decode v) out))"
  have d: "?d = filter (\<lambda>l. l \<notin> set (map clean_line (split_on nl out))) (corpus v r)"
    using assms(1) read_back_exact [of "ou_decode v" "ou_digest v" "op_name (rn_lab r)" "op_messages (rn_lab r)" out]
    by (simp add: corpus_ok_def corpus_def nl_def)
  have "record_ids (ou_decode v) ?d = []" using assms(2,3) by (auto simp: missing_of_def)
  then have "?d = []" using d by (intro no_ids [OF assms(1)]) auto
  then show ?thesis using d by (auto simp: filter_empty_conv)
qed

lemma read_back_call_cong: "lv_clients (ms_values s) = lv_clients (ms_values s') \<Longrightarrow> read_back_call r s = read_back_call r s'"
  by (intro ext) (simp only: read_back_call_def target_call_cong [of s s'])

lemma read_from_target_follows: "follows s s' \<Longrightarrow> read_from_target v r s t \<Longrightarrow> read_from_target v r s' t"
proof -
  assume f: "follows s s'" and r: "read_from_target v r s t"
  then have "read_back_call r s' = read_back_call r s" by (intro read_back_call_cong) (simp add: follows_def)
  moreover have "e \<in> set (io_log (st_io s'))" if "e \<in> set (io_log (st_io s))" for e
    using f that adds_keeps unfolding follows_def by blast
  ultimately show ?thesis using r unfolding read_from_target_def by metis
qed

lemma read_topics_found:
  "read_topics v r s x ts k io = (gots, io') \<Longrightarrow> t \<in> set ts \<Longrightarrow>
     \<exists>j answer io1 io2. invoke (ou_world v) (read_back_call r s (replicated_topic_of (rn_lab r) (Some x) t) j) io1 = (answer, io2) \<and>
       adds (\<lambda>e. True) io2 io' \<and> (replicated_topic_of (rn_lab r) (Some x) t, parse_consumed (ou_decode v) (output_of answer)) \<in> set gots"
proof (induction ts arbitrary: k io gots)
  case (Cons u ts)
  obtain a io1 where i: "invoke (ou_world v) (read_back_call r s (replicated_topic_of (rn_lab r) (Some x) u) k) io = (a, io1)" by (rule prod.exhaust)
  obtain rest io2 where t: "read_topics v r s x ts (Suc k) io1 = (rest, io2)" by (rule prod.exhaust)
  have g: "gots = (replicated_topic_of (rn_lab r) (Some x) u, parse_consumed (ou_decode v) (output_of a)) # rest" "io' = io2"
    using Cons.prems(1) by (auto simp: Let_def i t)
  show ?case
  proof (cases "t = u")
    case True
    then show ?thesis using i read_topics_adds [OF t] g by auto
  next
    case False
    then have "t \<in> set ts" using Cons.prems(2) by simp
    then show ?thesis using Cons.IH [of "Suc k" io1 rest] t g by (simp only: list.set(2) insert_iff) blast
  qed
qed simp

lemma topic_read:
  assumes "corpus_ok v r" "read_topics v r s x ts k (st_io s) = (gots, io1)" "missing_of v r gots = []" "t \<in> set ts"
  shows "read_from_target v r (with_io io1 s) (replicated_topic_of (rn_lab r) (Some x) t)"
proof -
  let ?t = "replicated_topic_of (rn_lab r) (Some x) t"
  obtain j answer io2 io3 where i: "invoke (ou_world v) (read_back_call r s ?t j) io2 = (answer, io3)" and a: "adds (\<lambda>e. True) io3 io1"
    and g: "(?t, parse_consumed (ou_decode v) (output_of answer)) \<in> set gots"
    using read_topics_found [OF assms(2,4)] by blast
  note lines = nothing_missing [OF assms(1,3) g]
  obtain l where l: "l \<in> set (corpus v r)" "l \<noteq> []" using corpus_nonempty [OF assms(1)] by blast
  have "answer \<noteq> Inl e" for e
  proof
    assume "answer = Inl e"
    then have "l \<in> set (map clean_line (split_on nl []))" using lines l(1) by (auto simp: output_of_def)
    then show False using l(2) by (simp add: clean_line_def trim_right_cr_def)
  qed
  then obtain out where o: "answer = Inr out" by (cases answer) auto
  then obtain input argv where c: "read_back_call r s ?t j = Invoke input argv" "(Command input argv, Inr out) \<in> set (io_log io3)"
    using invoke_output i by blast
  have "read_back_call r (with_io io1 s) = read_back_call r s" by (rule read_back_call_cong) simp
  then show ?thesis using c adds_keeps [OF a] lines o unfolding read_from_target_def
    by (intro exI [of _ j] exI [of _ input] exI [of _ argv] exI [of _ out]) (simp add: output_of_def)
qed

lemma sources_read:
  "corpus_ok v r \<Longrightarrow> clean (ms_report (snd (read_sources v r xs k acc s))) \<Longrightarrow> x \<in> set xs \<Longrightarrow> t \<in> set (so_topics x) \<Longrightarrow>
     read_from_target v r (snd (read_sources v r xs k acc s)) (replicated_topic_of (rn_lab r) (Some x) t)"
proof (induction xs arbitrary: k acc s)
  case (Cons y ys)
  obtain gots io1 where p: "read_topics v r s y (so_topics y) k (st_io s) = (gots, io1)" by (rule prod.exhaust)
  let ?s = "with_report (content_row v r y gots) (with_report (count_row r y gots) (with_io io1 s))"
  let ?k = "k + length (so_topics y)" and ?acc = "acc @ concat (map snd gots)"
  have run: "read_sources v r (y # ys) k acc s = read_sources v r ys ?k ?acc ?s" by (simp add: p)
  note rest = read_sources_follows [of ?s v r ys ?k ?acc]
  have "clean (ms_report ?s)" using rest Cons.prems(2) unfolding run follows_def by blast
  then have m: "missing_of v r gots = []" by (simp add: clean_content_row)
  show ?case
  proof (cases "x = y")
    case True
    have "read_from_target v r (with_io io1 s) (replicated_topic_of (rn_lab r) (Some x) t)"
      using topic_read [OF Cons.prems(1) p m] Cons.prems(4) True by blast
    moreover have "follows (with_io io1 s) ?s" using clean_count_row by (auto simp: follows_def clean_content_row)
    ultimately show ?thesis unfolding run using rest follows_trans read_from_target_follows by blast
  next
    case False
    then show ?thesis unfolding run using Cons by (intro Cons.IH) (simp_all add: p)
  qed
qed simp

section \<open>What the phases leave, one after the other\<close>

text \<open>As \<open>follows\<close>, with the errors of phases that were noted since.\<close>

definition grows :: "run_state \<Rightarrow> run_state \<Rightarrow> bool" where
  "grows s s' \<longleftrightarrow>
     (clean (ms_report s') \<longrightarrow> clean (ms_report s)) \<and> lv_clients (ms_values s') = lv_clients (ms_values s) \<and>
     (\<exists>es. ms_errors s' = ms_errors s @ es) \<and> adds (\<lambda>e. True) (st_io s) (st_io s')"

lemma grows_trans: "grows a b \<Longrightarrow> grows b c \<Longrightarrow> grows a c"
  by (auto simp: grows_def intro: adds_trans)

lemma effect_of:
  "fst (phase_effect (run_phase n opt f) s) =
     (fst (f s))\<lparr>ms_errors := ms_errors (fst (f s)) @ (case snd (f s) of None \<Rightarrow> [] | Some e \<Rightarrow> [(n, e)])\<rparr>"
  "snd (phase_effect (run_phase n opt f) s) = snd (f s)"
  by (auto simp: phase_effect_def run_phase_def split: prod.splits option.splits)

lemma effect_grows: "follows s (fst (f s)) \<Longrightarrow> grows s (fst (phase_effect (run_phase n opt f) s))"
  by (simp add: effect_of follows_def grows_def)

lemma phase_grows:
  "grows s (fst (phase_effect (run_phase n opt (phase_read_back v r)) s))"
  "grows s (fst (phase_effect (run_phase n opt (phase_offset_translation v r)) s))"
  "grows s (fst (phase_effect (run_phase n opt (phase_cutover_rehearsal v r)) s))"
  "grows s (fst (phase_effect (run_phase n opt (phase_replicated_topic v r)) s))"
  using phase_read_back_follows phase_offset_translation_follows rehearsal_outcome phase_replicated_topic_follows by (auto intro: effect_grows)

lemma read_from_target_grows: "grows s s' \<Longrightarrow> read_from_target v r s t \<Longrightarrow> read_from_target v r s' t"
  using read_from_target_follows [of s "s'\<lparr>ms_errors := ms_errors s\<rparr>" v r t]
  by (simp add: grows_def follows_def read_from_target_def read_back_call_def target_call_def)

interpretation topics: judged "judge_topics want" "\<lambda>listed. True"
  by unfold_locales simp

text \<open>Some listing of the target names every replicated topic.\<close>

definition topics_listed :: "lab_run \<Rightarrow> run_state \<Rightarrow> bool" where
  "topics_listed r s \<longleftrightarrow>
     (\<exists>input argv out. target_call s list_topics = Invoke input argv \<and> (Command input argv, Inr out) \<in> set (io_log (st_io s)) \<and>
        set (replicated_topics (rn_lab r)) \<subseteq> set (go_fields out))"

lemma topics_listed_grows: "grows s s' \<Longrightarrow> topics_listed r s \<Longrightarrow> topics_listed r s'"
  using target_call_cong [of s s'] adds_keeps unfolding topics_listed_def grows_def by metis

lemma replicated_topic_listed:
  assumes "snd (phase_replicated_topic v r s) = None"
  shows "topics_listed r (fst (phase_effect (run_phase n opt (phase_replicated_topic v r)) s))"
proof -
  obtain x io1 where p: "poll (ou_world v) (target_call s list_topics) FifteenSeconds (io_now (st_io s) + rn_timeout r)
      (judge_topics (replicated_topics (rn_lab r))) [] (st_io s) = (x, io1)" by (rule prod.exhaust)
  obtain u where u: "x = Polled u" using assms by (cases x) (simp_all add: phase_replicated_topic_def p Let_def)
  then obtain listed a io2 where i: "invoke (ou_world v) (target_call s list_topics) io2 = (a, io1)"
    and j: "judge_topics (replicated_topics (rn_lab r)) listed a = Inr u"
    using topics.poll_ok [OF _ p] by auto
  then obtain out where o: "a = Inr out" "all_listed (replicated_topics (rn_lab r)) (go_fields out)"
    by (auto simp: judge_topics_def split: sum.splits if_splits)
  obtain input argv where c: "target_call s list_topics = Invoke input argv" "(Command input argv, Inr out) \<in> set (io_log io1)"
    using invoke_output [OF i [unfolded o(1)]] by blast
  let ?s = "fst (phase_effect (run_phase n opt (phase_replicated_topic v r)) s)"
  have s: "st_io ?s = io1" "target_call ?s = target_call s"
    by (simp_all add: effect_of phase_replicated_topic_def p u Let_def cong: target_call_cong)
  show ?thesis unfolding topics_listed_def s using c o(2) by (auto simp: all_listed_def list_all_iff)
qed

lemma read_back_read:
  assumes "corpus_ok v r" "clean (ms_report (fst (phase_effect (run_phase n opt (phase_read_back v r)) s)))"
    "x \<in> set (lab_sources (rn_lab r))" "t \<in> set (so_topics x)"
  shows "read_from_target v r (fst (phase_effect (run_phase n opt (phase_read_back v r)) s)) (replicated_topic_of (rn_lab r) (Some x) t)"
proof -
  let ?r = "snd (read_sources v r (lab_sources (rn_lab r)) 0 [] s)"
  have e: "phase_read_back v r s = (?r\<lparr>ms_consumed := fst (read_sources v r (lab_sources (rn_lab r)) 0 [] s)\<rparr>, None)"
    by (simp add: phase_read_back_def split: prod.splits)
  have "clean (ms_report ?r)" using assms(2) by (simp add: effect_of e)
  then have "read_from_target v r ?r (replicated_topic_of (rn_lab r) (Some x) t)" by (rule sources_read [OF assms(1) _ assms(3,4)])
  then show ?thesis by (simp add: effect_of e read_from_target_def read_back_call_def target_call_def)
qed

lemma run_phases_done:
  assumes "run_phases ctx 0 ps s = (s', None)"
  shows "s' = after_phases ps s \<and> (\<forall>k<length ps. goes_past (ctx k) (ps ! k) (after_phases (take k ps) s))"
  using run_phases_cases [of ps ctx 0 s]
proof (elim disjE conjE exE)
  fix k
  assume "run_phases ctx 0 ps s = stops_at (ctx (0 + k)) (ps ! k) (after_phases (take k ps) s)"
    "\<not> goes_past (ctx (0 + k)) (ps ! k) (after_phases (take k ps) s)"
  then show ?thesis using assms stops_at_error by (metis snd_conv)
qed (use assms in simp)

lemma verify_phases_split:
  "verify_phases v r True = take 4 (verify_phases v r True) @
     [run_phase ''replicated topic'' False (phase_replicated_topic v r), run_phase ''read back'' True (phase_read_back v r),
      run_phase ''offset translation'' True (phase_offset_translation v r), run_phase ''cutover rehearsal'' True (phase_cutover_rehearsal v r)]"
  by (simp add: verify_phases_def)

lemma after_phases_append: "after_phases (ps @ qs) s = after_phases qs (after_phases ps s)"
  by (simp add: after_phases_def)

lemma run_phases_snoc:
  "run_phases ctx i ps s = (s', None) \<Longrightarrow> run_phases ctx i (ps @ [p]) s = run_phases ctx (i + length ps) [p] s'"
  by (induction ps arbitrary: i s) (auto simp: Let_def split: option.splits prod.splits if_splits)

lemma verify_phases_snoc:
  "verify_phases v r True = verify_phases v r False @ [run_phase ''cutover rehearsal'' True (phase_cutover_rehearsal v r)]"
  "length (verify_phases v r False) = 7"
  by (simp_all add: verify_phases_def)

section \<open>A run on a small lab\<close>

text \<open>
  One topic, one record, and a cluster that answers every command alike: a listing, an offset row, a group row and
  the record at once.
\<close>

definition demo_record :: string where "demo_record = record_line (corpus_record_of demo_digest ''m1'' 1)"
definition demo_reply :: string where "demo_reply = ''t:0:1'' @ nl # ''g t 0 1 1 0'' @ nl # demo_record"

lemma demo_record_chars: "list_all space_free_end demo_record"
  by code_simp

lemma demo_split: "split_on nl demo_reply = [''t:0:1'', ''g t 0 1 1 0'', demo_record]"
proof -
  have "nl \<notin> set demo_record" using demo_record_chars by (auto simp: list_all_iff space_free_end_def nl_def)
  then have "split_on nl (''g t 0 1 1 0'' @ nl # demo_record) = [''g t 0 1 1 0'', demo_record]"
    by (subst split_on_append_sep) (simp_all add: nl_def)
  then show ?thesis unfolding demo_reply_def by (subst split_on_append_sep) (simp_all add: nl_def)
qed

lemma demo_fields: "go_fields demo_record = [demo_record]" "go_fields ''t:0:1'' = [''t:0:1'']" "go_fields ''g t 0 1 1 0'' = [''g'', ''t'', ''0'', ''1'', ''1'', ''0'']"
proof -
  have "demo_record \<noteq> []" using record_line_ends by (simp add: demo_record_def)
  then show "go_fields demo_record = [demo_record]" using demo_record_chars by (simp add: go_fields_def fields_from_run del: fields_from.simps)
  show "go_fields ''t:0:1'' = [''t:0:1'']" by (simp add: go_fields_def fields_from_plain space_free_end_def del: fields_from.simps(2))
  show "go_fields ''g t 0 1 1 0'' = [''g'', ''t'', ''0'', ''1'', ''1'', ''0'']" by (simp add: go_fields_def fields_from_plain fields_from_blank(1) space_free_end_def del: fields_from.simps(2))
qed

lemma demo_words: "''t'' \<in> set (go_fields demo_reply)"
  by (simp add: go_fields_def demo_reply_def fields_from_plain fields_from_blank space_free_end_def del: fields_from.simps(2))

lemma demo_group: "parse_group_describe demo_reply = [\<lparr>go_group = ''g'', go_topic = ''t'', go_partition = 0, go_current = 1, go_end = 1, go_lag = 0\<rparr>]"
proof -
  have s: "strip_cr ''t:0:1'' = ''t:0:1''" "strip_cr ''g t 0 1 1 0'' = ''g t 0 1 1 0''" "strip_cr demo_record = demo_record"
    using clean_record_line  by (simp_all add: strip_cr_def demo_record_def) (simp add: record_line_def)
  have n: "parse_int64 ''t'' = None" "parse_int64 ''0'' = Some 0" "parse_int64 ''1'' = Some 1" "offset_cell ''1'' = Some 1" "offset_cell ''0'' = Some 0" by code_simp+
  show ?thesis
    unfolding parse_group_describe_def demo_split [unfolded nl_def]
    by (simp add: s demo_fields row_layout_def n group_row_def)
qed

lemma demo_lines_clean: "clean_line ''t:0:1'' = ''t:0:1''" "clean_line ''g t 0 1 1 0'' = ''g t 0 1 1 0''" "clean_line demo_record = demo_record"
  by (simp_all add: clean_line_def trim_right_cr_def trim_space_id space_free_end_def demo_record_def [symmetric])
    (simp add: clean_record_line [unfolded clean_line_def trim_right_cr_def] demo_record_def)

lemma demo_reading: "reading_of ''t'' (Inr demo_reply) = measured 1"
proof -
  have s: "trim_space (strip_cr l) = clean_line l" for l by (simp add: strip_cr_def clean_line_def trim_right_cr_def)
  have o: "offset_line ''t:0:1'' = Some (''t'', ''0'', ''1'')" "offset_line ''g t 0 1 1 0'' = None" "offset_line demo_record = None" by code_simp+
  have r: "offset_rows demo_reply ''t'' = [(''t'', ''0'', ''1'')]"
    by (simp add: offset_rows_def demo_split [unfolded nl_def] s demo_lines_clean o map_filter_simps)
  have n: "atoi_digits ''0'' = Some 0" "parse_int64 ''1'' = Some 1" "wrap64 1 = 1" by code_simp+
  show ?thesis by (simp add: reading_of_def parse_topic_offsets_def parse_offsets_of_def r n)
qed

lemma demo_consumed: "parse_consumed demo_decode demo_reply = [demo_record]"
proof -
  have "demo_decode demo_record = Some (corpus_record_of demo_digest ''m1'' 1)" by (simp add: demo_decode_def demo_record_def)
  then have "parse_record demo_decode demo_record = Some (corpus_record_of demo_digest ''m1'' 1)"
    unfolding demo_record_def by (rule record_line_parsed) (simp_all add: corpus_record_of_def)
  moreover have "demo_record \<noteq> []" using record_line_ends by (simp add: demo_record_def)
  moreover have "parse_record demo_decode l = None" if "l \<in> {''t:0:1'', ''g t 0 1 1 0''}" for l
  proof -
    have "trim_space l = l" using that by (auto simp: trim_space_id space_free_end_def)
    then show ?thesis using that by (auto simp: parse_record_def)
  qed
  ultimately show ?thesis unfolding parse_consumed_def demo_split [unfolded nl_def] by (simp add: demo_lines_clean)
qed

definition demo_lab :: lab where
  "demo_lab = options.extend
     (demo_options\<lparr>op_name := ''m1'', op_from := \<lparr>major = 3, minor = 9, patch = 1\<rparr>, op_provider := ''legacy'', op_also_from := [], op_sasl := False, op_password := [], op_tls := False,
        op_target_cluster := ''k'', op_target_namespace := ''n'', op_policy := policy_identity, op_topics := [''t''], op_messages := 1\<rparr>)
     (lab.fields ''s'' ''m1-src'' ''m1-src'' [] ''b:9092'' [] [] [] [''t''] [] ''mm2-m1'' ''n'' ''mm2-m1'' ''mm2-m1'' ''source'' ''g'' ''v'' Map.empty)"

definition demo_run :: lab_run where
  "demo_run = \<lparr>rn_lab = demo_lab, rn_timeout = 60 * one_second, rn_client_image = ''i'', rn_external = False, rn_source_image = ''j'', rn_source_mechanism = []\<rparr>"

text \<open>\<open>settles\<close> is whether the waits last; when they do not, the context was cancelled.\<close>

definition demo_world :: "bool \<Rightarrow> world" where
  "demo_world settles =
     \<lparr>wd_command = (\<lambda>h input argv. (Inr (case input of Some s \<Rightarrow> s | None \<Rightarrow> demo_reply), 0)),
      wd_pause = (\<lambda>h d. (if settles then None else Some ''context canceled'', 0))\<rparr>"

definition demo_status :: "string \<Rightarrow> (int \<times> status_doc option) option" where
  "demo_status s = Some (0, Some \<lparr>sd_conditions = [],
     sd_connectors = [\<lparr>co_name = source_connector_suffix, co_state = state_stopped, co_trace = [], co_tasks = []\<rparr>,
                     \<lparr>co_name = checkpoint_connector_suffix, co_state = state_running, co_trace = [], co_tasks = []\<rparr>], sd_replicas = 1, sd_observed = 0\<rparr>)"

definition demo_outside :: "bool \<Rightarrow> outside" where
  "demo_outside settles =
     \<lparr>ou_world = demo_world settles, ou_render = (\<lambda>m. Inr ''y''), ou_decode = demo_decode, ou_digest = demo_digest, ou_upper = (\<lambda>s. s), ou_base64 = Some,
      ou_status = demo_status, ou_chart_path = (\<lambda>s. s), ou_published = False, ou_write_file = (\<lambda>p c. None), ou_rollback_path = (\<lambda>s. s)\<rparr>"

definition demo_start :: run_state where
  "demo_start = fresh_state Map.empty \<lparr>io_log = [], io_now = 0\<rparr>"

definition logged :: "call \<Rightarrow> string \<Rightarrow> io \<Rightarrow> io" where
  "logged c r io = io\<lparr>io_log := (c, Inr r) # io_log io\<rparr>"

lemma demo_command [simp]:
  "run_command (demo_world b) None argv io = (Inr demo_reply, logged (Command None argv) demo_reply io)"
  "run_command (demo_world b) (Some s) argv io = (Inr s, logged (Command (Some s) argv) s io)"
  by (simp_all add: run_command_def demo_world_def logged_def Let_def)

definition usable :: "pod \<Rightarrow> bool" where
  "usable p \<longleftrightarrow> pd_namespace p \<noteq> [] \<and> pd_name p \<noteq> []"

definition runs :: "string list \<Rightarrow> bool" where
  "runs argv \<longleftrightarrow> argv \<noteq> [] \<and> hd argv \<noteq> []"

lemma demo_exec:
  assumes "usable p" "runs argv"
  shows "\<exists>io'. pod_exec (demo_world b) p argv io = (Inr demo_reply, io')" "\<exists>io'. pod_exec_input (demo_world b) p s argv io = (Inr s, io')"
    "\<exists>io'. invoke (demo_world b) (exec_call p argv) io = (Inr demo_reply, io')"
  using assms by (simp_all add: pod_exec_def pod_exec_input_def exec_call_def exec_input_call_def check_exec_def invoke_def usable_def runs_def)

lemma tools_run [simp]:
  "runs (list_topics t b cfg)" "runs (describe_group t b cfg g)" "runs (end_offsets t b cfg u)" "runs (producer_args t b cfg u)"
  "runs (consumer_args t b cfg u g n w d)"
  by (simp_all add: runs_def list_topics_def topics_args_def describe_group_def consumer_groups_def end_offsets_def producer_args_def
      consumer_args_def with_config_def tool_bin_def)

lemma demo_trim: "trim_space demo_reply = demo_reply" "demo_reply \<noteq> []" "demo_reply \<notin> {''Succeeded'', ''Failed''}"
proof -
  have "last demo_reply = last demo_record" using record_line_ends [of "corpus_record_of demo_digest ''m1'' 1"] by (simp add: demo_reply_def demo_record_def)
  then show "trim_space demo_reply = demo_reply"
    using record_line_ends [of "corpus_record_of demo_digest ''m1'' 1"] by (intro trim_space_id) (simp_all add: demo_reply_def demo_record_def space_free_end_def)
qed (simp_all add: demo_reply_def)

lemma demo_ensure: "validate_pod p = None \<Longrightarrow> \<exists>io'. ensure_pod (\<lambda>m. Inr ''y'') (demo_world b) p t io = (None, io')"
  using demo_trim by (simp add: ensure_pod_def Let_def wait_ready_def)

lemma demo_place: "usable p \<Longrightarrow> \<exists>io'. place_credential (demo_outside b) p ns secret mech user io = (None, io')"
  using demo_trim
  by (simp add: place_credential_def read_secret_key_def demo_outside_def write_file_def pod_exec_input_def exec_input_call_def check_exec_def
      usable_def invoke_def default_properties_path_def)

definition demo_source :: lab_source where "demo_source = first_source demo_lab"

lemma demo_sources: "lab_sources demo_lab = [demo_source]" "so_topics demo_source = [''t'']" "so_alias demo_source = ''source''"
  "so_provider demo_source = ''legacy''" "auth_of demo_source = source_auth_none" "replicated_topics demo_lab = [''t'']"
  "replicated_topic_of demo_lab (Some demo_source) u = u" "op_messages demo_lab = 1" "op_name demo_lab = ''m1''" "op_topics demo_lab = [''t'']"
  by (simp_all add: lab_sources_def demo_source_def first_source_def demo_lab_def options.extend_def lab.fields_def demo_options_def auth_of_def provider_name_def
      replicated_topics_def replicated_topic_of_def policy_identity_def policy_default_def source_auth_none_def)

definition demo_client :: source_client where "demo_client = source_client_of demo_run 0 demo_source []"

lemma demo_client_of: "source_client_of demo_run 0 demo_source i = demo_client"
  by (simp add: demo_client_def source_client_of_def demo_run_def Let_def)

lemma demo_pods: "validate_pod (sc_pod demo_client) = None" "validate_pod (target_pod demo_run) = None"
  by code_simp+

lemma demo_usable: "usable (sc_pod demo_client)" "usable (target_pod demo_run)"
  using demo_pods by (auto simp: validate_pod_def usable_def split: if_splits)

definition demo_clients :: lab_clients where
  "demo_clients =
     \<lparr>lc_sources = [demo_client], lc_target = target_pod demo_run, lc_target_tools = tools_for (op_to demo_lab) [],
      lc_target_cfg = default_properties_path, lc_target_bootstrap = target_bootstrap_for (op_target_cluster demo_lab) (op_target_namespace demo_lab),
      lc_ready = True\<rparr>"

text \<open>A state the demonstration goes through: the clients stand, no row failed and no phase noted an error.\<close>

definition demo_ready :: "run_state \<Rightarrow> bool" where
  "demo_ready s \<longleftrightarrow> lv_clients (ms_values s) = Some demo_clients \<and> clean (ms_report s) \<and> ms_errors s = []"

lemma demo_run_lab [simp]: "rn_lab demo_run = demo_lab" "rn_external demo_run = False"
  by (simp_all add: demo_run_def)

lemma demo_outside_parts [simp]:
  "ou_world (demo_outside b) = demo_world b" "ou_render (demo_outside b) = (\<lambda>m. Inr ''y'')" "ou_decode (demo_outside b) = demo_decode"
  "ou_digest (demo_outside b) = demo_digest" "ou_published (demo_outside b) = False" "ou_status (demo_outside b) = demo_status"
  by (simp_all add: demo_outside_def)

lemma demo_phase_clients: "\<exists>s. ensure_clients (demo_outside b) demo_run demo_start = (s, None) \<and> demo_ready s"
proof -
  obtain i io1 where s: "build_sources (demo_outside b) demo_run 0 [demo_source] (st_io demo_start) = ([demo_client], io1)"
    using demo_trim by (simp add: demo_client_of source_image_def demo_sources provider_name_def Let_def)
  obtain io2 where e1: "ensure_pod (\<lambda>m. Inr ''y'') (demo_world b) (sc_pod demo_client) (rn_timeout demo_run) io1 = (None, io2)"
    using demo_ensure [OF demo_pods(1)] by blast
  obtain io3 where e2: "ensure_pod (\<lambda>m. Inr ''y'') (demo_world b) (target_pod demo_run) (rn_timeout demo_run) io2 = (None, io3)"
    using demo_ensure [OF demo_pods(2)] by blast
  obtain io4 where c: "place_credential (demo_outside b) (target_pod demo_run) (op_target_namespace demo_lab) target_user ''SCRAM-SHA-512'' target_user io3 = (None, io4)"
    using demo_place [OF demo_usable(2)] by blast
  have src: "auth_of (sc_src demo_client) = source_auth_none" by (simp add: demo_client_def source_client_of_def demo_sources Let_def)
  have st: "lv_clients (ms_values demo_start) = None" "clean (ms_report demo_start)" "ms_errors demo_start = []"
    by (simp_all add: demo_start_def fresh_state_def new_state_def new_report_def clean_def)
  show ?thesis
    unfolding ensure_clients_def demo_sources(1) demo_run_lab Let_def s
    by (simp add: st e1 e2 c src demo_ready_def demo_clients_def Let_def)
qed

lemma demo_corpus: "corpus (demo_outside b) demo_run = [demo_record]" "corpus_ok (demo_outside b) demo_run"
proof -
  show "corpus (demo_outside b) demo_run = [demo_record]" by (simp add: corpus_def demo_sources records_def demo_record_def)
  show "corpus_ok (demo_outside b) demo_run" by (simp add: corpus_ok_def demo_sources reads_corpus_def demo_decode_def)
qed

lemma demo_ready_sources: "demo_ready s \<Longrightarrow> sources_of s = [demo_client]"
  by (simp add: demo_ready_def sources_of_def demo_clients_def)

lemma demo_ready_call: "demo_ready s \<Longrightarrow> (\<And>t b c. runs (f t b c)) \<Longrightarrow> \<exists>io'. invoke (demo_world b) (target_call s f) io = (Inr demo_reply, io')"
  by (simp add: demo_ready_def target_call_def demo_clients_def demo_exec(3) demo_usable)

lemma demo_client_src [simp]: "sc_src demo_client = demo_source"
  by (simp add: demo_client_def source_client_of_def Let_def)

lemma demo_phase_seed: "demo_ready s \<Longrightarrow> \<exists>s'. phase_seed (demo_outside b) demo_run s = (s', None) \<and> demo_ready s'"
proof -
  assume r: "demo_ready s"
  obtain io1 where p: "pod_exec_input (demo_world b) (sc_pod demo_client) (input_of [demo_record])
      (producer_args (sc_tools demo_client) (sc_bootstrap demo_client) (sc_cfg demo_client) ''t'') (st_io s) = (Inr (input_of [demo_record]), io1)"
    using demo_exec(2) [OF demo_usable(1) tools_run(4)] by blast
  show ?thesis using r by (simp add: phase_seed_def demo_ready_sources Let_def demo_sources demo_corpus creates_topics_def p demo_ready_def)
qed

lemma demo_phase_offsets: "demo_ready s \<Longrightarrow> \<exists>s'. phase_source_offsets (demo_outside b) demo_run s = (s', None) \<and> demo_ready s'"
proof -
  assume r: "demo_ready s"
  have "\<exists>io1. source_end_offsets (demo_outside b) demo_client ''t'' (st_io s) = (measured 1, io1)"
    using demo_exec(1) [OF demo_usable(1) tools_run(3), of b] demo_reading by (simp add: source_end_offsets_def Let_def split: if_splits) (metis apfst_conv)
  then obtain io1 where p: "source_end_offsets (demo_outside b) demo_client ''t'' (st_io s) = (measured 1, io1)" by blast
  have n: "sum_offsets [measured 1] = measured 1" by (simp add: sum_offsets_def measured_def wrap64_def)
  show ?thesis using r
    by (simp add: phase_source_offsets_def demo_ready_sources Let_def demo_sources p n demo_ready_def) (simp add: measured_def wrap64_def)
qed

lemma demo_phase_group: "demo_ready s \<Longrightarrow> \<exists>s'. phase_source_group (demo_outside b) demo_run s = (s', None) \<and> demo_ready s'"
proof -
  assume r: "demo_ready s"
  obtain io1 where p: "consume_half (demo_outside b) demo_run demo_client ''t'' (st_io s) = (Inr demo_reply, io1)"
    unfolding consume_half_def using demo_exec(1) [OF demo_usable(1) tools_run(5)] by fastforce
  obtain io2 where q: "pod_exec (demo_world b) (sc_pod demo_client)
      (describe_group (sc_tools demo_client) (sc_bootstrap demo_client) (sc_cfg demo_client) (lb_consumer_group demo_lab)) io1 = (Inr demo_reply, io2)"
    using demo_exec(1) [OF demo_usable(1) tools_run(2)] by blast
  show ?thesis using r
    by (simp add: phase_source_group_def demo_ready_sources Let_def demo_sources p q demo_ready_def committed_rows_def demo_group)
qed

lemma demo_phase_topic: "demo_ready s \<Longrightarrow> \<exists>s'. phase_replicated_topic (demo_outside b) demo_run s = (s', None) \<and> demo_ready s'"
proof -
  assume r: "demo_ready s"
  obtain io1 where p: "invoke (demo_world b) (target_call s list_topics) (st_io s) = (Inr demo_reply, io1)"
    using demo_ready_call [OF r, of list_topics] by fastforce
  have "poll (demo_world b) (target_call s list_topics) FifteenSeconds d (judge_topics [''t'']) [] (st_io s) = (Polled (), io1)" for d
    using demo_words by (simp add: poll.simps p judge_topics_def all_listed_def)
  then show ?thesis using r by (simp add: phase_replicated_topic_def demo_sources Let_def demo_ready_def)
qed

lemma demo_phase_read: "demo_ready s \<Longrightarrow> \<exists>s'. phase_read_back (demo_outside b) demo_run s = (s', None) \<and> demo_ready s'"
proof -
  assume r: "demo_ready s"
  have "\<exists>io1. invoke (demo_world b) (read_back_call demo_run s ''t'' 0) (st_io s) = (Inr demo_reply, io1)"
    unfolding read_back_call_def by (rule demo_ready_call [OF r]) simp
  then obtain io1 where p: "invoke (demo_world b) (read_back_call demo_run s ''t'' 0) (st_io s) = (Inr demo_reply, io1)" by blast
  have g: "read_topics (demo_outside b) demo_run s demo_source [''t''] 0 (st_io s) = ([(''t'', [demo_record])], io1)"
    by (simp add: demo_sources Let_def p output_of_def demo_consumed)
  have "missing_of (demo_outside b) demo_run [(''t'', [demo_record])] = []"
    by (simp add: missing_of_def demo_corpus corpus_diff_def Let_def record_ids_def map_filter_simps)
  moreover have "distinct_count [demo_record] = 1"
    using record_line_ends by (simp add: distinct_count_def demo_record_def)
  ultimately have "clean (content_row (demo_outside b) demo_run demo_source [(''t'', [demo_record])]
      (count_row demo_run demo_source [(''t'', [demo_record])] q)) \<longleftrightarrow> clean q" for q
    by (simp add: clean_content_row count_row_def Let_def demo_sources wrap64_def)
  then show ?thesis using r by (simp add: phase_read_back_def demo_sources(1,2) g demo_ready_def del: read_topics.simps)
qed

lemma demo_phase_translation: "demo_ready s \<Longrightarrow> \<exists>s'. phase_offset_translation (demo_outside b) demo_run s = (s', None) \<and> demo_ready s'"
proof -
  assume r: "demo_ready s"
  let ?f = "\<lambda>t b cfg. describe_group t b cfg (lb_consumer_group demo_lab)"
  obtain io1 where p: "invoke (demo_world b) (target_call s ?f) (st_io s) = (Inr demo_reply, io1)"
    using demo_ready_call [OF r, of ?f] by fastforce
  have "\<exists>q. judge_groups demo_run m ([demo_source], q0) (Inr demo_reply) = Inr q \<and> (clean q \<longleftrightarrow> clean q0)" for m q0
    by (simp add: judge_groups_def demo_group demo_sources translated_rows_def group_offsets_for_def Let_def)
  then obtain q where q: "judge_groups demo_run (lv_committed (ms_values s)) ([demo_source], ms_report s) (Inr demo_reply) = Inr q"
    "clean q \<longleftrightarrow> clean (ms_report s)" by blast
  have "poll (demo_world b) (target_call s ?f) FifteenSeconds d (judge_groups demo_run (lv_committed (ms_values s))) ([demo_source], ms_report s) (st_io s) = (Polled q, io1)" for d
    by (simp add: poll.simps p q(1))
  then show ?thesis using r q(2) by (simp add: phase_offset_translation_def demo_sources Let_def demo_ready_def)
qed

lemma demo_cutover: "demo_ready s \<Longrightarrow> \<exists>s'. apply_cutover (demo_outside b) demo_run s = (s', None) \<and> demo_ready s'"
proof -
  assume r: "demo_ready s"
  have d: "\<exists>io1. ensure_mirror_chart_deps (demo_outside b) io = (None, io1)" for io
    by (simp add: ensure_mirror_chart_deps_def)
  have st: "states_reached state_stopped state_running (parse_mirror_status 0 (snd (the (demo_status []))))"
    by code_simp
  then have j: "\<exists>st. judge_states (demo_outside b) state_stopped state_running q (Inr demo_reply) = Inr st" for q
    by (simp add: judge_states_def status_of_def demo_status_def)
  have w: "\<exists>io1. wait_connector_states (demo_outside b) ns cr state_stopped state_running t io = (None, io1)" for ns cr t io
  proof -
    obtain st where "judge_states (demo_outside b) state_stopped state_running empty_status (Inr demo_reply) = Inr st" using j by blast
    then show ?thesis by (simp add: wait_connector_states_def poll.simps invoke_def)
  qed
  obtain io1 where d1: "ensure_mirror_chart_deps (demo_outside b) (st_io s) = (None, io1)" using d by blast
  obtain io2 where w1: "wait_connector_states (demo_outside b) (lb_mirror_namespace demo_lab) (lb_mirror_cr demo_lab) state_stopped state_running (rn_timeout demo_run)
      (logged (Command None (helm_argv (helm_cutover_args (demo_outside b) (lb_mirror_release demo_lab) (lb_mirror_namespace demo_lab) (rn_timeout demo_run)))) demo_reply io1) = (None, io2)"
    using w by blast
  show ?thesis using r by (simp add: apply_cutover_def Let_def d1 w1 demo_ready_def)
qed

lemma demo_target_readings: "demo_ready s \<Longrightarrow> \<exists>io'. target_readings (demo_outside b) demo_run s io = (measured 1, io')"
proof -
  assume r: "demo_ready s"
  obtain io1 where "invoke (demo_world b) (target_call s (\<lambda>tl b cfg. end_offsets tl b cfg ''t'')) io = (Inr demo_reply, io1)"
    using demo_ready_call [OF r, of "\<lambda>tl b cfg. end_offsets tl b cfg ''t''"] by fastforce
  then show ?thesis by (simp add: target_readings_def demo_sources demo_reading Let_def sum_offsets_def measured_def wrap64_def)
qed

lemma demo_rehearsal:
  assumes "demo_ready s"
  shows "\<exists>s'. phase_cutover_rehearsal (demo_outside True) demo_run s = (s', None) \<and> demo_ready s'"
    and "\<exists>s'. phase_cutover_rehearsal (demo_outside False) demo_run s = (s', Some ''context canceled'') \<and> demo_ready s'"
proof -
  obtain s1 where c: "apply_cutover (demo_outside True) demo_run s = (s1, None)" "demo_ready s1" using demo_cutover [OF assms] by blast
  have pause: "\<exists>io'. pause (demo_world b) d io = (if b then None else Some ''context canceled'', io')" for b d io
    by (simp add: pause_def demo_world_def Let_def)
  obtain io1 where p1: "pause (demo_world True) migrate_cutover_settle (st_io s1) = (None, io1)" using pause [of True] by auto
  obtain io2 where b: "target_readings (demo_outside True) demo_run s1 io1 = (measured 1, io2)" using demo_target_readings [OF c(2)] by blast
  obtain io4 where p2: "pause (demo_world True) migrate_cutover_settle (produce_extra (demo_outside True) (sources_of s1) io2) = (None, io4)"
    using pause [of True] by auto
  obtain io5 where a: "target_readings (demo_outside True) demo_run s1 io4 = (measured 1, io5)" using demo_target_readings [OF c(2)] by blast
  have "clean (froze_row demo_run (measured 1) (measured 1) q) \<longleftrightarrow> clean q" for q
    by (simp add: clean_froze_row demo_sources measured_def wrap64_def)
  then show "\<exists>s'. phase_cutover_rehearsal (demo_outside True) demo_run s = (s', None) \<and> demo_ready s'"
    using c by (simp add: phase_cutover_rehearsal_def prove_frozen_def p1 b p2 a Let_def demo_ready_def)
  obtain s2 where c2: "apply_cutover (demo_outside False) demo_run s = (s2, None)" "demo_ready s2" using demo_cutover [OF assms] by blast
  obtain io1' where "pause (demo_world False) migrate_cutover_settle (st_io s2) = (Some ''context canceled'', io1')" using pause [of False] by auto
  then show "\<exists>s'. phase_cutover_rehearsal (demo_outside False) demo_run s = (s', Some ''context canceled'') \<and> demo_ready s'"
    using c2 by (simp add: phase_cutover_rehearsal_def prove_frozen_def demo_ready_def)
qed

lemma demo_verified: "\<exists>s. run_phases (\<lambda>k. None) 0 (verify_phases (demo_outside b) demo_run False) demo_start = (s, None) \<and> demo_ready s"
proof -
  obtain s1 where 1: "ensure_clients (demo_outside b) demo_run demo_start = (s1, None)" "demo_ready s1" using demo_phase_clients by blast
  obtain s2 where 2: "phase_seed (demo_outside b) demo_run s1 = (s2, None)" "demo_ready s2" using demo_phase_seed [OF 1(2)] by blast
  obtain s3 where 3: "phase_source_offsets (demo_outside b) demo_run s2 = (s3, None)" "demo_ready s3" using demo_phase_offsets [OF 2(2)] by blast
  obtain s4 where 4: "phase_source_group (demo_outside b) demo_run s3 = (s4, None)" "demo_ready s4" using demo_phase_group [OF 3(2)] by blast
  obtain s5 where 5: "phase_replicated_topic (demo_outside b) demo_run s4 = (s5, None)" "demo_ready s5" using demo_phase_topic [OF 4(2)] by blast
  obtain s6 where 6: "phase_read_back (demo_outside b) demo_run s5 = (s6, None)" "demo_ready s6" using demo_phase_read [OF 5(2)] by blast
  obtain s7 where 7: "phase_offset_translation (demo_outside b) demo_run s6 = (s7, None)" "demo_ready s7" using demo_phase_translation [OF 6(2)] by blast
  show ?thesis
    by (intro exI [of _ s7] conjI 7(2)) (simp add: verify_phases_def run_phase_def 1(1) 2(1) 3(1) 4(1) 5(1) 6(1) 7(1))
qed

section \<open>Properties\<close>



text \<open>
  C21. A rehearsal that fails without a row is lost: when the rehearsal of the cutover returns an error and has recorded no
  failed row (the charts' dependencies could not be built, or a wait was interrupted), \<open>kates migrate run\<close>
  ends as if it had passed, with the report it has.
\<close>

theorem rehearsal_lost:
  assumes "run_phases ctx 0 (verify_phases v r False) s0 = (s, None)" "ctx 7 = None"
    "phase_cutover_rehearsal v r s = (s', Some e)" "clean (ms_report s')"
  shows "snd (run_migrate_run v r ctx s0) = None \<and> ms_report (fst (run_migrate_run v r ctx s0)) = ms_report s'"
proof -
  let ?p = "run_phase ''cutover rehearsal'' True (phase_cutover_rehearsal v r)"
  have "run_phases ctx 0 (verify_phases v r True) s0 = run_phases ctx 7 [?p] s"
    using run_phases_snoc [OF assms(1), of ?p] unfolding verify_phases_snoc by simp
  also have "\<dots> = (s'\<lparr>ms_errors := ms_errors s' @ [(''cutover rehearsal'', e)]\<rparr>, None)"
    using assms(2,3) by (simp add: run_phase_def)
  finally show ?thesis using assms(4) by (simp add: run_migrate_run_def command_error_None Let_def)
qed

theorem rehearsal_lost_witness:
  "snd (run_migrate_run (demo_outside False) demo_run (\<lambda>k. None) demo_start) = None"
proof -
  obtain s7 where 7: "run_phases (\<lambda>k. None) 0 (verify_phases (demo_outside False) demo_run False) demo_start = (s7, None)" "demo_ready s7"
    using demo_verified by blast
  obtain s where s: "phase_cutover_rehearsal (demo_outside False) demo_run s7 = (s, Some ''context canceled'')" "demo_ready s"
    using demo_rehearsal(2) [OF 7(2)] by blast
  show ?thesis using rehearsal_lost [OF 7(1) refl s(1)] s(2) by (simp add: demo_ready_def)
qed

end
