(* ===== verification/LabDiscovery.thy ===== *)
theory LabDiscovery
  imports CommandRunner MigrationVerify
begin

text \<open>
  A lab as the cluster describes it (\<open>cli/cmd/migrate_lab.go\<close>): the labelled resources and the mirror's spec are read
  into a \<open>discovery\<close>, the source workloads are put in the order of the mirror's legs, and the target-side names
  follow. \<open>compile\<close> is \<open>regexp.Compile\<close> of a whole-name pattern, \<open>items_of\<close> the decoded list of \<open>kubectl\<close>;
  an object's spec is decoded, None when it does not decode. A source is a value here: the pointers of the code are
  never shared between two sources.
\<close>

section \<open>Data\<close>

record lab_resource =
  re_kind :: string
  re_name :: string
  re_namespace :: string
  re_release :: string
  re_role :: string

record mirror_auth =
  ma_known :: bool
  ma_sasl :: bool
  ma_user :: string
  ma_secret :: string

record found_source =
  fs_resource :: "lab_resource option"
  fs_alias :: string
  fs_release :: string
  fs_namespace :: string
  fs_provider :: string
  fs_version :: version
  fs_mode :: string
  fs_bootstrap :: string
  fs_topics :: "string list"
  fs_auth :: mirror_auth
  fs_owned :: bool

record mirror_leg =
  lg_alias :: string
  lg_bootstrap :: string
  lg_topics :: "string list"
  lg_auth :: mirror_auth
  lg_pattern :: string
  lg_pattern_only :: bool

record discovery =
  di_name :: string
  di_mirror :: "lab_resource option"
  di_mirror_release :: string
  di_mirror_namespace :: string
  di_mirror_cr :: string
  di_source :: "lab_resource option"
  di_sources :: "found_source list"
  di_source_release :: string
  di_source_namespace :: string
  di_source_provider :: string
  di_source_version :: version
  di_source_mode :: string
  di_source_bootstrap :: string
  di_source_alias :: string
  di_target :: "lab_resource option"
  di_target_cluster :: string
  di_target_namespace :: string
  di_target_bootstrap :: string
  di_topics :: "string list"
  di_policy :: string
  di_group_id :: string
  di_owned :: bool
  di_legs :: "mirror_leg list"

definition no_auth :: mirror_auth where
  "no_auth = \<lparr>ma_known = False, ma_sasl = False, ma_user = [], ma_secret = []\<rparr>"

definition empty_discovery :: discovery where
  "empty_discovery =
     \<lparr>di_name = [], di_mirror = None, di_mirror_release = [], di_mirror_namespace = [], di_mirror_cr = [], di_source = None, di_sources = [],
      di_source_release = [], di_source_namespace = [], di_source_provider = [], di_source_version = zero_version, di_source_mode = [],
      di_source_bootstrap = [], di_source_alias = [], di_target = None, di_target_cluster = [], di_target_namespace = [],
      di_target_bootstrap = [], di_topics = [], di_policy = [], di_group_id = [], di_owned = False, di_legs = []\<rparr>"

text \<open>The decoded parts of the two specs that are read.\<close>

record cluster_doc =
  cl_alias :: string
  cl_auth :: "(string \<times> string \<times> string) option"

record mirror_doc =
  mi_alias :: string
  mi_bootstrap :: string
  mi_pattern :: string
  mi_policy_class :: "string option"

record mirror_spec =
  mp_bootstrap :: string
  mp_group_id :: string
  mp_clusters :: "cluster_doc list"
  mp_mirrors :: "mirror_doc list"

record lab_item =
  it_kind :: string
  it_name :: string
  it_namespace :: string
  it_labels :: "string \<rightharpoonup> string"
  it_annotations :: "string \<rightharpoonup> string"
  it_mirror_spec :: "mirror_spec option"
  it_kafka_version :: string

definition map_get :: "(string \<rightharpoonup> string) \<Rightarrow> string \<Rightarrow> string" where
  "map_get m k = (case m k of Some v \<Rightarrow> v | None \<Rightarrow> [])"

definition annotation_lab_topics :: string where "annotation_lab_topics = ''kates.io/lab-topics''"
definition role_target :: string where "role_target = ''target''"

section \<open>Names on the target\<close>

definition uses_sasl :: "found_source \<Rightarrow> bool" where
  "uses_sasl s = (if ma_known (fs_auth s) then ma_sasl (fs_auth s) else suffix '':9094'' (fs_bootstrap s))"

definition target_topic :: "discovery \<Rightarrow> string \<Rightarrow> string \<Rightarrow> string" where
  "target_topic d alias t = (if di_policy d = policy_default \<and> alias \<noteq> [] then alias @ ''.'' @ t else t)"

definition discovered_topic :: "discovery \<Rightarrow> string \<Rightarrow> string" where
  "discovered_topic d t = target_topic d (di_source_alias d) t"

definition discovered_topics :: "discovery \<Rightarrow> string list" where
  "discovered_topics d =
     (let out = concat (map (\<lambda>s. map (target_topic d (fs_alias s)) (fs_topics s)) (di_sources d))
      in if out \<noteq> [] then out else map (discovered_topic d) (di_topics d))"

definition checkpoints_topic :: "string \<Rightarrow> string" where
  "checkpoints_topic alias = alias @ ''.checkpoints.internal''"

definition group_topics :: "string \<Rightarrow> string list" where
  "group_topics g = (if g = [] then [] else [g @ ''-configs'', g @ ''-offsets'', g @ ''-status''])"

text \<open>\<open>remdups\<close> keeps the last of equal aliases, so it is run over the reversed list.\<close>

definition first_seen :: "string list \<Rightarrow> string list" where
  "first_seen xs = rev (remdups (rev xs))"

definition internal_topics :: "discovery \<Rightarrow> string list" where
  "internal_topics d =
     (let aliases = first_seen (filter (\<lambda>a. a \<noteq> []) (map fs_alias (di_sources d)))
      in group_topics (di_group_id d) @ map checkpoints_topic aliases @
         (if aliases = [] \<and> di_source_alias d \<noteq> [] then [checkpoints_topic (di_source_alias d)] else []))"

section \<open>Topic patterns read back\<close>

definition split_topics :: "string \<Rightarrow> string list" where
  "split_topics s = filter (\<lambda>t. t \<noteq> []) (map trim_space (split_on (CHR '','') s))"

fun java_regex_unquote :: "string \<Rightarrow> string" where
  "java_regex_unquote [] = []"
| "java_regex_unquote (c # s) =
     (if c = bs then (case s of [] \<Rightarrow> [] | d # s' \<Rightarrow> d # java_regex_unquote s') else c # java_regex_unquote s)"

definition regex_syntax :: string where "regex_syntax = ''*+?()[]{}^$''"

definition plain_name :: "string \<Rightarrow> bool" where
  "plain_name s \<longleftrightarrow> s \<noteq> [] \<and> list_all (\<lambda>c. c \<notin> set regex_syntax) s"

definition topics_from_pattern :: "string \<Rightarrow> string list" where
  "topics_from_pattern p = filter plain_name (map java_regex_unquote (split_on (CHR ''|'') p))"

definition literal_pattern :: "string \<Rightarrow> bool" where
  "literal_pattern p \<longleftrightarrow> p = [] \<or> list_all (\<lambda>s. plain_name (java_regex_unquote s)) (split_on (CHR ''|'') p)"

definition leg_topics :: "(string \<Rightarrow> (string \<Rightarrow> bool) option) \<Rightarrow> string list \<Rightarrow> string \<Rightarrow> nat \<Rightarrow> string list \<times> bool" where
  "leg_topics compile recorded pattern legs =
     (let from_pattern = (topics_from_pattern pattern, \<not> literal_pattern pattern)
      in if recorded = [] then from_pattern
         else if legs = 1 then (recorded, False)
         else (case compile pattern of
                 None \<Rightarrow> from_pattern
               | Some matches \<Rightarrow> let out = filter matches recorded in if out = [] then from_pattern else (out, False)))"

section \<open>Reading the mirror's spec\<close>

definition host_of :: "string \<Rightarrow> string" where
  "host_of b = takeWhile (\<lambda>c. c \<noteq> CHR '':'') b"

definition cluster_from_bootstrap :: "string \<Rightarrow> string \<times> string" where
  "cluster_from_bootstrap b =
     (case split_on (CHR ''.'') (host_of b) of
        h # n # rest \<Rightarrow> if suffix ''-kafka-bootstrap'' h then (trim_suffix ''-kafka-bootstrap'' h, n) else ([], [])
      | _ \<Rightarrow> ([], []))"

definition auth_doc :: "cluster_doc \<Rightarrow> mirror_auth" where
  "auth_doc c =
     (case cl_auth c of
        Some (kind, user, secret) \<Rightarrow>
          if kind \<noteq> [] \<and> kind \<noteq> ''tls'' then \<lparr>ma_known = True, ma_sasl = True, ma_user = user, ma_secret = secret\<rparr>
          else no_auth\<lparr>ma_known := True\<rparr>
      | None \<Rightarrow> no_auth\<lparr>ma_known := True\<rparr>)"

text \<open>The last cluster of an alias wins, as the map is written in order.\<close>

definition auth_for :: "cluster_doc list \<Rightarrow> string \<Rightarrow> mirror_auth" where
  "auth_for cs alias = (case map_of (map (\<lambda>c. (cl_alias c, auth_doc c)) (rev cs)) alias of Some a \<Rightarrow> a | None \<Rightarrow> no_auth)"

definition leg_of :: "(string \<Rightarrow> (string \<Rightarrow> bool) option) \<Rightarrow> string list \<Rightarrow> mirror_spec \<Rightarrow> mirror_doc \<Rightarrow> mirror_leg" where
  "leg_of compile recorded s m =
     (let (topics, only) = leg_topics compile recorded (mi_pattern m) (length (mp_mirrors s))
      in \<lparr>lg_alias = mi_alias m, lg_bootstrap = mi_bootstrap m, lg_topics = topics, lg_auth = auth_for (mp_clusters s) (mi_alias m),
          lg_pattern = mi_pattern m, lg_pattern_only = only\<rparr>)"

text \<open>\<open>strings.Contains\<close>\<close>

definition contains_text :: "string \<Rightarrow> string \<Rightarrow> bool" where
  "contains_text s sub \<longleftrightarrow> sublist sub s"

definition read_mirror_spec :: "(string \<Rightarrow> (string \<Rightarrow> bool) option) \<Rightarrow> mirror_spec option \<Rightarrow> string \<Rightarrow> discovery \<Rightarrow> discovery" where
  "read_mirror_spec compile spec lab_topics d =
     (case spec of
        None \<Rightarrow> d
      | Some s \<Rightarrow>
          let d1 = d\<lparr>di_group_id := mp_group_id s, di_target_bootstrap := mp_bootstrap s,
                     di_target_cluster := fst (cluster_from_bootstrap (mp_bootstrap s)),
                     di_target_namespace := snd (cluster_from_bootstrap (mp_bootstrap s))\<rparr>
          in (case mp_mirrors s of
                [] \<Rightarrow> d1
              | first # rest \<Rightarrow>
                  let recorded = split_topics lab_topics; legs = map (leg_of compile recorded s) (mp_mirrors s)
                  in d1\<lparr>di_legs := di_legs d1 @ legs,
                        di_topics := (if recorded \<noteq> [] then recorded else di_topics d1 @ concat (map lg_topics legs)),
                        di_source_alias := mi_alias first, di_source_bootstrap := mi_bootstrap first,
                        di_policy := (case mi_policy_class first of
                           Some c \<Rightarrow> if contains_text c ''IdentityReplicationPolicy'' then policy_identity else policy_default
                         | None \<Rightarrow> policy_default)\<rparr>))"

section \<open>The sources, in the order of the mirror's legs\<close>

text \<open>\<open>legNamesSource\<close>\<close>

definition leg_names_source :: "string \<Rightarrow> found_source \<Rightarrow> bool" where
  "leg_names_source b s \<longleftrightarrow> b \<noteq> [] \<and> fs_release s \<noteq> [] \<and> fs_namespace s \<noteq> [] \<and>
     (case split_on (CHR ''.'') (host_of b) of
        h # n # rest \<Rightarrow> n = fs_namespace s \<and> prefix (fs_release s @ ''-'') h
      | _ \<Rightarrow> False)"

definition leg_claims :: "mirror_leg \<Rightarrow> found_source \<Rightarrow> bool" where
  "leg_claims leg s \<longleftrightarrow> fs_alias s \<noteq> [] \<and> fs_alias s = lg_alias leg \<or> leg_names_source (lg_bootstrap leg) s"

definition from_leg :: "mirror_leg \<Rightarrow> found_source \<Rightarrow> found_source" where
  "from_leg leg s = s\<lparr>fs_alias := lg_alias leg, fs_bootstrap := lg_bootstrap leg, fs_topics := lg_topics leg, fs_auth := lg_auth leg\<rparr>"

text \<open>The first workload that is not claimed and the leg claims, and those left.\<close>

fun claim :: "mirror_leg \<Rightarrow> found_source list \<Rightarrow> (found_source \<times> found_source list) option" where
  "claim leg [] = None"
| "claim leg (s # ss) = (if leg_claims leg s then Some (s, ss) else map_option (\<lambda>(x, left). (x, s # left)) (claim leg ss))"

fun match_legs :: "mirror_leg list \<Rightarrow> found_source list \<Rightarrow> found_source list \<times> found_source list" where
  "match_legs [] left = ([], left)"
| "match_legs (leg # legs) left =
     (case claim leg left of
        None \<Rightarrow> match_legs legs left
      | Some (x, left') \<Rightarrow> (let (out, left'') = match_legs legs left' in (from_leg leg x # out, left'')))"

text \<open>One source and one leg belong together even when no name says so.\<close>

definition sole_leg :: "found_source list \<Rightarrow> mirror_leg list \<Rightarrow> found_source list" where
  "sole_leg out legs =
     (case out of
        [s] \<Rightarrow> (case legs of [leg] \<Rightarrow> if fs_bootstrap s = [] then [from_leg leg s] else [s] | _ \<Rightarrow> [s])
      | _ \<Rightarrow> out)"

definition order_lab_sources :: "found_source list \<Rightarrow> mirror_leg list \<Rightarrow> found_source list" where
  "order_lab_sources found legs =
     (if found = [] then [] else (let (matched, left) = match_legs legs found in sole_leg (matched @ left) legs))"

section \<open>Discovery\<close>

record reading =
  rd_compile :: "string \<Rightarrow> (string \<Rightarrow> bool) option"
  rd_items :: "string \<Rightarrow> string + lab_item list"
  rd_lower :: "string \<Rightarrow> string"

datatype discovery_error =
    NotListed string
  | NotParsed string
  | NoLab
  | ManyLabs "string list"
  | NoLabNamed string

text \<open>\<open>byLab\<close> is the list of labelled items: the keys of the map are the labels in it.\<close>

definition lab_label :: "lab_item \<Rightarrow> string" where
  "lab_label it = map_get (it_labels it) label_lab"

definition pick_lab_name :: "lab_item list \<Rightarrow> string \<Rightarrow> discovery_error + string" where
  "pick_lab_name items n =
     (let labs = remdups (map lab_label items)
      in if n \<noteq> [] then (if n \<in> set labs then Inr n else Inl (NoLabNamed n))
         else (case labs of [] \<Rightarrow> Inl NoLab | [lab] \<Rightarrow> Inr lab | _ \<Rightarrow> Inl (ManyLabs (sort_names labs))))"

definition resource_of :: "lab_item \<Rightarrow> lab_resource" where
  "resource_of it =
     (let release = map_get (it_labels it) ''app.kubernetes.io/instance''
      in \<lparr>re_kind = it_kind it, re_name = it_name it, re_namespace = it_namespace it,
          re_release = (if release = [] then map_get (it_annotations it) ''meta.helm.sh/release-name'' else release),
          re_role = map_get (it_labels it) label_role\<rparr>)"

definition version_or_zero :: "string \<Rightarrow> version" where
  "version_or_zero s = (case parse_version s of Inr v \<Rightarrow> v | Inl e \<Rightarrow> zero_version)"

definition source_of :: "lab_item \<Rightarrow> string \<Rightarrow> string \<Rightarrow> version \<Rightarrow> found_source" where
  "source_of it provider mode v =
     (let res = resource_of it
      in \<lparr>fs_resource = Some res, fs_alias = map_get (it_labels it) label_source_alias, fs_release = re_release res,
          fs_namespace = re_namespace res, fs_provider = provider, fs_version = v, fs_mode = mode, fs_bootstrap = [],
          fs_topics = [], fs_auth = no_auth, fs_owned = False\<rparr>)"

definition add_item :: "reading \<Rightarrow> lab_item \<Rightarrow> discovery \<Rightarrow> discovery \<times> found_source option" where
  "add_item rd it d =
     (let res = resource_of it; kind = rd_lower rd (it_kind it)
      in if kind = ''kafkamirrormaker2'' then
           (read_mirror_spec (rd_compile rd) (it_mirror_spec it) (map_get (it_annotations it) annotation_lab_topics)
              (d\<lparr>di_mirror := Some res, di_mirror_release := re_release res, di_mirror_namespace := re_namespace res,
                 di_mirror_cr := re_name res\<rparr>), None)
         else if kind = ''statefulset'' then
           (if map_get (it_labels it) ''app.kubernetes.io/component'' \<noteq> ''broker'' then (d, None)
            else (d, Some (source_of it (provider_name ProviderLegacy) (map_get (it_labels it) ''kates.io/kafka-mode'')
                             (version_or_zero (map_get (it_labels it) ''app.kubernetes.io/version'')))))
         else if kind = ''kafka'' then
           (if re_role res = role_target then (d\<lparr>di_target := Some res\<rparr>, None)
            else (d, Some (source_of it (provider_name ProviderStrimzi) [] (version_or_zero (it_kafka_version it)))))
         else (d, None))"

fun add_items :: "reading \<Rightarrow> lab_item list \<Rightarrow> discovery \<Rightarrow> discovery \<times> found_source list" where
  "add_items rd [] d = (d, [])"
| "add_items rd (it # its) d =
     (let (d1, src) = add_item rd it d; (d2, found) = add_items rd its d1
      in (d2, (case src of Some s \<Rightarrow> [s] | None \<Rightarrow> []) @ found))"

definition adopt_first_source :: "discovery \<Rightarrow> discovery" where
  "adopt_first_source d =
     (case di_sources d of
        [] \<Rightarrow> d
      | s # _ \<Rightarrow>
          d\<lparr>di_source := fs_resource s, di_source_release := fs_release s, di_source_namespace := fs_namespace s,
            di_source_provider := fs_provider s, di_source_version := fs_version s, di_source_mode := fs_mode s,
            di_source_bootstrap := (if fs_bootstrap s \<noteq> [] then fs_bootstrap s else di_source_bootstrap d),
            di_source_alias := (if fs_alias s \<noteq> [] then fs_alias s else di_source_alias d), di_owned := fs_owned s\<rparr>)"

definition namespace_has_label :: "world \<Rightarrow> string \<Rightarrow> string \<Rightarrow> string \<Rightarrow> io \<Rightarrow> bool \<times> io" where
  "namespace_has_label w ns label v io =
     (case run_command w None [''kubectl'', ''get'', ''namespace'', ns, ''--ignore-not-found'', ''-o'',
          ''jsonpath={.metadata.labels.'' @ jsonpath_key label @ ''}''] io of
        (Inr out, io') \<Rightarrow> (trim_space out = v, io')
      | (Inl e, io') \<Rightarrow> (False, io'))"

fun ask_owned :: "world \<Rightarrow> string \<Rightarrow> found_source list \<Rightarrow> io \<Rightarrow> found_source list \<times> io" where
  "ask_owned w n [] io = ([], io)"
| "ask_owned w n (s # ss) io =
     (let (owned, io1) = (if fs_namespace s \<noteq> [] then namespace_has_label w (fs_namespace s) label_lab n io else (fs_owned s, io));
          (ss', io2) = ask_owned w n ss io1
      in (s\<lparr>fs_owned := owned\<rparr> # ss', io2))"

definition parse_labelled_items :: "reading \<Rightarrow> string \<Rightarrow> string + lab_item list" where
  "parse_labelled_items rd out =
     (if trim_space out = [] then Inr []
      else (case rd_items rd out of Inl e \<Rightarrow> Inl (''parse the lab's resources: '' @ e) | Inr its \<Rightarrow> Inr its))"

definition discovered :: "reading \<Rightarrow> string \<Rightarrow> lab_item list \<Rightarrow> discovery" where
  "discovered rd n items =
     (let (d, found) = add_items rd (filter (\<lambda>it. lab_label it = n) items) (empty_discovery\<lparr>di_name := n\<rparr>)
      in d\<lparr>di_sources := order_lab_sources found (di_legs d)\<rparr>)"

definition discover_lab :: "reading \<Rightarrow> world \<Rightarrow> string \<Rightarrow> io \<Rightarrow> (discovery_error + discovery) \<times> io" where
  "discover_lab rd w n io =
     (let sel = label_lab @ (if n \<noteq> [] then ''='' @ n else [])
      in (case run_command w None [''kubectl'', ''get'', ''kafkamirrormaker2,statefulset,kafka'', ''-A'', ''-l'', sel, ''-o'', ''json''] io of
            (Inl e, io1) \<Rightarrow> (Inl (NotListed e), io1)
          | (Inr out, io1) \<Rightarrow>
              (case parse_labelled_items rd out of
                 Inl e \<Rightarrow> (Inl (NotParsed e), io1)
               | Inr items \<Rightarrow>
                   (let labelled = filter (\<lambda>it. lab_label it \<noteq> []) items
                    in (case pick_lab_name labelled n of
                          Inl e \<Rightarrow> (Inl e, io1)
                        | Inr lab \<Rightarrow>
                            (let d = discovered rd lab labelled; (ss, io2) = ask_owned w lab (di_sources d) io1
                             in (Inr (adopt_first_source (d\<lparr>di_sources := ss\<rparr>)), io2)))))))"

section \<open>Between a lab and its discovery\<close>

definition discovery_from_lab :: "lab \<Rightarrow> (string \<Rightarrow> bool) option \<Rightarrow> discovery" where
  "discovery_from_lab l owned =
     (let src = (\<lambda>s. \<lparr>fs_resource = Some (if so_provider s = provider_name ProviderLegacy
                        then \<lparr>re_kind = ''StatefulSet'', re_name = so_release s @ ''-legacy-kafka'', re_namespace = so_namespace s,
                              re_release = so_release s, re_role = role_source\<rparr>
                        else \<lparr>re_kind = ''Kafka'', re_name = so_cluster s, re_namespace = so_namespace s,
                              re_release = so_release s, re_role = role_source\<rparr>),
                      fs_alias = so_alias s, fs_release = so_release s, fs_namespace = so_namespace s, fs_provider = so_provider s,
                      fs_version = so_from s, fs_mode = so_mode s, fs_bootstrap = so_bootstrap s, fs_topics = so_topics s,
                      fs_auth = no_auth, fs_owned = (case owned of Some f \<Rightarrow> f (so_namespace s) | None \<Rightarrow> False)\<rparr>);
          sources = map src (lab_sources l)
      in empty_discovery\<lparr>di_name := op_name l,
           di_mirror := Some \<lparr>re_kind = ''KafkaMirrorMaker2'', re_name = lb_mirror_cr l, re_namespace = lb_mirror_namespace l,
                              re_release = lb_mirror_release l, re_role = role_mirror\<rparr>,
           di_mirror_release := lb_mirror_release l, di_mirror_namespace := lb_mirror_namespace l, di_mirror_cr := lb_mirror_cr l,
           di_source := fs_resource (hd sources), di_sources := sources,
           di_source_release := lb_source_release l, di_source_namespace := lb_source_namespace l,
           di_source_provider := op_provider l, di_source_version := op_from l, di_source_mode := op_mode l,
           di_source_bootstrap := lb_source_bootstrap l, di_source_alias := lb_source_alias l,
           di_target_cluster := op_target_cluster l, di_target_namespace := op_target_namespace l,
           di_topics := op_topics l, di_policy := op_policy l, di_group_id := lb_group_id l, di_owned := fs_owned (hd sources)\<rparr>)"

text \<open>What the environment of a command gives: the target, its operator and the registry of mirrored images.\<close>

record lab_env =
  le_version :: version
  le_cluster :: string
  le_namespace :: string
  le_strimzi :: string
  le_scope :: string
  le_registry :: string

datatype rebuild_error =
    VersionUnknown string
  | SourceVersionUnknown string string
  | NotRebuilt string lab_error

definition provider_or_legacy :: "string \<Rightarrow> string" where
  "provider_or_legacy p = (if p = [] then provider_name ProviderLegacy else p)"

definition extra_spec :: "string \<Rightarrow> found_source \<Rightarrow> rebuild_error + source_spec" where
  "extra_spec lab s =
     (if fs_version s = zero_version then Inl (SourceVersionUnknown lab (fs_alias s))
      else Inr \<lparr>sp_from = fs_version s, sp_provider = provider_or_legacy (fs_provider s), sp_mode = [], sp_strimzi = []\<rparr>)"

text \<open>\<open>d.Sources[1:]\<close> panics on a discovery without a source; \<open>tl\<close> is then empty.\<close>

definition lab_options_from_discovery :: "discovery \<Rightarrow> lab_env \<Rightarrow> string \<Rightarrow> rebuild_error + options" where
  "lab_options_from_discovery d env provider =
     (case try_map (extra_spec (di_name d)) (tl (di_sources d)) of
        Inl e \<Rightarrow> Inl e
      | Inr extras \<Rightarrow>
          let named = (di_target_cluster d \<noteq> [] \<and> di_target_namespace d \<noteq> []);
              by_port = suffix '':9094'' (di_source_bootstrap d);
              sasl = (case di_sources d of s # _ \<Rightarrow> if ma_known (fs_auth s) then ma_sasl (fs_auth s) else by_port | [] \<Rightarrow> by_port);
              secured = (provider = provider_name ProviderLegacy \<and> sasl)
          in Inr \<lparr>op_name = di_name d, op_from = di_source_version d, op_to = le_version env, op_provider = provider, op_mode = [],
                  op_source_strimzi = [], op_also_from = extras, op_read_only = False, op_target_is_primary = True,
                  op_target_cluster = (if named then di_target_cluster d else le_cluster env),
                  op_target_namespace = (if named then di_target_namespace d else le_namespace env),
                  op_policy = di_policy d, op_topics = (if extras = [] then di_topics d else []), op_messages = 0,
                  op_sasl = secured, op_password = (if secured then ''existing'' else []), op_tls = False, op_registry = [],
                  op_image_mirror = le_registry env, op_strimzi = le_strimzi env, op_scope = le_scope env\<rparr>)"

definition legacy_secret :: "string \<Rightarrow> string" where
  "legacy_secret release = release @ ''-'' @ legacy_sasl_user"

definition apply_discovered_source :: "discovery \<Rightarrow> string \<Rightarrow> lab \<Rightarrow> lab" where
  "apply_discovered_source d provider l =
     (let l1 = (if di_source_release d \<noteq> []
                then l\<lparr>lb_source_release := di_source_release d, lb_source_cluster := di_source_release d,
                       lb_source_secret := (if op_sasl l \<and> provider = provider_name ProviderLegacy
                                            then legacy_secret (di_source_release d) else lb_source_secret l)\<rparr>
                else l);
          l2 = (case di_sources d of
                  s # _ \<Rightarrow>
                    if ma_secret (fs_auth s) \<noteq> []
                    then l1\<lparr>lb_source_secret := ma_secret (fs_auth s),
                            lb_source_user := (if ma_user (fs_auth s) \<noteq> [] then ma_user (fs_auth s) else lb_source_user l1)\<rparr>
                    else l1
                | [] \<Rightarrow> l1);
          l3 = (if di_source_namespace d \<noteq> [] then l2\<lparr>lb_source_namespace := di_source_namespace d\<rparr> else l2);
          l4 = (if di_source_bootstrap d \<noteq> [] then l3\<lparr>lb_source_bootstrap := di_source_bootstrap d\<rparr> else l3);
          l5 = (if di_mirror_release d \<noteq> []
                then l4\<lparr>lb_mirror_release := di_mirror_release d, lb_mirror_cr := di_mirror_cr d,
                        lb_mirror_namespace := di_mirror_namespace d\<rparr>
                else l4);
          l6 = (if di_group_id d \<noteq> [] then l5\<lparr>lb_group_id := di_group_id d\<rparr> else l5);
          l7 = (if di_source_alias d \<noteq> [] then l6\<lparr>lb_source_alias := di_source_alias d\<rparr> else l6)
      in (case di_sources d of
            s # _ \<Rightarrow> if fs_topics s \<noteq> [] then l7\<lparr>lb_source_topics := fs_topics s\<rparr> else l7
          | [] \<Rightarrow> l7))"

definition apply_discovered_extra :: "lab_source \<Rightarrow> found_source \<Rightarrow> lab_source" where
  "apply_discovered_extra x s =
     (let legacy = (so_provider x = provider_name ProviderLegacy);
          x1 = (if fs_alias s \<noteq> [] then x\<lparr>so_alias := fs_alias s\<rparr> else x);
          x2 = (if fs_release s \<noteq> []
                then x1\<lparr>so_release := fs_release s, so_cluster := fs_release s,
                        so_secret := (if so_sasl x1 \<and> legacy then legacy_secret (fs_release s) else so_secret x1)\<rparr>
                else x1);
          x3 = (if fs_namespace s \<noteq> [] then x2\<lparr>so_namespace := fs_namespace s\<rparr> else x2);
          x4 = (if fs_bootstrap s \<noteq> []
                then (let y = x3\<lparr>so_bootstrap := fs_bootstrap s, so_sasl := uses_sasl s\<rparr>;
                          z = (if so_sasl y \<and> legacy
                               then y\<lparr>so_user := legacy_sasl_user, so_secret := legacy_secret (so_release y)\<rparr> else y)
                      in if ma_secret (fs_auth s) \<noteq> []
                         then z\<lparr>so_user := ma_user (fs_auth s), so_secret := ma_secret (fs_auth s)\<rparr> else z)
                else x3);
          x5 = (if fs_topics s \<noteq> [] then x4\<lparr>so_topics := fs_topics s\<rparr> else x4)
      in x5\<lparr>so_password := []\<rparr>)"

fun apply_discovered_extras :: "lab_source list \<Rightarrow> found_source list \<Rightarrow> lab_source list" where
  "apply_discovered_extras (x # xs) (s # ss) = apply_discovered_extra x s # apply_discovered_extras xs ss"
| "apply_discovered_extras xs ss = xs"

definition lab_from_discovery :: "(nat \<Rightarrow> string option) \<Rightarrow> discovery \<Rightarrow> lab_env \<Rightarrow> rebuild_error + lab" where
  "lab_from_discovery rand d env =
     (if di_source_version d = zero_version then Inl (VersionUnknown (di_name d))
      else
        (let provider = provider_or_legacy (di_source_provider d)
         in (case lab_options_from_discovery d env provider of
               Inl e \<Rightarrow> Inl e
             | Inr o' \<Rightarrow>
                 (case new_lab rand o' of
                    Inl e \<Rightarrow> Inl (NotRebuilt (di_name d) e)
                  | Inr l \<Rightarrow>
                      (let l' = apply_discovered_source d provider (l\<lparr>op_password := []\<rparr>);
                           l'' = l'\<lparr>lb_extra_sources := apply_discovered_extras (lb_extra_sources l') (tl (di_sources d))\<rparr>
                       in Inr (l''\<lparr>op_topics := concat (map so_topics (lab_sources l''))\<rparr>))))))"

section \<open>Patterns: lemmas\<close>

lemma unquote_quote: "java_regex_unquote (java_regex_quote t @ s) = t @ java_regex_unquote s"
proof (induction t)
  case (Cons c t)
  have "java_regex_quote (c # t) = (if c \<in> set regex_specials then [bs, c] else [c]) @ java_regex_quote t"
    by (simp add: java_regex_quote_def bs_def)
  moreover have "bs \<in> set regex_specials" by (simp add: regex_specials_def bs_def)
  ultimately show ?case using Cons by auto
qed (simp add: java_regex_quote_def)

lemma unquote_quoted [simp]: "java_regex_unquote (java_regex_quote t) = t"
  using unquote_quote [of t "[]"] by simp

text \<open>What a topic name holds, as bytes; the byte 45 to 122 that is not in it and is syntax of patterns is one of four.\<close>

lemma topic_chars:
  assumes "topic_name t" "c \<in> set t"
  shows "let n = (of_char c :: nat) in 45 \<le> n \<and> n < 123 \<and> n \<noteq> 63 \<and> n \<noteq> 91 \<and> n \<noteq> 93 \<and> n \<noteq> 94"
proof -
  have "is_label_char c \<or> 65 \<le> (of_char c :: nat) \<and> (of_char c :: nat) \<le> 90 \<or> c = CHR ''.'' \<or> c = CHR ''_'' \<or> c = CHR ''-''"
    using assms by (simp add: topic_name_def list_all_iff)
  then show ?thesis by (elim disjE) (auto simp: is_label_char_def is_digit_def)
qed

lemma regex_syntax_chars:
  "c \<in> set regex_syntax \<Longrightarrow> let n = (of_char c :: nat) in n < 45 \<or> n = 63 \<or> n = 91 \<or> n = 93 \<or> n = 94 \<or> 123 \<le> n"
  by (auto simp: regex_syntax_def)

lemma topic_plain:
  assumes "topic_name t"
  shows "plain_name t"
proof -
  have "c \<notin> set regex_syntax" if "c \<in> set t" for c
    using topic_chars [OF assms that] regex_syntax_chars [of c] unfolding Let_def by linarith
  moreover have "t \<noteq> []" using assms by (auto simp: topic_name_def)
  ultimately show ?thesis by (simp add: plain_name_def list_all_iff)
qed

lemma topic_quote_no_bar: "topic_name t \<Longrightarrow> CHR ''|'' \<notin> set (java_regex_quote t)"
  using topic_chars [of t "CHR ''|''"] by (auto simp: java_regex_quote_def split: if_splits)

lemma topics_pattern_split:
  assumes "ts \<noteq> []" "list_all topic_name ts"
  shows "split_on (CHR ''|'') (topics_pattern ts) = map java_regex_quote ts"
  unfolding topics_pattern_def using assms by (intro split_on_join) (auto simp: list_all_iff topic_quote_no_bar)

section \<open>The order of the sources: lemmas\<close>

lemma claim_Some: "claim leg ss = Some (x, left) \<Longrightarrow> leg_claims leg x \<and> mset ss = add_mset x (mset left)"
  by (induction ss arbitrary: x left) (auto split: if_splits)

lemma match_legs_keeps:
  "match_legs legs ss = (out, left) \<Longrightarrow> image_mset fs_resource (mset ss) = image_mset fs_resource (mset (out @ left))"
proof (induction legs ss arbitrary: out left rule: match_legs.induct)
  case (2 leg legs ss)
  show ?case
  proof (cases "claim leg ss")
    case (Some p)
    then obtain x rest where c: "claim leg ss = Some (x, rest)" by (cases p) auto
    then obtain out' where m: "match_legs legs rest = (out', left)" "out = from_leg leg x # out'"
      using "2.prems" by (auto split: prod.splits)
    show ?thesis using "2.IH"(2) [OF c refl m(1)] claim_Some [OF c] m(2) by (simp add: from_leg_def)
  qed (use 2 in auto)
qed simp

lemma sole_leg_resources: "map fs_resource (sole_leg out legs) = map fs_resource out"
  by (simp add: sole_leg_def from_leg_def split: list.split)

text \<open>Each leg claims its own workload and none of those after it.\<close>

fun apart :: "mirror_leg list \<Rightarrow> found_source list \<Rightarrow> bool" where
  "apart [] fs \<longleftrightarrow> fs = []"
| "apart (leg # legs) fs \<longleftrightarrow>
     (case fs of f # rest \<Rightarrow> leg_claims leg f \<and> list_all (\<lambda>g. \<not> leg_claims leg g) rest \<and> apart legs rest | [] \<Rightarrow> False)"

lemma claim_None: "claim leg ss = None \<longleftrightarrow> (\<forall>s\<in>set ss. \<not> leg_claims leg s)"
  by (induction ss) auto

lemma match_legs_exact:
  "apart legs fs \<Longrightarrow> mset found = mset fs \<Longrightarrow> match_legs legs found = (map2 from_leg legs fs, [])"
proof (induction legs arbitrary: fs found)
  case (Cons leg legs)
  then obtain f rest where fs: "fs = f # rest" "leg_claims leg f" "\<forall>g\<in>set rest. \<not> leg_claims leg g" "apart legs rest"
    by (cases fs) (auto simp: list_all_iff)
  have set: "set found = insert f (set rest)" using Cons.prems(2) fs(1) by (metis list.simps(15) set_mset_mset)
  then obtain x left where c: "claim leg found = Some (x, left)"
    using fs(2) claim_None [of leg found] by (cases "claim leg found") auto
  have x: "leg_claims leg x" "mset found = add_mset x (mset left)" using claim_Some [OF c] by auto
  then have "x \<in> set found" by (metis union_single_eq_member set_mset_mset)
  then have "x = f" using x(1) set fs(3) by auto
  then have "mset left = mset rest" using x(2) Cons.prems(2) fs(1) by simp
  then show ?case using Cons.IH [OF fs(4)] c fs(1) \<open>x = f\<close> by simp
qed simp

text \<open>A source's address: a service of its release in its namespace.\<close>

definition own_address :: "lab_source \<Rightarrow> bool" where
  "own_address s \<longleftrightarrow> (\<exists>svc port. so_bootstrap s = service_address svc (so_namespace s) port \<and> CHR ''.'' \<notin> set svc \<and> CHR '':'' \<notin> set svc \<and>
     prefix (so_release s @ ''-'') svc) \<and> dns_label (so_namespace s) \<and> so_release s \<noteq> []"

lemma dns_label_plain: "dns_label s \<Longrightarrow> CHR ''.'' \<notin> set s \<and> CHR '':'' \<notin> set s \<and> s \<noteq> []"
  by (auto simp: dns_label_def lab_name_def list_all_iff is_label_char_def is_digit_def)

lemma service_host:
  assumes "CHR ''.'' \<notin> set svc" "CHR '':'' \<notin> set svc" "dns_label ns"
  shows "\<exists>rest. split_on (CHR ''.'') (host_of (service_address svc ns port)) = svc # ns # rest"
proof -
  note ns = dns_label_plain [OF assms(3)]
  have "host_of (service_address svc ns port) = svc @ CHR ''.'' # ns @ CHR ''.'' # ''svc.'' @ cluster_domain"
    using assms(2) ns by (simp add: host_of_def service_address_def cluster_domain_def takeWhile_append)
  then show ?thesis using assms(1) ns by (simp add: split_on_append_sep)
qed

lemma own_leg:
  assumes "own_address s" "fs_namespace f = so_namespace s" "fs_release f = so_release s"
  shows "leg_names_source (so_bootstrap s) f"
proof -
  obtain svc port where a: "so_bootstrap s = service_address svc (so_namespace s) port" "CHR ''.'' \<notin> set svc" "CHR '':'' \<notin> set svc"
    "prefix (so_release s @ ''-'') svc" "dns_label (so_namespace s)" "so_release s \<noteq> []" using assms(1) by (auto simp: own_address_def)
  obtain rest where "split_on (CHR ''.'') (host_of (so_bootstrap s)) = svc # so_namespace s # rest"
    using service_host [OF a(2,3,5)] a(1) by auto
  then show ?thesis using a assms(2,3) dns_label_plain [OF a(5)] by (simp add: leg_names_source_def service_address_def)
qed

lemma other_leg:
  assumes "own_address s" "fs_namespace f \<noteq> so_namespace s"
  shows "\<not> leg_names_source (so_bootstrap s) f"
proof -
  obtain svc port where a: "so_bootstrap s = service_address svc (so_namespace s) port" "CHR ''.'' \<notin> set svc" "CHR '':'' \<notin> set svc"
    "dns_label (so_namespace s)" using assms(1) by (auto simp: own_address_def)
  obtain rest where "split_on (CHR ''.'') (host_of (so_bootstrap s)) = svc # so_namespace s # rest"
    using service_host [OF a(2-4)] a(1) by auto
  then show ?thesis using assms(2) by (simp add: leg_names_source_def)
qed

lemma service_own:
  assumes "dns_label r" "dns_label (so_namespace s)" "so_release s = r" "CHR ''.'' \<notin> set svc" "CHR '':'' \<notin> set svc"
    "so_bootstrap s = service_address (r @ ''-'' @ svc) (so_namespace s) port"
  shows "own_address s"
  unfolding own_address_def using assms dns_label_plain [OF assms(1)]
  by (auto intro!: exI [of _ "r @ ''-'' @ svc"])

lemma derive_source_address:
  assumes "derive_source rand o' rel multi aliases s = Inr x"
  shows "own_address x"
proof -
  let ?y = "named_source o' multi s"
  have ok: "dns_label (so_namespace ?y)" "dns_label (so_release ?y)"
    and x: "if sp_provider s = provider_name ProviderLegacy then legacy_source rand o' ?y = Inr x else x = strimzi_source rel o' ?y"
    using assms unfolding derive_source_def Let_def by (auto split: if_split_asm option.split_asm)
  show ?thesis
  proof (cases "sp_provider s = provider_name ProviderLegacy")
    case True
    with x have l: "legacy_source rand o' ?y = Inr x" by simp
    have flags: "\<not> so_tls ?y" "so_ca_secret ?y = []" "so_user ?y = []" "so_secret ?y = []" "\<not> so_sasl ?y" by (simp_all add: named_source_def)
    obtain im pw where x': "x = ?y\<lparr>so_image := im,
        so_bootstrap := service_address (so_release ?y @ ''-legacy-kafka-bootstrap'') (so_namespace ?y) (if op_sasl o' then 9094 else 9092),
        so_sasl := op_sasl o', so_user := (if op_sasl o' then legacy_sasl_user else []),
        so_secret := (if op_sasl o' then so_release ?y @ ''-'' @ legacy_sasl_user else []), so_password := pw\<rparr>"
      by (rule legacy_source_derived [OF l flags])
    show ?thesis by (rule service_own [of "so_release ?y" _ "''legacy-kafka-bootstrap''"]) (use ok in \<open>simp_all add: x'\<close>)
  next
    case False
    with x have x': "x = strimzi_source rel o' ?y" by simp
    have same: "so_cluster ?y = so_release ?y" by (simp add: named_source_def)
    show ?thesis
      by (rule service_own [of "so_release ?y" _ "''kafka-bootstrap''"]) (use ok same in \<open>simp_all add: x' strimzi_source_def\<close>)
  qed
qed

lemma derive_loop_address: "derive_loop rand o' rel multi aliases ss = Inr xs \<Longrightarrow> list_all own_address xs"
proof (induction ss arbitrary: aliases xs)
  case (Cons s ss)
  then obtain x ys where x: "derive_source (rand (length aliases)) o' rel multi aliases s = Inr x"
    and ys: "derive_loop rand o' rel multi ((so_alias x, sp_from s) # aliases) ss = Inr ys" and xs: "xs = x # ys"
    by (auto split: sum.splits)
  show ?case using Cons.IH [OF ys] derive_source_address [OF x] xs by simp
qed simp

lemma new_lab_addresses:
  assumes "new_lab rand o' = Inr l"
  shows "list_all own_address (lab_sources l)"
proof -
  obtain specs n sources where a: "normalise_sources o' = Inr specs"
    "derive_sources rand n (''mm2-'' @ op_name n) specs = Inr sources" "l = lab_with n sources"
    by (rule new_lab_Inr [OF assms])
  have t: "specs \<noteq> []" using a(1) by (auto simp: normalise_sources_def specs_of_def split: sum.splits)
  have "list_all2 (derived n (''mm2-'' @ op_name n) (1 < length specs)) specs sources" using derive_sources_derived [OF a(2)] by simp
  then obtain x xs where x: "sources = x # xs" using t by (cases sources) auto
  have "list_all own_address (x # xs)"
    using a(2) x derive_loop_address [of rand n "''mm2-'' @ op_name n" "1 < length specs" "[]" specs]
    by (auto simp: derive_sources_def split: sum.splits option.splits)
  then show ?thesis
    by (simp add: a(3) x lab_sources_def first_source_def lab_with_def options.extend_def lab.fields_def Let_def own_address_def)
qed

text \<open>A workload of a source as the chart labels it, and the leg the mirror's values give it.\<close>

definition workload :: "lab_source \<Rightarrow> found_source \<Rightarrow> bool" where
  "workload s f \<longleftrightarrow> fs_release f = so_release s \<and> fs_namespace f = so_namespace s \<and> fs_alias f \<in> {[], so_alias s}"

definition carries :: "lab_source \<Rightarrow> mirror_leg \<Rightarrow> bool" where
  "carries s leg \<longleftrightarrow> lg_alias leg = so_alias s \<and> lg_bootstrap leg = so_bootstrap s"

lemma lab_apart:
  "list_all2 carries xs legs \<Longrightarrow> list_all2 workload xs fs \<Longrightarrow> list_all own_address xs \<Longrightarrow>
   distinct (map so_namespace xs) \<Longrightarrow> distinct (map so_alias xs) \<Longrightarrow> apart legs fs"
proof (induction xs arbitrary: legs fs)
  case (Cons s xs)
  then obtain leg legs' f fs' where l: "legs = leg # legs'" "fs = f # fs'" "carries s leg" "workload s f"
    "list_all2 carries xs legs'" "list_all2 workload xs fs'" "own_address s" by (auto simp: list_all2_Cons1)
  have "leg_claims leg f" using own_leg [of s f] l(3,4,7) by (simp add: leg_claims_def carries_def workload_def)
  moreover have "\<not> leg_claims leg g" if g: "g \<in> set fs'" for g
  proof -
    obtain t where t: "t \<in> set xs" "workload t g" using list_all2_right [OF l(6) g] by blast
    then have "so_namespace t \<noteq> so_namespace s" "so_alias t \<noteq> so_alias s"
      using Cons.prems(4,5) t(1) imageI [of t "set xs" so_namespace] imageI [of t "set xs" so_alias] by force+
    then show ?thesis using other_leg [OF l(7), of g] t(2) l(3) by (auto simp: leg_claims_def carries_def workload_def)
  qed
  ultimately show ?case using Cons.IH [OF l(5,6)] Cons.prems l(1,2) by (simp add: list_all_iff)
qed simp

lemma restored_keys:
  "list_all2 carries xs legs \<Longrightarrow> list_all2 workload xs fs \<Longrightarrow>
   map (\<lambda>f. (fs_alias f, fs_release f, fs_namespace f, fs_bootstrap f)) (map2 from_leg legs fs) =
     map (\<lambda>s. (so_alias s, so_release s, so_namespace s, so_bootstrap s)) xs \<and>
   map fs_topics (map2 from_leg legs fs) = map lg_topics legs"
proof (induction xs arbitrary: legs fs)
  case (Cons s xs)
  then show ?case by (auto simp: list_all2_Cons1 from_leg_def carries_def workload_def)
qed simp

section \<open>Theorems\<close>

text \<open>
  What the values writer makes of a list of topic names, the discovery reads back: from the topics pattern of
  one or more topics it takes exactly those names in their order, and holds the pattern to be literal.
\<close>

theorem topics_read_back:
  assumes "ts \<noteq> []" "list_all topic_name ts"
  shows "topics_from_pattern (topics_pattern ts) = ts \<and> literal_pattern (topics_pattern ts)"
proof -
  have "list_all plain_name ts" using assms(2) by (auto simp: list_all_iff topic_plain)
  then show ?thesis using topics_pattern_split [OF assms]
    by (simp add: topics_from_pattern_def literal_pattern_def comp_def list_all_iff)
qed

theorem topics_read_back_witness:
  "topics_from_pattern (topics_pattern [''kates.orders'', ''a-b'']) = [''kates.orders'', ''a-b'']"
  using topics_read_back [of "[''kates.orders'', ''a-b'']"] by (simp add: topic_name_def is_label_char_def is_digit_def)

text \<open>
  An escape that stands for a class of characters is read as the character: the pattern \<open>orders\d\<close> is taken for the
  one topic \<open>ordersd\<close>, although no list of names is what it matches.
\<close>

lemma escape_read_as_name:
  "topics_from_pattern (''orders'' @ [bs] @ ''d'') = [''ordersd'']" "literal_pattern (''orders'' @ [bs] @ ''d'')"
  "pattern_texts (''orders'' @ [bs] @ ''d'') = None"
  by (simp_all add: topics_from_pattern_def literal_pattern_def plain_name_def regex_syntax_def bs_def regex_specials_def)

text \<open>
  Ordering the sources loses none and adds none: whatever the legs are, the workloads after it are those before,
  each as often.
\<close>

theorem order_keeps_workloads:
  "image_mset fs_resource (mset (order_lab_sources found legs)) = image_mset fs_resource (mset found)"
proof (cases "found = []")
  case False
  obtain out left where m: "match_legs legs found = (out, left)" by (cases "match_legs legs found") auto
  have "map fs_resource (order_lab_sources found legs) = map fs_resource (out @ left)"
    using False m by (simp add: order_lab_sources_def sole_leg_resources del: map_append)
  then have "mset (map fs_resource (order_lab_sources found legs)) = mset (map fs_resource (out @ left))" by simp
  then show ?thesis using match_legs_keeps [OF m] by (simp add: mset_map)
qed (simp add: order_lab_sources_def)

text \<open>
  C16. Discovery undoes the deployment: when the workloads found are those of a new lab in any order, labelled with
  their source's alias or not at all, and the mirror's legs carry its aliases and addresses, the ordered sources are the
  lab's, each in its place with the alias, the address and the topics of its own leg.
\<close>

theorem order_restores_lab:
  assumes "new_lab rand o' = Inr l" "list_all2 carries (lab_sources l) legs" "list_all2 workload (lab_sources l) fs" "mset found = mset fs"
  shows "order_lab_sources found legs = map2 from_leg legs fs \<and>
    map (\<lambda>f. (fs_alias f, fs_release f, fs_namespace f, fs_bootstrap f)) (map2 from_leg legs fs) =
      map (\<lambda>s. (so_alias s, so_release s, so_namespace s, so_bootstrap s)) (lab_sources l) \<and>
    map fs_topics (map2 from_leg legs fs) = map lg_topics legs"
proof -
  have wf: "wf_lab l" by (rule lab_constructed [OF assms(1)])
  then have "apart legs fs" using lab_apart [OF assms(2,3) new_lab_addresses [OF assms(1)]] by (simp add: wf_lab_def)
  from match_legs_exact [OF this assms(4)] have m: "match_legs legs found = (map2 from_leg legs fs, [])" .
  have "lab_sources l \<noteq> []" by (simp add: lab_sources_def)
  then have "found \<noteq> []" using assms(3,4) by auto
  moreover have "sole_leg (map2 from_leg legs fs) legs = map2 from_leg legs fs"
    by (cases legs; cases fs) (auto simp: sole_leg_def from_leg_def split: list.split)
  ultimately show ?thesis using restored_keys [OF assms(2,3)] m by (simp add: order_lab_sources_def)
qed

text \<open>
  The discovery a run builds of its own lab names what the lab names: over every lab \<open>New\<close> returns, the target-side
  topics of the discovery are the lab's, in the same order.
\<close>

theorem discovery_same_topics:
  assumes "new_lab rand o' = Inr l"
  shows "discovered_topics (discovery_from_lab l owned) = replicated_topics l"
proof -
  have wf: "\<forall>s\<in>set (lab_sources l). so_alias s \<noteq> [] \<and> so_topics s \<noteq> []"
    using lab_constructed [OF assms] by (auto simp: wf_lab_def list_all_iff wf_source_def dest: alias_nonempty)
  let ?d = "discovery_from_lab l owned"
  have all: "concat (map (\<lambda>s. map (target_topic ?d (fs_alias s)) (fs_topics s)) (di_sources ?d)) =
      concat (map (\<lambda>s. map (target_topic ?d (so_alias s)) (so_topics s)) (lab_sources l))"
    by (simp add: discovery_from_lab_def Let_def comp_def)
  have same: "target_topic ?d (so_alias s) t = replicated_topic_of l (Some s) t" if "s \<in> set (lab_sources l)" for s t
    using wf that by (simp add: target_topic_def replicated_topic_of_def discovery_from_lab_def Let_def)
  have "concat (map (\<lambda>s. map (target_topic ?d (fs_alias s)) (fs_topics s)) (di_sources ?d)) = replicated_topics l"
    unfolding all replicated_topics_def using same by (intro arg_cong [of _ _ concat] map_cong refl) simp_all
  moreover have "replicated_topics l \<noteq> []" using wf by (auto simp: replicated_topics_def lab_sources_def)
  ultimately show ?thesis by (simp add: discovered_topics_def Let_def)
qed

text \<open>A source that is known in full, and what of a lab's sources the commands work from.\<close>

definition full_source :: "found_source \<Rightarrow> bool" where
  "full_source s \<longleftrightarrow> fs_alias s \<noteq> [] \<and> fs_release s \<noteq> [] \<and> fs_namespace s \<noteq> [] \<and> fs_bootstrap s \<noteq> [] \<and> fs_topics s \<noteq> []"

definition source_key :: "lab_source \<Rightarrow> string \<times> string \<times> string \<times> string \<times> string list" where
  "source_key s = (so_alias s, so_release s, so_namespace s, so_bootstrap s, so_topics s)"

definition found_key :: "found_source \<Rightarrow> string \<times> string \<times> string \<times> string \<times> string list" where
  "found_key s = (fs_alias s, fs_release s, fs_namespace s, fs_bootstrap s, fs_topics s)"

lemma applied_extra: "full_source s \<Longrightarrow> source_key (apply_discovered_extra x s) = found_key s"
  by (simp add: full_source_def source_key_def found_key_def apply_discovered_extra_def Let_def)

lemma applied_extras:
  "length xs = length ss \<Longrightarrow> list_all full_source ss \<Longrightarrow> map source_key (apply_discovered_extras xs ss) = map found_key ss"
  by (induction xs ss rule: apply_discovered_extras.induct) (auto simp: applied_extra)

lemma new_lab_length:
  assumes "new_lab rand o' = Inr l"
  shows "length (lb_extra_sources l) = length (op_also_from o')"
proof -
  obtain n specs x xs where "lab_sources l = x\<lparr>so_tls := op_tls n\<rparr> # xs" "list_all2 (\<lambda>s t. normalise_spec s = Inr t) (specs_of o') specs"
    "list_all2 (derived n (''mm2-'' @ op_name n) (1 < length specs)) specs (x # xs)" by (rule new_lab_derived [OF assms])
  then show ?thesis by (auto simp: lab_sources_def specs_of_def dest!: list_all2_lengthD)
qed

lemma applied_source:
  assumes "di_sources d = s # ss" "full_source s" "adopt_first_source d = d"
  shows "lb_extra_sources (apply_discovered_source d p l) = lb_extra_sources l"
    "source_key (first_source ((apply_discovered_source d p l)\<lparr>lb_extra_sources := xs\<rparr>)) = found_key s"
    "op_policy (apply_discovered_source d p l) = op_policy l" "lb_source_topics (apply_discovered_source d p l) = fs_topics s"
proof -
  have "di_source_release d = fs_release s \<and> di_source_namespace d = fs_namespace s \<and> di_source_bootstrap d = fs_bootstrap s \<and>
      di_source_alias d = fs_alias s"
    using assms by (cases d) (simp add: adopt_first_source_def full_source_def)
  then show "lb_extra_sources (apply_discovered_source d p l) = lb_extra_sources l"
    "source_key (first_source ((apply_discovered_source d p l)\<lparr>lb_extra_sources := xs\<rparr>)) = found_key s"
    "op_policy (apply_discovered_source d p l) = op_policy l" "lb_source_topics (apply_discovered_source d p l) = fs_topics s"
    using assms(1,2)
    by (simp_all add: apply_discovered_source_def Let_def full_source_def source_key_def found_key_def first_source_def)
qed

text \<open>Both lists of target-side topics are read off the keys.\<close>

definition topics_of_key :: "string \<Rightarrow> string \<times> string \<times> string \<times> string \<times> string list \<Rightarrow> string list" where
  "topics_of_key policy k =
     (case k of (a, _, _, _, ts) \<Rightarrow> map (\<lambda>t. if policy = policy_default then a @ ''.'' @ t else t) ts)"

lemma replicated_of_keys:
  assumes "\<forall>s\<in>set (lab_sources l). so_alias s \<noteq> []"
  shows "replicated_topics l = concat (map (topics_of_key (op_policy l)) (map source_key (lab_sources l)))"
proof -
  have "map (replicated_topic_of l (Some s)) (so_topics s) = topics_of_key (op_policy l) (source_key s)" if "s \<in> set (lab_sources l)" for s
    using assms that by (simp add: replicated_topic_of_def topics_of_key_def source_key_def)
  then have "map (\<lambda>s. map (replicated_topic_of l (Some s)) (so_topics s)) (lab_sources l) =
      map (topics_of_key (op_policy l)) (map source_key (lab_sources l))" by (simp add: comp_def)
  then show ?thesis unfolding replicated_topics_def by (rule arg_cong)
qed

lemma discovered_of_keys:
  assumes "di_sources d \<noteq> []" "list_all full_source (di_sources d)"
  shows "discovered_topics d = concat (map (topics_of_key (di_policy d)) (map found_key (di_sources d)))"
proof -
  have "map (target_topic d (fs_alias s)) (fs_topics s) = topics_of_key (di_policy d) (found_key s)" if "s \<in> set (di_sources d)" for s
    using assms(2) that by (auto simp: target_topic_def topics_of_key_def found_key_def list_all_iff full_source_def)
  then have e: "map (\<lambda>s. map (target_topic d (fs_alias s)) (fs_topics s)) (di_sources d) =
      map (topics_of_key (di_policy d)) (map found_key (di_sources d))" by (simp add: comp_def)
  obtain s ss where "di_sources d = s # ss" "fs_topics s \<noteq> []" using assms by (cases "di_sources d") (auto simp: full_source_def)
  then show ?thesis unfolding discovered_topics_def e [symmetric] by (simp add: Let_def)
qed

lemma new_lab_policy:
  assumes "new_lab rand o' = Inr l" "op_policy o' \<noteq> []"
  shows "op_policy l = op_policy o'"
proof -
  obtain specs n sources where a: "normalise_options (o'\<lparr>op_provider := sp_provider (hd specs), op_mode := sp_mode (hd specs),
        op_also_from := tl specs, op_name := (if op_name o' = [] then default_name_for (map sp_from specs) (op_to o') else op_name o')\<rparr>) = Inr n"
    "l = lab_with n sources"
    by (rule new_lab_Inr [OF assms(1)])
  have "op_policy n = op_policy o'" using a(1) assms(2) by (auto simp: normalise_options_def Let_def split: if_splits option.splits)
  then show ?thesis by (simp add: a(2))
qed

lemma options_extra:
  assumes "lab_options_from_discovery d env p = Inr o'"
  shows "length (op_also_from o') = length (tl (di_sources d))" "op_policy o' = di_policy d"
  using assms by (auto simp: lab_options_from_discovery_def Let_def try_map_Inr dest: list_all2_lengthD split: sum.splits)

text \<open>
  C18. The lab rebuilt from a discovery is the discovered one: when every source is known in full and the first is
  adopted, its sources have, one by one and in order, the alias, release, namespace, address and topics the cluster
  gave, and its target-side topics are the discovery's.
\<close>

theorem rebuilt_lab:
  assumes "lab_from_discovery rand d env = Inr l" "di_sources d \<noteq> []" "list_all full_source (di_sources d)"
    "adopt_first_source d = d" "di_policy d \<noteq> []"
  shows "map source_key (lab_sources l) = map found_key (di_sources d) \<and> replicated_topics l = discovered_topics d"
proof -
  obtain s ss where ss: "di_sources d = s # ss" "full_source s" "list_all full_source ss" using assms(2,3) by (cases "di_sources d") auto
  let ?p = "provider_or_legacy (di_source_provider d)"
  obtain o' l0 where o: "lab_options_from_discovery d env ?p = Inr o'" "new_lab rand o' = Inr l0"
    and l: "l = (let l' = apply_discovered_source d ?p (l0\<lparr>op_password := []\<rparr>);
        l'' = l'\<lparr>lb_extra_sources := apply_discovered_extras (lb_extra_sources l') ss\<rparr>
      in l''\<lparr>op_topics := concat (map so_topics (lab_sources l''))\<rparr>)"
    using assms(1) ss(1) by (auto simp: lab_from_discovery_def Let_def split: if_splits sum.splits)
  define xs where "xs = apply_discovered_extras (lb_extra_sources l0) ss"
  let ?l' = "(apply_discovered_source d ?p (l0\<lparr>op_password := []\<rparr>))\<lparr>lb_extra_sources := xs\<rparr>"
  note a = applied_source [OF ss(1,2) assms(4), where p = ?p and l = "l0\<lparr>op_password := []\<rparr>"]
  have l: "l = ?l'\<lparr>op_topics := concat (map so_topics (lab_sources ?l'))\<rparr>" using l a(1) by (simp add: xs_def Let_def)
  have "length (lb_extra_sources l0) = length ss" using new_lab_length [OF o(2)] options_extra(1) [OF o(1)] ss(1) by simp
  then have xs: "map source_key xs = map found_key ss" unfolding xs_def by (rule applied_extras [OF _ ss(3)])
  have pol: "op_policy l = di_policy d" using new_lab_policy [OF o(2)] options_extra(2) [OF o(1)] assms(5) a(3) l by simp
  have key: "source_key (first_source ?l') = found_key s" using a(2) .
  have "lb_source_topics (apply_discovered_source d ?p (l0\<lparr>op_password := []\<rparr>)) \<noteq> []" using a(4) ss(2) by (simp add: full_source_def)
  then have first: "source_key (first_source l) = found_key s" unfolding l key [symmetric]
    by (simp add: source_key_def first_source_def)
  have keys: "map source_key (lab_sources l) = map found_key (di_sources d)"
    using first xs by (simp add: lab_sources_def ss(1)) (simp add: l)
  then have "map fst (map source_key (lab_sources l)) = map fst (map found_key (di_sources d))" by (rule arg_cong)
  then have "map so_alias (lab_sources l) = map fs_alias (di_sources d)" by (simp add: source_key_def found_key_def comp_def)
  moreover have "[] \<notin> set (map fs_alias (di_sources d))" using assms(3) by (auto simp: list_all_iff full_source_def)
  ultimately have "\<forall>s\<in>set (lab_sources l). so_alias s \<noteq> []" by (metis image_eqI list.set_map)
  from replicated_of_keys [OF this] have "replicated_topics l = discovered_topics d"
    unfolding keys pol discovered_of_keys [OF assms(2,3)] .
  with keys show ?thesis ..
qed

text \<open>
  In a fan-in whose sources share a topic, the list \<open>up\<close> records has it once per source, and every leg takes it as often:
  the discovered lab has a topic twice that the lab itself has once.
\<close>

lemma shared_topic_read_twice:
  assumes "compile p = Some (\<lambda>t. t = ''orders'')"
  shows "leg_topics compile (split_topics (join_with '','' (concat [[''orders''], [''orders'']]))) p 2 = ([''orders'', ''orders''], False)"
proof -
  have "trim_space ''orders'' = ''orders''" by code_simp
  then show ?thesis using assms by (simp add: leg_topics_def split_topics_def)
qed

section \<open>Small labs\<close>

definition demo_found :: "lab_source \<Rightarrow> found_source" where
  "demo_found s =
     \<lparr>fs_resource = None, fs_alias = [], fs_release = so_release s, fs_namespace = so_namespace s, fs_provider = so_provider s,
      fs_version = so_from s, fs_mode = [], fs_bootstrap = [], fs_topics = [], fs_auth = no_auth, fs_owned = False\<rparr>"

definition demo_leg :: "lab_source \<Rightarrow> mirror_leg" where
  "demo_leg s =
     \<lparr>lg_alias = so_alias s, lg_bootstrap = so_bootstrap s, lg_topics = so_topics s, lg_auth = no_auth, lg_pattern = [],
      lg_pattern_only = False\<rparr>"

theorem order_restores_lab_witness:
  "\<exists>l. new_lab demo_rand demo_options = Inr l \<and>
     order_lab_sources (rev (map demo_found (lab_sources l))) (map demo_leg (lab_sources l)) =
       map2 from_leg (map demo_leg (lab_sources l)) (map demo_found (lab_sources l))"
proof -
  obtain l where l: "new_lab demo_rand demo_options = Inr l" using demo_new(1) by blast
  have "list_all2 carries (lab_sources l) (map demo_leg (lab_sources l))" "list_all2 workload (lab_sources l) (map demo_found (lab_sources l))"
    by (auto simp: list_all2_map2 carries_def workload_def demo_leg_def demo_found_def intro: list_all2_refl)
  from order_restores_lab [OF l this, of "rev (map demo_found (lab_sources l))"] l show ?thesis by auto
qed

theorem discovery_same_topics_witness:
  "\<exists>l. new_lab demo_rand demo_options = Inr l \<and>
     discovered_topics (discovery_from_lab l None) = [''kates.orders.src282'', ''kates.orders.src391'']"
proof -
  obtain l where l: "new_lab demo_rand demo_options = Inr l" using demo_new(1) by blast
  show ?thesis using discovery_same_topics [OF l, of None] demo_labs(1) l by (auto simp: lab_seen_def)
qed

definition demo_discovery :: discovery where
  "demo_discovery =
     adopt_first_source (empty_discovery\<lparr>di_name := ''m282-430'', di_policy := policy_default, di_sources :=
       [\<lparr>fs_resource = None, fs_alias = ''source'', fs_release = ''m282-430-src'', fs_namespace = ''old'',
         fs_provider = ''legacy'', fs_version = \<lparr>major = 2, minor = 8, patch = 2\<rparr>, fs_mode = [], fs_bootstrap = ''old:9092'',
         fs_topics = [''orders''], fs_auth = no_auth, fs_owned = False\<rparr>]\<rparr>)"

definition demo_env :: lab_env where
  "demo_env = \<lparr>le_version = \<lparr>major = 4, minor = 3, patch = 0\<rparr>, le_cluster = ''krafter'', le_namespace = ''kafka'', le_strimzi = [],
     le_scope = [], le_registry = []\<rparr>"

lemma demo_rebuilt: "\<exists>l. lab_from_discovery demo_rand demo_discovery demo_env = Inr l"
  by (simp add: demo_discovery_def demo_env_def demo_rand_def lab_from_discovery_def lab_options_from_discovery_def empty_discovery_def
      adopt_first_source_def provider_or_legacy_def no_auth_def lab_defs demo_digits Let_def)

theorem rebuilt_lab_witness:
  "\<exists>l. lab_from_discovery demo_rand demo_discovery demo_env = Inr l \<and> replicated_topics l = [''source.orders'']"
proof -
  obtain l where l: "lab_from_discovery demo_rand demo_discovery demo_env = Inr l" using demo_rebuilt by blast
  have "discovered_topics demo_discovery = [''source.orders'']" by code_simp
  moreover have "di_sources demo_discovery \<noteq> []" "list_all full_source (di_sources demo_discovery)"
    "adopt_first_source demo_discovery = demo_discovery" "di_policy demo_discovery \<noteq> []"
    by (simp_all add: demo_discovery_def adopt_first_source_def empty_discovery_def full_source_def policy_default_def)
  ultimately show ?thesis using rebuilt_lab [OF l] l by auto
qed

end
