(* ===== verification/Pins.thy ===== *)
theory Pins
  imports CommandRunner
begin

text \<open>
  The version pins (\<open>cli/pkg/migrate/pins.go\<close>): \<open>ParsePins\<close> over the text of \<open>versions.env\<close>. The panic of an
  index out of range is a value of the error type; the file itself is read outside. \<open>ParsePins\<close> keeps every pair
  in \<open>All\<close>; a line of 64 KB or more ends the scan with an error, as in \<open>bufio.Scanner\<close>.
\<close>

section \<open>Model\<close>

record pins =
  pn_strimzi_version :: string
  pn_kafka_version :: string
  pn_kafka_image :: string
  pn_all :: "string \<rightharpoonup> string"

datatype pins_error =
    NotAssignment nat string
  | Unresolved nat string string
  | ScanFailed
  | NoPins
  | NotSet string
  | BadKafkaTag string
  | PinsPanic nat

definition squote :: char where "squote = CHR 0x27"

text \<open>\<open>pinLine\<close>: the key and the rest.\<close>

definition pin_line :: "string \<Rightarrow> (string \<times> string) option" where
  "pin_line s =
     (let k = takeWhile re_word s; rest = dropWhile re_word s
      in if env_name k \<and> rest \<noteq> [] \<and> hd rest = CHR ''='' then Some (k, tl rest) else None)"

text \<open>\<open>pinRef\<close> at the start of a text: the name and what follows the reference.\<close>

definition ref_at :: "string \<Rightarrow> (string \<times> string) option" where
  "ref_at s =
     (case s of
        c # t \<Rightarrow>
          if c \<noteq> CHR ''$'' then None
          else if t \<noteq> [] \<and> hd t = CHR ''{'' then
            (let k = takeWhile re_word (tl t); rest = dropWhile re_word (tl t)
             in if env_name k \<and> rest \<noteq> [] \<and> hd rest = CHR ''}'' then Some (k, tl rest) else None)
          else (let k = takeWhile re_word t in if env_name k then Some (k, dropWhile re_word t) else None)
      | [] \<Rightarrow> None)"

lemma ref_at_shorter: "ref_at s = Some (k, rest) \<Longrightarrow> length rest < length s"
proof -
  assume r: "ref_at s = Some (k, rest)"
  have d: "length (dropWhile re_word u) \<le> length u" for u by (rule length_dropWhile_le)
  show ?thesis using r d [of "tl s"] d [of "tl (tl s)"]
    by (auto simp: ref_at_def Let_def split: list.splits if_splits)
qed

text \<open>The references resolved, and the last name that is not defined, empty when all are.\<close>

function replace_refs :: "(string \<rightharpoonup> string) \<Rightarrow> string \<Rightarrow> string \<times> string" where
  "replace_refs all [] = ([], [])"
| "replace_refs all (c # s) =
     (case ref_at (c # s) of
        None \<Rightarrow> apfst ((#) c) (replace_refs all s)
      | Some (k, rest) \<Rightarrow>
          (let (out, missing) = replace_refs all rest
           in (case all k of
                 Some v \<Rightarrow> (v @ out, missing)
               | None \<Rightarrow> (out, if missing \<noteq> [] then missing else k))))"
  by pat_completeness auto
termination
  by (relation "measure (\<lambda>(all, s). length s)") (auto dest: ref_at_shorter)

text \<open>A trailing comment goes: what follows the closing quote, or \<open> #\<close> in a bare value.\<close>

fun before_comment :: "string \<Rightarrow> string option" where
  "before_comment [] = None"
| "before_comment (c # s) = (if prefix '' #'' (c # s) then Some [] else map_option ((#) c) (before_comment s))"

definition without_comment :: "string \<Rightarrow> string" where
  "without_comment v =
     (if 1 < length v \<and> (hd v = dq \<or> hd v = squote)
      then (if hd v \<in> set (tl v) then hd v # takeWhile (\<lambda>c. c \<noteq> hd v) (tl v) @ [hd v] else v)
      else (case before_comment v of Some u \<Rightarrow> trim_space u | None \<Rightarrow> v))"

definition unquoted :: "string \<Rightarrow> string" where
  "unquoted v =
     (if 2 \<le> length v \<and> (hd v = dq \<and> last v = dq \<or> hd v = squote \<and> last v = squote) then butlast (tl v) else v)"

definition pin_value :: "nat \<Rightarrow> string \<Rightarrow> string \<Rightarrow> (string \<rightharpoonup> string) \<Rightarrow> pins_error + string" where
  "pin_value n key raw all =
     (let v = trim_space raw
      in if v = [] then Inl (PinsPanic n)
         else (case replace_refs all (unquoted (without_comment v)) of
                 (out, missing) \<Rightarrow> if missing \<noteq> [] then Inl (Unresolved n key missing) else Inr out))"

definition skipped_line :: "string \<Rightarrow> bool" where
  "skipped_line raw \<longleftrightarrow> trim_space raw = [] \<or> prefix ''#'' (trim_space raw)"

fun read_pins :: "nat \<Rightarrow> (string \<rightharpoonup> string) \<Rightarrow> string list \<Rightarrow> pins_error + (string \<rightharpoonup> string)" where
  "read_pins n all [] = Inr all"
| "read_pins n all (raw # lines) =
     (if 65536 \<le> length raw then Inl ScanFailed
      else
        (if skipped_line raw then read_pins (Suc n) all lines
         else
           (let line = trim_prefix ''export '' (trim_space raw)
            in (case pin_line line of
                  None \<Rightarrow> Inl (NotAssignment n line)
                | Some (key, rest) \<Rightarrow>
                    (case pin_value n key rest all of
                       Inl e \<Rightarrow> Inl e
                     | Inr v \<Rightarrow> read_pins (Suc n) (all(key \<mapsto> v)) lines)))))"

text \<open>\<open>kafkaTag\<close>: the three numbers at the end.\<close>

definition kafka_tag :: "string \<Rightarrow> string option" where
  "kafka_tag s =
     (let v = rev (takeWhile (\<lambda>c. c \<noteq> CHR ''-'') (rev s)); parts = split_on (CHR ''.'') v
      in if length parts = 3 \<and> list_all (\<lambda>p. p \<noteq> [] \<and> list_all is_digit p) parts \<and> suffix (''-kafka-'' @ v) s then Some v else None)"

definition pin_of :: "(string \<rightharpoonup> string) \<Rightarrow> string \<Rightarrow> string" where
  "pin_of all k = (case all k of Some v \<Rightarrow> v | None \<Rightarrow> [])"

definition parse_pins :: "string \<Rightarrow> pins_error + pins" where
  "parse_pins t =
     (case read_pins 1 Map.empty (split_on nl t) of
        Inl e \<Rightarrow> Inl e
      | Inr all \<Rightarrow>
          if list_all skipped_line (split_on nl t) then Inl NoPins
          else (case filter (\<lambda>k. pin_of all k = []) [''STRIMZI_VERSION'', ''STRIMZI_KAFKA_VERSION'', ''KAFKA_IMAGE''] of
                  k # _ \<Rightarrow> Inl (NotSet k)
                | [] \<Rightarrow>
                    (case kafka_tag (pin_of all ''STRIMZI_KAFKA_VERSION'') of
                       None \<Rightarrow> Inl (BadKafkaTag (pin_of all ''STRIMZI_KAFKA_VERSION''))
                     | Some v \<Rightarrow> Inr \<lparr>pn_strimzi_version = pin_of all ''STRIMZI_VERSION'', pn_kafka_version = v,
                                       pn_kafka_image = pin_of all ''KAFKA_IMAGE'', pn_all = all\<rparr>)))"

section \<open>Theorems\<close>

text \<open>A file of quoted pins, one a line.\<close>

definition pins_text :: "(string \<times> string) list \<Rightarrow> string" where
  "pins_text kvs = concat (map (\<lambda>(k, v). k @ CHR ''='' # dq # v @ [dq, nl]) kvs)"

definition plain_pin :: "string \<times> string \<Rightarrow> bool" where
  "plain_pin kv \<longleftrightarrow> env_name (fst kv) \<and> list_all (\<lambda>c. c \<noteq> dq \<and> c \<noteq> nl \<and> c \<noteq> CHR ''$'') (snd kv) \<and>
     length (fst kv) + length (snd kv) < 65533"

lemma word_plain: "re_word c \<Longrightarrow> space_free_end c \<and> c \<noteq> CHR ''='' \<and> c \<noteq> CHR ''#'' \<and> c \<noteq> nl \<and> c \<noteq> CHR '' ''"
  by (auto simp: re_word_def is_digit_def space_free_end_def Let_def nl_def)

lemma word_run: "list_all re_word k \<Longrightarrow> \<not> re_word c \<Longrightarrow> takeWhile re_word (k @ c # s) = k \<and> dropWhile re_word (k @ c # s) = c # s"
  by (induction k) auto

lemma replace_none: "CHR ''$'' \<notin> set s \<Longrightarrow> replace_refs all s = (s, [])"
  by (induction s) (auto simp: ref_at_def)

lemma quoted_value:
  assumes "list_all (\<lambda>c. c \<noteq> dq \<and> c \<noteq> nl \<and> c \<noteq> CHR ''$'') v"
  shows "pin_value n key (dq # v @ [dq]) all = Inr v"
proof -
  have no: "dq \<notin> set v" "CHR ''$'' \<notin> set v" using assms by (auto simp: list_all_iff)
  have "trim_space (dq # v @ [dq]) = dq # v @ [dq]" by (rule trim_space_id) (simp_all add: space_free_end_def dq_def)
  moreover have "takeWhile (\<lambda>c. c \<noteq> dq) (v @ [dq]) = v" using no(1) by (induction v) auto
  ultimately show ?thesis using no(2)
    by (simp add: pin_value_def without_comment_def unquoted_def replace_none butlast_append)
qed

lemma plain_line:
  assumes "plain_pin (k, v)"
  shows "read_pins n all ((k @ CHR ''='' # dq # v @ [dq]) # lines) = read_pins (Suc n) (all(k \<mapsto> v)) lines"
proof -
  let ?l = "k @ CHR ''='' # dq # v @ [dq]"
  obtain c r where k: "k = c # r" "list_all re_word k" "env_name k" using assms by (cases k) (auto simp: plain_pin_def env_name_def)
  then have c: "space_free_end c" "c \<noteq> CHR ''#''" using word_plain [of c] by auto
  have t: "trim_space ?l = ?l" using c(1) k(1) by (intro trim_space_id) (simp_all add: space_free_end_def dq_def)
  have "trim_prefix ''export '' ?l = ?l"
  proof -
    have "CHR '' '' \<notin> set k" using k(2) word_plain by (auto simp: list_all_iff)
    then have w: "takeWhile (\<lambda>c. c \<noteq> CHR '' '') ?l = k @ CHR ''='' # takeWhile (\<lambda>c. c \<noteq> CHR '' '') (dq # v @ [dq])"
      by (simp add: takeWhile_append)
    have "\<not> prefix ''export '' ?l"
    proof
      assume "prefix ''export '' ?l"
      then obtain zs where "?l = ''export '' @ zs" by (auto simp: prefix_def)
      then have "takeWhile (\<lambda>c. c \<noteq> CHR '' '') ?l = ''export''" by simp
      then have "CHR ''='' \<in> set ''export''" unfolding w by (metis in_set_conv_decomp)
      then show False by simp
    qed
    then show ?thesis by (simp add: trim_prefix_def cut_prefix_def)
  qed
  moreover have "pin_line ?l = Some (k, dq # v @ [dq])"
  proof -
    have "\<not> re_word (CHR ''='')" by (simp add: re_word_def is_digit_def)
    then show ?thesis using word_run [OF k(2), of "CHR ''=''" "dq # v @ [dq]"] k(3) by (simp add: pin_line_def Let_def)
  qed
  moreover have "pin_value n k (dq # v @ [dq]) all = Inr v" using assms quoted_value by (simp add: plain_pin_def)
  moreover have "\<not> skipped_line ?l" unfolding skipped_line_def t using c(2) k(1) by simp
  moreover have "length ?l < 65536" using assms by (simp add: plain_pin_def)
  ultimately show ?thesis using t by simp
qed

lemma pins_lines:
  assumes "list_all plain_pin kvs"
  shows "split_on nl (pins_text kvs) = map (\<lambda>(k, v). k @ CHR ''='' # dq # v @ [dq]) kvs @ [[]]"
  using assms
proof (induction kvs)
  case (Cons kv kvs)
  obtain k v where kv: "kv = (k, v)" by (cases kv)
  have "nl \<notin> set (k @ CHR ''='' # dq # v @ [dq])"
    using Cons.prems kv word_plain by (auto simp: plain_pin_def env_name_def list_all_iff nl_def dq_def)
  then have "split_on nl ((k @ CHR ''='' # dq # v @ [dq]) @ nl # pins_text kvs) =
      (k @ CHR ''='' # dq # v @ [dq]) # split_on nl (pins_text kvs)" by (rule split_on_append_sep)
  then show ?case using Cons kv by (simp add: pins_text_def)
qed (simp add: pins_text_def)

lemma read_plain:
  "list_all plain_pin kvs \<Longrightarrow>
   read_pins n all (map (\<lambda>(k, v). k @ CHR ''='' # dq # v @ [dq]) kvs @ [[]]) = Inr (all ++ map_of (rev kvs))"
proof (induction kvs arbitrary: n all)
  case (Cons kv kvs)
  then show ?case by (cases kv) (simp add: plain_line map_add_upds del: read_pins.simps)
qed (simp add: skipped_line_def)

definition three_numbers :: "string \<Rightarrow> bool" where
  "three_numbers v \<longleftrightarrow> length (split_on (CHR ''.'') v) = 3 \<and> list_all (\<lambda>p. p \<noteq> [] \<and> list_all is_digit p) (split_on (CHR ''.'') v)"

lemma three_numbers_no_dash:
  assumes "three_numbers v"
  shows "CHR ''-'' \<notin> set v"
proof
  assume "CHR ''-'' \<in> set v"
  then have "CHR ''-'' \<in> set (join_with [CHR ''.''] (split_on (CHR ''.'') v))" by simp
  moreover have "set (join_with [CHR ''.''] ps) \<subseteq> insert (CHR ''.'') (\<Union> (set ` set ps))" for ps
    by (induction "[CHR ''.'']" ps rule: join_with.induct) auto
  ultimately obtain q where "q \<in> set (split_on (CHR ''.'') v)" "CHR ''-'' \<in> set q" by fastforce
  then have "is_digit (CHR ''-'')" using assms by (auto simp: three_numbers_def list_all_iff)
  then show False by (simp add: is_digit_def)
qed

lemma kafka_tag_read:
  assumes "three_numbers v"
  shows "kafka_tag (b @ ''-kafka-'' @ v) = Some v"
proof -
  have "CHR ''-'' \<notin> set (rev v)" using three_numbers_no_dash [OF assms] by simp
  then have "takeWhile (\<lambda>c. c \<noteq> CHR ''-'') (rev v @ CHR ''-'' # s) = rev v" for s
    by (auto simp: takeWhile_append)
  then have "rev (takeWhile (\<lambda>c. c \<noteq> CHR ''-'') (rev (b @ ''-kafka-'' @ v))) = v" by simp
  then show ?thesis using assms by (simp add: kafka_tag_def three_numbers_def Let_def suffix_def)
qed

text \<open>
  A file of quoted pins is read back whole: over names and values without a quote, a newline or a dollar sign,
  with the three pins among them, \<open>ParsePins\<close> returns every pair, the last of a name, and the Kafka version of the tag.
\<close>

theorem pins_read_back:
  assumes "list_all plain_pin kvs" "map_of (rev kvs) ''STRIMZI_VERSION'' = Some sv" "sv \<noteq> []"
    "map_of (rev kvs) ''KAFKA_IMAGE'' = Some im" "im \<noteq> []"
    "map_of (rev kvs) ''STRIMZI_KAFKA_VERSION'' = Some (b @ ''-kafka-'' @ v)" "three_numbers v"
  shows "parse_pins (pins_text kvs) =
    Inr \<lparr>pn_strimzi_version = sv, pn_kafka_version = v, pn_kafka_image = im, pn_all = map_of (rev kvs)\<rparr>"
proof -
  let ?all = "map_of (rev kvs)"
  have read: "read_pins 1 Map.empty (split_on nl (pins_text kvs)) = Inr ?all"
    using read_plain [OF assms(1)] pins_lines [OF assms(1)] by simp
  have "\<not> list_all skipped_line (split_on nl (pins_text kvs))"
  proof
    assume all: "list_all skipped_line (split_on nl (pins_text kvs))"
    have "length (k @ CHR ''='' # dq # u @ [dq]) < 65536" if "(k, u) \<in> set kvs" for k u
    proof -
      have "plain_pin (k, u)" using assms(1) that by (simp add: list_all_iff)
      then show ?thesis by (simp add: plain_pin_def)
    qed
    then have long: "list_all (\<lambda>l. length l < 65536) (split_on nl (pins_text kvs))"
      unfolding pins_lines [OF assms(1)] list_all_iff by auto
    have "read_pins n m ls = Inr m" if "list_all skipped_line ls" "list_all (\<lambda>l. length l < 65536) ls" for n m ls
      using that by (induction ls arbitrary: n) auto
    from this [OF all long] read have "?all = Map.empty" by simp
    then show False using assms(2) by simp
  qed
  moreover have "pin_of ?all ''STRIMZI_VERSION'' = sv" "pin_of ?all ''KAFKA_IMAGE'' = im"
    "pin_of ?all ''STRIMZI_KAFKA_VERSION'' = b @ ''-kafka-'' @ v" using assms(2,4,6) by (simp_all add: pin_of_def)
  ultimately show ?thesis using read assms(3,5) kafka_tag_read [OF assms(7), of b]
    unfolding parse_pins_def by simp
qed

theorem pins_read_back_witness:
  "\<exists>p. parse_pins (pins_text [(''STRIMZI_VERSION'', ''1.1.0''), (''STRIMZI_KAFKA_VERSION'', ''1.1.0-kafka-4.3.0''), (''KAFKA_IMAGE'', ''kafka'')]) = Inr p
     \<and> pn_kafka_version p = ''4.3.0''"
proof -
  have pins: "list_all plain_pin [(''STRIMZI_VERSION'', ''1.1.0''), (''STRIMZI_KAFKA_VERSION'', ''1.1.0-kafka-4.3.0''), (''KAFKA_IMAGE'', ''kafka'')]"
    by (simp add: plain_pin_def env_name_def re_word_def is_digit_def dq_def nl_def)
  have three: "three_numbers ''4.3.0''" by (simp add: three_numbers_def is_digit_def)
  show ?thesis using pins_read_back [OF pins, of "''1.1.0''" "''kafka''" "''1.1.0''" "''4.3.0''"] three by simp
qed

text \<open>
  What the code does at two edges: a key with nothing after the equals sign is an index out of range, and a reference in
  single quotes is resolved, where a shell that sources the file keeps it.
\<close>

lemma empty_pin_panics: "read_pins 1 Map.empty [''A=''] = Inl (PinsPanic 1)"
proof -
  have t: "trim_space ''A='' = ''A=''" by (rule trim_space_id) (simp_all add: space_free_end_def)
  have a: "pin_line (trim_prefix ''export '' (trim_space ''A='')) = Some (''A'', [])" "\<not> skipped_line ''A=''"
    unfolding t skipped_line_def by (simp_all add: pin_line_def trim_prefix_def cut_prefix_def env_name_def re_word_def is_digit_def)
  have b: "\<not> 65536 \<le> length ''A=''" by simp
  have "pin_value 1 ''A'' [] Map.empty = Inl (PinsPanic 1)" by (simp add: pin_value_def)
  then show ?thesis by (simp only: read_pins.simps a b if_False Let_def option.case prod.case sum.case)
qed

lemma single_quotes_resolved:
  "pin_value 2 ''B'' (squote # ''$A'' @ [squote]) [''A'' \<mapsto> ''x''] = Inr ''x''"
  by code_simp

end
