(* ===== verification/LabDown.thy ===== *)
theory LabDown
  imports LabDiscovery Pins
begin

text \<open>
  Removing a lab (\<open>cli/cmd/migrate_down.go\<close>, the down part of \<open>migrate_lab.go\<close>, \<open>openTargetClient\<close> of
  \<open>migrate_target.go\<close>): the target's topics are listed and their end offsets read before any mirrored topic goes,
  a topic that may hold records needs a second consent, then the releases, topics, Secrets and namespaces are deleted.

  \<open>outside\<close> and \<open>reading\<close> carry the libraries as before; \<open>down_outside\<close> adds the pins the charts give, the
  YAML of a KafkaTopic and the terminal. The lab's own files are removed outside the model, as are hints and warnings.
\<close>

section \<open>The client on the target\<close>

record down_outside =
  dn_out :: outside
  dn_read :: reading
  dn_pins :: "string + pins"
  dn_bad_version :: "version_error \<Rightarrow> string"
  dn_topic_yaml :: "string \<Rightarrow> string \<Rightarrow> string \<Rightarrow> string \<Rightarrow> string + string"
  dn_confirm :: "string \<Rightarrow> string + bool"
  dn_json :: bool
  dn_interactive :: bool

abbreviation dn_world :: "down_outside \<Rightarrow> world" where "dn_world v \<equiv> ou_world (dn_out v)"

record target_options =
  to_namespace :: string
  to_cluster :: string
  to_user :: string
  to_timeout :: int
  to_pod :: string
  to_labels :: "string \<rightharpoonup> string"

record target_client =
  tc_pod :: pod
  tc_tools :: tools
  tc_bootstrap :: string
  tc_cfg :: string

definition target_client_pod_name :: string where "target_client_pod_name = ''kates-migrate-target''"

text \<open>\<open>time.Duration(n) * time.Second\<close>, an \<open>int64\<close>.\<close>

definition seconds :: "int \<Rightarrow> int" where
  "seconds n = wrap64 (n * one_second)"

definition target_client_of :: "target_options \<Rightarrow> version \<Rightarrow> string \<Rightarrow> target_client" where
  "target_client_of opts v img =
     \<lparr>tc_pod = \<lparr>pd_namespace = to_namespace opts, pd_name = (if to_pod opts \<noteq> [] then to_pod opts else target_client_pod_name),
                pd_image = img, pd_labels = [''app.kubernetes.io/component'' \<mapsto> ''migrate-cli''] ++ to_labels opts,
                pd_env = [], pd_secret_env = [], pd_pull_policy = [], pd_run_as = 0\<rparr>,
      tc_tools = tools_for v [], tc_bootstrap = target_bootstrap_for (to_cluster opts) (to_namespace opts),
      tc_cfg = default_properties_path\<rparr>"

definition open_target_client :: "down_outside \<Rightarrow> target_options \<Rightarrow> io \<Rightarrow> (string + target_client) \<times> io" where
  "open_target_client v opts io =
     (case dn_pins v of
        Inl e \<Rightarrow> (Inl e, io)
      | Inr p \<Rightarrow>
          (case parse_version (pn_kafka_version p) of
             Inl e \<Rightarrow> (Inl (''versions.env STRIMZI_KAFKA_VERSION: '' @ dn_bad_version v e), io)
           | Inr kv \<Rightarrow>
               (let timeout = (if seconds (to_timeout opts) \<le> 0 then default_ready_timeout else seconds (to_timeout opts));
                    c = target_client_of opts kv (pn_kafka_image p)
                in (case ensure_pod (ou_render (dn_out v)) (dn_world v) (tc_pod c) timeout io of
                      (Some e, io1) \<Rightarrow> (Inl (run_error_text e), io1)
                    | (None, io1) \<Rightarrow>
                        (case place_credential (dn_out v) (tc_pod c) (to_namespace opts) (to_user opts) ''SCRAM-SHA-512'' (to_user opts) io1 of
                           (Some e, io2) \<Rightarrow> (Inl e, io2)
                         | (None, io2) \<Rightarrow> (Inr c, io2))))))"

section \<open>Topics only a pattern names\<close>

definition pattern_legs :: "discovery \<Rightarrow> mirror_leg list" where
  "pattern_legs d = filter (\<lambda>leg. lg_pattern_only leg \<and> lg_pattern leg \<noteq> []) (di_legs d)"

definition mirror_own_topic :: "discovery \<Rightarrow> string \<Rightarrow> bool" where
  "mirror_own_topic d t \<longleftrightarrow>
     prefix ''__'' t \<or> suffix ''.internal'' t \<or> t = ''heartbeats'' \<or> suffix ''.heartbeats'' t \<or> prefix ''mm2-offset-syncs.'' t \<or>
     di_group_id d \<noteq> [] \<and> prefix (di_group_id d @ ''-'') t"

text \<open>The source-side name of a listed topic, None for one that is not the leg's.\<close>

definition leg_name :: "discovery \<Rightarrow> mirror_leg \<Rightarrow> string \<Rightarrow> string option" where
  "leg_name d leg t =
     (if mirror_own_topic d t then None
      else if di_policy d = policy_default \<and> lg_alias leg \<noteq> [] then cut_prefix (lg_alias leg @ ''.'') t
      else Some t)"

definition leg_hits :: "discovery \<Rightarrow> mirror_leg \<Rightarrow> (string \<Rightarrow> bool) \<Rightarrow> string list \<Rightarrow> (string \<times> string) list" where
  "leg_hits d leg matches listed =
     concat (map (\<lambda>t. case leg_name d leg t of
        Some n \<Rightarrow> if matches n \<and> n \<notin> set (lg_topics leg) then [(t, n)] else [] | None \<Rightarrow> []) listed)"

definition learn_topics :: "discovery \<Rightarrow> string \<Rightarrow> string list \<Rightarrow> discovery" where
  "learn_topics d alias names =
     (if names = [] then d
      else d\<lparr>di_topics := di_topics d @ names,
             di_sources := map (\<lambda>s. if fs_alias s = alias then s\<lparr>fs_topics := fs_topics s @ names\<rparr> else s) (di_sources d)\<rparr>)"

text \<open>The legs, the discovery but for its legs, the target-side names added and the patterns that do not compile.\<close>

fun resolve_legs ::
  "(string \<Rightarrow> (string \<Rightarrow> bool) option) \<Rightarrow> string list \<Rightarrow> mirror_leg list \<Rightarrow> discovery \<Rightarrow>
   mirror_leg list \<times> discovery \<times> string list \<times> string list" where
  "resolve_legs compile listed [] d = ([], d, [], [])"
| "resolve_legs compile listed (leg # legs) d =
     (if \<not> lg_pattern_only leg \<or> lg_pattern leg = [] then
        (let (legs', d', added, bad) = resolve_legs compile listed legs d in (leg # legs', d', added, bad))
      else
        (case compile (lg_pattern leg) of
           None \<Rightarrow> (let (legs', d', added, bad) = resolve_legs compile listed legs d in (leg # legs', d', added, lg_pattern leg # bad))
         | Some matches \<Rightarrow>
             (let hits = leg_hits d leg matches listed;
                  (legs', d', added, bad) = resolve_legs compile listed legs (learn_topics d (lg_alias leg) (map snd hits))
              in (leg\<lparr>lg_pattern_only := False, lg_topics := lg_topics leg @ map snd hits\<rparr> # legs', d', map fst hits @ added, bad))))"

definition resolve_pattern_topics ::
  "(string \<Rightarrow> (string \<Rightarrow> bool) option) \<Rightarrow> string list \<Rightarrow> discovery \<Rightarrow> discovery \<times> string list \<times> string list" where
  "resolve_pattern_topics compile listed d =
     (let (legs, d', added, bad) = resolve_legs compile listed (di_legs d) d in (d'\<lparr>di_legs := legs\<rparr>, added, bad))"

section \<open>Looking at the topics\<close>

record topic_holding =
  th_topic :: string
  th_records :: offset_sum
  th_reason :: string

definition why_held :: "offset_sum \<Rightarrow> bool \<Rightarrow> string list" where
  "why_held x from_pattern =
     (if \<not> os_measured x then [''its end offsets could not be read'']
      else if 0 < os_sum x then [''holds '' @ show_int (os_sum x) @ '' record(s)''] else []) @
     (if from_pattern then [''named only by the mirror's topicsPattern''] else [])"

definition topic_offsets :: "down_outside \<Rightarrow> target_client \<Rightarrow> string \<Rightarrow> io \<Rightarrow> offset_sum \<times> io" where
  "topic_offsets v c t io =
     apfst (reading_of t) (pod_exec (dn_world v) (tc_pod c) (end_offsets (tc_tools c) (tc_bootstrap c) (tc_cfg c) t) io)"

fun hold_topics ::
  "down_outside \<Rightarrow> target_client \<Rightarrow> string list \<Rightarrow> string list \<Rightarrow> string list \<Rightarrow> io \<Rightarrow> topic_holding list \<times> io" where
  "hold_topics v c listed added [] io = ([], io)"
| "hold_topics v c listed added (t # ts) io =
     (if t \<notin> set listed then hold_topics v c listed added ts io
      else
        (let (x, io1) = topic_offsets v c t io; why = why_held x (t \<in> set added); (held, io2) = hold_topics v c listed added ts io1
         in ((if why = [] then [] else [\<lparr>th_topic = t, th_records = x, th_reason = join_with ''; '' why\<rparr>]) @ held, io2)))"

definition inspect_options :: "discovery \<Rightarrow> int \<Rightarrow> target_options" where
  "inspect_options d timeout =
     \<lparr>to_namespace = di_target_namespace d, to_cluster = di_target_cluster d, to_user = target_user,
      to_timeout = sgn timeout * (\<bar>timeout\<bar> div one_second), to_pod = client_pod_name (di_name d) ''tgt'',
      to_labels = [label_lab \<mapsto> di_name d, label_role \<mapsto> role_mirror]\<rparr>"

text \<open>The discovery is changed only once the topics are listed; the client pod goes in either case.\<close>

definition inspect_lab_topics ::
  "down_outside \<Rightarrow> discovery \<Rightarrow> int \<Rightarrow> io \<Rightarrow> (string + topic_holding list) \<times> discovery \<times> io" where
  "inspect_lab_topics v d timeout io =
     (case open_target_client v (inspect_options d timeout) io of
        (Inl e, io1) \<Rightarrow> (Inl e, d, io1)
      | (Inr c, io1) \<Rightarrow>
          (case pod_exec (dn_world v) (tc_pod c) (list_topics (tc_tools c) (tc_bootstrap c) (tc_cfg c)) io1 of
             (Inl e, io2) \<Rightarrow>
               (Inl (''list the topics on '' @ di_target_cluster d @ '': '' @ run_error_text e), d, snd (delete_pod (dn_world v) (tc_pod c) io2))
           | (Inr out, io2) \<Rightarrow>
               (let listed = go_fields out;
                    (d', added, bad) = resolve_pattern_topics (rd_compile (dn_read v)) listed d;
                    (held, io3) = hold_topics v c listed added (discovered_topics d') io2
                in (Inr held, d', snd (delete_pod (dn_world v) (tc_pod c) io3)))))"

section \<open>Consent\<close>

datatype down_error =
    Contradiction
  | NotDiscovered discovery_error
  | NeedsYes
  | NotAsked string
  | Cancelled
  | RefusesData nat string "string list"
  | NothingRemoved
  | NotFullyRemoved string "string list"

definition ask :: "down_outside \<Rightarrow> string \<Rightarrow> string + bool" where
  "ask v question =
     (if dn_interactive v then dn_confirm v question
      else Inl (''cannot prompt for confirmation without a terminal '' @ dash @ '' pass --yes to proceed unattended''))"

definition migrate_confirm :: "down_outside \<Rightarrow> bool \<Rightarrow> string \<Rightarrow> down_error option" where
  "migrate_confirm v yes question =
     (if yes then None
      else if dn_json v then Some NeedsYes
      else (case ask v question of Inl e \<Rightarrow> Some (NotAsked e) | Inr ok \<Rightarrow> if ok then None else Some Cancelled))"

definition held_label :: "topic_holding \<Rightarrow> string" where
  "held_label h =
     th_topic h @ (if os_measured (th_records h) \<and> 0 < os_sum (th_records h) then '' ('' @ show_int (os_sum (th_records h)) @ '' records)'' else [])"

definition confirm_topic_data :: "down_outside \<Rightarrow> discovery \<Rightarrow> topic_holding list \<Rightarrow> bool \<Rightarrow> bool \<Rightarrow> down_error option" where
  "confirm_topic_data v d held yes delete_data =
     (if held = [] \<or> delete_data then None
      else if yes \<or> dn_json v \<or> \<not> dn_interactive v then Some (RefusesData (length held) (di_target_cluster d) (map held_label held))
      else (case ask v (''Delete '' @ join_with '', '' (map held_label held) @ '' on '' @ di_target_cluster d @ '', records and all?'') of
              Inl e \<Rightarrow> Some (NotAsked e)
            | Inr ok \<Rightarrow> if ok then None else Some NothingRemoved))"

definition guard_lab_topics ::
  "down_outside \<Rightarrow> discovery \<Rightarrow> int \<Rightarrow> bool \<Rightarrow> bool \<Rightarrow> io \<Rightarrow> down_error option \<times> discovery \<times> io" where
  "guard_lab_topics v d timeout yes delete_data io =
     (if di_name d = [] \<or> di_target_namespace d = [] \<or> di_target_cluster d = [] then (None, d, io)
      else if discovered_topics d = [] \<and> pattern_legs d = [] then (None, d, io)
      else
        (case inspect_lab_topics v d timeout io of
           (Inr held, d', io') \<Rightarrow> (confirm_topic_data v d' held yes delete_data, d', io')
         | (Inl e, d', io') \<Rightarrow>
             (confirm_topic_data v d'
                (map (\<lambda>t. \<lparr>th_topic = t, th_records = no_reading, th_reason = ''could not be checked: '' @ e\<rparr>) (discovered_topics d'))
                yes delete_data, d', io')))"

section \<open>What down says it will remove\<close>

definition source_lines :: "found_source \<Rightarrow> string list" where
  "source_lines s =
     (if fs_release s = [] then []
      else (''source release '' @ fs_release s @ '' in '' @ fs_namespace s) #
        (if fs_owned s then [''namespace '' @ fs_namespace s @ '' (created by the lab)'']
         else if fs_namespace s \<noteq> [] then [''namespace '' @ fs_namespace s @ '' is left in place (not created by the lab)'']
         else []))"

text \<open>\<open>%q\<close> of a pattern is outside: \<open>quote\<close>.\<close>

definition target_lines :: "(string \<Rightarrow> string) \<Rightarrow> discovery \<Rightarrow> bool \<Rightarrow> string list" where
  "target_lines quote d keep =
     (let mirrored = discovered_topics d; on = di_target_cluster d
      in (if mirrored = [] then []
          else if keep then [''mirrored topics on '' @ on @ '' are kept (--keep-topics): '' @ join_with '', '' mirrored]
          else [''mirrored topics on '' @ on @ '': '' @ join_with '', '' mirrored @ '' (a topic that holds records needs a second confirmation)'']) @
         (if keep then []
          else map (\<lambda>p. ''the topics on '' @ on @ '' that topicsPattern '' @ quote (lg_pattern p) @
                 '' matches (no recorded topic list: resolved against the target's topics, then confirmed)'') (pattern_legs d)) @
         (if internal_topics d = [] then []
          else [''the mirror's own topics on '' @ on @ '': '' @ join_with '', '' (internal_topics d) @
                 '' (one another mirror there also writes is kept)'']))"

definition describe_lab_teardown :: "(string \<Rightarrow> string) \<Rightarrow> discovery \<Rightarrow> bool \<Rightarrow> string list" where
  "describe_lab_teardown quote d keep =
     (if di_mirror_release d = [] then []
      else [''mirror release '' @ di_mirror_release d @ '' in '' @ di_mirror_namespace d @ '' (and the kept CR '' @ di_mirror_cr d @ '')'']) @
     concat (map source_lines (di_sources d)) @
     (case di_target d of Some x \<Rightarrow> [''additional target '' @ re_name x @ '' in '' @ re_namespace x] | None \<Rightarrow> []) @
     (if di_target_namespace d = [] then [] else target_lines quote d keep) @
     (if di_mirror_namespace d = [] then []
      else [''secrets and client pods labelled '' @ label_lab @ ''='' @ di_name d])"

section \<open>The topics of the lab\<close>

definition mirror_writes :: "discovery \<Rightarrow> string list" where
  "mirror_writes other = group_topics (di_group_id other) @ map (\<lambda>leg. checkpoints_topic (lg_alias leg)) (di_legs other)"

definition writes_here :: "reading \<Rightarrow> discovery \<Rightarrow> lab_item \<Rightarrow> string list" where
  "writes_here rd d it =
     (if it_namespace it = di_mirror_namespace d \<and> it_name it = di_mirror_cr d then []
      else
        (let other = read_mirror_spec (rd_compile rd) (it_mirror_spec it) (map_get (it_annotations it) annotation_lab_topics) empty_discovery
         in if di_target_cluster other \<noteq> [] \<and>
               (di_target_cluster other \<noteq> di_target_cluster d \<or> di_target_namespace other \<noteq> di_target_namespace d)
            then [] else mirror_writes other))"

definition shared_internal_topics :: "down_outside \<Rightarrow> discovery \<Rightarrow> io \<Rightarrow> (string + string list) \<times> io" where
  "shared_internal_topics v d io =
     (case run_command (dn_world v) None [''kubectl'', ''get'', ''kafkamirrormaker2'', ''-A'', ''-o'', ''json''] io of
        (Inl e, io1) \<Rightarrow> (Inl e, io1)
      | (Inr out, io1) \<Rightarrow>
          (case parse_labelled_items (dn_read v) out of
             Inl e \<Rightarrow> (Inl e, io1)
           | Inr its \<Rightarrow> (Inr (concat (map (writes_here (dn_read v) d) its)), io1)))"

definition trim_dashes :: "string \<Rightarrow> string" where
  "trim_dashes s = rev (dropWhile (\<lambda>c. c = CHR ''-'') (rev (dropWhile (\<lambda>c. c = CHR ''-'') s)))"

definition resource_name_limit :: nat where "resource_name_limit = 63"

text \<open>A topic's name is ASCII, so a rune of it is a byte.\<close>

definition kafka_topic_resource_name :: "down_outside \<Rightarrow> string \<Rightarrow> string \<Rightarrow> string" where
  "kafka_topic_resource_name v lab topic =
     (let sanitized = trim_dashes (map (\<lambda>c. if is_label_char c then c else CHR ''-'') (rd_lower (dn_read v) topic));
          n = trim_dashes (lab @ ''-'' @ sanitized);
          suf = CHR ''-'' # hex_encode (take 3 (ou_digest (dn_out v) topic))
      in if sanitized = topic \<and> length n \<le> resource_name_limit then n
         else (if resource_name_limit < length n + length suf
               then rev (dropWhile (\<lambda>c. c = CHR ''-'') (rev (take (resource_name_limit - length suf) n))) else n) @ suf)"

fun topic_manifests :: "down_outside \<Rightarrow> discovery \<Rightarrow> string list \<Rightarrow> string + string" where
  "topic_manifests v d [] = Inr []"
| "topic_manifests v d (t # ts) =
     (case dn_topic_yaml v (kafka_topic_resource_name v (di_name d) t) (di_target_namespace d) (di_target_cluster d) t of
        Inl e \<Rightarrow> Inl (''render KafkaTopic for '' @ t @ '': '' @ e)
      | Inr y \<Rightarrow> (case topic_manifests v d ts of Inl e \<Rightarrow> Inl e | Inr rest \<Rightarrow> Inr (''---'' @ [nl] @ y @ rest)))"

definition own_internal_topics :: "discovery \<Rightarrow> string + string list \<Rightarrow> string list" where
  "own_internal_topics d shared = (case shared of Inl e \<Rightarrow> [] | Inr others \<Rightarrow> filter (\<lambda>t. t \<notin> set others) (internal_topics d))"

definition lab_selector :: "discovery \<Rightarrow> string" where
  "lab_selector d = label_lab @ ''='' @ di_name d"

definition drop_topics :: "down_outside \<Rightarrow> discovery \<Rightarrow> string list \<Rightarrow> io \<Rightarrow> string option \<times> io" where
  "drop_topics v d topics io =
     (if topics = [] then (None, io)
      else
        (case topic_manifests v d topics of
           Inl e \<Rightarrow> (Some e, io)
         | Inr manifest \<Rightarrow>
             (case run_command (dn_world v) (Some manifest) (apply_argv (di_target_namespace d)) io of
                (Inl e, io1) \<Rightarrow> (Some (''adopt the topics as KafkaTopics: '' @ e), io1)
              | (Inr out, io1) \<Rightarrow>
                  (case run_command (dn_world v) None
                      [''kubectl'', ''-n'', di_target_namespace d, ''delete'', ''kafkatopic'', ''-l'', lab_selector d, ''--ignore-not-found'', ''--timeout=120s''] io1 of
                     (Inl e, io2) \<Rightarrow> (Some (''delete the KafkaTopics: '' @ e), io2)
                   | (Inr out', io2) \<Rightarrow> (None, io2)))))"

definition delete_lab_topics :: "down_outside \<Rightarrow> discovery \<Rightarrow> bool \<Rightarrow> io \<Rightarrow> string option \<times> io" where
  "delete_lab_topics v d keep io =
     (let (shared, io1) = shared_internal_topics v d io
      in (case drop_topics v d ((if keep then [] else discovered_topics d) @ own_internal_topics d shared) io1 of
            (Some e, io2) \<Rightarrow> (Some e, io2)
          | (None, io2) \<Rightarrow>
              (case shared of
                 Inl e \<Rightarrow> (Some (''kept the mirror's own topics ('' @ join_with '', '' (internal_topics d) @
                              ''), since the other mirrors could not be listed: '' @ e), io2)
               | Inr others \<Rightarrow> (None, io2))))"

section \<open>Down\<close>

text \<open>A step of the removal: its command, whether Helm's not-found is no problem, and how a problem is named.\<close>

record removal =
  rm_argv :: "string list"
  rm_tolerant :: bool
  rm_what :: string

definition is_not_found :: "reading \<Rightarrow> string \<Rightarrow> bool" where
  "is_not_found rd e \<longleftrightarrow> contains_text (rd_lower rd e) ''not found''"

fun run_removals :: "down_outside \<Rightarrow> removal list \<Rightarrow> io \<Rightarrow> string list \<times> io" where
  "run_removals v [] io = ([], io)"
| "run_removals v (x # xs) io =
     (let (answer, io1) = run_command (dn_world v) None (rm_argv x) io; (problems, io2) = run_removals v xs io1
      in ((case answer of
             Inl e \<Rightarrow> if rm_tolerant x \<and> is_not_found (dn_read v) e then [] else [rm_what x @ '': '' @ e]
           | Inr out \<Rightarrow> []) @ problems, io2))"

definition uninstall :: "string \<Rightarrow> string \<Rightarrow> removal" where
  "uninstall release ns = \<lparr>rm_argv = [''helm'', ''uninstall'', release, ''-n'', ns], rm_tolerant = True, rm_what = ''uninstall '' @ release\<rparr>"

definition release_removals :: "discovery \<Rightarrow> removal list" where
  "release_removals d =
     (if di_name d = [] then []
      else [\<lparr>rm_argv = [''kubectl'', ''delete'', ''pod'', ''-A'', ''-l'', lab_selector d, ''--ignore-not-found'', ''--wait=false''],
             rm_tolerant = False, rm_what = ''client pods''\<rparr>]) @
     (if di_mirror_release d = [] then []
      else [uninstall (di_mirror_release d) (di_mirror_namespace d),
            \<lparr>rm_argv = [''kubectl'', ''-n'', di_mirror_namespace d, ''delete'', ''kafkamirrormaker2'', di_mirror_cr d, ''--ignore-not-found'', ''--timeout=60s''],
             rm_tolerant = False, rm_what = ''delete '' @ di_mirror_cr d\<rparr>]) @
     map (\<lambda>s. uninstall (fs_release s) (fs_namespace s)) (filter (\<lambda>s. fs_release s \<noteq> [] \<and> fs_namespace s \<noteq> []) (di_sources d)) @
     (case di_target d of Some x \<Rightarrow> [uninstall (re_release x) (re_namespace x)] | None \<Rightarrow> [])"

definition rest_removals :: "discovery \<Rightarrow> int \<Rightarrow> removal list" where
  "rest_removals d timeout =
     (if di_name d = [] \<or> di_mirror_namespace d = [] then []
      else [\<lparr>rm_argv = [''kubectl'', ''-n'', di_mirror_namespace d, ''delete'', ''secret'', ''-l'', lab_selector d, ''--ignore-not-found''],
             rm_tolerant = False, rm_what = ''secrets''\<rparr>]) @
     map (\<lambda>s. \<lparr>rm_argv = [''kubectl'', ''delete'', ''namespace'', fs_namespace s, ''--ignore-not-found'', ''--timeout='' @ format_timeout timeout],
              rm_tolerant = False, rm_what = ''delete namespace '' @ fs_namespace s\<rparr>)
       (filter (\<lambda>s. fs_owned s \<and> fs_namespace s \<noteq> []) (di_sources d))"

definition lab_down :: "down_outside \<Rightarrow> discovery \<Rightarrow> int \<Rightarrow> bool \<Rightarrow> io \<Rightarrow> down_error option \<times> io" where
  "lab_down v d timeout keep io =
     (let (problems1, io1) = run_removals v (release_removals d) io;
          (failed, io2) = (if di_name d \<noteq> [] \<and> di_target_namespace d \<noteq> [] \<and> di_target_cluster d \<noteq> []
                           then delete_lab_topics v d keep io1 else (None, io1));
          problems2 = (case failed of Some e \<Rightarrow> [''lab topics on '' @ di_target_cluster d @ '': '' @ e] | None \<Rightarrow> []);
          (problems3, io3) = run_removals v (rest_removals d timeout) io2;
          problems = problems1 @ problems2 @ problems3
      in (if problems = [] then None else Some (NotFullyRemoved (di_name d) problems), io3))"

record down_flags =
  df_name :: string
  df_yes :: bool
  df_timeout :: int
  df_keep :: bool
  df_delete_data :: bool

definition run_migrate_down :: "down_outside \<Rightarrow> down_flags \<Rightarrow> io \<Rightarrow> down_error option \<times> io" where
  "run_migrate_down v f io =
     (if df_keep f \<and> df_delete_data f then (Some Contradiction, io)
      else
        (case discover_lab (dn_read v) (dn_world v) (df_name f) io of
           (Inl e, io1) \<Rightarrow> (Some (NotDiscovered e), io1)
         | (Inr d, io1) \<Rightarrow>
             (case migrate_confirm v (df_yes f) (''Remove lab '' @ di_name d @ ''?'') of
                Some e \<Rightarrow> (Some e, io1)
              | None \<Rightarrow>
                  (case (if df_keep f then (None, d, io1)
                         else guard_lab_topics v d (seconds (df_timeout f)) (df_yes f) (df_delete_data f) io1) of
                     (Some e, d', io2) \<Rightarrow> (Some e, io2)
                   | (None, d', io2) \<Rightarrow> lab_down v d' (seconds (df_timeout f)) (df_keep f) io2))))"

section \<open>What a run does to the cluster\<close>

text \<open>The events between two states, and the command lines that remove something.\<close>

definition during :: "io \<Rightarrow> io \<Rightarrow> event set" where
  "during a b = set (take (length (io_log b) - length (io_log a)) (io_log b))"

lemma during_log: "io_log b = es @ io_log a \<Longrightarrow> during a b = set es"
  by (simp add: during_def)

lemma during_first: "adds P a b \<Longrightarrow> adds Q b c \<Longrightarrow> e \<in> during a b \<Longrightarrow> e \<in> during a c"
  using during_log [of b _ a] during_log [of c "_ @ _" a] by (auto simp: adds_def)

lemma during_then: "adds P a b \<Longrightarrow> adds Q b c \<Longrightarrow> e \<in> during b c \<Longrightarrow> e \<in> during a c"
  using during_log [of c _ b] during_log [of c "_ @ _" a] by (auto simp: adds_def)

lemma during_adds: "adds P a b \<Longrightarrow> e \<in> during a b \<Longrightarrow> P e"
  using during_log [of b _ a] by (auto simp: adds_def list_all_iff)

definition removes :: "string list \<Rightarrow> bool" where
  "removes argv \<longleftrightarrow> argv \<noteq> [] \<and> (hd argv = ''helm'' \<or> take 1 (drop 1 argv) = [''delete''] \<or>
     take 1 (drop 1 argv) = [''-n''] \<and> take 1 (drop 3 argv) = [''delete''])"

definition gentle :: "string list \<Rightarrow> event \<Rightarrow> bool" where
  "gentle own e \<longleftrightarrow> (case fst e of Command input argv \<Rightarrow> \<not> removes argv \<or> argv = own | Pause d \<Rightarrow> True)"

lemma gentle_simps [simp]: "gentle own (Command input argv, x) \<longleftrightarrow> \<not> removes argv \<or> argv = own" "gentle own (Pause d, x)"
  by (simp_all add: gentle_def)

lemma gentle_adds:
  "adds (is_command argvs) a b \<Longrightarrow> list_all (\<lambda>argv. \<not> removes argv \<or> argv = own) argvs \<Longrightarrow> adds (gentle own) a b"
  by (erule adds_mono) (auto simp: gentle_def is_command_def list_all_iff split: call.splits)

definition exec_argv :: "pod \<Rightarrow> string list \<Rightarrow> string list" where
  "exec_argv p argv = [''kubectl'', ''-n'', pd_namespace p, ''exec'', pd_name p, ''-c'', container_name, ''--''] @ argv"

lemma exec_gentle: "\<not> removes (exec_argv p argv)"
  by (simp add: removes_def exec_argv_def)

lemma pod_exec_gentle: "pod_exec w p argv io = (x, io') \<Longrightarrow> adds (gentle own) io io'"
  using exec_gentle [of p argv]
  by (auto simp: pod_exec_def exec_call_def exec_argv_def split: option.splits intro!: invoke_adds)

lemma pod_exec_event: "pod_exec w p argv io = (Inr out, io') \<Longrightarrow> (Command None (exec_argv p argv), Inr out) \<in> during io io'"
  by (auto simp: pod_exec_def exec_call_def exec_argv_def invoke_def during_def split: option.splits prod.splits sum.splits dest!: run_command_event)

text \<open>The client pod's own deletion.\<close>

definition own_delete :: "discovery \<Rightarrow> string list" where
  "own_delete d = [''kubectl'', ''-n'', di_target_namespace d, ''delete'', ''pod'', client_pod_name (di_name d) ''tgt'', ''--ignore-not-found'']"

lemma ensure_gentle: "ensure_pod render w p timeout io = (e, io') \<Longrightarrow> delete_argv p = own \<Longrightarrow> adds (gentle own) io io'"
  by (erule gentle_adds [OF ensure_pod_adds]) (simp add: pod_argvs_def removes_def phase_argv_def apply_argv_def wait_ready_argv_def)

lemma place_gentle: "place_credential v p ns secret mechanism user io = (e, io') \<Longrightarrow> adds (gentle own) io io'"
proof -
  assume run: "place_credential v p ns secret mechanism user io = (e, io')"
  obtain x io1 where r: "read_secret_key v ns secret ''password'' io = (x, io1)" by (cases "read_secret_key v ns secret ''password'' io")
  have a: "adds (gentle own) io io1"
    using r by (auto simp: read_secret_key_def removes_def split: prod.splits sum.splits option.splits if_splits intro!: run_command_adds)
  show ?thesis
  proof (cases x)
    case (Inr pw)
    let ?body = "sasl_properties (ou_upper v) \<lparr>sl_mechanism = mechanism, sl_username = user, sl_password = pw\<rparr>"
    obtain y io2 where w: "write_file (ou_world v) p default_properties_path ?body io1 = (y, io2)"
      by (cases "write_file (ou_world v) p default_properties_path ?body io1")
    have "adds (gentle own) io1 io2" by (rule gentle_adds [OF write_file_adds [OF w]]) (simp add: tee_argv_def removes_def)
    then show ?thesis using run r w Inr adds_trans [OF a] by (auto simp: place_credential_def split: option.splits)
  qed (use run r a in \<open>auto simp: place_credential_def\<close>)
qed

lemma open_gentle:
  assumes "open_target_client v opts io = (x, io')" "own = [''kubectl'', ''-n'', to_namespace opts, ''delete'', ''pod'', to_pod opts, ''--ignore-not-found'']"
    "to_pod opts \<noteq> []"
  shows "adds (gentle own) io io' \<and> (\<forall>c. x = Inr c \<longrightarrow> (\<exists>kv img. c = target_client_of opts kv img))"
proof (cases "dn_pins v")
  case (Inr p)
  show ?thesis
  proof (cases "parse_version (pn_kafka_version p)")
    case (Inr kv)
    define c where "c = target_client_of opts kv (pn_kafka_image p)"
    define t where "t = (if seconds (to_timeout opts) \<le> 0 then default_ready_timeout else seconds (to_timeout opts))"
    have del: "delete_argv (tc_pod c) = own" using assms(2,3) by (simp add: c_def delete_argv_def target_client_of_def)
    obtain e1 io1 where e: "ensure_pod (ou_render (dn_out v)) (dn_world v) (tc_pod c) t io = (e1, io1)"
      by (cases "ensure_pod (ou_render (dn_out v)) (dn_world v) (tc_pod c) t io")
    obtain e2 io2 where p: "place_credential (dn_out v) (tc_pod c) (to_namespace opts) (to_user opts) ''SCRAM-SHA-512'' (to_user opts) io1 = (e2, io2)"
      by (cases "place_credential (dn_out v) (tc_pod c) (to_namespace opts) (to_user opts) ''SCRAM-SHA-512'' (to_user opts) io1")
    have a: "adds (gentle own) io io1" "adds (gentle own) io1 io2" using ensure_gentle [OF e del] place_gentle [OF p] by simp_all
    have "(x, io') = (case e1 of Some e \<Rightarrow> (Inl (run_error_text e), io1) | None \<Rightarrow> (case e2 of Some e \<Rightarrow> (Inl e, io2) | None \<Rightarrow> (Inr c, io2)))"
      using assms(1) \<open>dn_pins v = Inr p\<close> Inr e p by (simp add: open_target_client_def Let_def c_def t_def split: option.splits)
    then show ?thesis using a adds_trans [OF a] unfolding c_def by (auto split: option.splits)
  qed (use assms(1) Inr in \<open>auto simp: open_target_client_def\<close>)
qed (use assms(1) in \<open>auto simp: open_target_client_def\<close>)

text \<open>What was seen of a topic in some events: it is not listed, or its offsets are read, with no record.\<close>

definition listing :: "target_client \<Rightarrow> string \<Rightarrow> event" where
  "listing c out = (Command None (exec_argv (tc_pod c) (list_topics (tc_tools c) (tc_bootstrap c) (tc_cfg c))), Inr out)"

definition read_empty :: "target_client \<Rightarrow> string \<Rightarrow> event set \<Rightarrow> bool" where
  "read_empty c t E \<longleftrightarrow> (\<exists>out per n.
     (Command None (exec_argv (tc_pod c) (end_offsets (tc_tools c) (tc_bootstrap c) (tc_cfg c) t)), Inr out) \<in> E \<and>
     parse_topic_offsets out t = Inr (per, n) \<and> n \<le> 0)"

lemma topic_offsets_read:
  assumes "topic_offsets v c t io = (x, io')"
  shows "adds (gentle own) io io' \<and> (os_measured x \<longrightarrow> os_sum x \<le> 0 \<longrightarrow> read_empty c t (during io io'))"
proof -
  obtain y where y: "pod_exec (dn_world v) (tc_pod c) (end_offsets (tc_tools c) (tc_bootstrap c) (tc_cfg c) t) io = (y, io')" "x = reading_of t y"
    using assms by (auto simp: topic_offsets_def apfst_def map_prod_def split: prod.splits)
  show ?thesis
  proof (cases y)
    case (Inr out)
    then have ev: "(Command None (exec_argv (tc_pod c) (end_offsets (tc_tools c) (tc_bootstrap c) (tc_cfg c) t)), Inr out) \<in> during io io'"
      using pod_exec_event y(1) by simp
    have "read_empty c t (during io io')" if "parse_topic_offsets out t = Inr (per, n)" "n \<le> 0" for per n
      unfolding read_empty_def using ev that by blast
    then show ?thesis using pod_exec_gentle [OF y(1)] y(2) Inr
      by (auto simp: reading_of_def measured_def no_reading_def split: sum.splits)
  qed (use pod_exec_gentle [OF y(1)] y(2) in \<open>simp add: reading_of_def no_reading_def\<close>)
qed

lemma why_held_none: "why_held x from_pattern = [] \<longleftrightarrow> os_measured x \<and> os_sum x \<le> 0 \<and> \<not> from_pattern"
  by (auto simp: why_held_def)

lemma read_empty_mono: "read_empty c t E \<Longrightarrow> E \<subseteq> F \<Longrightarrow> read_empty c t F"
  unfolding read_empty_def by blast

lemma hold_topics_spare:
  "hold_topics v c listed added ts io = (held, io') \<Longrightarrow>
   adds (gentle own) io io' \<and>
   (held = [] \<longrightarrow> (\<forall>t\<in>set ts. t \<notin> set listed \<or> t \<notin> set added \<and> read_empty c t (during io io')))"
proof (induction ts arbitrary: io held io')
  case (Cons t ts)
  show ?case
  proof (cases "t \<in> set listed")
    case True
    obtain x io1 where x: "topic_offsets v c t io = (x, io1)" by (cases "topic_offsets v c t io")
    obtain held' io2 where h: "hold_topics v c listed added ts io1 = (held', io2)" by (cases "hold_topics v c listed added ts io1")
    note one = topic_offsets_read [OF x, of own] and rest = Cons.IH [OF h]
    have g: "adds (gentle own) io io1" "adds (gentle own) io1 io2" using one rest by auto
    have io: "io' = io2" and held: "held = (if why_held x (t \<in> set added) = [] then [] else
        [\<lparr>th_topic = t, th_records = x, th_reason = join_with ''; '' (why_held x (t \<in> set added))\<rparr>]) @ held'"
      using Cons.prems True x h by (auto simp: Let_def)
    have sub: "during io io1 \<subseteq> during io io2" "during io1 io2 \<subseteq> during io io2"
      using during_first [OF g] during_then [OF g] by auto
    show ?thesis
    proof (intro conjI impI ballI)
      show "adds (gentle own) io io'" using adds_trans [OF g] io by simp
      fix u
      assume "held = []" and u: "u \<in> set (t # ts)"
      then have none: "why_held x (t \<in> set added) = []" "held' = []" using held by (auto split: if_splits)
      show "u \<notin> set listed \<or> u \<notin> set added \<and> read_empty c u (during io io')"
      proof (cases "u = t")
        case True
        then show ?thesis using none(1) one read_empty_mono [OF _ sub(1)] io by (auto simp: why_held_none)
      next
        case False
        then show ?thesis using u rest none(2) read_empty_mono [OF _ sub(2)] io by auto
      qed
    qed
  qed (use Cons in auto)
qed simp

lemma inspect_spares:
  assumes "inspect_lab_topics v d timeout io = (r, d', io')" "di_name d \<noteq> []"
  shows "adds (gentle (own_delete d)) io io' \<and>
    (case r of
       Inl e \<Rightarrow> d' = d
     | Inr held \<Rightarrow> \<exists>c kv img out added bad. c = target_client_of (inspect_options d timeout) kv img \<and> listing c out \<in> during io io' \<and>
         resolve_pattern_topics (rd_compile (dn_read v)) (go_fields out) d = (d', added, bad) \<and>
         (held = [] \<longrightarrow> (\<forall>t\<in>set (discovered_topics d'). t \<notin> set (go_fields out) \<or> t \<notin> set added \<and> read_empty c t (during io io'))))"
proof -
  let ?own = "own_delete d" and ?w = "dn_world v"
  obtain x io1 where x: "open_target_client v (inspect_options d timeout) io = (x, io1)"
    by (cases "open_target_client v (inspect_options d timeout) io")
  have opened: "adds (gentle ?own) io io1 \<and> (\<forall>c. x = Inr c \<longrightarrow> (\<exists>kv img. c = target_client_of (inspect_options d timeout) kv img))"
    by (rule open_gentle [OF x]) (simp_all add: own_delete_def inspect_options_def client_pod_name_def)
  show ?thesis
  proof (cases x)
    case (Inr c)
    obtain kv img where c: "c = target_client_of (inspect_options d timeout) kv img" using opened Inr by blast
    let ?call = "list_topics (tc_tools c) (tc_bootstrap c) (tc_cfg c)"
    obtain y io2 where y: "pod_exec ?w (tc_pod c) ?call io1 = (y, io2)" by (cases "pod_exec ?w (tc_pod c) ?call io1")
    have del: "delete_argv (tc_pod c) = ?own"
      by (simp add: c delete_argv_def own_delete_def target_client_of_def inspect_options_def client_pod_name_def)
    have gone: "adds (gentle ?own) z (snd (delete_pod ?w (tc_pod c) z))" for z
      by (rule gentle_adds [OF delete_pod_adds]) (auto simp: del prod_eq_iff)
    note g1 = opened [THEN conjunct1] and g2 = pod_exec_gentle [OF y, of ?own]
    note g12 = adds_trans [OF g1 g2]
    show ?thesis
    proof (cases y)
      case (Inl e)
      then show ?thesis using assms(1) x y \<open>x = Inr c\<close> adds_trans [OF g12 gone] by (auto simp: inspect_lab_topics_def)
    next
      case (Inr out)
      obtain d2 added bad where d2: "resolve_pattern_topics (rd_compile (dn_read v)) (go_fields out) d = (d2, added, bad)"
        by (cases "resolve_pattern_topics (rd_compile (dn_read v)) (go_fields out) d") auto
      obtain held io3 where h: "hold_topics v c (go_fields out) added (discovered_topics d2) io2 = (held, io3)"
        by (cases "hold_topics v c (go_fields out) added (discovered_topics d2) io2")
      note held = hold_topics_spare [OF h, of ?own]
      then have g3: "adds (gentle ?own) io2 io3" by blast
      have io: "io' = snd (delete_pod ?w (tc_pod c) io3)" "d' = d2" "r = Inr held"
        using assms(1) x y \<open>x = Inr c\<close> Inr d2 h by (simp_all add: inspect_lab_topics_def)
      have g4: "adds (gentle ?own) io3 io'" unfolding io(1) by (rule gone)
      note g123 = adds_trans [OF g12 g3] and g34 = adds_trans [OF g3 g4]
      have "listing c out \<in> during io1 io2" using pod_exec_event y Inr by (simp add: listing_def)
      then have list: "listing c out \<in> during io io'" by (intro during_first [OF g12 g34] during_then [OF g1 g2])
      have sub: "during io2 io3 \<subseteq> during io io'"
        using during_then [OF g12 g3] during_first [OF g123 g4] by blast
      have spare: "held = [] \<longrightarrow> (\<forall>t\<in>set (discovered_topics d2). t \<notin> set (go_fields out) \<or> t \<notin> set added \<and> read_empty c t (during io io'))"
        using held read_empty_mono [OF _ sub] by blast
      show ?thesis using adds_trans [OF g123 g4] c list d2 spare io by auto
    qed
  qed (use assms(1) x opened in \<open>auto simp: inspect_lab_topics_def\<close>)
qed

lemma confirm_none: "confirm_topic_data v d held True False = None \<longleftrightarrow> held = []"
  by (simp add: confirm_topic_data_def)

lemma guard_gentle: "guard_lab_topics v d timeout yes data io = (e, d', io') \<Longrightarrow> adds (gentle (own_delete d)) io io'"
proof -
  assume run: "guard_lab_topics v d timeout yes data io = (e, d', io')"
  obtain r d2 io2 where i: "inspect_lab_topics v d timeout io = (r, d2, io2)" by (cases "inspect_lab_topics v d timeout io") auto
  show ?thesis
  proof (cases "di_name d = []")
    case False
    then show ?thesis using run i inspect_spares [OF i False]
      by (auto simp: guard_lab_topics_def split: if_splits sum.splits)
  qed (use run in \<open>simp add: guard_lab_topics_def\<close>)
qed

lemma ask_owned_gentle: "ask_owned w n ss io = (r, io') \<Longrightarrow> adds (gentle own) io io'"
proof (induction ss arbitrary: io io' r)
  case (Cons s ss)
  obtain b io1 where b: "(if fs_namespace s \<noteq> [] then namespace_has_label w (fs_namespace s) label_lab n io else (fs_owned s, io)) = (b, io1)"
    by (cases "if fs_namespace s \<noteq> [] then namespace_has_label w (fs_namespace s) label_lab n io else (fs_owned s, io)")
  obtain ss' io2 where s: "ask_owned w n ss io1 = (ss', io2)" by (cases "ask_owned w n ss io1")
  have "adds (gentle own) io io1"
    using b by (auto simp: namespace_has_label_def removes_def split: if_splits prod.splits sum.splits intro!: run_command_adds)
  then show ?case using Cons.prems b s Cons.IH [OF s] adds_trans by (auto simp: Let_def)
qed simp

lemma discover_gentle: "discover_lab rd w n io = (r, io') \<Longrightarrow> adds (gentle own) io io'"
proof -
  assume run: "discover_lab rd w n io = (r, io')"
  let ?argv = "[''kubectl'', ''get'', ''kafkamirrormaker2,statefulset,kafka'', ''-A'', ''-l'', label_lab @ (if n \<noteq> [] then ''='' @ n else []), ''-o'', ''json'']"
  obtain x io1 where x: "run_command w None ?argv io = (x, io1)" by (cases "run_command w None ?argv io")
  have g: "adds (gentle own) io io1" by (rule run_command_adds [OF x]) (simp add: removes_def)
  have "io' = io1 \<or> (\<exists>lab ss ss'. ask_owned w lab ss io1 = (ss', io'))"
    using run x by (auto simp: discover_lab_def Let_def split: sum.splits prod.splits)
  then show ?thesis using g adds_trans [OF g] ask_owned_gentle by metis
qed

text \<open>
  C4. An unattended removal spares records: when a down with --yes and without --keep-topics or --delete-data ends
  without an error, then before the first removal, for a lab and a target that are named, the client pod on that target
  listed the topics and each mirrored topic that goes is either not in that list, or one of the lab's own record whose
  end offsets were read in this run and sum to no record.
\<close>

theorem unattended_down_spares_records:
  assumes "run_migrate_down v f io = (None, io')" "df_yes f" "\<not> df_keep f" "\<not> df_delete_data f"
  shows "\<exists>d d' io1 io2. discover_lab (dn_read v) (dn_world v) (df_name f) io = (Inr d, io1) \<and>
    adds (gentle (own_delete d)) io io2 \<and> lab_down v d' (seconds (df_timeout f)) False io2 = (None, io') \<and>
    (di_name d = [] \<or> di_target_namespace d = [] \<or> di_target_cluster d = [] \<or> discovered_topics d' = [] \<or>
     (\<exists>c kv img out added bad. c = target_client_of (inspect_options d (seconds (df_timeout f))) kv img \<and> listing c out \<in> during io1 io2 \<and>
        resolve_pattern_topics (rd_compile (dn_read v)) (go_fields out) d = (d', added, bad) \<and>
        list_all (\<lambda>t. t \<notin> set (go_fields out) \<or> t \<notin> set added \<and> read_empty c t (during io1 io2)) (discovered_topics d')))"
proof -
  let ?t = "seconds (df_timeout f)"
  obtain r io1 where r: "discover_lab (dn_read v) (dn_world v) (df_name f) io = (r, io1)"
    by (cases "discover_lab (dn_read v) (dn_world v) (df_name f) io")
  obtain d where d: "r = Inr d" using assms r by (cases r) (auto simp: run_migrate_down_def)
  obtain e d' io2 where g: "guard_lab_topics v d ?t True False io1 = (e, d', io2)" by (cases "guard_lab_topics v d ?t True False io1") auto
  have down: "e = None" "lab_down v d' ?t False io2 = (None, io')"
    using assms r d g by (auto simp: run_migrate_down_def migrate_confirm_def split: option.splits)
  have gentle: "adds (gentle (own_delete d)) io io2" using adds_trans [OF discover_gentle [OF r] guard_gentle [OF g]] .
  have "di_name d = [] \<or> di_target_namespace d = [] \<or> di_target_cluster d = [] \<or> discovered_topics d' = [] \<or>
     (\<exists>c kv img out added bad. c = target_client_of (inspect_options d ?t) kv img \<and> listing c out \<in> during io1 io2 \<and>
        resolve_pattern_topics (rd_compile (dn_read v)) (go_fields out) d = (d', added, bad) \<and>
        list_all (\<lambda>t. t \<notin> set (go_fields out) \<or> t \<notin> set added \<and> read_empty c t (during io1 io2)) (discovered_topics d'))"
  proof (cases "di_name d = [] \<or> di_target_namespace d = [] \<or> di_target_cluster d = [] \<or> discovered_topics d = [] \<and> pattern_legs d = []")
    case True
    then have "d' = d" using g by (auto simp: guard_lab_topics_def split: if_splits)
    then show ?thesis using True by blast
  next
    case False
    obtain x d2 io3 where i: "inspect_lab_topics v d ?t io1 = (x, d2, io3)" by (cases "inspect_lab_topics v d ?t io1") auto
    have s: "d2 = d'" "io3 = io2" using g False i by (auto simp: guard_lab_topics_def split: sum.splits)
    note spared = inspect_spares [OF i] False
    show ?thesis
    proof (cases x)
      case (Inl err)
      then have "discovered_topics d' = []" using g False i down(1) by (auto simp: guard_lab_topics_def confirm_none)
      then show ?thesis by simp
    next
      case (Inr held)
      then have "held = []" using g False i down(1) by (auto simp: guard_lab_topics_def confirm_none)
      then show ?thesis using spared Inr s unfolding list_all_iff by auto
    qed
  qed
  then show ?thesis using r d down gentle by blast
qed

text \<open>
  C10. A down that stops before its removal removes nothing: whenever it fails other than by an incomplete removal, no
  command ran that uninstalls a release or deletes an object, but the deletion of its own client pod.
\<close>

theorem refused_down_removes_nothing:
  assumes "run_migrate_down v f io = (Some e, io')" "\<forall>n ps. e \<noteq> NotFullyRemoved n ps"
  shows "\<exists>d. adds (gentle (own_delete d)) io io'"
proof -
  let ?t = "seconds (df_timeout f)"
  obtain r io1 where r: "discover_lab (dn_read v) (dn_world v) (df_name f) io = (r, io1)"
    by (cases "discover_lab (dn_read v) (dn_world v) (df_name f) io")
  note one = discover_gentle [OF r]
  show ?thesis
  proof (cases r)
    case (Inr d)
    obtain g d' io2 where g: "guard_lab_topics v d ?t (df_yes f) (df_delete_data f) io1 = (g, d', io2)"
      by (cases "guard_lab_topics v d ?t (df_yes f) (df_delete_data f) io1") auto
    have down: "fst (lab_down v x ?t k z) \<noteq> Some e" for x k z using assms(2) by (auto simp: lab_down_def Let_def split: prod.splits)
    have "io' = io \<or> io' = io1 \<or> io' = io2"
      using assms(1) r Inr g down [of d "df_keep f" io1] down [of d' "df_keep f" io2]
      by (auto simp: run_migrate_down_def split: if_splits option.splits)
    then show ?thesis using one adds_trans [OF one guard_gentle [OF g]] adds_refl by metis
  qed (use assms(1) r one in \<open>auto simp: run_migrate_down_def split: if_splits\<close>)
qed

section \<open>A small lab\<close>

text \<open>A mirror of one topic, in the world of the small verification lab, which lists \<open>t\<close> with one record and no \<open>u\<close>.\<close>

definition down_item :: "string \<Rightarrow> lab_item" where
  "down_item topic =
     \<lparr>it_kind = ''kafkamirrormaker2'', it_name = ''mm'', it_namespace = ''kafka'', it_labels = [label_lab \<mapsto> ''m1''],
      it_annotations = [annotation_lab_topics \<mapsto> topic],
      it_mirror_spec = Some \<lparr>mp_bootstrap = ''c-kafka-bootstrap.kafka:9092'', mp_group_id = ''g'', mp_clusters = [],
        mp_mirrors = [\<lparr>mi_alias = ''source'', mi_bootstrap = ''old:9092'', mi_pattern = topic, mi_policy_class = Some ''IdentityReplicationPolicy''\<rparr>]\<rparr>,
      it_kafka_version = []\<rparr>"

definition down_world :: "string \<Rightarrow> down_outside" where
  "down_world topic =
     \<lparr>dn_out = demo_outside True, dn_read = \<lparr>rd_compile = (\<lambda>p. None), rd_items = (\<lambda>out. Inr [down_item topic]), rd_lower = (\<lambda>s. s)\<rparr>,
      dn_pins = Inr \<lparr>pn_strimzi_version = [], pn_kafka_version = ''4.3.0'', pn_kafka_image = ''kafka'', pn_all = Map.empty\<rparr>,
      dn_bad_version = (\<lambda>e. []), dn_topic_yaml = (\<lambda>n ns c t. Inr t), dn_confirm = (\<lambda>q. Inr False), dn_json = False, dn_interactive = False\<rparr>"

definition down_flags :: down_flags where
  "down_flags = \<lparr>df_name = [], df_yes = True, df_timeout = 600, df_keep = False, df_delete_data = False\<rparr>"

definition down_lab :: "string \<Rightarrow> discovery" where
  "down_lab topic = discovered (dn_read (down_world topic)) ''m1'' [down_item topic]"

lemma down_parts [simp]:
  "ou_world (dn_out (down_world t)) = demo_world True" "ou_render (dn_out (down_world t)) = (\<lambda>m. Inr ''y'')" "dn_out (down_world t) = demo_outside True"
  "rd_items (dn_read (down_world t)) out = Inr [down_item t]" "rd_compile (dn_read (down_world t)) p = None" "rd_lower (dn_read (down_world t)) s = s"
  "dn_topic_yaml (down_world t) n ns c u = Inr u" "dn_json (down_world t) = False" "dn_interactive (down_world t) = False"
  by (simp_all add: down_world_def demo_outside_def)

lemma down_lab_fields:
  assumes "topic \<in> {''t'', ''u''}"
  shows "di_sources (down_lab topic) = []" "di_name (down_lab topic) = ''m1''" "di_target_namespace (down_lab topic) = ''kafka''"
    "di_target_cluster (down_lab topic) = ''c''" "discovered_topics (down_lab topic) = [topic]" "list_all (\<lambda>leg. \<not> lg_pattern_only leg) (di_legs (down_lab topic))"
proof -
  have t: "split_topics topic = [topic]" using assms by (auto simp: split_topics_def trim_space_id space_free_end_def)
  have c: "cluster_from_bootstrap ''c-kafka-bootstrap.kafka:9092'' = (''c'', ''kafka'')" by code_simp
  have p: "contains_text ''IdentityReplicationPolicy'' ''IdentityReplicationPolicy''" by (simp add: contains_text_def)
  note facts = t c p
  show "di_sources (down_lab topic) = []" "di_name (down_lab topic) = ''m1''" "di_target_namespace (down_lab topic) = ''kafka''"
    "di_target_cluster (down_lab topic) = ''c''" "discovered_topics (down_lab topic) = [topic]" "list_all (\<lambda>leg. \<not> lg_pattern_only leg) (di_legs (down_lab topic))"
    by (simp_all add: down_lab_def discovered_def add_item_def down_item_def lab_label_def map_get_def label_lab_def annotation_lab_topics_def
        order_lab_sources_def read_mirror_spec_def facts resource_of_def empty_discovery_def leg_of_def leg_topics_def Let_def
        discovered_topics_def discovered_topic_def target_topic_def policy_identity_def policy_default_def)
qed

lemma down_discovers:
  assumes "topic \<in> {''t'', ''u''}"
  shows "\<exists>io'. discover_lab (dn_read (down_world topic)) (demo_world True) [] io = (Inr (down_lab topic), io')"
proof -
  have "lab_label (down_item topic) = ''m1''" by (simp add: lab_label_def down_item_def map_get_def label_lab_def annotation_lab_topics_def)
  then show ?thesis using demo_trim down_lab_fields(1) [OF assms]
    by (simp add: discover_lab_def parse_labelled_items_def pick_lab_name_def down_lab_def [symmetric] adopt_first_source_def Let_def)
qed

lemma down_resolves: "list_all (\<lambda>leg. \<not> lg_pattern_only leg) (di_legs d) \<Longrightarrow> resolve_pattern_topics compile listed d = (d, [], [])"
proof -
  have "resolve_legs compile listed legs d = (legs, d, [], [])" if "list_all (\<lambda>leg. \<not> lg_pattern_only leg) legs" for legs
    using that by (induction legs) auto
  then show "list_all (\<lambda>leg. \<not> lg_pattern_only leg) (di_legs d) \<Longrightarrow> resolve_pattern_topics compile listed d = (d, [], [])"
    by (simp add: resolve_pattern_topics_def)
qed

lemma down_opens:
  assumes "di_name d = ''m1''" "di_target_namespace d = ''kafka''"
  shows "\<exists>c io'. open_target_client (down_world topic) (inspect_options d 600000000000) io = (Inr c, io') \<and> usable (tc_pod c)"
proof -
  have v: "parse_version ''4.3.0'' = Inr \<lparr>major = 4, minor = 3, patch = 0\<rparr>" by code_simp
  let ?c = "target_client_of (inspect_options d 600000000000) \<lparr>major = 4, minor = 3, patch = 0\<rparr> ''kafka''"
  have u: "usable (tc_pod ?c)" by (simp add: usable_def target_client_of_def inspect_options_def assms client_pod_name_def)
  have "validate_pod (tc_pod ?c) = None"
    by (simp add: target_client_of_def inspect_options_def assms client_pod_name_def) code_simp
  from demo_ensure [OF this] obtain io1 where
    "ensure_pod (\<lambda>m. Inr ''y'') (demo_world True) (tc_pod ?c) (if seconds (to_timeout (inspect_options d 600000000000)) \<le> 0 then default_ready_timeout else seconds (to_timeout (inspect_options d 600000000000))) io = (None, io1)" by blast
  moreover obtain io2 where "place_credential (demo_outside True) (tc_pod ?c) ''kafka'' target_user ''SCRAM-SHA-512'' target_user io1 = (None, io2)"
    using demo_place [OF u] by blast
  ultimately show ?thesis using u
    by (simp add: open_target_client_def down_world_def v demo_outside_def [symmetric] Let_def) (simp add: inspect_options_def assms demo_outside_def)
qed

lemma reply_fields: "set (go_fields demo_reply) = {''t:0:1'', ''g'', ''t'', ''0'', ''1'', demo_record}"
proof -
  have "demo_record \<noteq> []" using record_line_ends by (simp add: demo_record_def)
  then have "fields_from [] demo_record = [demo_record]" using demo_fields(1) by (simp add: go_fields_def)
  then show ?thesis
    by (simp add: go_fields_def demo_reply_def fields_from_plain fields_from_blank space_free_end_def del: fields_from.simps(2)) auto
qed

lemma reply_topics: "''t'' \<in> set (go_fields demo_reply)" "''u'' \<notin> set (go_fields demo_reply)"
proof -
  have "hd demo_record = CHR ''{''" using record_line_ends by (simp add: demo_record_def)
  then have "hd demo_record \<noteq> hd ''u''" by simp
  then have "demo_record \<noteq> ''u''" by metis
  then show "''t'' \<in> set (go_fields demo_reply)" "''u'' \<notin> set (go_fields demo_reply)" by (simp_all add: reply_fields eq_commute)
qed

lemma down_inspects:
  assumes "topic \<in> {''t'', ''u''}"
  shows "\<exists>io'. inspect_lab_topics (down_world topic) (down_lab topic) 600000000000 io =
    (Inr (if topic = ''u'' then [] else [\<lparr>th_topic = ''t'', th_records = measured 1, th_reason = ''holds 1 record(s)''\<rparr>]), down_lab topic, io')"
proof -
  note f = down_lab_fields [OF assms]
  obtain c io1 where c: "open_target_client (down_world topic) (inspect_options (down_lab topic) 600000000000) io = (Inr c, io1)" "usable (tc_pod c)"
    using down_opens [OF f(2,3)] by blast
  obtain io2 where l: "pod_exec (demo_world True) (tc_pod c) (list_topics (tc_tools c) (tc_bootstrap c) (tc_cfg c)) io1 = (Inr demo_reply, io2)"
    using demo_exec(1) [OF c(2)] by fastforce
  obtain io3 where o: "pod_exec (demo_world True) (tc_pod c) (end_offsets (tc_tools c) (tc_bootstrap c) (tc_cfg c) ''t'') io2 = (Inr demo_reply, io3)"
    using demo_exec(1) [OF c(2)] by fastforce
  have why: "why_held (measured 1) False = [''holds 1 record(s)'']" by code_simp
  have "hold_topics (down_world topic) c (go_fields demo_reply) [] [topic] io2 =
      (if topic = ''u'' then ([], io2) else ([\<lparr>th_topic = ''t'', th_records = measured 1, th_reason = ''holds 1 record(s)''\<rparr>], io3))"
    using assms reply_topics by (auto simp: topic_offsets_def o demo_reading why)
  then show ?thesis
    by (simp add: inspect_lab_topics_def c(1) l down_resolves [OF f(6)] f(5))
qed

lemma down_removals: "\<exists>io'. run_removals (down_world topic) xs io = ([], io')"
proof (induction xs arbitrary: io)
  case (Cons x xs)
  then show ?case by (simp add: Let_def)
qed simp

lemma down_seconds: "seconds 600 = 600000000000"
  by (simp add: seconds_def wrap64_def one_second_def)

lemma down_guard:
  assumes "topic \<in> {''t'', ''u''}"
  shows "\<exists>io'. guard_lab_topics (down_world topic) (down_lab topic) 600000000000 True False io =
    (if topic = ''u'' then None else Some (RefusesData 1 ''c'' [''t (1 records)'']), down_lab topic, io')"
proof -
  have "held_label \<lparr>th_topic = ''t'', th_records = measured 1, th_reason = ''holds 1 record(s)''\<rparr> = ''t (1 records)''" by code_simp
  then show ?thesis using down_inspects [OF assms, of io] assms
    by (auto simp: guard_lab_topics_def down_lab_fields confirm_topic_data_def)
qed

lemma down_manifests: "\<exists>y. topic_manifests (down_world topic) d ts = Inr y"
  by (induction ts) auto

lemma down_renders [simp]: "topic_manifests (down_world topic) d ts \<noteq> Inl e"
  using down_manifests [of topic d ts] by auto

lemma down_topics: "\<exists>io'. delete_lab_topics (down_world ''u'') (down_lab ''u'') False io = (None, io')"
proof -
  obtain its where its: "parse_labelled_items (dn_read (down_world ''u'')) demo_reply = Inr its"
    using demo_trim by (simp add: parse_labelled_items_def)
  show ?thesis
    using down_manifests [of "''u''" "down_lab ''u''"] its
    by (auto simp: delete_lab_topics_def shared_internal_topics_def drop_topics_def Let_def down_lab_fields split: sum.splits)
qed

lemma down_succeeds: "\<exists>io'. run_migrate_down (down_world ''u'') down_flags io = (None, io')"
proof -
  let ?v = "down_world ''u''" and ?d = "down_lab ''u''"
  obtain io1 where a: "discover_lab (dn_read ?v) (demo_world True) [] io = (Inr ?d, io1)" using down_discovers [of "''u''"] by blast
  obtain io2 where b: "guard_lab_topics ?v ?d 600000000000 True False io1 = (None, ?d, io2)" using down_guard [of "''u''"] by auto
  obtain io3 where c: "run_removals ?v (release_removals ?d) io2 = ([], io3)" using down_removals by blast
  obtain io4 where e: "delete_lab_topics ?v ?d False io3 = (None, io4)" using down_topics by blast
  obtain io5 where f: "run_removals ?v (rest_removals ?d 600000000000) io4 = ([], io5)" using down_removals by blast
  show ?thesis
    by (simp add: run_migrate_down_def down_flags_def a b c e f down_seconds migrate_confirm_def lab_down_def Let_def down_lab_fields)
qed

theorem unattended_down_spares_records_witness:
  "\<exists>io' d d' io1 io2. run_migrate_down (down_world ''u'') down_flags \<lparr>io_log = [], io_now = 0\<rparr> = (None, io') \<and>
     discover_lab (dn_read (down_world ''u'')) (demo_world True) [] \<lparr>io_log = [], io_now = 0\<rparr> = (Inr d, io1) \<and>
     lab_down (down_world ''u'') d' (seconds 600) False io2 = (None, io')"
proof -
  obtain io' where r: "run_migrate_down (down_world ''u'') down_flags \<lparr>io_log = [], io_now = 0\<rparr> = (None, io')" using down_succeeds by blast
  show ?thesis using unattended_down_spares_records [OF r] r by (auto simp: down_flags_def)
qed

theorem refused_down_removes_nothing_witness:
  "\<exists>io' d. run_migrate_down (down_world ''t'') down_flags \<lparr>io_log = [], io_now = 0\<rparr> = (Some (RefusesData 1 ''c'' [''t (1 records)'']), io') \<and>
     adds (gentle (own_delete d)) \<lparr>io_log = [], io_now = 0\<rparr> io'"
proof -
  let ?v = "down_world ''t''" and ?d = "down_lab ''t''" and ?io = "\<lparr>io_log = [], io_now = 0\<rparr>"
  obtain io1 where a: "discover_lab (dn_read ?v) (demo_world True) [] ?io = (Inr ?d, io1)" using down_discovers [of "''t''"] by blast
  obtain io2 where b: "guard_lab_topics ?v ?d 600000000000 True False io1 = (Some (RefusesData 1 ''c'' [''t (1 records)'']), ?d, io2)"
    using down_guard [of "''t''"] by auto
  have r: "run_migrate_down ?v down_flags ?io = (Some (RefusesData 1 ''c'' [''t (1 records)'']), io2)"
    by (simp add: run_migrate_down_def down_flags_def a b down_seconds migrate_confirm_def)
  show ?thesis using refused_down_removes_nothing [OF r] r by blast
qed

end
