(* ===== verification/MigrationUp.thy ===== *)
theory MigrationUp
  imports LabDown
begin

text \<open>
  Creating a lab (\<open>cli/cmd/migrate_up.go\<close>, with the helm arguments of \<open>migrate.go\<close>) and building a legacy image
  (\<open>cli/cmd/migrate_image.go\<close>): the prerequisites with their refusals, the image, each source, its credential and the
  mirror, over the same \<open>world\<close> and report as the verification. The YAML of each document, the user's namespace labels,
  the lab's build directory and what the chart bundle holds are fields of \<open>up_outside\<close>. Hints and warnings are left out.
\<close>

section \<open>The legacy image\<close>

definition default_scala_version :: string where "default_scala_version = ''2.13''"
definition default_os_release :: string where "default_os_release = ''jammy''"
definition legacy_image_name :: string where "legacy_image_name = ''kates-legacy-kafka''"
definition default_kind_cluster_name :: string where "default_kind_cluster_name = ''panda''"

record image_options =
  io_version :: string
  io_scala :: string
  io_jre :: string
  io_os_release :: string
  io_platform :: string
  io_registry :: string
  io_load :: bool
  io_push :: bool
  io_kind_cluster :: string

definition image_of :: "image_options \<Rightarrow> string" where
  "image_of opts =
     (let registry = trim_suffix ''/'' (io_registry opts)
      in (if registry = [] then default_legacy_registry else registry) @ ''/'' @ legacy_image_name @ '':'' @ io_version opts)"

definition jre_of :: "image_options \<Rightarrow> string" where
  "jre_of opts = (if io_jre opts \<noteq> [] then io_jre opts else if prefix ''2.'' (io_version opts) then ''11'' else ''17'')"

definition build_args :: "image_options \<Rightarrow> string \<Rightarrow> string list" where
  "build_args opts dockerfile =
     [''--build-arg'', ''KAFKA_VERSION='' @ io_version opts, ''--build-arg'', ''SCALA_VERSION='' @ io_scala opts,
      ''--build-arg'', ''JRE_VERSION='' @ jre_of opts, ''--build-arg'', ''UBUNTU_RELEASE='' @ io_os_release opts,
      ''-f'', dockerfile, ''-t'', image_of opts] @
     (if io_platform opts \<noteq> [] then [''--platform'', io_platform opts] else [])"

text \<open>\<open>kafkaJarLine\<close>: \<open>kafka_\<close>, a Scala version, a dash, the version, \<open>.jar\<close>.\<close>

definition is_version_char :: "char \<Rightarrow> bool" where
  "is_version_char c \<longleftrightarrow> is_digit c \<or> c = CHR ''.''"

definition jar_version :: "string \<Rightarrow> string option" where
  "jar_version line =
     (case cut_prefix ''kafka_'' line of
        None \<Rightarrow> None
      | Some rest \<Rightarrow>
          (let scala = takeWhile is_version_char rest; after = dropWhile is_version_char rest
           in if scala = [] \<or> after = [] \<or> hd after \<noteq> CHR ''-'' then None
              else (case cut_suffix ''.jar'' (tl after) of
                      Some v \<Rightarrow> if v \<noteq> [] \<and> list_all is_version_char v then Some v else None
                    | None \<Rightarrow> None)))"

definition kafka_jar_version :: "string \<Rightarrow> string" where
  "kafka_jar_version out =
     (case List.map_filter (\<lambda>l. jar_version (trim_space l)) (split_on nl out) of v # _ \<Rightarrow> v | [] \<Rightarrow> [])"

definition libs_argv :: "string \<Rightarrow> string list" where
  "libs_argv img = [''docker'', ''run'', ''--rm'', ''--entrypoint'', ''ls'', img, ''/opt/kafka/libs/'']"

definition verify_legacy_image :: "world \<Rightarrow> string \<Rightarrow> string \<Rightarrow> io \<Rightarrow> string option \<times> io" where
  "verify_legacy_image w img version io =
     (case run_command w None (libs_argv img) io of
        (Inl e, io1) \<Rightarrow> (Some (''list the image's Kafka libraries: '' @ e), io1)
      | (Inr out, io1) \<Rightarrow>
          (if kafka_jar_version out \<noteq> version
           then (Some (''image reports Kafka '' @ dq # kafka_jar_version out @ dq # '', expected '' @ version), io1)
           else (None, io1)))"

text \<open>A step that must succeed: its command and how its failure is reported.\<close>

fun must_run :: "world \<Rightarrow> (string list \<times> string) list \<Rightarrow> io \<Rightarrow> string option \<times> io" where
  "must_run w [] io = (None, io)"
| "must_run w ((argv, what) # steps) io =
     (case run_command w None argv io of
        (Inl e, io1) \<Rightarrow> (Some (what @ e), io1)
      | (Inr out, io1) \<Rightarrow> must_run w steps io1)"

text \<open>The Dockerfile and its build context, in a checkout or written out; None when it cannot be.\<close>

definition image_defaults :: "image_options \<Rightarrow> image_options" where
  "image_defaults opts =
     opts\<lparr>io_scala := (if io_scala opts = [] then default_scala_version else io_scala opts),
          io_os_release := (if io_os_release opts = [] then default_os_release else io_os_release opts),
          io_kind_cluster := (if io_kind_cluster opts = [] then default_kind_cluster_name else io_kind_cluster opts)\<rparr>"

definition run_image_build :: "world \<Rightarrow> string + (string \<times> string) \<Rightarrow> (version_error \<Rightarrow> string) \<Rightarrow> image_options \<Rightarrow> io \<Rightarrow> string option \<times> io" where
  "run_image_build w dockerfile bad opts0 io =
     (case parse_version (io_version opts0) of
        Inl e \<Rightarrow> (Some (''--version: '' @ bad e), io)
      | Inr v \<Rightarrow>
          (let opts = image_defaults opts0; img = image_of opts
           in if io_push opts \<and> io_load opts then (Some ''--push and --load are mutually exclusive'', io)
              else
                (case must_run w ([([''docker'', ''--version''], ''docker is required to build the image: '')] @
                       (if io_push opts then [([''docker'', ''buildx'', ''version''], ''--push needs docker buildx: '')] else [])) io of
                   (Some e, io1) \<Rightarrow> (Some e, io1)
                 | (None, io1) \<Rightarrow>
                     (case dockerfile of
                        Inl e \<Rightarrow> (Some e, io1)
                      | Inr (file, dir) \<Rightarrow>
                          (case must_run w
                              (if io_push opts
                               then [([''docker'', ''buildx'', ''build''] @ build_args opts file @ [''--push'', dir], ''docker buildx build --push: ''),
                                     ([''docker'', ''pull'', ''--quiet'', img], ''pull '' @ img @ '' back for verification: '')]
                               else [([''docker'', ''build''] @ build_args opts file @ [dir], ''docker build: '')]) io1 of
                             (Some e, io2) \<Rightarrow> (Some e, io2)
                           | (None, io2) \<Rightarrow>
                               (case verify_legacy_image w img (io_version opts) io2 of
                                  (Some e, io3) \<Rightarrow> (Some e, io3)
                                | (None, io3) \<Rightarrow>
                                    must_run w
                                      (if io_load opts
                                       then [([''kind'', ''get'', ''clusters''], ''kind is required for --load: ''),
                                             ([''kind'', ''load'', ''docker-image'', img, ''--name'', io_kind_cluster opts], ''kind load docker-image: '')]
                                       else []) io3))))))"

section \<open>A run of up\<close>

record up_outside =
  uo_down :: down_outside
  uo_user_labels :: "string + (string \<rightharpoonup> string)"
  uo_namespace_yaml :: "string \<Rightarrow> (string \<rightharpoonup> string) \<Rightarrow> string"
  uo_source_yaml :: "source_values \<Rightarrow> string + string"
  uo_mirror_yaml :: "mirror_values \<Rightarrow> string + string"
  uo_secret_yaml :: "string \<Rightarrow> string \<Rightarrow> (string \<rightharpoonup> string) \<Rightarrow> string \<Rightarrow> string + string"
  uo_values_error :: "values_error \<Rightarrow> string"
  uo_build_dir :: "string \<Rightarrow> string"
  uo_registry :: string
  uo_bundled :: "string \<Rightarrow> bool"
  uo_archive :: "string option"
  uo_dockerfile :: "string + (string \<times> string)"

abbreviation uo_out :: "up_outside \<Rightarrow> outside" where "uo_out v \<equiv> dn_out (uo_down v)"
abbreviation uo_world :: "up_outside \<Rightarrow> world" where "uo_world v \<equiv> ou_world (uo_out v)"

record up_run =
  up_lab :: lab
  up_timeout :: int
  up_values_source :: string
  up_values_mirror :: string
  up_skip_build :: bool
  up_is_kind :: bool
  up_brokers :: int
  up_operator_namespace :: string

text \<open>What the phases share: the commands so far and the namespaces the run created.\<close>

record up_values =
  uv_io :: io
  uv_created :: "string \<rightharpoonup> bool"

type_synonym up_state = "up_values mig_state"

abbreviation at_io :: "up_state \<Rightarrow> io" where "at_io s \<equiv> uv_io (ms_values s)"

abbreviation up_io :: "io \<Rightarrow> up_state \<Rightarrow> up_state" where
  "up_io x s \<equiv> s\<lparr>ms_values := (ms_values s)\<lparr>uv_io := x\<rparr>\<rparr>"

abbreviation up_report :: "(report \<Rightarrow> report) \<Rightarrow> up_state \<Rightarrow> up_state" where
  "up_report f s \<equiv> s\<lparr>ms_report := f (ms_report s)\<rparr>"

definition row_cluster_reachable :: string where "row_cluster_reachable = ''cluster reachable''"
definition row_strimzi_crds :: string where "row_strimzi_crds = ''Strimzi CRDs''"
definition row_target_kafka_ready :: string where "row_target_kafka_ready = ''target Kafka Ready''"
definition row_target_credentials :: string where "row_target_credentials = ''target credentials''"
definition row_source_deployed :: string where "row_source_deployed = ''legacy source deployed''"
definition row_source_serving :: string where "row_source_serving = ''legacy source serving''"
definition row_mirror_installed :: string where "row_mirror_installed = ''MirrorMaker 2 installed''"
definition row_cr_ready :: string where "row_cr_ready = ''CR Ready''"
definition row_connectors_running :: string where "row_connectors_running = ''connectors RUNNING''"
definition migrate_crd_name :: string where "migrate_crd_name = ''kafkamirrormaker2s.kafka.strimzi.io''"
definition migrate_target_ready_timeout :: int where "migrate_target_ready_timeout = 300 * one_second"
definition migrate_mirror_install_timeout :: string where "migrate_mirror_install_timeout = ''10m''"
definition source_chart_path :: string where "source_chart_path = ''charts/legacy-kafka''"

section \<open>Refusals\<close>

definition own_mirror_writes :: "discovery \<Rightarrow> string list" where
  "own_mirror_writes d = concat (map (\<lambda>leg. map (target_topic d (lg_alias leg)) (lg_topics leg)) (di_legs d))"

fun overlap :: "reading \<Rightarrow> lab \<Rightarrow> lab_item list \<Rightarrow> string list \<Rightarrow> string + string list" where
  "overlap rd l [] written = Inr written"
| "overlap rd l (it # its) written =
     (let other = lab_label it;
          d = read_mirror_spec (rd_compile rd) (it_mirror_spec it) (map_get (it_annotations it) annotation_lab_topics) empty_discovery
      in if other = [] then overlap rd l its written
         else if other = op_name l \<and> it_name it = lb_mirror_cr l then overlap rd l its (written @ own_mirror_writes d)
         else
           (case find (\<lambda>t. t \<in> set (op_topics l)) (di_topics d) of
              Some t \<Rightarrow>
                Inl (''lab '' @ other @ '' already mirrors topic '' @ t @ '' onto '' @ op_target_cluster l @ '' in '' @ lb_mirror_namespace l)
            | None \<Rightarrow> overlap rd l its written))"

text \<open>Best effort: when the mirrors cannot be listed or read, no name is known to be the lab's own.\<close>

definition refuse_overlapping_lab :: "up_outside \<Rightarrow> up_run \<Rightarrow> io \<Rightarrow> (string + string list) \<times> io" where
  "refuse_overlapping_lab v r io =
     (case run_command (uo_world v) None
         [''kubectl'', ''-n'', lb_mirror_namespace (up_lab r), ''get'', ''kafkamirrormaker2'', ''-l'', label_lab, ''-o'', ''json''] io of
        (Inl e, io1) \<Rightarrow> (Inr [], io1)
      | (Inr out, io1) \<Rightarrow>
          (case rd_items (dn_read (uo_down v)) out of
             Inl e \<Rightarrow> (Inr [], io1)
           | Inr its \<Rightarrow> (overlap (dn_read (uo_down v)) (up_lab r) its [], io1)))"

definition check_options :: "up_run \<Rightarrow> target_options" where
  "check_options r =
     \<lparr>to_namespace = op_target_namespace (up_lab r), to_cluster = op_target_cluster (up_lab r), to_user = target_user,
      to_timeout = sgn (up_timeout r) * (\<bar>up_timeout r\<bar> div one_second), to_pod = [], to_labels = Map.empty\<rparr>"

definition refuse_existing_topics :: "up_outside \<Rightarrow> up_run \<Rightarrow> string list \<Rightarrow> io \<Rightarrow> string option \<times> io" where
  "refuse_existing_topics v r written io =
     (let l = up_lab r; check = filter (\<lambda>t. t \<notin> set written) (replicated_topics l);
          unlisted = ''cannot list the topics on '' @ op_target_cluster l @ '' to check that the lab's are new: ''
      in if check = [] then (None, io)
         else
           (case open_target_client (uo_down v) (check_options r) io of
              (Inl e, io1) \<Rightarrow> (Some (unlisted @ e), io1)
            | (Inr c, io1) \<Rightarrow>
                (case pod_exec (uo_world v) (tc_pod c) (list_topics (tc_tools c) (tc_bootstrap c) (tc_cfg c)) io1 of
                   (answer, io2) \<Rightarrow>
                     (let io3 = snd (delete_pod (uo_world v) (tc_pod c) io2)
                      in (case answer of
                            Inl e \<Rightarrow> (Some (unlisted @ run_error_text e), io3)
                          | Inr out \<Rightarrow>
                              (let taken = filter (\<lambda>t. t \<in> set (go_fields out)) check
                               in (if taken = [] then None
                                   else Some (''topic(s) '' @ join_with '', '' taken @ '' already exist on '' @ op_target_cluster l @ '' in '' @ op_target_namespace l),
                                   io3)))))))"

section \<open>The phases\<close>

text \<open>A failed row and the phase's error.\<close>

abbreviation failing :: "string \<Rightarrow> string \<Rightarrow> string \<Rightarrow> io \<Rightarrow> up_state \<Rightarrow> up_state \<times> string option" where
  "failing row detail e x s \<equiv> (up_report (row_fail row detail) (up_io x s), Some e)"

abbreviation passing :: "string \<Rightarrow> string \<Rightarrow> io \<Rightarrow> up_state \<Rightarrow> up_state" where
  "passing row detail x s \<equiv> up_report (row_pass row detail) (up_io x s)"

definition wait_target_argv :: "lab \<Rightarrow> string list" where
  "wait_target_argv l =
     [''kubectl'', ''-n'', op_target_namespace l, ''wait'', ''kafka/'' @ op_target_cluster l, ''--for=condition=Ready'',
      ''--timeout='' @ format_timeout migrate_target_ready_timeout]"

definition target_secret_argv :: "lab \<Rightarrow> string list" where
  "target_secret_argv l =
     [''kubectl'', ''-n'', op_target_namespace l, ''get'', ''secret'', target_user, ''--ignore-not-found'', ''-o'', ''jsonpath={.metadata.name}'']"

definition refuse_topics :: "up_outside \<Rightarrow> up_run \<Rightarrow> up_state \<Rightarrow> up_state \<times> string option" where
  "refuse_topics v r s =
     (case refuse_overlapping_lab v r (at_io s) of
        (Inl e, io1) \<Rightarrow> (up_io io1 s, Some e)
      | (Inr written, io1) \<Rightarrow> (let (e, io2) = refuse_existing_topics v r written io1 in (up_io io2 s, e)))"

definition phase_prerequisites :: "up_outside \<Rightarrow> up_run \<Rightarrow> up_state \<Rightarrow> up_state \<times> string option" where
  "phase_prerequisites v r s =
     (let l = up_lab r; w = uo_world v; place = op_target_cluster l @ '' in '' @ op_target_namespace l
      in (case run_command w None [''kubectl'', ''cluster-info''] (at_io s) of
            (Inl e, io1) \<Rightarrow> failing row_cluster_reachable ''no reachable Kubernetes cluster'' ''no reachable Kubernetes cluster. Run 'make cluster' first'' io1 s
          | (Inr info, io1) \<Rightarrow>
              (case run_command w None [''kubectl'', ''config'', ''current-context''] io1 of
                 (current, io2) \<Rightarrow>
                   (let s2 = passing row_cluster_reachable (case current of Inr c \<Rightarrow> trim_space c | Inl e \<Rightarrow> []) io2 s
                    in (case run_command w None [''kubectl'', ''get'', ''crd'', migrate_crd_name, ''-o'', ''name''] io2 of
                          (Inl e, io3) \<Rightarrow>
                            failing row_strimzi_crds (migrate_crd_name @ '' not installed'')
                              ''the KafkaMirrorMaker2 CRD is not installed. Run: kates deploy (or make deploy-strimzi)'' io3 s2
                        | (Inr crd, io3) \<Rightarrow>
                            (let s3 = passing row_strimzi_crds (migrate_crd_name @ '' present'') io3 s2
                             in (case run_command w None (wait_target_argv l) io3 of
                                   (Inl e, io4) \<Rightarrow>
                                     failing row_target_kafka_ready (place @ '' is not Ready'')
                                       (''target cluster '' @ place @ '' is not Ready. Run: kates deploy (or make deploy-kafka)'') io4 s3
                                 | (Inr ready, io4) \<Rightarrow>
                                     (let s4 = passing row_target_kafka_ready place io4 s3;
                                          missing = ''secret '' @ target_user @ '' not found in '' @ op_target_namespace l
                                      in (case run_command w None (target_secret_argv l) io4 of
                                            (Inl e, io5) \<Rightarrow> failing row_target_credentials missing missing io5 s4
                                          | (Inr found, io5) \<Rightarrow>
                                              if trim_space found = [] then failing row_target_credentials missing missing io5 s4
                                              else refuse_topics v r (passing row_target_credentials (''secret '' @ target_user) io5 s4))))))))))"

definition needs_built_image :: "lab_source \<Rightarrow> bool" where
  "needs_built_image s \<longleftrightarrow> so_provider s = provider_name ProviderLegacy \<and> so_mode s \<noteq> mode_name LegacyKRaftOfficial"

definition source_image_options :: "up_run \<Rightarrow> lab_source \<Rightarrow> image_options" where
  "source_image_options r s =
     \<lparr>io_version = version_string (so_from s), io_scala = default_scala_version, io_jre = [], io_os_release = default_os_release,
      io_platform = [], io_registry = op_registry (up_lab r), io_load = up_is_kind r, io_push = False,
      io_kind_cluster = default_kind_cluster_name\<rparr>"

text \<open>\<open>loadBundleImages\<close> on kind: \<open>uo_archive\<close> is the bundle's archive of images, when there is a bundle with one.\<close>

definition node_platform :: "string \<Rightarrow> string option" where
  "node_platform arch =
     (if arch = ''x86_64'' then Some ''linux/amd64'' else if arch = ''aarch64'' then Some ''linux/arm64'' else None)"

definition import_argv :: "string \<Rightarrow> string \<Rightarrow> string list" where
  "import_argv node platform =
     [''docker'', ''exec'', ''--privileged'', ''-i'', node, ''ctr'', ''--namespace=k8s.io'', ''images'', ''import'',
      ''--platform'', platform, ''--digests'', ''--snapshotter=overlayfs'', ''-'']"

fun load_on_nodes :: "world \<Rightarrow> string \<Rightarrow> string list \<Rightarrow> io \<Rightarrow> string option \<times> io" where
  "load_on_nodes w archive [] io = (None, io)"
| "load_on_nodes w archive (node # nodes) io =
     (case run_command w None [''docker'', ''exec'', node, ''uname'', ''-m''] io of
        (Inl e, io1) \<Rightarrow> (Some (''reading the architecture of '' @ node @ '': '' @ e), io1)
      | (Inr arch, io1) \<Rightarrow>
          (case node_platform (trim_space arch) of
             None \<Rightarrow> (Some (''kind node '' @ node @ '' runs '' @ trim_space arch @ '', which kates does not know''), io1)
           | Some platform \<Rightarrow>
               (case run_command w (Some archive) (import_argv node platform) io1 of
                  (Inl e, io2) \<Rightarrow> (Some (''importing into '' @ node @ '': '' @ e), io2)
                | (Inr out, io2) \<Rightarrow> load_on_nodes w archive nodes io2)))"

definition load_bundle_images :: "up_outside \<Rightarrow> string \<Rightarrow> bool \<Rightarrow> io \<Rightarrow> string option \<times> io" where
  "load_bundle_images v cluster is_kind io =
     (case uo_archive v of
        None \<Rightarrow> (None, io)
      | Some archive \<Rightarrow>
          (if \<not> is_kind then (None, io)
           else
             (case run_command (uo_world v) None [''kind'', ''get'', ''nodes'', ''--name'', cluster] io of
                (Inl e, io1) \<Rightarrow> (Some (''listing the nodes of kind cluster '' @ dq # cluster @ dq # '': '' @ e), io1)
              | (Inr out, io1) \<Rightarrow> load_on_nodes (uo_world v) archive (go_fields out) io1)))"

text \<open>\<open>loaded\<close>: the bundle's images were loaded for a source before.\<close>

fun build_images :: "up_outside \<Rightarrow> up_run \<Rightarrow> bool \<Rightarrow> lab_source list \<Rightarrow> io \<Rightarrow> string option \<times> io" where
  "build_images v r loaded [] io = (None, io)"
| "build_images v r loaded (x # xs) io =
     (if \<not> needs_built_image x \<or> uo_registry v \<noteq> [] then build_images v r loaded xs io
      else if uo_bundled v (so_image x) then
        (case (if up_is_kind r \<and> \<not> loaded then load_bundle_images v default_kind_cluster_name True io else (None, io)) of
           (Some e, io1) \<Rightarrow> (Some e, io1)
         | (None, io1) \<Rightarrow> build_images v r (loaded \<or> up_is_kind r) xs io1)
      else
        (case run_command (uo_world v) None [''docker'', ''--version''] io of
           (Inl e, io1) \<Rightarrow> (Some ''docker not found and --skip-build not given'', io1)
         | (Inr out, io1) \<Rightarrow>
             (case run_image_build (uo_world v) (uo_dockerfile v) (dn_bad_version (uo_down v)) (source_image_options r x) io1 of
                (Some e, io2) \<Rightarrow> (Some e, io2)
              | (None, io2) \<Rightarrow> build_images v r loaded xs io2)))"

definition phase_image :: "up_outside \<Rightarrow> up_run \<Rightarrow> up_state \<Rightarrow> up_state \<times> string option" where
  "phase_image v r s =
     (if up_skip_build r then (s, None)
      else (let (e, io1) = build_images v r False (lab_sources (up_lab r)) (at_io s) in (up_io io1 s, e)))"

definition ensure_lab_namespace :: "up_outside \<Rightarrow> string \<Rightarrow> (string \<rightharpoonup> string) \<Rightarrow> io \<Rightarrow> (string + bool) \<times> io" where
  "ensure_lab_namespace v ns labels io =
     (case run_command (uo_world v) None [''kubectl'', ''get'', ''namespace'', ns, ''--ignore-not-found'', ''-o'', ''jsonpath={.metadata.name}''] io of
        (Inl e, io1) \<Rightarrow> (Inl (''look up namespace '' @ ns @ '': '' @ e), io1)
      | (Inr out, io1) \<Rightarrow>
          (if trim_space out \<noteq> [] then (Inr False, io1)
           else
             (case uo_user_labels v of
                Inl e \<Rightarrow> (Inl e, io1)
              | Inr user \<Rightarrow>
                  (case run_command (uo_world v) (Some (uo_namespace_yaml v ns (user ++ labels))) [''kubectl'', ''create'', ''-f'', ''-''] io1 of
                     (Inl e, io2) \<Rightarrow> (Inl (''create namespace '' @ ns @ '': '' @ e), io2)
                   | (Inr made, io2) \<Rightarrow> (Inr True, io2)))))"

definition source_values_path :: "up_outside \<Rightarrow> lab \<Rightarrow> lab_source \<Rightarrow> string" where
  "source_values_path v l s =
     uo_build_dir v (op_name l) @ (if fan_in l then ''/source-values-'' @ so_alias s @ ''.yaml'' else ''/source-values.yaml'')"

definition mirror_values_path :: "up_outside \<Rightarrow> lab \<Rightarrow> string" where
  "mirror_values_path v l = uo_build_dir v (op_name l) @ ''/mirror-values.yaml''"

definition overlay_args :: "string \<Rightarrow> string list" where
  "overlay_args path = (if path = [] then [] else [''-f'', path])"

definition helm_source_args :: "outside \<Rightarrow> lab_source \<Rightarrow> string \<Rightarrow> string \<Rightarrow> int \<Rightarrow> string list" where
  "helm_source_args v s path user timeout =
     [''upgrade'', ''--install'', so_release s, ou_chart_path v source_chart_path, ''-n'', so_namespace s, ''-f'', path] @
     overlay_args user @ [''--wait'', ''--timeout'', format_timeout timeout]"

definition helm_mirror_args :: "outside \<Rightarrow> lab \<Rightarrow> bool \<Rightarrow> string \<Rightarrow> string \<Rightarrow> string list" where
  "helm_mirror_args v l kind path user =
     [''upgrade'', ''--install'', lb_mirror_release l, ou_chart_path v mirror_chart_path, ''-n'', lb_mirror_namespace l] @
     (if kind then [''-f'', ou_chart_path v (mirror_chart_path @ ''/values-kind.yaml'')] else []) @
     [''-f'', ou_chart_path v (era_overlay_path (op_from l)), ''-f'', path] @ overlay_args user @
     [''--timeout'', migrate_mirror_install_timeout]"

definition source_diagnostics :: "up_outside \<Rightarrow> lab_source \<Rightarrow> io \<Rightarrow> io" where
  "source_diagnostics v s io =
     (let io1 = snd (run_command (uo_world v) None [''kubectl'', ''-n'', so_namespace s, ''get'', ''pods''] io)
      in snd (run_command (uo_world v) None [''kubectl'', ''-n'', so_namespace s, ''logs'', ''sts/'' @ so_release s @ ''-legacy-kafka'', ''--tail=50''] io1))"

definition source_document :: "up_outside \<Rightarrow> lab \<Rightarrow> lab_source \<Rightarrow> string + string" where
  "source_document v l s = (case source_values_for l s of Inl e \<Rightarrow> Inl (uo_values_error v e) | Inr vals \<Rightarrow> uo_source_yaml v vals)"

definition helm_test_argv :: "lab_source \<Rightarrow> int \<Rightarrow> string list" where
  "helm_test_argv s timeout = [''helm'', ''test'', so_release s, ''-n'', so_namespace s, ''--timeout'', format_timeout timeout]"

definition install_source :: "up_outside \<Rightarrow> up_run \<Rightarrow> lab_source \<Rightarrow> string \<Rightarrow> up_state \<Rightarrow> up_state \<times> string option" where
  "install_source v r x path s =
     (let l = up_lab r; deployed = row_for l row_source_deployed (Some x); serving = row_for l row_source_serving (Some x)
      in (case run_command (uo_world v) None (helm_argv (helm_source_args (uo_out v) x path (up_values_source r) (up_timeout r))) (at_io s) of
            (Inl e, io1) \<Rightarrow> failing deployed ''helm install failed'' (''install the source: '' @ e) (source_diagnostics v x io1) s
          | (Inr out, io1) \<Rightarrow>
              (let s1 = passing deployed (''Kafka '' @ version_string (so_from x) @ '' ('' @ so_mode x @ '')'') io1 s
               in (case run_command (uo_world v) None (helm_test_argv x (up_timeout r)) io1 of
                     (Inl e, io2) \<Rightarrow>
                       failing serving (''helm test failed '' @ dash @ '' the broker is not answering'') (''the source is not serving: '' @ e)
                         (snd (run_command (uo_world v) None [''kubectl'', ''-n'', so_namespace x, ''logs'', so_release x @ ''-legacy-kafka-test-broker''] io2)) s1
                   | (Inr out', io2) \<Rightarrow> (passing serving (so_bootstrap x) io2 s1, None)))))"

definition deploy_source :: "up_outside \<Rightarrow> up_run \<Rightarrow> lab_source \<Rightarrow> up_state \<Rightarrow> up_state \<times> string option" where
  "deploy_source v r x s =
     (let l = up_lab r; deployed = row_for l row_source_deployed (Some x); path = source_values_path v l x
      in if so_provider x \<noteq> provider_name ProviderLegacy
         then (s, Some (''a Strimzi source is not implemented in this version '' @ dash @ '' use --source-provider legacy''))
         else
           (case ensure_lab_namespace v (so_namespace x) (source_labels l (Some x)) (at_io s) of
              (Inl e, io1) \<Rightarrow> failing deployed e e io1 s
            | (Inr created, io1) \<Rightarrow>
                (let s1 = s\<lparr>ms_values := \<lparr>uv_io = io1, uv_created = (uv_created (ms_values s))(so_namespace x \<mapsto> created)\<rparr>\<rparr>
                 in (case source_document v l x of
                       Inl e \<Rightarrow> failing deployed e e io1 s1
                     | Inr doc \<Rightarrow>
                         (case ou_write_file (uo_out v) path doc of
                            Some e \<Rightarrow> failing deployed e e io1 s1
                          | None \<Rightarrow> install_source v r x path s1)))))"

fun deploy_sources :: "up_outside \<Rightarrow> up_run \<Rightarrow> lab_source list \<Rightarrow> up_state \<Rightarrow> up_state \<times> string option" where
  "deploy_sources v r [] s = (s, None)"
| "deploy_sources v r (x # xs) s =
     (case deploy_source v r x s of (s1, Some e) \<Rightarrow> (s1, Some e) | (s1, None) \<Rightarrow> deploy_sources v r xs s1)"

definition phase_source :: "up_outside \<Rightarrow> up_run \<Rightarrow> up_state \<Rightarrow> up_state \<times> string option" where
  "phase_source v r s = deploy_sources v r (lab_sources (up_lab r)) s"

definition credential_labels :: "lab \<Rightarrow> lab_source \<Rightarrow> string \<rightharpoonup> string" where
  "credential_labels l x =
     (if fan_in l then (role_labels l role_mirror)(label_source_alias \<mapsto> so_alias x) else role_labels l role_mirror)"

fun create_credentials :: "up_outside \<Rightarrow> up_run \<Rightarrow> lab_source list \<Rightarrow> io \<Rightarrow> string option \<times> io" where
  "create_credentials v r [] io = (None, io)"
| "create_credentials v r (x # xs) io =
     (let l = up_lab r; ns = lb_mirror_namespace l
      in if auth_of x = source_auth_none then create_credentials v r xs io
         else if so_password x = [] then (Some (''the credential of source '' @ so_alias x @ '' is unknown''), io)
         else
           (case uo_secret_yaml v ns (so_secret x) (credential_labels l x) (so_password x) of
              Inl e \<Rightarrow> (Some e, io)
            | Inr doc \<Rightarrow>
                (case run_command (uo_world v) (Some doc) (apply_argv ns) io of
                   (Inl e, io1) \<Rightarrow> (Some (''create the source credential Secret '' @ ns @ ''/'' @ so_secret x @ '': '' @ e), io1)
                 | (Inr out, io1) \<Rightarrow> create_credentials v r xs io1)))"

definition phase_credential :: "up_outside \<Rightarrow> up_run \<Rightarrow> up_state \<Rightarrow> up_state \<times> string option" where
  "phase_credential v r s =
     (let (e, io1) = create_credentials v r (lab_sources (up_lab r)) (at_io s) in (up_io io1 s, e))"

definition mirror_diagnostics :: "up_outside \<Rightarrow> lab \<Rightarrow> io \<Rightarrow> io" where
  "mirror_diagnostics v l io =
     (let ns = lb_mirror_namespace l;
          io1 = snd (run_command (uo_world v) None (status_argv ns (lb_mirror_cr l)) io);
          io2 = snd (run_command (uo_world v) None
                  [''kubectl'', ''-n'', ns, ''logs'', ''-l'', ''strimzi.io/name='' @ lb_mirror_cr l @ ''-mirrormaker2'', ''--tail=80''] io1)
      in snd (run_command (uo_world v) None [''kubectl'', ''-n'', lb_source_namespace l, ''get'', ''pods''] io2))"

definition judge_running :: "outside \<Rightarrow> mirror_status \<Rightarrow> run_error + string \<Rightarrow> mirror_status + mirror_status" where
  "judge_running v seen answer =
     (case status_of v answer of
        None \<Rightarrow> Inl seen
      | Some st \<Rightarrow> if 2 \<le> running_count st \<and> all_running st then Inr st else Inl st)"

definition not_running_text :: "mirror_status \<Rightarrow> int \<Rightarrow> string" where
  "not_running_text st timeout =
     (if 0 < failed_tasks st
      then show_int (failed_tasks st) @ '' task(s) FAILED after '' @ format_timeout timeout @ '' ('' @ status_summary st @ '')''
      else ''only '' @ show_int (running_count st) @ '' of 2 connectors running after '' @ format_timeout timeout)"

definition wait_connectors_running :: "outside \<Rightarrow> string \<Rightarrow> string \<Rightarrow> int \<Rightarrow> io \<Rightarrow> (string + mirror_status) \<times> io" where
  "wait_connectors_running v ns cr timeout io =
     (case poll (ou_world v) (Invoke None (status_argv ns cr)) TenSeconds (io_now io + timeout) (judge_running v) empty_status io of
        (Polled st, io1) \<Rightarrow> (Inr st, io1)
      | (Expired st, io1) \<Rightarrow> (Inl (not_running_text st timeout), io1)
      | (Interrupted e st, io1) \<Rightarrow> (Inl e, io1))"

definition up_inputs :: "up_run \<Rightarrow> mirror_inputs" where
  "up_inputs r = (lab_inputs (up_lab r))\<lparr>mi_brokers := up_brokers r, mi_operator_ns := up_operator_namespace r\<rparr>"

text \<open>What must be there before the mirror is installed: the document, its file, the chart's dependencies.\<close>

definition mirror_document :: "up_outside \<Rightarrow> up_run \<Rightarrow> string + string" where
  "mirror_document v r =
     (case mirror_values_for (up_lab r) (up_inputs r) of Inl e \<Rightarrow> Inl (uo_values_error v e) | Inr vals \<Rightarrow> uo_mirror_yaml v vals)"

definition prepare_mirror :: "up_outside \<Rightarrow> up_run \<Rightarrow> io \<Rightarrow> string option \<times> io" where
  "prepare_mirror v r io =
     (case mirror_document v r of
        Inl e \<Rightarrow> (Some e, io)
      | Inr doc \<Rightarrow>
          (case ou_write_file (uo_out v) (mirror_values_path v (up_lab r)) doc of
             Some e \<Rightarrow> (Some e, io)
           | None \<Rightarrow> ensure_mirror_chart_deps (uo_out v) io))"

definition preflight_argv :: "lab \<Rightarrow> string list" where
  "preflight_argv l = [''kubectl'', ''-n'', lb_mirror_namespace l, ''logs'', ''job/'' @ lb_mirror_cr l @ ''-preflight'', ''--tail=80'']"

definition record_argv :: "lab \<Rightarrow> string list \<Rightarrow> string list" where
  "record_argv l topics =
     [''kubectl'', ''-n'', lb_mirror_namespace l, ''annotate'', ''kafkamirrormaker2'', lb_mirror_cr l,
      annotation_lab_topics @ ''='' @ join_with '','' topics, ''--overwrite'']"

definition record_topics :: "up_outside \<Rightarrow> lab \<Rightarrow> io \<Rightarrow> io" where
  "record_topics v l io =
     (let topics = concat (map so_topics (lab_sources l))
      in if topics = [] then io else snd (run_command (uo_world v) None (record_argv l topics) io))"

definition wait_mirror_argv :: "lab \<Rightarrow> int \<Rightarrow> string list" where
  "wait_mirror_argv l timeout =
     [''kubectl'', ''-n'', lb_mirror_namespace l, ''wait'', ''kafkamirrormaker2/'' @ lb_mirror_cr l, ''--for=condition=Ready'',
      ''--timeout='' @ format_timeout timeout]"

definition await_mirror :: "up_outside \<Rightarrow> up_run \<Rightarrow> up_state \<Rightarrow> up_state \<times> string option" where
  "await_mirror v r s =
     (let l = up_lab r; io = record_topics v l (at_io s)
      in (case run_command (uo_world v) None (wait_mirror_argv l (up_timeout r)) io of
            (Inl e, io1) \<Rightarrow>
              failing row_cr_ready (''did not become Ready in '' @ format_timeout (up_timeout r)) (''the mirror did not become Ready: '' @ e)
                (mirror_diagnostics v l io1) s
          | (Inr out, io1) \<Rightarrow>
              (let s1 = passing row_cr_ready ''Connect workers are up'' io1 s
               in (case wait_connectors_running (uo_out v) (lb_mirror_namespace l) (lb_mirror_cr l) (up_timeout r) io1 of
                     (Inl e, io2) \<Rightarrow> failing row_connectors_running e e (mirror_diagnostics v l io2) s1
                   | (Inr st, io2) \<Rightarrow> (passing row_connectors_running (status_summary st) io2 s1, None)))))"

definition phase_mirror :: "up_outside \<Rightarrow> up_run \<Rightarrow> up_state \<Rightarrow> up_state \<times> string option" where
  "phase_mirror v r s =
     (let l = up_lab r
      in (case prepare_mirror v r (at_io s) of
            (Some e, io1) \<Rightarrow> failing row_mirror_installed e e io1 s
          | (None, io1) \<Rightarrow>
              (case run_command (uo_world v) None
                  (helm_argv (helm_mirror_args (uo_out v) l (up_is_kind r) (mirror_values_path v l) (up_values_mirror r))) io1 of
                 (Inl e, io2) \<Rightarrow>
                   failing row_mirror_installed ''helm install failed (preflight, or the CR itself)'' (''install the mirror: '' @ e)
                     (mirror_diagnostics v l (snd (run_command (uo_world v) None (preflight_argv l) io2))) s
               | (Inr out, io2) \<Rightarrow>
                   await_mirror v r
                     (passing row_mirror_installed (''preflight passed '' @ dash @ '' the source answered a 4.x client'') io2 s))))"

section \<open>The command\<close>

definition up_phase :: "string \<Rightarrow> (up_state \<Rightarrow> up_state \<times> string option) \<Rightarrow> up_values phase" where
  "up_phase n f = \<lparr>ph_name = n, ph_run = Some f, ph_optional = False\<rparr>"

definition up_phases :: "up_outside \<Rightarrow> up_run \<Rightarrow> up_values phase list" where
  "up_phases v r =
     [up_phase ''prerequisites'' (phase_prerequisites v r), up_phase ''image'' (phase_image v r), up_phase ''source'' (phase_source v r),
      up_phase ''credential'' (phase_credential v r), up_phase ''mirror'' (phase_mirror v r)]"

text \<open>\<open>runMigrateUp\<close> once the pair is resolved: what it refuses, the question, the phases and the outcome.\<close>

datatype up_error =
    NotImplemented "string list"
  | NotConfirmed down_error
  | LabFailed string

definition run_migrate_up ::
  "up_outside \<Rightarrow> up_run \<Rightarrow> string list \<Rightarrow> bool \<Rightarrow> (nat \<Rightarrow> string option) \<Rightarrow> up_state \<Rightarrow> up_state \<times> up_error option" where
  "run_migrate_up v r unimplemented yes ctx s =
     (let l = up_lab r
      in if unimplemented \<noteq> [] then (s, Some (NotImplemented unimplemented))
         else
           (case migrate_confirm (uo_down v) yes (''Create lab '' @ op_name l @ '' ('' @ describe_lab l @ '')?'') of
              Some e \<Rightarrow> (s, Some (NotConfirmed e))
            | None \<Rightarrow>
                (let (s1, run_err) = run_phases ctx 0 (up_phases v r) s
                 in (s1, map_option LabFailed (command_error_of (ms_report s1) (''lab '' @ op_name l) run_err)))))"

section \<open>What a phase leaves behind\<close>

abbreviation later :: "io \<Rightarrow> io \<Rightarrow> bool" where "later a b \<equiv> adds (\<lambda>e. True) a b"

lemma run_later: "run_command w input argv io = (x, io') \<Longrightarrow> later io io' \<and> (Command input argv, x) \<in> during io io'"
  using run_command_adds [of w input argv io x io' "\<lambda>e. True"] run_command_event [of w input argv io x io'] during_log [of io' "[(Command input argv, x)]" io]
  by simp

lemma run_snd_later: "later io (snd (run_command w input argv io))"
  using run_later [of w input argv io] by (cases "run_command w input argv io") simp

lemma gentle_later: "adds (gentle own) a b \<Longrightarrow> later a b"
  by (erule adds_mono) simp

text \<open>A target-side name is the lab's own mirror's, or the target's list does not have it.\<close>

definition mirrors_argv :: "lab \<Rightarrow> string list" where
  "mirrors_argv l = [''kubectl'', ''-n'', lb_mirror_namespace l, ''get'', ''kafkamirrormaker2'', ''-l'', label_lab, ''-o'', ''json'']"

definition own_name :: "up_outside \<Rightarrow> up_run \<Rightarrow> event set \<Rightarrow> string \<Rightarrow> bool" where
  "own_name v r E t \<longleftrightarrow> (\<exists>out its written. (Command None (mirrors_argv (up_lab r)), Inr out) \<in> E \<and>
     rd_items (dn_read (uo_down v)) out = Inr its \<and> overlap (dn_read (uo_down v)) (up_lab r) its [] = Inr written \<and> t \<in> set written)"

definition absent_name :: "up_run \<Rightarrow> event set \<Rightarrow> string \<Rightarrow> bool" where
  "absent_name r E t \<longleftrightarrow> (\<exists>kv img out. listing (target_client_of (check_options r) kv img) out \<in> E \<and> t \<notin> set (go_fields out))"

definition check_delete :: "up_run \<Rightarrow> string list" where
  "check_delete r = [''kubectl'', ''-n'', op_target_namespace (up_lab r), ''delete'', ''pod'', target_client_pod_name, ''--ignore-not-found'']"

lemma overlapping_later:
  assumes "refuse_overlapping_lab v r io = (x, io')"
  shows "adds (gentle own) io io' \<and> (\<forall>written. x = Inr written \<longrightarrow> (\<forall>t\<in>set written. own_name v r (during io io') t))"
proof -
  obtain y io1 where y: "run_command (uo_world v) None (mirrors_argv (up_lab r)) io = (y, io1)"
    by (cases "run_command (uo_world v) None (mirrors_argv (up_lab r)) io")
  have "io' = io1" "x = (case y of Inl e \<Rightarrow> Inr [] | Inr out \<Rightarrow> (case rd_items (dn_read (uo_down v)) out of Inl e \<Rightarrow> Inr []
      | Inr its \<Rightarrow> overlap (dn_read (uo_down v)) (up_lab r) its []))"
    using assms y by (auto simp: refuse_overlapping_lab_def mirrors_argv_def split: sum.splits)
  moreover have "adds (gentle own) io io1" by (rule run_command_adds [OF y]) (simp add: mirrors_argv_def removes_def)
  ultimately show ?thesis using run_later [OF y] by (auto simp: own_name_def split: sum.splits)
qed

lemma open_default_gentle:
  assumes "open_target_client v opts io = (x, io')" "to_pod opts = []"
    "own = [''kubectl'', ''-n'', to_namespace opts, ''delete'', ''pod'', target_client_pod_name, ''--ignore-not-found'']"
  shows "adds (gentle own) io io' \<and> (\<forall>c. x = Inr c \<longrightarrow> (\<exists>kv img. c = target_client_of opts kv img))"
proof -
  let ?opts = "opts\<lparr>to_pod := target_client_pod_name\<rparr>"
  have same: "target_client_of ?opts kv img = target_client_of opts kv img" for kv img using assms(2) by (simp add: target_client_of_def)
  have "open_target_client v ?opts io = open_target_client v opts io" unfolding open_target_client_def same by (simp cong: sum.case_cong option.case_cong)
  then have "open_target_client v ?opts io = (x, io')" using assms(1) by simp
  from open_gentle [OF this, of own] show ?thesis using assms(3) same by (auto simp: target_client_pod_name_def)
qed

lemma existing_refused:
  assumes "refuse_existing_topics v r written io = (e, io')"
  shows "adds (gentle (check_delete r)) io io' \<and>
    (e = None \<longrightarrow> (\<forall>t\<in>set (replicated_topics (up_lab r)). t \<in> set written \<or> absent_name r (during io io') t))"
proof -
  let ?own = "check_delete r" and ?w = "uo_world v" and ?check = "filter (\<lambda>t. t \<notin> set written) (replicated_topics (up_lab r))"
  show ?thesis
  proof (cases "?check = []")
    case True
    then have "e = None" "io' = io" using assms by (simp_all add: refuse_existing_topics_def Let_def)
    moreover have "\<forall>t\<in>set (replicated_topics (up_lab r)). t \<in> set written" using True by (auto simp: filter_empty_conv)
    ultimately show ?thesis by simp
  next
    case False
    obtain x io1 where x: "open_target_client (uo_down v) (check_options r) io = (x, io1)" by (cases "open_target_client (uo_down v) (check_options r) io")
    have opened: "adds (gentle ?own) io io1 \<and> (\<forall>c. x = Inr c \<longrightarrow> (\<exists>kv img. c = target_client_of (check_options r) kv img))"
      by (rule open_default_gentle [OF x]) (simp_all add: check_delete_def check_options_def)
    show ?thesis
    proof (cases x)
      case (Inl err)
      then show ?thesis using assms False x opened by (simp add: refuse_existing_topics_def Let_def) auto
    next
      case (Inr c)
      obtain kv img where c: "c = target_client_of (check_options r) kv img" using opened Inr by blast
      let ?call = "list_topics (tc_tools c) (tc_bootstrap c) (tc_cfg c)"
      obtain y io2 where y: "pod_exec ?w (tc_pod c) ?call io1 = (y, io2)" by (cases "pod_exec ?w (tc_pod c) ?call io1")
      have del: "delete_argv (tc_pod c) = ?own" by (simp add: c delete_argv_def check_delete_def target_client_of_def check_options_def)
      have io: "io' = snd (delete_pod ?w (tc_pod c) io2)" using assms False x y Inr
        by (auto simp: refuse_existing_topics_def Let_def split: sum.splits)
      have g1: "adds (gentle ?own) io io1" and g2: "adds (gentle ?own) io1 io2" using opened pod_exec_gentle [OF y] by auto
      have g3: "adds (gentle ?own) io2 io'" unfolding io by (rule gentle_adds [OF delete_pod_adds]) (auto simp: del prod_eq_iff)
      note g12 = adds_trans [OF g1 g2] and g23 = adds_trans [OF g2 g3]
      have "absent_name r (during io io') t" if none: "e = None" and t: "t \<in> set (replicated_topics (up_lab r))" "t \<notin> set written" for t
      proof -
        obtain out where out: "y = Inr out" "\<forall>t\<in>set ?check. t \<notin> set (go_fields out)"
          using assms False x y Inr none by (auto simp: refuse_existing_topics_def Let_def filter_empty_conv split: sum.splits if_splits)
        have "listing c out \<in> during io1 io2" using pod_exec_event y out(1) by (simp add: listing_def)
        then have "listing c out \<in> during io io'" using during_first [OF g2 g3] during_then [OF g1 g23] by blast
        then show ?thesis using out(2) t c by (auto simp: absent_name_def)
      qed
      then show ?thesis using adds_trans [OF g12 g3] by blast
    qed
  qed
qed

lemma refuse_topics_checked:
  assumes "refuse_topics v r s = (s', e)"
  shows "adds (gentle (check_delete r)) (at_io s) (at_io s') \<and>
    (e = None \<longrightarrow> (\<forall>t\<in>set (replicated_topics (up_lab r)). own_name v r (during (at_io s) (at_io s')) t \<or> absent_name r (during (at_io s) (at_io s')) t))"
proof -
  obtain x io1 where x: "refuse_overlapping_lab v r (at_io s) = (x, io1)" by (cases "refuse_overlapping_lab v r (at_io s)")
  note one = overlapping_later [OF x, of "check_delete r"]
  show ?thesis
  proof (cases x)
    case (Inr written)
    obtain e2 io2 where y: "refuse_existing_topics v r written io1 = (e2, io2)" by (cases "refuse_existing_topics v r written io1")
    note two = existing_refused [OF y]
    have s: "at_io s' = io2" "e = e2" using assms x y Inr by (auto simp: refuse_topics_def)
    have g: "adds (gentle (check_delete r)) (at_io s) io1" "adds (gentle (check_delete r)) io1 io2" using one two by auto
    have own: "own_name v r (during (at_io s) io2) t" if "t \<in> set written" for t
    proof -
      have "own_name v r (during (at_io s) io1) t" using one Inr that by blast
      then show ?thesis using during_first [OF g] unfolding own_name_def by blast
    qed
    have absent: "absent_name r (during (at_io s) io2) t" if "absent_name r (during io1 io2) t" for t
      using that during_then [OF g] unfolding absent_name_def by blast
    show ?thesis using adds_trans [OF g] two own absent s by blast
  qed (use assms x one in \<open>auto simp: refuse_topics_def\<close>)
qed

lemma prerequisites_cases:
  assumes "phase_prerequisites v r s = (s', e)"
  shows "\<exists>s1. adds (gentle (check_delete r)) (at_io s) (at_io s1) \<and> (refuse_topics v r s1 = (s', e) \<or> e \<noteq> None \<and> at_io s' = at_io s1)"
proof -
  let ?w = "uo_world v" and ?l = "up_lab r" and ?own = "check_delete r"
  obtain x1 io1 where c1: "run_command ?w None [''kubectl'', ''cluster-info''] (at_io s) = (x1, io1)" by (cases "run_command ?w None [''kubectl'', ''cluster-info''] (at_io s)")
  obtain x2 io2 where c2: "run_command ?w None [''kubectl'', ''config'', ''current-context''] io1 = (x2, io2)" by (cases "run_command ?w None [''kubectl'', ''config'', ''current-context''] io1")
  obtain x3 io3 where c3: "run_command ?w None [''kubectl'', ''get'', ''crd'', migrate_crd_name, ''-o'', ''name''] io2 = (x3, io3)"
    by (cases "run_command ?w None [''kubectl'', ''get'', ''crd'', migrate_crd_name, ''-o'', ''name''] io2")
  obtain x4 io4 where c4: "run_command ?w None (wait_target_argv ?l) io3 = (x4, io4)" by (cases "run_command ?w None (wait_target_argv ?l) io3")
  obtain x5 io5 where c5: "run_command ?w None (target_secret_argv ?l) io4 = (x5, io5)" by (cases "run_command ?w None (target_secret_argv ?l) io4")
  have g1: "adds (gentle ?own) (at_io s) io1" by (rule run_command_adds [OF c1]) (simp add: removes_def)
  have g2: "adds (gentle ?own) (at_io s) io2" by (rule adds_trans [OF g1 run_command_adds [OF c2]]) (simp add: removes_def)
  have g3: "adds (gentle ?own) (at_io s) io3" by (rule adds_trans [OF g2 run_command_adds [OF c3]]) (simp add: removes_def)
  have g4: "adds (gentle ?own) (at_io s) io4" by (rule adds_trans [OF g3 run_command_adds [OF c4]]) (simp add: removes_def wait_target_argv_def)
  have g5: "adds (gentle ?own) (at_io s) io5" by (rule adds_trans [OF g4 run_command_adds [OF c5]]) (simp add: removes_def target_secret_argv_def)
  have "(\<exists>s1. at_io s1 = io5 \<and> refuse_topics v r s1 = (s', e)) \<or> e \<noteq> None \<and> (at_io s' = io1 \<or> at_io s' = io3 \<or> at_io s' = io4 \<or> at_io s' = io5)"
    using assms c1 c2 c3 c4 c5
    by (cases x1; cases x3; cases x4; cases x5) (auto simp: phase_prerequisites_def Let_def split: if_splits)
  then show ?thesis using g1 g3 g4 g5 by (metis (mono_tags, lifting))
qed

lemma prerequisites_checked:
  assumes "phase_prerequisites v r s = (s', e)"
  shows "adds (gentle (check_delete r)) (at_io s) (at_io s') \<and>
    (e = None \<longrightarrow> (\<forall>t\<in>set (replicated_topics (up_lab r)). own_name v r (during (at_io s) (at_io s')) t \<or> absent_name r (during (at_io s) (at_io s')) t))"
proof -
  obtain s1 where s1: "adds (gentle (check_delete r)) (at_io s) (at_io s1)" "refuse_topics v r s1 = (s', e) \<or> e \<noteq> None \<and> at_io s' = at_io s1"
    using prerequisites_cases [OF assms] by blast
  show ?thesis
  proof (cases "refuse_topics v r s1 = (s', e)")
    case True
    note two = refuse_topics_checked [OF True]
    then have g: "adds (gentle (check_delete r)) (at_io s1) (at_io s')" by blast
    have "during (at_io s1) (at_io s') \<subseteq> during (at_io s) (at_io s')" using during_then [OF s1(1) g] by blast
    then show ?thesis using adds_trans [OF s1(1) g] two unfolding own_name_def absent_name_def by blast
  qed (use s1 in auto)
qed

lemma must_run_later: "must_run w steps io = (e, io') \<Longrightarrow> later io io'"
proof (induction steps arbitrary: io)
  case (Cons step steps)
  obtain argv what where step: "step = (argv, what)" by (cases step)
  obtain x io1 where x: "run_command w None argv io = (x, io1)" by (cases "run_command w None argv io")
  note a = run_later [OF x, THEN conjunct1]
  show ?case
  proof (cases x)
    case (Inr out)
    then have "must_run w steps io1 = (e, io')" using Cons.prems step x by simp
    from adds_trans [OF a Cons.IH [OF this]] show ?thesis .
  qed (use Cons.prems step x a in auto)
qed simp

lemma verify_image_later: "verify_legacy_image w img version io = (e, io') \<Longrightarrow> later io io'"
  using run_later [of w None "libs_argv img" io] by (auto simp: verify_legacy_image_def split: prod.splits sum.splits if_splits)

end
