(* ===== verification/LabCreation.thy ===== *)
theory LabCreation
  imports MigrationUp
begin

text \<open>
  What creating a lab guarantees, over the model of \<open>MigrationUp\<close>: a run that returns no error found every name the mirror
  will write on the target new or its own, then installed and tested each source, wrote its credential, installed the mirror
  and read every connector running; a run the prerequisites stop changed nothing; an image that was built holds the version
  asked for. Events are read in \<open>during\<close>, the log between two points of the run.
\<close>

section \<open>Each operation only adds to the log\<close>

lemma later_trans: "later a b \<Longrightarrow> later b c \<Longrightarrow> later a c"
  by (rule adds_trans)

text \<open>A build that got as far as its image was listed and the listing carried the version.\<close>

lemma image_build_cases:
  assumes "run_image_build w dockerfile bad opts io = (e, io')"
  shows "later io io' \<and> (e = None \<longrightarrow> (\<exists>v out. parse_version (io_version opts) = Inr v \<and>
     (Command None (libs_argv (image_of (image_defaults opts))), Inr out) \<in> during io io' \<and> kafka_jar_version out = io_version opts))"
proof (cases "parse_version (io_version opts)")
  case (Inr v)
  let ?o = "image_defaults opts"
  have ver: "io_version ?o = io_version opts" by (simp add: image_defaults_def)
  show ?thesis
  proof (cases "io_push ?o \<and> io_load ?o")
    case False
    note push = False
    let ?A = "[([''docker'', ''--version''], ''docker is required to build the image: '')] @
      (if io_push ?o then [([''docker'', ''buildx'', ''version''], ''--push needs docker buildx: '')] else [])"
    obtain a io1 where a: "must_run w ?A io = (a, io1)" by (cases "must_run w ?A io")
    note la = must_run_later [OF a]
    show ?thesis
    proof (cases "a \<noteq> None \<or> (\<exists>x. dockerfile = Inl x)")
      case True
      have "io' = io1 \<and> e \<noteq> None" using assms Inr push a True by (cases a) (auto simp: run_image_build_def Let_def)
      then show ?thesis using la by auto
    next
      case False
      then obtain df dir where d: "dockerfile = Inr (df, dir)" and n: "a = None" by (cases dockerfile) auto
      let ?B = "if io_push ?o
         then [([''docker'', ''buildx'', ''build''] @ build_args ?o df @ [''--push'', dir], ''docker buildx build --push: ''),
               ([''docker'', ''pull'', ''--quiet'', image_of ?o], ''pull '' @ image_of ?o @ '' back for verification: '')]
         else [([''docker'', ''build''] @ build_args ?o df @ [dir], ''docker build: '')]"
      obtain b io2 where b: "must_run w ?B io1 = (b, io2)" by (cases "must_run w ?B io1")
      note lb = later_trans [OF la must_run_later [OF b]]
      obtain c io3 where c: "verify_legacy_image w (image_of ?o) (io_version opts) io2 = (c, io3)"
        by (cases "verify_legacy_image w (image_of ?o) (io_version opts) io2")
      note lc = verify_image_later [OF c]
      let ?C = "if io_load ?o
         then [([''kind'', ''get'', ''clusters''], ''kind is required for --load: ''),
               ([''kind'', ''load'', ''docker-image'', image_of ?o, ''--name'', io_kind_cluster ?o], ''kind load docker-image: '')]
         else []"
      obtain f io4 where f: "must_run w ?C io3 = (f, io4)" by (cases "must_run w ?C io3")
      note lf = must_run_later [OF f]
      have r: "run_image_build w dockerfile bad opts io =
          (if b \<noteq> None then (b, io2) else if c \<noteq> None then (c, io3) else (f, io4))"
        unfolding run_image_build_def Let_def Inr sum.case if_not_P [OF push] a n option.case prod.case d b ver
        using c f by (simp add: ver split: option.split)
      have "\<exists>out. (Command None (libs_argv (image_of ?o)), Inr out) \<in> during io2 io3 \<and> kafka_jar_version out = io_version opts" if "c = None"
        using c that run_later [of w None "libs_argv (image_of ?o)" io2] by (auto simp: verify_legacy_image_def split: prod.splits sum.splits if_splits)
      then have "\<exists>out. (Command None (libs_argv (image_of ?o)), Inr out) \<in> during io io4 \<and> kafka_jar_version out = io_version opts" if "c = None"
        using that during_first [OF lc lf] during_then [OF lb later_trans [OF lc lf]] by blast
      then show ?thesis using r assms Inr lb later_trans [OF lb lc] later_trans [OF later_trans [OF lb lc] lf] by (auto split: if_splits)
    qed
  qed (use assms Inr in \<open>auto simp: run_image_build_def Let_def\<close>)
qed (use assms in \<open>auto simp: run_image_build_def\<close>)

lemma load_nodes_later: "load_on_nodes w archive nodes io = (e, io') \<Longrightarrow> later io io'"
proof (induction nodes arbitrary: io)
  case (Cons node nodes)
  obtain a io1 where a: "run_command w None [''docker'', ''exec'', node, ''uname'', ''-m''] io = (a, io1)"
    by (cases "run_command w None [''docker'', ''exec'', node, ''uname'', ''-m''] io")
  note la = run_later [OF a, THEN conjunct1]
  show ?case
  proof (cases "\<exists>arch p. a = Inr arch \<and> node_platform (trim_space arch) = Some p")
    case True
    then obtain arch p where p: "a = Inr arch" "node_platform (trim_space arch) = Some p" by blast
    obtain b io2 where b: "run_command w (Some archive) (import_argv node p) io1 = (b, io2)"
      by (cases "run_command w (Some archive) (import_argv node p) io1")
    note lb = later_trans [OF la run_later [OF b, THEN conjunct1]]
    show ?thesis using Cons.prems Cons.IH [of io2] a p b lb by (cases b) (auto intro: later_trans)
  qed (use Cons.prems a la in \<open>auto split: sum.splits option.splits\<close>)
qed simp

lemma load_bundle_later:
  assumes "load_bundle_images v c k io = (e, io')"
  shows "later io io'"
proof (cases "uo_archive v")
  case (Some archive)
  obtain a io1 where a: "run_command (uo_world v) None [''kind'', ''get'', ''nodes'', ''--name'', c] io = (a, io1)"
    by (cases "run_command (uo_world v) None [''kind'', ''get'', ''nodes'', ''--name'', c] io")
  note la = run_later [OF a, THEN conjunct1]
  show ?thesis using assms Some a la load_nodes_later
    by (auto simp: load_bundle_images_def intro: later_trans split: if_splits sum.splits)
qed (use assms in \<open>simp add: load_bundle_images_def\<close>)

text \<open>Each source whose image has to be built had it verified.\<close>

definition image_verified :: "up_run \<Rightarrow> event set \<Rightarrow> lab_source \<Rightarrow> bool" where
  "image_verified r E x \<longleftrightarrow> (\<exists>out. (Command None (libs_argv (image_of (source_image_options r x))), Inr out) \<in> E \<and>
     kafka_jar_version out = version_string (so_from x))"

lemma source_options_full: "image_defaults (source_image_options r x) = source_image_options r x"
  by (simp add: image_defaults_def source_image_options_def default_scala_version_def default_os_release_def default_kind_cluster_name_def)

lemma build_images_verified:
  "build_images v r loaded xs io = (e, io') \<Longrightarrow>
     later io io' \<and> (e = None \<longrightarrow> (\<forall>x\<in>set xs. needs_built_image x \<and> uo_registry v = [] \<and> \<not> uo_bundled v (so_image x) \<longrightarrow> image_verified r (during io io') x))"
proof (induction v r loaded xs io rule: build_images.induct)
  case (2 v r loaded x xs io)
  show ?case
  proof (cases "\<not> needs_built_image x \<or> uo_registry v \<noteq> []")
    case True
    then show ?thesis using 2 by auto
  next
    case False
    show ?thesis
    proof (cases "uo_bundled v (so_image x)")
      case True
      obtain a io1 where a: "(if up_is_kind r \<and> \<not> loaded then load_bundle_images v default_kind_cluster_name True io else (None, io)) = (a, io1)" by fastforce
      have la: "later io io1" using a load_bundle_later by (auto split: if_splits)
      show ?thesis
      proof (cases a)
        case None
        have g: "later io1 io'" "e = None \<longrightarrow> (\<forall>x\<in>set xs. needs_built_image x \<and> uo_registry v = [] \<and> \<not> uo_bundled v (so_image x) \<longrightarrow> image_verified r (during io1 io') x)"
          using 2(2) [OF False True a [symmetric] None] 2(4) False True a None by auto
        then show ?thesis using later_trans [OF la g(1)] during_then [OF la g(1)] True unfolding image_verified_def by auto blast
      qed (use 2(4) False True a la in auto)
    next
      case outside: False
      obtain c io1 where c: "run_command (uo_world v) None [''docker'', ''--version''] io = (c, io1)" by fastforce
      obtain b io2 where b: "run_image_build (uo_world v) (uo_dockerfile v) (dn_bad_version (uo_down v)) (source_image_options r x) io1 = (b, io2)" by fastforce
      note lc = run_later [OF c, THEN conjunct1] and built = image_build_cases [OF b, unfolded source_options_full]
      have lb: "later io io2" using later_trans [OF lc] built by blast
      show ?thesis
      proof (cases "(\<exists>err. c = Inl err) \<or> b \<noteq> None")
        case True
        then have "e \<noteq> None" "io' = io1 \<or> io' = io2" using 2(4) False outside c b by (auto split: sum.splits)
        then show ?thesis using lc lb by auto
      next
        case ok: False
        then obtain out where o: "c = Inr out" "b = None" by (cases c) auto
        have g: "later io2 io'" "e = None \<longrightarrow> (\<forall>x\<in>set xs. needs_built_image x \<and> uo_registry v = [] \<and> \<not> uo_bundled v (so_image x) \<longrightarrow> image_verified r (during io2 io') x)"
          using 2(3) [OF False outside c [symmetric] o(1) b [symmetric] o(2)] 2(4) False outside c b o by auto
        have v1: "image_verified r (during io1 io2) x" using built o by (auto simp: image_verified_def source_image_options_def)
        have l12: "later io1 io2" using built by blast
        have "image_verified r (during io io') x"
          using v1 during_then [OF lc later_trans [OF l12 g(1)]] during_first [OF l12 g(1)] unfolding image_verified_def by blast
        then show ?thesis using later_trans [OF lb g(1)] during_then [OF lb g(1)] g(2) unfolding image_verified_def by auto blast
      qed
    qed
  qed
qed simp

section \<open>Sources and credentials\<close>

text \<open>A source was installed with its values and its Helm test passed.\<close>

definition source_serves :: "up_outside \<Rightarrow> up_run \<Rightarrow> event set \<Rightarrow> lab_source \<Rightarrow> bool" where
  "source_serves v r E x \<longleftrightarrow> (\<exists>out out'.
     (Command None (helm_argv (helm_source_args (uo_out v) x (source_values_path v (up_lab r) x) (up_values_source r) (up_timeout r))), Inr out) \<in> E \<and>
     (Command None (helm_test_argv x (up_timeout r)), Inr out') \<in> E)"

lemma source_serves_mono: "source_serves v r E x \<Longrightarrow> E \<subseteq> F \<Longrightarrow> source_serves v r F x"
  unfolding source_serves_def by blast

lemma diagnostics_later: "later io (source_diagnostics v x io)" "later io (mirror_diagnostics v l io)"
  unfolding source_diagnostics_def mirror_diagnostics_def Let_def
  by (rule later_trans [OF run_snd_later run_snd_later], rule later_trans [OF later_trans [OF run_snd_later run_snd_later] run_snd_later])

lemma namespace_later:
  assumes "ensure_lab_namespace v ns labels io = (x, io')"
  shows "later io io'"
proof -
  let ?get = "[''kubectl'', ''get'', ''namespace'', ns, ''--ignore-not-found'', ''-o'', ''jsonpath={.metadata.name}'']"
  obtain a io1 where a: "run_command (uo_world v) None ?get io = (a, io1)" by (cases "run_command (uo_world v) None ?get io")
  note la = run_later [OF a, THEN conjunct1]
  show ?thesis
  proof (cases "io' = io1")
    case False
    then obtain user where "(case run_command (uo_world v) (Some (uo_namespace_yaml v ns (user ++ labels))) [''kubectl'', ''create'', ''-f'', ''-''] io1 of
        (Inl e, io2) \<Rightarrow> (Inl (''create namespace '' @ ns @ '': '' @ e), io2) | (Inr made, io2) \<Rightarrow> (Inr True, io2)) = (x, io')"
      using assms a by (cases a; cases "uo_user_labels v") (simp_all add: ensure_lab_namespace_def split: if_splits)
    then have "io' = snd (run_command (uo_world v) (Some (uo_namespace_yaml v ns (user ++ labels))) [''kubectl'', ''create'', ''-f'', ''-''] io1)"
      by (auto split: prod.splits sum.splits)
    then have "later io1 io'" by (simp only: run_snd_later)
    then show ?thesis by (rule later_trans [OF la])
  qed (use la in simp)
qed

lemma install_source_serves:
  assumes "install_source v r x (source_values_path v (up_lab r) x) s = (s', e)"
  shows "later (at_io s) (at_io s') \<and> (e = None \<longrightarrow> source_serves v r (during (at_io s) (at_io s')) x)"
proof -
  let ?w = "uo_world v"
  let ?h = "helm_argv (helm_source_args (uo_out v) x (source_values_path v (up_lab r) x) (up_values_source r) (up_timeout r))"
  obtain a io1 where a: "run_command ?w None ?h (at_io s) = (a, io1)" by (cases "run_command ?w None ?h (at_io s)")
  obtain b io2 where b: "run_command ?w None (helm_test_argv x (up_timeout r)) io1 = (b, io2)" by (cases "run_command ?w None (helm_test_argv x (up_timeout r)) io1")
  note la = run_later [OF a] and lb = run_later [OF b]
  have l12: "later (at_io s) io2" using la lb later_trans by blast
  have "later (at_io s) (source_diagnostics v x io1)" "later (at_io s) (snd (run_command ?w input argv io2))" for input argv
    using later_trans [OF _ diagnostics_later(1)] later_trans [OF l12 run_snd_later] la by blast+
  moreover have "source_serves v r (during (at_io s) io2) x" if "a = Inr out" "b = Inr out'" for out out'
    using that la lb during_first [of "\<lambda>e. True" "at_io s" io1 "\<lambda>e. True" io2] during_then [of "\<lambda>e. True" "at_io s" io1 "\<lambda>e. True" io2]
    unfolding source_serves_def by blast
  ultimately show ?thesis using assms a b l12 by (cases a; cases b) (auto simp: install_source_def Let_def)
qed

lemma deploy_source_serves:
  assumes "deploy_source v r x s = (s', e)"
  shows "later (at_io s) (at_io s') \<and> (e = None \<longrightarrow> source_serves v r (during (at_io s) (at_io s')) x)"
proof -
  obtain y io1 where y: "ensure_lab_namespace v (so_namespace x) (source_labels (up_lab r) (Some x)) (at_io s) = (y, io1)"
    by (cases "ensure_lab_namespace v (so_namespace x) (source_labels (up_lab r) (Some x)) (at_io s)")
  note ly = namespace_later [OF y]
  show ?thesis
  proof (cases "\<exists>s1. at_io s1 = io1 \<and> install_source v r x (source_values_path v (up_lab r) x) s1 = (s', e)")
    case True
    then obtain s1 where s1: "at_io s1 = io1" "install_source v r x (source_values_path v (up_lab r) x) s1 = (s', e)" by blast
    note i = install_source_serves [OF s1(2), unfolded s1(1)]
    then have "later io1 (at_io s')" by blast
    from later_trans [OF ly this] during_then [OF ly this] show ?thesis using i unfolding source_serves_def by blast
  next
    case False
    then have "e \<noteq> None \<and> (at_io s' = at_io s \<or> at_io s' = io1)"
      using assms y
      by ((cases "so_provider x \<noteq> provider_name ProviderLegacy"; cases y; cases "source_document v (up_lab r) x"),
          auto simp: deploy_source_def Let_def split: option.splits, metis)
    then show ?thesis using ly by auto
  qed
qed

lemma deploy_sources_serve:
  "deploy_sources v r xs s = (s', e) \<Longrightarrow>
     later (at_io s) (at_io s') \<and> (e = None \<longrightarrow> (\<forall>x\<in>set xs. source_serves v r (during (at_io s) (at_io s')) x))"
proof (induction xs arbitrary: s)
  case (Cons x xs)
  obtain s1 e1 where d: "deploy_source v r x s = (s1, e1)" by (cases "deploy_source v r x s")
  note one = deploy_source_serves [OF d]
  show ?case
  proof (cases e1)
    case None
    then have r: "deploy_sources v r xs s1 = (s', e)" using Cons.prems d by simp
    note rest = Cons.IH [OF r]
    have l: "later (at_io s) (at_io s1)" "later (at_io s1) (at_io s')" using one rest by blast+
    show ?thesis using later_trans [OF l] one rest None during_first [OF l] during_then [OF l]
      by (auto intro: source_serves_mono [OF _ subsetI])
  qed (use Cons.prems d one in auto)
qed simp

definition credential_written :: "up_outside \<Rightarrow> up_run \<Rightarrow> event set \<Rightarrow> lab_source \<Rightarrow> bool" where
  "credential_written v r E x \<longleftrightarrow> (\<exists>doc out. so_password x \<noteq> [] \<and>
     uo_secret_yaml v (lb_mirror_namespace (up_lab r)) (so_secret x) (credential_labels (up_lab r) x) (so_password x) = Inr doc \<and>
     (Command (Some doc) (apply_argv (lb_mirror_namespace (up_lab r))), Inr out) \<in> E)"

lemma credentials_written:
  "create_credentials v r xs io = (e, io') \<Longrightarrow>
     later io io' \<and> (e = None \<longrightarrow> (\<forall>x\<in>set xs. auth_of x \<noteq> source_auth_none \<longrightarrow> credential_written v r (during io io') x))"
proof (induction xs arbitrary: io)
  case (Cons x xs)
  let ?ns = "lb_mirror_namespace (up_lab r)" and ?yaml = "uo_secret_yaml v (lb_mirror_namespace (up_lab r)) (so_secret x) (credential_labels (up_lab r) x) (so_password x)"
  show ?case
  proof (cases "auth_of x = source_auth_none")
    case False
    show ?thesis
    proof (cases "so_password x = [] \<or> (\<exists>err. ?yaml = Inl err)")
      case True
      then show ?thesis using Cons.prems False by (auto simp: Let_def split: if_splits)
    next
      case ok: False
      then obtain doc where doc: "?yaml = Inr doc" by (cases ?yaml) auto
      obtain a io1 where a: "run_command (uo_world v) (Some doc) (apply_argv ?ns) io = (a, io1)" by (cases "run_command (uo_world v) (Some doc) (apply_argv ?ns) io")
      note la = run_later [OF a]
      show ?thesis
      proof (cases a)
        case (Inr out)
        have r: "create_credentials v r xs io1 = (e, io')" using Cons.prems False ok doc a Inr by (simp add: Let_def)
        note rest = Cons.IH [OF r]
        have l: "later io io1" "later io1 io'" using la rest by blast+
        have "credential_written v r (during io io') x" using la Inr ok doc during_first [OF l] unfolding credential_written_def by blast
        then show ?thesis using later_trans [OF l] rest during_then [OF l] unfolding credential_written_def by auto blast
      qed (use Cons.prems False ok doc a la in \<open>auto simp: Let_def\<close>)
    qed
  qed (use Cons in \<open>auto simp: Let_def\<close>)
qed simp

section \<open>The mirror\<close>

text \<open>What ends a successful poll is an answer read within it.\<close>

lemma poll_answer:
  "poll w c g deadline judge s io = (Polled x, io') \<Longrightarrow> \<exists>s' a io1. later io io1 \<and> invoke w c io1 = (a, io') \<and> judge s' a = Inr x"
proof (induction s io rule: poll_induct [of w c judge deadline g])
  case (poll s io)
  show ?case
  proof (cases rule: poll_cases [of w c io judge s g deadline])
    case (polled a io1 r)
    then show ?thesis using poll.prems by (intro exI [of _ s] exI [of _ a] exI [of _ io]) simp
  next
    case (again a io1 s' io2)
    obtain s'' b io3 where b: "later io2 io3" "invoke w c io3 = (b, io')" "judge s'' b = Inr x"
      using poll.IH [OF again(1-4)] poll.prems again(5) by auto
    have "later io io2" using later_trans [OF invoke_any [OF again(1)] pause_adds [OF again(4)]] by simp
    then show ?thesis using b later_trans by blast
  qed (use poll.prems in auto)
qed

definition mirror_runs :: "up_outside \<Rightarrow> up_run \<Rightarrow> event set \<Rightarrow> bool" where
  "mirror_runs v r E \<longleftrightarrow> (\<exists>out1 out2 out3 st.
     (Command None (helm_argv (helm_mirror_args (uo_out v) (up_lab r) (up_is_kind r) (mirror_values_path v (up_lab r)) (up_values_mirror r))), Inr out1) \<in> E \<and>
     (Command None (wait_mirror_argv (up_lab r) (up_timeout r)), Inr out2) \<in> E \<and>
     (Command None (status_argv (lb_mirror_namespace (up_lab r)) (lb_mirror_cr (up_lab r))), Inr out3) \<in> E \<and>
     status_of (uo_out v) (Inr out3) = Some st \<and> 2 \<le> running_count st \<and> all_running st)"

lemma connectors_running:
  assumes "wait_connectors_running v ns cr timeout io = (x, io')"
  shows "later io io' \<and> (\<forall>st. x = Inr st \<longrightarrow> (\<exists>out. (Command None (status_argv ns cr), Inr out) \<in> during io io' \<and>
     status_of v (Inr out) = Some st \<and> 2 \<le> running_count st \<and> all_running st))"
proof -
  obtain p io1 where p: "poll (ou_world v) (Invoke None (status_argv ns cr)) TenSeconds (io_now io + timeout) (judge_running v) empty_status io = (p, io1)"
    by (cases "poll (ou_world v) (Invoke None (status_argv ns cr)) TenSeconds (io_now io + timeout) (judge_running v) empty_status io")
  have io: "io' = io1" using assms p by (cases p) (simp_all add: wait_connectors_running_def)
  have l: "later io io'" using poll_any [OF p] io by simp
  have "\<exists>out. (Command None (status_argv ns cr), Inr out) \<in> during io io' \<and> status_of v (Inr out) = Some st \<and> 2 \<le> running_count st \<and> all_running st"
    if "x = Inr st" for st
  proof -
    have "p = Polled st" using assms p that by (cases p) (simp_all add: wait_connectors_running_def)
    then have "poll (ou_world v) (Invoke None (status_argv ns cr)) TenSeconds (io_now io + timeout) (judge_running v) empty_status io = (Polled st, io')"
      using p io by simp
    from poll_answer [OF this] obtain s' a io2 where a: "later io io2" "invoke (ou_world v) (Invoke None (status_argv ns cr)) io2 = (a, io')" "judge_running v s' a = Inr st"
      by blast
    have s: "status_of v a = Some st" "2 \<le> running_count st" "all_running st"
      using a(3) by (auto simp: judge_running_def split: option.splits if_splits)
    then obtain out where out: "a = Inr out" by (cases a) (auto simp: status_of_def)
    have "run_command (ou_world v) None (status_argv ns cr) io2 = (Inr out, io')"
      using a(2) out by (auto simp: invoke_def split: prod.splits sum.splits)
    from run_later [OF this] show ?thesis using during_then [OF a(1)] s out by blast
  qed
  then show ?thesis using l by blast
qed

lemma record_later: "later io (record_topics v l io)"
  by (simp add: record_topics_def Let_def run_snd_later)

lemma prepare_later: "prepare_mirror v r io = (e, io') \<Longrightarrow> later io io'"
  using ensure_mirror_chart_deps_adds by (fastforce simp: prepare_mirror_def split: sum.splits option.splits)

lemma await_runs:
  assumes "await_mirror v r s = (s', e)"
  shows "later (at_io s) (at_io s') \<and> (e = None \<longrightarrow> (\<exists>out2 out3 st.
     (Command None (wait_mirror_argv (up_lab r) (up_timeout r)), Inr out2) \<in> during (at_io s) (at_io s') \<and>
     (Command None (status_argv (lb_mirror_namespace (up_lab r)) (lb_mirror_cr (up_lab r))), Inr out3) \<in> during (at_io s) (at_io s') \<and>
     status_of (uo_out v) (Inr out3) = Some st \<and> 2 \<le> running_count st \<and> all_running st))"
proof -
  let ?l = "up_lab r" and ?io = "record_topics v (up_lab r) (at_io s)"
  obtain a io1 where a: "run_command (uo_world v) None (wait_mirror_argv ?l (up_timeout r)) ?io = (a, io1)"
    by (cases "run_command (uo_world v) None (wait_mirror_argv ?l (up_timeout r)) ?io")
  obtain b io2 where b: "wait_connectors_running (uo_out v) (lb_mirror_namespace ?l) (lb_mirror_cr ?l) (up_timeout r) io1 = (b, io2)"
    by (cases "wait_connectors_running (uo_out v) (lb_mirror_namespace ?l) (lb_mirror_cr ?l) (up_timeout r) io1")
  note l0 = record_later [of "at_io s" v ?l] and la = run_later [OF a] and lb = connectors_running [OF b]
  have l1: "later (at_io s) io1" and l2: "later io1 io2" and l01: "later ?io io1" using later_trans [OF l0] la lb by blast+
  note l12 = later_trans [OF l1 l2]
  have out: "at_io s' = (if \<exists>x. a = Inl x then mirror_diagnostics v ?l io1 else if \<exists>x. b = Inl x then mirror_diagnostics v ?l io2 else io2)"
    "e = None \<longleftrightarrow> \<not> (\<exists>x. a = Inl x) \<and> \<not> (\<exists>x. b = Inl x)"
    using assms a b by (cases a; cases b; auto simp: await_mirror_def Let_def)+
  have "later (at_io s) (at_io s')" using out(1) later_trans [OF l1 diagnostics_later(2)] later_trans [OF l12 diagnostics_later(2)] l12 by simp
  moreover have "\<exists>out2 out3 st. (Command None (wait_mirror_argv ?l (up_timeout r)), Inr out2) \<in> during (at_io s) io2 \<and>
     (Command None (status_argv (lb_mirror_namespace ?l) (lb_mirror_cr ?l)), Inr out3) \<in> during (at_io s) io2 \<and>
     status_of (uo_out v) (Inr out3) = Some st \<and> 2 \<le> running_count st \<and> all_running st" if "a = Inr y" "b = Inr z" for y z
    using that la lb during_first [OF l1 l2] during_then [OF l0 l01] during_then [OF l1 l2] by blast
  ultimately show ?thesis using out by (cases a; cases b) auto
qed

lemma phase_mirror_runs:
  assumes "phase_mirror v r s = (s', e)"
  shows "later (at_io s) (at_io s') \<and> (e = None \<longrightarrow> mirror_runs v r (during (at_io s) (at_io s')))"
proof -
  let ?l = "up_lab r" and ?w = "uo_world v"
  let ?h = "helm_argv (helm_mirror_args (uo_out v) ?l (up_is_kind r) (mirror_values_path v ?l) (up_values_mirror r))"
  obtain p io1 where p: "prepare_mirror v r (at_io s) = (p, io1)" by (cases "prepare_mirror v r (at_io s)")
  obtain a io2 where a: "run_command ?w None ?h io1 = (a, io2)" by (cases "run_command ?w None ?h io1")
  note lp = prepare_later [OF p] and la = run_later [OF a]
  have l1: "later io1 io2" and l: "later (at_io s) io2" using later_trans [OF lp] la by blast+
  show ?thesis
  proof (cases "p = None \<and> (\<exists>out. a = Inr out)")
    case True
    let ?s1 = "passing row_mirror_installed (''preflight passed '' @ dash @ '' the source answered a 4.x client'') io2 s"
    obtain out where o: "a = Inr out" using True by blast
    have "await_mirror v r ?s1 = (s', e)" using assms p a True o by (auto simp: phase_mirror_def Let_def)
    from await_runs [OF this] have w: "later io2 (at_io s') \<and> (e = None \<longrightarrow> (\<exists>out2 out3 st.
      (Command None (wait_mirror_argv ?l (up_timeout r)), Inr out2) \<in> during io2 (at_io s') \<and>
      (Command None (status_argv (lb_mirror_namespace ?l) (lb_mirror_cr ?l)), Inr out3) \<in> during io2 (at_io s') \<and>
      status_of (uo_out v) (Inr out3) = Some st \<and> 2 \<le> running_count st \<and> all_running st))" by simp
    then have lw: "later io2 (at_io s')" by blast
    have h: "(Command None ?h, Inr out) \<in> during (at_io s) (at_io s')"
      using la o during_then [OF lp l1] during_first [OF l lw] by blast
    show ?thesis using later_trans [OF l lw] w h during_then [OF l lw] unfolding mirror_runs_def by blast
  next
    case False
    let ?d = "mirror_diagnostics v ?l (snd (run_command ?w None (preflight_argv ?l) io2))"
    have "e \<noteq> None \<and> (at_io s' = io1 \<or> at_io s' = ?d)" using assms p a False by (cases p; cases a) (auto simp: phase_mirror_def Let_def)
    then show ?thesis using lp later_trans [OF later_trans [OF l run_snd_later] diagnostics_later(2)] by auto
  qed
qed

section \<open>A whole run\<close>

definition names_fresh :: "up_outside \<Rightarrow> up_run \<Rightarrow> event set \<Rightarrow> bool" where
  "names_fresh v r E \<longleftrightarrow> list_all (\<lambda>t. own_name v r E t \<or> absent_name r E t) (replicated_topics (up_lab r))"

lemma prerequisites_fresh:
  assumes "phase_prerequisites v r s = (s', e)"
  shows "adds (gentle (check_delete r)) (at_io s) (at_io s') \<and> (e = None \<longrightarrow> names_fresh v r (during (at_io s) (at_io s')))"
  using prerequisites_checked [OF assms] by (auto simp: names_fresh_def list_all_iff)

lemma credential_phase:
  assumes "phase_credential v r s = (s', e)"
  shows "later (at_io s) (at_io s') \<and>
    (e = None \<longrightarrow> (\<forall>x\<in>set (lab_sources (up_lab r)). auth_of x \<noteq> source_auth_none \<longrightarrow> credential_written v r (during (at_io s) (at_io s')) x))"
proof -
  obtain b io1 where b: "create_credentials v r (lab_sources (up_lab r)) (at_io s) = (b, io1)" by fastforce
  then have "at_io s' = io1" "e = b" using assms by (auto simp: phase_credential_def)
  then show ?thesis using credentials_written [OF b] by simp
qed

lemma image_phase:
  assumes "phase_image v r s = (s', e)"
  shows "later (at_io s) (at_io s') \<and> (e = None \<and> \<not> up_skip_build r \<longrightarrow> (\<forall>x\<in>set (lab_sources (up_lab r)).
    needs_built_image x \<and> uo_registry v = [] \<and> \<not> uo_bundled v (so_image x) \<longrightarrow> image_verified r (during (at_io s) (at_io s')) x))"
proof (cases "up_skip_build r")
  case False
  obtain b io1 where b: "build_images v r False (lab_sources (up_lab r)) (at_io s) = (b, io1)" by fastforce
  then have "at_io s' = io1" "e = b" using assms False by (auto simp: phase_image_def)
  then show ?thesis using build_images_verified [OF b] by simp
qed (use assms in \<open>simp add: phase_image_def\<close>)

lemma source_phase:
  assumes "phase_source v r s = (s', e)"
  shows "later (at_io s) (at_io s') \<and> (e = None \<longrightarrow> (\<forall>x\<in>set (lab_sources (up_lab r)). source_serves v r (during (at_io s) (at_io s')) x))"
  using deploy_sources_serve assms unfolding phase_source_def .

text \<open>What a phase that runs adds is a later log, whatever the run makes of its error.\<close>

lemma run_up_step:
  "run_phases ctx i (up_phase n f # ps) s = (s', run_err) \<Longrightarrow>
     s' = s \<and> run_err \<noteq> None \<or>
     (\<exists>s1 e. f s = (s1, e) \<and> (e = None \<and> run_phases ctx (Suc i) ps s1 = (s', run_err) \<or> e \<noteq> None \<and> run_err \<noteq> None \<and> at_io s' = at_io s1))"
  by (auto simp: up_phase_def split: option.splits prod.splits)

lemma run_up_done:
  "run_phases ctx i (up_phase n f # ps) s = (s', None) \<Longrightarrow> \<exists>s1. f s = (s1, None) \<and> run_phases ctx (Suc i) ps s1 = (s', None)"
  using run_up_step by blast

text \<open>Once the names are known to be fresh, the rest of a finished run.\<close>

lemma rest_of_up:
  assumes "run_phases ctx i [up_phase ''image'' (phase_image v r), up_phase ''source'' (phase_source v r),
      up_phase ''credential'' (phase_credential v r), up_phase ''mirror'' (phase_mirror v r)] s = (s', None)"
  shows "later (at_io s) (at_io s') \<and>
    (\<forall>x\<in>set (lab_sources (up_lab r)). source_serves v r (during (at_io s) (at_io s')) x \<and>
       (auth_of x \<noteq> source_auth_none \<longrightarrow> credential_written v r (during (at_io s) (at_io s')) x) \<and>
       (needs_built_image x \<and> uo_registry v = [] \<and> \<not> uo_bundled v (so_image x) \<and> \<not> up_skip_build r \<longrightarrow>
          image_verified r (during (at_io s) (at_io s')) x)) \<and>
    mirror_runs v r (during (at_io s) (at_io s'))"
proof -
  obtain s1 where p1: "phase_image v r s = (s1, None)" and q1: "run_phases ctx (Suc i) [up_phase ''source'' (phase_source v r),
      up_phase ''credential'' (phase_credential v r), up_phase ''mirror'' (phase_mirror v r)] s1 = (s', None)" using run_up_done [OF assms] by blast
  obtain s2 where p2: "phase_source v r s1 = (s2, None)" and q2: "run_phases ctx (Suc (Suc i))
      [up_phase ''credential'' (phase_credential v r), up_phase ''mirror'' (phase_mirror v r)] s2 = (s', None)" using run_up_done [OF q1] by blast
  obtain s3 where p3: "phase_credential v r s2 = (s3, None)" and q3: "run_phases ctx (Suc (Suc (Suc i))) [up_phase ''mirror'' (phase_mirror v r)] s3 = (s', None)"
    using run_up_done [OF q2] by blast
  obtain s4 where "phase_mirror v r s3 = (s4, None)" "run_phases ctx (Suc (Suc (Suc (Suc i)))) [] s4 = (s', None)" using run_up_done [OF q3] by blast
  then have m: "phase_mirror v r s3 = (s', None)" by simp
  note a = image_phase [OF p1] and b = source_phase [OF p2] and c = credential_phase [OF p3] and d = phase_mirror_runs [OF m]
  have l: "later (at_io s) (at_io s1)" "later (at_io s1) (at_io s2)" "later (at_io s2) (at_io s3)" "later (at_io s3) (at_io s')" using a b c d by blast+
  have l23: "later (at_io s2) (at_io s')" and l12: "later (at_io s) (at_io s2)" using later_trans l by blast+
  have l13: "later (at_io s1) (at_io s')" using later_trans [OF l(2) l23] .
  have l03: "later (at_io s) (at_io s3)" using later_trans [OF l12 l(3)] .
  let ?E = "during (at_io s) (at_io s')"
  have sub: "during (at_io s) (at_io s1) \<subseteq> ?E" "during (at_io s1) (at_io s2) \<subseteq> ?E" "during (at_io s2) (at_io s3) \<subseteq> ?E" "during (at_io s3) (at_io s') \<subseteq> ?E"
    using during_first [OF l(1) l13] during_then [OF l(1) l13] during_first [OF l(2) l23] during_then [OF l12 l23] during_first [OF l(3,4)] during_then [OF l03 l(4)]
    by blast+
  have "source_serves v r ?E x" if "x \<in> set (lab_sources (up_lab r))" for x
    using b that source_serves_mono [OF _ sub(2)] by blast
  moreover have "credential_written v r ?E x" if "x \<in> set (lab_sources (up_lab r))" "auth_of x \<noteq> source_auth_none" for x
    using c that sub(3) unfolding credential_written_def by blast
  moreover have "image_verified r ?E x" if "x \<in> set (lab_sources (up_lab r))"
    "needs_built_image x \<and> uo_registry v = [] \<and> \<not> uo_bundled v (so_image x) \<and> \<not> up_skip_build r" for x
    using a that sub(1) unfolding image_verified_def by blast
  moreover have "mirror_runs v r ?E" using d sub(4) unfolding mirror_runs_def by blast
  ultimately show ?thesis using later_trans [OF l(1) l13] by blast
qed

text \<open>Any phases of the lab only add to the log.\<close>

lemma run_up_later:
  assumes "run_phases ctx i [up_phase ''image'' (phase_image v r), up_phase ''source'' (phase_source v r),
      up_phase ''credential'' (phase_credential v r), up_phase ''mirror'' (phase_mirror v r)] s = (s', e)"
  shows "later (at_io s) (at_io s')"
proof -
  have last: "later (at_io s) (at_io s')" if "run_phases ctx i [up_phase n (phase_mirror v r)] s = (s', e)" for i n s
    using run_up_step [OF that] phase_mirror_runs by auto
  have three: "later (at_io s) (at_io s')" if "run_phases ctx i [up_phase n (phase_credential v r), up_phase m (phase_mirror v r)] s = (s', e)" for i n m s
    using run_up_step [OF that] credential_phase last later_trans adds_refl by metis
  have two: "later (at_io s) (at_io s')" if "run_phases ctx i [up_phase k (phase_source v r), up_phase n (phase_credential v r), up_phase m (phase_mirror v r)] s = (s', e)" for i n m k s
    using run_up_step [OF that] source_phase three later_trans adds_refl by metis
  show ?thesis using run_up_step [OF assms] image_phase two later_trans adds_refl by metis
qed

text \<open>
  C8. Nothing is installed or removed before the check: whatever an \<open>up\<close> returns, either its commands only asked and
  applied (its one deletion is that of its own client pod), or there is a point before which they did, and up to which every
  name the mirror will write on the target was found: the lab's own mirror writes it already, or a listing of the target's
  topics did not have it.
\<close>
theorem up_checks_first:
  "adds (gentle (check_delete r)) (at_io s) (at_io (fst (run_migrate_up v r un yes ctx s))) \<or>
   (\<exists>m. adds (gentle (check_delete r)) (at_io s) m \<and> names_fresh v r (during (at_io s) m) \<and>
      later m (at_io (fst (run_migrate_up v r un yes ctx s))))"
proof (cases "un = [] \<and> migrate_confirm (uo_down v) yes (''Create lab '' @ op_name (up_lab r) @ '' ('' @ describe_lab (up_lab r) @ '')?'') = None")
  case True
  obtain s' e where run: "run_phases ctx 0 (up_phases v r) s = (s', e)" by fastforce
  have s': "fst (run_migrate_up v r un yes ctx s) = s'" using True run by (simp add: run_migrate_up_def Let_def)
  obtain s1 e1 where p: "phase_prerequisites v r s = (s1, e1)" by fastforce
  note fresh = prerequisites_fresh [OF p]
  have "s' = s \<or> at_io s' = at_io s1 \<or> e1 = None \<and> later (at_io s1) (at_io s')"
    using run_up_step [OF run [unfolded up_phases_def]] p run_up_later by fastforce
  then show ?thesis using fresh s' by (metis adds_refl)
qed (auto simp: run_migrate_up_def Let_def split: option.splits)

text \<open>
  C3. A finished \<open>up\<close> is a lab that runs: every phase is implemented, no row failed, the names the mirror writes on the
  target were found fresh before anything was installed, and after that, within the run, every source was installed with its
  values and passed its Helm test, every image it had to build was listed with the version of its source, every source that
  authenticates has its credential, and the mirror was installed, became Ready and answered that two connectors or more run,
  all of those it has with all their tasks.
\<close>
theorem up_proved:
  assumes "run_migrate_up v r un yes ctx s = (s', None)"
  shows "un = [] \<and> clean (ms_report s') \<and>
    (\<exists>m. adds (gentle (check_delete r)) (at_io s) m \<and> names_fresh v r (during (at_io s) m) \<and> later m (at_io s') \<and>
      (\<forall>x\<in>set (lab_sources (up_lab r)). source_serves v r (during m (at_io s')) x \<and>
         (auth_of x \<noteq> source_auth_none \<longrightarrow> credential_written v r (during m (at_io s')) x) \<and>
         (needs_built_image x \<and> uo_registry v = [] \<and> \<not> uo_bundled v (so_image x) \<and> \<not> up_skip_build r \<longrightarrow> image_verified r (during m (at_io s')) x)) \<and>
      mirror_runs v r (during m (at_io s')))"
proof -
  have un: "un = []" using assms by (auto simp: run_migrate_up_def Let_def split: if_splits)
  obtain s1 e where run: "run_phases ctx 0 (up_phases v r) s = (s1, e)" by fastforce
  have "s1 = s' \<and> command_error_of (ms_report s1) (''lab '' @ op_name (up_lab r)) e = None"
    using assms un run by (auto simp: run_migrate_up_def Let_def split: option.splits)
  then have "clean (ms_report s')" and run0: "run_phases ctx 0 (up_phases v r) s = (s', None)"
    using run by (auto simp: command_error_None)
  moreover obtain s2 where p: "phase_prerequisites v r s = (s2, None)" "run_phases ctx (Suc 0) [up_phase ''image'' (phase_image v r),
      up_phase ''source'' (phase_source v r), up_phase ''credential'' (phase_credential v r), up_phase ''mirror'' (phase_mirror v r)] s2 = (s', None)"
    using run_up_done [OF run0 [unfolded up_phases_def]] by blast
  ultimately show ?thesis using un prerequisites_fresh [OF p(1)] rest_of_up [OF p(2)] by blast
qed

section \<open>The image a source runs\<close>

text \<open>
  A legacy image that was built is what was asked for: the version parses, and the libraries listed in the built image
  name a Kafka jar of that very version.
\<close>
theorem built_image_verified:
  assumes "run_image_build w dockerfile bad opts io = (None, io')"
  shows "\<exists>v out. parse_version (io_version opts) = Inr v \<and>
    (Command None (libs_argv (image_of (image_defaults opts))), Inr out) \<in> during io io' \<and> kafka_jar_version out = io_version opts"
  using image_build_cases [OF assms] by simp

text \<open>The image a run builds is the one the chart runs, for a registry named without a slash at its end.\<close>

lemma built_image_is_run:
  assumes "\<not> at_least (so_from x) first_official_image" "cut_suffix ''/'' (op_registry (up_lab r)) = None"
  shows "image_of (source_image_options r x) = legacy_image_for (so_from x) (op_registry (up_lab r))"
  using assms by (simp add: image_of_def source_image_options_def legacy_image_for_def trim_suffix_def legacy_image_name_def Let_def)

text \<open>With a slash at its end it is not: \<open>image\<close> drops it and \<open>LegacyImageFor\<close> keeps it.\<close>

lemma slash_registry_differs:
  assumes "op_registry (up_lab r) = ''localhost:5001/''" "so_from x = \<lparr>major = 2, minor = 8, patch = 2\<rparr>"
  shows "image_of (source_image_options r x) = ''localhost:5001/kates-legacy-kafka:'' @ version_string (so_from x)"
    "legacy_image_for (so_from x) (op_registry (up_lab r)) = ''localhost:5001//kates-legacy-kafka:'' @ version_string (so_from x)"
proof -
  have a: "trim_suffix ''/'' ''localhost:5001/'' = ''localhost:5001''" by code_simp
  have b: "\<not> at_least \<lparr>major = 2, minor = 8, patch = 2\<rparr> first_official_image" by code_simp
  show "image_of (source_image_options r x) = ''localhost:5001/kates-legacy-kafka:'' @ version_string (so_from x)"
    "legacy_image_for (so_from x) (op_registry (up_lab r)) = ''localhost:5001//kates-legacy-kafka:'' @ version_string (so_from x)"
    using assms a b by (simp_all add: image_of_def source_image_options_def legacy_image_for_def legacy_image_name_def Let_def)
qed

text \<open>The wait for the connectors counts two, in a fan-in too: the connectors of one source are enough, the other's may not be there yet.\<close>

definition one_source_status :: "(int \<times> status_doc option) option" where
  "one_source_status = Some (0, Some \<lparr>sd_conditions = [],
     sd_connectors = [\<lparr>co_name = ''a->k'' @ source_connector_suffix, co_state = state_running, co_trace = [], co_tasks = [\<lparr>td_state = state_running, td_trace = []\<rparr>]\<rparr>,
                     \<lparr>co_name = ''a->k'' @ checkpoint_connector_suffix, co_state = state_running, co_trace = [], co_tasks = [\<lparr>td_state = state_running, td_trace = []\<rparr>]\<rparr>],
     sd_replicas = 1, sd_observed = 0\<rparr>)"

lemma one_source_enough:
  assumes "ou_status v out = one_source_status"
  shows "\<exists>st. judge_running v seen (Inr out) = Inr st \<and> length (mt_connectors st) = 2"
  using assms
  by (simp add: judge_running_def status_of_def one_source_status_def parse_mirror_status_def Let_def read_connector_def
      running_count_def all_running_def connector_running_def)

section \<open>A lab that comes up\<close>

text \<open>The small lab of the verification, its topic \<open>u\<close> new on the target, its mirror with two connectors running.\<close>

definition small_lab :: lab where
  "small_lab = demo_lab\<lparr>op_topics := [''u''], lb_source_topics := [''u'']\<rparr>"

definition small_world :: up_outside where
  "small_world =
     \<lparr>uo_down = (down_world ''u'')\<lparr>dn_out := (demo_outside True)\<lparr>ou_status := (\<lambda>s. one_source_status)\<rparr>,
        dn_read := \<lparr>rd_compile = (\<lambda>p. None), rd_items = (\<lambda>out. Inr []), rd_lower = (\<lambda>s. s)\<rparr>\<rparr>,
      uo_user_labels = Inr Map.empty, uo_namespace_yaml = (\<lambda>ns labels. ns), uo_source_yaml = (\<lambda>vals. Inr []), uo_mirror_yaml = (\<lambda>vals. Inr []),
      uo_secret_yaml = (\<lambda>ns n labels pw. Inr []), uo_values_error = (\<lambda>e. []), uo_build_dir = (\<lambda>n. n), uo_registry = [],
      uo_bundled = (\<lambda>i. False), uo_archive = None, uo_dockerfile = Inr ([], [])\<rparr>"

definition small_run :: up_run where
  "small_run = \<lparr>up_lab = small_lab, up_timeout = 60 * one_second, up_values_source = [], up_values_mirror = [], up_skip_build = True,
     up_is_kind = True, up_brokers = 3, up_operator_namespace = ''n''\<rparr>"

definition small_start :: up_state where
  "small_start = new_state Map.empty \<lparr>uv_io = \<lparr>io_log = [], io_now = 0\<rparr>, uv_created = Map.empty\<rparr>"

lemma small_parts [simp]:
  "uo_world small_world = demo_world True" "up_lab small_run = small_lab" "rd_items (dn_read (uo_down small_world)) out = Inr []"
  "ou_status (uo_out small_world) out = one_source_status" "ou_write_file (uo_out small_world) f d = None" "ou_published (uo_out small_world) = False"
  "uo_source_yaml small_world vals = Inr []" "uo_mirror_yaml small_world mv = Inr []" "up_skip_build small_run = True"
  by (simp_all add: small_world_def small_run_def demo_outside_def)

definition small_source :: lab_source where "small_source = first_source small_lab"

lemma small_fields:
  "lab_sources small_lab = [small_source]" "so_topics small_source = [''u'']" "so_alias small_source = ''source''" "so_sasl small_source = False"
  "so_provider small_source = ''legacy''" "auth_of small_source = source_auth_none" "replicated_topics small_lab = [''u'']"
  "op_target_namespace small_lab = ''n''" "op_target_cluster small_lab = ''k''"
  by (simp_all add: lab_sources_def small_source_def first_source_def small_lab_def demo_lab_def options.extend_def lab.fields_def demo_options_def auth_of_def
      provider_name_def replicated_topics_def replicated_topic_of_def policy_identity_def policy_default_def source_auth_none_def)

lemma small_place: "place_credential (uo_out small_world) p ns a b c io = place_credential (demo_outside True) p ns a b c io"
  by (simp add: small_world_def place_credential_def read_secret_key_def cong: sum.case_cong option.case_cong)

lemma small_opens:
  "\<exists>c io'. open_target_client (uo_down small_world) (check_options small_run) io = (Inr c, io') \<and> usable (tc_pod c)"
proof -
  have v: "parse_version ''4.3.0'' = Inr \<lparr>major = 4, minor = 3, patch = 0\<rparr>" by code_simp
  let ?c = "target_client_of (check_options small_run) \<lparr>major = 4, minor = 3, patch = 0\<rparr> ''kafka''"
  have u: "usable (tc_pod ?c)" by (simp add: usable_def target_client_of_def check_options_def small_fields target_client_pod_name_def)
  have "validate_pod (tc_pod ?c) = None"
    by (simp add: target_client_of_def check_options_def small_fields target_client_pod_name_def) code_simp
  from demo_ensure [OF this] obtain io1 where
    "ensure_pod (\<lambda>m. Inr ''y'') (demo_world True) (tc_pod ?c) (if seconds (to_timeout (check_options small_run)) \<le> 0 then default_ready_timeout
      else seconds (to_timeout (check_options small_run))) io = (None, io1)" by blast
  moreover obtain io2 where "place_credential (uo_out small_world) (tc_pod ?c) ''n'' target_user ''SCRAM-SHA-512'' target_user io1 = (None, io2)"
    using demo_place [OF u] by (simp add: small_place) blast
  ultimately show ?thesis using u
    by (simp add: open_target_client_def v Let_def small_world_def down_world_def demo_outside_def) (simp add: check_options_def small_fields)
qed

lemma small_checks:
  "\<exists>s'. phase_prerequisites small_world small_run s = (s', None) \<and> (clean (ms_report s) \<longrightarrow> clean (ms_report s'))"
proof -
  have "\<exists>io'. refuse_existing_topics small_world small_run [] io = (None, io')" for io
  proof -
    obtain c io1 where c: "open_target_client (uo_down small_world) (check_options small_run) io = (Inr c, io1)" "usable (tc_pod c)"
      using small_opens by blast
    obtain io2 where "pod_exec (demo_world True) (tc_pod c) (list_topics (tc_tools c) (tc_bootstrap c) (tc_cfg c)) io1 = (Inr demo_reply, io2)"
      using demo_exec(1) [OF c(2)] by fastforce
    then show ?thesis using c(1) reply_topics by (simp add: refuse_existing_topics_def small_fields Let_def)
  qed
  then have r: "\<exists>io'. refuse_topics small_world small_run t = (up_io io' t, None)" for t
  proof -
    obtain io1 where o: "refuse_overlapping_lab small_world small_run (at_io t) = (Inr [], io1)" by (simp add: refuse_overlapping_lab_def)
    obtain io2 where "refuse_existing_topics small_world small_run [] io1 = (None, io2)"
      using \<open>\<And>io. \<exists>io'. refuse_existing_topics small_world small_run [] io = (None, io')\<close> by blast
    then show ?thesis by (simp add: refuse_topics_def o) (rule exI, rule refl)
  qed
  have "\<exists>t. phase_prerequisites small_world small_run s = refuse_topics small_world small_run t \<and> (clean (ms_report s) \<longrightarrow> clean (ms_report t))"
    using demo_trim by (simp add: phase_prerequisites_def Let_def) (rule exI, rule conjI [OF refl], simp)
  then obtain t where t: "phase_prerequisites small_world small_run s = refuse_topics small_world small_run t" "clean (ms_report s) \<longrightarrow> clean (ms_report t)"
    by blast
  obtain io' where "refuse_topics small_world small_run t = (up_io io' t, None)" using r by blast
  then show ?thesis using t by simp
qed

lemma small_deploys: "\<exists>s'. phase_source small_world small_run s = (s', None) \<and> (clean (ms_report s) \<longrightarrow> clean (ms_report s'))"
proof -
  obtain vals where "source_values_for small_lab small_source = Inr vals" by (simp add: source_values_for_def small_fields provider_name_def Let_def)
  then have doc: "source_document small_world small_lab small_source = Inr []" by (simp add: source_document_def)
  have "\<exists>s'. install_source small_world small_run small_source path t = (s', None) \<and> (clean (ms_report t) \<longrightarrow> clean (ms_report s'))" for path t
    by (simp add: install_source_def Let_def)
  note install = this
  obtain io1 where n: "ensure_lab_namespace small_world (so_namespace small_source) (source_labels small_lab (Some small_source)) (at_io s) = (Inr False, io1)"
    using demo_trim by (simp add: ensure_lab_namespace_def)
  let ?t = "s\<lparr>ms_values := \<lparr>uv_io = io1, uv_created = (uv_created (ms_values s))(so_namespace small_source \<mapsto> False)\<rparr>\<rparr>"
  obtain s' where i: "install_source small_world small_run small_source (source_values_path small_world small_lab small_source) ?t = (s', None)"
    "clean (ms_report ?t) \<longrightarrow> clean (ms_report s')" using install by blast
  then have "deploy_source small_world small_run small_source s = (s', None)"
    by (simp add: deploy_source_def small_fields provider_name_def n doc Let_def)
  then show ?thesis using i(2) by (simp add: phase_source_def small_fields)
qed

lemma small_credentials: "\<exists>s'. phase_credential small_world small_run s = (s', None) \<and> (clean (ms_report s) \<longrightarrow> clean (ms_report s'))"
  by (simp add: phase_credential_def small_fields Let_def)

lemma small_lab_fields: "lb_source_bootstrap small_lab = ''b:9092''" "op_from small_lab = \<lparr>major = 3, minor = 9, patch = 1\<rparr>"
  "op_topics small_lab = [''u'']" "lb_extra_sources small_lab = []"
  by (simp_all add: small_lab_def demo_lab_def options.extend_def lab.fields_def demo_options_def)

lemma small_inputs:
  "mi_brokers (fill_mirror_inputs small_lab (up_inputs small_run)) = 3" "mi_rf (fill_mirror_inputs small_lab (up_inputs small_run)) = 0"
  "mi_auth (fill_mirror_inputs small_lab (up_inputs small_run)) = source_auth_none"
  "mirror_inputs.mi_bootstrap (fill_mirror_inputs small_lab (up_inputs small_run)) = ''b:9092''"
  "mirror_inputs.mi_version (fill_mirror_inputs small_lab (up_inputs small_run)) = \<lparr>major = 3, minor = 9, patch = 1\<rparr>"
  using small_fields(6)
  by (simp_all add: fill_mirror_inputs_def up_inputs_def small_run_def lab_inputs_def zero_inputs_def or_else_def small_lab_fields small_source_def
      zero_version_def source_auth_none_def Let_def)

lemma small_document: "mirror_document small_world small_run = Inr []"
proof -
  have v: "\<not> version_less \<lparr>major = 3, minor = 9, patch = 1\<rparr> min_mirror_source" by code_simp
  have t: "so_topics (first_source small_lab) = [''u'']" using small_fields(2) by (simp add: small_source_def)
  obtain vals where "mirror_values_for small_lab (up_inputs small_run) = Inr vals"
    by (simp add: mirror_values_for_def size_mirror_replication_def small_inputs small_lab_fields mirror_entries_def mirror_source_inputs_def
        mirror_and_secrets_def source_auth_values_def first_inputs_def t v Let_def)
  then show ?thesis by (simp add: mirror_document_def)
qed

lemma small_waits: "\<exists>st io'. wait_connectors_running (uo_out small_world) ns cr timeout io = (Inr st, io')"
proof -
  obtain st where st: "judge_running (uo_out small_world) empty_status (Inr demo_reply) = Inr st"
    using one_source_enough [of "uo_out small_world" demo_reply empty_status] by auto
  have i: "invoke (demo_world True) (Invoke None (status_argv ns cr)) io = (Inr demo_reply, logged (Command None (status_argv ns cr)) demo_reply io)"
    by (simp add: invoke_def)
  show ?thesis by (simp add: wait_connectors_running_def poll.simps [of "demo_world True"] i st Let_def)
qed

lemma small_mirrors: "\<exists>s'. phase_mirror small_world small_run s = (s', None) \<and> (clean (ms_report s) \<longrightarrow> clean (ms_report s'))"
proof -
  have "\<exists>io'. prepare_mirror small_world small_run io = (None, io')" for io
    by (simp add: prepare_mirror_def small_document ensure_mirror_chart_deps_def)
  then obtain io1 where p: "prepare_mirror small_world small_run (at_io s) = (None, io1)" by blast
  have "\<exists>s'. await_mirror small_world small_run t = (s', None) \<and> (clean (ms_report t) \<longrightarrow> clean (ms_report s'))" for t
  proof -
    let ?io = "logged (Command None (wait_mirror_argv small_lab (up_timeout small_run))) demo_reply (record_topics small_world small_lab (at_io t))"
    obtain st io2 where "wait_connectors_running (uo_out small_world) (lb_mirror_namespace small_lab) (lb_mirror_cr small_lab) (up_timeout small_run) ?io = (Inr st, io2)"
      using small_waits by blast
    then show ?thesis by (simp add: await_mirror_def Let_def)
  qed
  note await = this
  let ?h = "helm_argv (helm_mirror_args (uo_out small_world) small_lab (up_is_kind small_run) (mirror_values_path small_world small_lab) (up_values_mirror small_run))"
  let ?t = "passing row_mirror_installed (''preflight passed '' @ dash @ '' the source answered a 4.x client'') (logged (Command None ?h) demo_reply io1) s"
  obtain s' where w: "await_mirror small_world small_run ?t = (s', None)" "clean (ms_report ?t) \<longrightarrow> clean (ms_report s')" using await by blast
  have "phase_mirror small_world small_run s = (s', None)" using w(1) by (simp add: phase_mirror_def p Let_def)
  then show ?thesis using w(2) by simp
qed

lemma small_up: "\<exists>s'. run_migrate_up small_world small_run [] True (\<lambda>k. None) small_start = (s', None)"
proof -
  obtain s1 where a: "phase_prerequisites small_world small_run small_start = (s1, None)" "clean (ms_report small_start) \<longrightarrow> clean (ms_report s1)" using small_checks by blast
  have b: "phase_image small_world small_run s1 = (s1, None)" by (simp add: phase_image_def)
  obtain s2 where c: "phase_source small_world small_run s1 = (s2, None)" "clean (ms_report s1) \<longrightarrow> clean (ms_report s2)" using small_deploys by blast
  obtain s3 where d: "phase_credential small_world small_run s2 = (s3, None)" "clean (ms_report s2) \<longrightarrow> clean (ms_report s3)" using small_credentials by blast
  obtain s4 where e: "phase_mirror small_world small_run s3 = (s4, None)" "clean (ms_report s3) \<longrightarrow> clean (ms_report s4)" using small_mirrors by blast
  have "clean (ms_report small_start)" by (simp add: small_start_def new_state_def new_report_def clean_def)
  then have "clean (ms_report s4)" using a c d e by blast
  then show ?thesis using a(1) b c(1) d(1) e(1) by (simp add: run_migrate_up_def migrate_confirm_def up_phases_def up_phase_def command_error_None Let_def)
qed

theorem up_proved_witness:
  "\<exists>s' m. run_migrate_up small_world small_run [] True (\<lambda>k. None) small_start = (s', None) \<and> names_fresh small_world small_run (during (at_io small_start) m) \<and>
     source_serves small_world small_run (during m (at_io s')) small_source \<and> mirror_runs small_world small_run (during m (at_io s'))"
proof -
  obtain s' where r: "run_migrate_up small_world small_run [] True (\<lambda>k. None) small_start = (s', None)" using small_up by blast
  have "small_source \<in> set (lab_sources (up_lab small_run))" by (simp add: small_fields)
  then show ?thesis using up_proved [OF r] r by blast
qed

text \<open>A build of an image that lists the jar it should.\<close>

definition jar_world :: world where
  "jar_world = \<lparr>wd_command = (\<lambda>h input argv. (Inr ''kafka_2.13-2.8.2.jar'', 0)), wd_pause = (\<lambda>h d. (None, 0))\<rparr>"

definition jar_options :: image_options where
  "jar_options = \<lparr>io_version = ''2.8.2'', io_scala = [], io_jre = [], io_os_release = [], io_platform = [], io_registry = [], io_load = False, io_push = False,
     io_kind_cluster = []\<rparr>"

lemma jar_builds: "\<exists>io'. run_image_build jar_world (Inr (''Dockerfile'', ''.'')) (\<lambda>e. []) jar_options io = (None, io')"
proof -
  have c: "\<exists>io'. run_command jar_world None argv io = (Inr ''kafka_2.13-2.8.2.jar'', io')" for argv io
    by (simp add: run_command_def jar_world_def Let_def)
  have one: "\<exists>io'. must_run jar_world [(argv, w)] io = (None, io')" for argv w io using c [of argv io] by auto
  have j: "kafka_jar_version ''kafka_2.13-2.8.2.jar'' = ''2.8.2''" by code_simp
  have ver: "\<exists>io'. verify_legacy_image jar_world img ''2.8.2'' io = (None, io')" for img io
    using c [of "libs_argv img" io] by (auto simp: verify_legacy_image_def j)
  have p: "parse_version ''2.8.2'' = Inr \<lparr>major = 2, minor = 8, patch = 2\<rparr>" by code_simp
  let ?o = "image_defaults jar_options"
  obtain io1 where a: "must_run jar_world [([''docker'', ''--version''], ''docker is required to build the image: '')] io = (None, io1)" using one by blast
  obtain io2 where b: "must_run jar_world [([''docker'', ''build''] @ build_args ?o ''Dockerfile'' @ [''.''], ''docker build: '')] io1 = (None, io2)" using one by blast
  obtain io3 where v: "verify_legacy_image jar_world (image_of ?o) ''2.8.2'' io2 = (None, io3)" using ver by blast
  have o: "io_version ?o = ''2.8.2''" "io_push ?o = False" "io_load ?o = False" "io_version jar_options = ''2.8.2''" by (simp_all add: image_defaults_def jar_options_def)
  show ?thesis using a b v by (simp add: run_image_build_def Let_def o p)
qed

theorem built_image_verified_witness:
  "\<exists>io' out. run_image_build jar_world (Inr (''Dockerfile'', ''.'')) (\<lambda>e. []) jar_options \<lparr>io_log = [], io_now = 0\<rparr> = (None, io') \<and>
     (Command None (libs_argv (image_of (image_defaults jar_options))), Inr out) \<in> during \<lparr>io_log = [], io_now = 0\<rparr> io' \<and> kafka_jar_version out = ''2.8.2''"
proof -
  obtain io' where r: "run_image_build jar_world (Inr (''Dockerfile'', ''.'')) (\<lambda>e. []) jar_options \<lparr>io_log = [], io_now = 0\<rparr> = (None, io')" using jar_builds by blast
  have "io_version jar_options = ''2.8.2''" by (simp add: jar_options_def)
  then show ?thesis using built_image_verified [OF r] r by metis
qed

end
