(* ===== verification/Operators.thy ===== *)
theory Operators
  imports CommandRunner SchemaCheck "HOL-Library.AList"
begin

text \<open>
  The Strimzi operators of a cluster (\<open>cli/pkg/strimzi/installed.go\<close>, \<open>releases.go\<close>) and the published charts
  (\<open>catalogue.go\<close>): discovery from the pods over their Deployments to the Helm releases, the scope each operator watches,
  the shape of an installation, and the order of a catalogue. What encoding/json reads is a field of \<open>operator_reading\<close>; the
  catalogue's cache file and the charts' tarballs are left out.
\<close>

section \<open>What the JSON says\<close>

record owner_doc =
  ow_kind :: string
  ow_name :: string

record pod_doc =
  pc_namespace :: string
  pc_labels :: "(string \<times> string) list"
  pc_owners :: "owner_doc list"

text \<open>An environment variable: its value and the field it is taken from, when \<open>valueFrom\<close> is given.\<close>

record env_var =
  ev_name :: string
  ev_value :: string
  ev_from :: "string option option"

record container_doc =
  ct_name :: string
  ct_image :: string
  ct_env :: "env_var list"

record deployment_doc =
  dc_name :: string
  dc_namespace :: string
  dc_containers :: "container_doc list"
  dc_replicas :: int
  dc_available :: int

record helm_release =
  hr_name :: string
  hr_namespace :: string
  hr_chart :: string
  hr_app_version :: string
  hr_status :: string
  hr_updated :: string

record crd_doc =
  cd_name :: string
  cd_stored :: "string list"

record resource_instance =
  ri_crd :: string
  ri_kind :: string
  ri_namespace :: string
  ri_name :: string

record operator_reading =
  or_pods :: "string \<Rightarrow> string + pod_doc list"
  or_deployment :: "string \<Rightarrow> string + deployment_doc"
  or_releases :: "string \<Rightarrow> string + helm_release list"
  or_crds :: "string \<Rightarrow> string + crd_doc list"
  or_instances :: "string \<Rightarrow> string + (string \<times> string \<times> string) list"
  or_version_error :: "version_error \<Rightarrow> string"

section \<open>An operator\<close>

definition env_namespace :: string where "env_namespace = ''STRIMZI_NAMESPACE''"
definition operator_pod_selector :: string where "operator_pod_selector = ''strimzi.io/kind=cluster-operator''"
definition strimzi_chart_name :: string where "strimzi_chart_name = ''strimzi-kafka-operator''"
definition wrapper_chart_prefix :: string where "wrapper_chart_prefix = ''strimzi-operator-''"
definition upstream_chart_prefix :: string where "upstream_chart_prefix = strimzi_chart_name @ ''-''"
definition crd_label_selector :: string where "crd_label_selector = ''app=strimzi''"
definition watches_cluster :: string where "watches_cluster = ''cluster''"
definition watches_namespaces :: string where "watches_namespaces = ''namespaces''"
definition watch_all :: string where "watch_all = ''*''"

record operator =
  st_namespace :: string
  st_deployment :: string
  st_version :: string
  st_image :: string
  st_scope :: string
  st_watches :: "string list"
  st_down :: bool
  st_window :: window
  st_release :: string
  st_app_version :: string
  st_helm_release :: string
  st_helm_chart :: string

definition is_foreign :: "operator \<Rightarrow> bool" where
  "is_foreign p \<longleftrightarrow> st_release p = []"

type_synonym deployment_ref = "string \<times> string"

definition owning_deployment :: "pod_doc \<Rightarrow> string \<Rightarrow> string" where
  "owning_deployment pod replica_set =
     (let hash = (case map_of (pc_labels pod) ''pod-template-hash'' of Some h \<Rightarrow> h | None \<Rightarrow> []);
          i = last_index_byte replica_set (CHR ''-'')
      in if hash \<noteq> [] then trim_suffix (''-'' @ hash) replica_set
         else if 0 < i then take (nat i) replica_set else replica_set)"

fun add_owners :: "pod_doc \<Rightarrow> owner_doc list \<Rightarrow> deployment_ref list \<Rightarrow> deployment_ref list" where
  "add_owners pod [] refs = refs"
| "add_owners pod (w # ws) refs =
     (if ow_kind w \<noteq> ''ReplicaSet'' then add_owners pod ws refs
      else
        (let ref = (pc_namespace pod, owning_deployment pod (ow_name w))
         in add_owners pod ws (if ref \<in> set refs then refs else refs @ [ref])))"

fun pod_owners :: "pod_doc list \<Rightarrow> deployment_ref list \<Rightarrow> deployment_ref list" where
  "pod_owners [] refs = refs"
| "pod_owners (pod # pods) refs = pod_owners pods (add_owners pod (pc_owners pod) refs)"

definition container_env :: "container_doc \<Rightarrow> string \<Rightarrow> env_var option" where
  "container_env c n = find (\<lambda>e. ev_name e = n) (ct_env c)"

definition operator_container :: "container_doc list \<Rightarrow> container_doc option" where
  "operator_container cs =
     (case find (\<lambda>c. ct_name c = operator_container_name) cs of
        Some c \<Rightarrow> Some c
      | None \<Rightarrow> find (\<lambda>c. container_env c env_kafka_images \<noteq> None) cs)"

definition listed_namespaces :: "string \<Rightarrow> string list" where
  "listed_namespaces v = filter (\<lambda>ns. ns \<noteq> []) (map trim_space (split_on (CHR '','') v))"

definition watch_scope :: "container_doc \<Rightarrow> string \<Rightarrow> string \<times> string list" where
  "watch_scope c own =
     (case container_env c env_namespace of
        None \<Rightarrow> (watches_namespaces, [own])
      | Some e \<Rightarrow>
          (if ev_value e = [] \<and> ev_from e \<noteq> None then (watches_namespaces, [own])
           else if trim_space (ev_value e) = watch_all then (watches_cluster, [watch_all])
           else
             (let ws = listed_namespaces (ev_value e)
              in (watches_namespaces, if ws = [] then [own] else ws))))"

definition operator_of :: "deployment_doc \<Rightarrow> container_doc \<Rightarrow> window \<Rightarrow> operator" where
  "operator_of d c w =
     \<lparr>st_namespace = dc_namespace d, st_deployment = dc_name d, st_version = image_tag (ct_image c), st_image = ct_image c,
      st_scope = fst (watch_scope c (dc_namespace d)), st_watches = snd (watch_scope c (dc_namespace d)),
      st_down = (0 < dc_replicas d \<and> dc_available d = 0), st_window = w,
      st_release = [], st_app_version = [], st_helm_release = [], st_helm_chart = []\<rparr>"

definition parse_operator_deployment :: "operator_reading \<Rightarrow> string \<Rightarrow> string + operator" where
  "parse_operator_deployment rd json =
     (case or_deployment rd json of
        Inl e \<Rightarrow> Inl (''parse Deployment: '' @ e)
      | Inr d \<Rightarrow>
          (case operator_container (dc_containers d) of
             None \<Rightarrow> Inl (''no '' @ operator_container_name @ '' container'')
           | Some c \<Rightarrow>
               (case container_env c env_kafka_images of
                  None \<Rightarrow> Inr (operator_of d c [])
                | Some images \<Rightarrow>
                    (if ev_value images = [] then Inr (operator_of d c [])
                     else
                       (case parse_image_map (ev_value images) of
                          Inl e \<Rightarrow> Inl (env_kafka_images @ '': '' @ or_version_error rd e)
                        | Inr w \<Rightarrow> Inr (operator_of d c w))))))"

section \<open>Helm releases\<close>

definition deployed_release :: "helm_release \<Rightarrow> bool" where
  "deployed_release r \<longleftrightarrow> hr_status r = ''deployed''"

definition release_list_args :: "string \<Rightarrow> string list \<Rightarrow> string list" where
  "release_list_args ns extra = (if ns \<noteq> [] then [''list'', ''-n'', ns] else [''list'', ''-A'']) @ extra @ [''-o'', ''json'']"

definition parse_releases :: "operator_reading \<Rightarrow> string \<Rightarrow> string + helm_release list" where
  "parse_releases rd json =
     (if trim_space json = [] then Inr []
      else (case or_releases rd json of Inl e \<Rightarrow> Inl (''parse helm list output: '' @ e) | Inr rs \<Rightarrow> Inr rs))"

definition list_releases :: "operator_reading \<Rightarrow> world \<Rightarrow> string \<Rightarrow> string list \<Rightarrow> io \<Rightarrow> (string + helm_release list) \<times> io" where
  "list_releases rd w ns extra io =
     (case run_command w None (''helm'' # release_list_args ns extra) io of
        (Inl e, io1) \<Rightarrow> (Inl e, io1)
      | (Inr out, io1) \<Rightarrow> (parse_releases rd out, io1))"

definition is_strimzi_helm_chart :: "string \<Rightarrow> bool" where
  "is_strimzi_helm_chart chart \<longleftrightarrow> prefix wrapper_chart_prefix chart \<or> prefix upstream_chart_prefix chart"

text \<open>One operator's turn of \<open>attachReleases\<close>: the first Strimzi chart, until the wrapper's own.\<close>

fun attach_release :: "operator \<Rightarrow> helm_release list \<Rightarrow> operator" where
  "attach_release p [] = p"
| "attach_release p (r # rs) =
     (if hr_namespace r \<noteq> st_namespace p \<or> \<not> is_strimzi_helm_chart (hr_chart r) then attach_release p rs
      else
        (let p1 = (if st_helm_release p = [] then p\<lparr>st_helm_release := hr_name r, st_helm_chart := hr_chart r\<rparr> else p)
         in if prefix wrapper_chart_prefix (hr_chart r)
            then p1\<lparr>st_release := hr_name r, st_app_version := hr_app_version r, st_helm_release := hr_name r, st_helm_chart := hr_chart r\<rparr>
            else attach_release p1 rs))"

definition attach_releases :: "operator list \<Rightarrow> helm_release list \<Rightarrow> operator list" where
  "attach_releases ops releases = map (\<lambda>p. attach_release p releases) ops"

section \<open>Discovery\<close>

definition operator_order :: "operator \<Rightarrow> operator \<Rightarrow> int" where
  "operator_order a b =
     (if cmp_string (st_namespace a) (st_namespace b) \<noteq> 0 then cmp_string (st_namespace a) (st_namespace b)
      else cmp_string (st_deployment a) (st_deployment b))"

definition deployment_argv :: "deployment_ref \<Rightarrow> string list" where
  "deployment_argv ref = [''kubectl'', ''get'', ''deployment'', ''-n'', fst ref, snd ref, ''-o'', ''json'']"

fun read_operators :: "operator_reading \<Rightarrow> world \<Rightarrow> deployment_ref list \<Rightarrow> io \<Rightarrow> (string + operator list) \<times> io" where
  "read_operators rd w [] io = (Inr [], io)"
| "read_operators rd w (ref # refs) io =
     (let place = fst ref @ ''/'' @ snd ref
      in (case run_command w None (deployment_argv ref) io of
            (Inl e, io1) \<Rightarrow> (Inl (''read operator Deployment '' @ place @ '': '' @ e), io1)
          | (Inr json, io1) \<Rightarrow>
              (case parse_operator_deployment rd json of
                 Inl e \<Rightarrow> (Inl (''operator Deployment '' @ place @ '': '' @ e), io1)
               | Inr p \<Rightarrow>
                   (case read_operators rd w refs io1 of
                      (Inl e, io2) \<Rightarrow> (Inl e, io2)
                    | (Inr ps, io2) \<Rightarrow> (Inr (p # ps), io2)))))"

definition operator_pods_argv :: "string list" where
  "operator_pods_argv = [''kubectl'', ''get'', ''pods'', ''-A'', ''-l'', operator_pod_selector, ''-o'', ''json'']"

definition installed_operators :: "operator_reading \<Rightarrow> world \<Rightarrow> io \<Rightarrow> (string + operator list) \<times> io" where
  "installed_operators rd w io =
     (case run_command w None operator_pods_argv io of
        (Inl e, io1) \<Rightarrow> (Inl (''list operator pods: '' @ e), io1)
      | (Inr json, io1) \<Rightarrow>
          (case or_pods rd json of
             Inl e \<Rightarrow> (Inl (''parse pod list: '' @ e), io1)
           | Inr pods \<Rightarrow>
               (case read_operators rd w (pod_owners pods []) io1 of
                  (Inl e, io2) \<Rightarrow> (Inl e, io2)
                | (Inr ops, io2) \<Rightarrow>
                    (if ops = [] then (Inr [], io2)
                     else
                       (case list_releases rd w [] [] io2 of
                          (Inl e, io3) \<Rightarrow> (Inl (''list helm releases: '' @ e), io3)
                        | (Inr rs, io3) \<Rightarrow> (Inr (stable_sort operator_order (attach_releases ops rs)), io3))))))"

datatype scope_shape = ShapeNone | ShapeCluster | ShapeNamespaces | ShapeMixed

definition shape :: "operator list \<Rightarrow> scope_shape" where
  "shape ops =
     (let cluster = list_ex (\<lambda>p. st_scope p = watches_cluster) ops;
          namespaced = list_ex (\<lambda>p. st_scope p \<noteq> watches_cluster) ops
      in if cluster \<and> namespaced then ShapeMixed
         else if cluster then ShapeCluster
         else if namespaced then ShapeNamespaces
         else ShapeNone)"

datatype upgrade_kind = UpgradeSame | UpgradeUpgrade | UpgradeDowngrade

definition upgrade_kind :: "string \<Rightarrow> string \<Rightarrow> (string \<times> version_error) + upgrade_kind" where
  "upgrade_kind installed requested =
     (case parse_version installed of
        Inl e \<Rightarrow> Inl (''installed operator version: '', e)
      | Inr iv \<Rightarrow>
          (case parse_version requested of
             Inl e \<Rightarrow> Inl (''requested operator version: '', e)
           | Inr rv \<Rightarrow>
               Inr (if compare_version iv rv = 0 then UpgradeSame
                    else if compare_version iv rv = - 1 then UpgradeUpgrade else UpgradeDowngrade)))"

section \<open>The installed CRDs\<close>

definition parse_stored_versions :: "operator_reading \<Rightarrow> string \<Rightarrow> string + (string \<times> string list) list" where
  "parse_stored_versions rd json =
     (case or_crds rd json of
        Inl e \<Rightarrow> Inl (''parse CRD list: '' @ e)
      | Inr crds \<Rightarrow> Inr (fold (\<lambda>c m. if suffix ''.strimzi.io'' (cd_name c) then AList.update (cd_name c) (cd_stored c) m else m) crds []))"

definition stored_versions :: "operator_reading \<Rightarrow> world \<Rightarrow> io \<Rightarrow> (string + (string \<times> string list) list) \<times> io" where
  "stored_versions rd w io =
     (case run_command w None [''kubectl'', ''get'', ''crd'', ''-l'', crd_label_selector, ''-o'', ''json''] io of
        (Inl e, io1) \<Rightarrow> (Inl (''list Strimzi CRDs: '' @ e), io1)
      | (Inr out, io1) \<Rightarrow>
          (case parse_stored_versions rd out of
             Inl e \<Rightarrow> (Inl e, io1)
           | Inr stored \<Rightarrow>
               (if stored \<noteq> [] then (Inr stored, io1)
                else
                  (case run_command w None [''kubectl'', ''get'', ''crd'', ''-o'', ''json''] io1 of
                     (Inl e, io2) \<Rightarrow> (Inl (''list CRDs: '' @ e), io2)
                   | (Inr all, io2) \<Rightarrow> (parse_stored_versions rd all, io2)))))"

definition instance_ref :: "resource_instance \<Rightarrow> string" where
  "instance_ref i =
     (if ri_namespace i = [] then ri_kind i @ ''/'' @ ri_name i else ri_namespace i @ ''/'' @ ri_kind i @ ''/'' @ ri_name i)"

definition parse_resource_instances :: "operator_reading \<Rightarrow> string \<Rightarrow> string \<Rightarrow> string + resource_instance list" where
  "parse_resource_instances rd crd json =
     (if trim_space json = [] then Inr []
      else
        (case or_instances rd json of
           Inl e \<Rightarrow> Inl (''parse '' @ crd @ '' list: '' @ e)
         | Inr its \<Rightarrow> Inr (map (\<lambda>(kind, ns, n). \<lparr>ri_crd = crd, ri_kind = kind, ri_namespace = ns, ri_name = n\<rparr>) its)))"

fun list_instances :: "operator_reading \<Rightarrow> world \<Rightarrow> string list \<Rightarrow> io \<Rightarrow> (string + resource_instance list) \<times> io" where
  "list_instances rd w [] io = (Inr [], io)"
| "list_instances rd w (crd # crds) io =
     (case run_command w None [''kubectl'', ''get'', crd, ''-A'', ''-o'', ''json'', ''--ignore-not-found''] io of
        (Inl e, io1) \<Rightarrow> (Inl (''list '' @ crd @ '': '' @ e), io1)
      | (Inr out, io1) \<Rightarrow>
          (case parse_resource_instances rd crd out of
             Inl e \<Rightarrow> (Inl e, io1)
           | Inr here \<Rightarrow>
               (case list_instances rd w crds io1 of (Inl e, io2) \<Rightarrow> (Inl e, io2) | (Inr rest, io2) \<Rightarrow> (Inr (here @ rest), io2))))"

definition resource_instances :: "operator_reading \<Rightarrow> world \<Rightarrow> string list \<Rightarrow> io \<Rightarrow> (string + resource_instance list) \<times> io" where
  "resource_instances rd w crds io = list_instances rd w (stable_sort cmp_string crds) io"

section \<open>The catalogue\<close>

record catalogue_entry =
  ce_version :: string
  ce_app_version :: string
  ce_description :: string

definition newest_entry :: "catalogue_entry list \<Rightarrow> catalogue_entry option" where
  "newest_entry entries = (case entries of e # es \<Rightarrow> Some e | [] \<Rightarrow> None)"

definition catalogue_has :: "catalogue_entry list \<Rightarrow> string \<Rightarrow> bool" where
  "catalogue_has entries v \<longleftrightarrow> list_ex (\<lambda>e. ce_version e = v) entries"

definition newest_first :: "catalogue_entry \<Rightarrow> catalogue_entry \<Rightarrow> int" where
  "newest_first a b =
     (case (parse_version (ce_version a), parse_version (ce_version b)) of
        (Inr va, Inr vb) \<Rightarrow> compare_version vb va
      | (Inr va, Inl eb) \<Rightarrow> - 1
      | (Inl ea, Inr vb) \<Rightarrow> 1
      | (Inl ea, Inl eb) \<Rightarrow> cmp_string (ce_version b) (ce_version a))"

definition sort_newest_first :: "catalogue_entry list \<Rightarrow> catalogue_entry list" where
  "sort_newest_first = stable_sort newest_first"

text \<open>\<open>rows\<close> is what encoding/json reads in the trimmed output: the name of the chart and its entry.\<close>

definition repo_name :: string where "repo_name = ''strimzi''"

definition parse_search_output :: "(string \<Rightarrow> string + (string \<times> catalogue_entry) list) \<Rightarrow> string \<Rightarrow> string + catalogue_entry list" where
  "parse_search_output rows out =
     (case rows (trim_space out) of
        Inl e \<Rightarrow> Inl (''parse helm search output: '' @ e)
      | Inr rs \<Rightarrow>
          (let want = repo_name @ ''/'' @ strimzi_chart_name; entries = map snd (filter (\<lambda>r. fst r = want) rs)
           in if entries = [] then Inl (''no '' @ want @ '' versions in helm search output'') else Inr (sort_newest_first entries)))"

definition chart_file_name :: "string \<Rightarrow> string" where
  "chart_file_name v = strimzi_chart_name @ ''-'' @ v @ ''.tgz''"

definition check_version_segment :: "string \<Rightarrow> string option" where
  "check_version_segment v =
     (if v = [] \<or> v = ''.'' \<or> v = ''..'' \<or> CHR ''/'' \<in> set v \<or> CHR 0x5c \<in> set v
      then Some (''invalid Strimzi version '' @ dq # v @ [dq]) else None)"

section \<open>Scopes\<close>

text \<open>The environment of one variable; discovery's answers on it.\<close>

lemma listed_namespaces_nonempty: "ns \<in> set (listed_namespaces v) \<Longrightarrow> ns \<noteq> []"
  by (simp add: listed_namespaces_def)

text \<open>
  What an operator is said to watch: it always watches something; it is said to watch the cluster exactly when its
  variable says so; otherwise it watches its own namespace or namespaces the variable lists.
\<close>
theorem watch_scope_exact:
  "snd (watch_scope c own) \<noteq> [] \<and>
   (fst (watch_scope c own) = watches_cluster \<longleftrightarrow> (\<exists>e. container_env c env_namespace = Some e \<and> trim_space (ev_value e) = watch_all)) \<and>
   (fst (watch_scope c own) = watches_namespaces \<longrightarrow> snd (watch_scope c own) = [own] \<or>
      (\<exists>e. container_env c env_namespace = Some e \<and> snd (watch_scope c own) = listed_namespaces (ev_value e)))"
proof -
  have "trim_space [] \<noteq> watch_all" by (simp add: watch_all_def)
  then show ?thesis by (auto simp: watch_scope_def watches_cluster_def watches_namespaces_def Let_def split: option.splits)
qed

theorem watch_scope_exact_witness:
  "fst (watch_scope \<lparr>ct_name = [], ct_image = [], ct_env = [\<lparr>ev_name = env_namespace, ev_value = '' * '', ev_from = None\<rparr>]\<rparr> ''own'') = watches_cluster"
proof -
  let ?c = "\<lparr>ct_name = [], ct_image = [], ct_env = [\<lparr>ev_name = env_namespace, ev_value = '' * '', ev_from = None\<rparr>]\<rparr>"
  have "trim_space '' * '' = watch_all" by code_simp
  then have "\<exists>e. container_env ?c env_namespace = Some e \<and> trim_space (ev_value e) = watch_all" by (simp add: container_env_def)
  then show ?thesis using watch_scope_exact [of ?c "''own''"] by blast
qed

section \<open>Deployments of the pods\<close>

lemma add_owners_set:
  "set (add_owners pod ws refs) = set refs \<union> {(pc_namespace pod, owning_deployment pod (ow_name w)) | w. w \<in> set ws \<and> ow_kind w = ''ReplicaSet''}"
  by (induction ws arbitrary: refs) (auto simp: Let_def)

lemma add_owners_distinct: "distinct refs \<Longrightarrow> distinct (add_owners pod ws refs)"
  by (induction ws arbitrary: refs) (auto simp: Let_def)

lemma pod_owners_set:
  "set (pod_owners pods refs) = set refs \<union>
     {(pc_namespace pod, owning_deployment pod (ow_name w)) | pod w. pod \<in> set pods \<and> w \<in> set (pc_owners pod) \<and> ow_kind w = ''ReplicaSet''}"
  by (induction pods arbitrary: refs) (auto simp: add_owners_set)

lemma pod_owners_distinct: "distinct refs \<Longrightarrow> distinct (pod_owners pods refs)"
  by (induction pods arbitrary: refs) (simp_all add: add_owners_distinct)

text \<open>A ReplicaSet named after its Deployment and the hash its pods carry gives the Deployment back.\<close>

lemma owning_deployment_hash:
  "map_of (pc_labels pod) ''pod-template-hash'' = Some h \<Longrightarrow> h \<noteq> [] \<Longrightarrow> owning_deployment pod (d @ ''-'' @ h) = d"
  by (simp add: owning_deployment_def trim_suffix_def cut_suffix_def suffix_def)

section \<open>Releases\<close>

lemma attach_release_place [simp]: "st_namespace (attach_release p rs) = st_namespace p" "st_deployment (attach_release p rs) = st_deployment p"
  "st_watches (attach_release p rs) = st_watches p" "st_window (attach_release p rs) = st_window p"
  "st_scope (attach_release p rs) = st_scope p" "st_version (attach_release p rs) = st_version p"
  by (induction p rs rule: attach_release.induct) (auto simp: Let_def)

text \<open>
  An operator belongs to kates exactly when its namespace has a release of the wrapper chart: then the release and the
  chart's version are the first such release's, whatever other Strimzi releases stand before it, and otherwise it is foreign.
\<close>
theorem wrapper_release_found:
  "st_release p = [] \<Longrightarrow> st_app_version p = [] \<Longrightarrow>
   (case find (\<lambda>r. hr_namespace r = st_namespace p \<and> prefix wrapper_chart_prefix (hr_chart r)) rs of
      Some r \<Rightarrow> st_release (attach_release p rs) = hr_name r \<and> st_app_version (attach_release p rs) = hr_app_version r \<and>
                st_helm_release (attach_release p rs) = hr_name r \<and> st_helm_chart (attach_release p rs) = hr_chart r
    | None \<Rightarrow> st_release (attach_release p rs) = [] \<and> st_app_version (attach_release p rs) = [])"
proof (induction p rs rule: attach_release.induct)
  case (2 p r rs)
  let ?p1 = "if st_helm_release p = [] then p\<lparr>st_helm_release := hr_name r, st_helm_chart := hr_chart r\<rparr> else p"
  show ?case
  proof (cases "hr_namespace r \<noteq> st_namespace p \<or> \<not> is_strimzi_helm_chart (hr_chart r)")
    case True
    have e: "attach_release p (r # rs) = attach_release p rs" using True by simp
    have n: "\<not> (hr_namespace r = st_namespace p \<and> prefix wrapper_chart_prefix (hr_chart r))" using True by (auto simp: is_strimzi_helm_chart_def)
    show ?thesis unfolding e find.simps if_not_P [OF n] using 2(1) [OF True 2(3,4)] .
  next
    case False
    have ns: "st_namespace ?p1 = st_namespace p" "st_release ?p1 = []" "st_app_version ?p1 = []" using 2(3,4) by simp_all
    show ?thesis
    proof (cases "prefix wrapper_chart_prefix (hr_chart r)")
      case True
      then show ?thesis using False by (simp add: Let_def)
    next
      case plain: False
      have e: "attach_release p (r # rs) = attach_release ?p1 rs" using False plain by (simp add: Let_def)
      have f: "find (\<lambda>r. hr_namespace r = st_namespace p \<and> prefix wrapper_chart_prefix (hr_chart r)) (r # rs) =
          find (\<lambda>r. hr_namespace r = st_namespace ?p1 \<and> prefix wrapper_chart_prefix (hr_chart r)) rs"
        using plain ns(1) by simp
      show ?thesis unfolding e f using 2(2) [OF False refl plain ns(2,3)] .
    qed
  qed
qed simp

section \<open>Orders\<close>

interpretation newest: three_way newest_first
proof
  fix x y :: catalogue_entry
  show "newest_first x y < 0 \<longleftrightarrow> 0 < newest_first y x"
    by (auto simp: newest_first_def ver.cmp_swap strings.cmp_swap split: sum.splits)
next
  fix x y z :: catalogue_entry
  assume "newest_first x y \<le> 0" "newest_first y z \<le> 0"
  then show "newest_first x z \<le> 0"
    unfolding newest_first_def
    by (cases "parse_version (ce_version x)"; cases "parse_version (ce_version y)"; cases "parse_version (ce_version z)")
      (simp_all, (metis ver.cmp_trans strings.cmp_trans)+)
qed

text \<open>A comparison by one key and, where it does not decide, by another.\<close>

lemma lexicographic_three_way:
  assumes "three_way_total f" "three_way g"
  shows "three_way (\<lambda>a b. if f (p a) (p b) \<noteq> 0 then f (p a) (p b) else g (q a) (q b))"
proof (rule three_way.intro)
  note f = three_way_total.axioms(1) [OF assms(1)] and g = assms(2)
  note feq = three_way_total.cmp_eq_iff [OF assms(1)]
  fix x y
  show "(if f (p x) (p y) \<noteq> 0 then f (p x) (p y) else g (q x) (q y)) < 0 \<longleftrightarrow> 0 < (if f (p y) (p x) \<noteq> 0 then f (p y) (p x) else g (q y) (q x))"
    using three_way.cmp_swap [OF f, of "p x" "p y"] three_way.cmp_swap [OF g, of "q x" "q y"] three_way.cmp_zero_swap [OF f, of "p x" "p y"] by simp
  fix z
  assume a: "(if f (p x) (p y) \<noteq> 0 then f (p x) (p y) else g (q x) (q y)) \<le> 0" "(if f (p y) (p z) \<noteq> 0 then f (p y) (p z) else g (q y) (q z)) \<le> 0"
  then have xz: "f (p x) (p z) \<le> 0" using three_way.cmp_trans [OF f, of "p x" "p y" "p z"] by (auto split: if_splits)
  show "(if f (p x) (p z) \<noteq> 0 then f (p x) (p z) else g (q x) (q z)) \<le> 0"
  proof (cases "f (p x) (p z) = 0")
    case True
    then have e: "p x = p z" by (simp add: feq)
    have "f (p x) (p y) \<le> 0" "f (p y) (p x) \<le> 0" using a e by (auto split: if_splits)
    then have "f (p x) (p y) = 0" using three_way.cmp_swap [OF f, of "p x" "p y"] by linarith
    then have "p x = p y" by (simp add: feq)
    then have "g (q x) (q y) \<le> 0" "g (q y) (q z) \<le> 0" using a e by (simp_all add: feq [THEN iffD2])
    then show ?thesis using True three_way.cmp_trans [OF g] by simp
  qed (use xz in simp)
qed

lemma operator_order_lex:
  "operator_order = (\<lambda>a b. if cmp_string (st_namespace a) (st_namespace b) \<noteq> 0 then cmp_string (st_namespace a) (st_namespace b)
     else cmp_string (st_deployment a) (st_deployment b))"
  by (simp add: operator_order_def fun_eq_iff)

interpretation places: three_way operator_order
  unfolding operator_order_lex by (rule lexicographic_three_way [OF strings.three_way_total_axioms strings.three_way_axioms])

section \<open>What discovery returns\<close>

lemma operators_read:
  "read_operators rd w refs io = (Inr ops, io') \<Longrightarrow> adds (\<lambda>e. True) io io' \<and>
     list_all2 (\<lambda>ref p. \<exists>json. (Command None (deployment_argv ref), Inr json) \<in> set (io_log io') \<and> parse_operator_deployment rd json = Inr p) refs ops"
proof (induction refs arbitrary: io ops)
  case (Cons ref refs)
  obtain x io1 where x: "run_command w None (deployment_argv ref) io = (x, io1)" by (cases "run_command w None (deployment_argv ref) io")
  obtain json p ps where j: "x = Inr json" "parse_operator_deployment rd json = Inr p" "read_operators rd w refs io1 = (Inr ps, io')" "ops = p # ps"
    using Cons.prems x by (auto simp: Let_def split: sum.splits prod.splits)
  note rest = Cons.IH [OF j(3)]
  have a: "adds (\<lambda>e. True) io io1" by (rule run_command_adds [OF x]) simp
  have "(Command None (deployment_argv ref), Inr json) \<in> set (io_log io1)" using run_command_event [OF x] j(1) by simp
  then have "(Command None (deployment_argv ref), Inr json) \<in> set (io_log io')" using adds_keeps rest by blast
  then show ?case using rest a j by (auto intro: adds_trans)
qed simp

text \<open>
  The operators discovery returns are those of the cluster: one for each Deployment that owns an operator pod through a
  ReplicaSet, each once, read from that Deployment's own answer in this run, with the releases of its namespace attached, in
  the order of their namespaces and names.
\<close>
theorem installed_operators_read:
  assumes "installed_operators rd w io = (Inr ops, io')"
  shows "sorted_wrt (\<lambda>a b. operator_order a b \<le> 0) ops \<and>
    (\<exists>pj pods ps rs. (Command None operator_pods_argv, Inr pj) \<in> set (io_log io') \<and> or_pods rd pj = Inr pods \<and>
       distinct (pod_owners pods []) \<and> mset ops = mset (attach_releases ps rs) \<and>
       list_all2 (\<lambda>ref p. \<exists>json. (Command None (deployment_argv ref), Inr json) \<in> set (io_log io') \<and> parse_operator_deployment rd json = Inr p)
         (pod_owners pods []) ps)"
proof -
  obtain x io1 where x: "run_command w None operator_pods_argv io = (x, io1)" by (cases "run_command w None operator_pods_argv io")
  obtain pj pods where p: "x = Inr pj" "or_pods rd pj = Inr pods" using assms x by (auto simp: installed_operators_def split: sum.splits)
  obtain y io2 where y: "read_operators rd w (pod_owners pods []) io1 = (y, io2)" by (cases "read_operators rd w (pod_owners pods []) io1")
  obtain ps where ps: "y = Inr ps" using assms x p y by (auto simp: installed_operators_def split: sum.splits)
  note read = operators_read [OF y [unfolded ps]]
  have "(Command None operator_pods_argv, Inr pj) \<in> set (io_log io1)" using run_command_event [OF x] p by simp
  then have e: "(Command None operator_pods_argv, Inr pj) \<in> set (io_log io2)" using adds_keeps read by blast
  have tail: "adds (\<lambda>e. True) io2 io' \<and> (\<exists>rs. ops = stable_sort operator_order (attach_releases ps rs))"
  proof (cases "ps = []")
    case True
    then have "ops = []" "io' = io2" using assms x p y ps by (simp_all add: installed_operators_def)
    then show ?thesis using True by (simp add: attach_releases_def)
  next
    case False
    obtain z io3 where z: "list_releases rd w [] [] io2 = (z, io3)" by (cases "list_releases rd w [] [] io2")
    obtain rs where rs: "z = Inr rs" "ops = stable_sort operator_order (attach_releases ps rs)" "io' = io3"
      using assms x p y ps z False by (auto simp: installed_operators_def split: sum.splits)
    have "adds (\<lambda>e. True) io2 io3" using z run_command_adds by (fastforce simp: list_releases_def split: prod.splits sum.splits)
    then show ?thesis using rs by blast
  qed
  then obtain rs where rs: "ops = stable_sort operator_order (attach_releases ps rs)" and a: "adds (\<lambda>e. True) io2 io'" by blast
  have l: "list_all2 (\<lambda>ref p. \<exists>json. (Command None (deployment_argv ref), Inr json) \<in> set (io_log io') \<and> parse_operator_deployment rd json = Inr p)
     (pod_owners pods []) ps"
    by (rule list_all2_mono [OF read [THEN conjunct2]]) (use adds_keeps [OF a] in blast)
  have d: "distinct (pod_owners pods [])" by (rule pod_owners_distinct) simp
  have "sorted_wrt (\<lambda>a b. operator_order a b \<le> 0) ops" unfolding rs by (rule places.sorted_stable_sort)
  moreover have "mset ops = mset (attach_releases ps rs)" by (simp add: rs)
  ultimately show ?thesis using p(2) l adds_keeps [OF a e] d by blast
qed

text \<open>
  The catalogue read from a search is the chart's own rows, no more and no less, newest first: what it offers as newest is
  at least every other version that is a release number.
\<close>
theorem catalogue_newest_first:
  assumes "parse_search_output rows out = Inr es"
  shows "\<exists>rs e0. rows (trim_space out) = Inr rs \<and> mset es = mset (map snd (filter (\<lambda>r. fst r = ''strimzi/strimzi-kafka-operator'') rs)) \<and>
    newest_entry es = Some e0 \<and>
    (\<forall>e\<in>set es. \<forall>v. parse_version (ce_version e) = Inr v \<longrightarrow> (\<exists>v0. parse_version (ce_version e0) = Inr v0 \<and> \<not> version_less v0 v))"
proof -
  obtain rs where rs: "rows (trim_space out) = Inr rs" "es = sort_newest_first (map snd (filter (\<lambda>r. fst r = ''strimzi/strimzi-kafka-operator'') rs))" "es \<noteq> []"
    using assms by (auto simp: parse_search_output_def repo_name_def strimzi_chart_name_def sort_newest_first_def Let_def split: sum.splits if_splits)
  obtain e0 rest where e0: "es = e0 # rest" using rs(3) by (cases es) auto
  have "sorted_wrt (\<lambda>a b. newest_first a b \<le> 0) es" using rs(2) newest.sorted_stable_sort by (simp add: sort_newest_first_def)
  then have first: "newest_first e0 e \<le> 0" if "e \<in> set es" for e using that e0 newest.cmp_refl [of e0] by auto
  have "\<exists>v0. parse_version (ce_version e0) = Inr v0 \<and> \<not> version_less v0 v" if e: "e \<in> set es" "parse_version (ce_version e) = Inr v" for e v
  proof -
    obtain v0 where v0: "parse_version (ce_version e0) = Inr v0" "compare_version v v0 \<le> 0"
      using first [OF e(1)] e(2) by (auto simp: newest_first_def split: sum.splits)
    have "\<not> version_less v0 v" using v0(2) ver.cmp_swap [of v0 v] by (simp add: version_less_def)
    then show ?thesis using v0(1) by blast
  qed
  moreover have "mset es = mset (map snd (filter (\<lambda>r. fst r = ''strimzi/strimzi-kafka-operator'') rs))" using rs(2) by (simp add: sort_newest_first_def)
  moreover have "newest_entry es = Some e0" by (simp add: newest_entry_def e0)
  ultimately show ?thesis using rs(1) by blast
qed

end
