(* ===== verification/MigrationPair.thy ===== *)
theory MigrationPair
  imports Operators MigrationUp
begin

text \<open>
  The pair a migration is asked for (\<open>cli/cmd/migrate.go\<close>): what \<open>discoverMigrateEnv\<close> reads of the cluster, the operator
  that owns the target's namespace, the rules that decide who runs each \<open>--from\<close>, the target version, and the options and
  lab made of them. JSON is read by the functions of \<open>env_outside\<close>, the vendored chart is one answer of it; the styling of
  notes and warnings is left out, their text is not.
\<close>

section \<open>The environment\<close>

record mig_target =
  tg_cluster :: string
  tg_namespace :: string
  tg_found :: bool
  tg_version :: version
  tg_ready :: bool
  tg_brokers :: int
  tg_secret :: bool

record mig_env =
  me_operators :: "operator list"
  me_primary :: "operator option"
  me_scope :: string
  me_window :: window
  me_strimzi :: string
  me_operator_ns :: string
  me_target :: mig_target
  me_is_kind :: bool
  me_pins :: pins
  me_from_pin :: bool
  me_notes :: "string list"

record kafka_doc =
  kd_version :: string
  kd_replicas :: int
  kd_status_version :: string
  kd_conditions :: "(string \<times> string) list"

record pool_doc =
  pl_replicas :: int
  pl_roles :: "string list"

text \<open>\<open>eo_chart\<close>: the version and window of the vendored chart, or the error of finding or reading it.\<close>

record env_outside =
  eo_world :: world
  eo_reading :: operator_reading
  eo_pins :: "string + pins"
  eo_chart :: "string + string \<times> window"
  eo_kafka :: "string \<Rightarrow> string + kafka_doc"
  eo_pools :: "string \<Rightarrow> pool_doc list option"

definition primary_scope :: "operator option \<Rightarrow> string" where
  "primary_scope p =
     (case p of Some x \<Rightarrow> if st_scope x = watches_namespaces then scope_namespace else scope_cluster | None \<Rightarrow> scope_cluster)"

definition operator_line :: "mig_env \<Rightarrow> string" where
  "operator_line e =
     (case me_primary e of
        None \<Rightarrow> ''Strimzi '' @ me_strimzi e @ '' (pinned '' @ dash @ '' no operator found on the cluster)''
      | Some p \<Rightarrow>
          ''Strimzi '' @ st_version p @ '' in '' @ st_namespace p @ '' ('' @
          (if st_scope p = watches_namespaces then ''namespace scope'' else ''cluster scope'') @ '', watches '' @ join_with '','' (st_watches p) @ '')'')"

definition migrate_client_image_repo :: string where "migrate_client_image_repo = ''quay.io/strimzi/kafka''"

definition client_image :: "mig_env \<Rightarrow> string" where
  "client_image e =
     (if me_strimzi e \<noteq> [] \<and> tg_version (me_target e) \<noteq> zero_version
      then migrate_client_image_repo @ '':'' @ me_strimzi e @ ''-kafka-'' @ version_string (tg_version (me_target e))
      else pn_kafka_image (me_pins e))"

definition watched_by :: "string \<Rightarrow> operator \<Rightarrow> bool" where
  "watched_by ns p \<longleftrightarrow> list_ex (\<lambda>w. w = watch_all \<or> w = ns) (st_watches p)"

definition watches_text :: "operator \<Rightarrow> string" where
  "watches_text p = st_namespace p @ '' ('' @ st_version p @ '', watches '' @ join_with '','' (st_watches p) @ '')''"

definition mixed_line :: "operator \<Rightarrow> string" where
  "mixed_line p =
     st_namespace p @ ''/'' @ st_deployment p @ '' ('' @ st_version p @ '', watches '' @ join_with '','' (st_watches p) @ '')''"

definition pick_primary_operator :: "operator list \<Rightarrow> string \<Rightarrow> string + operator" where
  "pick_primary_operator ops ns =
     (if shape ops = ShapeMixed then
        Inl (''a cluster-wide Strimzi operator and a namespace-scoped one are both installed '' @ dash @
             '' a mixed installation is refused until fixed (kates doctor):'' @ nl # ''  '' @ join_with (nl # ''  '') (map mixed_line ops))
      else
        (case filter (watched_by ns) ops of
           [p] \<Rightarrow> Inr p
         | [] \<Rightarrow> Inl (''no Strimzi operator watches namespace '' @ ns @ ''; installed: '' @ join_with ''; '' (map watches_text ops))
         | matches \<Rightarrow>
             Inl (show_int (int (length matches)) @ '' Strimzi operators reconcile namespace '' @ ns @ '' ('' @
                  join_with '', '' (map (\<lambda>p. st_namespace p @ '' ('' @ st_version p @ '')'') matches) @ '') '' @ dash @ '' every watch set must be disjoint'')))"

definition broker_count :: "pool_doc list option \<Rightarrow> int" where
  "broker_count pools =
     (case pools of None \<Rightarrow> 0 | Some ps \<Rightarrow> sum_list (map (\<lambda>p. if ''broker'' \<in> set (pl_roles p) then pl_replicas p else 0) ps))"

definition kafka_argv :: "mig_target \<Rightarrow> string list" where
  "kafka_argv t = [''kubectl'', ''-n'', tg_namespace t, ''get'', ''kafka'', tg_cluster t, ''--ignore-not-found'', ''-o'', ''json'']"

definition target_place :: "mig_target \<Rightarrow> string" where
  "target_place t = tg_namespace t @ ''/'' @ tg_cluster t"

text \<open>The first of the two versions that is stated, parsed.\<close>

definition stated_version :: "env_outside \<Rightarrow> mig_target \<Rightarrow> kafka_doc \<Rightarrow> string + version option" where
  "stated_version v t d =
     (case filter (\<lambda>s. s \<noteq> []) [kd_version d, kd_status_version d] of
        [] \<Rightarrow> Inr None
      | s # rest \<Rightarrow>
          (case parse_version s of
             Inl e \<Rightarrow> Inl (''the Kafka resource '' @ target_place t @ '' states version '' @ dq # s @ dq # '': '' @ or_version_error (eo_reading v) e)
           | Inr ver \<Rightarrow> Inr (Some ver)))"

text \<open>\<open>readTarget\<close> fills the target as far as it gets; None is no error.\<close>

definition read_target :: "env_outside \<Rightarrow> mig_target \<Rightarrow> io \<Rightarrow> string option \<times> mig_target \<times> io" where
  "read_target v t io =
     (case run_command (eo_world v) None (kafka_argv t) io of
        (Inl e, io1) \<Rightarrow> (Some (''read Kafka '' @ target_place t @ '': '' @ e), t, io1)
      | (Inr out, io1) \<Rightarrow>
          (if trim_space out = [] then (None, t, io1)
           else
             (case eo_kafka v out of
                Inl e \<Rightarrow> (Some (''parse Kafka '' @ target_place t @ '': '' @ e), t, io1)
              | Inr d \<Rightarrow>
                  (let t1 = t\<lparr>tg_found := True\<rparr>
                   in (case stated_version v t d of
                         Inl e \<Rightarrow> (Some e, t1, io1)
                       | Inr ver \<Rightarrow>
                           (case run_command (eo_world v) None
                               [''kubectl'', ''-n'', tg_namespace t, ''get'', ''kafkanodepool'', ''-l'', ''strimzi.io/cluster='' @ tg_cluster t, ''-o'', ''json''] io1 of
                              (pools, io2) \<Rightarrow>
                                (let n = (case pools of Inl e \<Rightarrow> 0 | Inr json \<Rightarrow> broker_count (eo_pools v json));
                                     t2 = t1\<lparr>tg_version := (case ver of Some x \<Rightarrow> x | None \<Rightarrow> tg_version t),
                                             tg_ready := (tg_ready t \<or> (''Ready'', ''True'') \<in> set (kd_conditions d)),
                                             tg_brokers := (if 0 < n then n else kd_replicas d)\<rparr>
                                 in (case run_command (eo_world v) None
                                        [''kubectl'', ''-n'', tg_namespace t, ''get'', ''secret'', target_user, ''--ignore-not-found'', ''-o'',
                                         ''jsonpath={.metadata.name}''] io2 of
                                       (Inl e, io3) \<Rightarrow> (Some (''read Secret '' @ tg_namespace t @ ''/'' @ target_user @ '': '' @ e), t2, io3)
                                     | (Inr name, io3) \<Rightarrow> (None, t2\<lparr>tg_secret := (trim_space name \<noteq> [])\<rparr>, io3)))))))))"

definition migrate_detect_kind :: "world \<Rightarrow> io \<Rightarrow> bool \<times> io" where
  "migrate_detect_kind w io =
     (case run_command w None
         [''kubectl'', ''get'', ''daemonset'', ''kindnet'', ''-n'', ''kube-system'', ''--ignore-not-found'', ''--no-headers''] io of
        (Inl e, io1) \<Rightarrow> (False, io1)
      | (Inr out, io1) \<Rightarrow> (trim_space out \<noteq> [], io1))"

definition plan_against_pin :: "env_outside \<Rightarrow> string option \<Rightarrow> mig_env \<Rightarrow> string + mig_env" where
  "plan_against_pin v cause e =
     (case eo_chart v of
        Inl err \<Rightarrow> Inl err
      | Inr (ver, w) \<Rightarrow>
          (let pinned = '' '' @ dash @ '' planned against the pinned Strimzi '' @ ver @ '' (window '' @ window_string w @ '')'';
               note = (case cause of
                         None \<Rightarrow> ''no Strimzi operator found on the cluster'' @ pinned
                       | Some c \<Rightarrow> ''could not read the cluster's operators ('' @ c @ '')'' @ pinned)
           in Inr (e\<lparr>me_window := w, me_strimzi := ver, me_operator_ns := ''strimzi-operator'', me_from_pin := True,
                     me_notes := me_notes e @ [note]\<rparr>)))"

definition with_primary :: "operator \<Rightarrow> mig_env \<Rightarrow> mig_env" where
  "with_primary p e =
     e\<lparr>me_primary := Some p, me_window := st_window p, me_strimzi := st_version p, me_operator_ns := st_namespace p,
       me_notes := me_notes e @
         (if st_app_version p \<noteq> [] \<and> st_app_version p \<noteq> st_version p
          then [''operator image tag '' @ st_version p @ '' and Helm APP VERSION '' @ st_app_version p @ '' disagree '' @ dash @ '' someone changed one by hand'']
          else [])\<rparr>"

text \<open>Who runs the target: the operators, the primary among them, or the pin when there is none and none is needed.\<close>

definition find_primary :: "env_outside \<Rightarrow> bool \<Rightarrow> string + operator list \<Rightarrow> mig_env \<Rightarrow> string + mig_env" where
  "find_primary v allow_pin answer e =
     (case answer of
        Inl err \<Rightarrow>
          (if \<not> allow_pin then Inl (''discover the Strimzi operators (is the cluster reachable? kubectl cluster-info): '' @ err)
           else plan_against_pin v (Some err) e)
      | Inr ops \<Rightarrow>
          (let e1 = e\<lparr>me_operators := ops\<rparr>
           in if ops = [] then
                (if \<not> allow_pin then
                   Inl (''no Strimzi Cluster Operator found on this cluster (no pod labelled strimzi.io/kind=cluster-operator) '' @ dash @ '' run kates deploy first'')
                 else plan_against_pin v None e1)
              else
                (case pick_primary_operator ops (tg_namespace (me_target e)) of
                   Inl err \<Rightarrow> Inl err
                 | Inr p \<Rightarrow> Inr (with_primary p e1))))"

definition with_version :: "version \<Rightarrow> mig_env \<Rightarrow> mig_env" where
  "with_version ver e = e\<lparr>me_target := (me_target e)\<lparr>tg_version := ver\<rparr>\<rparr>"

definition with_note :: "string \<Rightarrow> mig_env \<Rightarrow> mig_env" where
  "with_note n e = e\<lparr>me_notes := me_notes e @ [n]\<rparr>"

text \<open>The target's version, from the window where the Kafka resource does not tell.\<close>

definition settle_version :: "bool \<Rightarrow> mig_env \<Rightarrow> string + mig_env" where
  "settle_version allow_pin e =
     (let t = me_target e; named = ''Kafka '' @ dq # tg_cluster t @ [dq]
      in if \<not> tg_found t \<and> \<not> allow_pin
         then Inl (''no '' @ named @ '' in namespace '' @ tg_namespace t @ '' '' @ dash @ '' the target must exist before a lab is created (kates deploy)'')
         else
           (let e1 = (if tg_found t then e
                      else
                        (let e0 = (case newest (me_window e) of Some n \<Rightarrow> with_version n e | None \<Rightarrow> e)
                         in with_note (''no '' @ named @ '' in '' @ tg_namespace t @ '': planned against the newest version of the window, '' @
                              version_string (tg_version (me_target e0))) e0))
            in Inr (if tg_version (me_target e1) = zero_version
                    then (case newest (me_window e1) of
                            Some n \<Rightarrow> with_note (''Kafka '' @ tg_cluster t @ '' states no version: assuming the operator's default, '' @ version_string n) (with_version n e1)
                          | None \<Rightarrow> e1)
                    else e1)))"

definition discover_migrate_env :: "env_outside \<Rightarrow> string \<Rightarrow> string \<Rightarrow> bool \<Rightarrow> io \<Rightarrow> (string + mig_env) \<times> io" where
  "discover_migrate_env v cluster ns allow_pin io =
     (case eo_pins v of
        Inl e \<Rightarrow> (Inl e, io)
      | Inr pins \<Rightarrow>
          (let t = \<lparr>tg_cluster = cluster, tg_namespace = ns, tg_found = False, tg_version = zero_version, tg_ready = False, tg_brokers = 0, tg_secret = False\<rparr>;
               e0 = \<lparr>me_operators = [], me_primary = None, me_scope = [], me_window = [], me_strimzi = [], me_operator_ns = [], me_target = t,
                     me_is_kind = False, me_pins = pins, me_from_pin = False, me_notes = []\<rparr>;
               (answer, io1) = installed_operators (eo_reading v) (eo_world v) io
           in (case find_primary v allow_pin answer e0 of
                 Inl err \<Rightarrow> (Inl err, io1)
               | Inr e1 \<Rightarrow>
                   (case read_target v t io1 of
                      (failed, t1, io2) \<Rightarrow>
                        (let e2 = e1\<lparr>me_scope := primary_scope (me_primary e1), me_target := t1\<rparr>
                         in if failed \<noteq> None \<and> \<not> allow_pin then (Inl (the failed), io2)
                            else
                              (case settle_version allow_pin (case failed of Some err \<Rightarrow> with_note err e2 | None \<Rightarrow> e2) of
                                 Inl err \<Rightarrow> (Inl err, io2)
                               | Inr e3 \<Rightarrow>
                                   (case migrate_detect_kind (eo_world v) io2 of (kind, io3) \<Rightarrow> (Inr (e3\<lparr>me_is_kind := kind\<rparr>), io3))))))))"

section \<open>The flags\<close>

record pair_flags =
  pf_from :: "string list"
  pf_to :: string
  pf_name :: string
  pf_provider :: string
  pf_source_strimzi :: string
  pf_policy :: string
  pf_topics :: string
  pf_messages :: int
  pf_sasl :: bool
  pf_plaintext :: bool
  pf_read_only :: bool
  pf_registry :: string
  pf_timeout :: int
  pf_source_version :: string

datatype pair_error =
    PairText string
  | PairVersion string version_error
  | PairLab lab_error

definition migrate_default_timeout :: int where "migrate_default_timeout = 600"

definition pair_timeout :: "pair_flags \<Rightarrow> int" where
  "pair_timeout f = (if pf_timeout f \<le> 0 then migrate_default_timeout * one_second else seconds (pf_timeout f))"

fun parse_froms :: "string list \<Rightarrow> pair_error + version list" where
  "parse_froms [] = Inr []"
| "parse_froms (s # ss) =
     (case parse_version s of
        Inl e \<Rightarrow> Inl (PairVersion ''--from: '' e)
      | Inr v \<Rightarrow> (case parse_froms ss of Inl e \<Rightarrow> Inl e | Inr vs \<Rightarrow> Inr (v # vs)))"

definition parse_migrate_pair_flags :: "pair_flags \<Rightarrow> pair_error + version list" where
  "parse_migrate_pair_flags f =
     (let given = (if pf_from f = [] \<and> pf_source_version f \<noteq> [] then [pf_source_version f] else pf_from f)
      in if given = [] then Inl (PairText ''--from is required: the source Kafka version, x.y.z (kates migrate pairs lists the candidates)'')
         else
           (case parse_froms given of
              Inl e \<Rightarrow> Inl e
            | Inr froms \<Rightarrow>
                (if pf_sasl f \<and> pf_plaintext f then Inl (PairText ''--sasl and --plaintext are mutually exclusive'')
                 else if pf_provider f \<notin> {[], ''auto'', provider_name ProviderStrimzi, provider_name ProviderLegacy}
                 then Inl (PairText (''--source-provider '' @ dq # pf_provider f @ dq # '': want auto, strimzi or legacy''))
                 else Inr froms)))"

section \<open>Who runs a source\<close>

datatype from_category = FromInWindow | FromDroppedLine | FromLegacyOnly | FromUnlisted

definition same_operator :: "operator \<Rightarrow> operator option \<Rightarrow> bool" where
  "same_operator p primary \<longleftrightarrow> (case primary of Some q \<Rightarrow> st_namespace p = st_namespace q \<and> st_deployment p = st_deployment q | None \<Rightarrow> False)"

definition classify_from :: "version \<Rightarrow> mig_env \<Rightarrow> from_category \<times> operator option" where
  "classify_from v e =
     (if supports (me_window e) v then (FromInWindow, None)
      else
        (case find (\<lambda>p. \<not> same_operator p (me_primary e) \<and> st_scope p = watches_namespaces \<and> supports (st_window p) v) (me_operators e) of
           Some p \<Rightarrow> (FromDroppedLine, Some p)
         | None \<Rightarrow>
             (let oldest = (case me_window e of x # xs \<Rightarrow> x | [] \<Rightarrow> zero_version)
              in (if oldest = zero_version then FromLegacyOnly
                  else if major v < major oldest then FromLegacyOnly
                  else if version_less v oldest then FromDroppedLine
                  else FromUnlisted, None))))"

definition cluster_scope_sentence :: "version \<Rightarrow> mig_env \<Rightarrow> string" where
  "cluster_scope_sentence v e =
     ''Kafka '' @ version_string v @ '' cannot run under Strimzi '' @ me_strimzi e @ '', the cluster-wide operator on this cluster (supported: '' @
     window_string (me_window e) @ ''). A cluster-wide operator watches every namespace, so no second Strimzi can be installed beside it.''"

definition cluster_scope_refusal :: "version \<Rightarrow> mig_env \<Rightarrow> string" where
  "cluster_scope_refusal v e =
     cluster_scope_sentence v e @ nl #
     ''  - run it without an operator:   kates migrate up --from '' @ version_string v @ '' --source-provider legacy'' @ nl #
     ''  - or give it its own operator, which needs namespace-scoped operators:'' @ nl #
     ''        kates deploy --operator-scope namespace'' @ nl #
     ''        kates migrate up --from '' @ version_string v @ '' --source-provider strimzi --source-strimzi-version <an operator whose window has '' @
     version_string v @ '' '' @ dash @ '' kates versions strimzi lists them>''"

definition no_strimzi_reason :: "version \<Rightarrow> mig_env \<Rightarrow> string" where
  "no_strimzi_reason v e =
     ''No Strimzi that can sit beside this platform's CRDs runs Kafka '' @ version_string v @
     '': the operators that ran the 2.x and 3.x lines serve the v1beta2 API only, this platform renders v1, and the cluster's Strimzi '' @
     me_strimzi e @ '' supports '' @ window_string (me_window e) @
     ''. The legacy-kafka chart (plain StatefulSets, no operator) is the design for it, not a fallback.''"

definition legacy_mode_words :: "legacy_mode \<Rightarrow> string" where
  "legacy_mode_words m =
     (case m of
        LegacyZooKeeper \<Rightarrow> ''ZooKeeper, built image''
      | LegacyKRaftBuilt \<Rightarrow> ''KRaft, built image''
      | LegacyKRaftOfficial \<Rightarrow> ''KRaft, official apache/kafka image'')"

record resolved_source =
  rv_from :: version
  rv_provider :: provider
  rv_mode :: "legacy_mode option"
  rv_line :: string
  rv_operator :: "operator option"

text \<open>What resolving a pair tells the user.\<close>

record resolution =
  rs_sources :: "resolved_source list"
  rs_notes :: "string list"
  rs_warnings :: "string list"
  rs_unimplemented :: "string list"
  rs_additional :: bool

definition noting :: "string \<Rightarrow> resolution \<Rightarrow> resolution" where
  "noting n r = r\<lparr>rs_notes := rs_notes r @ [n]\<rparr>"

definition lacking :: "string \<Rightarrow> resolution \<Rightarrow> resolution" where
  "lacking n r = r\<lparr>rs_unimplemented := rs_unimplemented r @ [n]\<rparr>"

definition legacy_line :: string where
  "legacy_line = ''none '' @ dash @ '' plain StatefulSets from charts/legacy-kafka''"

definition run_legacy :: "version \<Rightarrow> operator option \<Rightarrow> resolved_source" where
  "run_legacy v p = \<lparr>rv_from = v, rv_provider = ProviderLegacy, rv_mode = Some (legacy_mode_for v), rv_line = legacy_line, rv_operator = p\<rparr>"

definition run_strimzi :: "version \<Rightarrow> operator option \<Rightarrow> string \<Rightarrow> resolved_source" where
  "run_strimzi v p l = \<lparr>rv_from = v, rv_provider = ProviderStrimzi, rv_mode = None, rv_line = l, rv_operator = p\<rparr>"

definition legacy_words_of :: "version \<Rightarrow> string" where
  "legacy_words_of v = legacy_mode_words (legacy_mode_for v)"

definition in_window_line :: "mig_env \<Rightarrow> string" where
  "in_window_line e =
     ''Strimzi '' @ me_strimzi e @
     (if me_scope e = scope_namespace then '', a co-located operator at the primary's version in its own namespace''
      else '', the primary's operator (cluster-wide)'')"

definition dropped_line :: "mig_env \<Rightarrow> pair_flags \<Rightarrow> version \<Rightarrow> operator option \<Rightarrow> string" where
  "dropped_line e f v other =
     (if pf_source_strimzi f \<noteq> []
      then ''Strimzi '' @ pf_source_strimzi f @ '', co-located in the source's namespace (older than the primary's '' @ me_strimzi e @ '')''
      else
        (case other of
           Some p \<Rightarrow> ''Strimzi '' @ st_version p @ '' in '' @ st_namespace p @ '', an installed namespace-scoped operator whose window has '' @ version_string v
         | None \<Rightarrow> ''the newest eligible Strimzi whose window has '' @ version_string v @
             '' (kates versions strimzi lists them; --source-strimzi-version chooses one)''))"

definition use_legacy :: "version \<Rightarrow> string" where
  "use_legacy v =
     '' is not yet implemented in this version '' @ dash @ '' use --source-provider legacy to run it under the legacy-kafka chart ('' @
     legacy_words_of v @ '', no operator)''"

definition resolve_migrate_source ::
  "mig_env \<Rightarrow> pair_flags \<Rightarrow> version \<Rightarrow> resolution \<Rightarrow> pair_error + resolved_source \<times> resolution" where
  "resolve_migrate_source e f v res =
     (case provider_for v (me_window e) of
        Inl err \<Rightarrow> Inl (PairVersion (''--from '' @ version_string v @ '' refused: '') err)
      | Inr ignored \<Rightarrow>
          (let (category, other) = classify_from v e; strimzi_asked = (pf_provider f = provider_name ProviderStrimzi)
           in if pf_provider f = provider_name ProviderLegacy then
                Inr (run_legacy v other,
                  if category = FromInWindow
                  then noting (''Kafka '' @ version_string v @ '' is in the primary operator's window ('' @ window_string (me_window e) @
                    ''); running it under the legacy-kafka chart as asked ('' @ legacy_words_of v @ '', no operator)'') res
                  else res)
              else
                (case category of
                   FromInWindow \<Rightarrow>
                     Inr (run_strimzi v other (in_window_line e),
                       lacking (''a Strimzi source (Kafka '' @ version_string v @ '' is in the primary operator's window '' @
                         window_string (me_window e) @ '')'' @ use_legacy v) res)
                 | FromDroppedLine \<Rightarrow>
                     (if me_scope e = scope_cluster then
                        (if strimzi_asked then Inl (PairText (cluster_scope_refusal v e))
                         else Inr (run_legacy v other,
                           noting (cluster_scope_sentence v e @ '' The source runs under the legacy-kafka chart instead ('' @ legacy_words_of v @ '').'') res))
                      else
                        Inr (run_strimzi v other (dropped_line e f v other),
                          lacking (''a Strimzi source under its own operator (Kafka '' @ version_string v @ '', the dropped line beside the '' @
                            me_strimzi e @ '' primary)'' @ use_legacy v) res))
                 | _ \<Rightarrow>
                     (if strimzi_asked then
                        Inl (PairText (no_strimzi_reason v e @ nl # ''  Run it without an operator: kates migrate up --from '' @ version_string v @
                          '' --source-provider legacy''))
                      else Inr (run_legacy v other, noting (no_strimzi_reason v e) res)))))"

fun resolve_sources :: "mig_env \<Rightarrow> pair_flags \<Rightarrow> version list \<Rightarrow> resolution \<Rightarrow> pair_error + resolved_source list \<times> resolution" where
  "resolve_sources e f [] res = Inr ([], res)"
| "resolve_sources e f (v # vs) res =
     (case resolve_migrate_source e f v res of
        Inl err \<Rightarrow> Inl err
      | Inr (r, res1) \<Rightarrow> (case resolve_sources e f vs res1 of Inl err \<Rightarrow> Inl err | Inr (rs, res2) \<Rightarrow> Inr (r # rs, res2)))"

section \<open>The target and the lab\<close>

definition outside_window_hint :: string where
  "outside_window_hint =
     ''  A newer target needs a newer operator: kates deploy --strimzi-version <v> (kates versions strimzi lists them);'' @ nl #
     ''  an older one is a source, not a target.''"

definition resolve_target_version :: "mig_env \<Rightarrow> pair_flags \<Rightarrow> resolution \<Rightarrow> pair_error + version \<times> bool \<times> resolution" where
  "resolve_target_version e f res =
     (let current = tg_version (me_target e);
          settled = (\<lambda>v primary r.
            if v = zero_version then Inl (PairText ''the target's Kafka version is unknown: pass --to, or deploy the primary first'') else Inr (v, primary, r))
      in if pf_to f = [] then settled current True res
         else
           (case parse_version (pf_to f) of
              Inl err \<Rightarrow> Inl (PairVersion ''--to: '' err)
            | Inr v \<Rightarrow>
                (if v = current then settled v True res
                 else if \<not> supports (me_window e) v then
                   Inl (PairText (''--to '' @ version_string v @ '' is not in the primary operator's window (Strimzi '' @ me_strimzi e @ '' supports: '' @
                     window_string (me_window e) @ '').'' @ nl # outside_window_hint))
                 else
                   settled v False
                     (lacking (''an additional target (Kafka '' @ version_string v @ '' beside the '' @ version_string current @
                       '' primary, reconciled by the primary's operator) is not yet implemented in this version '' @ dash @
                       '' omit --to to migrate onto the primary'') (res\<lparr>rs_additional := True\<rparr>)))))"

definition mode_text :: "legacy_mode option \<Rightarrow> string" where
  "mode_text m = (case m of Some x \<Rightarrow> mode_name x | None \<Rightarrow> [])"

definition operator_for :: "pair_flags \<Rightarrow> resolved_source \<Rightarrow> string" where
  "operator_for f r =
     (if pf_source_strimzi f = [] then (case rv_operator r of Some p \<Rightarrow> st_version p | None \<Rightarrow> []) else pf_source_strimzi f)"

definition fan_spec :: "pair_flags \<Rightarrow> resolved_source \<Rightarrow> source_spec" where
  "fan_spec f r =
     \<lparr>sp_from = rv_from r, sp_provider = provider_name (rv_provider r), sp_mode = mode_text (rv_mode r),
      sp_strimzi = (if rv_provider r = ProviderStrimzi then operator_for f r else [])\<rparr>"

text \<open>\<open>mirror\<close>: \<open>imageRegistry()\<close>.\<close>

definition migrate_pair_options :: "string \<Rightarrow> mig_env \<Rightarrow> pair_flags \<Rightarrow> resolved_source \<Rightarrow> resolved_source list \<Rightarrow> version \<Rightarrow> bool \<Rightarrow> options" where
  "migrate_pair_options mirror e f first rest to' primary =
     \<lparr>op_name = pf_name f, op_from = rv_from first, op_to = to', op_provider = provider_name (rv_provider first),
      op_mode = mode_text (rv_mode first),
      op_source_strimzi = (if rv_provider first = ProviderStrimzi then operator_for f first else pf_source_strimzi f),
      op_also_from = map (fan_spec f) rest, op_read_only = pf_read_only f, op_target_is_primary = primary,
      op_target_cluster = (if primary then tg_cluster (me_target e) else []),
      op_target_namespace = (if primary then tg_namespace (me_target e) else []),
      op_policy = pf_policy f, op_topics = split_topics (pf_topics f), op_messages = pf_messages f, op_sasl = pf_sasl f,
      op_password = [], op_tls = False, op_registry = pf_registry f, op_image_mirror = mirror, op_strimzi = me_strimzi e, op_scope = me_scope e\<rparr>"

definition empty_resolution :: resolution where
  "empty_resolution = \<lparr>rs_sources = [], rs_notes = [], rs_warnings = [], rs_unimplemented = [], rs_additional = False\<rparr>"

definition warn_direction :: "version \<Rightarrow> version \<Rightarrow> resolution \<Rightarrow> resolution" where
  "warn_direction from' to' res =
     (if version_less from' to' then res
      else res\<lparr>rs_warnings := rs_warnings res @
        [''--from '' @ version_string from' @ '' is not older than --to '' @ version_string to' @ '' '' @ dash @
         '' MirrorMaker does not care about direction, only the user does'']\<rparr>)"

definition resolve_migrate_pair ::
  "(nat \<Rightarrow> string option) \<Rightarrow> string \<Rightarrow> mig_env \<Rightarrow> pair_flags \<Rightarrow> pair_error + lab \<times> resolution" where
  "resolve_migrate_pair rand mirror e f =
     (case parse_migrate_pair_flags f of
        Inl err \<Rightarrow> Inl err
      | Inr froms \<Rightarrow>
          (case resolve_sources e f froms empty_resolution of
             Inl err \<Rightarrow> Inl err
           | Inr (rs, res) \<Rightarrow>
               (case resolve_target_version e f (res\<lparr>rs_sources := rs\<rparr>) of
                  Inl err \<Rightarrow> Inl err
                | Inr (to', primary, res1) \<Rightarrow>
                    (case new_lab rand (migrate_pair_options mirror e f (hd rs) (tl rs) to' primary) of
                       Inl err \<Rightarrow> Inl (PairLab err)
                     | Inr l \<Rightarrow> Inr (l, warn_direction (hd froms) to' res1)))))"

section \<open>The rules of a source\<close>

text \<open>
  Which versions an operator can run: those of the primary's window; and, unless the operators are cluster-wide, those of a
  dropped line, beside the primary: a version that another namespace-scoped operator of the cluster supports, or one of the
  window's major line or later that is older than all of the window.
\<close>

definition of_dropped_line :: "mig_env \<Rightarrow> version \<Rightarrow> bool" where
  "of_dropped_line e v \<longleftrightarrow>
     (\<exists>p\<in>set (me_operators e). \<not> same_operator p (me_primary e) \<and> st_scope p = watches_namespaces \<and> v \<in> set (st_window p)) \<or>
     (\<exists>oldest newer. me_window e = oldest # newer \<and> oldest \<noteq> zero_version \<and> major oldest \<le> major v \<and> version_less v oldest)"

definition operator_can_run :: "mig_env \<Rightarrow> version \<Rightarrow> bool" where
  "operator_can_run e v \<longleftrightarrow> v \<in> set (me_window e) \<or> me_scope e \<noteq> scope_cluster \<and> of_dropped_line e v"

lemma classify_in_window: "fst (classify_from v e) = FromInWindow \<longleftrightarrow> v \<in> set (me_window e)"
  by (auto simp: classify_from_def supports_def Let_def split: option.splits list.splits)

lemma classify_dropped: "v \<notin> set (me_window e) \<Longrightarrow> fst (classify_from v e) = FromDroppedLine \<longleftrightarrow> of_dropped_line e v"
  by (cases "me_window e")
    (auto simp: classify_from_def of_dropped_line_def supports_def find_None_iff find_Some_iff Let_def not_less split: option.splits)

lemma classify_operator:
  "snd (classify_from v e) = Some p \<Longrightarrow> p \<in> set (me_operators e) \<and> st_scope p = watches_namespaces \<and> v \<in> set (st_window p)"
  by (auto simp: classify_from_def supports_def find_Some_iff Let_def split: option.splits if_splits)

lemma source_ruled:
  "(case resolve_migrate_source e f v res of
      Inl err \<Rightarrow> version_less v min_mirror_source \<or> pf_provider f = ''strimzi'' \<and> \<not> operator_can_run e v
    | Inr (r, res') \<Rightarrow>
        at_least v min_mirror_source \<and> (pf_provider f = ''strimzi'' \<longrightarrow> operator_can_run e v) \<and>
        rv_from r = v \<and> rs_sources res' = rs_sources res \<and> rs_additional res' = rs_additional res \<and>
        (if pf_provider f \<noteq> ''legacy'' \<and> operator_can_run e v
         then rv_provider r = ProviderStrimzi \<and> rv_mode r = None \<and> (\<exists>m. rs_unimplemented res' = rs_unimplemented res @ [m])
         else rv_provider r = ProviderLegacy \<and> rv_mode r = Some (legacy_mode_for v) \<and> rs_unimplemented res' = rs_unimplemented res) \<and>
        (\<forall>p. rv_operator r = Some p \<longrightarrow>
           p \<in> set (me_operators e) \<and> st_scope p = watches_namespaces \<and> v \<in> set (st_window p)))"
proof (cases "version_less v min_mirror_source")
  case True
  then show ?thesis by (simp add: resolve_migrate_source_def provider_for_def)
next
  case False
  then have "\<exists>ok. provider_for v (me_window e) = Inr ok" by (simp add: provider_for_def)
  then obtain ok where ok: "provider_for v (me_window e) = Inr ok" by blast
  have floor: "at_least v min_mirror_source" using False by (simp add: at_least_not_less)
  obtain cat other where c: "classify_from v e = (cat, other)" by fastforce
  have can: "operator_can_run e v \<longleftrightarrow> cat = FromInWindow \<or> cat = FromDroppedLine \<and> me_scope e \<noteq> scope_cluster"
    using classify_in_window [of v e] classify_dropped [of v e] by (auto simp: operator_can_run_def c)
  have beside: "other = Some p \<Longrightarrow> p \<in> set (me_operators e) \<and> st_scope p = watches_namespaces \<and> v \<in> set (st_window p)" for p
    using classify_operator [of v e p] by (simp add: c)
  note defs = resolve_migrate_source_def provider_name_def run_legacy_def run_strimzi_def noting_def lacking_def
  show ?thesis
  proof (cases "pf_provider f = ''legacy''")
    case True
    then show ?thesis using floor beside by (simp add: defs ok c can)
  next
    case asked: False
    then show ?thesis using floor beside
      by (cases cat; cases "me_scope e = scope_cluster"; cases "pf_provider f = ''strimzi''") (simp_all add: defs ok c can)
  qed
qed

text \<open>
  C26. Who runs a source, in full. It is refused exactly when its version is below the mirror's floor, or an operator was asked
  for and none can run it. Otherwise the source is the version asked for. An operator runs it, which is noted as not
  implemented, when legacy was not asked for and an operator can; in every other case the legacy chart runs it, in the mode
  of its version, and nothing is noted as not implemented. The operator beside the primary that is named, if any, is one of
  the cluster's that supports the version.
\<close>
theorem source_rules:
  "(case resolve_migrate_source e f v res of
      Inl err \<Rightarrow> version_less v min_mirror_source \<or> pf_provider f = ''strimzi'' \<and> \<not> operator_can_run e v
    | Inr (r, res') \<Rightarrow>
        at_least v min_mirror_source \<and> (pf_provider f = ''strimzi'' \<longrightarrow> operator_can_run e v) \<and>
        rv_from r = v \<and> rs_sources res' = rs_sources res \<and> rs_additional res' = rs_additional res \<and>
        (if pf_provider f \<noteq> ''legacy'' \<and> operator_can_run e v
         then rv_provider r = ProviderStrimzi \<and> rv_mode r = None \<and> (\<exists>m. rs_unimplemented res' = rs_unimplemented res @ [m])
         else rv_provider r = ProviderLegacy \<and> rv_mode r = Some (legacy_mode_for v) \<and> rs_unimplemented res' = rs_unimplemented res) \<and>
        (\<forall>p. rv_operator r = Some p \<longrightarrow>
           p \<in> set (me_operators e) \<and> st_scope p = watches_namespaces \<and> v \<in> set (st_window p)))"
  by (rule source_ruled)

text \<open>What each resolved source is, over a list of versions.\<close>

definition source_chosen :: "version \<Rightarrow> resolved_source \<Rightarrow> bool" where
  "source_chosen v r \<longleftrightarrow> rv_from r = v \<and> at_least v min_mirror_source \<and>
     (rv_provider r = ProviderLegacy \<and> rv_mode r = Some (legacy_mode_for v) \<or> rv_provider r = ProviderStrimzi \<and> rv_mode r = None)"

lemma source_step:
  assumes "resolve_migrate_source e f v res = Inr (r, res')"
  shows "source_chosen v r" "\<exists>ms. rs_unimplemented res' = rs_unimplemented res @ ms \<and> (ms = [] \<longrightarrow> rv_provider r = ProviderLegacy)"
    "rs_sources res' = rs_sources res" "pf_provider f = ''legacy'' \<Longrightarrow> rs_unimplemented res' = rs_unimplemented res"
  using source_ruled [where e = e and f = f and v = v and res = res] assms by (auto simp: source_chosen_def split: if_splits)

lemma sources_step:
  "resolve_sources e f vs res = Inr (rs, res') \<Longrightarrow> list_all2 source_chosen vs rs \<and>
     (\<exists>ms. rs_unimplemented res' = rs_unimplemented res @ ms \<and> (ms = [] \<longrightarrow> list_all (\<lambda>r. rv_provider r = ProviderLegacy) rs)) \<and>
     (pf_provider f = ''legacy'' \<longrightarrow> rs_unimplemented res' = rs_unimplemented res)"
proof (induction vs arbitrary: res rs)
  case (Cons v vs)
  obtain r res1 rs1 where a: "resolve_migrate_source e f v res = Inr (r, res1)" "resolve_sources e f vs res1 = Inr (rs1, res')" "rs = r # rs1"
    using Cons.prems by (auto split: sum.splits)
  note one = source_step [OF a(1)] and rest = Cons.IH [OF a(2)]
  obtain ms where ms: "rs_unimplemented res1 = rs_unimplemented res @ ms" "ms = [] \<longrightarrow> rv_provider r = ProviderLegacy" using one(2) by blast
  obtain ns where ns: "rs_unimplemented res' = rs_unimplemented res1 @ ns" "ns = [] \<longrightarrow> list_all (\<lambda>r. rv_provider r = ProviderLegacy) rs1" using rest by blast
  have "rs_unimplemented res' = rs_unimplemented res @ (ms @ ns)" using ms ns by simp
  then show ?case using one(1,4) rest a(3) ms(2) ns(2) by auto
qed simp

lemma target_step:
  assumes "resolve_target_version e f res = Inr (v, primary, res')"
  shows "v \<noteq> zero_version" "rs_unimplemented res' = [] \<Longrightarrow> rs_unimplemented res = [] \<and> primary \<and> v = tg_version (me_target e)"
    "pf_to f = [] \<Longrightarrow> rs_unimplemented res' = rs_unimplemented res"
    "primary \<or> supports (me_window e) v"
  using assms by (auto simp: resolve_target_version_def lacking_def Let_def split: if_splits sum.splits)

text \<open>The parts of a pair that resolved.\<close>

lemma pair_parts:
  assumes "resolve_migrate_pair rand mirror e f = Inr (l, res)"
  obtains froms rs r0 res0 res1 to' primary where "parse_migrate_pair_flags f = Inr froms" "resolve_sources e f froms empty_resolution = Inr (rs, res0)"
    "resolve_target_version e f (res0\<lparr>rs_sources := rs\<rparr>) = Inr (to', primary, res1)"
    "new_lab rand (migrate_pair_options mirror e f (hd rs) (tl rs) to' primary) = Inr l" "rs_unimplemented res = rs_unimplemented res1" "froms \<noteq> []"
proof -
  obtain froms where p: "parse_migrate_pair_flags f = Inr froms" using assms by (auto simp: resolve_migrate_pair_def split: sum.splits)
  have "vs \<noteq> []" if "parse_froms ss = Inr vs" "ss \<noteq> []" for ss vs using that by (cases ss) (auto split: sum.splits)
  then have ne: "froms \<noteq> []" using p by (auto simp: parse_migrate_pair_flags_def Let_def split: if_splits sum.splits)
  obtain rs res0 where r: "resolve_sources e f froms empty_resolution = Inr (rs, res0)" using assms p by (auto simp: resolve_migrate_pair_def split: sum.splits)
  obtain to' primary res1 where t: "resolve_target_version e f (res0\<lparr>rs_sources := rs\<rparr>) = Inr (to', primary, res1)"
    using assms p r by (auto simp: resolve_migrate_pair_def split: sum.splits)
  have "new_lab rand (migrate_pair_options mirror e f (hd rs) (tl rs) to' primary) = Inr l" "res = warn_direction (hd froms) to' res1"
    using assms p r t by (auto simp: resolve_migrate_pair_def split: sum.splits)
  then show ?thesis using that [OF p r t] ne by (simp add: warn_direction_def split: if_splits)
qed

section \<open>The lab of a pair\<close>

lemma new_lab_target:
  assumes "new_lab rand o' = Inr l"
  shows "op_to l = op_to o'" "op_target_cluster o' \<noteq> [] \<Longrightarrow> op_target_cluster l = op_target_cluster o'"
    "op_target_namespace o' \<noteq> [] \<Longrightarrow> op_target_namespace l = op_target_namespace o'"
proof -
  obtain specs n sources where n: "normalise_options (o'\<lparr>op_provider := sp_provider (hd specs), op_mode := sp_mode (hd specs), op_also_from := tl specs,
        op_name := (if op_name o' = [] then default_name_for (map sp_from specs) (op_to o') else op_name o')\<rparr>) = Inr n"
    and l: "l = lab_with n sources"
    by (rule new_lab_Inr [OF assms]) blast
  have lab: "op_to l = op_to n" "op_target_cluster l = op_target_cluster n" "op_target_namespace l = op_target_namespace n"
    by (simp_all add: l lab_with_def options.extend_def Let_def)
  show "op_to l = op_to o'" using lab(1) normalise_options_ok(12) [OF n] by simp
  show "op_target_cluster o' \<noteq> [] \<Longrightarrow> op_target_cluster l = op_target_cluster o'"
    "op_target_namespace o' \<noteq> [] \<Longrightarrow> op_target_namespace l = op_target_namespace o'"
    using n lab(2,3) by (auto simp: normalise_options_def Let_def split: if_splits option.splits)
qed

text \<open>A source the legacy chart runs, as the lab has it.\<close>

definition runs_legacy :: "version \<Rightarrow> lab_source \<Rightarrow> bool" where
  "runs_legacy v x \<longleftrightarrow> so_from x = v \<and> at_least v min_mirror_source \<and> so_provider x = provider_name ProviderLegacy \<and>
     so_mode x = mode_name (legacy_mode_for v)"

lemma legacy_spec_kept:
  assumes "normalise_spec s = Inr t" "sp_provider s = provider_name ProviderLegacy" "sp_mode s = mode_name m"
  shows "sp_provider t = provider_name ProviderLegacy \<and> sp_mode t = mode_name m \<and> sp_from t = sp_from s"
proof -
  have "mode_name m \<noteq> []" "mode_name m \<in> {mode_name LegacyZooKeeper, mode_name LegacyKRaftBuilt, mode_name LegacyKRaftOfficial}"
    by (cases m; simp add: mode_name_def)+
  then show ?thesis using assms by (auto simp: normalise_spec_def provider_name_def Let_def split: if_splits)
qed

lemma legacy_specs:
  assumes "list_all2 source_chosen vs rs" "list_all (\<lambda>r. rv_provider r = ProviderLegacy) rs" "rs \<noteq> []"
  shows "list_all2 (\<lambda>v s. sp_from s = v \<and> at_least v min_mirror_source \<and> sp_provider s = provider_name ProviderLegacy \<and> sp_mode s = mode_name (legacy_mode_for v))
    vs (specs_of (migrate_pair_options mirror e f (hd rs) (tl rs) to' primary))"
proof -
  have one: "sp_from s = v \<and> at_least v min_mirror_source \<and> sp_provider s = provider_name ProviderLegacy \<and> sp_mode s = mode_name (legacy_mode_for v)"
    if "source_chosen v r" "rv_provider r = ProviderLegacy" "sp_from s = rv_from r" "sp_provider s = provider_name (rv_provider r)" "sp_mode s = mode_text (rv_mode r)"
    for v r s using that by (auto simp: source_chosen_def mode_text_def)
  have rest: "list_all2 (\<lambda>v s. sp_from s = v \<and> at_least v min_mirror_source \<and> sp_provider s = provider_name ProviderLegacy \<and> sp_mode s = mode_name (legacy_mode_for v))
      us (map (fan_spec f) qs)" if "list_all2 source_chosen us qs" "list_all (\<lambda>r. rv_provider r = ProviderLegacy) qs" for us qs
    using that
  proof (induction us qs rule: list_all2_induct)
    case (Cons v vs r rs)
    then show ?case using one [of v r "fan_spec f r"] by (simp add: fan_spec_def)
  qed simp
  obtain v us r qs where c: "vs = v # us" "rs = r # qs" "source_chosen v r" "list_all2 source_chosen us qs"
    using assms(1,3) by (cases rs) (auto simp: list_all2_Cons2)
  obtain s where s: "specs_of (migrate_pair_options mirror e f (hd rs) (tl rs) to' primary) = s # map (fan_spec f) qs" "sp_from s = rv_from r"
    "sp_provider s = provider_name (rv_provider r)" "sp_mode s = mode_text (rv_mode r)"
    by (simp add: specs_of_def migrate_pair_options_def c(2))
  have "rv_provider r = ProviderLegacy" "list_all (\<lambda>r. rv_provider r = ProviderLegacy) qs" using assms(2) c(2) by simp_all
  then show ?thesis using one [OF c(3) _ s(2-4)] rest [OF c(4)] unfolding s(1) c(1) by simp
qed

text \<open>
  C6. A pair that resolves with nothing noted as not implemented is one \<open>up\<close> can create: its target is the one that was
  discovered, at the version it runs, its sources are the versions asked for in their order, none below the mirror's floor, and
  each is run by the legacy chart in the mode of its version, so that no source meets the answer that a Strimzi source is not
  implemented.
\<close>
theorem creatable_pair:
  assumes "resolve_migrate_pair rand mirror e f = Inr (l, res)" "rs_unimplemented res = []"
    "tg_cluster (me_target e) \<noteq> []" "tg_namespace (me_target e) \<noteq> []"
  shows "op_target_cluster l = tg_cluster (me_target e) \<and> op_target_namespace l = tg_namespace (me_target e) \<and>
    op_to l = tg_version (me_target e) \<and> op_to l \<noteq> zero_version \<and>
    (\<exists>froms. parse_migrate_pair_flags f = Inr froms \<and> list_all2 runs_legacy froms (lab_sources l))"
proof -
  obtain froms rs res0 res1 to' primary where p: "parse_migrate_pair_flags f = Inr froms" "resolve_sources e f froms empty_resolution = Inr (rs, res0)"
    "resolve_target_version e f (res0\<lparr>rs_sources := rs\<rparr>) = Inr (to', primary, res1)"
    "new_lab rand (migrate_pair_options mirror e f (hd rs) (tl rs) to' primary) = Inr l" "rs_unimplemented res = rs_unimplemented res1" "froms \<noteq> []"
    by (rule pair_parts [OF assms(1)])
  note t = target_step [OF p(3)]
  have un: "rs_unimplemented res0 = []" "primary" "to' = tg_version (me_target e)" using t(2) assms(2) p(5) by simp_all
  note src = sources_step [OF p(2)]
  have legacy: "list_all (\<lambda>r. rv_provider r = ProviderLegacy) rs" using src un(1) by auto
  have ne: "rs \<noteq> []" using src p(6) by auto
  let ?o = "migrate_pair_options mirror e f (hd rs) (tl rs) to' primary"
  note specs = legacy_specs [OF src [THEN conjunct1] legacy ne, of mirror e f to' primary]
  obtain n ts x xs where d: "lab_sources l = x\<lparr>so_tls := op_tls n\<rparr> # xs" "list_all2 (\<lambda>s t. normalise_spec s = Inr t) (specs_of ?o) ts"
    "list_all2 (derived n (''mm2-'' @ op_name n) (1 < length ts)) ts (x # xs)"
    by (rule new_lab_derived [OF p(4)]) blast
  have kept: "list_all2 (\<lambda>v t. sp_from t = v \<and> at_least v min_mirror_source \<and> sp_provider t = provider_name ProviderLegacy \<and> sp_mode t = mode_name (legacy_mode_for v)) froms ts"
    by (rule list_all2_trans [OF _ specs d(2)]) (use legacy_spec_kept in auto)
  have "list_all2 runs_legacy froms (x # xs)"
    by (rule list_all2_trans [OF _ kept d(3)]) (auto simp: runs_legacy_def derived_def)
  then have "list_all2 runs_legacy froms (lab_sources l)" using d(1) by (auto simp: list_all2_Cons2 runs_legacy_def)
  moreover have "op_target_cluster ?o = tg_cluster (me_target e)" "op_target_namespace ?o = tg_namespace (me_target e)" "op_to ?o = tg_version (me_target e)"
    using un by (simp_all add: migrate_pair_options_def)
  ultimately show ?thesis using new_lab_target [OF p(4)] t(1) un(3) assms(3,4) p(1) by auto
qed

text \<open>Asking for the legacy chart without a target version never leaves anything not implemented: what the notes advise works.\<close>

lemma legacy_is_creatable:
  assumes "resolve_migrate_pair rand mirror e f = Inr (l, res)" "pf_provider f = ''legacy''" "pf_to f = []"
  shows "rs_unimplemented res = []"
proof -
  obtain froms rs res0 res1 to' primary where p: "resolve_sources e f froms empty_resolution = Inr (rs, res0)"
    "resolve_target_version e f (res0\<lparr>rs_sources := rs\<rparr>) = Inr (to', primary, res1)" "rs_unimplemented res = rs_unimplemented res1"
    by (rule pair_parts [OF assms(1)]) blast
  show ?thesis using sources_step [OF p(1)] target_step(3) [OF p(2) assms(3)] p(3) assms(2) by (simp add: empty_resolution_def)
qed

text \<open>
  \<open>--source-strimzi-version\<close> is for the Strimzi sources of a fan-in, and of the later ones it reaches only those. The first
  gets it whoever runs it: a fan-in whose first source is legacy is refused for the version another one needs, and accepted in
  the other order.
\<close>

lemma operator_flag_order:
  assumes "rv_provider first = ProviderLegacy" "pf_source_strimzi f \<noteq> []"
  shows "\<exists>err. new_lab rand (migrate_pair_options mirror e f first rest to' primary) = Inl err"
    "sp_strimzi (fan_spec f first) = []"
proof -
  let ?o = "migrate_pair_options mirror e f first rest to' primary"
  have "\<exists>err. normalise_spec (hd (specs_of ?o)) = Inl err"
    using assms by (auto simp: normalise_spec_def specs_of_def migrate_pair_options_def provider_name_def Let_def)
  then have "\<exists>err. normalise_sources ?o = Inl err" by (auto simp: normalise_sources_def specs_of_def)
  then show "\<exists>err. new_lab rand ?o = Inl err" by (auto simp: new_lab_def)
  show "sp_strimzi (fan_spec f first) = []" using assms by (simp add: fan_spec_def)
qed

section \<open>What discovery finds\<close>

lemma primary_unique:
  assumes "pick_primary_operator ops ns = Inr p"
  shows "shape ops \<noteq> ShapeMixed" "p \<in> set ops" "watched_by ns p" "\<forall>q\<in>set ops. watched_by ns q \<longrightarrow> q = p"
proof -
  have f: "filter (watched_by ns) ops = [p]" and "shape ops \<noteq> ShapeMixed"
    using assms by (auto simp: pick_primary_operator_def split: if_splits list.splits)
  then show "shape ops \<noteq> ShapeMixed" by simp
  have s: "set (filter (watched_by ns) ops) = {p}" by (simp add: f)
  show "p \<in> set ops" "watched_by ns p" "\<forall>q\<in>set ops. watched_by ns q \<longrightarrow> q = p" using s by auto
qed

lemma target_named:
  assumes "read_target v t io = (e, t', io')"
  shows "tg_cluster t' = tg_cluster t \<and> tg_namespace t' = tg_namespace t \<and>
    (tg_found t' \<longrightarrow> tg_found t \<or> (\<exists>out. (Command None (kafka_argv t), Inr out) \<in> set (io_log io')))"
proof -
  obtain a io1 where a: "run_command (eo_world v) None (kafka_argv t) io = (a, io1)" by (cases "run_command (eo_world v) None (kafka_argv t) io")
  note ev = run_command_event [OF a]
  show ?thesis
  proof (cases "\<exists>out d ver. a = Inr out \<and> trim_space out \<noteq> [] \<and> eo_kafka v out = Inr d \<and> stated_version v t d = Inr ver")
    case False
    then show ?thesis using assms a ev by (auto simp: read_target_def Let_def split: sum.splits if_splits)
  next
    case True
    then obtain out d ver where o: "a = Inr out" "trim_space out \<noteq> []" "eo_kafka v out = Inr d" "stated_version v t d = Inr ver" by blast
    let ?p = "[''kubectl'', ''-n'', tg_namespace t, ''get'', ''kafkanodepool'', ''-l'', ''strimzi.io/cluster='' @ tg_cluster t, ''-o'', ''json'']"
    let ?s = "[''kubectl'', ''-n'', tg_namespace t, ''get'', ''secret'', target_user, ''--ignore-not-found'', ''-o'', ''jsonpath={.metadata.name}'']"
    obtain b io2 where b: "run_command (eo_world v) None ?p io1 = (b, io2)" by (cases "run_command (eo_world v) None ?p io1")
    obtain c io3 where c: "run_command (eo_world v) None ?s io2 = (c, io3)" by (cases "run_command (eo_world v) None ?s io2")
    have "io' = io3" "tg_cluster t' = tg_cluster t" "tg_namespace t' = tg_namespace t"
      using assms a b c o by (auto simp: read_target_def Let_def split: sum.splits)
    moreover have "(Command None (kafka_argv t), Inr out) \<in> set (io_log io3)"
      using ev o(1) run_command_event [OF b] run_command_event [OF c] by simp
    ultimately show ?thesis by blast
  qed
qed

lemma settled_version:
  assumes "settle_version allow e = Inr e'"
  shows "me_primary e' = me_primary e" "me_operators e' = me_operators e" "me_window e' = me_window e" "me_scope e' = me_scope e"
    "tg_cluster (me_target e') = tg_cluster (me_target e)" "tg_namespace (me_target e') = tg_namespace (me_target e)"
    "tg_found (me_target e') = tg_found (me_target e)" "\<not> allow \<Longrightarrow> tg_found (me_target e)" "me_from_pin e' = me_from_pin e"
  using assms by (auto simp: settle_version_def with_version_def with_note_def Let_def split: if_splits option.splits)

lemma settled_known: "settle_version allow e = Inr e' \<Longrightarrow> newest (me_window e) = Some n \<Longrightarrow> n \<noteq> zero_version \<Longrightarrow> tg_version (me_target e') \<noteq> zero_version"
  by (auto simp: settle_version_def with_version_def with_note_def Let_def split: if_splits option.splits)

text \<open>
  C20. An environment a lab can be created in: discovery without the pin ends well only where exactly one operator reconciles
  the target's namespace, no cluster-wide operator stands beside namespace-scoped ones, and a Kafka resource of the target's
  name was listed; the window and the scope are that operator's, never the pin's, and the version is known when the window has
  any.
\<close>
theorem discovered_env:
  assumes "discover_migrate_env v cluster ns False io = (Inr e, io')"
  shows "\<exists>p. me_primary e = Some p \<and> p \<in> set (me_operators e) \<and> watched_by ns p \<and> (\<forall>q\<in>set (me_operators e). watched_by ns q \<longrightarrow> q = p) \<and>
    shape (me_operators e) \<noteq> ShapeMixed \<and> me_window e = st_window p \<and> me_scope e = primary_scope (Some p) \<and> \<not> me_from_pin e \<and>
    tg_found (me_target e) \<and> tg_cluster (me_target e) = cluster \<and> tg_namespace (me_target e) = ns \<and>
    (\<forall>n. newest (me_window e) = Some n \<and> n \<noteq> zero_version \<longrightarrow> tg_version (me_target e) \<noteq> zero_version)"
proof -
  let ?t = "\<lparr>tg_cluster = cluster, tg_namespace = ns, tg_found = False, tg_version = zero_version, tg_ready = False, tg_brokers = 0, tg_secret = False\<rparr>"
  obtain pins where pins: "eo_pins v = Inr pins" using assms by (auto simp: discover_migrate_env_def split: sum.splits)
  let ?e0 = "\<lparr>me_operators = [], me_primary = None, me_scope = [], me_window = [], me_strimzi = [], me_operator_ns = [], me_target = ?t,
                     me_is_kind = False, me_pins = pins, me_from_pin = False, me_notes = []\<rparr>"
  obtain answer io1 where ans: "installed_operators (eo_reading v) (eo_world v) io = (answer, io1)" by (cases "installed_operators (eo_reading v) (eo_world v) io")
  obtain e1 where e1: "find_primary v False answer ?e0 = Inr e1" using assms pins ans by (auto simp: discover_migrate_env_def Let_def split: sum.splits)
  obtain failed t1 io2 where t1: "read_target v ?t io1 = (failed, t1, io2)" by (cases "read_target v ?t io1")
  let ?e2 = "e1\<lparr>me_scope := primary_scope (me_primary e1), me_target := t1\<rparr>"
  have ok: "failed = None" using assms pins ans e1 t1 by (auto simp: discover_migrate_env_def Let_def split: if_splits)
  obtain e3 where e3: "settle_version False ?e2 = Inr e3" using assms pins ans e1 t1 ok by (auto simp: discover_migrate_env_def Let_def split: sum.splits)
  obtain kind io3 where k: "migrate_detect_kind (eo_world v) io2 = (kind, io3)" by (cases "migrate_detect_kind (eo_world v) io2")
  have e: "e = e3\<lparr>me_is_kind := kind\<rparr>" using assms pins ans e1 t1 ok e3 k by (simp add: discover_migrate_env_def)
  obtain ops p where p: "answer = Inr ops" "pick_primary_operator ops ns = Inr p" "e1 = with_primary p (?e0\<lparr>me_operators := ops\<rparr>)"
    using e1 by (auto simp: find_primary_def Let_def split: sum.splits if_splits)
  note u = primary_unique [OF p(2)] and s = settled_version [OF e3] and n = target_named [OF t1]
  have known: "tg_version (me_target e3) \<noteq> zero_version" if "newest (me_window e3) = Some m" "m \<noteq> zero_version" for m
    using settled_known [OF e3 _ that(2)] that(1) s(3) by simp
  have first: "me_primary e3 = Some p" "me_operators e3 = ops" "me_window e3 = st_window p" "\<not> me_from_pin e3"
    using s(1,2,3,9) p(3) by (simp_all add: with_primary_def)
  have scope: "me_scope e3 = primary_scope (Some p)" using s(4) p(3) by (simp add: with_primary_def)
  have target: "tg_found (me_target e3)" "tg_cluster (me_target e3) = cluster" "tg_namespace (me_target e3) = ns"
  proof -
    have not_False: "\<not> False" by simp
    have e2: "me_target ?e2 = t1" by simp
    show "tg_found (me_target e3)" using s(7) s(8) [OF not_False] by (simp only:)
    show "tg_cluster (me_target e3) = cluster" using s(5) n [THEN conjunct1] unfolding e2 by (simp only: mig_target.select_convs)
    show "tg_namespace (me_target e3) = ns" using s(6) n [THEN conjunct2, THEN conjunct1] unfolding e2 by (simp only: mig_target.select_convs)
  qed
  have same: "me_primary e = me_primary e3" "me_operators e = me_operators e3" "me_window e = me_window e3" "me_scope e = me_scope e3"
    "me_from_pin e = me_from_pin e3" "me_target e = me_target e3" by (simp_all add: e)
  show ?thesis unfolding same first(1-3) scope using u known [unfolded first(3)] first(4) target by blast
qed

section \<open>A pair that resolves\<close>

definition pair_operator :: operator where
  "pair_operator = \<lparr>st_namespace = ''strimzi-operator'', st_deployment = ''strimzi-cluster-operator'', st_version = ''1.1.0'', st_image = [],
     st_scope = watches_cluster, st_watches = [watch_all], st_down = False, st_window = [\<lparr>major = 4, minor = 3, patch = 0\<rparr>], st_release = [],
     st_app_version = [], st_helm_release = [], st_helm_chart = []\<rparr>"

definition pair_env :: mig_env where
  "pair_env = \<lparr>me_operators = [pair_operator], me_primary = Some pair_operator, me_scope = scope_cluster, me_window = st_window pair_operator,
     me_strimzi = ''1.1.0'', me_operator_ns = ''strimzi-operator'',
     me_target = \<lparr>tg_cluster = ''krafter'', tg_namespace = ''kafka'', tg_found = True, tg_version = \<lparr>major = 4, minor = 3, patch = 0\<rparr>,
       tg_ready = True, tg_brokers = 3, tg_secret = True\<rparr>,
     me_is_kind = True, me_pins = \<lparr>pn_strimzi_version = [], pn_kafka_version = [], pn_kafka_image = [], pn_all = Map.empty\<rparr>, me_from_pin = False, me_notes = []\<rparr>"

definition pair_request :: pair_flags where
  "pair_request = \<lparr>pf_from = [''2.8.2''], pf_to = [], pf_name = [], pf_provider = ''auto'', pf_source_strimzi = [], pf_policy = [],
     pf_topics = ''orders,payments'', pf_messages = 0, pf_sasl = False, pf_plaintext = False, pf_read_only = False, pf_registry = [], pf_timeout = 600,
     pf_source_version = []\<rparr>"

lemma pair_resolves: "\<exists>l res. resolve_migrate_pair demo_rand [] pair_env pair_request = Inr (l, res) \<and> rs_unimplemented res = []"
proof -
  let ?v = "\<lparr>major = 2, minor = 8, patch = 2\<rparr>" and ?t = "\<lparr>major = 4, minor = 3, patch = 0\<rparr>"
  have p: "parse_version ''2.8.2'' = Inr ?v" by code_simp
  have pv: "provider_for ?v [?t] = Inr (ProviderLegacy, Some (legacy_mode_for ?v))" by code_simp
  have c: "classify_from ?v pair_env = (FromLegacyOnly, None)" by code_simp
  have f: "parse_migrate_pair_flags pair_request = Inr [?v]" by (simp add: parse_migrate_pair_flags_def pair_request_def p Let_def)
  have w: "me_window pair_env = [?t]" by (simp add: pair_env_def pair_operator_def)
  have asked: "pf_provider pair_request \<noteq> provider_name ProviderLegacy" "pf_provider pair_request \<noteq> provider_name ProviderStrimzi"
    by (simp_all add: pair_request_def provider_name_def)
  obtain res where r: "resolve_sources pair_env pair_request [?v] empty_resolution = Inr ([run_legacy ?v None], res)" "rs_unimplemented res = []"
    by (simp add: resolve_migrate_source_def w pv c asked noting_def empty_resolution_def)
  have t: "resolve_target_version pair_env pair_request (res\<lparr>rs_sources := [run_legacy ?v None]\<rparr>) = Inr (?t, True, res\<lparr>rs_sources := [run_legacy ?v None]\<rparr>)"
    by (simp add: resolve_target_version_def pair_request_def pair_env_def zero_version_def Let_def)
  have topics: "split_topics ''orders,payments'' = [''orders'', ''payments'']" by code_simp
  obtain l where l: "new_lab demo_rand (migrate_pair_options [] pair_env pair_request (run_legacy ?v None) [] ?t True) = Inr l"
    by (simp add: lab_defs demo_digits migrate_pair_options_def pair_env_def pair_request_def run_legacy_def topics demo_rand_def mode_text_def Let_def)
  have "resolve_migrate_pair demo_rand [] pair_env pair_request = Inr (l, warn_direction ?v ?t (res\<lparr>rs_sources := [run_legacy ?v None]\<rparr>))"
    unfolding resolve_migrate_pair_def f sum.case r(1) prod.case t list.sel l by (rule refl)
  then show ?thesis using r(2) by (auto simp: warn_direction_def)
qed

theorem creatable_pair_witness:
  "\<exists>l res. resolve_migrate_pair demo_rand [] pair_env pair_request = Inr (l, res) \<and> op_target_cluster l = ''krafter'' \<and>
     (\<exists>froms. parse_migrate_pair_flags pair_request = Inr froms \<and> list_all2 runs_legacy froms (lab_sources l))"
proof -
  obtain l res where r: "resolve_migrate_pair demo_rand [] pair_env pair_request = Inr (l, res)" "rs_unimplemented res = []" using pair_resolves by blast
  have t: "tg_cluster (me_target pair_env) = ''krafter''" "tg_namespace (me_target pair_env) = ''kafka''" by (simp_all add: pair_env_def)
  show ?thesis using creatable_pair [OF r] r(1) t by auto
qed

theorem source_rules_witness:
  "(\<exists>r res. resolve_migrate_source pair_env pair_request \<lparr>major = 2, minor = 8, patch = 2\<rparr> empty_resolution = Inr (r, res) \<and>
     rv_provider r = ProviderLegacy \<and> rv_mode r = Some LegacyZooKeeper \<and> rs_unimplemented res = []) \<and>
   (\<exists>err. resolve_migrate_source pair_env (pair_request\<lparr>pf_provider := ''strimzi''\<rparr>) \<lparr>major = 2, minor = 8, patch = 2\<rparr> empty_resolution = Inl err)"
proof -
  let ?v = "\<lparr>major = 2, minor = 8, patch = 2\<rparr>" and ?asked = "pair_request\<lparr>pf_provider := ''strimzi''\<rparr>"
  have c: "fst (classify_from ?v pair_env) = FromLegacyOnly" by code_simp
  have m: "legacy_mode_for ?v = LegacyZooKeeper" by code_simp
  have f: "\<not> version_less ?v min_mirror_source" by code_simp
  have can: "\<not> operator_can_run pair_env ?v"
    using classify_in_window [of ?v pair_env] classify_dropped [of ?v pair_env] c by (auto simp: operator_can_run_def)
  have p: "pf_provider pair_request = ''auto''" "pf_provider ?asked = ''strimzi''" by (simp_all add: pair_request_def)
  have "\<exists>r res. resolve_migrate_source pair_env pair_request ?v empty_resolution = Inr (r, res) \<and>
      rv_provider r = ProviderLegacy \<and> rv_mode r = Some LegacyZooKeeper \<and> rs_unimplemented res = []"
    using source_rules [where e = pair_env and f = pair_request and v = ?v and res = empty_resolution] f can m p(1)
    by (cases "resolve_migrate_source pair_env pair_request ?v empty_resolution") (auto simp: empty_resolution_def)
  moreover have "\<exists>err. resolve_migrate_source pair_env ?asked ?v empty_resolution = Inl err"
    using source_rules [where e = pair_env and f = ?asked and v = ?v and res = empty_resolution] can p(2)
    by (cases "resolve_migrate_source pair_env ?asked ?v empty_resolution") auto
  ultimately show ?thesis by blast
qed

definition pair_reading :: operator_reading where
  "pair_reading = \<lparr>or_pods = (\<lambda>j. Inr [\<lparr>pc_namespace = ''strimzi-operator'', pc_labels = [(''pod-template-hash'', ''7f'')],
       pc_owners = [\<lparr>ow_kind = ''ReplicaSet'', ow_name = ''strimzi-cluster-operator-7f''\<rparr>]\<rparr>]),
     or_deployment = (\<lambda>j. Inr \<lparr>dc_name = ''strimzi-cluster-operator'', dc_namespace = ''strimzi-operator'', dc_containers =
       [\<lparr>ct_name = operator_container_name, ct_image = [], ct_env = [\<lparr>ev_name = env_namespace, ev_value = ''*'', ev_from = None\<rparr>]\<rparr>],
       dc_replicas = 1, dc_available = 1\<rparr>),
     or_releases = (\<lambda>j. Inr []), or_crds = (\<lambda>j. Inr []), or_instances = (\<lambda>j. Inr []), or_version_error = (\<lambda>e. [])\<rparr>"

definition pair_outside :: env_outside where
  "pair_outside = \<lparr>eo_world = demo_world True, eo_reading = pair_reading,
     eo_pins = Inr \<lparr>pn_strimzi_version = [], pn_kafka_version = [], pn_kafka_image = [], pn_all = Map.empty\<rparr>, eo_chart = Inl [],
     eo_kafka = (\<lambda>j. Inr \<lparr>kd_version = ''4.3.0'', kd_replicas = 3, kd_status_version = [], kd_conditions = []\<rparr>), eo_pools = (\<lambda>j. None)\<rparr>"

lemma pair_discovers: "\<exists>e io'. discover_migrate_env pair_outside ''krafter'' ''kafka'' False io = (Inr e, io') \<and> tg_version (me_target e) = \<lparr>major = 4, minor = 3, patch = 0\<rparr>"
proof -
  let ?w = "demo_world True"
  have v: "parse_version ''4.3.0'' = Inr \<lparr>major = 4, minor = 3, patch = 0\<rparr>" by code_simp
  have star: "trim_space ''*'' = ''*''" by code_simp
  have env: "\<not> env_kafka_images = env_namespace" by (simp add: env_kafka_images_def env_namespace_def)
  have dep: "\<exists>p. parse_operator_deployment pair_reading j = Inr p \<and> st_scope p = watches_cluster \<and> st_watches p = [watch_all]" for j
    using env by (simp add: parse_operator_deployment_def pair_reading_def operator_container_def container_env_def operator_of_def watch_scope_def star watch_all_def)
  obtain pods ref where ref: "or_pods pair_reading demo_reply = Inr pods" "pod_owners pods [] = [ref]"
    by (simp add: pair_reading_def Let_def)
  obtain p where p: "parse_operator_deployment pair_reading demo_reply = Inr p" "st_scope p = watches_cluster" "st_watches p = [watch_all]" using dep by blast
  have rel: "list_releases pair_reading ?w [] [] x = (Inr [], logged (Command None (''helm'' # release_list_args [] [])) demo_reply x)" for x
    by (simp add: list_releases_def parse_releases_def pair_reading_def)
  obtain io1 where ops: "installed_operators pair_reading ?w io = (Inr [p], io1)"
    using ref p(1) rel by (simp add: installed_operators_def attach_releases_def Let_def)
  have pick: "pick_primary_operator [p] ''kafka'' = Inr p"
    using p(2,3) by (simp add: pick_primary_operator_def shape_def watched_by_def Let_def)
  have world: "eo_world pair_outside = ?w" "eo_reading pair_outside = pair_reading" by (simp_all add: pair_outside_def)
  let ?t = "\<lparr>tg_cluster = ''krafter'', tg_namespace = ''kafka'', tg_found = False, tg_version = zero_version, tg_ready = False, tg_brokers = 0, tg_secret = False\<rparr>"
  let ?d = "\<lparr>kd_version = ''4.3.0'', kd_replicas = 3, kd_status_version = [], kd_conditions = []\<rparr>"
  have doc: "eo_kafka pair_outside j = Inr ?d" and pools: "eo_pools pair_outside j = None" for j by (simp_all add: pair_outside_def)
  have stated: "stated_version pair_outside x ?d = Inr (Some \<lparr>major = 4, minor = 3, patch = 0\<rparr>)" for x
    by (simp add: stated_version_def v)
  obtain t1 io2 where t: "read_target pair_outside ?t io1 = (None, t1, io2)" "tg_found t1" "tg_version t1 = \<lparr>major = 4, minor = 3, patch = 0\<rparr>"
    using demo_trim stated by (simp add: read_target_def world doc pools broker_count_def Let_def)
  have settled: "settle_version False e = Inr e" if "tg_found (me_target e)" "tg_version (me_target e) \<noteq> zero_version" for e
    using that by (simp add: settle_version_def Let_def)
  obtain pins where pins: "eo_pins pair_outside = Inr pins" by (simp add: pair_outside_def)
  let ?e0 = "\<lparr>me_operators = [], me_primary = None, me_scope = [], me_window = [], me_strimzi = [], me_operator_ns = [], me_target = ?t,
                     me_is_kind = False, me_pins = pins, me_from_pin = False, me_notes = []\<rparr>"
  obtain e1 where e1: "find_primary pair_outside False (Inr [p]) ?e0 = Inr e1" using pick by (simp add: find_primary_def Let_def)
  let ?e2 = "e1\<lparr>me_scope := primary_scope (me_primary e1), me_target := t1\<rparr>"
  have s: "settle_version False ?e2 = Inr ?e2" by (rule settled) (use t(2,3) in \<open>simp_all add: zero_version_def\<close>)
  obtain kind io3 where k: "migrate_detect_kind ?w io2 = (kind, io3)" by (cases "migrate_detect_kind ?w io2")
  have "discover_migrate_env pair_outside ''krafter'' ''kafka'' False io = (Inr (?e2\<lparr>me_is_kind := kind\<rparr>), io3)"
    by (simp add: discover_migrate_env_def pins world ops e1 t(1) s k Let_def)
  then show ?thesis using t(3) by auto
qed

theorem discovered_env_witness:
  "\<exists>e io' p. discover_migrate_env pair_outside ''krafter'' ''kafka'' False \<lparr>io_log = [], io_now = 0\<rparr> = (Inr e, io') \<and>
     me_primary e = Some p \<and> watched_by ''kafka'' p \<and> tg_version (me_target e) = \<lparr>major = 4, minor = 3, patch = 0\<rparr>"
proof -
  obtain e io' where d: "discover_migrate_env pair_outside ''krafter'' ''kafka'' False \<lparr>io_log = [], io_now = 0\<rparr> = (Inr e, io')"
    "tg_version (me_target e) = \<lparr>major = 4, minor = 3, patch = 0\<rparr>" using pair_discovers by blast
  show ?thesis using discovered_env [OF d(1)] d by blast
qed

end
