(* ===== verification/OperatorCharts.thy ===== *)
theory OperatorCharts
  imports Operators LabDiscovery McpRequests
begin

text \<open>
  The Strimzi operator's charts (\<open>cli/pkg/strimzi/chart.go\<close>, \<open>wrapper.go\<close>, and the fetching half of
  \<open>catalogue.go\<close>): what a tarball says of itself, the verdicts on a chart as the primary's operator or as one beside it,
  the catalogue with its cache, the pull of a chart, and the rewriting of the wrapper's Chart.yaml. The entries of a tarball,
  what yaml.v3 and encoding/json decode, and the files are fields of \<open>chart_reading\<close>, which take the log of the commands
  where a command may change the file.
\<close>

section \<open>Paths\<close>

text \<open>\<open>path.Clean\<close>: the elements kept so far are the first list, the latest first.\<close>

fun clean_elems :: "bool \<Rightarrow> string list \<Rightarrow> string list \<Rightarrow> string list" where
  "clean_elems rooted kept [] = rev kept"
| "clean_elems rooted kept (x # xs) =
     (if x = [] \<or> x = ''.'' then clean_elems rooted kept xs
      else if x = ''..'' then
        (case kept of
           k # ks \<Rightarrow> if k = ''..'' then clean_elems rooted (''..'' # kept) xs else clean_elems rooted ks xs
         | [] \<Rightarrow> clean_elems rooted (if rooted then [] else [''..'']) xs)
      else clean_elems rooted (x # kept) xs)"

definition path_clean :: "string \<Rightarrow> string" where
  "path_clean s =
     (let rooted = prefix ''/'' s; p = join_with ''/'' (clean_elems rooted [] (split_on (CHR ''/'') s))
      in if rooted then CHR ''/'' # p else if p = [] then ''.'' else p)"

text \<open>\<open>filepath.Join\<close>\<close>

definition path_join :: "string list \<Rightarrow> string" where
  "path_join parts = (let ps = filter (\<lambda>p. p \<noteq> []) parts in if ps = [] then [] else path_clean (join_with ''/'' ps))"

definition path_ext :: "string \<Rightarrow> string" where
  "path_ext s = (let i = last_index_byte s (CHR ''.'') in if last_index_byte s (CHR ''/'') < i then drop (nat i) s else [])"

text \<open>\<open>path.Base\<close> of a file's name without a slash at its end.\<close>

definition path_base :: "string \<Rightarrow> string" where
  "path_base s = drop (nat (last_index_byte s (CHR ''/'') + 1)) s"

section \<open>A tarball\<close>

definition kafka_crd_name :: string where "kafka_crd_name = ''kafkas.kafka.strimzi.io''"
definition max_entry_size :: nat where "max_entry_size = 16 * 2 ^ 20"

record chart =
  ch_version :: string
  ch_window :: window
  ch_served :: "string list"
  ch_stored :: string
  ch_tag :: string
  ch_path :: string

record chart_files =
  cf_chart :: "string option"
  cf_images :: "string option"
  cf_values :: "string option"
  cf_crds :: "(string \<times> string) list"

record crd_version =
  cv_name :: string
  cv_served :: bool
  cv_storage :: bool

text \<open>Documents decoded one after the other, and the error that ended them, if it was not the end of the file.\<close>

type_synonym 'd documents = "'d list \<times> string option"

record chart_reading =
  cr_entries :: "event list \<Rightarrow> string \<Rightarrow> string + (string \<times> string) list"
  cr_meta :: "string \<Rightarrow> string + string \<times> string \<times> string"
  cr_crds :: "string \<Rightarrow> (string \<times> crd_version list) documents"
  cr_kinds :: "string \<Rightarrow> (string \<times> string) documents"
  cr_tag :: "string \<Rightarrow> string + string"
  cr_version_error :: "version_error \<Rightarrow> string"
  cr_tarballs :: "event list \<Rightarrow> string \<Rightarrow> string + string list"
  cr_stat :: "event list \<Rightarrow> string \<Rightarrow> string option"
  cr_mkdir :: "string \<Rightarrow> string option"
  cr_cached :: "event list \<Rightarrow> string \<Rightarrow> (int option \<times> catalogue_entry list) option"
  cr_write_cache :: "string \<Rightarrow> catalogue_entry list \<Rightarrow> string option"
  cr_rows :: "string \<Rightarrow> string + (string \<times> catalogue_entry) list"

definition chart_rel_path :: "string \<Rightarrow> string" where
  "chart_rel_path name =
     (let c = path_clean (trim_prefix ''./'' name); i = index_byte c (CHR ''/'') in if 0 \<le> i then drop (nat i + 1) c else [])"

definition is_yaml :: "string \<Rightarrow> bool" where
  "is_yaml name \<longleftrightarrow> go_to_lower (path_ext name) \<in> {''.yaml'', ''.yml''}"

definition image_map_file :: string where "image_map_file = ''templates/_kafka_image_map.tpl''"

definition wants :: "string \<Rightarrow> bool" where
  "wants rel \<longleftrightarrow> rel \<in> {''Chart.yaml'', image_map_file, ''values.yaml''} \<or> prefix ''crds/'' rel \<and> is_yaml rel"

definition put_file :: "string \<Rightarrow> string \<Rightarrow> chart_files \<Rightarrow> chart_files" where
  "put_file rel data f =
     (if rel = ''Chart.yaml'' then f\<lparr>cf_chart := Some data\<rparr>
      else if rel = image_map_file then f\<lparr>cf_images := Some data\<rparr>
      else if rel = ''values.yaml'' then f\<lparr>cf_values := Some data\<rparr>
      else f\<lparr>cf_crds := AList.update rel data (cf_crds f)\<rparr>)"

definition collect_files :: "(string \<times> string) list \<Rightarrow> chart_files" where
  "collect_files entries =
     fold (\<lambda>(name, data) f. let rel = chart_rel_path name in if wants rel then put_file rel (take max_entry_size data) f else f) entries
       \<lparr>cf_chart = None, cf_images = None, cf_values = None, cf_crds = []\<rparr>"

definition read_chart_files :: "chart_reading \<Rightarrow> event list \<Rightarrow> string \<Rightarrow> string + chart_files" where
  "read_chart_files rd log tgz =
     (case cr_entries rd log tgz of
        Inl e \<Rightarrow> Inl e
      | Inr entries \<Rightarrow>
          (let f = collect_files entries in if cf_chart f = None then Inl (tgz @ '': no Chart.yaml in archive'') else Inr f))"

definition parse_chart_version :: "chart_reading \<Rightarrow> string \<Rightarrow> string + string" where
  "parse_chart_version rd data =
     (let pre = ''chart metadata (Chart.yaml): ''
      in (case cr_meta rd data of
            Inl e \<Rightarrow> Inl (pre @ e)
          | Inr (name, version, app_version) \<Rightarrow>
              (if name \<noteq> strimzi_chart_name then Inl (pre @ ''not a '' @ strimzi_chart_name @ '' chart (name: '' @ dq # name @ dq # '')'')
               else if version = [] then Inl (pre @ ''no version'')
               else if app_version \<noteq> [] \<and> app_version \<noteq> version
               then Inl (pre @ ''version '' @ version @ '' and appVersion '' @ app_version @ '' disagree'')
               else Inr version)))"

definition crd_verdict :: "string \<Rightarrow> crd_version list \<Rightarrow> string + string list \<times> string" where
  "crd_verdict name versions =
     (let stored = (case filter cv_storage versions of [] \<Rightarrow> [] | vs \<Rightarrow> cv_name (last vs))
      in if stored = [] then Inl (''crds/'' @ path_base name @ '': '' @ kafka_crd_name @ '' has no storage version'')
         else Inr (map cv_name (filter cv_served versions), stored))"

fun find_kafka_crd :: "chart_reading \<Rightarrow> (string \<times> string) list \<Rightarrow> string + string list \<times> string" where
  "find_kafka_crd rd [] = Inl (''no '' @ kafka_crd_name @ '' CRD under crds/'')"
| "find_kafka_crd rd ((name, data) # fs) =
     (if \<not> contains_text data kafka_crd_name then find_kafka_crd rd fs
      else
        (case cr_crds rd data of
           (docs, err) \<Rightarrow>
             (case find (\<lambda>d. fst d = kafka_crd_name) docs of
                Some d \<Rightarrow> crd_verdict name (snd d)
              | None \<Rightarrow>
                  (case err of Some e \<Rightarrow> Inl (''crds/'' @ path_base name @ '': '' @ e) | None \<Rightarrow> find_kafka_crd rd fs))))"

text \<open>The files of a map in the order of their names.\<close>

definition sorted_files :: "(string \<times> string) list \<Rightarrow> (string \<times> string) list" where
  "sorted_files fs = map (\<lambda>n. (n, the (map_of fs n))) (stable_sort cmp_string (map fst fs))"

definition parse_kafka_crd :: "chart_reading \<Rightarrow> (string \<times> string) list \<Rightarrow> string + string list \<times> string" where
  "parse_kafka_crd rd crds = find_kafka_crd rd (sorted_files crds)"

definition parse_default_image_tag :: "chart_reading \<Rightarrow> string option \<Rightarrow> string + string" where
  "parse_default_image_tag rd values = (case values of None \<Rightarrow> Inr [] | Some data \<Rightarrow> cr_tag rd data)"

definition read_chart :: "chart_reading \<Rightarrow> event list \<Rightarrow> string \<Rightarrow> string + chart" where
  "read_chart rd log tgz =
     (case read_chart_files rd log tgz of
        Inl e \<Rightarrow> Inl e
      | Inr f \<Rightarrow>
          (case parse_chart_version rd (the (cf_chart f)) of
             Inl e \<Rightarrow> Inl (tgz @ '': '' @ e)
           | Inr version \<Rightarrow>
               (case cf_images f of
                  None \<Rightarrow> Inl (tgz @ '': no '' @ image_map_file @ '' in archive'')
                | Some images \<Rightarrow>
                    (case parse_image_map images of
                       Inl e \<Rightarrow> Inl (tgz @ '': '' @ image_map_file @ '': '' @ cr_version_error rd e)
                     | Inr w \<Rightarrow>
                         (case parse_kafka_crd rd (cf_crds f) of
                            Inl e \<Rightarrow> Inl (tgz @ '': '' @ e)
                          | Inr (served, stored) \<Rightarrow>
                              (case parse_default_image_tag rd (cf_values f) of
                                 Inl e \<Rightarrow> Inl (tgz @ '': values.yaml: '' @ e)
                               | Inr tag \<Rightarrow>
                                   Inr \<lparr>ch_version = version, ch_window = w, ch_served = served, ch_stored = stored, ch_tag = tag, ch_path = tgz\<rparr>))))))"

section \<open>The bundle of CRDs\<close>

definition crd_names_from_yaml :: "chart_reading \<Rightarrow> string \<Rightarrow> string \<Rightarrow> string + string list" where
  "crd_names_from_yaml rd rel data =
     (case cr_kinds rd data of
        (docs, Some e) \<Rightarrow> Inl (rel @ '': '' @ e)
      | (docs, None) \<Rightarrow> Inr (map snd (filter (\<lambda>d. fst d = ''CustomResourceDefinition'' \<and> snd d \<noteq> []) docs)))"

definition bundled_file :: "string \<Rightarrow> string \<Rightarrow> string" where
  "bundled_file p data = ''# Source: '' @ p @ nl # data @ (if data = [] \<or> last data \<noteq> nl then [nl] else [])"

fun bundle_files :: "chart_reading \<Rightarrow> (string \<times> string) list \<Rightarrow> string \<Rightarrow> string list \<Rightarrow> string + string \<times> string list" where
  "bundle_files rd [] out names = Inr (out, names)"
| "bundle_files rd ((p, data) # fs) out names =
     (case crd_names_from_yaml rd p data of
        Inl e \<Rightarrow> Inl e
      | Inr found \<Rightarrow>
          bundle_files rd fs (out @ (if out = [] then [] else ''---'' @ [nl]) @ bundled_file p data)
            (fold (\<lambda>n ns. if n \<in> set ns then ns else ns @ [n]) found names))"

definition crd_bundle :: "chart_reading \<Rightarrow> event list \<Rightarrow> string \<Rightarrow> string + string \<times> string list" where
  "crd_bundle rd log tgz =
     (case read_chart_files rd log tgz of
        Inl e \<Rightarrow> Inl e
      | Inr f \<Rightarrow>
          (if cf_crds f = [] then Inl (tgz @ '': no CRDs under crds/'')
           else
             (case bundle_files rd (sorted_files (cf_crds f)) [] [] of
                Inl e \<Rightarrow> Inl e
              | Inr (out, names) \<Rightarrow> Inr (out, stable_sort cmp_string names))))"

section \<open>Verdicts\<close>

definition vendored_chart_path :: "chart_reading \<Rightarrow> event list \<Rightarrow> string \<Rightarrow> string + string" where
  "vendored_chart_path rd log root =
     (let dir = path_join [root, ''charts'', ''strimzi-operator'', ''charts'']
      in (case cr_tarballs rd log dir of
            Inl e \<Rightarrow> Inl (''list '' @ dir @ '': '' @ e)
          | Inr [] \<Rightarrow> Inl (''no chart tarball under '' @ dir @ '' (run helm dependency build charts/strimzi-operator)'')
          | Inr [t] \<Rightarrow> Inr t
          | Inr ts \<Rightarrow> Inl (show_int (int (length ts)) @ '' chart tarballs under '' @ dir @ '', want exactly one: '' @ join_with '' '' (map path_base ts))))"

definition generation :: "chart \<Rightarrow> string" where
  "generation c = (if ch_stored c = ''v1'' then ''v1'' else if ch_stored c = ''v1beta2'' then ''v1beta2'' else ch_stored c)"

definition serves_v1 :: "chart \<Rightarrow> string" where
  "serves_v1 c =
     (if ''v1'' \<in> set (ch_served c) then []
      else ''serves no v1 API (served: '' @ (let s = join_with '' '' (ch_served c) in if s = [] then ''none'' else s) @ '')'')"

definition window_or_none :: "window \<Rightarrow> string" where
  "window_or_none w = (if w = [] then ''none'' else window_string w)"

record floor_check =
  fc_ok :: bool
  fc_reason :: string

definition check_primary_floor :: "chart \<Rightarrow> version \<Rightarrow> floor_check" where
  "check_primary_floor c lowest =
     (let reasons = (let r = serves_v1 c in if r = [] then [] else [r]) @
            (if list_ex (\<lambda>v. at_least v lowest) (ch_window c) then []
             else [''no Kafka >= '' @ version_string lowest @ '' in its window ('' @ window_or_none (ch_window c) @ '')''])
      in \<lparr>fc_ok = (reasons = []), fc_reason = join_with ''; '' reasons\<rparr>)"

record eligibility =
  el_ok :: bool
  el_adjacent :: bool
  el_reason :: string

definition not_eligible :: "string \<Rightarrow> eligibility" where
  "not_eligible reason = \<lparr>el_ok = False, el_adjacent = False, el_reason = reason\<rparr>"

definition eligible_additional :: "chart \<Rightarrow> chart \<Rightarrow> eligibility" where
  "eligible_additional candidate primary =
     (let reasons =
            (let r = serves_v1 candidate in if r = [] then [] else [r]) @
            (if generation candidate \<noteq> generation primary
             then [''different CRD generation ('' @ generation candidate @ '' vs '' @ generation primary @ '')''] else []) @
            (case parse_version (ch_version candidate) of
               Inl e \<Rightarrow> [''unparseable chart version '' @ dq # ch_version candidate @ [dq]] | Inr v \<Rightarrow> []) @
            (case parse_version (ch_version primary) of
               Inl e \<Rightarrow> [''unparseable primary chart version '' @ dq # ch_version primary @ [dq]] | Inr v \<Rightarrow> [])
      in if reasons \<noteq> [] then not_eligible (join_with ''; '' reasons)
         else
           (case (parse_version (ch_version candidate), parse_version (ch_version primary)) of
              (Inr cv, Inr pv) \<Rightarrow>
                (if version_less pv cv
                 then not_eligible (''newer than the primary's operator ('' @ version_string cv @ '' > '' @ version_string pv @ '')'')
                 else \<lparr>el_ok = True, el_adjacent = (major cv = major pv \<and> minor pv - minor cv \<le> 1), el_reason = []\<rparr>)
            | _ \<Rightarrow> not_eligible []))"

section \<open>Fetching\<close>

text \<open>
  A \<open>Runner\<close> other than nil: the real one, or \<open>chartOnlyRunner\<close> (\<open>versions.go\<close>), which refuses everything but
  Helm, and Helm too when it has no inner runner.
\<close>

datatype runner = Live | ChartOnly bool

definition run_via :: "runner \<Rightarrow> world \<Rightarrow> string list \<Rightarrow> io \<Rightarrow> (string + string) \<times> io" where
  "run_via r w argv io =
     (case r of
        Live \<Rightarrow> run_command w None argv io
      | ChartOnly inner \<Rightarrow>
          (if hd argv \<noteq> ''helm'' \<or> \<not> inner then (Inl (hd argv @ '': not consulted by this command''), io)
           else run_command w None argv io))"

definition repo_url :: string where "repo_url = ''https://strimzi.io/charts/''"
definition oci_chart :: string where "oci_chart = ''oci://quay.io/strimzi-helm/strimzi-kafka-operator''"
definition catalogue_ttl :: int where "catalogue_ttl = 24 * 60 * 60 * one_second"
definition catalogue_file :: string where "catalogue_file = ''catalogue.json''"
definition repo_config :: string where "repo_config = ''repositories.yaml''"
definition repo_cache :: string where "repo_cache = ''repo-cache''"

definition read_catalogue_cache :: "chart_reading \<Rightarrow> string \<Rightarrow> io \<Rightarrow> catalogue_entry list option" where
  "read_catalogue_cache rd p io =
     (case cr_cached rd (io_log io) p of
        Some (Some at, entries) \<Rightarrow> if entries = [] \<or> catalogue_ttl \<le> io_now io - at then None else Some entries
      | _ \<Rightarrow> None)"

definition repo_args :: "string \<Rightarrow> string list" where
  "repo_args dir = [''--repository-config'', path_join [dir, repo_config], ''--repository-cache'', path_join [dir, repo_cache]]"

definition repo_add_argv :: "string \<Rightarrow> string list" where
  "repo_add_argv dir = [''helm'', ''repo'', ''add'', repo_name, repo_url] @ repo_args dir @ [''--force-update'']"

definition repo_search_argv :: "string \<Rightarrow> string list" where
  "repo_search_argv dir = [''helm'', ''search'', ''repo'', repo_name @ ''/'' @ strimzi_chart_name, ''--versions'', ''-o'', ''json''] @ repo_args dir"

definition fetch_catalogue :: "chart_reading \<Rightarrow> runner \<Rightarrow> world \<Rightarrow> string \<Rightarrow> bool \<Rightarrow> io \<Rightarrow> (string + catalogue_entry list) \<times> io" where
  "fetch_catalogue rd r w dir refresh io =
     (let p = path_join [dir, catalogue_file]
      in (case if refresh then None else read_catalogue_cache rd p io of
            Some entries \<Rightarrow> (Inr entries, io)
          | None \<Rightarrow>
              (case cr_mkdir rd dir of
                 Some e \<Rightarrow> (Inl (''create cache dir: '' @ e), io)
               | None \<Rightarrow>
                   (case run_via r w (repo_add_argv dir) io of
                      (Inl e, io1) \<Rightarrow> (Inl (''add '' @ repo_name @ '' chart repository: '' @ e), io1)
                    | (Inr added, io1) \<Rightarrow>
                        (case run_via r w (repo_search_argv dir) io1 of
                           (Inl e, io2) \<Rightarrow> (Inl (''search '' @ repo_name @ '' chart repository: '' @ e), io2)
                         | (Inr out, io2) \<Rightarrow>
                             (case parse_search_output (cr_rows rd) out of
                                Inl e \<Rightarrow> (Inl e, io2)
                              | Inr entries \<Rightarrow>
                                  (case cr_write_cache rd p entries of Some e \<Rightarrow> (Inl e, io2) | None \<Rightarrow> (Inr entries, io2))))))))"

definition pull_argv :: "string \<Rightarrow> string \<Rightarrow> string list" where
  "pull_argv dir version = [''helm'', ''pull'', oci_chart, ''--version'', version, ''--destination'', dir]"

definition pull_chart :: "chart_reading \<Rightarrow> runner \<Rightarrow> world \<Rightarrow> string \<Rightarrow> string \<Rightarrow> io \<Rightarrow> (string + string) \<times> io" where
  "pull_chart rd r w dir version io =
     (case check_version_segment version of
        Some e \<Rightarrow> (Inl e, io)
      | None \<Rightarrow>
          (let dest = path_join [dir, chart_file_name version]
           in if cr_stat rd (io_log io) dest = None then (Inr dest, io)
              else
                (case cr_mkdir rd dir of
                   Some e \<Rightarrow> (Inl (''create cache dir: '' @ e), io)
                 | None \<Rightarrow>
                     (case run_via r w (pull_argv dir version) io of
                        (Inl e, io1) \<Rightarrow> (Inl (''pull '' @ strimzi_chart_name @ '' '' @ version @ '': '' @ e), io1)
                      | (Inr out, io1) \<Rightarrow>
                          (case cr_stat rd (io_log io1) dest of
                             None \<Rightarrow> (Inr dest, io1)
                           | Some e \<Rightarrow> (Inl (''helm pull did not produce '' @ dest @ '': '' @ e), io1))))))"

section \<open>The wrapper's Chart.yaml\<close>

text \<open>The regular expressions of \<open>wrapper.go\<close>, over a line: what each group matches, or None.\<close>

definition name_start :: "char \<Rightarrow> bool" where
  "name_start c \<longleftrightarrow> re_word c \<and> \<not> is_digit c"

definition top_level_key :: "string \<Rightarrow> bool" where
  "top_level_key l \<longleftrightarrow> (case l of c # cs \<Rightarrow> name_start c \<and> CHR '':'' \<in> set cs | [] \<Rightarrow> False)"

text \<open>A word, then white space: the matched text and the rest of the line.\<close>

definition after_word :: "string \<Rightarrow> string \<Rightarrow> (string \<times> string) option" where
  "after_word word l =
     (case cut_prefix word l of
        Some r \<Rightarrow> Some (word @ takeWhile re_space r, dropWhile re_space r)
      | None \<Rightarrow> None)"

definition app_version_line :: "string \<Rightarrow> (string \<times> string) option" where
  "app_version_line l = after_word ''appVersion:'' l"

definition dep_version_line :: "string \<Rightarrow> (string \<times> string) option" where
  "dep_version_line l =
     map_option (\<lambda>(k, r). (takeWhile re_space l @ k, r)) (after_word ''version:'' (dropWhile re_space l))"

definition dep_name_line :: "string \<Rightarrow> (string \<times> string) option" where
  "dep_name_line l =
     (case after_word ''-'' (dropWhile re_space l) of
        None \<Rightarrow> None
      | Some (dashed, r) \<Rightarrow> map_option (\<lambda>(k, r'). (takeWhile re_space l @ dashed @ k, r')) (after_word ''name:'' r))"

definition quote_char :: "char \<Rightarrow> bool" where
  "quote_char c \<longleftrightarrow> c = dq \<or> c = CHR 0x27"

text \<open>\<open>([\<dots>]?)\<close> over the quotes.\<close>

definition opt_quote :: "string \<Rightarrow> string \<times> string" where
  "opt_quote s = (case s of c # cs \<Rightarrow> if quote_char c then ([c], cs) else ([], s) | [] \<Rightarrow> ([], []))"

definition scalar_char :: "char \<Rightarrow> bool" where
  "scalar_char c \<longleftrightarrow> \<not> quote_char c \<and> c \<noteq> CHR ''#'' \<and> \<not> re_space c"

text \<open>The quotes, the value and the trailing comment of a scalar.\<close>

definition split_scalar :: "string \<Rightarrow> (string \<times> string \<times> string \<times> string) option" where
  "split_scalar s =
     (let (q, r) = opt_quote s; v = takeWhile scalar_char r; (q', t) = opt_quote (dropWhile scalar_char r);
          comment = dropWhile re_space t
      in if comment = [] \<or> prefix ''#'' comment then Some (q, v, q', t) else None)"

definition replace_scalar :: "string \<Rightarrow> string \<Rightarrow> string" where
  "replace_scalar rest v =
     (case split_scalar rest of
        None \<Rightarrow> v
      | Some (q, old, q', t) \<Rightarrow> q @ v @ (if q \<noteq> [] \<and> q' = [] then q else q') @ t)"

text \<open>\<open>strings.Trim\<close> over the quotes.\<close>

definition trim_quotes :: "string \<Rightarrow> string" where
  "trim_quotes s = rev (dropWhile quote_char (rev (dropWhile quote_char s)))"

text \<open>
  The loop over the lines: the lines rewritten, and whether an appVersion and the dependency's version were. \<open>deps\<close>:
  within the dependencies; \<open>dep\<close>: within the operator chart's.
\<close>

fun rewrite_lines :: "string \<Rightarrow> bool \<Rightarrow> bool \<Rightarrow> string list \<Rightarrow> string list \<times> bool \<times> bool" where
  "rewrite_lines v deps dep [] = ([], False, False)"
| "rewrite_lines v deps dep (l # ls) =
     (if top_level_key l then
        (let (out, app, done) = rewrite_lines v (prefix ''dependencies:'' l) False ls
         in (case app_version_line l of
               Some (k, r) \<Rightarrow> ((k @ replace_scalar r v) # out, True, done)
             | None \<Rightarrow> (l # out, app, done)))
      else
        (case (deps, dep_name_line l) of
           (True, Some (k, r)) \<Rightarrow>
             (let (out, found) = rewrite_lines v deps (trim_quotes (trim_space r) = strimzi_chart_name) ls in (l # out, found))
         | _ \<Rightarrow>
             (case (deps \<and> dep, dep_version_line l) of
                (True, Some (k, r)) \<Rightarrow>
                  (let (out, app, done) = rewrite_lines v deps False ls in ((k @ replace_scalar r v) # out, app, True))
              | _ \<Rightarrow> (let (out, found) = rewrite_lines v deps dep ls in (l # out, found)))))"

definition rewrite_wrapper :: "string \<Rightarrow> string \<Rightarrow> string + string" where
  "rewrite_wrapper src v =
     (case rewrite_lines v False False (split_on nl src) of
        (out, app, done) \<Rightarrow>
          (if \<not> app then Inl ''no appVersion line''
           else if \<not> done then Inl (''no version line for dependency '' @ strimzi_chart_name)
           else Inr (join_with [nl] out)))"

text \<open>What \<open>WrapperFor\<close> does to files; the first error of clearing and copying is one answer.\<close>

record wrapper_files =
  wf_is_dir :: "string \<Rightarrow> bool"
  wf_fresh_copy :: "string \<Rightarrow> string \<Rightarrow> string option"
  wf_read :: "string \<Rightarrow> string + string"
  wf_write :: "string \<Rightarrow> string \<Rightarrow> string option"
  wf_add_chart :: "string \<Rightarrow> string \<Rightarrow> string option"

definition wrapper_chart_dir :: string where "wrapper_chart_dir = ''charts/strimzi-operator''"

definition wrapper_dir :: "string \<Rightarrow> string \<Rightarrow> string" where
  "wrapper_dir cache v = path_join [cache, ''wrapper'', v]"

definition wrapper_for :: "chart_reading \<Rightarrow> wrapper_files \<Rightarrow> event list \<Rightarrow> string \<Rightarrow> string \<Rightarrow> string \<Rightarrow> string \<Rightarrow> string + string" where
  "wrapper_for rd fs log root cache v tgz =
     (case check_version_segment v of
        Some e \<Rightarrow> Inl e
      | None \<Rightarrow>
          (let src = path_join [root, wrapper_chart_dir]; dir = wrapper_dir cache v; meta = path_join [dir, ''Chart.yaml'']
           in if \<not> wf_is_dir fs src then Inl (''wrapper chart '' @ src @ '': not a directory'')
              else
                (case read_chart rd log tgz of
                   Inl e \<Rightarrow> Inl e
                 | Inr c \<Rightarrow>
                     (if ch_version c \<noteq> v then Inl (tgz @ '' is '' @ strimzi_chart_name @ '' '' @ ch_version c @ '', not '' @ v)
                      else
                        (case wf_fresh_copy fs src dir of
                           Some e \<Rightarrow> Inl e
                         | None \<Rightarrow>
                             (case wf_read fs meta of
                                Inl e \<Rightarrow> Inl (''read '' @ meta @ '': '' @ e)
                              | Inr data \<Rightarrow>
                                  (case rewrite_wrapper data v of
                                     Inl e \<Rightarrow> Inl (meta @ '': '' @ e)
                                   | Inr rewritten \<Rightarrow>
                                       (case wf_write fs meta rewritten of
                                          Some e \<Rightarrow> Inl (''write '' @ meta @ '': '' @ e)
                                        | None \<Rightarrow>
                                            (case wf_add_chart fs tgz (path_join [dir, ''charts'', chart_file_name v]) of
                                               Some e \<Rightarrow> Inl e
                                             | None \<Rightarrow> Inr dir)))))))))"

section \<open>Rewriting the wrapper\<close>

definition plain_scalar :: "string \<Rightarrow> bool" where
  "plain_scalar v \<longleftrightarrow> v \<noteq> [] \<and> list_all scalar_char v"

lemma plain_scalar_split:
  assumes "plain_scalar v" and t: "t = [] \<or> \<not> scalar_char (hd t)"
  shows "takeWhile scalar_char (v @ t) = v" "dropWhile scalar_char (v @ t) = t" "opt_quote (v @ t) = ([], v @ t)" "\<not> re_space (hd v)"
proof -
  have all: "\<forall>c\<in>set v. scalar_char c" and ne: "v \<noteq> []" using assms(1) by (simp_all add: plain_scalar_def list_all_iff)
  show "takeWhile scalar_char (v @ t) = v" "dropWhile scalar_char (v @ t) = t" using all t by (cases t; simp)+
  obtain c cs where v: "v = c # cs" using ne by (cases v) auto
  have c: "scalar_char c" using all v by simp
  then show "opt_quote (v @ t) = ([], v @ t)" "\<not> re_space (hd v)" by (simp_all add: v opt_quote_def scalar_char_def)
qed

lemma comment_start:
  assumes "dropWhile re_space t = [] \<or> prefix ''#'' (dropWhile re_space t)"
  shows "t = [] \<or> \<not> scalar_char (hd t)" "t = [] \<or> \<not> quote_char (hd t)"
proof -
  have "t = [] \<or> re_space (hd t) \<or> hd t = CHR ''#''" using assms by (cases t) (auto split: if_splits)
  moreover have "\<not> quote_char c" if "re_space c \<or> c = CHR ''#''" for c using that by (auto simp: quote_char_def dq_def re_space_def)
  ultimately show "t = [] \<or> \<not> scalar_char (hd t)" "t = [] \<or> \<not> quote_char (hd t)" by (auto simp: scalar_char_def)
qed

lemma opt_quote_cases: "opt_quote s = (q, r) \<Longrightarrow> s = q @ r \<and> (q = [] \<or> (\<exists>c. q = [c] \<and> quote_char c))"
  by (auto simp: opt_quote_def split: list.splits if_splits)

text \<open>The scalar that replaced one is read as that scalar, and replaced as the old one would be.\<close>

lemma split_plain: "plain_scalar v \<Longrightarrow> split_scalar v = Some ([], v, [], [])"
proof -
  assume v: "plain_scalar v"
  have whole: "takeWhile scalar_char v = v" "dropWhile scalar_char v = []" "opt_quote v = ([], v)" "opt_quote [] = ([], [])"
    using plain_scalar_split [OF v, of "[]"] by (simp_all add: opt_quote_def)
  show ?thesis by (simp add: split_scalar_def whole Let_def)
qed

lemma split_replaced:
  assumes v: "plain_scalar v" and m: "split_scalar r = Some (q, old, q', t)"
  shows "split_scalar (q @ v @ (if q' = [] then q else q') @ t) = Some (q, v, if q' = [] then q else q', t)"
proof -
  let ?q = "if q' = [] then q else q'"
  have t: "dropWhile re_space t = [] \<or> prefix ''#'' (dropWhile re_space t)"
    and q: "opt_quote r = (q, snd (opt_quote r))" and q': "opt_quote (dropWhile scalar_char (snd (opt_quote r))) = (q', t)"
    using m by (auto simp: split_scalar_def Let_def split: prod.splits if_splits)
  have qs: "?q = [] \<or> (\<exists>c. ?q = [c] \<and> quote_char c)" and one: "q = [] \<or> (\<exists>c. q = [c] \<and> quote_char c)"
    using opt_quote_cases [OF q] opt_quote_cases [OF q'] by auto
  have tail: "?q @ t = [] \<or> \<not> scalar_char (hd (?q @ t))" using qs comment_start(1) [OF t] by (auto simp: scalar_char_def)
  have open': "opt_quote (q @ v @ ?q @ t) = (q, v @ ?q @ t)"
    using one
  proof
    assume "q = []"
    then show ?thesis using plain_scalar_split(3) [OF v tail] by simp
  next
    assume "\<exists>c. q = [c] \<and> quote_char c"
    then show ?thesis by (auto simp: opt_quote_def)
  qed
  have close: "opt_quote (?q @ t) = (?q, t)" using qs
  proof
    assume "?q = []"
    then show ?thesis using comment_start(2) [OF t] by (cases t) (simp_all add: opt_quote_def)
  next
    assume "\<exists>c. ?q = [c] \<and> quote_char c"
    then obtain c where "?q = [c]" "quote_char c" by blast
    then show ?thesis by (simp only:) (simp add: opt_quote_def)
  qed
  show ?thesis using t plain_scalar_split(1,2) [OF v tail] by (simp add: split_scalar_def open' close Let_def del: append_assoc)
qed

lemma replace_scalar_alt:
  "replace_scalar r v = (case split_scalar r of None \<Rightarrow> v | Some (q, old, q', t) \<Rightarrow> q @ v @ (if q' = [] then q else q') @ t)"
proof -
  have "(if q \<noteq> [] \<and> q' = [] then q else q') = (if q' = [] then q else q')" for q q' :: string by simp
  then show ?thesis unfolding replace_scalar_def by (simp only:)
qed

lemma replace_scalar_again:
  assumes v: "plain_scalar v"
  shows "replace_scalar (replace_scalar r v) v' = replace_scalar r v'" "replace_scalar r v \<noteq> [] \<and> \<not> re_space (hd (replace_scalar r v))"
proof -
  have ne: "v \<noteq> []" using v by (simp add: plain_scalar_def)
  show "replace_scalar (replace_scalar r v) v' = replace_scalar r v'"
  proof (cases "split_scalar r")
    case None
    then show ?thesis by (simp add: replace_scalar_alt split_plain [OF v])
  next
    case (Some m)
    then obtain q old q' t where m: "split_scalar r = Some (q, old, q', t)" by (cases m) auto
    then have r: "replace_scalar r v = q @ v @ (if q' = [] then q else q') @ t" by (simp add: replace_scalar_alt)
    show ?thesis unfolding r unfolding replace_scalar_alt m split_replaced [OF v m] by simp
  qed
  show "replace_scalar r v \<noteq> [] \<and> \<not> re_space (hd (replace_scalar r v))"
  proof (cases "split_scalar r")
    case None
    then show ?thesis using ne plain_scalar_split(4) [OF v, of "[]"] by (simp add: replace_scalar_def)
  next
    case (Some m)
    then obtain q old q' t where m: "split_scalar r = Some (q, old, q', t)" by (cases m) auto
    then have q: "opt_quote r = (q, snd (opt_quote r))" by (auto simp: split_scalar_def Let_def split: prod.splits if_splits)
    have "\<not> re_space c" if "quote_char c" for c using that by (auto simp: quote_char_def dq_def re_space_def)
    then show ?thesis using opt_quote_cases [OF q] ne plain_scalar_split(4) [OF v, of "[]"] by (auto simp: replace_scalar_def m)
  qed
qed

lemma after_word_again:
  assumes "after_word word l = Some (k, r)" and "r' \<noteq> [] \<and> \<not> re_space (hd r')"
  shows "after_word word (k @ r') = Some (k, r')" "l = k @ r" "prefix word k"
proof -
  obtain m where m: "l = word @ m" "k = word @ takeWhile re_space m" "r = dropWhile re_space m"
    using assms(1) by (auto simp: after_word_def cut_prefix_def prefix_def split: option.splits if_splits)
  have all: "\<forall>c\<in>set (takeWhile re_space m). re_space c" by (auto dest: set_takeWhileD)
  obtain c cs where r': "r' = c # cs" "\<not> re_space c" using assms(2) by (cases r') auto
  have "takeWhile re_space (takeWhile re_space m @ r') = takeWhile re_space m" "dropWhile re_space (takeWhile re_space m @ r') = r'"
    using all r' by simp_all
  then show "after_word word (k @ r') = Some (k, r')" by (simp add: after_word_def cut_prefix_def m(2))
  show "l = k @ r" "prefix word k" by (simp_all add: m)
qed

lemma app_version_line_again:
  assumes "app_version_line l = Some (k, r)" and "r' \<noteq> [] \<and> \<not> re_space (hd r')"
  shows "app_version_line (k @ r') = Some (k, r')" "top_level_key (k @ r')" "\<not> prefix ''dependencies:'' (k @ r')" "\<not> prefix ''dependencies:'' l"
proof -
  note a = after_word_again [OF assms [unfolded app_version_line_def]]
  show "app_version_line (k @ r') = Some (k, r')" using a(1) by (simp add: app_version_line_def)
  obtain m where k: "k = ''appVersion:'' @ m" using a(3) by (auto simp: prefix_def)
  show "top_level_key (k @ r')" by (simp add: k top_level_key_def name_start_def re_word_def is_digit_def)
  show "\<not> prefix ''dependencies:'' (k @ r')" "\<not> prefix ''dependencies:'' l" by (simp_all add: a(2) k)
qed

lemma dep_version_line_again:
  assumes "dep_version_line l = Some (k, r)" "\<not> top_level_key l" and r': "r' \<noteq> [] \<and> \<not> re_space (hd r')"
  shows "dep_version_line (k @ r') = Some (k, r')" "\<not> top_level_key (k @ r')" "dep_name_line (k @ r') = None" "dep_name_line l = None"
proof -
  obtain k0 where k0: "after_word ''version:'' (dropWhile re_space l) = Some (k0, r)" "k = takeWhile re_space l @ k0"
    using assms(1) by (auto simp: dep_version_line_def)
  note a = after_word_again [OF k0(1) r']
  obtain m where m: "k0 = ''version:'' @ m" using a(3) by (auto simp: prefix_def)
  have l: "l = takeWhile re_space l @ k0 @ r" using a(2) by (metis takeWhile_dropWhile_id)
  have v: "\<not> re_space (CHR ''v'')" by (simp add: re_space_def)
  have all: "\<forall>c\<in>set (takeWhile re_space l). re_space c" by (auto dest: set_takeWhileD)
  have tk: "takeWhile re_space (k @ r') = takeWhile re_space l" "dropWhile re_space (k @ r') = k0 @ r'"
    using all v by (simp_all add: k0(2) m)
  show "dep_version_line (k @ r') = Some (k, r')" by (simp add: dep_version_line_def tk a(1)) (simp add: k0(2))
  have "takeWhile re_space l \<noteq> []"
  proof
    assume none: "takeWhile re_space l = []"
    have "l = ''version:'' @ m @ r" using l unfolding none m by simp
    then show False using assms(2) by (simp add: top_level_key_def name_start_def re_word_def is_digit_def)
  qed
  then obtain c cs where cs: "takeWhile re_space l = c # cs" "re_space c" using all by (cases "takeWhile re_space l") auto
  have "\<not> name_start c" using cs(2) by (auto simp: name_start_def re_space_def re_word_def is_digit_def)
  then show "\<not> top_level_key (k @ r')" by (simp add: top_level_key_def k0(2) cs(1))
  have none: "after_word ''-'' (''version:'' @ x) = None" for x by (simp add: after_word_def cut_prefix_def)
  show "dep_name_line (k @ r') = None" by (simp add: dep_name_line_def tk m none del: append_Cons)
  show "dep_name_line l = None" by (simp add: dep_name_line_def a(2) m none del: append_Cons)
qed

lemma rewrite_again:
  assumes v: "plain_scalar v"
  shows "rewrite_lines v deps dep ls = (out, app, done) \<Longrightarrow>
    \<exists>again. rewrite_lines v' deps dep ls = (again, app, done) \<and> rewrite_lines v' deps dep out = (again, app, done)"
proof (induction ls arbitrary: deps dep out app "done")
  case Nil
  then show ?case by simp
next
  case (Cons l ls)
  note new = replace_scalar_again [OF v]
  show ?case
  proof (cases "top_level_key l")
    case top: True
    obtain o1 a1 d1 where r: "rewrite_lines v (prefix ''dependencies:'' l) False ls = (o1, a1, d1)" by (metis prod_cases3)
    from Cons.IH [OF this] obtain w where w: "rewrite_lines v' (prefix ''dependencies:'' l) False ls = (w, a1, d1)"
      "rewrite_lines v' (prefix ''dependencies:'' l) False o1 = (w, a1, d1)" by blast
    show ?thesis
    proof (cases "app_version_line l")
      case None
      then show ?thesis using Cons.prems top r w by auto
    next
      case (Some m)
      then obtain k x where m: "app_version_line l = Some (k, x)" by (cases m) auto
      note a = app_version_line_again [OF m new(2)]
      show ?thesis using Cons.prems top r w a m new(1) by auto
    qed
  next
    case low: False
    show ?thesis
    proof (cases "deps \<and> dep_name_line l \<noteq> None")
      case True
      then obtain k x where m: "deps" "dep_name_line l = Some (k, x)" by auto
      obtain o1 f1 where r: "rewrite_lines v True (trim_quotes (trim_space x) = strimzi_chart_name) ls = (o1, f1)" by (metis surj_pair)
      from Cons.IH [of True _ o1 "fst f1" "snd f1"] r obtain w where
        "rewrite_lines v' True (trim_quotes (trim_space x) = strimzi_chart_name) ls = (w, f1)"
        "rewrite_lines v' True (trim_quotes (trim_space x) = strimzi_chart_name) o1 = (w, f1)" by auto
      then show ?thesis using Cons.prems low m r by auto
    next
      case noname: False
      show ?thesis
      proof (cases "deps \<and> dep \<and> dep_version_line l \<noteq> None")
        case True
        then obtain k x where m: "deps" "dep" "dep_version_line l = Some (k, x)" by auto
        note a = dep_version_line_again [OF m(3) low new(2)]
        obtain o1 a1 d1 where r: "rewrite_lines v True False ls = (o1, a1, d1)" by (metis prod_cases3)
        from Cons.IH [OF this] obtain w where "rewrite_lines v' True False ls = (w, a1, d1)" "rewrite_lines v' True False o1 = (w, a1, d1)" by blast
        then show ?thesis using Cons.prems low m r a new(1) by auto
      next
        case False
        obtain o1 f1 where r: "rewrite_lines v deps dep ls = (o1, f1)" by (metis surj_pair)
        from Cons.IH [of deps dep o1 "fst f1" "snd f1"] r obtain w where
          w: "rewrite_lines v' deps dep ls = (w, f1)" "rewrite_lines v' deps dep o1 = (w, f1)" by auto
        have step: "rewrite_lines u deps dep (l # x) = (let (out, found) = rewrite_lines u deps dep x in (l # out, found))" for u x
          using low noname False by (auto split: option.splits bool.splits)
        have f: "f1 = (app, done)" "out = l # o1" using Cons.prems r unfolding step by auto
        have "rewrite_lines v' deps dep (l # ls) = (l # w, app, done)" "rewrite_lines v' deps dep out = (l # w, app, done)"
          using w unfolding f step by (simp_all only: Let_def prod.case)
        then show ?thesis by blast
      qed
    qed
  qed
qed

text \<open>
  Which scalars of a Chart.yaml the version is written to, by where the line stands: an appVersion; and, under a top-level
  \<open>dependencies:\<close>, the first version after the name of the operator chart, before another name.
\<close>

definition in_deps :: "string list \<Rightarrow> bool" where
  "in_deps before = (case find top_level_key (rev before) of Some l \<Rightarrow> prefix ''dependencies:'' l | None \<Rightarrow> False)"

definition names_operator :: "string \<Rightarrow> bool" where
  "names_operator l = (case dep_name_line l of Some (k, r) \<Rightarrow> trim_quotes (trim_space r) = strimzi_chart_name | None \<Rightarrow> False)"

definition dep_open :: "string list \<Rightarrow> bool" where
  "dep_open before =
     (case find (\<lambda>l. top_level_key l \<or> dep_name_line l \<noteq> None \<or> dep_version_line l \<noteq> None) (rev before) of
        Some l \<Rightarrow> \<not> top_level_key l \<and> names_operator l | None \<Rightarrow> False)"

definition dep_spot :: "string list \<Rightarrow> string \<Rightarrow> (string \<times> string) option" where
  "dep_spot before l =
     (if \<not> top_level_key l \<and> in_deps before \<and> dep_open before \<and> dep_name_line l = None then dep_version_line l else None)"

definition version_spot :: "string list \<Rightarrow> string \<Rightarrow> (string \<times> string) option" where
  "version_spot before l = (if top_level_key l then app_version_line l else dep_spot before l)"

text \<open>The scalar replaced: its quotes and its comment stay, a missing closing quote is added.\<close>

definition set_to :: "string \<Rightarrow> string \<Rightarrow> string \<Rightarrow> bool" where
  "set_to v r r' \<longleftrightarrow>
     (case split_scalar r of
        None \<Rightarrow> r' = v
      | Some (q, old, q', t) \<Rightarrow>
          (let q2 = (if q' = [] then q else q') in r' = q @ v @ q2 @ t \<and> split_scalar r' = Some (q, v, q2, t)))"

lemma in_deps_snoc: "in_deps (before @ [l]) = (if top_level_key l then prefix ''dependencies:'' l else in_deps before)"
  by (simp add: in_deps_def)

lemma dep_open_snoc:
  "dep_open (before @ [l]) =
     (if top_level_key l then False else if dep_name_line l \<noteq> None then names_operator l
      else if dep_version_line l \<noteq> None then False else dep_open before)"
  by (cases "dep_name_line l") (auto simp: dep_open_def names_operator_def)

lemma rewrite_spots:
  assumes "rewrite_lines v (in_deps before) (in_deps before \<and> dep_open before) ls = (out, app, done)"
  shows "length out = length ls \<and>
    (\<forall>i<length ls. out ! i = (case version_spot (before @ take i ls) (ls ! i) of Some (k, r) \<Rightarrow> k @ replace_scalar r v | None \<Rightarrow> ls ! i)) \<and>
    (app \<longleftrightarrow> (\<exists>l\<in>set ls. top_level_key l \<and> app_version_line l \<noteq> None)) \<and>
    (done \<longleftrightarrow> (\<exists>i<length ls. dep_spot (before @ take i ls) (ls ! i) \<noteq> None))"
  using assms
proof (induction ls arbitrary: before out app "done")
  case Nil
  then show ?case by simp
next
  case (Cons l ls)
  let ?deps = "in_deps (before @ [l])" and ?dep = "in_deps (before @ [l]) \<and> dep_open (before @ [l])"
  obtain o1 a1 d1 where r: "rewrite_lines v ?deps ?dep ls = (o1, a1, d1)" by (metis prod_cases3)
  note ih = Cons.IH [OF r]
  have step: "out = (case version_spot before l of Some (k, r) \<Rightarrow> k @ replace_scalar r v | None \<Rightarrow> l) # o1 \<and>
      (app \<longleftrightarrow> a1 \<or> top_level_key l \<and> app_version_line l \<noteq> None) \<and> (done \<longleftrightarrow> d1 \<or> dep_spot before l \<noteq> None)"
  proof (cases "top_level_key l")
    case True
    then have "rewrite_lines v (prefix ''dependencies:'' l) False ls = (o1, a1, d1)" using r by (simp add: in_deps_snoc dep_open_snoc)
    then show ?thesis using Cons.prems True by (auto simp: version_spot_def dep_spot_def split: option.splits)
  next
    case low: False
    show ?thesis
    proof (cases "dep_name_line l")
      case (Some m)
      then obtain k x where m: "dep_name_line l = Some (k, x)" by (cases m) auto
      have "rewrite_lines v (in_deps before) (in_deps before \<and> trim_quotes (trim_space x) = strimzi_chart_name) ls = (o1, a1, d1)"
        using r low m by (simp add: in_deps_snoc dep_open_snoc names_operator_def)
      then show ?thesis using Cons.prems low m by (cases "in_deps before") (auto simp: version_spot_def dep_spot_def)
    next
      case noname: None
      show ?thesis
      proof (cases "dep_version_line l")
        case None
        then have "rewrite_lines v (in_deps before) (in_deps before \<and> dep_open before) ls = (o1, a1, d1)"
          using r low noname by (simp add: in_deps_snoc dep_open_snoc)
        then show ?thesis using Cons.prems low noname None
          by (cases "in_deps before"; cases "dep_open before") (auto simp: version_spot_def dep_spot_def)
      next
        case (Some m)
        then obtain k x where m: "dep_version_line l = Some (k, x)" by (cases m) auto
        have "rewrite_lines v (in_deps before) False ls = (o1, a1, d1)"
          using r low noname m by (simp add: in_deps_snoc dep_open_snoc)
        then show ?thesis using Cons.prems low noname m
          by (cases "in_deps before"; cases "dep_open before") (auto simp: version_spot_def dep_spot_def)
      qed
    qed
  qed
  then have o: "out = (case version_spot before l of Some (k, r) \<Rightarrow> k @ replace_scalar r v | None \<Rightarrow> l) # o1"
    and a: "app \<longleftrightarrow> a1 \<or> top_level_key l \<and> app_version_line l \<noteq> None" and d: "done \<longleftrightarrow> d1 \<or> dep_spot before l \<noteq> None" by blast+
  have "length out = length (l # ls)" using ih o by simp
  moreover have "\<forall>i<length (l # ls). out ! i = (case version_spot (before @ take i (l # ls)) ((l # ls) ! i) of
      Some (k, r) \<Rightarrow> k @ replace_scalar r v | None \<Rightarrow> (l # ls) ! i)"
    unfolding length_Cons All_less_Suc2 o using ih by (simp cong: option.case_cong)
  moreover have "app \<longleftrightarrow> (\<exists>l\<in>set (l # ls). top_level_key l \<and> app_version_line l \<noteq> None)" using ih a by auto
  moreover have "done \<longleftrightarrow> (\<exists>i<length (l # ls). dep_spot (before @ take i (l # ls)) ((l # ls) ! i) \<noteq> None)"
    unfolding length_Cons Ex_less_Suc2 d using ih by auto
  ultimately show ?case by blast
qed

lemma set_replaced: "plain_scalar v \<Longrightarrow> set_to v r (replace_scalar r v)"
  using split_replaced [of v r] by (auto simp: set_to_def replace_scalar_alt Let_def split: option.splits)

lemma replaced_one_line:
  assumes "plain_scalar v" "nl \<notin> set r" shows "nl \<notin> set (replace_scalar r v)"
proof -
  have sp: "\<not> scalar_char nl" by (simp add: scalar_char_def re_space_def nl_def)
  have v: "nl \<notin> set v" using assms(1) sp by (auto simp: plain_scalar_def list_all_iff)
  show ?thesis
  proof (cases "split_scalar r")
    case None
    then show ?thesis using v by (simp add: replace_scalar_def)
  next
    case (Some m)
    then obtain q old q' t where m: "split_scalar r = Some (q, old, q', t)" by (cases m) auto
    then have q: "opt_quote r = (q, snd (opt_quote r))" "opt_quote (dropWhile scalar_char (snd (opt_quote r))) = (q', t)"
      by (auto simp: split_scalar_def Let_def split: prod.splits if_splits)
    let ?m = "snd (opt_quote r)"
    have "r = q @ ?m" using opt_quote_cases [OF q(1)] by blast
    then have "set r = set q \<union> set ?m" by (metis set_append)
    then have "set q \<subseteq> set r" "set ?m \<subseteq> set r" by blast+
    moreover have "set q' \<subseteq> set ?m" "set t \<subseteq> set ?m" using opt_quote_cases [OF q(2)] set_dropWhileD [of _ scalar_char ?m] by auto
    ultimately show ?thesis using v assms(2) by (auto simp: replace_scalar_def m)
  qed
qed

lemma after_word_parts: "after_word word l = Some (k, r) \<Longrightarrow> l = k @ r"
  by (auto simp: after_word_def cut_prefix_def prefix_def split: option.splits if_splits)

lemma version_spot_parts:
  assumes "version_spot before l = Some (k, r)"
  shows "l = k @ r"
proof (cases "top_level_key l")
  case True
  then show ?thesis using assms after_word_parts by (simp add: version_spot_def app_version_line_def)
next
  case False
  then have "dep_version_line l = Some (k, r)" using assms by (auto simp: version_spot_def dep_spot_def split: if_splits)
  then obtain k0 where "after_word ''version:'' (dropWhile re_space l) = Some (k0, r)" "k = takeWhile re_space l @ k0"
    by (auto simp: dep_version_line_def)
  then show ?thesis using after_word_parts by (metis append_assoc takeWhile_dropWhile_id)
qed

lemma rewritten_lines:
  assumes v: "plain_scalar v" and r: "rewrite_lines v False False (split_on nl src) = (ls, app, done)"
  shows "split_on nl (join_with [nl] ls) = ls"
proof (rule split_on_join)
  have start: "in_deps [] = False" "(False \<and> dep_open []) = False" by (simp_all add: in_deps_def)
  note spots = rewrite_spots [of v "[]" "split_on nl src" ls app "done", unfolded start, OF r]
  show "ls \<noteq> []" using spots by auto
  show "\<forall>l\<in>set ls. nl \<notin> set l"
  proof
    fix l assume "l \<in> set ls"
    then obtain i where i: "i < length ls" "l = ls ! i" by (auto simp: in_set_conv_nth)
    let ?l = "split_on nl src ! i"
    have "?l \<in> set (split_on nl src)" using i spots by simp
    then have nl: "nl \<notin> set ?l" using split_on_parts_no_sep by blast
    show "nl \<notin> set l"
    proof (cases "version_spot (take i (split_on nl src)) ?l")
      case None
      then show ?thesis using nl i spots by simp
    next
      case (Some m)
      then obtain k x where m: "version_spot (take i (split_on nl src)) ?l = Some (k, x)" by (cases m) auto
      from version_spot_parts [OF this] have "nl \<notin> set (k @ x)" using nl by simp
      then show ?thesis using replaced_one_line [OF v, of x] m i spots by simp
    qed
  qed
qed

text \<open>
  C24. The rewriting of the wrapper's Chart.yaml sets its appVersion and the version of the operator chart among its
  dependencies, and touches nothing else. It is refused exactly when there is no line to set the one or the other in.
  Otherwise every line but these is kept as it is; in these the scalar becomes the version, its quotes and its comment
  staying. And no more than these scalars is lost: rewriting the result gives what rewriting the original gives, so the
  file is restored, byte for byte, by rewriting it back to the version it had.
\<close>
theorem wrapper_rewritten:
  assumes v: "plain_scalar v"
  shows "let ls = split_on nl src; settable = (\<exists>l\<in>set ls. top_level_key l \<and> app_version_line l \<noteq> None) \<and>
        (\<exists>i<length ls. dep_spot (take i ls) (ls ! i) \<noteq> None)
     in case rewrite_wrapper src v of
          Inl e \<Rightarrow> \<not> settable
        | Inr out \<Rightarrow>
            settable \<and> length (split_on nl out) = length ls \<and>
            (\<forall>i<length ls.
               case version_spot (take i ls) (ls ! i) of
                 None \<Rightarrow> split_on nl out ! i = ls ! i
               | Some (k, r) \<Rightarrow> ls ! i = k @ r \<and> (\<exists>r'. split_on nl out ! i = k @ r' \<and> set_to v r r')) \<and>
            (\<forall>v'. rewrite_wrapper out v' = rewrite_wrapper src v') \<and>
            (rewrite_wrapper src pin = Inr src \<longrightarrow> rewrite_wrapper out pin = Inr src)"
proof -
  let ?ls = "split_on nl src"
  obtain ls app dep where r: "rewrite_lines v False False ?ls = (ls, app, dep)" by (metis prod_cases3)
  have start: "in_deps [] = False" "(False \<and> dep_open []) = False" by (simp_all add: in_deps_def)
  note spots = rewrite_spots [of v "[]" ?ls ls app dep, unfolded start, OF r, unfolded append_Nil]
  note split = rewritten_lines [OF v r]
  have lines: "case version_spot (take i ?ls) (?ls ! i) of None \<Rightarrow> ls ! i = ?ls ! i
      | Some (k, r) \<Rightarrow> ?ls ! i = k @ r \<and> (\<exists>r'. ls ! i = k @ r' \<and> set_to v r r')" if "i < length ?ls" for i
    using spots that version_spot_parts set_replaced [OF v] by (auto split: option.splits)
  show ?thesis
  proof (cases "app \<and> dep")
    case True
    then have out: "rewrite_wrapper src v = Inr (join_with [nl] ls)" by (simp add: rewrite_wrapper_def r)
    have "rewrite_wrapper (join_with [nl] ls) v' = rewrite_wrapper src v'" for v'
      using rewrite_again [OF v r, of v'] by (auto simp: rewrite_wrapper_def split)
    then have "\<forall>v'. rewrite_wrapper (join_with [nl] ls) v' = rewrite_wrapper src v'"
      "rewrite_wrapper src pin = Inr src \<longrightarrow> rewrite_wrapper (join_with [nl] ls) pin = Inr src" by simp_all
    moreover have "(\<exists>l\<in>set ?ls. top_level_key l \<and> app_version_line l \<noteq> None)"
      "(\<exists>i<length ?ls. dep_spot (take i ?ls) (?ls ! i) \<noteq> None)" "length ls = length ?ls"
      using spots True by blast+
    moreover have "\<forall>i<length ?ls. case version_spot (take i ?ls) (?ls ! i) of None \<Rightarrow> ls ! i = ?ls ! i
      | Some (k, r) \<Rightarrow> ?ls ! i = k @ r \<and> (\<exists>r'. ls ! i = k @ r' \<and> set_to v r r')" using lines by blast
    ultimately show ?thesis unfolding out Let_def sum.case split by (intro conjI)
  next
    case False
    then show ?thesis using spots by (auto simp: rewrite_wrapper_def r Let_def)
  qed
qed

definition wrapper_lines :: "string \<Rightarrow> string list" where
  "wrapper_lines v =
     [''version: 0.3.0'', ''appVersion: \"'' @ v @ ''\" # pin'', ''dependencies:'', ''  - name: common'', ''    version: 0.9.0'',
      ''  - name: strimzi-kafka-operator'', ''    version: '' @ v]"

definition wrapper_text :: string where "wrapper_text = join_with [nl] (wrapper_lines ''1.1.0'')"

theorem wrapper_rewritten_witness:
  "\<exists>out. rewrite_wrapper wrapper_text ''1.0.0'' = Inr out \<and> rewrite_wrapper out ''1.1.0'' = Inr wrapper_text \<and>
     out = join_with [nl] (wrapper_lines ''1.0.0'')"
proof -
  have p: "plain_scalar ''1.0.0''" by code_simp
  have r: "rewrite_wrapper wrapper_text ''1.0.0'' = Inr (join_with [nl] (wrapper_lines ''1.0.0''))" by code_simp
  have same: "rewrite_wrapper wrapper_text ''1.1.0'' = Inr wrapper_text" by code_simp
  note w = wrapper_rewritten [OF p, of wrapper_text "''1.1.0''", unfolded Let_def r sum.case]
  then show ?thesis using r same by blast
qed

end
