(* ===== verification/DeployVersions.thy ===== *)
theory DeployVersions
  imports MigrationPair OperatorCharts
begin

text \<open>
  Which operator, at which version, watching what, running which Kafka (\<open>cli/cmd/deploy_versions.go\<close>): the resolution of a
  deploy's plan before anything is installed, its refusals, the arguments Helm gets of it and the question it asks. Files, YAML
  and JSON are fields of \<open>deploy_outside\<close>; warnings are left out, notes are not. A null chart is a chart without contents,
  and a version of the catalogue is never the word latest, since Helm lists semantic versions only.
\<close>

section \<open>Options and plan\<close>

definition operator_chart_dir :: string where "operator_chart_dir = ''charts/strimzi-operator''"
definition kafka_chart_dir :: string where "kafka_chart_dir = ''charts/kafka-cluster''"
definition kafka_floor_key :: string where "kafka_floor_key = ''kates.io/kafka-floor''"
definition strimzi_v1 :: string where "strimzi_v1 = ''1.0.0''"

record primary_cluster =
  pk_name :: string
  pk_namespace :: string
  pk_version :: version

definition bootstrap_of :: "primary_cluster \<Rightarrow> string \<Rightarrow> string" where
  "bootstrap_of p domain = pk_name p @ ''-kafka-bootstrap.'' @ pk_namespace p @ ''.svc.'' @ domain @ '':9092''"

definition ready_selector :: "primary_cluster \<Rightarrow> string" where
  "ready_selector p = ''strimzi.io/cluster='' @ pk_name p"

record version_plan =
  vp_scope :: string
  vp_strimzi :: string
  vp_source :: string
  vp_pinned :: bool
  vp_adopted :: bool
  vp_pin :: string
  vp_chart_path :: string
  vp_chart_dir :: string
  vp_window :: "string list"
  vp_kafka_version :: string
  vp_kafka_defaulted :: bool
  vp_metadata :: string
  vp_floor :: string
  vp_watch :: "string list"
  vp_action :: string
  vp_installed :: string
  vp_scope_change :: string
  vp_notes :: "string list"
  vp_rolling :: "string list"
  vp_replace_empty :: bool
  vp_replace_crds :: "string list"
  vp_chart :: chart
  vp_kafka :: version
  vp_operators :: "operator list"
  vp_primary :: "operator option"

definition no_chart :: chart where
  "no_chart = \<lparr>ch_version = [], ch_window = [], ch_served = [], ch_stored = [], ch_tag = [], ch_path = []\<rparr>"

definition empty_plan :: version_plan where
  "empty_plan = \<lparr>vp_scope = [], vp_strimzi = [], vp_source = [], vp_pinned = False, vp_adopted = False, vp_pin = [], vp_chart_path = [],
     vp_chart_dir = [], vp_window = [], vp_kafka_version = [], vp_kafka_defaulted = False, vp_metadata = [], vp_floor = [], vp_watch = [],
     vp_action = [], vp_installed = [], vp_scope_change = [], vp_notes = [], vp_rolling = [], vp_replace_empty = False,
     vp_replace_crds = [], vp_chart = no_chart, vp_kafka = zero_version, vp_operators = [], vp_primary = None\<rparr>"

record version_options =
  vo_scope :: string
  vo_strimzi :: string
  vo_chart :: string
  vo_kafka :: string
  vo_kafka_name :: string
  vo_kafka_ns :: string
  vo_connect_ns :: string
  vo_with_connect :: bool
  vo_topology :: string
  vo_single_ns :: string
  vo_cache_dir :: string
  vo_root :: string
  vo_offline :: bool
  vo_follow :: bool
  vo_yes :: bool

record deploy_outside =
  do_world :: world
  do_reading :: operator_reading
  do_charts :: chart_reading
  do_wrapper :: wrapper_files
  do_read_file :: "string \<Rightarrow> string + string"
  do_app_version :: "string \<Rightarrow> string + string"
  do_annotations :: "string \<Rightarrow> string + (string \<times> string) list"
  do_cache_dir :: "string + string"
  do_kafkas :: "string \<Rightarrow> string + (string \<times> string \<times> string) list"

definition noted :: "string \<Rightarrow> version_plan \<Rightarrow> version_plan" where
  "noted n vp = vp\<lparr>vp_notes := vp_notes vp @ [n]\<rparr>"

definition watch_list :: "version_options \<Rightarrow> string list" where
  "watch_list o' =
     (if vo_topology o' = ''single'' then [vo_single_ns o']
      else if vo_with_connect o' \<and> vo_connect_ns o' \<noteq> vo_kafka_ns o' then [vo_kafka_ns o', vo_connect_ns o'] else [vo_kafka_ns o'])"

definition pinned_strimzi_version :: "deploy_outside \<Rightarrow> string \<Rightarrow> string + string" where
  "pinned_strimzi_version v root =
     (case do_read_file v (path_join [root, operator_chart_dir, ''Chart.yaml'']) of
        Inl e \<Rightarrow> Inl (''reading the operator chart pin: '' @ e @ '' (run from a Kates checkout, or set KATES_CHECKOUT to one)'')
      | Inr data \<Rightarrow>
          (case do_app_version v data of
             Inl e \<Rightarrow> Inl (''parsing '' @ operator_chart_dir @ ''/Chart.yaml: '' @ e)
           | Inr pin \<Rightarrow> if pin = [] then Inl (operator_chart_dir @ ''/Chart.yaml has no appVersion'') else Inr pin))"

definition kafka_floor :: "deploy_outside \<Rightarrow> string \<Rightarrow> string + version" where
  "kafka_floor v root =
     (case do_read_file v (path_join [root, kafka_chart_dir, ''Chart.yaml'']) of
        Inl e \<Rightarrow> Inl (''reading '' @ kafka_chart_dir @ ''/Chart.yaml: '' @ e)
      | Inr data \<Rightarrow>
          (case do_annotations v data of
             Inl e \<Rightarrow> Inl e
           | Inr as \<Rightarrow>
               (let raw = trim_space (case map_of as kafka_floor_key of Some x \<Rightarrow> x | None \<Rightarrow> [])
                in if raw = [] then Inr zero_version
                   else
                     (case parse_version raw of
                        Inl e \<Rightarrow> Inl (''annotation '' @ kafka_floor_key @ '': '' @ cr_version_error (do_charts v) e)
                      | Inr x \<Rightarrow> Inr x))))"

section \<open>The installed operators\<close>

definition operator_watches :: "operator option \<Rightarrow> string \<Rightarrow> bool" where
  "operator_watches p ns \<longleftrightarrow> (case p of Some q \<Rightarrow> list_ex (\<lambda>w. w = watch_all \<or> w = ns) (st_watches q) | None \<Rightarrow> False)"

definition primary_operator :: "operator list \<Rightarrow> string \<Rightarrow> operator option" where
  "primary_operator ops ns =
     (case find (\<lambda>p. st_scope p = watches_cluster) ops of
        Some p \<Rightarrow> Some p
      | None \<Rightarrow> find (\<lambda>p. operator_watches (Some p) ns) ops)"

definition compare_versions :: "string \<Rightarrow> string \<Rightarrow> version_error + int" where
  "compare_versions a b =
     (case parse_version a of
        Inl e \<Rightarrow> Inl e
      | Inr va \<Rightarrow> (case parse_version b of Inl e \<Rightarrow> Inl e | Inr vb \<Rightarrow> Inr (compare_version va vb)))"

text \<open>The first result where the error is dropped: 0 with an error.\<close>

definition compared :: "string \<Rightarrow> string \<Rightarrow> int" where
  "compared a b = (case compare_versions a b of Inl e \<Rightarrow> 0 | Inr n \<Rightarrow> n)"

definition first_line :: "string \<Rightarrow> string" where
  "first_line s = (let i = index_byte s nl in if 0 \<le> i then take (nat i) s else s)"

text \<open>Through a runner that refuses kubectl the first listing fails.\<close>

definition installed_via :: "deploy_outside \<Rightarrow> runner \<Rightarrow> io \<Rightarrow> (string + operator list) \<times> io" where
  "installed_via v r io =
     (case r of
        Live \<Rightarrow> installed_operators (do_reading v) (do_world v) io
      | ChartOnly inner \<Rightarrow>
          (case run_via r (do_world v) operator_pods_argv io of
             (Inl e, io1) \<Rightarrow> (Inl (''list operator pods: '' @ e), io1)
           | (Inr out, io1) \<Rightarrow> installed_operators (do_reading v) (do_world v) io1))"

definition installed_unreadable :: "string \<Rightarrow> runner \<Rightarrow> version_options \<Rightarrow> version_plan \<Rightarrow> string + version_plan" where
  "installed_unreadable err r o' vp =
     (let msg = first_line err; lower = go_to_lower msg
      in if r \<noteq> Live then Inr (noted (''could not list installed operators: '' @ msg) vp)
         else if contains_text lower ''notfound'' \<or> contains_text lower ''not found''
         then Inr (noted (''no installed operator to compare with: '' @ msg) vp)
         else if contains_text lower ''forbidden'' then
           (if vo_follow o' then Inr (noted (''could not list installed operators (not permitted): '' @ msg) vp)
            else Inl (''listing the installed Strimzi operators was refused: '' @ msg @ nl #
              ''  The full profile needs cluster admin; without it, kates deploy --adminless installs onto an operator a cluster admin runs''))
         else if vo_yes o'
         then Inr (noted (''WARNING: installed operators unknown ('' @ msg @ ''); treated as none because of --yes'') vp)
         else Inl (''could not list the installed Strimzi operators: '' @ msg @ nl #
           ''  Retry once the cluster answers, or pass --yes to deploy as if none were installed (an operator that is there is then reset without the version checks)''))"

definition read_installed :: "deploy_outside \<Rightarrow> runner \<Rightarrow> version_options \<Rightarrow> version_plan \<Rightarrow> io \<Rightarrow> (string + version_plan) \<times> io" where
  "read_installed v r o' vp io =
     (case installed_via v r io of
        (Inl e, io1) \<Rightarrow> (installed_unreadable e r o' vp, io1)
      | (Inr ops, io1) \<Rightarrow>
          (let vp1 = vp\<lparr>vp_operators := ops\<rparr>
           in (if ops = [] then Inr vp1
               else if shape ops = ShapeMixed then
                 Inl (''this cluster has both a cluster-wide and namespace-scoped Strimzi operator; kates doctor lists them '' @ dash @
                   '' remove one before deploying'')
               else
                 (case primary_operator ops (vo_kafka_ns o') of
                    None \<Rightarrow> Inr (noted (show_int (int (length ops)) @ '' operator(s) installed, none watches '' @ vo_kafka_ns o' @
                      ''; a new one will be installed'') vp1)
                  | Some p \<Rightarrow> Inr (vp1\<lparr>vp_primary := Some p, vp_installed := st_version p\<rparr>)), io1)))"

section \<open>The operator's version\<close>

definition resolve_scope :: "version_options \<Rightarrow> version_plan \<Rightarrow> string + version_plan" where
  "resolve_scope o' vp =
     (if vo_scope o' = [] \<or> vo_scope o' = scope_cluster then Inr (vp\<lparr>vp_scope := scope_cluster\<rparr>)
      else if vo_scope o' = scope_namespace then Inr (vp\<lparr>vp_scope := scope_namespace, vp_watch := watch_list o'\<rparr>)
      else Inl (''--operator-scope must be '' @ dq # scope_cluster @ dq # '' or '' @ dq # scope_namespace @ dq # '', got '' @ dq # vo_scope o' @ [dq]))"

definition follow_installed_operator :: "version_options \<Rightarrow> string \<Rightarrow> operator \<Rightarrow> version_plan \<Rightarrow> string \<times> version_plan" where
  "follow_installed_operator o' pin p vp =
     (let requested = st_version p;
          vp1 = (if st_scope p = watches_namespaces then vp\<lparr>vp_scope := scope_namespace, vp_watch := watch_list o'\<rparr>
                 else vp\<lparr>vp_scope := scope_cluster, vp_watch := []\<rparr>);
          vp2 = (if requested \<noteq> pin
                 then noted (''admin-less: Kafka follows the installed Strimzi '' @ requested @ '', which only a cluster admin can change'') vp1 else vp1);
          vp3 = (if compared requested pin < 0
                 then noted (''Strimzi '' @ pin @ '' is available (this platform's pin): ask a cluster admin to upgrade the operator, then deploy again for its newer Kafka versions'') vp2
                 else vp2)
      in (requested, vp3))"

text \<open>The version to resolve, once the installed operators are read.\<close>

definition requested_version :: "version_options \<Rightarrow> string \<Rightarrow> version_plan \<Rightarrow> string \<times> version_plan" where
  "requested_version o' pin vp =
     (let asked = trim_space (vo_strimzi o');
          (requested, vp1) =
            (case vp_primary vp of
               Some p \<Rightarrow>
                 (if \<not> vo_follow o' \<and> asked = [] \<and> vo_chart o' = [] \<and> 0 < compared (st_version p) pin
                  then (st_version p, vp\<lparr>vp_adopted := True\<rparr>) else (asked, vp))
             | None \<Rightarrow> (asked, vp))
      in (case vp_primary vp1 of
            Some p \<Rightarrow> if vo_follow o' then follow_installed_operator o' pin p vp1 else (requested, vp1)
          | None \<Rightarrow> (requested, vp1)))"

definition choose_operator_version ::
  "deploy_outside \<Rightarrow> runner option \<Rightarrow> version_options \<Rightarrow> string \<Rightarrow> version_plan \<Rightarrow> io \<Rightarrow> (string + string \<times> version_plan) \<times> io" where
  "choose_operator_version v r o' pin vp io =
     (case r of
        None \<Rightarrow> (Inr (requested_version o' pin vp), io)
      | Some runner \<Rightarrow>
          (case read_installed v runner o' vp io of
             (Inl e, io1) \<Rightarrow> (Inl e, io1)
           | (Inr vp1, io1) \<Rightarrow> (Inr (requested_version o' pin vp1), io1)))"

section \<open>The operator's chart\<close>

definition pinned_operator_chart :: "deploy_outside \<Rightarrow> string \<Rightarrow> bool \<Rightarrow> io \<Rightarrow> (string + string) \<times> io" where
  "pinned_operator_chart v root offline io =
     (case vendored_chart_path (do_charts v) (io_log io) root of
        Inr p \<Rightarrow> (Inr p, io)
      | Inl e \<Rightarrow>
          (if offline then (Inl (''the pinned operator chart is not fetched yet: run `helm dependency build '' @ operator_chart_dir @ ''`''), io)
           else
             (case run_command (do_world v) None [''helm'', ''dependency'', ''build'', path_join [root, operator_chart_dir]] io of
                (Inl e1, io1) \<Rightarrow> (Inl (''fetching the pinned operator chart: '' @ e1), io1)
              | (Inr out, io1) \<Rightarrow> (vendored_chart_path (do_charts v) (io_log io1) root, io1))))"

text \<open>The chart's path, where it came from, and whether it is the pin.\<close>

type_synonym found_chart = "string \<times> string \<times> bool"

definition resolve_named_chart ::
  "deploy_outside \<Rightarrow> runner option \<Rightarrow> version_options \<Rightarrow> string \<Rightarrow> string \<Rightarrow> string \<Rightarrow> io \<Rightarrow> (string + found_chart) \<times> io" where
  "resolve_named_chart v r o' requested pin cache io =
     (if requested = [] \<or> requested = pin then
        (case pinned_operator_chart v (vo_root o') (vo_offline o') io of
           (Inl e, io1) \<Rightarrow> (Inl e, io1)
         | (Inr p, io1) \<Rightarrow> (Inr (p, ''pinned'', True), io1))
      else
        (case parse_version requested of
           Inl e \<Rightarrow> (Inl (''--strimzi-version '' @ dq # requested @ dq # '': expected x.y.z or latest''), io)
         | Inr ver \<Rightarrow>
             (let cached = path_join [cache, chart_file_name requested]
              in if cr_stat (do_charts v) (io_log io) cached = None then (Inr (cached, ''cache'', False), io)
                 else
                   (case if vo_offline o' then None else r of
                      None \<Rightarrow> (Inl (''the Strimzi '' @ requested @ '' chart is not in the cache ('' @ cache @ '') and the network is off''), io)
                    | Some runner \<Rightarrow>
                        (case pull_chart (do_charts v) runner (do_world v) cache requested io of
                           (Inl e, io1) \<Rightarrow> (Inl (''pulling Strimzi '' @ requested @ '': '' @ e), io1)
                         | (Inr p, io1) \<Rightarrow> (Inr (p, ''pulled'', False), io1))))))"

definition resolve_operator_chart ::
  "deploy_outside \<Rightarrow> runner option \<Rightarrow> version_options \<Rightarrow> string \<Rightarrow> string \<Rightarrow> string \<Rightarrow> io \<Rightarrow> (string + found_chart) \<times> io" where
  "resolve_operator_chart v r o' requested pin cache io =
     (if vo_chart o' \<noteq> [] then
        (if contains_text (vo_chart o') ''://''
         then (Inl ''--strimzi-chart takes a local tarball in this version; pull the OCI reference with `helm pull` first'', io)
         else (Inr (vo_chart o', ''chart flag'', False), io))
      else if requested = ''latest'' \<and> requested \<noteq> pin then
        (case if vo_offline o' then None else r of
           None \<Rightarrow> (Inl ''--strimzi-version latest needs the catalogue, which needs the network'', io)
         | Some runner \<Rightarrow>
             (case fetch_catalogue (do_charts v) runner (do_world v) cache False io of
                (Inl e, io1) \<Rightarrow> (Inl (''reading the Strimzi catalogue: '' @ e), io1)
              | (Inr entries, io1) \<Rightarrow>
                  (case newest_entry entries of
                     None \<Rightarrow> (Inl ''the Strimzi catalogue is empty'', io1)
                   | Some x \<Rightarrow> resolve_named_chart v r o' (ce_version x) pin cache io1)))
      else resolve_named_chart v r o' requested pin cache io)"

definition adopted_unreadable :: "operator option \<Rightarrow> string \<Rightarrow> string \<Rightarrow> string" where
  "adopted_unreadable p pin e =
     (let ver = (case p of Some q \<Rightarrow> st_version q | None \<Rightarrow> [])
      in ''the installed Strimzi '' @ ver @ '' is newer than this platform's pin ('' @ pin @ ''), so deploy keeps it '' @ dash @
         '' but its chart could not be read: '' @ e @ nl # ''  Ways forward:'' @ nl #
         ''    - fetch it once:                 helm pull oci://quay.io/strimzi-helm/'' @ strimzi_chart_name @ '' --version '' @ ver @ nl #
         ''    - or deploy against the pin:     kates clean, then kates deploy (an operator downgrade needs the teardown)'')"

definition load_operator_chart ::
  "deploy_outside \<Rightarrow> runner option \<Rightarrow> version_options \<Rightarrow> string \<Rightarrow> string \<Rightarrow> string \<Rightarrow> version_plan \<Rightarrow> io \<Rightarrow> (string + version_plan) \<times> io" where
  "load_operator_chart v r o' requested pin cache vp io =
     (case resolve_operator_chart v r o' requested pin cache io of
        (Inl e, io1) \<Rightarrow> (Inl (if vp_adopted vp then adopted_unreadable (vp_primary vp) pin e else e), io1)
      | (Inr (path, source, pinned), io1) \<Rightarrow>
          (case read_chart (do_charts v) (io_log io1) path of
             Inl e \<Rightarrow> (Inl (''reading the operator chart '' @ path @ '': '' @ e), io1)
           | Inr c \<Rightarrow>
               (if pinned \<and> ch_version c \<noteq> pin
                then (Inl (''the fetched operator chart is '' @ ch_version c @ '' but the pin is '' @ pin @ '': run `helm dependency build '' @ operator_chart_dir @ ''`''), io1)
                else (Inr (vp\<lparr>vp_chart_path := path, vp_source := (if vp_adopted vp then ''installed'' else source), vp_pinned := pinned,
                        vp_chart := c, vp_strimzi := ch_version c, vp_window := window_strings (ch_window c)\<rparr>), io1))))"

definition check_operator_floor :: "deploy_outside \<Rightarrow> version_options \<Rightarrow> string \<Rightarrow> version_plan \<Rightarrow> string + version \<times> version_plan" where
  "check_operator_floor v o' pin vp =
     (let c = vp_chart vp
      in (case kafka_floor v (vo_root o') of
            Inl e \<Rightarrow> Inl e
          | Inr lowest \<Rightarrow>
              (let vp1 = vp\<lparr>vp_floor := version_string lowest\<rparr>; fc = check_primary_floor c lowest
               in if \<not> fc_ok fc
                  then Inl (''the Strimzi '' @ ch_version c @ '' operator cannot run this platform's primary cluster: '' @ fc_reason fc)
                  else Inr (lowest,
                    (if 0 < compared (ch_version c) pin then
                       (if vp_adopted vp1
                        then noted (''Strimzi '' @ ch_version c @ '' is already installed and newer than this platform's pin ('' @ pin @
                          ''): keeping it, and using its Kafka window. Pass --strimzi-version to choose another; going back to '' @ pin @ '' needs `kates clean` first.'') vp1
                        else noted (''Strimzi '' @ ch_version c @ '' is newer than the version this platform release was tested with ('' @ pin @ '')'') vp1)
                     else vp1)))))"

section \<open>The Kafka version\<close>

type_synonym running_kafka = "string \<times> string \<times> string"

definition kafka_list_argv :: "string list" where
  "kafka_list_argv = [''kubectl'', ''get'', ''kafka'', ''-A'', ''-o'', ''json'']"

text \<open>Namespace, name and version of each Kafka the operator watches.\<close>

definition running_kafka_versions :: "deploy_outside \<Rightarrow> runner \<Rightarrow> operator \<Rightarrow> io \<Rightarrow> (string + running_kafka list) \<times> io" where
  "running_kafka_versions v r p io =
     (case run_via r (do_world v) kafka_list_argv io of
        (Inl e, io1) \<Rightarrow> (Inl e, io1)
      | (Inr out, io1) \<Rightarrow>
          (case do_kafkas v out of
             Inl e \<Rightarrow> (Inl (''parsing kafka list: '' @ e), io1)
           | Inr ks \<Rightarrow> (Inr (filter (\<lambda>(ns, n, ver). operator_watches (Some p) ns) ks), io1)))"

definition running_primary_kafka :: "deploy_outside \<Rightarrow> runner option \<Rightarrow> version_options \<Rightarrow> version_plan \<Rightarrow> io \<Rightarrow> version option \<times> io" where
  "running_primary_kafka v r o' vp io =
     (case (r, vp_primary vp) of
        (Some runner, Some p) \<Rightarrow>
          (if vo_kafka_name o' = [] then (None, io)
           else
             (case running_kafka_versions v runner p io of
                (answer, io1) \<Rightarrow>
                  (case find (\<lambda>(ns, n, ver). ns = vo_kafka_ns o' \<and> n = vo_kafka_name o') (case answer of Inr ks \<Rightarrow> ks | Inl e \<Rightarrow> []) of
                     Some (ns, n, ver) \<Rightarrow> (case parse_version ver of Inr x \<Rightarrow> Some x | Inl e \<Rightarrow> None, io1)
                   | None \<Rightarrow> (None, io1))))
      | _ \<Rightarrow> (None, io))"

definition unsupported_kafka_error :: "version \<Rightarrow> chart \<Rightarrow> string \<Rightarrow> string" where
  "unsupported_kafka_error ver c scope =
     ''Kafka '' @ version_string ver @ '' cannot run under Strimzi '' @ ch_version c @ '' (supported: '' @ join_with '' '' (window_strings (ch_window c)) @ '').'' @
     (if scope = scope_cluster
      then nl # ''  A cluster-wide operator watches every namespace, so no second Strimzi can be installed beside it.'' else []) @
     nl # ''  Ways forward:'' @
     nl # ''    - a supported version for the primary:            kates deploy --kafka-version '' @ last (window_strings (ch_window c)) @
     nl # ''    - a different operator whose window has it:        kates versions strimzi'' @
     (if at_least ver min_mirror_source
      then nl # ''    - run it as an additional cluster, not the primary: kates migrate up --from '' @ version_string ver else [])"

definition kept_note :: "version_options \<Rightarrow> version \<Rightarrow> version \<Rightarrow> string" where
  "kept_note o' cur newer =
     vo_kafka_ns o' @ ''/'' @ vo_kafka_name o' @ '' runs Kafka '' @ version_string cur @ '', which deploy keeps; Kafka '' @ version_string newer @
     '' is available: kates deploy --kafka-version '' @ version_string newer @ '' upgrades it (a rolling restart)''"

definition with_kafka :: "version \<Rightarrow> version_plan \<Rightarrow> version_plan" where
  "with_kafka k vp =
     vp\<lparr>vp_kafka := k, vp_kafka_version := version_string k, vp_metadata := metadata_for k (ch_window (vp_chart vp))\<rparr>"

definition choose_kafka_version ::
  "deploy_outside \<Rightarrow> runner option \<Rightarrow> version_options \<Rightarrow> version \<Rightarrow> version_plan \<Rightarrow> io \<Rightarrow> (string + version_plan) \<times> io" where
  "choose_kafka_version v r o' lowest vp io =
     (let w = ch_window (vp_chart vp)
      in if vo_kafka o' = [] \<or> vo_kafka o' = ''latest'' then
           (let newer = (case newest w of Some n \<Rightarrow> n | None \<Rightarrow> zero_version); vp1 = vp\<lparr>vp_kafka_defaulted := True\<rparr>
            in (case running_primary_kafka v r o' vp1 io of
                  (Some cur, io1) \<Rightarrow>
                    (if supports w cur \<and> version_less cur newer then (Inr (with_kafka cur (noted (kept_note o' cur newer) vp1)), io1)
                     else (Inr (with_kafka newer vp1), io1))
                | (None, io1) \<Rightarrow> (Inr (with_kafka newer vp1), io1)))
         else
           (case parse_version (vo_kafka o') of
              Inl e \<Rightarrow> (Inl (''--kafka-version '' @ dq # vo_kafka o' @ dq # '': expected x.y.z or latest''), io)
            | Inr k \<Rightarrow>
                (if \<not> supports w k then (Inl (unsupported_kafka_error k (vp_chart vp) (vp_scope vp)), io)
                 else if lowest \<noteq> zero_version \<and> version_less k lowest
                 then (Inl (''the requested Kafka '' @ version_string k @ '' is below this platform's floor '' @ version_string lowest @ '' ('' @ kafka_floor_key @
                   '') '' @ dash @ '' the primary's configuration needs share groups; run it as an additional cluster instead: kates clusters add --version '' @
                   version_string k), io)
                 else (Inr (with_kafka k vp), io))))"

section \<open>The rails\<close>

definition refused_kafka :: "version_plan \<Rightarrow> running_kafka \<Rightarrow> string" where
  "refused_kafka vp k =
     (case k of (ns, n, ver) \<Rightarrow>
        ns @ ''/'' @ n @ '' runs Kafka '' @ ver @ ''; Strimzi '' @ vp_strimzi vp @ '' supports '' @ join_with '' '' (window_strings (ch_window (vp_chart vp))) @
        '' '' @ dash @ '' upgrade Kafka first (kates deploy --kafka-version '' @ ellipsis @ ''), or move through an operator whose window has both (kates versions strimzi)'')"

fun check_running :: "running_kafka list \<Rightarrow> version_plan \<Rightarrow> string + version_plan" where
  "check_running [] vp = Inr vp"
| "check_running ((ns, n, ver) # ks) vp =
     (case parse_version ver of
        Inl e \<Rightarrow> check_running ks vp
      | Inr x \<Rightarrow>
          (if \<not> supports (ch_window (vp_chart vp)) x then Inl (refused_kafka vp (ns, n, ver))
           else check_running ks (vp\<lparr>vp_rolling := vp_rolling vp @ [ns @ ''/'' @ n @ '' ('' @ ver @ '')'']\<rparr>)))"

definition installed_scope :: "operator \<Rightarrow> string" where
  "installed_scope p = (if st_scope p = watches_namespaces then scope_namespace else scope_cluster)"

text \<open>The change of scope, refused while another operator would share the cluster with a cluster-wide one.\<close>

definition change_scope :: "operator \<Rightarrow> version_plan \<Rightarrow> string + version_plan" where
  "change_scope p vp =
     (if installed_scope p = vp_scope vp then Inr vp
      else
        (case if vp_scope vp = scope_cluster then find (\<lambda>q. st_namespace q \<noteq> st_namespace p) (vp_operators vp) else None of
           Some q \<Rightarrow> Inl (''cannot switch to a cluster-wide operator while an additional operator runs in '' @ st_namespace q @ '' (Strimzi '' @ st_version q @
             ''); remove it first (kates migrate down / kates clusters remove)'')
         | None \<Rightarrow> Inr (vp\<lparr>vp_scope_change := installed_scope p @ '' '' @ arrow @ '' '' @ vp_scope vp\<rparr>)))"

definition refused_downgrade :: "operator \<Rightarrow> version_plan \<Rightarrow> string" where
  "refused_downgrade p vp =
     ''the installed operator is Strimzi '' @ st_version p @ '' and '' @ vp_strimzi vp @ '' was requested: Strimzi does not support downgrading the operator.'' @
     nl # ''  Ways forward:'' @ nl # ''    - keep the installed operator: kates deploy (with no --strimzi-version)'' @
     nl # ''    - go back to '' @ vp_strimzi vp @ '':               kates clean, then deploy again''"

definition compare_installed :: "deploy_outside \<Rightarrow> runner \<Rightarrow> version_plan \<Rightarrow> io \<Rightarrow> (string + version_plan) \<times> io" where
  "compare_installed v r vp io =
     (case vp_primary vp of
        None \<Rightarrow> (Inr vp, io)
      | Some p \<Rightarrow>
          (case change_scope p vp of
             Inl e \<Rightarrow> (Inl e, io)
           | Inr vp1 \<Rightarrow>
               (case upgrade_kind (st_version p) (vp_strimzi vp1) of
                  Inl (what, e) \<Rightarrow> (Inl (what @ cr_version_error (do_charts v) e), io)
                | Inr UpgradeSame \<Rightarrow> (Inr (vp1\<lparr>vp_action := ''same''\<rparr>), io)
                | Inr UpgradeDowngrade \<Rightarrow> (Inl (refused_downgrade p vp1), io)
                | Inr UpgradeUpgrade \<Rightarrow>
                    (let vp2 = vp1\<lparr>vp_action := ''upgrade''\<rparr>
                     in (case running_kafka_versions v r p io of
                           (Inl e, io1) \<Rightarrow> (Inr (noted (''could not list running Kafka clusters: '' @ first_line e) vp2), io1)
                         | (Inr ks, io1) \<Rightarrow> (check_running ks vp2, io1))))))"

definition non_v1_stored_crds :: "(string \<times> string list) list \<Rightarrow> string list" where
  "non_v1_stored_crds stored = stable_sort cmp_string (map fst (filter (\<lambda>(crd, versions). versions \<noteq> [''v1'']) stored))"

definition describe_stored_versions :: "(string \<times> string list) list \<Rightarrow> string list \<Rightarrow> string" where
  "describe_stored_versions stored crds =
     join_with '', ''
       (map (\<lambda>crd. case map_of stored crd of
               Some versions \<Rightarrow> if versions = [] then crd else crd @ '' ('' @ join_with '','' versions @ '')''
             | None \<Rightarrow> crd) crds)"

definition describe_resource_instances :: "resource_instance list \<Rightarrow> nat \<Rightarrow> string" where
  "describe_resource_instances instances limit =
     (let refs = stable_sort cmp_string (map instance_ref instances)
      in if length refs \<le> limit then join_with '', '' refs
         else join_with '', '' (take limit refs) @ '', and '' @ show_int (int (length refs) - int limit) @ '' more'')"

definition check_strimzi_crd_storage :: "deploy_outside \<Rightarrow> version_plan \<Rightarrow> io \<Rightarrow> (string + version_plan) \<times> io" where
  "check_strimzi_crd_storage v vp io =
     (if compared (vp_strimzi vp) strimzi_v1 < 0 then (Inr vp, io)
      else if (case vp_primary vp of Some p \<Rightarrow> 0 \<le> compared (st_version p) strimzi_v1 | None \<Rightarrow> False) then (Inr vp, io)
      else
        (case stored_versions (do_reading v) (do_world v) io of
           (Inl e, io1) \<Rightarrow> (Inl (''checking the stored CRD versions before installing Strimzi '' @ vp_strimzi vp @ '': '' @ e), io1)
         | (Inr stored, io1) \<Rightarrow>
             (let blocking = non_v1_stored_crds stored
              in if blocking = [] then (Inr vp, io1)
                 else
                   (case resource_instances (do_reading v) (do_world v) blocking io1 of
                      (Inl e, io2) \<Rightarrow> (Inl (''checking Strimzi resources before installing Strimzi '' @ vp_strimzi vp @ '': '' @ e), io2)
                    | (Inr instances, io2) \<Rightarrow>
                        (if instances \<noteq> []
                         then (Inl (describe_stored_versions stored blocking @ '' still store non-v1 API data: Strimzi '' @ vp_strimzi vp @
                           '' removes v1beta2, and '' @ show_int (int (length instances)) @ '' Strimzi resource(s) still exist in those CRDs ('' @
                           describe_resource_instances instances 5 @ ''). Run Strimzi's API conversion procedure, then deploy again''), io2)
                         else
                           (Inr (noted (''No custom resources exist for '' @ join_with '', '' blocking @
                              '', so deploy will replace only those empty pre-v1 CRDs before installing Strimzi '' @ vp_strimzi vp @ ''.'')
                              (vp\<lparr>vp_replace_empty := True, vp_replace_crds := blocking\<rparr>)), io2))))))"

definition check_installed_operators :: "deploy_outside \<Rightarrow> runner \<Rightarrow> version_options \<Rightarrow> version_plan \<Rightarrow> io \<Rightarrow> (string + version_plan) \<times> io" where
  "check_installed_operators v r o' vp io =
     (case compare_installed v r vp io of
        (Inl e, io1) \<Rightarrow> (Inl e, io1)
      | (Inr vp1, io1) \<Rightarrow> if r \<noteq> Live \<or> vo_follow o' then (Inr vp1, io1) else check_strimzi_crd_storage v vp1 io1)"

section \<open>The plan\<close>

definition resolve_chart_dir :: "deploy_outside \<Rightarrow> version_options \<Rightarrow> string \<Rightarrow> event list \<Rightarrow> version_plan \<Rightarrow> string + version_plan" where
  "resolve_chart_dir v o' cache log vp =
     (if vp_pinned vp then Inr (vp\<lparr>vp_chart_dir := path_join [vo_root o', operator_chart_dir]\<rparr>)
      else
        (case wrapper_for (do_charts v) (do_wrapper v) log (vo_root o') cache (ch_version (vp_chart vp)) (vp_chart_path vp) of
           Inl e \<Rightarrow> Inl (''preparing the operator chart for '' @ ch_version (vp_chart vp) @ '': '' @ e)
         | Inr dir \<Rightarrow> Inr (vp\<lparr>vp_chart_dir := dir\<rparr>)))"

definition resolve_version_plan :: "deploy_outside \<Rightarrow> runner option \<Rightarrow> version_options \<Rightarrow> io \<Rightarrow> (string + version_plan) \<times> io" where
  "resolve_version_plan v r o' io =
     (case resolve_scope o' empty_plan of
        Inl e \<Rightarrow> (Inl e, io)
      | Inr vp1 \<Rightarrow>
          (case pinned_strimzi_version v (vo_root o') of
             Inl e \<Rightarrow> (Inl e, io)
           | Inr pin \<Rightarrow>
               (case if vo_cache_dir o' = [] then do_cache_dir v else Inr (vo_cache_dir o') of
                  Inl e \<Rightarrow> (Inl e, io)
                | Inr cache \<Rightarrow>
                    (case choose_operator_version v r o' pin (vp1\<lparr>vp_pin := pin\<rparr>) io of
                       (Inl e, io1) \<Rightarrow> (Inl e, io1)
                     | (Inr (requested, vp2), io1) \<Rightarrow>
                         (case load_operator_chart v r o' requested pin cache vp2 io1 of
                            (Inl e, io2) \<Rightarrow> (Inl e, io2)
                          | (Inr vp3, io2) \<Rightarrow>
                              (case check_operator_floor v o' pin vp3 of
                                 Inl e \<Rightarrow> (Inl e, io2)
                               | Inr (lowest, vp4) \<Rightarrow>
                                   (case choose_kafka_version v r o' lowest vp4 io2 of
                                      (Inl e, io3) \<Rightarrow> (Inl e, io3)
                                    | (Inr vp5, io3) \<Rightarrow>
                                        (case (case r of
                                                 None \<Rightarrow> (Inr (vp5\<lparr>vp_action := ''install''\<rparr>), io3)
                                               | Some runner \<Rightarrow> check_installed_operators v runner o' (vp5\<lparr>vp_action := ''install''\<rparr>) io3) of
                                           (Inl e, io4) \<Rightarrow> (Inl e, io4)
                                         | (Inr vp6, io4) \<Rightarrow> (resolve_chart_dir v o' cache (io_log io4) vp6, io4)))))))))"

section \<open>What the installs get of it\<close>

definition operator_helm_args :: "version_plan \<Rightarrow> string list" where
  "operator_helm_args vp =
     (if vp_pinned vp then [] else [''--set'', ''strimziVersion='' @ vp_strimzi vp]) @
     (if vp_scope vp = scope_namespace
      then [''--set'', ''strimzi-kafka-operator.watchAnyNamespace=false'',
            ''--set'', ''strimzi-kafka-operator.watchNamespaces={'' @ join_with '','' (vp_watch vp) @ ''}'']
      else [])"

definition kafka_helm_args :: "version_plan \<Rightarrow> primary_cluster \<Rightarrow> string list" where
  "kafka_helm_args vp p =
     [''--set'', ''clusterName='' @ pk_name p, ''--set-string'', ''kafkaVersion='' @ vp_kafka_version vp,
      ''--set-string'', ''kafka.metadataVersion='' @ vp_metadata vp, ''--set-string'', ''strimziVersion='' @ vp_strimzi vp]"

definition connect_helm_args :: "version_plan \<Rightarrow> string list" where
  "connect_helm_args vp = [''--set-string'', ''version='' @ vp_kafka_version vp]"

definition padded :: "string \<Rightarrow> string" where
  "padded s = s @ replicate (14 - length s) (CHR '' '')"

text \<open>\<open>describe\<close>, a line each; the styling of the notes' sign is left out.\<close>

definition describe_plan :: "string \<Rightarrow> version_plan \<Rightarrow> string list" where
  "describe_plan sign vp =
     (let src = (if vp_pinned vp then ''pinned'' else vp_source vp);
          scope = (if vp_scope vp = scope_namespace then ''namespace-scoped, watching '' @ join_with '', '' (vp_watch vp) else ''cluster-wide'');
          action = (if vp_installed vp \<noteq> [] \<and> vp_action vp \<noteq> ''same'' then vp_action vp @ '' from '' @ vp_installed vp else vp_action vp);
          kdesc = (if vp_kafka_defaulted vp
                   then vp_kafka_version vp @ '' (newest supported by Strimzi '' @ vp_strimzi vp @ ''; --kafka-version to choose another)''
                   else vp_kafka_version vp);
          row = (\<lambda>k t. padded k @ '' '' @ arrow @ '' '' @ t)
      in [row ''Strimzi'' (vp_strimzi vp @ '' ('' @ src @ ''; '' @ scope @ '')''), row ''Operator'' action, row ''Kafka'' kdesc,
          row ''Metadata'' (vp_metadata vp @ '' (window: '' @ join_with '' '' (vp_window vp) @ '')'')] @
         (if vp_scope_change vp \<noteq> [] then [row ''Scope change'' (vp_scope_change vp)] else []) @
         map (\<lambda>n. sign @ n) (vp_notes vp))"

text \<open>The question's answer is Inr; \<open>interactive\<close>: there is a terminal.\<close>

definition confirm_operator_change :: "bool \<Rightarrow> bool \<Rightarrow> string + bool \<Rightarrow> version_plan \<Rightarrow> string option" where
  "confirm_operator_change yes interactive answer vp =
     (let what =
            (if vp_action vp \<noteq> ''upgrade'' then ''change the operator scope '' @ vp_scope_change vp
             else ''upgrade the Strimzi operator '' @ vp_installed vp @ '' '' @ arrow @ '' '' @ vp_strimzi vp @
               (if vp_scope_change vp \<noteq> [] then '' and change its scope '' @ vp_scope_change vp else []))
      in if vp_action vp \<noteq> ''upgrade'' \<and> vp_scope_change vp = [] then None
         else if yes then None
         else if \<not> interactive then Some (''refusing to '' @ what @ '' without confirmation; pass --yes'')
         else (case answer of Inl e \<Rightarrow> Some e | Inr ok \<Rightarrow> if ok then None else Some ''aborted''))"

section \<open>The steps of a plan\<close>

text \<open>The commands are only asked; what is logged stays.\<close>

lemma plan_steps:
  assumes "resolve_version_plan v r o' io = (Inr vp, io')"
  obtains vp1 pin cache requested vp2 io1 vp3 io2 lowest vp4 vp5 io3 vp6 where
    "resolve_scope o' empty_plan = Inr vp1"
    "choose_operator_version v r o' pin (vp1\<lparr>vp_pin := pin\<rparr>) io = (Inr (requested, vp2), io1)"
    "load_operator_chart v r o' requested pin cache vp2 io1 = (Inr vp3, io2)"
    "check_operator_floor v o' pin vp3 = Inr (lowest, vp4)"
    "choose_kafka_version v r o' lowest vp4 io2 = (Inr vp5, io3)"
    "r = None \<and> vp6 = vp5\<lparr>vp_action := ''install''\<rparr> \<and> io' = io3 \<or>
     (\<exists>runner. r = Some runner \<and> check_installed_operators v runner o' (vp5\<lparr>vp_action := ''install''\<rparr>) io3 = (Inr vp6, io'))"
    "resolve_chart_dir v o' cache (io_log io') vp6 = Inr vp"
proof -
  note w = assms [unfolded resolve_version_plan_def]
  obtain vp1 where 1: "resolve_scope o' empty_plan = Inr vp1" using w by (cases "resolve_scope o' empty_plan") auto
  note w = w [unfolded 1 sum.case]
  obtain pin where 2: "pinned_strimzi_version v (vo_root o') = Inr pin" using w by (cases "pinned_strimzi_version v (vo_root o')") auto
  note w = w [unfolded 2 sum.case]
  obtain cache where 3: "(if vo_cache_dir o' = [] then do_cache_dir v else Inr (vo_cache_dir o')) = Inr cache"
    using w by (cases "if vo_cache_dir o' = [] then do_cache_dir v else Inr (vo_cache_dir o')") auto
  note w = w [unfolded 3 sum.case]
  obtain x io1 where x: "choose_operator_version v r o' pin (vp1\<lparr>vp_pin := pin\<rparr>) io = (x, io1)" by (metis surj_pair)
  note w = w [unfolded x prod.case]
  obtain requested vp2 where 4: "x = Inr (requested, vp2)" using w by (cases x) auto
  note w = w [unfolded 4 sum.case prod.case]
  obtain y io2 where y: "load_operator_chart v r o' requested pin cache vp2 io1 = (y, io2)" by (metis surj_pair)
  note w = w [unfolded y prod.case]
  obtain vp3 where 5: "y = Inr vp3" using w by (cases y) auto
  note w = w [unfolded 5 sum.case]
  obtain lowest vp4 where 6: "check_operator_floor v o' pin vp3 = Inr (lowest, vp4)" using w by (cases "check_operator_floor v o' pin vp3") auto
  note w = w [unfolded 6 sum.case prod.case]
  obtain z io3 where z: "choose_kafka_version v r o' lowest vp4 io2 = (z, io3)" by (metis surj_pair)
  note w = w [unfolded z prod.case]
  obtain vp5 where 7: "z = Inr vp5" using w by (cases z) auto
  note w = w [unfolded 7 sum.case]
  let ?a = "vp5\<lparr>vp_action := ''install''\<rparr>"
  let ?t = "case r of None \<Rightarrow> (Inr ?a, io3) | Some runner \<Rightarrow> check_installed_operators v runner o' ?a io3"
  obtain u io4 where u: "?t = (u, io4)" by (metis surj_pair)
  note w = w [unfolded u prod.case]
  obtain vp6 where 8: "u = Inr vp6" using w by (cases u) auto
  note w = w [unfolded 8 sum.case]
  have io: "io4 = io'" and last': "resolve_chart_dir v o' cache (io_log io') vp6 = Inr vp" using w by auto
  have "r = None \<and> vp6 = ?a \<and> io' = io3 \<or> (\<exists>runner. r = Some runner \<and> check_installed_operators v runner o' ?a io3 = (Inr vp6, io'))"
    using u 8 io by (cases r) auto
  then show ?thesis using that [OF 1 x [unfolded 4] y [unfolded 5] 6 z [unfolded 7]] last' by blast
qed

lemma loaded_plan:
  assumes "load_operator_chart v r o' requested pin cache vp io = (Inr vp', io')"
  shows "vp_strimzi vp' = ch_version (vp_chart vp')" "vp_window vp' = window_strings (ch_window (vp_chart vp'))"
    "vp_pinned vp' \<longrightarrow> vp_strimzi vp' = pin" "vp_primary vp' = vp_primary vp" "vp_operators vp' = vp_operators vp" "vp_scope vp' = vp_scope vp"
    "vp_adopted vp' = vp_adopted vp" "vp_scope_change vp' = vp_scope_change vp" "vp_replace_empty vp' = vp_replace_empty vp"
    "\<exists>path source log. fst (resolve_operator_chart v r o' requested pin cache io) = Inr (path, source, vp_pinned vp') \<and>
       read_chart (do_charts v) log path = Inr (vp_chart vp')"
proof -
  note w = assms [unfolded load_operator_chart_def]
  obtain x io1 where x: "resolve_operator_chart v r o' requested pin cache io = (x, io1)" by (metis surj_pair)
  note w = w [unfolded x prod.case]
  obtain path source pinned where 1: "x = Inr (path, source, pinned)" using w by (cases x) auto
  note w = w [unfolded 1 sum.case prod.case]
  obtain c where c: "read_chart (do_charts v) (io_log io1) path = Inr c" using w by (cases "read_chart (do_charts v) (io_log io1) path") auto
  note w = w [unfolded c sum.case]
  have e: "\<not> (pinned \<and> ch_version c \<noteq> pin)"
    "vp' = vp\<lparr>vp_chart_path := path, vp_source := (if vp_adopted vp then ''installed'' else source), vp_pinned := pinned,
       vp_chart := c, vp_strimzi := ch_version c, vp_window := window_strings (ch_window c)\<rparr>" using w by (simp_all split: if_splits)
  show "vp_strimzi vp' = ch_version (vp_chart vp')" "vp_window vp' = window_strings (ch_window (vp_chart vp'))"
    "vp_pinned vp' \<longrightarrow> vp_strimzi vp' = pin" "vp_primary vp' = vp_primary vp" "vp_operators vp' = vp_operators vp" "vp_scope vp' = vp_scope vp"
    "vp_adopted vp' = vp_adopted vp" "vp_scope_change vp' = vp_scope_change vp" "vp_replace_empty vp' = vp_replace_empty vp"
    using e(1) by (auto simp: e(2))
  show "\<exists>path source log. fst (resolve_operator_chart v r o' requested pin cache io) = Inr (path, source, vp_pinned vp') \<and>
       read_chart (do_charts v) log path = Inr (vp_chart vp')" using c by (auto simp: e(2) x 1)
qed

lemma floored_plan:
  assumes "check_operator_floor v o' pin vp = Inr (lowest, vp')"
  shows "kafka_floor v (vo_root o') = Inr lowest" "fc_ok (check_primary_floor (vp_chart vp) lowest)" "\<exists>ns. vp' = vp\<lparr>vp_floor := version_string lowest, vp_notes := ns\<rparr>"
proof -
  note w = assms [unfolded check_operator_floor_def Let_def]
  obtain x where x: "kafka_floor v (vo_root o') = Inr x" using w by (cases "kafka_floor v (vo_root o')") auto
  note w = w [unfolded x sum.case]
  show "kafka_floor v (vo_root o') = Inr lowest" "fc_ok (check_primary_floor (vp_chart vp) lowest)" using w x by (auto split: if_splits)
  let ?f = "vp\<lparr>vp_floor := version_string lowest\<rparr>"
  have "vp' = ?f \<or> (\<exists>n. vp' = noted n ?f)" using w by (auto split: if_splits)
  then show "\<exists>ns. vp' = vp\<lparr>vp_floor := version_string lowest, vp_notes := ns\<rparr>"
  proof
    assume same: "vp' = ?f"
    show ?thesis by (rule exI [of _ "vp_notes vp"]) (simp add: same)
  next
    assume "\<exists>n. vp' = noted n ?f"
    then show ?thesis by (auto simp: noted_def)
  qed
qed

definition kafka_asked :: "version_options \<Rightarrow> bool" where
  "kafka_asked o' \<longleftrightarrow> vo_kafka o' \<noteq> [] \<and> vo_kafka o' \<noteq> ''latest''"

lemma chosen_kafka:
  assumes "choose_kafka_version v r o' lowest vp io = (Inr vp', io')" and w: "ch_window (vp_chart vp) \<noteq> []"
  shows "\<exists>k d ns. vp' = with_kafka k (vp\<lparr>vp_kafka_defaulted := d, vp_notes := ns\<rparr>) \<and> supports (ch_window (vp_chart vp)) k \<and>
    (kafka_asked o' \<longrightarrow> parse_version (vo_kafka o') = Inr k \<and> (lowest = zero_version \<or> at_least k lowest)) \<and>
    (\<not> kafka_asked o' \<longrightarrow> k = last (ch_window (vp_chart vp)) \<or> fst (running_primary_kafka v r o' (vp\<lparr>vp_kafka_defaulted := True\<rparr>) io) = Some k)"
proof (cases "kafka_asked o'")
  case True
  then have not: "\<not> (vo_kafka o' = [] \<or> vo_kafka o' = ''latest'')" by (simp add: kafka_asked_def)
  note q = assms(1) [unfolded choose_kafka_version_def Let_def if_not_P [OF not]]
  obtain k where k: "parse_version (vo_kafka o') = Inr k" using q by (cases "parse_version (vo_kafka o')") auto
  note q = q [unfolded k sum.case]
  have "supports (ch_window (vp_chart vp)) k" "lowest = zero_version \<or> at_least k lowest" "vp' = with_kafka k vp"
    using q by (auto simp: at_least_not_less split: if_splits)
  moreover have "vp = vp\<lparr>vp_kafka_defaulted := vp_kafka_defaulted vp, vp_notes := vp_notes vp\<rparr>" by simp
  ultimately show ?thesis using True k by metis
next
  case False
  then have default: "vo_kafka o' = [] \<or> vo_kafka o' = ''latest''" by (simp add: kafka_asked_def)
  note q = assms(1) [unfolded choose_kafka_version_def Let_def if_P [OF default]]
  let ?d = "vp\<lparr>vp_kafka_defaulted := True\<rparr>"
  obtain cur io1 where cur: "running_primary_kafka v r o' ?d io = (cur, io1)" by (metis surj_pair)
  have n: "newest (ch_window (vp_chart vp)) = Some (last (ch_window (vp_chart vp)))" "supports (ch_window (vp_chart vp)) (last (ch_window (vp_chart vp)))"
    using w by (simp_all add: newest_def supports_def)
  note q = q [unfolded cur prod.case n(1) option.case]
  have own: "?d = vp\<lparr>vp_kafka_defaulted := True, vp_notes := vp_notes vp\<rparr>" by simp
  consider (keep) k where "cur = Some k" "supports (ch_window (vp_chart vp)) k" "\<exists>n. vp' = with_kafka k (noted n ?d)"
    | (newest) "vp' = with_kafka (last (ch_window (vp_chart vp))) ?d"
    using q by (cases cur) (auto split: if_splits)
  then show ?thesis
  proof cases
    case keep
    then show ?thesis using False cur by (auto simp: noted_def)
  next
    case newest
    show ?thesis
      by (rule exI [of _ "last (ch_window (vp_chart vp))"], rule exI [of _ True], rule exI [of _ "vp_notes vp"])
        (use newest n(2) False own in simp)
  qed
qed

lemma running_checked:
  "check_running ks vp = Inr vp' \<Longrightarrow> (\<exists>ro. vp' = vp\<lparr>vp_rolling := ro\<rparr>) \<and>
    list_all (\<lambda>(ns, n, ver). case parse_version ver of Inr x \<Rightarrow> supports (ch_window (vp_chart vp)) x | Inl e \<Rightarrow> True) ks"
proof (induction ks vp rule: check_running.induct)
  case (1 vp)
  then have "vp' = vp\<lparr>vp_rolling := vp_rolling vp\<rparr>" by simp
  then show ?case by (simp only: list.pred_inject) blast
next
  case (2 ns n ver ks vp)
  show ?case
  proof (cases "parse_version ver")
    case (Inl e)
    then show ?thesis using 2 by auto
  next
    case (Inr x)
    then have ok: "supports (ch_window (vp_chart vp)) x" using 2(3) by (auto split: if_splits)
    let ?l = "vp\<lparr>vp_rolling := vp_rolling vp @ [ns @ ''/'' @ n @ '' ('' @ ver @ '')'']\<rparr>"
    have "check_running ks ?l = Inr vp'" using 2(3) Inr ok by simp
    moreover have "\<not> \<not> supports (ch_window (vp_chart vp)) x" using ok by simp
    ultimately have ih: "(\<exists>ro. vp' = ?l\<lparr>vp_rolling := ro\<rparr>) \<and>
      list_all (\<lambda>(ns, n, ver). case parse_version ver of Inr x \<Rightarrow> supports (ch_window (vp_chart ?l)) x | Inl e \<Rightarrow> True) ks"
      using 2(2) [OF Inr] by blast
    have "?l\<lparr>vp_rolling := ro\<rparr> = vp\<lparr>vp_rolling := ro\<rparr>" "ch_window (vp_chart ?l) = ch_window (vp_chart vp)" for ro by simp_all
    then show ?thesis using ih ok Inr by (simp only: list.pred_inject prod.case sum.case)
  qed
qed

lemma scope_changed:
  "change_scope p vp = Inr vp' \<Longrightarrow> \<exists>sc. vp' = vp\<lparr>vp_scope_change := sc\<rparr> \<and> (installed_scope p = vp_scope vp \<longrightarrow> sc = vp_scope_change vp)"
  by (cases "installed_scope p = vp_scope vp") (force simp: change_scope_def split: option.splits)+

text \<open>What an upgrade saw of the running Kafka clusters: all in the window, or a note that they could not be listed.\<close>

definition kafkas_fit :: "deploy_outside \<Rightarrow> runner \<Rightarrow> operator \<Rightarrow> window \<Rightarrow> string list \<Rightarrow> io \<Rightarrow> bool" where
  "kafkas_fit v r p w notes io =
     (case fst (running_kafka_versions v r p io) of
        Inl e \<Rightarrow> ''could not list running Kafka clusters: '' @ first_line e \<in> set notes
      | Inr ks \<Rightarrow> list_all (\<lambda>(ns, n, ver). case parse_version ver of Inr x \<Rightarrow> supports w x | Inl e \<Rightarrow> True) ks)"

text \<open>What the rails let through.\<close>

lemma compared_plan:
  assumes "compare_installed v r vp io = (Inr vp', io')" and p: "vp_primary vp = Some p"
  shows "\<exists>sc a ro ns. vp' = vp\<lparr>vp_scope_change := sc, vp_action := a, vp_rolling := ro, vp_notes := ns\<rparr> \<and>
      (installed_scope p = vp_scope vp \<longrightarrow> sc = vp_scope_change vp)"
    "(upgrade_kind (st_version p) (vp_strimzi vp) = Inr UpgradeSame \<and> vp_action vp' = ''same'') \<or>
     (upgrade_kind (st_version p) (vp_strimzi vp) = Inr UpgradeUpgrade \<and> vp_action vp' = ''upgrade'' \<and>
       kafkas_fit v r p (ch_window (vp_chart vp)) (vp_notes vp') io)"
proof -
  note w = assms(1) [unfolded compare_installed_def p option.case]
  obtain vp1 where 1: "change_scope p vp = Inr vp1" using w by (cases "change_scope p vp") auto
  note w = w [unfolded 1 sum.case]
  from scope_changed [OF 1] obtain sc where sc: "vp1 = vp\<lparr>vp_scope_change := sc\<rparr>" "installed_scope p = vp_scope vp \<longrightarrow> sc = vp_scope_change vp" by blast
  obtain kind where 2: "upgrade_kind (st_version p) (vp_strimzi vp1) = Inr kind"
    using w by (cases "upgrade_kind (st_version p) (vp_strimzi vp1)") (auto split: prod.splits)
  note w = w [unfolded 2 sum.case]
  have both: "(\<exists>sc a ro ns. vp' = vp\<lparr>vp_scope_change := sc, vp_action := a, vp_rolling := ro, vp_notes := ns\<rparr> \<and>
      (installed_scope p = vp_scope vp \<longrightarrow> sc = vp_scope_change vp)) \<and>
    ((kind = UpgradeSame \<and> vp_action vp' = ''same'') \<or>
     (kind = UpgradeUpgrade \<and> vp_action vp' = ''upgrade'' \<and>
       kafkas_fit v r p (ch_window (vp_chart vp)) (vp_notes vp') io))"
  proof (cases kind)
    case UpgradeSame
    then have "vp' = vp1\<lparr>vp_action := ''same''\<rparr>" using w by simp
    then have e: "vp' = vp\<lparr>vp_scope_change := sc, vp_action := ''same'', vp_rolling := vp_rolling vp, vp_notes := vp_notes vp\<rparr>" by (simp add: sc(1))
    then have "vp_action vp' = ''same''" by simp
    then show ?thesis using UpgradeSame sc(2) e by blast
  next
    case UpgradeDowngrade
    then show ?thesis using w by simp
  next
    case UpgradeUpgrade
    note w = w [unfolded UpgradeUpgrade upgrade_kind.case Let_def]
    let ?u = "vp1\<lparr>vp_action := ''upgrade''\<rparr>"
    obtain x io1 where x: "running_kafka_versions v r p io = (x, io1)" by (metis surj_pair)
    note w = w [unfolded x prod.case]
    show ?thesis
    proof (cases x)
      case (Inl e)
      then have "vp' = noted (''could not list running Kafka clusters: '' @ first_line e) ?u" using w by simp
      then have e: "vp' = vp\<lparr>vp_scope_change := sc, vp_action := ''upgrade'', vp_rolling := vp_rolling vp,
        vp_notes := vp_notes vp @ [''could not list running Kafka clusters: '' @ first_line e]\<rparr>" by (simp add: sc(1) noted_def)
      then have "vp_action vp' = ''upgrade''" "kafkas_fit v r p (ch_window (vp_chart vp)) (vp_notes vp') io"
        by (simp_all add: kafkas_fit_def x Inl)
      then show ?thesis using UpgradeUpgrade sc(2) e by blast
    next
      case (Inr ks)
      then have c: "check_running ks ?u = Inr vp'" using w by simp
      then obtain ro where "vp' = ?u\<lparr>vp_rolling := ro\<rparr>" using running_checked by blast
      then have e: "vp' = vp\<lparr>vp_scope_change := sc, vp_action := ''upgrade'', vp_rolling := ro, vp_notes := vp_notes vp\<rparr>" by (simp add: sc(1))
      have w: "ch_window (vp_chart ?u) = ch_window (vp_chart vp)" by (simp add: sc(1))
      have "vp_action vp' = ''upgrade''" "kafkas_fit v r p (ch_window (vp_chart vp)) (vp_notes vp') io"
        using running_checked [OF c, THEN conjunct2] unfolding w by (simp_all add: kafkas_fit_def x Inr e)
      then show ?thesis using UpgradeUpgrade sc(2) e by blast
    qed
  qed
  have kind: "upgrade_kind (st_version p) (vp_strimzi vp) = Inr kind" using 2 by (simp add: sc(1))
  show "\<exists>sc a ro ns. vp' = vp\<lparr>vp_scope_change := sc, vp_action := a, vp_rolling := ro, vp_notes := ns\<rparr> \<and>
      (installed_scope p = vp_scope vp \<longrightarrow> sc = vp_scope_change vp)" using both by blast
  show "(upgrade_kind (st_version p) (vp_strimzi vp) = Inr UpgradeSame \<and> vp_action vp' = ''same'') \<or>
     (upgrade_kind (st_version p) (vp_strimzi vp) = Inr UpgradeUpgrade \<and> vp_action vp' = ''upgrade'' \<and>
       kafkas_fit v r p (ch_window (vp_chart vp)) (vp_notes vp') io)"
    unfolding kind using both by blast
qed

lemma requested_frame:
  assumes "requested_version o' pin vp = (requested, vp')"
  shows "vp_pin vp' = vp_pin vp" "vp_scope_change vp' = vp_scope_change vp" "vp_replace_empty vp' = vp_replace_empty vp" "vp_primary vp' = vp_primary vp"
    "vp_operators vp' = vp_operators vp"
  using assms by (auto simp: requested_version_def follow_installed_operator_def noted_def Let_def split: option.splits if_splits)

lemma read_frame:
  assumes "read_installed v r o' vp io = (Inr vp', io')"
  shows "vp_pin vp' = vp_pin vp" "vp_scope_change vp' = vp_scope_change vp" "vp_replace_empty vp' = vp_replace_empty vp"
proof -
  obtain x io1 where x: "installed_via v r io = (x, io1)" by (metis surj_pair)
  have "vp_pin vp' = vp_pin vp \<and> vp_scope_change vp' = vp_scope_change vp \<and> vp_replace_empty vp' = vp_replace_empty vp"
  proof (cases x)
    case (Inl e)
    then have "installed_unreadable e r o' vp = Inr vp'" using assms x by (simp add: read_installed_def)
    then show ?thesis by (auto simp: installed_unreadable_def noted_def Let_def split: if_splits)
  next
    case (Inr ops)
    then show ?thesis using assms x by (auto simp: read_installed_def noted_def Let_def split: if_splits option.splits)
  qed
  then show "vp_pin vp' = vp_pin vp" "vp_scope_change vp' = vp_scope_change vp" "vp_replace_empty vp' = vp_replace_empty vp" by simp_all
qed

lemma chosen_operator:
  assumes "choose_operator_version v r o' pin vp io = (Inr (requested, vp'), io')"
  shows "\<exists>vp1. (r = None \<and> vp1 = vp \<and> io' = io \<or> (\<exists>runner. r = Some runner \<and> read_installed v runner o' vp io = (Inr vp1, io'))) \<and>
      requested_version o' pin vp1 = (requested, vp')"
    "vp_pin vp' = vp_pin vp" "vp_scope_change vp' = vp_scope_change vp" "vp_replace_empty vp' = vp_replace_empty vp"
proof -
  show steps: "\<exists>vp1. (r = None \<and> vp1 = vp \<and> io' = io \<or> (\<exists>runner. r = Some runner \<and> read_installed v runner o' vp io = (Inr vp1, io'))) \<and>
      requested_version o' pin vp1 = (requested, vp')"
    using assms by (auto simp: choose_operator_version_def split: option.splits sum.splits prod.splits)
  then obtain vp1 where "vp1 = vp \<or> (\<exists>runner. read_installed v runner o' vp io = (Inr vp1, io'))" "requested_version o' pin vp1 = (requested, vp')" by blast
  then show "vp_pin vp' = vp_pin vp" "vp_scope_change vp' = vp_scope_change vp" "vp_replace_empty vp' = vp_replace_empty vp"
    using read_frame requested_frame by (auto 0 3)
qed

lemma upgrade_kind_cases:
  assumes "upgrade_kind a b = Inr kind"
  shows "\<exists>x y. parse_version a = Inr x \<and> parse_version b = Inr y \<and>
    kind = (if x = y then UpgradeSame else if version_less x y then UpgradeUpgrade else UpgradeDowngrade)"
proof -
  obtain x y where xy: "parse_version a = Inr x" "parse_version b = Inr y"
    using assms by (auto simp: upgrade_kind_def split: sum.splits)
  have "compare_version x y = 0 \<longleftrightarrow> x = y" "compare_version x y = - 1 \<longleftrightarrow> version_less x y"
    by (auto simp: compare_version_def cmp_int_def version_less_def split: if_splits)
  then show ?thesis using assms xy by (auto simp: upgrade_kind_def)
qed

lemma loaded_pin: "load_operator_chart v r o' requested pin cache vp io = (Inr vp', io') \<Longrightarrow> vp_pin vp' = vp_pin vp"
  by (auto simp: load_operator_chart_def Let_def split: prod.splits sum.splits if_splits)

lemma storage_checked:
  assumes "check_strimzi_crd_storage v vp io = (Inr vp', io')"
  shows "\<exists>b cs ns. vp' = vp\<lparr>vp_replace_empty := b, vp_replace_crds := cs, vp_notes := ns\<rparr>"
proof -
  have "vp' = vp \<or> (\<exists>n cs. vp' = noted n (vp\<lparr>vp_replace_empty := True, vp_replace_crds := cs\<rparr>))"
    using assms by (auto simp: check_strimzi_crd_storage_def Let_def split: if_splits prod.splits sum.splits)
  then show ?thesis
  proof
    assume "vp' = vp"
    then have "vp' = vp\<lparr>vp_replace_empty := vp_replace_empty vp, vp_replace_crds := vp_replace_crds vp, vp_notes := vp_notes vp\<rparr>" by simp
    then show ?thesis by blast
  qed (auto simp: noted_def)
qed

section \<open>Plans that resolve\<close>

text \<open>The plan keeps its versions through the last two steps.\<close>

definition same_versions :: "version_plan \<Rightarrow> version_plan \<Rightarrow> bool" where
  "same_versions a b \<longleftrightarrow>
     vp_chart a = vp_chart b \<and> vp_strimzi a = vp_strimzi b \<and> vp_pinned a = vp_pinned b \<and> vp_pin a = vp_pin b \<and> vp_window a = vp_window b \<and>
     vp_kafka a = vp_kafka b \<and> vp_kafka_version a = vp_kafka_version b \<and> vp_metadata a = vp_metadata b \<and> vp_primary a = vp_primary b \<and>
     vp_operators a = vp_operators b \<and> vp_scope a = vp_scope b"

lemma checked_frame:
  assumes "check_installed_operators v runner o' vp io = (Inr vp', io')"
  shows "same_versions vp' vp" "\<exists>vp1 io1. compare_installed v runner vp io = (Inr vp1, io1) \<and> same_versions vp1 vp \<and>
      vp_action vp' = vp_action vp1 \<and> vp_scope_change vp' = vp_scope_change vp1 \<and>
      ((runner \<noteq> Live \<or> vo_follow o') \<and> vp' = vp1 \<and> io' = io1 \<or>
       runner = Live \<and> \<not> vo_follow o' \<and> check_strimzi_crd_storage v vp1 io1 = (Inr vp', io'))"
proof -
  note w = assms [unfolded check_installed_operators_def]
  obtain x io1 where x: "compare_installed v runner vp io = (x, io1)" by (metis surj_pair)
  note w = w [unfolded x prod.case]
  obtain vp1 where vp1: "x = Inr vp1" using w by (cases x) auto
  note w = w [unfolded vp1 sum.case]
  have s1: "same_versions vp1 vp"
  proof (cases "vp_primary vp")
    case None
    then show ?thesis using x vp1 by (simp add: compare_installed_def same_versions_def)
  next
    case (Some p)
    then show ?thesis using compared_plan(1) [OF x [unfolded vp1] Some] by (auto simp: same_versions_def)
  qed
  have last': "(runner \<noteq> Live \<or> vo_follow o') \<and> vp' = vp1 \<and> io' = io1 \<or>
       runner = Live \<and> \<not> vo_follow o' \<and> check_strimzi_crd_storage v vp1 io1 = (Inr vp', io')"
    using w by (auto split: if_splits)
  have s2: "same_versions vp' vp1 \<and> vp_action vp' = vp_action vp1 \<and> vp_scope_change vp' = vp_scope_change vp1"
    using last' storage_checked [of v vp1 io1 vp' io'] by (auto simp: same_versions_def)
  show "same_versions vp' vp" using s1 s2 by (simp add: same_versions_def)
  show "\<exists>vp1 io1. compare_installed v runner vp io = (Inr vp1, io1) \<and> same_versions vp1 vp \<and>
      vp_action vp' = vp_action vp1 \<and> vp_scope_change vp' = vp_scope_change vp1 \<and>
      ((runner \<noteq> Live \<or> vo_follow o') \<and> vp' = vp1 \<and> io' = io1 \<or>
       runner = Live \<and> \<not> vo_follow o' \<and> check_strimzi_crd_storage v vp1 io1 = (Inr vp', io'))"
    using x vp1 s1 s2 last' by blast
qed

lemma chart_dir_frame: "resolve_chart_dir v o' cache log vp = Inr vp' \<Longrightarrow> \<exists>d. vp' = vp\<lparr>vp_chart_dir := d\<rparr>"
  by (auto simp: resolve_chart_dir_def split: if_splits sum.splits)

text \<open>What the plan says of the operator that runs: never a downgrade, and the step it takes is the one between the two versions.\<close>

definition operator_step :: "version_plan \<Rightarrow> bool" where
  "operator_step vp \<longleftrightarrow>
     (case vp_primary vp of
        None \<Rightarrow> vp_action vp = ''install''
      | Some p \<Rightarrow>
          (case (parse_version (st_version p), parse_version (vp_strimzi vp)) of
             (Inr a, Inr b) \<Rightarrow> \<not> version_less b a \<and> vp_action vp = (if a = b then ''same'' else ''upgrade'')
           | _ \<Rightarrow> False))"

lemma operator_step_same:
  assumes "same_versions a b" "vp_action a = vp_action b" shows "operator_step a = operator_step b"
proof -
  have e: "vp_primary a = vp_primary b" "vp_strimzi a = vp_strimzi b" using assms(1) by (simp_all add: same_versions_def)
  show ?thesis unfolding operator_step_def e assms(2) by (rule refl)
qed

lemma same_versions_both: "same_versions a c \<Longrightarrow> same_versions b c \<Longrightarrow> same_versions a b"
  by (simp add: same_versions_def)

lemma compared_step:
  assumes "compare_installed v r vp io = (Inr vp', io')" and "vp_action vp = ''install''" and s: "same_versions vp' vp"
  shows "operator_step vp'"
proof (cases "vp_primary vp")
  case None
  then show ?thesis using assms by (simp add: compare_installed_def operator_step_def)
next
  case (Some p)
  from compared_plan(2) [OF assms(1) Some] obtain kind where k: "upgrade_kind (st_version p) (vp_strimzi vp) = Inr kind"
    "kind = UpgradeSame \<and> vp_action vp' = ''same'' \<or> kind = UpgradeUpgrade \<and> vp_action vp' = ''upgrade''" by blast
  from upgrade_kind_cases [OF k(1)] obtain a b where ab: "parse_version (st_version p) = Inr a" "parse_version (vp_strimzi vp) = Inr b"
    "kind = (if a = b then UpgradeSame else if version_less a b then UpgradeUpgrade else UpgradeDowngrade)" by blast
  have "\<not> version_less b a" if "a = b \<or> version_less a b" using that by (auto simp: version_less_iff)
  then show ?thesis using k(2) ab Some s by (auto simp: operator_step_def same_versions_def split: if_splits)
qed

text \<open>
  C5. A plan that resolves. The Kafka it deploys is one the operator's window has, its metadata version is derived from that
  window, and the operator serves the v1 API and runs a Kafka that is not below the platform's floor; a Kafka asked for by name
  is that version, and it is not below the floor. The pin, when it is used, is the version the chart has. And a plan made with
  the cluster at hand never takes the operator that runs back to an older version: it installs one where there is none, keeps
  the one of the same version, and upgrades an older one.
\<close>
theorem plan_safe:
  assumes "resolve_version_plan v r o' io = (Inr vp, io')"
  shows "supports (ch_window (vp_chart vp)) (vp_kafka vp) \<and> vp_kafka_version vp = version_string (vp_kafka vp) \<and>
    vp_metadata vp = metadata_for (vp_kafka vp) (ch_window (vp_chart vp)) \<and> vp_strimzi vp = ch_version (vp_chart vp) \<and>
    ''v1'' \<in> set (ch_served (vp_chart vp)) \<and> (vp_pinned vp \<longrightarrow> vp_strimzi vp = vp_pin vp) \<and>
    (\<exists>lowest. kafka_floor v (vo_root o') = Inr lowest \<and> (\<exists>k\<in>set (ch_window (vp_chart vp)). at_least k lowest) \<and>
       (kafka_asked o' \<longrightarrow> parse_version (vo_kafka o') = Inr (vp_kafka vp) \<and> (lowest = zero_version \<or> at_least (vp_kafka vp) lowest))) \<and>
    (r \<noteq> None \<longrightarrow> operator_step vp)"
proof -
  obtain vp1 pin cache requested vp2 io1 vp3 io2 lowest vp4 vp5 io3 vp6 where scope: "resolve_scope o' empty_plan = Inr vp1" and
    s: "choose_operator_version v r o' pin (vp1\<lparr>vp_pin := pin\<rparr>) io = (Inr (requested, vp2), io1)"
    "load_operator_chart v r o' requested pin cache vp2 io1 = (Inr vp3, io2)"
    "check_operator_floor v o' pin vp3 = Inr (lowest, vp4)"
    "choose_kafka_version v r o' lowest vp4 io2 = (Inr vp5, io3)"
    "r = None \<and> vp6 = vp5\<lparr>vp_action := ''install''\<rparr> \<and> io' = io3 \<or>
     (\<exists>runner. r = Some runner \<and> check_installed_operators v runner o' (vp5\<lparr>vp_action := ''install''\<rparr>) io3 = (Inr vp6, io'))"
    "resolve_chart_dir v o' cache (io_log io') vp6 = Inr vp" by (rule plan_steps [OF assms])
  note l = loaded_plan [OF s(2)] and f = floored_plan [OF s(3)]
  let ?c = "vp_chart vp3"
  obtain ns where vp4: "vp4 = vp3\<lparr>vp_floor := version_string lowest, vp_notes := ns\<rparr>" using f(3) by blast
  have served: "''v1'' \<in> set (ch_served ?c)" and above: "\<exists>k\<in>set (ch_window ?c). at_least k lowest"
    using f(2) by (auto simp: check_primary_floor_def serves_v1_def Let_def list_ex_iff split: if_splits)
  then have "ch_window (vp_chart vp4) \<noteq> []" by (auto simp: vp4)
  from chosen_kafka [OF s(4) this] obtain k d ns' where k: "vp5 = with_kafka k (vp4\<lparr>vp_kafka_defaulted := d, vp_notes := ns'\<rparr>)"
    "supports (ch_window (vp_chart vp4)) k" "kafka_asked o' \<longrightarrow> parse_version (vo_kafka o') = Inr k \<and> (lowest = zero_version \<or> at_least k lowest)" by blast
  let ?i = "vp5\<lparr>vp_action := ''install''\<rparr>"
  have six: "same_versions vp6 ?i \<and> (r \<noteq> None \<longrightarrow> operator_step vp6)"
    using s(5)
  proof
    assume "\<exists>runner. r = Some runner \<and> check_installed_operators v runner o' ?i io3 = (Inr vp6, io')"
    then obtain runner where c: "check_installed_operators v runner o' ?i io3 = (Inr vp6, io')" by blast
    from checked_frame(2) [OF c] obtain vpc ioc where m: "compare_installed v runner ?i io3 = (Inr vpc, ioc)" "same_versions vpc ?i"
      "vp_action vp6 = vp_action vpc" by blast
    have "operator_step vpc" using compared_step [OF m(1) _ m(2)] by simp
    then show ?thesis using checked_frame(1) [OF c] operator_step_same [OF same_versions_both [OF checked_frame(1) [OF c] m(2)] m(3)] by blast
  qed (simp add: same_versions_def)
  obtain dir where vp: "vp = vp6\<lparr>vp_chart_dir := dir\<rparr>" using chart_dir_frame [OF s(6)] by blast
  have pin: "vp_pin vp3 = pin" using loaded_pin [OF s(2)] chosen_operator(2) [OF s(1)] by simp
  have e: "vp_chart vp = ?c" "vp_strimzi vp = vp_strimzi vp3" "vp_pinned vp = vp_pinned vp3" "vp_pin vp = pin" "vp_kafka vp = k"
    "vp_kafka_version vp = version_string k" "vp_metadata vp = metadata_for k (ch_window ?c)"
    using six [THEN conjunct1] pin unfolding same_versions_def vp k(1) vp4 with_kafka_def by simp_all
  have fits: "supports (ch_window ?c) k" using k(2) by (simp add: vp4)
  have "operator_step vp = operator_step vp6" by (rule operator_step_same) (simp_all add: vp same_versions_def)
  then have step: "r \<noteq> None \<longrightarrow> operator_step vp" using six by simp
  show ?thesis unfolding e using fits served above f(1) l(1) l(3) k(3) step by blast
qed

section \<open>An upgrade that resolves\<close>

definition quiet_world :: world where
  "quiet_world = \<lparr>wd_command = (\<lambda>h i a. (Inr [], 0)), wd_pause = (\<lambda>h d. (None, 0))\<rparr>"

lemma quiet_run: "run_command quiet_world i a io = (Inr [], io\<lparr>io_log := (Command i a, Inr []) # io_log io\<rparr>)"
  by (simp add: run_command_def quiet_world_def Let_def)

definition operator_at :: "string \<Rightarrow> string \<Rightarrow> operator" where
  "operator_at img ver = \<lparr>st_namespace = ''strimzi-operator'', st_deployment = ''strimzi-cluster-operator'', st_version = ver,
     st_image = img, st_scope = watches_cluster, st_watches = [watch_all], st_down = False, st_window = [], st_release = [],
     st_app_version = [], st_helm_release = [], st_helm_chart = []\<rparr>"

definition reading_of :: "string \<Rightarrow> operator_reading" where
  "reading_of img = pair_reading\<lparr>or_deployment := (\<lambda>j. Inr \<lparr>dc_name = ''strimzi-cluster-operator'', dc_namespace = ''strimzi-operator'', dc_containers =
       [\<lparr>ct_name = operator_container_name, ct_image = img, ct_env = [\<lparr>ev_name = env_namespace, ev_value = ''*'', ev_from = None\<rparr>]\<rparr>],
       dc_replicas = 1, dc_available = 1\<rparr>)\<rparr>"

definition old_image :: string where "old_image = ''strimzi/operator:1.0.0''"
definition old_operator :: operator where "old_operator = operator_at old_image ''1.0.0''"
definition old_reading :: operator_reading where "old_reading = reading_of old_image"

definition new_images :: string where "new_images = ''4.2.0=k'' @ nl # ''4.3.0=k''"

definition new_chart :: chart where
  "new_chart = \<lparr>ch_version = ''1.1.0'', ch_window = [\<lparr>major = 4, minor = 2, patch = 0\<rparr>, \<lparr>major = 4, minor = 3, patch = 0\<rparr>],
     ch_served = [''v1''], ch_stored = ''v1'', ch_tag = [], ch_path = ''c.tgz''\<rparr>"

definition new_entries :: "(string \<times> string) list" where
  "new_entries = [(''s/Chart.yaml'', []), (''s/templates/_kafka_image_map.tpl'', new_images), (''s/crds/k.yaml'', kafka_crd_name)]"

definition new_reading :: chart_reading where
  "new_reading = \<lparr>cr_entries = (\<lambda>log p. Inr new_entries),
     cr_meta = (\<lambda>d. Inr (strimzi_chart_name, ''1.1.0'', ''1.1.0'')),
     cr_crds = (\<lambda>d. ([(kafka_crd_name, [\<lparr>cv_name = ''v1'', cv_served = True, cv_storage = True\<rparr>])], None)), cr_kinds = (\<lambda>d. ([], None)),
     cr_tag = (\<lambda>d. Inr []), cr_version_error = (\<lambda>e. []), cr_tarballs = (\<lambda>log d. Inr [''c.tgz'']), cr_stat = (\<lambda>log p. None), cr_mkdir = (\<lambda>p. None),
     cr_cached = (\<lambda>log p. None), cr_write_cache = (\<lambda>p es. None), cr_rows = (\<lambda>s. Inr [])\<rparr>"

definition upgrade_outside :: deploy_outside where
  "upgrade_outside = \<lparr>do_world = quiet_world, do_reading = old_reading, do_charts = new_reading,
     do_wrapper = \<lparr>wf_is_dir = (\<lambda>p. True), wf_fresh_copy = (\<lambda>s d. None), wf_read = (\<lambda>p. Inr []), wf_write = (\<lambda>p d. None), wf_add_chart = (\<lambda>s d. None)\<rparr>,
     do_read_file = (\<lambda>p. Inr []), do_app_version = (\<lambda>d. Inr ''1.1.0''), do_annotations = (\<lambda>d. Inr [(kafka_floor_key, ''4.2.0'')]),
     do_cache_dir = Inr ''/cache'', do_kafkas = (\<lambda>j. Inr [(''kafka'', ''krafter'', ''4.2.0'')])\<rparr>"

definition upgrade_options :: version_options where
  "upgrade_options = \<lparr>vo_scope = [], vo_strimzi = [], vo_chart = [], vo_kafka = ''4.3.0'', vo_kafka_name = ''krafter'', vo_kafka_ns = ''kafka'', vo_connect_ns = [],
     vo_with_connect = False, vo_topology = [], vo_single_ns = [], vo_cache_dir = [], vo_root = ''/repo'', vo_offline = False, vo_follow = False, vo_yes = False\<rparr>"

lemma installed_at:
  assumes tag: "image_tag img = ver"
  shows "\<exists>io'. installed_operators (reading_of img) quiet_world io = (Inr [operator_at img ver], io')"
proof -
  have star: "trim_space ''*'' = ''*''" by code_simp
  have env: "\<not> env_kafka_images = env_namespace" by (simp add: env_kafka_images_def env_namespace_def)
  have dep: "parse_operator_deployment (reading_of img) j = Inr (operator_at img ver)" for j
    using env by (simp add: parse_operator_deployment_def reading_of_def operator_container_def container_env_def operator_of_def watch_scope_def star tag
      watch_all_def operator_at_def watches_cluster_def)
  obtain pods ref where ref: "or_pods (reading_of img) [] = Inr pods" "pod_owners pods [] = [ref]"
    by (simp add: reading_of_def pair_reading_def Let_def)
  have rel: "list_releases (reading_of img) quiet_world [] [] x = (Inr [], x\<lparr>io_log := (Command None (''helm'' # release_list_args [] []), Inr []) # io_log x\<rparr>)" for x
  proof -
    have "trim_space [] = []" by code_simp
    then show ?thesis by (simp add: list_releases_def parse_releases_def quiet_run)
  qed
  show ?thesis using ref dep rel by (simp add: installed_operators_def attach_releases_def quiet_run Let_def)
qed

lemma old_installed: "\<exists>io'. installed_operators old_reading quiet_world io = (Inr [old_operator], io')"
proof -
  have "image_tag old_image = ''1.0.0''" by code_simp
  then show ?thesis using installed_at by (simp add: old_reading_def old_operator_def)
qed

lemma demo_versions:
  "parse_version ''4.3.0'' = Inr \<lparr>major = 4, minor = 3, patch = 0\<rparr>" "parse_version ''4.2.0'' = Inr \<lparr>major = 4, minor = 2, patch = 0\<rparr>"
  "parse_version ''1.1.0'' = Inr \<lparr>major = 1, minor = 1, patch = 0\<rparr>" "parse_version ''1.0.0'' = Inr \<lparr>major = 1, minor = 0, patch = 0\<rparr>"
proof -
  show "parse_version ''4.3.0'' = Inr \<lparr>major = 4, minor = 3, patch = 0\<rparr>" by code_simp
  show "parse_version ''4.2.0'' = Inr \<lparr>major = 4, minor = 2, patch = 0\<rparr>" by code_simp
  show "parse_version ''1.1.0'' = Inr \<lparr>major = 1, minor = 1, patch = 0\<rparr>" by code_simp
  show "parse_version ''1.0.0'' = Inr \<lparr>major = 1, minor = 0, patch = 0\<rparr>" by code_simp
qed

lemma entries_read:
  assumes "entries log tgz = Inr new_entries"
  shows "read_chart (new_reading\<lparr>cr_entries := entries, cr_tarballs := tarballs\<rparr>) log tgz = Inr (new_chart\<lparr>ch_path := tgz\<rparr>)"
proof -
  let ?rd = "new_reading\<lparr>cr_entries := entries, cr_tarballs := tarballs\<rparr>"
  have small: "take max_entry_size d = d" if "length d \<le> 16777216" for d :: string using that by (simp add: max_entry_size_def)
  have rel: "chart_rel_path ''s/Chart.yaml'' = ''Chart.yaml''" "chart_rel_path ''s/templates/_kafka_image_map.tpl'' = image_map_file"
    "chart_rel_path ''s/crds/k.yaml'' = ''crds/k.yaml''" "wants ''Chart.yaml''" "wants image_map_file" "wants ''crds/k.yaml''" by code_simp+
  have ne: "image_map_file \<noteq> ''Chart.yaml''" "''crds/k.yaml'' \<noteq> image_map_file" by (simp_all add: image_map_file_def)
  have files: "read_chart_files ?rd log tgz =
      Inr \<lparr>cf_chart = Some [], cf_images = Some new_images, cf_values = None, cf_crds = [(''crds/k.yaml'', kafka_crd_name)]\<rparr>"
    using ne assms by (simp add: read_chart_files_def new_entries_def collect_files_def rel small put_file_def new_images_def kafka_crd_name_def Let_def)
  have lines: "split_on (CHR 0x0A) new_images = [''4.2.0=k'', ''4.3.0=k'']" by (simp add: new_images_def nl_def)
  have line: "version_line ''4.2.0=k'' = Some ''4.2.0''" "version_line ''4.3.0=k'' = Some ''4.3.0''" by code_simp+
  have "\<not> images_marker ''4.2.0=k''" "\<not> images_marker ''4.3.0=k''" by code_simp+
  then have images: "parse_image_map new_images = Inr [\<lparr>major = 4, minor = 2, patch = 0\<rparr>, \<lparr>major = 4, minor = 3, patch = 0\<rparr>]"
    by (simp add: parse_image_map_def lines line demo_versions new_window_def slices_compact_def compare_version_def cmp_int_def Let_def)
  have "contains_text kafka_crd_name kafka_crd_name" by (simp add: contains_text_def)
  then have crd: "parse_kafka_crd ?rd [(''crds/k.yaml'', kafka_crd_name)] = Inr ([''v1''], ''v1'')"
    by (simp add: parse_kafka_crd_def sorted_files_def new_reading_def crd_verdict_def Let_def)
  have "parse_chart_version ?rd [] = Inr ''1.1.0''" by (simp add: parse_chart_version_def new_reading_def)
  then show ?thesis by (simp add: read_chart_def files images crd parse_default_image_tag_def new_chart_def)
qed

lemma new_chart_read: "read_chart new_reading log ''c.tgz'' = Inr new_chart"
  using entries_read [of "cr_entries new_reading" log "''c.tgz''" "cr_tarballs new_reading"] by (simp add: new_reading_def new_chart_def)

lemma upgrade_resolves:
  "\<exists>vp io'. resolve_version_plan upgrade_outside (Some Live) upgrade_options io = (Inr vp, io') \<and> vp_primary vp = Some old_operator \<and>
     vp_action vp = ''upgrade'' \<and> vp_strimzi vp = ''1.1.0'' \<and> vp_kafka_version vp = ''4.3.0''"
proof -
  let ?k = "\<lparr>major = 4, minor = 3, patch = 0\<rparr>" and ?f = "\<lparr>major = 4, minor = 2, patch = 0\<rparr>"
  have trimmed: "trim_space ''4.2.0'' = ''4.2.0''" by code_simp
  have "trim_space [] = []" by code_simp
  note pv = demo_versions trimmed this
  have f: "version_string ?k = ''4.3.0''" by code_simp
  have fields: "do_world upgrade_outside = quiet_world" "do_reading upgrade_outside = old_reading" "do_charts upgrade_outside = new_reading"
    "do_kafkas upgrade_outside j = Inr [(''kafka'', ''krafter'', ''4.2.0'')]" for j by (simp_all add: upgrade_outside_def)
  have scope: "resolve_scope upgrade_options empty_plan = Inr (empty_plan\<lparr>vp_scope := scope_cluster\<rparr>)"
    by (simp add: resolve_scope_def upgrade_options_def)
  have pin: "pinned_strimzi_version upgrade_outside x = Inr ''1.1.0''" for x by (simp add: pinned_strimzi_version_def upgrade_outside_def)
  have floor: "kafka_floor upgrade_outside x = Inr ?f" for x by (simp add: kafka_floor_def upgrade_outside_def pv Let_def)
  have opts: "vo_follow upgrade_options = False" "trim_space (vo_strimzi upgrade_options) = []" "vo_chart upgrade_options = []" "vo_kafka upgrade_options = ''4.3.0''"
    "vo_cache_dir upgrade_options = []" by (simp_all add: upgrade_options_def pv)
  have cache: "do_cache_dir upgrade_outside = Inr ''/cache''" by (simp add: upgrade_outside_def)
  have comp: "compared ''1.0.0'' ''1.1.0'' = - 1" "compared ''1.1.0'' ''1.1.0'' = 0" "compared ''1.1.0'' strimzi_v1 = 1" "compared ''1.0.0'' strimzi_v1 = 0" 
    by (simp_all add: compared_def compare_versions_def strimzi_v1_def demo_versions compare_version_def cmp_int_def)
  have kind: "upgrade_kind ''1.0.0'' ''1.1.0'' = Inr UpgradeUpgrade" by (simp add: upgrade_kind_def demo_versions compare_version_def cmp_int_def)
  have old: "st_version old_operator = ''1.0.0''" "st_watches old_operator = [watch_all]" "st_scope old_operator = watches_cluster" by (simp_all add: old_operator_def operator_at_def)
  have sh: "shape [old_operator] \<noteq> ShapeMixed" "primary_operator [old_operator] ns = Some old_operator" for ns
    by (simp_all add: shape_def primary_operator_def old Let_def)
  obtain io1 where i: "installed_operators old_reading quiet_world io = (Inr [old_operator], io1)" using old_installed by blast
  let ?p2 = "empty_plan\<lparr>vp_scope := scope_cluster, vp_pin := ''1.1.0'', vp_operators := [old_operator], vp_primary := Some old_operator, vp_installed := ''1.0.0''\<rparr>"
  have "read_installed upgrade_outside Live upgrade_options (empty_plan\<lparr>vp_scope := scope_cluster, vp_pin := ''1.1.0''\<rparr>) io = (Inr ?p2, io1)"
    by (simp add: read_installed_def installed_via_def fields i sh old Let_def)
  then have c2: "choose_operator_version upgrade_outside (Some Live) upgrade_options ''1.1.0'' (empty_plan\<lparr>vp_scope := scope_cluster, vp_pin := ''1.1.0''\<rparr>) io =
      (Inr ([], ?p2), io1)"
    by (simp add: choose_operator_version_def requested_version_def opts old comp Let_def)
  have "vendored_chart_path new_reading log x = Inr ''c.tgz''" for log x by (simp add: vendored_chart_path_def new_reading_def Let_def)
  then have found: "resolve_operator_chart upgrade_outside (Some Live) upgrade_options [] ''1.1.0'' ''/cache'' io1 = (Inr (''c.tgz'', ''pinned'', True), io1)"
    by (simp add: resolve_operator_chart_def opts resolve_named_chart_def pinned_operator_chart_def fields)
  have chart: "ch_version new_chart = ''1.1.0''" "ch_window new_chart = [?f, ?k]" "ch_served new_chart = [''v1'']" by (simp_all add: new_chart_def)
  have ad: "vp_adopted ?p2 = False" by (simp add: empty_plan_def)
  obtain p3 where p3: "load_operator_chart upgrade_outside (Some Live) upgrade_options [] ''1.1.0'' ''/cache'' ?p2 io1 = (Inr p3, io1)"
    "vp_chart p3 = new_chart" "vp_strimzi p3 = ''1.1.0''" "vp_primary p3 = Some old_operator" "vp_scope p3 = scope_cluster" "vp_pinned p3"
    by (simp add: load_operator_chart_def found fields new_chart_read chart ad)
  have ok: "fc_ok (check_primary_floor new_chart ?f)" by (simp add: check_primary_floor_def serves_v1_def chart at_least_def compare_version_def cmp_int_def Let_def)
  have p4: "check_operator_floor upgrade_outside upgrade_options ''1.1.0'' p3 = Inr (?f, p3\<lparr>vp_floor := version_string ?f\<rparr>)"
    using ok by (simp add: check_operator_floor_def floor p3(2) chart comp Let_def)
  let ?p4 = "p3\<lparr>vp_floor := version_string ?f\<rparr>"
  have p5: "choose_kafka_version upgrade_outside (Some Live) upgrade_options ?f ?p4 io1 = (Inr (with_kafka ?k ?p4), io1)"
    by (simp add: choose_kafka_version_def opts pv p3(2) chart supports_def version_less_def compare_version_def cmp_int_def)
  let ?p5 = "(with_kafka ?k ?p4)\<lparr>vp_action := ''install''\<rparr>"
  have five: "vp_chart ?p5 = new_chart" "vp_strimzi ?p5 = ''1.1.0''" "vp_primary ?p5 = Some old_operator" "vp_scope ?p5 = scope_cluster" "vp_pinned ?p5"
    "vp_kafka_version ?p5 = ''4.3.0''" using p3 f by (simp_all add: with_kafka_def)
  have listed: "\<exists>io2. running_kafka_versions upgrade_outside Live old_operator io1 = (Inr [(''kafka'', ''krafter'', ''4.2.0'')], io2)"
    by (simp add: running_kafka_versions_def run_via_def fields quiet_run operator_watches_def old)
  then obtain io2 where io2: "running_kafka_versions upgrade_outside Live old_operator io1 = (Inr [(''kafka'', ''krafter'', ''4.2.0'')], io2)" by blast
  have same: "installed_scope old_operator = scope_cluster" by (simp add: installed_scope_def old watches_cluster_def watches_namespaces_def)
  obtain p6 where p6: "compare_installed upgrade_outside Live ?p5 io1 = (Inr p6, io2)" "vp_strimzi p6 = ''1.1.0''" "vp_primary p6 = Some old_operator"
    "vp_action p6 = ''upgrade''" "vp_kafka_version p6 = ''4.3.0''" "vp_pinned p6"
    using five by (simp add: compare_installed_def change_scope_def same old kind io2 pv chart supports_def Let_def)
  have p7: "check_strimzi_crd_storage upgrade_outside p6 io2 = (Inr p6, io2)"
    by (simp add: check_strimzi_crd_storage_def p6 comp old)
  have p8: "check_installed_operators upgrade_outside Live upgrade_options ?p5 io1 = (Inr p6, io2)"
    by (simp add: check_installed_operators_def p6(1) p7 opts)
  have "resolve_version_plan upgrade_outside (Some Live) upgrade_options io =
      (Inr (p6\<lparr>vp_chart_dir := path_join [vo_root upgrade_options, operator_chart_dir]\<rparr>), io2)"
    by (simp add: resolve_version_plan_def scope pin opts cache c2 p3(1) p4 p5 p8 resolve_chart_dir_def p6(6))
  then show ?thesis using p6 by simp
qed

theorem plan_safe_witness:
  "\<exists>vp io'. resolve_version_plan upgrade_outside (Some Live) upgrade_options \<lparr>io_log = [], io_now = 0\<rparr> = (Inr vp, io') \<and>
     vp_action vp = ''upgrade'' \<and> vp_strimzi vp = ''1.1.0'' \<and> operator_step vp \<and> supports (ch_window (vp_chart vp)) (vp_kafka vp)"
proof -
  obtain vp io' where r: "resolve_version_plan upgrade_outside (Some Live) upgrade_options \<lparr>io_log = [], io_now = 0\<rparr> = (Inr vp, io')"
    "vp_action vp = ''upgrade''" "vp_strimzi vp = ''1.1.0''" using upgrade_resolves by blast
  show ?thesis using plan_safe [OF r(1)] r by blast
qed

end
