(* ===== verification/DeployRails.thy ===== *)
theory DeployRails
  imports DeployVersions
begin

text \<open>
  What the plan of \<open>DeployVersions\<close> promises besides its versions: deploy and migrate go by the same operator, a default
  never asks for a downgrade, an admin-less deploy leaves the operator alone, and CRDs are replaced only when nothing is stored
  in them; and two places where the code falls short of what its comments say.
\<close>

section \<open>One primary operator\<close>

lemma attached_scope: "st_scope (attach_release p rs) = st_scope p \<and> st_watches (attach_release p rs) = st_watches p"
  by (induction p rs rule: attach_release.induct) (auto simp: Let_def)

lemma read_scope: "parse_operator_deployment rd json = Inr p \<Longrightarrow> st_scope p = watches_cluster \<Longrightarrow> st_watches p = [watch_all]"
  by (auto simp: parse_operator_deployment_def operator_of_def watch_scope_def watches_cluster_def watches_namespaces_def Let_def
      split: sum.splits option.splits if_splits)

lemma cluster_wide_watches_all:
  assumes "installed_operators rd w io = (Inr ops, io')" "p \<in> set ops" "st_scope p = watches_cluster"
  shows "st_watches p = [watch_all]"
proof -
  from installed_operators_read [OF assms(1)] obtain refs ps rs where m: "mset ops = mset (attach_releases ps rs)"
    and r: "list_all2 (\<lambda>ref p. \<exists>json. (Command None (deployment_argv ref), Inr json) \<in> set (io_log io') \<and> parse_operator_deployment rd json = Inr p) refs ps"
    by blast
  have "p \<in> set (attach_releases ps rs)" using assms(2) m by (metis set_mset_mset)
  then obtain q where q: "q \<in> set ps" "p = attach_release q rs" by (auto simp: attach_releases_def)
  then obtain json where "parse_operator_deployment rd json = Inr q" using r by (auto simp: list_all2_conv_all_nth in_set_conv_nth)
  then show ?thesis using read_scope assms(3) q(2) attached_scope by metis
qed

lemma find_first_match: "filter P xs = [x] \<Longrightarrow> find P xs = Some x"
  by (induction xs) (auto split: if_splits)

text \<open>
  The operator a deploy compares its plan with is the one a migration goes by: of the operators read from a cluster, when
  \<open>pickPrimaryOperator\<close> settles on one for a namespace, \<open>primaryOperator\<close> finds the same. (It may find one where the
  migration refuses, for an installation that is mixed, or where several operators watch the namespace.)
\<close>
theorem same_primary:
  assumes read: "installed_operators rd w io = (Inr ops, io')" and pick: "pick_primary_operator ops ns = Inr p"
  shows "primary_operator ops ns = Some p"
proof -
  have one: "filter (watched_by ns) ops = [p]" using pick by (auto simp: pick_primary_operator_def split: if_splits list.splits)
  have wide: "watched_by ns q" if "q \<in> set ops" "st_scope q = watches_cluster" for q
    using cluster_wide_watches_all [OF read that] by (simp add: watched_by_def)
  have is_p: "q = p" if "q \<in> set ops" "watched_by ns q" for q
  proof -
    have "q \<in> set (filter (watched_by ns) ops)" using that by simp
    then show ?thesis by (simp add: one)
  qed
  have watches: "(\<lambda>q. operator_watches (Some q) ns) = watched_by ns" by (simp add: fun_eq_iff operator_watches_def watched_by_def)
  show ?thesis
  proof (cases "find (\<lambda>q. st_scope q = watches_cluster) ops")
    case None
    then show ?thesis using find_first_match [OF one] by (simp add: primary_operator_def watches)
  next
    case (Some q)
    then have "q \<in> set ops" "st_scope q = watches_cluster" by (auto simp: find_Some_iff)
    then show ?thesis using Some is_p wide by (simp add: primary_operator_def)
  qed
qed

theorem same_primary_witness: "primary_operator [old_operator] ''kafka'' = Some old_operator"
proof -
  obtain io' where r: "installed_operators old_reading quiet_world \<lparr>io_log = [], io_now = 0\<rparr> = (Inr [old_operator], io')" using old_installed by blast
  have "pick_primary_operator [old_operator] ''kafka'' = Inr old_operator"
    by (simp add: pick_primary_operator_def shape_def watched_by_def old_operator_def operator_at_def Let_def)
  then show ?thesis by (rule same_primary [OF r])
qed

section \<open>Defaults and admin-less plans\<close>

text \<open>The chart found under a version's name in a cache is that version's, as \<open>helm pull\<close> names it.\<close>

definition named_charts :: "chart_reading \<Rightarrow> bool" where
  "named_charts rd \<longleftrightarrow> (\<forall>log cache x c. read_chart rd log (path_join [cache, chart_file_name x]) = Inr c \<longrightarrow> ch_version c = x)"

lemma pulled_chart: "pull_chart rd r w cache x io = (Inr p, io') \<Longrightarrow> p = path_join [cache, chart_file_name x]"
  by (auto simp: pull_chart_def Let_def split: option.splits prod.splits sum.splits if_splits)

lemma resolved_name:
  assumes "resolve_named_chart v r o' requested pin cache io = (Inr (path, source, pinned), io')" "requested \<noteq> []" "requested \<noteq> pin"
  shows "path = path_join [cache, chart_file_name requested]"
  using assms pulled_chart
  by (auto simp: resolve_named_chart_def Let_def split: sum.splits option.splits prod.splits if_splits)

lemma loaded_version:
  assumes load: "load_operator_chart v r o' requested pin cache vp io = (Inr vp', io')" and named: "named_charts (do_charts v)"
    and o': "vo_chart o' = []" and req: "requested \<noteq> ''latest''"
  shows "vp_strimzi vp' = (if requested = [] then pin else requested)"
proof -
  from loaded_plan(10) [OF load] obtain path source log where f: "fst (resolve_operator_chart v r o' requested pin cache io) = Inr (path, source, vp_pinned vp')"
    "read_chart (do_charts v) log path = Inr (vp_chart vp')" by blast
  obtain io1 where n: "resolve_named_chart v r o' requested pin cache io = (Inr (path, source, vp_pinned vp'), io1)"
    using f(1) o' req by (cases "resolve_named_chart v r o' requested pin cache io") (simp add: resolve_operator_chart_def)
  show ?thesis
  proof (cases "requested = [] \<or> requested = pin")
    case True
    then have "vp_pinned vp'" using n by (auto simp: resolve_named_chart_def split: prod.splits sum.splits)
    then show ?thesis using loaded_plan(3) [OF load] True by auto
  next
    case False
    then have "path = path_join [cache, chart_file_name requested]" using resolved_name [OF n] by blast
    then have "ch_version (vp_chart vp') = requested" using f(2) named unfolding named_charts_def by blast
    then show ?thesis using loaded_plan(1) [OF load] False by simp
  qed
qed

lemma parsed_name: "parse_version s = Inr x \<Longrightarrow> s \<noteq> [] \<and> s \<noteq> ''latest''"
proof -
  assume p: "parse_version s = Inr x"
  have "isl (parse_version [])" "isl (parse_version ''latest'')" by code_simp+
  then show ?thesis using p by auto
qed

text \<open>The plan before its rails, and what of it the steps in between leave alone.\<close>

definition same_ground :: "version_plan \<Rightarrow> version_plan \<Rightarrow> bool" where
  "same_ground a b \<longleftrightarrow> vp_primary a = vp_primary b \<and> vp_strimzi a = vp_strimzi b \<and> vp_scope a = vp_scope b \<and>
     vp_scope_change a = vp_scope_change b \<and> vp_replace_empty a = vp_replace_empty b \<and> vp_replace_crds a = vp_replace_crds b"

lemma kafka_ground: "choose_kafka_version v r o' lowest vp io = (Inr vp', io') \<Longrightarrow> same_ground vp' vp"
  by (auto simp: choose_kafka_version_def with_kafka_def noted_def same_ground_def Let_def split: if_splits sum.splits option.splits prod.splits)

lemma load_crds: "load_operator_chart v r o' requested pin cache vp io = (Inr vp', io') \<Longrightarrow> vp_replace_crds vp' = vp_replace_crds vp"
  by (auto simp: load_operator_chart_def Let_def split: prod.splits sum.splits if_splits)

lemma requested_crds: "requested_version o' pin vp = (requested, vp') \<Longrightarrow> vp_replace_crds vp' = vp_replace_crds vp"
  by (auto simp: requested_version_def follow_installed_operator_def noted_def Let_def split: option.splits if_splits)

lemma read_crds: "read_installed v r o' vp io = (Inr vp', io') \<Longrightarrow> vp_replace_crds vp' = vp_replace_crds vp"
  by (auto simp: read_installed_def installed_unreadable_def noted_def Let_def split: prod.splits sum.splits if_splits option.splits)

lemma choose_crds: "choose_operator_version v r o' pin vp io = (Inr (requested, vp'), io') \<Longrightarrow> vp_replace_crds vp' = vp_replace_crds vp"
  using requested_crds read_crds by (auto dest!: chosen_operator(1))

lemma plan_ground:
  assumes "resolve_version_plan v r o' io = (Inr vp, io')"
  obtains vp0 pin cache requested vp2 io1 vp3 io2 vp5 io3 vp6 dir where
    "vp_scope_change vp0 = []" "vp_replace_empty vp0 = False" "vp_replace_crds vp0 = []"
    "choose_operator_version v r o' pin vp0 io = (Inr (requested, vp2), io1)"
    "load_operator_chart v r o' requested pin cache vp2 io1 = (Inr vp3, io2)" "same_ground vp5 vp3"
    "r = None \<and> vp6 = vp5\<lparr>vp_action := ''install''\<rparr> \<and> io' = io3 \<or>
     (\<exists>runner. r = Some runner \<and> check_installed_operators v runner o' (vp5\<lparr>vp_action := ''install''\<rparr>) io3 = (Inr vp6, io'))"
    "vp = vp6\<lparr>vp_chart_dir := dir\<rparr>"
proof -
  obtain vp1 pin cache requested vp2 io1 vp3 io2 lowest vp4 vp5 io3 vp6 where scope: "resolve_scope o' empty_plan = Inr vp1" and
    s: "choose_operator_version v r o' pin (vp1\<lparr>vp_pin := pin\<rparr>) io = (Inr (requested, vp2), io1)"
    "load_operator_chart v r o' requested pin cache vp2 io1 = (Inr vp3, io2)"
    "check_operator_floor v o' pin vp3 = Inr (lowest, vp4)"
    "choose_kafka_version v r o' lowest vp4 io2 = (Inr vp5, io3)"
    "r = None \<and> vp6 = vp5\<lparr>vp_action := ''install''\<rparr> \<and> io' = io3 \<or>
     (\<exists>runner. r = Some runner \<and> check_installed_operators v runner o' (vp5\<lparr>vp_action := ''install''\<rparr>) io3 = (Inr vp6, io'))"
    "resolve_chart_dir v o' cache (io_log io') vp6 = Inr vp" by (rule plan_steps [OF assms])
  have 0: "vp_scope_change (vp1\<lparr>vp_pin := pin\<rparr>) = []" "vp_replace_empty (vp1\<lparr>vp_pin := pin\<rparr>) = False" "vp_replace_crds (vp1\<lparr>vp_pin := pin\<rparr>) = []"
    using scope by (auto simp: resolve_scope_def empty_plan_def split: if_splits)
  obtain ns where "vp4 = vp3\<lparr>vp_floor := version_string lowest, vp_notes := ns\<rparr>" using floored_plan(3) [OF s(3)] by blast
  then have "same_ground vp5 vp3" using kafka_ground [OF s(4)] by (simp add: same_ground_def)
  moreover obtain dir where "vp = vp6\<lparr>vp_chart_dir := dir\<rparr>" using chart_dir_frame [OF s(6)] by blast
  ultimately show thesis by (rule that [OF 0 s(1,2) _ s(5)])
qed



section \<open>A cluster whose operator is the pin's\<close>

definition pin_image :: string where "pin_image = ''strimzi/operator:1.1.0''"
definition pin_operator :: operator where "pin_operator = operator_at pin_image ''1.1.0''"

text \<open>The only chart is the vendored one, whose path is empty here, unlike that of any chart in a cache.\<close>

definition pin_charts :: chart_reading where
  "pin_charts = new_reading\<lparr>cr_entries := (\<lambda>log p. if p = [] then Inr new_entries else Inl []), cr_tarballs := (\<lambda>log d. Inr [[]])\<rparr>"

definition pin_outside :: deploy_outside where
  "pin_outside = upgrade_outside\<lparr>do_reading := reading_of pin_image, do_charts := pin_charts\<rparr>"

definition adminless_options :: version_options where
  "adminless_options = upgrade_options\<lparr>vo_follow := True\<rparr>"

lemma pin_chart: "read_chart pin_charts log [] = Inr (new_chart\<lparr>ch_path := []\<rparr>)"
  unfolding pin_charts_def by (rule entries_read) simp

lemma pin_named: "named_charts pin_charts"
proof -
  have "path_join [cache, chart_file_name x] \<noteq> []" for cache x
    by (simp add: path_join_def path_clean_def chart_file_name_def strimzi_chart_name_def Let_def)
  then have "read_chart pin_charts log (path_join [cache, chart_file_name x]) = Inl []" for log cache x
    by (simp add: read_chart_def read_chart_files_def pin_charts_def)
  then show ?thesis by (simp add: named_charts_def)
qed

lemma pin_found: "\<exists>io'. installed_operators (reading_of pin_image) quiet_world io = (Inr [pin_operator], io')"
proof -
  have "image_tag pin_image = ''1.1.0''" by code_simp
  then show ?thesis using installed_at by (simp add: pin_operator_def)
qed

lemma pin_facts:
  "do_world pin_outside = quiet_world" "do_reading pin_outside = reading_of pin_image" "do_charts pin_outside = pin_charts"
  "st_version pin_operator = ''1.1.0''" "st_watches pin_operator = [watch_all]" "st_scope pin_operator = watches_cluster"
  "compared ''1.1.0'' ''1.1.0'' = 0" "shape [pin_operator] \<noteq> ShapeMixed" "primary_operator [pin_operator] ns = Some pin_operator"
  by (simp_all add: pin_outside_def upgrade_outside_def pin_operator_def operator_at_def compared_def compare_versions_def demo_versions compare_version_def
    cmp_int_def shape_def primary_operator_def Let_def)

lemma pin_read:
  "\<exists>io'. read_installed pin_outside Live o' vp io = (Inr (vp\<lparr>vp_operators := [pin_operator], vp_primary := Some pin_operator, vp_installed := ''1.1.0''\<rparr>), io')"
proof -
  obtain io' where "installed_operators (reading_of pin_image) quiet_world io = (Inr [pin_operator], io')" using pin_found by blast
  then show ?thesis by (simp add: read_installed_def installed_via_def pin_facts Let_def)
qed

lemma pin_loaded:
  assumes "vo_chart o' = []" "requested \<in> {[], ''1.1.0''}"
  shows "\<exists>vp'. load_operator_chart pin_outside (Some Live) o' requested ''1.1.0'' cache vp io = (Inr vp', io) \<and>
    vp_chart vp' = new_chart\<lparr>ch_path := []\<rparr> \<and> vp_strimzi vp' = ''1.1.0'' \<and> vp_primary vp' = vp_primary vp \<and> vp_scope vp' = vp_scope vp \<and> vp_pinned vp'"
proof -
  have "vendored_chart_path pin_charts log x = Inr []" for log x by (simp add: vendored_chart_path_def pin_charts_def Let_def)
  then have "resolve_operator_chart pin_outside (Some Live) o' requested ''1.1.0'' cache io = (Inr ([], ''pinned'', True), io)"
    using assms by (auto simp: resolve_operator_chart_def resolve_named_chart_def pinned_operator_chart_def pin_facts)
  then show ?thesis by (simp add: load_operator_chart_def pin_facts pin_chart new_chart_def)
qed


lemma adminless_resolves:
  "\<exists>vp io'. resolve_version_plan pin_outside (Some Live) adminless_options io = (Inr vp, io') \<and> vp_primary vp = Some pin_operator"
proof -
  let ?k = "\<lparr>major = 4, minor = 3, patch = 0\<rparr>" and ?f = "\<lparr>major = 4, minor = 2, patch = 0\<rparr>"
  have trimmed: "trim_space ''4.2.0'' = ''4.2.0''" by code_simp
  have opts: "vo_follow adminless_options" "vo_chart adminless_options = []" "vo_kafka adminless_options = ''4.3.0''" "vo_cache_dir adminless_options = []"
    by (simp_all add: adminless_options_def upgrade_options_def)
  have scope: "resolve_scope adminless_options empty_plan = Inr (empty_plan\<lparr>vp_scope := scope_cluster\<rparr>)"
    by (simp add: resolve_scope_def adminless_options_def upgrade_options_def)
  have pin: "pinned_strimzi_version pin_outside x = Inr ''1.1.0''" for x by (simp add: pinned_strimzi_version_def pin_outside_def upgrade_outside_def)
  have lowest: "kafka_floor pin_outside x = Inr ?f" for x by (simp add: kafka_floor_def pin_outside_def upgrade_outside_def demo_versions trimmed Let_def)
  have cache: "do_cache_dir pin_outside = Inr ''/cache''" by (simp add: pin_outside_def upgrade_outside_def)
  let ?p1 = "empty_plan\<lparr>vp_scope := scope_cluster, vp_pin := ''1.1.0''\<rparr>"
  let ?p2 = "?p1\<lparr>vp_operators := [pin_operator], vp_primary := Some pin_operator, vp_installed := ''1.1.0''\<rparr>"
  obtain io1 where r: "read_installed pin_outside Live adminless_options ?p1 io = (Inr ?p2, io1)" using pin_read by blast
  have kept: "\<not> st_scope pin_operator = watches_namespaces" by (simp add: pin_facts watches_cluster_def watches_namespaces_def)
  have c: "choose_operator_version pin_outside (Some Live) adminless_options ''1.1.0'' ?p1 io = (Inr (''1.1.0'', ?p2\<lparr>vp_scope := scope_cluster, vp_watch := []\<rparr>), io1)"
    by (simp add: choose_operator_version_def r requested_version_def follow_installed_operator_def opts pin_facts(4,7) kept Let_def)
  obtain p3 where p3: "load_operator_chart pin_outside (Some Live) adminless_options ''1.1.0'' ''1.1.0'' ''/cache'' (?p2\<lparr>vp_scope := scope_cluster, vp_watch := []\<rparr>) io1 = (Inr p3, io1)"
    "vp_chart p3 = new_chart\<lparr>ch_path := []\<rparr>" "vp_strimzi p3 = ''1.1.0''" "vp_primary p3 = Some pin_operator" "vp_scope p3 = scope_cluster" "vp_pinned p3"
    using pin_loaded [OF opts(2), of "''1.1.0''" "''/cache''" "?p2\<lparr>vp_scope := scope_cluster, vp_watch := []\<rparr>" io1] by auto
  have chart: "ch_version (vp_chart p3) = ''1.1.0''" "ch_window (vp_chart p3) = [?f, ?k]" "ch_served (vp_chart p3) = [''v1'']" by (simp_all add: p3(2) new_chart_def)
  have "fc_ok (check_primary_floor (vp_chart p3) ?f)" by (simp add: check_primary_floor_def serves_v1_def chart at_least_def compare_version_def cmp_int_def Let_def)
  then have p4: "check_operator_floor pin_outside adminless_options ''1.1.0'' p3 = Inr (?f, p3\<lparr>vp_floor := version_string ?f\<rparr>)"
    by (simp add: check_operator_floor_def lowest chart pin_facts Let_def)
  let ?p4 = "p3\<lparr>vp_floor := version_string ?f\<rparr>"
  have p5: "choose_kafka_version pin_outside (Some Live) adminless_options ?f ?p4 io1 = (Inr (with_kafka ?k ?p4), io1)"
    by (simp add: choose_kafka_version_def opts demo_versions chart supports_def version_less_def compare_version_def cmp_int_def)
  let ?p5 = "(with_kafka ?k ?p4)\<lparr>vp_action := ''install''\<rparr>"
  have five: "vp_strimzi ?p5 = ''1.1.0''" "vp_primary ?p5 = Some pin_operator" "vp_scope ?p5 = scope_cluster" "vp_pinned ?p5"
    using p3 by (simp_all add: with_kafka_def)
  have same: "installed_scope pin_operator = scope_cluster" by (simp add: installed_scope_def kept)
  have kind: "upgrade_kind ''1.1.0'' ''1.1.0'' = Inr UpgradeSame" by (simp add: upgrade_kind_def demo_versions compare_version_def cmp_int_def)
  have p6: "compare_installed pin_outside Live ?p5 io1 = (Inr (?p5\<lparr>vp_action := ''same''\<rparr>), io1)"
    using five by (simp add: compare_installed_def change_scope_def same pin_facts kind)
  have p7: "check_installed_operators pin_outside Live adminless_options ?p5 io1 = (Inr (?p5\<lparr>vp_action := ''same''\<rparr>), io1)"
    unfolding check_installed_operators_def p6 using opts(1) by simp
  have "resolve_version_plan pin_outside (Some Live) adminless_options io =
      (Inr (?p5\<lparr>vp_action := ''same'', vp_chart_dir := path_join [vo_root adminless_options, operator_chart_dir]\<rparr>), io1)"
    using five(4) by (simp add: resolve_version_plan_def scope pin opts cache c p3(1) [simplified] p4 p5 p7 resolve_chart_dir_def)
  then show ?thesis using five(2) by auto
qed


section \<open>Replacing CRDs\<close>

definition instances_argv :: "string \<Rightarrow> string list" where
  "instances_argv crd = [''kubectl'', ''get'', crd, ''-A'', ''-o'', ''json'', ''--ignore-not-found'']"

text \<open>The cluster was asked for the resources of a CRD, and answered that there are none.\<close>

definition seen_empty :: "operator_reading \<Rightarrow> io \<Rightarrow> string \<Rightarrow> bool" where
  "seen_empty rd io crd \<longleftrightarrow> (\<exists>out. (Command None (instances_argv crd), Inr out) \<in> set (io_log io) \<and> parse_resource_instances rd crd out = Inr [])"

lemma list_instances_adds: "list_instances rd w crds io = (x, io') \<Longrightarrow> adds (\<lambda>e. True) io io'"
proof (induction crds arbitrary: io io' x)
  case Nil
  then show ?case by simp
next
  case (Cons crd crds)
  obtain a io1 where a: "run_command w None [''kubectl'', ''get'', crd, ''-A'', ''-o'', ''json'', ''--ignore-not-found''] io = (a, io1)" by (metis surj_pair)
  obtain b io2 where b: "list_instances rd w crds io1 = (b, io2)" by (metis surj_pair)
  have "adds (\<lambda>e. True) io io1" using run_command_adds [OF a] by simp
  moreover have "adds (\<lambda>e. True) io1 io2" by (rule Cons.IH [OF b])
  ultimately show ?case using Cons.prems adds_trans by (auto simp: a b split: sum.splits)
qed

lemma none_listed: "list_instances rd w crds io = (Inr [], io') \<Longrightarrow> list_all (seen_empty rd io') crds"
proof (induction crds arbitrary: io)
  case Nil
  then show ?case by simp
next
  case (Cons crd crds)
  let ?argv = "[''kubectl'', ''get'', crd, ''-A'', ''-o'', ''json'', ''--ignore-not-found'']"
  obtain a io1 where a: "run_command w None ?argv io = (a, io1)" by (metis surj_pair)
  then obtain out where out: "a = Inr out" using Cons.prems by (cases a) auto
  obtain here where here: "parse_resource_instances rd crd out = Inr here" using Cons.prems a out by (cases "parse_resource_instances rd crd out") auto
  obtain b io2 where b: "list_instances rd w crds io1 = (b, io2)" by (metis surj_pair)
  then have e: "here = []" "b = Inr []" "io2 = io'" using Cons.prems a out here by (auto split: sum.splits)
  have "(Command None ?argv, Inr out) \<in> set (io_log io1)" using run_command_event [OF a] out by simp
  then have "(Command None ?argv, Inr out) \<in> set (io_log io')" using adds_keeps [OF list_instances_adds [OF b]] e(3) by simp
  then have "seen_empty rd io' crd" using here e(1) unfolding seen_empty_def instances_argv_def by blast
  then show ?case using Cons.IH b e by simp
qed

definition replacement_checked :: "deploy_outside \<Rightarrow> io \<Rightarrow> version_plan \<Rightarrow> bool" where
  "replacement_checked v io vp \<longleftrightarrow>
     (if vp_replace_empty vp then vp_replace_crds vp \<noteq> [] \<and> list_all (seen_empty (do_reading v) io) (vp_replace_crds vp) else vp_replace_crds vp = [])"

lemma storage_outcome:
  assumes "check_strimzi_crd_storage v vp io = (Inr vp', io')" and off: "\<not> vp_replace_empty vp" "vp_replace_crds vp = []"
  shows "replacement_checked v io' vp'"
proof -
  have same: "replacement_checked v io' vp" using off by (simp add: replacement_checked_def)
  show ?thesis
  proof (cases "compared (vp_strimzi vp) strimzi_v1 < 0 \<or> (case vp_primary vp of Some p \<Rightarrow> 0 \<le> compared (st_version p) strimzi_v1 | None \<Rightarrow> False)")
    case True
    then have "check_strimzi_crd_storage v vp io = (Inr vp, io)" unfolding check_strimzi_crd_storage_def by (cases "compared (vp_strimzi vp) strimzi_v1 < 0") simp_all
    then show ?thesis using same assms(1) by simp
  next
    case False
    then have "\<not> compared (vp_strimzi vp) strimzi_v1 < 0" "\<not> (case vp_primary vp of Some p \<Rightarrow> 0 \<le> compared (st_version p) strimzi_v1 | None \<Rightarrow> False)"
      by blast+
    note w = assms(1) [unfolded check_strimzi_crd_storage_def if_not_P [OF this(1)] if_not_P [OF this(2)]]
    obtain x io1 where x: "stored_versions (do_reading v) (do_world v) io = (x, io1)" by (metis surj_pair)
    note w = w [unfolded x prod.case]
    obtain stored where st: "x = Inr stored" using w by (cases x) auto
    note w = w [unfolded st sum.case Let_def]
    show ?thesis
    proof (cases "non_v1_stored_crds stored = []")
      case True
      then have "vp' = vp" using w by simp
      then show ?thesis using same by simp
    next
      case blocking: False
      note w = w [unfolded if_not_P [OF blocking]]
      obtain y io2 where y: "resource_instances (do_reading v) (do_world v) (non_v1_stored_crds stored) io1 = (y, io2)" by (metis surj_pair)
      note w = w [unfolded y prod.case]
      have e: "y = Inr []" "io2 = io'" "vp_replace_empty vp'" "vp_replace_crds vp' = non_v1_stored_crds stored"
        using w by (auto simp: noted_def split: sum.splits if_splits)
      have "list_all (seen_empty (do_reading v) io') (stable_sort cmp_string (non_v1_stored_crds stored))"
        using none_listed y e(1,2) by (simp add: resource_instances_def)
      then have "list_all (seen_empty (do_reading v) io') (non_v1_stored_crds stored)" by (simp add: list_all_iff)
      then show ?thesis using blocking e(3,4) by (simp add: replacement_checked_def)
    qed
  qed
qed

text \<open>
  C9. CRDs are replaced only when they are empty. A plan that says that CRDs of an older API are to be replaced names at least
  one, was made by a deploy that installs the operator (with the cluster at hand and not admin-less), and of every CRD it names
  the cluster was asked for all resources and answered that there are none; a plan that does not say so names no CRD.
\<close>
theorem replaced_crds_empty:
  "case resolve_version_plan v r o' io of
     (Inl e, io') \<Rightarrow> True
   | (Inr vp, io') \<Rightarrow> replacement_checked v io' vp \<and> (if vp_replace_empty vp then r = Some Live \<and> \<not> vo_follow o' else True)"
proof -
  obtain x io' where x: "resolve_version_plan v r o' io = (x, io')" by (metis surj_pair)
  show ?thesis
  proof (cases x)
    case (Inl e)
    then show ?thesis by (simp add: x)
  next
    case (Inr vp)
    obtain vp0 pin cache requested vp2 io1 vp3 io2 vp5 io3 vp6 dir where
      g: "vp_scope_change vp0 = []" "vp_replace_empty vp0 = False" "vp_replace_crds vp0 = []"
      "choose_operator_version v r o' pin vp0 io = (Inr (requested, vp2), io1)"
      "load_operator_chart v r o' requested pin cache vp2 io1 = (Inr vp3, io2)" "same_ground vp5 vp3"
      "r = None \<and> vp6 = vp5\<lparr>vp_action := ''install''\<rparr> \<and> io' = io3 \<or>
       (\<exists>runner. r = Some runner \<and> check_installed_operators v runner o' (vp5\<lparr>vp_action := ''install''\<rparr>) io3 = (Inr vp6, io'))"
      "vp = vp6\<lparr>vp_chart_dir := dir\<rparr>" by (rule plan_ground [OF x [unfolded Inr]])
    let ?i = "vp5\<lparr>vp_action := ''install''\<rparr>"
    have off: "\<not> vp_replace_empty ?i" "vp_replace_crds ?i = []"
      using g(2,3,6) chosen_operator(4) [OF g(4)] choose_crds [OF g(4)] loaded_plan(9) [OF g(5)] load_crds [OF g(5)] by (simp_all add: same_ground_def)
    have "replacement_checked v io' vp6 \<and> (if vp_replace_empty vp6 then r = Some Live \<and> \<not> vo_follow o' else True)"
      using g(7)
    proof
      assume "r = None \<and> vp6 = ?i \<and> io' = io3"
      then show ?thesis using off by (simp add: replacement_checked_def)
    next
      assume "\<exists>runner. r = Some runner \<and> check_installed_operators v runner o' ?i io3 = (Inr vp6, io')"
      then obtain runner where c: "r = Some runner" "check_installed_operators v runner o' ?i io3 = (Inr vp6, io')" by blast
      from checked_frame(2) [OF c(2)] obtain vpc ioc where m: "compare_installed v runner ?i io3 = (Inr vpc, ioc)"
        "(runner \<noteq> Live \<or> vo_follow o') \<and> vp6 = vpc \<and> io' = ioc \<or>
         runner = Live \<and> \<not> vo_follow o' \<and> check_strimzi_crd_storage v vpc ioc = (Inr vp6, io')" by blast
      have offc: "\<not> vp_replace_empty vpc \<and> vp_replace_crds vpc = []"
      proof (cases "vp_primary ?i")
        case None
        then have "vpc = ?i" using m(1) by (simp add: compare_installed_def)
        then show ?thesis using off by simp
      next
        case (Some p)
        then show ?thesis using compared_plan(1) [OF m(1) Some] off by auto
      qed
      show ?thesis using m(2)
      proof
        assume "(runner \<noteq> Live \<or> vo_follow o') \<and> vp6 = vpc \<and> io' = ioc"
        then show ?thesis using offc by (simp add: replacement_checked_def)
      next
        assume l: "runner = Live \<and> \<not> vo_follow o' \<and> check_strimzi_crd_storage v vpc ioc = (Inr vp6, io')"
        then have "replacement_checked v io' vp6" using storage_outcome offc by blast
        then show ?thesis using l c(1) by simp
      qed
    qed
    then show ?thesis by (simp add: x Inr g(8) replacement_checked_def)
  qed
qed

section \<open>Where the code falls short\<close>

text \<open>
  The primary's configuration needs the floor, so a Kafka below it is refused when it is asked for. A running Kafka below the
  floor is kept by a deploy that asks for none, without a word of the floor.
\<close>
lemma kept_below_floor:
  assumes run: "running_primary_kafka v r o' (vp\<lparr>vp_kafka_defaulted := True\<rparr>) io = (Some cur, io1)" and default: "vo_kafka o' = []"
    and newer: "newest (ch_window (vp_chart vp)) = Some n" "version_less cur n" "supports (ch_window (vp_chart vp)) cur"
    and low: "lowest \<noteq> zero_version" "version_less cur lowest" and name: "parse_version name = Inr cur" "name \<noteq> []" "name \<noteq> ''latest''"
  shows "\<exists>vp'. choose_kafka_version v r o' lowest vp io = (Inr vp', io1) \<and> vp_kafka vp' = cur"
    "\<exists>e. choose_kafka_version v r (o'\<lparr>vo_kafka := name\<rparr>) lowest vp io = (Inl e, io)"
  using assms by (simp_all add: choose_kafka_version_def with_kafka_def Let_def)

text \<open>
  An upgrade is meant to find every running Kafka in the new window; when the list of them cannot be read, it passes with a note.
\<close>
lemma unlisted_upgrade_passes:
  assumes "vp_primary vp = Some p" "installed_scope p = vp_scope vp" "upgrade_kind (st_version p) (vp_strimzi vp) = Inr UpgradeUpgrade"
    and "running_kafka_versions v r p io = (Inl e, io1)"
  shows "\<exists>vp'. compare_installed v r vp io = (Inr vp', io1) \<and> vp_action vp' = ''upgrade''"
  using assms by (simp add: compare_installed_def change_scope_def noted_def Let_def)

text \<open>An admin-less plan is to fit the operator that runs, but a chart given by its flag takes its place, at any version.\<close>

lemma flag_chart_replaces_operator:
  assumes "vo_chart o' \<noteq> []" "\<not> contains_text (vo_chart o') ''://''" "read_chart (do_charts v) (io_log io) (vo_chart o') = Inr c"
  shows "\<exists>vp'. load_operator_chart v r o' requested pin cache vp io = (Inr vp', io) \<and> vp_strimzi vp' = ch_version c"
  using assms by (simp add: load_operator_chart_def resolve_operator_chart_def)

end
