(* ===== verification/Spec2Isabelle.thy ===== *)
theory Spec2Isabelle
  imports KafkaVersion Components DeployScheduler DeployPlan YamlNodes PlacementRules Incoherence Untrusted EditDistance SchemaCheck McpRequests McpCalls MigrationLab MirrorValues MigrationReport PodTools CommandRunner MigrationVerify LabDiscovery Pins LabDown MigrationUp LabCreation Operators MigrationPair OperatorCharts DeployVersions DeployRails
begin

text \<open>
  A verification library for the command line of kates (\<open>cli/\<close>, Go), the tool that deploys a Kafka test platform on
  Kubernetes, checks its configuration, serves its data to language models over MCP, and rehearses the migration of legacy
  Kafka clusters with MirrorMaker 2.

  \<^bold>\<open>The program and its parts.\<close>  A deploy starts the components of a fixed table in the order of what each
  needs, at most three at once. The compliance checker reads a YAML reference, checks it against a schema and looks for
  settings that contradict each other. The MCP server answers calls that run at once, under limits, and shows third-party text
  only fenced. The migration commands build a lab (sources, credentials, a mirror) from options, bring it up, prove that it
  mirrors (verify), rehearse a cutover, find a lab again from the labels on the cluster, and take it down without losing
  records somebody else needs. The migration parts share one way of running commands and one report. Before a
  deploy installs anything it settles which operator, chart and Kafka version the cluster is to run.

  \<^bold>\<open>How the theories model it.\<close>

  Shared: \<open>Kates_Prelude\<close> has the parts of Go's library the sources use on strings, integers kept to 64 bits where
  they can overflow, and the lemma collections; \<open>Ordering\<close> has Go's sorting by a three-way comparison as a locale that
  every comparison of the model interprets.

  Deploy: \<open>KafkaVersion\<close> is \<open>cli/pkg/kafkaversion\<close> (versions, the operator's window, who runs a source);
  \<open>Components\<close> is \<open>cli/pkg/components\<close>; \<open>DeployScheduler\<close> is \<open>cli/cmd/deploy_scheduler.go\<close> as a step
  relation over the installs in flight; \<open>DeployPlan\<close> is \<open>deploy_plan.go\<close> and the table of the pipeline in
  \<open>deploy_components.go\<close>. Shown: at most three installs at once, dependencies first, every component with one outcome
  that follows from its own install and its dependencies', no stuck state and a bound on the steps of a run.
  \<open>Operators\<close>, \<open>OperatorCharts\<close> (\<open>cli/pkg/strimzi\<close>) are the operators found on a cluster, the charts and the
  catalogue; \<open>DeployVersions\<close> is \<open>deploy_versions.go\<close>, \<open>DeployRails\<close> what its plans promise. Shown: a plan that resolves runs a
  Kafka of its operator's window and never takes the operator back, a default is never refused as a downgrade, an admin-less
  plan changes nothing of the operator, CRDs are replaced only when the cluster said that they are empty; rewriting the
  wrapper's Chart.yaml loses nothing but the two versions.

  Compliance (\<open>cli/internal/compliance\<close>): \<open>YamlNodes\<close> (nodes, equality, duplicates, diagnostics),
  \<open>PlacementRules\<close> (integer constraints and the arithmetic of placement), \<open>Incoherence\<close> (the rules, waivers and
  the two passes), \<open>EditDistance\<close> and \<open>SchemaCheck\<close>. Shown: each check equals a declarative specification of
  what it is to find, and the engine reports exactly the rules that fire and are not waived.

  MCP (\<open>cli/cmd/mcp_*.go\<close>): \<open>Untrusted\<close> (sanitiser, fences, last look), \<open>McpRequests\<close> (read-only
  requests, pages), \<open>McpGuard\<close> (errors, admission, envelope) and \<open>McpCalls\<close> (\<open>invoke\<close> as a step relation of
  interleaved calls). Shown: text that leaves the server is clean and fenced, GET requests only read, answers all come from one
  cluster, the count of calls in flight is the number of calls at work, and every call is answered.

  Migration (\<open>cli/pkg/migrate\<close>, \<open>cli/internal/podrun\<close>, \<open>cli/cmd/migrate_*.go\<close>): \<open>MigrationLab\<close> is \<open>New\<close>
  with its validation; \<open>MirrorValues\<close> the values of the mirror and of the sources; \<open>MigrationReport\<close> the report,
  the phase runner, the corpus and the mirror's status; \<open>PodTools\<close> the arguments and the output of the Kafka tools and
  the properties files; \<open>CommandRunner\<close> the commands themselves and the client pods; \<open>MigrationVerify\<close> the phases
  of verify, cutover and rollback; \<open>LabDiscovery\<close> a lab read back from the cluster; \<open>Pins\<close> the pinned releases;
  \<open>LabDown\<close> the removal with its guard; \<open>MigrationUp\<close> the creation and the image build; \<open>LabCreation\<close> what
  they guarantee; \<open>MigrationPair\<close> the pair
  of versions a migration is asked for and the rules for who runs a source. Shown: a lab that \<open>New\<close> accepts is well formed and its mirror's values can be built; names mirrored by
  different sources do not collide; a verify without an error read the whole corpus back from the target and a rehearsal left
  it frozen; discovery restores the lab that was created; down removes no topic with records unasked; up installs nothing
  before every name was found fresh, and when it ends well every part was seen to run; the operator a migration goes by is the
  only one watching the target, and a pair it accepts runs every source under the chart its version calls for.

  \<^bold>\<open>The world.\<close>  A command of the migration is a call of \<open>defaultRunner\<close>. \<open>CommandRunner\<close> has a record
  \<open>world\<close> whose functions give every command's answer and duration from the calls before it, and a state \<open>io\<close> with
  the log of the calls and the clock. An operation takes the state and returns it, its errors are values of \<open>option\<close> or a
  sum, and a theorem about what a run did speaks of the events between two states (\<open>during\<close>). Events are the calls before
  \<open>withImageMirror\<close> adds the settings of a private registry to Helm's arguments.

  \<^bold>\<open>Bounds and termination.\<close>  The polls stop at a deadline on the clock: \<open>CommandRunner\<close> defines them with a
  measure that uses that a pause takes at least its length, and bounds their rounds (\<open>polls_bounded\<close>). The scheduler and
  the calls are step relations with a measure on their states. Other recursion is structural. No definition runs on fuel.

  \<^bold>\<open>Parameters.\<close>  What is not in the repository or not text the model can read is a field of a record: YAML and JSON
  coding, base64, SHA-256, regular expressions, the rate limiter, files. The hypotheses on them are stated where they are
  used, with an instance in the witness.

  \<^bold>\<open>What modelling showed.\<close>  Some lemmas state behaviour that differs from what a comment or another part says:
  a registry that ends in a slash is built under one name and run under another (\<open>slash_registry_differs\<close>); in a
  fan-in two running connectors end the wait for all (\<open>one_source_enough\<close>); a pin with no value panics
  (\<open>empty_pin_panics\<close>); an operator's version asked for is put on the first source whoever runs it
  (\<open>operator_flag_order\<close>); a running Kafka below the floor is kept (\<open>kept_below_floor\<close>), an upgrade passes when the
  running clusters cannot be listed (\<open>unlisted_upgrade_passes\<close>), and an admin-less deploy follows a chart given by its flag
  (\<open>flag_chart_replaces_operator\<close>); an escaped name in a topics pattern is read back as a name (\<open>escape_read_as_name\<close>).

  \<^bold>\<open>Not modelled.\<close>  The installs of single deploy components (lists of Helm settings around one call each), cluster
  detection and its tables, the HTTP client of the backend, the MCP tools behind the guard, the language server and the
  terminal interface (rendering), port forwarding and kind (processes and sockets), Kyverno (another binary's output), the
  printed plan of a migration, reading tar and gzip. The backend (Java), the operator (Rust), the
  agents (Python) and the charts are written in other languages. Hints, warnings and colours are left out everywhere.
\<close>

end
